(* ===== verification/Prelude.thy ===== *)
theory Prelude
  imports Main "HOL-Library.Char_ord" "HOL-Library.List_Lexorder"
begin

text \<open>
  What every theory of the development shares: the result type of an operation that may throw,
  and the key-value storage of a Durable Object, one prefix of it at a time.

  \<^item> A JavaScript function that may throw is a HOL function into \<open>'e + 'a\<close>: \<open>Inl e\<close> is the
    thrown error, \<open>Inr x\<close> the value returned. \<open>rbind\<close> is the sequencing of two such calls.
  \<^item> A Durable Object's storage is a map from string keys to values whose \<open>list\<close> answers a
    prefix in key order. One prefix of it is modelled as an association list kept in key order,
    \<open>'v kv\<close>; the interface the code uses (\<open>get\<close>, \<open>put\<close>, \<open>delete\<close>, the first entry of a
    listing) is the locale \<open>durable_map\<close>, interpreted below on that list.
\<close>

named_theorems kernel_simps \<open>equations of the storage operations\<close>

section \<open>Operations that may throw\<close>

definition rbind :: "'e + 'a \<Rightarrow> ('a \<Rightarrow> 'e + 'b) \<Rightarrow> 'e + 'b" where
  "rbind m f = (case m of Inl e \<Rightarrow> Inl e | Inr x \<Rightarrow> f x)"

lemma rbind_simps [simp]:
  "rbind (Inl e) f = Inl e"
  "rbind (Inr x) f = f x"
  by (simp_all add: rbind_def)

lemma rbind_Inr_iff: "rbind m f = Inr y \<longleftrightarrow> (\<exists>x. m = Inr x \<and> f x = Inr y)"
  by (cases m) auto

lemma rbind_Inr_elim:
  assumes "rbind m f = Inr y"
  obtains x where "m = Inr x" and "f x = Inr y"
  using assms by (auto simp: rbind_Inr_iff)

definition rguard :: "bool \<Rightarrow> 'e \<Rightarrow> 'e + unit" where
  "rguard b e = (if b then Inr () else Inl e)"

lemma rguard_Inr_iff [simp]: "rguard b e = Inr u \<longleftrightarrow> b"
  by (simp add: rguard_def)

text \<open>\<open>map\<close> with a callback that may throw: the first failure is the result.\<close>

fun rmap :: "('a \<Rightarrow> 'e + 'b) \<Rightarrow> 'a list \<Rightarrow> 'e + 'b list" where
  "rmap f [] = Inr []"
| "rmap f (x # xs) = rbind (f x) (\<lambda>y. rbind (rmap f xs) (\<lambda>ys. Inr (y # ys)))"

lemma rmap_Inr_iff: "rmap f xs = Inr ys \<longleftrightarrow> list_all2 (\<lambda>x y. f x = Inr y) xs ys"
  by (induction xs arbitrary: ys) (auto simp: rbind_Inr_iff list_all2_Cons1)

lemma rmap_append: "rmap f (xs @ ys) = rbind (rmap f xs) (\<lambda>us. rbind (rmap f ys) (\<lambda>vs. Inr (us @ vs)))"
  by (induction xs) (auto simp: rbind_def split: sum.splits)

lemma rmap_id: "(\<And>x. x \<in> set xs \<Longrightarrow> f x = Inr x) \<Longrightarrow> rmap f xs = Inr xs"
  by (induction xs) auto

lemma rmap_map: "(\<And>x. x \<in> set xs \<Longrightarrow> f x = Inr (g x)) \<Longrightarrow> rmap f xs = Inr (map g xs)"
  by (induction xs) auto

section \<open>One prefix of a Durable Object's storage\<close>

type_synonym 'v kv = "(string \<times> 'v) list"

definition kv_get :: "'v kv \<Rightarrow> string \<Rightarrow> 'v option" where
  "kv_get m k = map_of m k"

fun kv_put :: "string \<Rightarrow> 'v \<Rightarrow> 'v kv \<Rightarrow> 'v kv" where
  "kv_put k v [] = [(k, v)]"
| "kv_put k v ((k', v') # m) =
     (if k < k' then (k, v) # (k', v') # m
      else if k = k' then (k, v) # m
      else (k', v') # kv_put k v m)"

definition kv_delete :: "string \<Rightarrow> 'v kv \<Rightarrow> 'v kv" where
  "kv_delete k m = filter (\<lambda>(k', _). k' \<noteq> k) m"

definition kv_first :: "'v kv \<Rightarrow> (string \<times> 'v) option" where
  "kv_first m = (case m of [] \<Rightarrow> None | e # _ \<Rightarrow> Some e)"

definition kv_sorted :: "'v kv \<Rightarrow> bool" where
  "kv_sorted m \<longleftrightarrow> sorted_wrt (<) (map fst m)"

lemma kv_get_Nil [simp]: "kv_get [] k = None"
  by (simp add: kv_get_def)

lemma kv_get_put [simp]: "kv_get (kv_put k v m) k' = (if k' = k then Some v else kv_get m k')"
  unfolding kv_get_def by (induction k v m rule: kv_put.induct) auto

lemma kv_get_delete [simp]: "kv_get (kv_delete k m) k' = (if k' = k then None else kv_get m k')"
  unfolding kv_get_def kv_delete_def by (induction m) auto

lemma set_fst_kv_put [simp]: "fst ` set (kv_put k v m) = insert k (fst ` set m)"
  by (induction k v m rule: kv_put.induct) auto

lemma set_kv_put: "set (kv_put k v m) \<subseteq> insert (k, v) (set m)"
  by (induction k v m rule: kv_put.induct) auto

lemma set_kv_delete [simp]: "set (kv_delete k m) = {e \<in> set m. fst e \<noteq> k}"
  by (auto simp: kv_delete_def)

lemma kv_sorted_Nil [simp]: "kv_sorted []"
  by (simp add: kv_sorted_def)

lemma kv_sorted_put [simp]: "kv_sorted m \<Longrightarrow> kv_sorted (kv_put k v m)"
proof (induction k v m rule: kv_put.induct)
  case (2 k v k' v' m)
  have keys: "set (map fst (kv_put k v m)) = insert k (set (map fst m))"
    using set_fst_kv_put [of k v m] by simp
  show ?case
  proof (cases "k' < k")
    case True
    with 2 show ?thesis unfolding kv_sorted_def by (auto simp: keys [simplified])
  next
    case False
    with 2 show ?thesis unfolding kv_sorted_def by (auto dest: order.strict_trans)
  qed
qed (simp add: kv_sorted_def)

lemma kv_sorted_delete [simp]: "kv_sorted m \<Longrightarrow> kv_sorted (kv_delete k m)"
  unfolding kv_sorted_def kv_delete_def by (induction m) auto

lemma kv_sorted_get: "kv_sorted m \<Longrightarrow> kv_get m k = Some v \<longleftrightarrow> (k, v) \<in> set m"
proof (induction m)
  case Nil
  then show ?case by simp
next
  case (Cons e m)
  obtain k0 v0 where e: "e = (k0, v0)" by (cases e)
  from Cons.prems have lt: "\<forall>x \<in> set m. k0 < fst x" and "kv_sorted m"
    by (auto simp: kv_sorted_def e)
  with Cons.IH lt show ?case by (auto simp: kv_get_def e)
qed

lemma kv_get_Some_in: "kv_get m k = Some v \<Longrightarrow> (k, v) \<in> set m"
  unfolding kv_get_def by (rule map_of_SomeD)

lemma kv_get_None_iff: "kv_get m k = None \<longleftrightarrow> k \<notin> fst ` set m"
  unfolding kv_get_def by (rule map_of_eq_None_iff)

lemma kv_delete_absent [simp]: "k \<notin> fst ` set m \<Longrightarrow> kv_delete k m = m"
  unfolding kv_delete_def by (induction m) auto

lemma length_kv_put:
  "length (kv_put k v m) \<le> Suc (length m)"
  by (induction k v m rule: kv_put.induct) auto

lemma length_kv_delete: "length (kv_delete k m) \<le> length m"
  by (simp add: kv_delete_def)

lemma kv_first_Some_iff: "kv_first m = Some e \<longleftrightarrow> (\<exists>m'. m = e # m')"
  by (cases m) (auto simp: kv_first_def)

lemma kv_first_None_iff [simp]: "kv_first m = None \<longleftrightarrow> m = []"
  by (cases m) (auto simp: kv_first_def)

lemma kv_first_least:
  "kv_sorted m \<Longrightarrow> kv_first m = Some (k, v) \<Longrightarrow> (k', v') \<in> set m \<Longrightarrow> k \<le> k'"
  by (fastforce simp: kv_first_Some_iff kv_sorted_def intro: order.strict_implies_order)

lemma kv_first_in: "kv_first m = Some e \<Longrightarrow> e \<in> set m"
  by (auto simp: kv_first_Some_iff)

subsection \<open>The interface\<close>

locale durable_map =
  fixes get :: "'m \<Rightarrow> string \<Rightarrow> 'v option"
    and put :: "string \<Rightarrow> 'v \<Rightarrow> 'm \<Rightarrow> 'm"
    and del :: "string \<Rightarrow> 'm \<Rightarrow> 'm"
    and first_entry :: "'m \<Rightarrow> (string \<times> 'v) option"
    and ok :: "'m \<Rightarrow> bool"
  assumes get_put: "get (put k v m) k' = (if k' = k then Some v else get m k')"
    and get_del: "get (del k m) k' = (if k' = k then None else get m k')"
    and ok_put: "ok m \<Longrightarrow> ok (put k v m)"
    and ok_del: "ok m \<Longrightarrow> ok (del k m)"
    and first_stored: "ok m \<Longrightarrow> first_entry m = Some (k, v) \<Longrightarrow> get m k = Some v"
    and first_none: "first_entry m = None \<Longrightarrow> get m k = None"
    and first_min: "ok m \<Longrightarrow> first_entry m = Some (k, v) \<Longrightarrow> get m k' = Some v' \<Longrightarrow> k \<le> k'"
begin

lemma del_put: "get (del k (put k v m)) k' = (if k' = k then None else get m k')"
  by (simp add: get_put get_del)

lemma first_after_put:
  assumes "ok m" and "first_entry m = Some (k, v)" and "k < k'"
  shows "first_entry (put k' v' m) = Some (k, v)"
proof (cases "first_entry (put k' v' m)")
  case None
  from first_none [OF None, of k'] show ?thesis by (simp add: get_put)
next
  case (Some e)
  obtain k1 v1 where e: "e = (k1, v1)" by (cases e)
  have ok': "ok (put k' v' m)" using assms(1) by (rule ok_put)
  have k: "get (put k' v' m) k = Some v"
    using first_stored [OF assms(1,2)] assms(3) by (auto simp: get_put)
  have "k1 \<le> k" using first_min [OF ok' Some [unfolded e] k] .
  with assms(3) have "k1 \<noteq> k'" by auto
  then have g: "get m k1 = Some v1"
    using first_stored [OF ok' Some [unfolded e]] by (simp add: get_put)
  have "k \<le> k1" using first_min [OF assms(1,2) g] .
  with \<open>k1 \<le> k\<close> have "k1 = k" by simp
  with g first_stored [OF assms(1,2)] Some e show ?thesis by simp
qed

end

interpretation kv: durable_map kv_get kv_put kv_delete kv_first kv_sorted
proof unfold_locales
  fix m :: "'a kv" and k v
  assume "kv_sorted m" and "kv_first m = Some (k, v)"
  then show "kv_get m k = Some v" by (simp add: kv_sorted_get kv_first_in)
next
  fix m :: "'a kv" and k v k' v'
  assume "kv_sorted m" and "kv_first m = Some (k, v)" and "kv_get m k' = Some v'"
  then show "k \<le> k'" by (auto simp: kv_sorted_get dest: kv_first_least)
qed simp_all

end
