(* ===== verification/Js_Strings.thy ===== *)
theory Js_Strings
  imports Prelude "HOL-Library.Word"
begin

text \<open>
  JavaScript strings and the byte budgets the durable kernel puts on them.

  A JavaScript string is a list of UTF-16 code units, \<open>jstr\<close>; \<open>TextEncoder.encode\<close> is
  \<open>utf8_encode\<close>, which writes a surrogate pair as four bytes and a lone surrogate as the three
  bytes of U+FFFD. On top of them are the four routines of the kernel that measure or cut a string
  by its UTF-8 size: \<open>boundedString\<close> and \<open>boundedRunFailureV1\<close>
  (core/durable/run-records.ts), \<open>cutUtf8\<close> and \<open>payloadChunks\<close>
  (core/durable/session-event-log.ts). The loops of the last three are recursive functions with
  their termination proofs.
\<close>

type_synonym jstr = "16 word list"

definition js :: "string \<Rightarrow> jstr" where
  "js s = map (\<lambda>c. of_nat (of_char c)) s"

lemma js_simps [simp]: "js [] = []" "js (c # s) = of_nat (of_char c) # js s"
  by (simp_all add: js_def)

lemma js_append [simp]: "js (s @ t) = js s @ js t"
  by (simp add: js_def)

lemma length_js [simp]: "length (js s) = length s"
  by (simp add: js_def)

section \<open>UTF-8\<close>

definition high_surrogate :: "16 word \<Rightarrow> bool" where
  "high_surrogate c \<longleftrightarrow> 0xD800 \<le> c \<and> c < 0xDC00"

definition low_surrogate :: "16 word \<Rightarrow> bool" where
  "low_surrogate c \<longleftrightarrow> 0xDC00 \<le> c \<and> c < 0xE000"

definition byte :: "nat \<Rightarrow> 8 word" where
  "byte n = of_nat n"

definition encode_unit :: "16 word \<Rightarrow> 8 word list" where
  "encode_unit c =
     (let n = unat c in
      if n < 0x80 then [byte n]
      else if n < 0x800 then [byte (0xC0 + n div 64), byte (0x80 + n mod 64)]
      else if high_surrogate c \<or> low_surrogate c then [0xEF, 0xBF, 0xBD]
      else [byte (0xE0 + n div 4096), byte (0x80 + n div 64 mod 64), byte (0x80 + n mod 64)])"

definition encode_pair :: "16 word \<Rightarrow> 16 word \<Rightarrow> 8 word list" where
  "encode_pair c d =
     (let n = 0x10000 + (unat c mod 1024) * 1024 + unat d mod 1024 in
      [byte (0xF0 + n div 262144), byte (0x80 + n div 4096 mod 64),
       byte (0x80 + n div 64 mod 64), byte (0x80 + n mod 64)])"

fun utf8_encode :: "jstr \<Rightarrow> 8 word list" where
  "utf8_encode [] = []"
| "utf8_encode [c] = encode_unit c"
| "utf8_encode (c # d # s) =
     (if high_surrogate c \<and> low_surrogate d then encode_pair c d @ utf8_encode s
      else encode_unit c @ utf8_encode (d # s))"

definition utf8_length :: "jstr \<Rightarrow> nat" where
  "utf8_length s = length (utf8_encode s)"

abbreviation unit_bytes :: "16 word \<Rightarrow> nat" where
  "unit_bytes c \<equiv> length (encode_unit c)"

lemma unit_bytes_bounds: "1 \<le> unit_bytes c" "unit_bytes c \<le> 3"
  by (auto simp: encode_unit_def Let_def)

lemma unit_bytes_surrogate: "high_surrogate c \<or> low_surrogate c \<Longrightarrow> unit_bytes c = 3"
  by (auto simp: encode_unit_def Let_def high_surrogate_def low_surrogate_def
      word_le_nat_alt word_less_nat_alt)

lemma length_encode_pair [simp]: "length (encode_pair c d) = 4"
  by (simp add: encode_pair_def Let_def)

lemma not_high_and_low: "high_surrogate c \<Longrightarrow> \<not> low_surrogate c"
  by (auto simp: high_surrogate_def low_surrogate_def dest: order.strict_trans1)

lemma utf8_length_Nil [simp]: "utf8_length [] = 0"
  by (simp add: utf8_length_def)

lemma utf8_length_single [simp]: "utf8_length [c] = unit_bytes c"
  by (simp add: utf8_length_def)

lemma utf8_length_Cons2 [simp]:
  "utf8_length (c # d # s) =
     (if high_surrogate c \<and> low_surrogate d then 4 + utf8_length s
      else unit_bytes c + utf8_length (d # s))"
  by (simp add: utf8_length_def)

lemma utf8_length_not_high:
  "\<not> high_surrogate c \<Longrightarrow> utf8_length (c # s) = unit_bytes c + utf8_length s"
  by (cases s) simp_all

lemma utf8_length_le3: "utf8_length s \<le> 3 * length s"
proof (induction s rule: utf8_encode.induct)
  case (2 c)
  show ?case using unit_bytes_bounds(2) [of c] by simp
next
  case (3 c d s)
  then show ?case using unit_bytes_bounds(2) [of c] by (auto split: if_splits)
qed simp

lemma length_le_utf8_length: "length s \<le> utf8_length s"
proof (induction s rule: utf8_encode.induct)
  case (2 c)
  show ?case using unit_bytes_bounds(1) [of c] by simp
next
  case (3 c d s)
  then show ?case using unit_bytes_bounds(1) [of c] by (auto split: if_splits)
qed simp

lemma utf8_length_0_iff [simp]: "utf8_length s = 0 \<longleftrightarrow> s = []"
  using length_le_utf8_length [of s] by auto

lemma utf8_length_append: "utf8_length (s @ t) \<le> utf8_length s + utf8_length t"
proof (induction s rule: utf8_encode.induct)
  case (2 c)
  show ?case
  proof (cases t)
    case (Cons d u)
    have "utf8_length (d # u) = 3 + utf8_length u" if "low_surrogate d"
      using that not_high_and_low [of d] utf8_length_not_high [of d u] unit_bytes_surrogate [of d]
      by auto
    then show ?thesis using Cons unit_bytes_surrogate [of c] by auto
  qed simp
next
  case (3 c d s)
  then show ?case by (auto split: if_splits)
qed simp

lemma utf8_length_append_exact:
  "t = [] \<or> \<not> low_surrogate (hd t) \<Longrightarrow> utf8_length (s @ t) = utf8_length s + utf8_length t"
proof (induction s rule: utf8_encode.induct)
  case (2 c)
  then show ?case by (cases t) auto
next
  case (3 c d s)
  then show ?case by (auto split: if_splits)
qed simp

lemma utf8_length_take: "utf8_length (take n s) \<le> utf8_length s"
proof (induction s arbitrary: n rule: utf8_encode.induct)
  case (2 c)
  then show ?case by (cases n) simp_all
next
  case (3 c d s)
  show ?case
  proof (cases n)
    case (Suc m)
    show ?thesis
    proof (cases m)
      case 0
      then show ?thesis using Suc unit_bytes_surrogate [of c] by simp
    next
      case (Suc k)
      have "take n (c # d # s) = c # d # take k s" using \<open>n = Suc m\<close> Suc by simp
      moreover have "take m (d # s) = d # take k s" using Suc by simp
      ultimately show ?thesis
        using 3 [of k] 3(2) [of m] by (auto split: if_splits)
    qed
  qed simp
qed simp

lemma utf8_length_take_mono: "m \<le> n \<Longrightarrow> utf8_length (take m s) \<le> utf8_length (take n s)"
  using utf8_length_take [of m "take n s"] by (simp add: min_absorb1)

section \<open>Bounded strings\<close>

text \<open>\<open>boundedString\<close>: a string within a byte budget, empty only where the caller allows it.\<close>

definition boundedString :: "jstr \<Rightarrow> nat \<Rightarrow> bool \<Rightarrow> bool" where
  "boundedString value maximum allowEmpty \<longleftrightarrow>
     (allowEmpty \<or> length value > 0) \<and> utf8_length value \<le> maximum"

definition slice0 :: "jstr \<Rightarrow> nat \<Rightarrow> jstr" where
  "slice0 s n = take n s"

definition slice :: "jstr \<Rightarrow> nat \<Rightarrow> nat \<Rightarrow> jstr" where
  "slice s start stop = take (stop - start) (drop start s)"

section \<open>The failure a settlement may write\<close>

definition MAX_RUN_FAILURE_BYTES_V1 :: nat where
  "MAX_RUN_FAILURE_BYTES_V1 = 8000"

definition ellipsis :: jstr where
  "ellipsis = [0x2026]"

text \<open>
  The shrinking loop of \<open>boundedRunFailureV1\<close>. \<open>Math.floor(n * 0.9)\<close> is \<open>9 * n div 10\<close>, and
  \<open>Math.max(0, _ - 1)\<close> is subtraction on \<open>nat\<close>.
\<close>

function cutFailure :: "nat \<Rightarrow> jstr \<Rightarrow> jstr" where
  "cutFailure budget kept =
     (if utf8_length kept > budget
      then cutFailure budget (slice0 kept (9 * length kept div 10 - 1))
      else kept)"
  by pat_completeness auto
termination
proof (relation "measure (\<lambda>(budget, kept). length kept)")
  fix budget and kept :: jstr
  assume "utf8_length kept > budget"
  then have "0 < length kept" by auto
  then have "9 * length kept div 10 - 1 < length kept" by linarith
  then show "((budget, slice0 kept (9 * length kept div 10 - 1)), (budget, kept))
      \<in> measure (\<lambda>(budget, kept). length kept)"
    by (simp add: slice0_def)
qed simp

declare cutFailure.simps [simp del]

definition boundedRunFailureV1 :: "jstr \<Rightarrow> jstr" where
  "boundedRunFailureV1 failure =
     (if utf8_length failure \<le> MAX_RUN_FAILURE_BYTES_V1 then failure
      else (let budget = MAX_RUN_FAILURE_BYTES_V1 - utf8_length ellipsis
            in cutFailure budget failure @ ellipsis))"

lemma cutFailure_fits: "utf8_length (cutFailure budget s) \<le> budget"
proof (induction budget s rule: cutFailure.induct)
  case (1 budget s)
  then show ?case by (subst cutFailure.simps) auto
qed

lemma cutFailure_prefix: "\<exists>n. cutFailure budget s = take n s"
proof (induction budget s rule: cutFailure.induct)
  case (1 budget s)
  show ?case
  proof (cases "utf8_length s > budget")
    case True
    then obtain n where "cutFailure budget (slice0 s (9 * length s div 10 - 1)) =
        take n (slice0 s (9 * length s div 10 - 1))" using 1 by blast
    with True show ?thesis by (subst cutFailure.simps) (auto simp: slice0_def)
  next
    case False
    then show ?thesis by (subst cutFailure.simps) (auto intro: exI [of _ "length s"])
  qed
qed

lemma cutFailure_keeps:
  "3 * n \<le> budget + 1 \<Longrightarrow> n \<le> length s \<Longrightarrow> 9 * n div 10 - 1 \<le> length (cutFailure budget s)"
proof (induction budget s rule: cutFailure.induct)
  case (1 budget s)
  show ?case
  proof (cases "utf8_length s > budget")
    case False
    then have "cutFailure budget s = s" by (subst cutFailure.simps) simp
    moreover have "9 * n div 10 - 1 \<le> n" by linarith
    ultimately show ?thesis using 1 by simp
  next
    case True
    let ?t = "slice0 s (9 * length s div 10 - 1)"
    have "9 * length s div 10 - 1 \<le> length s" by linarith
    then have len: "length ?t = 9 * length s div 10 - 1" by (simp add: slice0_def)
    have unfold: "cutFailure budget s = cutFailure budget ?t"
      using True by (subst cutFailure.simps) simp
    show ?thesis
    proof (cases "n \<le> length ?t")
      case True
      with 1 \<open>utf8_length s > budget\<close> unfold show ?thesis by auto
    next
      case False
      then have "3 * length ?t \<le> budget" using 1 by linarith
      then have "utf8_length ?t \<le> budget" using utf8_length_le3 [of ?t] by linarith
      then have "cutFailure budget ?t = ?t" by (subst cutFailure.simps) simp
      then show ?thesis using unfold len 1 by (simp add: div_le_mono diff_le_mono)
    qed
  qed
qed

lemma utf8_length_ellipsis [simp]: "utf8_length ellipsis = 3"
  by (simp add: ellipsis_def encode_unit_def high_surrogate_def low_surrogate_def)

lemma boundedRunFailureV1_fits: "utf8_length (boundedRunFailureV1 f) \<le> 8000"
proof -
  have "utf8_length (cutFailure 7997 f @ ellipsis) \<le> utf8_length (cutFailure 7997 f) + 3"
    using utf8_length_append [of "cutFailure 7997 f" ellipsis] by simp
  also have "\<dots> \<le> 8000" using cutFailure_fits [of 7997 f] by simp
  finally show ?thesis
    by (simp add: boundedRunFailureV1_def MAX_RUN_FAILURE_BYTES_V1_def Let_def)
qed

lemma boundedRunFailureV1_Nil_iff [simp]: "boundedRunFailureV1 f = [] \<longleftrightarrow> f = []"
  by (auto simp: boundedRunFailureV1_def MAX_RUN_FAILURE_BYTES_V1_def Let_def ellipsis_def)

section \<open>The excerpt of a cut event\<close>

definition cutMarker :: jstr where
  "cutMarker = [10, 0x5B, 0x2026] @ js '' content cut '' @ [0x2026, 0x5D]"

text \<open>
  The bisection of \<open>cutUtf8\<close>: \<open>low\<close> is a prefix length that fits, nothing longer than \<open>high\<close>
  does. \<open>Math.ceil((low + high) / 2)\<close> is \<open>(low + high + 1) div 2\<close>.
\<close>

function cutBisect :: "jstr \<Rightarrow> nat \<Rightarrow> nat \<Rightarrow> nat \<Rightarrow> nat" where
  "cutBisect v budget low high =
     (if low < high
      then (let middle = (low + high + 1) div 2
            in if utf8_length (slice0 v middle) \<le> budget
               then cutBisect v budget middle high
               else cutBisect v budget low (middle - 1))
      else low)"
  by pat_completeness auto
termination
  by (relation "measure (\<lambda>(v, budget, low, high). high - low)") auto

declare cutBisect.simps [simp del]

definition cutUtf8 :: "jstr \<Rightarrow> nat \<Rightarrow> jstr" where
  "cutUtf8 v maximum =
     (if utf8_length v \<le> maximum then v
      else (let budget = maximum - utf8_length cutMarker
            in slice0 v (cutBisect v budget 0 (length v)) @ cutMarker))"

definition longest_fitting :: "jstr \<Rightarrow> nat \<Rightarrow> nat \<Rightarrow> bool" where
  "longest_fitting v budget r \<longleftrightarrow>
     r \<le> length v \<and> utf8_length (take r v) \<le> budget \<and>
     (\<forall>n. r < n \<and> n \<le> length v \<longrightarrow> budget < utf8_length (take n v))"

lemma cutBisect_longest:
  "utf8_length (take low v) \<le> budget \<Longrightarrow> low \<le> high \<Longrightarrow> high \<le> length v \<Longrightarrow>
   \<forall>n. high < n \<and> n \<le> length v \<longrightarrow> budget < utf8_length (take n v) \<Longrightarrow>
   longest_fitting v budget (cutBisect v budget low high)"
proof (induction v budget low high rule: cutBisect.induct)
  case (1 v budget low high)
  let ?m = "(low + high + 1) div 2"
  show ?case
  proof (cases "low < high")
    case False
    with 1 show ?thesis by (subst cutBisect.simps) (simp add: longest_fitting_def)
  next
    case True
    then have m: "low < ?m" "?m \<le> high" by linarith+
    show ?thesis
    proof (cases "utf8_length (slice0 v ?m) \<le> budget")
      case fits: True
      have "longest_fitting v budget (cutBisect v budget ?m high)"
        using "1.IH"(1) [OF True refl fits] fits m "1.prems" by (simp add: slice0_def)
      with True fits show ?thesis by (subst cutBisect.simps) (simp add: Let_def)
    next
      case over: False
      have "\<forall>n. ?m - 1 < n \<and> n \<le> length v \<longrightarrow> budget < utf8_length (take n v)"
      proof (intro allI impI)
        fix n assume "?m - 1 < n \<and> n \<le> length v"
        then have "utf8_length (take ?m v) \<le> utf8_length (take n v)"
          by (intro utf8_length_take_mono) linarith
        with over show "budget < utf8_length (take n v)" by (simp add: slice0_def)
      qed
      then have "longest_fitting v budget (cutBisect v budget low (?m - 1))"
        using "1.IH"(2) [OF True refl over] m "1.prems" by simp
      with True over show ?thesis by (subst cutBisect.simps) (simp add: Let_def)
    qed
  qed
qed

lemma utf8_length_cutMarker [simp]: "utf8_length cutMarker = 22"
  by (simp add: cutMarker_def encode_unit_def high_surrogate_def low_surrogate_def)

section \<open>The chunks of an exact payload\<close>

definition SESSION_EVENT_PAYLOAD_CHUNK_BYTES_V1 :: nat where
  "SESSION_EVENT_PAYLOAD_CHUNK_BYTES_V1 = 128 * 1024"

datatype chunk_error = PayloadCannotBeChunked

fun shrinkEnd :: "jstr \<Rightarrow> nat \<Rightarrow> nat \<Rightarrow> nat" where
  "shrinkEnd serialized offset 0 = 0"
| "shrinkEnd serialized offset (Suc stop) =
     (if Suc stop > offset
         \<and> utf8_length (slice serialized offset (Suc stop)) > SESSION_EVENT_PAYLOAD_CHUNK_BYTES_V1
      then shrinkEnd serialized offset stop
      else Suc stop)"

lemma shrinkEnd_ge: "offset \<le> stop \<Longrightarrow> offset \<le> shrinkEnd serialized offset stop"
  by (induction stop) auto

function payloadChunksFrom :: "jstr \<Rightarrow> nat \<Rightarrow> jstr list \<Rightarrow> chunk_error + jstr list" where
  "payloadChunksFrom serialized offset chunks =
     (if offset < length serialized
      then (let stop = shrinkEnd serialized offset (min (length serialized) (offset + 32000))
            in if stop = offset then Inl PayloadCannotBeChunked
               else payloadChunksFrom serialized stop (chunks @ [slice serialized offset stop]))
      else Inr chunks)"
  by pat_completeness auto
termination
proof (relation "measure (\<lambda>(serialized, offset, chunks). length serialized - offset)")
  fix serialized :: jstr and offset chunks stop
  assume o: "offset < length serialized"
    and e: "stop = shrinkEnd serialized offset (min (length serialized) (offset + 32000))"
    and ne: "stop \<noteq> offset"
  have "offset \<le> stop" unfolding e using o by (intro shrinkEnd_ge) simp
  with o ne show "((serialized, stop, chunks @ [slice serialized offset stop]),
      (serialized, offset, chunks))
      \<in> measure (\<lambda>(serialized, offset, chunks). length serialized - offset)" by simp
qed simp

declare payloadChunksFrom.simps [simp del]

definition payloadChunks :: "jstr \<Rightarrow> chunk_error + jstr list" where
  "payloadChunks serialized = payloadChunksFrom serialized 0 []"

text \<open>
  32000 code units are at most 96000 bytes, so the shrinking loop never runs and the error is never
  raised: every chunk is the full slice.
\<close>

lemma shrinkEnd_id:
  assumes "stop \<le> offset + 32000"
  shows "shrinkEnd serialized offset stop = stop"
proof (cases stop)
  case (Suc e)
  have "utf8_length (slice serialized offset stop) \<le> 3 * length (slice serialized offset stop)"
    by (rule utf8_length_le3)
  also have "\<dots> \<le> 3 * 32000" using assms by (simp add: slice_def)
  finally show ?thesis by (simp add: Suc SESSION_EVENT_PAYLOAD_CHUNK_BYTES_V1_def)
qed simp

definition chunk_ok :: "jstr \<Rightarrow> bool" where
  "chunk_ok c \<longleftrightarrow> c \<noteq> [] \<and> length c \<le> 32000 \<and>
     utf8_length c \<le> SESSION_EVENT_PAYLOAD_CHUNK_BYTES_V1"

lemma chunk_okI: "c \<noteq> [] \<Longrightarrow> length c \<le> 32000 \<Longrightarrow> chunk_ok c"
  using utf8_length_le3 [of c]
  by (simp add: chunk_ok_def SESSION_EVENT_PAYLOAD_CHUNK_BYTES_V1_def)

lemma payloadChunksFrom_ok:
  "offset \<le> length s \<Longrightarrow> list_all chunk_ok chunks \<Longrightarrow>
   \<exists>cs. payloadChunksFrom s offset chunks = Inr cs \<and>
        concat cs = concat chunks @ drop offset s \<and> list_all chunk_ok cs"
proof (induction s offset chunks rule: payloadChunksFrom.induct)
  case (1 s offset chunks)
  show ?case
  proof (cases "offset < length s")
    case False
    with 1 show ?thesis by (subst payloadChunksFrom.simps) simp
  next
    case True
    define e where "e = min (length s) (offset + 32000)"
    have sh: "shrinkEnd s offset (min (length s) (offset + 32000)) = e"
      unfolding e_def by (rule shrinkEnd_id) simp
    have e: "offset < e" "e \<le> length s" "e \<le> offset + 32000" using True by (auto simp: e_def)
    have ok: "chunk_ok (slice s offset e)"
      using e by (intro chunk_okI) (auto simp: slice_def)
    have "\<exists>cs. payloadChunksFrom s e (chunks @ [slice s offset e]) = Inr cs \<and>
        concat cs = concat (chunks @ [slice s offset e]) @ drop e s \<and> list_all chunk_ok cs"
      using "1.IH" [OF True sh [symmetric]] e ok "1.prems" by simp
    then obtain cs where cs: "payloadChunksFrom s e (chunks @ [slice s offset e]) = Inr cs"
      "concat cs = concat (chunks @ [slice s offset e]) @ drop e s" "list_all chunk_ok cs"
      by blast
    have "slice s offset e @ drop e s = drop offset s"
      using e append_take_drop_id [of "e - offset" "drop offset s"] by (simp add: slice_def)
    with cs True e show ?thesis by (subst payloadChunksFrom.simps) (simp add: sh Let_def)
  qed
qed

section \<open>Properties\<close>

text \<open>Every text is chunked without error: the chunks concatenate to the text, none is empty, none
  has more than 32000 code units and none is longer than the 128 KiB a stored value may have.\<close>

theorem payload_chunks_round_trip:
  "\<exists>chunks. payloadChunks serialized = Inr chunks \<and> concat chunks = serialized \<and>
     list_all chunk_ok chunks"
  using payloadChunksFrom_ok [of 0 serialized "[]"] by (simp add: payloadChunks_def)

text \<open>The excerpt of an oversized field fits the budget it was cut for whenever that budget has
  room for the marker, and keeps the longest prefix that fits beside it; a field that fits is kept
  whole.\<close>

theorem cutUtf8_fits_and_is_longest:
  assumes "22 \<le> maximum"
  shows "utf8_length (cutUtf8 v maximum) \<le> maximum \<and>
    (if utf8_length v \<le> maximum then cutUtf8 v maximum = v
     else \<exists>n. cutUtf8 v maximum = take n v @ cutMarker \<and> longest_fitting v (maximum - 22) n)"
proof (cases "utf8_length v \<le> maximum")
  case False
  let ?n = "cutBisect v (maximum - 22) 0 (length v)"
  have long: "longest_fitting v (maximum - 22) ?n" by (rule cutBisect_longest) auto
  then have "utf8_length (take ?n v) \<le> maximum - 22" by (simp add: longest_fitting_def)
  then have "utf8_length (take ?n v @ cutMarker) \<le> maximum"
    using utf8_length_append [of "take ?n v" cutMarker] assms by simp
  with False long show ?thesis by (auto simp: cutUtf8_def slice0_def Let_def)
qed (simp add: cutUtf8_def)

theorem cutUtf8_fits_and_is_longest_witness:
  "utf8_length (cutUtf8 (replicate 100 0x41) 32) \<le> 32"
  using cutUtf8_fits_and_is_longest [of 32 "replicate 100 0x41"] by simp

text \<open>A failure is stored in at most 8000 UTF-8 bytes: a text that fits is kept, a longer one is a
  prefix of at least 2397 code units and an ellipsis.\<close>

theorem bounded_failure_fits:
  "utf8_length (boundedRunFailureV1 f) \<le> 8000 \<and>
   (if utf8_length f \<le> 8000 then boundedRunFailureV1 f = f
    else \<exists>n. n \<ge> 2397 \<and> n \<le> length f \<and> boundedRunFailureV1 f = take n f @ ellipsis)"
proof (cases "utf8_length f \<le> 8000")
  case False
  have "boundedRunFailureV1 f = cutFailure 7997 f @ ellipsis"
    using False by (simp add: boundedRunFailureV1_def MAX_RUN_FAILURE_BYTES_V1_def Let_def)
  moreover obtain n where n: "cutFailure 7997 f = take n f" using cutFailure_prefix by blast
  have "8000 < 3 * length f" using False utf8_length_le3 [of f] by linarith
  then have "2397 \<le> length (cutFailure 7997 f)"
    using cutFailure_keeps [of 2665 7997 f] by simp
  with n have "2397 \<le> min n (length f)" by simp
  moreover have "take n f = take (min n (length f)) f" by (simp add: min_def)
  ultimately show ?thesis using False n boundedRunFailureV1_fits [of f]
    by (intro conjI) (auto intro!: exI [of _ "min n (length f)"])
qed (use boundedRunFailureV1_fits in \<open>simp add: boundedRunFailureV1_def MAX_RUN_FAILURE_BYTES_V1_def\<close>)

end
