(* ===== verification/Numerals.thy ===== *)
theory Numerals
  imports Prelude
begin

text \<open>
  Numbers as the kernel writes them into keys and ids: \<open>String(n)\<close>, \<open>n.toString(16)\<close>,
  \<open>padStart\<close> and \<open>Number(text)\<close>, with the facts the key layout rests on. A number padded to a
  width it fits in is its fixed-width numeral, so padded keys list in numeric order and parse back.
\<close>

definition digitChar :: "nat \<Rightarrow> char" where
  "digitChar d = char_of (if d < 10 then 48 + d else 87 + d)"

function radix :: "nat \<Rightarrow> nat \<Rightarrow> string" where
  "radix b n =
     (if b < 2 \<or> n < b then [digitChar n] else radix b (n div b) @ [digitChar (n mod b)])"
  by pat_completeness auto
termination
  by (relation "measure (\<lambda>(b, n). n)") (auto intro!: div_less_dividend)

declare radix.simps [simp del]

definition decimal :: "nat \<Rightarrow> string" where
  "decimal n = radix 10 n"

definition padStart :: "nat \<Rightarrow> string \<Rightarrow> string" where
  "padStart w s = replicate (w - length s) (CHR ''0'') @ s"

definition digitVal :: "char \<Rightarrow> nat" where
  "digitVal c = of_char c - 48"

definition parseDecimal :: "string \<Rightarrow> nat" where
  "parseDecimal s = foldl (\<lambda>a c. a * 10 + digitVal c) 0 s"

fun fixedWidth :: "nat \<Rightarrow> nat \<Rightarrow> nat \<Rightarrow> string" where
  "fixedWidth b 0 n = []"
| "fixedWidth b (Suc w) n = fixedWidth b w (n div b) @ [digitChar (n mod b)]"

lemma length_fixedWidth [simp]: "length (fixedWidth b w n) = w"
  by (induction w arbitrary: n) auto

lemma of_char_digitChar: "d < 16 \<Longrightarrow> of_char (digitChar d) = (if d < 10 then 48 + d else 87 + d)"
  by (auto simp: digitChar_def)

lemma digitVal_digitChar [simp]: "d < 10 \<Longrightarrow> digitVal (digitChar d) = d"
  by (simp add: digitVal_def of_char_digitChar)

lemma digitChar_less_iff: "d < 16 \<Longrightarrow> e < 16 \<Longrightarrow> digitChar d < digitChar e \<longleftrightarrow> d < e"
  by (auto simp: less_char_def of_char_digitChar)

lemma digitChar_inject: "d < 16 \<Longrightarrow> e < 16 \<Longrightarrow> digitChar d = digitChar e \<longleftrightarrow> d = e"
  using digitChar_less_iff [of d e] digitChar_less_iff [of e d] by (auto simp: neq_iff)

lemma digitChar_0 [simp]: "digitChar 0 = CHR ''0''"
  by code_simp

lemma fixedWidth_0: "b \<ge> 2 \<Longrightarrow> fixedWidth b w 0 = replicate w (CHR ''0'')"
  by (induction w) (simp_all add: replicate_append_same)

lemma length_radix:
  "2 \<le> b \<Longrightarrow> n < b ^ w \<Longrightarrow> 0 < w \<Longrightarrow> length (radix b n) \<le> w"
proof (induction b n arbitrary: w rule: radix.induct)
  case (1 b n)
  show ?case
  proof (cases "n < b")
    case True
    with 1 show ?thesis by (subst radix.simps) simp
  next
    case False
    obtain v where w: "w = Suc v" using 1 by (cases w) auto
    have "0 < v" using False 1(3) w by (cases v) auto
    moreover have "n div b < b ^ v" using 1(2,3) w by (simp add: div_less_iff_less_mult mult.commute)
    ultimately have "length (radix b (n div b)) \<le> v" using 1 False by simp
    with False w show ?thesis by (subst radix.simps) simp
  qed
qed

lemma padStart_radix:
  "2 \<le> b \<Longrightarrow> n < b ^ w \<Longrightarrow> 0 < w \<Longrightarrow> padStart w (radix b n) = fixedWidth b w n"
proof (induction b n arbitrary: w rule: radix.induct)
  case (1 b n)
  obtain v where w: "w = Suc v" using 1 by (cases w) auto
  show ?case
  proof (cases "n < b")
    case True
    then have "radix b n = [digitChar n]" by (subst radix.simps) simp
    with True w 1(2) show ?thesis
      by (simp add: padStart_def fixedWidth_0)
  next
    case False
    then have r: "radix b n = radix b (n div b) @ [digitChar (n mod b)]"
      using 1(2) by (subst radix.simps) simp
    have "0 < v" using False 1(3) w by (cases v) auto
    moreover have lt: "n div b < b ^ v"
      using 1(2,3) w by (simp add: div_less_iff_less_mult mult.commute)
    ultimately have IH: "padStart v (radix b (n div b)) = fixedWidth b v (n div b)"
      using 1 False by simp
    then show ?thesis by (simp add: padStart_def r w)
  qed
qed

lemma list_less_append_same_length:
  fixes xs ys :: "'a::linorder list"
  shows "length xs = length ys \<Longrightarrow> xs @ [a] < ys @ [b] \<longleftrightarrow> xs < ys \<or> xs = ys \<and> a < b"
  by (induction xs ys rule: list_induct2) auto

lemma fixedWidth_less_iff:
  "2 \<le> b \<Longrightarrow> b \<le> 16 \<Longrightarrow> m < b ^ w \<Longrightarrow> n < b ^ w \<Longrightarrow>
   fixedWidth b w m < fixedWidth b w n \<longleftrightarrow> m < n"
proof (induction w arbitrary: m n)
  case 0
  then show ?case by simp
next
  case (Suc w)
  have d: "m div b < b ^ w" "n div b < b ^ w"
    using Suc.prems by (simp_all add: div_less_iff_less_mult mult.commute)
  have "0 < b" using Suc.prems by simp
  then have r: "m mod b < 16" "n mod b < 16"
    using Suc.prems(2) by (meson mod_less_divisor order.strict_trans2)+
  have lt: "fixedWidth b w (m div b) < fixedWidth b w (n div b) \<longleftrightarrow> m div b < n div b"
    using Suc.IH [OF Suc.prems(1,2) d] .
  have eq: "fixedWidth b w (m div b) = fixedWidth b w (n div b) \<longleftrightarrow> m div b = n div b"
    using Suc.IH [OF Suc.prems(1,2) d] Suc.IH [OF Suc.prems(1,2) d(2,1)] by (auto simp: neq_iff)
  have "m < n \<longleftrightarrow> m div b < n div b \<or> m div b = n div b \<and> m mod b < n mod b"
    by (metis div_le_mono div_mult_mod_eq le_neq_implies_less less_le_not_le linorder_not_less
        nat_add_left_cancel_less order_less_imp_le)
  then show ?case
    by (simp add: list_less_append_same_length lt eq digitChar_less_iff [OF r])
qed

lemma fixedWidth_inject:
  "2 \<le> b \<Longrightarrow> b \<le> 16 \<Longrightarrow> m < b ^ w \<Longrightarrow> n < b ^ w \<Longrightarrow>
   fixedWidth b w m = fixedWidth b w n \<longleftrightarrow> m = n"
  using fixedWidth_less_iff [of b m w n] fixedWidth_less_iff [of b n w m] by (auto simp: neq_iff)

lemma parseDecimal_append: "parseDecimal (s @ [c]) = parseDecimal s * 10 + digitVal c"
  by (simp add: parseDecimal_def)

lemma parseDecimal_fixedWidth: "n < 10 ^ w \<Longrightarrow> parseDecimal (fixedWidth 10 w n) = n"
proof (induction w arbitrary: n)
  case 0
  then show ?case by (simp add: parseDecimal_def)
next
  case (Suc w)
  then have "n div 10 < 10 ^ w" by (simp add: div_less_iff_less_mult mult.commute)
  with Suc.IH show ?case by (simp add: parseDecimal_append)
qed

lemma parseDecimal_decimal [simp]: "parseDecimal (decimal n) = n"
proof (induction n rule: less_induct)
  case (less n)
  show ?case
  proof (cases "n < 10")
    case True
    then show ?thesis unfolding decimal_def by (subst radix.simps) (simp add: parseDecimal_def)
  next
    case False
    then have "parseDecimal (decimal (n div 10)) = n div 10" by (intro less) simp
    with False show ?thesis
      unfolding decimal_def by (subst radix.simps) (simp add: parseDecimal_append)
  qed
qed

lemma decimal_inject [simp]: "decimal m = decimal n \<longleftrightarrow> m = n"
  by (metis parseDecimal_decimal)

lemma digitChar_decimal: "list_all (\<lambda>m. digitChar m \<in> set ''0123456789'') [0..<10]"
  by code_simp

lemma decimal_digits: "c \<in> set (decimal n) \<Longrightarrow> c \<in> set ''0123456789''"
proof (induction n rule: less_induct)
  case (less n)
  have d: "digitChar m \<in> set ''0123456789''" if "m < 10" for m
    using digitChar_decimal that by (simp add: list_all_iff)
  show ?case
  proof (cases "n < 10")
    case True
    with less.prems d show ?thesis by (simp add: decimal_def radix.simps [of 10 n])
  next
    case False
    then have "c \<in> set (decimal (n div 10)) \<or> c = digitChar (n mod 10)"
      using less.prems by (auto simp: decimal_def radix.simps [of 10 n])
    moreover have "digitChar (n mod 10) \<in> set ''0123456789''" by (rule d) simp
    moreover have "n div 10 < n" using False by simp
    ultimately show ?thesis using less.IH [of "n div 10"] by metis
  qed
qed

lemma decimal_not_Nil [simp]: "decimal n \<noteq> []"
  unfolding decimal_def by (subst radix.simps) simp

lemma padStart_decimal:
  "n < 10 ^ w \<Longrightarrow> 0 < w \<Longrightarrow> padStart w (decimal n) = fixedWidth 10 w n"
  by (simp add: decimal_def padStart_radix)

lemma decimal_digit: "n < 10 \<Longrightarrow> decimal n = [digitChar n]"
  unfolding decimal_def by (subst radix.simps) simp

lemma digitChar_numerals [simp]:
  "digitChar (Suc 0) = CHR ''1''" "digitChar 2 = CHR ''2''" "digitChar 3 = CHR ''3''"
  "digitChar 4 = CHR ''4''" "digitChar 5 = CHR ''5''" "digitChar 6 = CHR ''6''"
  "digitChar 7 = CHR ''7''" "digitChar 8 = CHR ''8''" "digitChar 9 = CHR ''9''"
  by code_simp+

lemma decimal_two_digits: "10 \<le> n \<Longrightarrow> decimal n = decimal (n div 10) @ [digitChar (n mod 10)]"
  unfolding decimal_def by (subst radix.simps) simp

end
