(* ===== verification/Storage_Keys.thy ===== *)
theory Storage_Keys
  imports Js_Strings Numerals "HOL-Library.Sublist"
begin

unbundle bit_operations_syntax

text \<open>
  The durable keys a Bot's object owns (core/durable/storage-keys.ts): the key families, the
  functions that render one key of a family, the classification of run-state keys, the bounded
  Workspace key tail with its 64-bit FNV-1a fingerprint, and the decoder of the admission fences.
  A key is a HOL string; its characters are the code units below 256, which is all an id of the
  kernel uses. The lemmas say that padded keys list in numeric order and parse back, that no key
  belongs to two families, and that a key tail stays within its bound.
\<close>

section \<open>Key families and limits\<close>

definition RUN_PREFIX :: string where "RUN_PREFIX = ''run:''"
definition RUN_INDEX_PREFIX :: string where "RUN_INDEX_PREFIX = ''run-index:''"
definition RUN_ADMISSION_FENCE_PREFIX :: string where
  "RUN_ADMISSION_FENCE_PREFIX = ''run-admission-fence:''"
definition RUN_ADMISSION_FENCE_INDEX_KEY :: string where
  "RUN_ADMISSION_FENCE_INDEX_KEY = ''run-admission-fences''"
definition MAX_RUN_ADMISSION_FENCES :: nat where "MAX_RUN_ADMISSION_FENCES = 256"
definition ACTIVE_RUN_KEY :: string where "ACTIVE_RUN_KEY = ''active-run''"
definition PENDING_USER_RUN_PREFIX :: string where
  "PENDING_USER_RUN_PREFIX = ''pending-user-run:''"
definition MAX_PENDING_USER_RUNS_V1 :: nat where "MAX_PENDING_USER_RUNS_V1 = 32"
definition PENDING_AGENT_RUN_PREFIX :: string where
  "PENDING_AGENT_RUN_PREFIX = ''pending-agent-run:''"
definition MAX_PENDING_AGENT_RUNS_V1 :: nat where "MAX_PENDING_AGENT_RUNS_V1 = 32"
definition PARKED_RUN_KEY :: string where "PARKED_RUN_KEY = ''parked-run''"
definition REPAIR_DUE_PREFIX :: string where "REPAIR_DUE_PREFIX = ''repair-due:''"
definition REPAIR_RUN_PREFIX :: string where "REPAIR_RUN_PREFIX = ''repair-run:''"
definition PUBLICATION_PENDING_PREFIX :: string where
  "PUBLICATION_PENDING_PREFIX = ''publication-pending:''"
definition PUBLICATION_HEAD_KEY :: string where "PUBLICATION_HEAD_KEY = ''publication:head:v1''"
definition CONVERSATION_ROW_PREFIX :: string where
  "CONVERSATION_ROW_PREFIX = ''conversation:row:v1:''"
definition CONVERSATION_UPDATE_PREFIX :: string where
  "CONVERSATION_UPDATE_PREFIX = ''conversation:update:v1:''"
definition CONVERSATION_VISIBLE_INDEX_KEY :: string where
  "CONVERSATION_VISIBLE_INDEX_KEY = ''conversation:visible-index:v1''"
definition MAINTENANCE_BATCH_V1 :: nat where "MAINTENANCE_BATCH_V1 = 8"
definition PUBLICATION_REPLAY_MAX_EVENTS_V1 :: nat where "PUBLICATION_REPLAY_MAX_EVENTS_V1 = 64"
definition PUBLICATION_REPLAY_MAX_BYTES_V1 :: nat where
  "PUBLICATION_REPLAY_MAX_BYTES_V1 = 1048576"
definition CONVERSATION_VISIBLE_RUN_LIMIT_V1 :: nat where "CONVERSATION_VISIBLE_RUN_LIMIT_V1 = 32"
definition CONVERSATION_VISIBLE_ANNOUNCEMENT_LIMIT_V1 :: nat where
  "CONVERSATION_VISIBLE_ANNOUNCEMENT_LIMIT_V1 = 32"
definition RECOVERY_ALARM_DELAY_MS :: int where "RECOVERY_ALARM_DELAY_MS = 60000"
definition LATEST_EVENTS_KEY :: string where "LATEST_EVENTS_KEY = ''latest-events''"
definition SESSION_EVENT_LOG_PREFIX :: string where "SESSION_EVENT_LOG_PREFIX = ''session-events:''"
definition WORKING_CONTEXT_PREFIX :: string where "WORKING_CONTEXT_PREFIX = ''context:''"
definition IDENTITY_KEY :: string where "IDENTITY_KEY = ''identity''"
definition NOTIFICATION_PREFIX :: string where "NOTIFICATION_PREFIX = ''notification:''"
definition COMPOSITION_PREFIX :: string where "COMPOSITION_PREFIX = ''composition:''"
definition WORKSPACE_GENERATION_PREFIX :: string where
  "WORKSPACE_GENERATION_PREFIX = ''workspace:generation:''"
definition WORKSPACE_CONFLICT_PREFIX :: string where
  "WORKSPACE_CONFLICT_PREFIX = ''workspace:conflict:''"
definition WORKSPACE_SYNC_EFFECT_PREFIX :: string where
  "WORKSPACE_SYNC_EFFECT_PREFIX = ''workspace:sync-effect:''"
definition SKILL_INDEX_PREFIX :: string where "SKILL_INDEX_PREFIX = ''skill-index:v1:''"

lemmas key_defs =
  RUN_PREFIX_def RUN_INDEX_PREFIX_def RUN_ADMISSION_FENCE_PREFIX_def
  RUN_ADMISSION_FENCE_INDEX_KEY_def ACTIVE_RUN_KEY_def PENDING_USER_RUN_PREFIX_def
  PENDING_AGENT_RUN_PREFIX_def PARKED_RUN_KEY_def REPAIR_DUE_PREFIX_def REPAIR_RUN_PREFIX_def
  PUBLICATION_PENDING_PREFIX_def PUBLICATION_HEAD_KEY_def CONVERSATION_ROW_PREFIX_def
  CONVERSATION_UPDATE_PREFIX_def CONVERSATION_VISIBLE_INDEX_KEY_def LATEST_EVENTS_KEY_def
  SESSION_EVENT_LOG_PREFIX_def WORKING_CONTEXT_PREFIX_def IDENTITY_KEY_def
  NOTIFICATION_PREFIX_def COMPOSITION_PREFIX_def WORKSPACE_GENERATION_PREFIX_def
  WORKSPACE_CONFLICT_PREFIX_def WORKSPACE_SYNC_EFFECT_PREFIX_def SKILL_INDEX_PREFIX_def

text \<open>The families of keys: what the kernel lists by prefix, and its scalar keys.\<close>

definition keyFamilies :: "string list" where
  "keyFamilies =
     [RUN_PREFIX, RUN_INDEX_PREFIX, RUN_ADMISSION_FENCE_PREFIX, RUN_ADMISSION_FENCE_INDEX_KEY,
      ACTIVE_RUN_KEY, PENDING_USER_RUN_PREFIX, PENDING_AGENT_RUN_PREFIX, PARKED_RUN_KEY,
      REPAIR_DUE_PREFIX, REPAIR_RUN_PREFIX, PUBLICATION_PENDING_PREFIX, PUBLICATION_HEAD_KEY,
      CONVERSATION_ROW_PREFIX, CONVERSATION_UPDATE_PREFIX, CONVERSATION_VISIBLE_INDEX_KEY,
      LATEST_EVENTS_KEY, SESSION_EVENT_LOG_PREFIX, WORKING_CONTEXT_PREFIX, IDENTITY_KEY,
      NOTIFICATION_PREFIX, COMPOSITION_PREFIX, WORKSPACE_GENERATION_PREFIX,
      WORKSPACE_CONFLICT_PREFIX, WORKSPACE_SYNC_EFFECT_PREFIX, SKILL_INDEX_PREFIX]"

section \<open>Keys of one family\<close>

definition repairDueKey :: "nat \<Rightarrow> string \<Rightarrow> string" where
  "repairDueKey dueAt runId = REPAIR_DUE_PREFIX @ padStart 16 (decimal dueAt) @ '':'' @ runId"

definition repairRunKey :: "string \<Rightarrow> string" where
  "repairRunKey runId = REPAIR_RUN_PREFIX @ runId"

definition publicationPendingKey :: "nat \<Rightarrow> string" where
  "publicationPendingKey cursor = PUBLICATION_PENDING_PREFIX @ padStart 16 (decimal cursor)"

definition conversationRowKeyV1 :: "string \<Rightarrow> string" where
  "conversationRowKeyV1 entityId = CONVERSATION_ROW_PREFIX @ entityId"

definition conversationUpdateKeyV1 :: "nat \<Rightarrow> string" where
  "conversationUpdateKeyV1 cursor = CONVERSATION_UPDATE_PREFIX @ padStart 16 (decimal cursor)"

definition runIndexKey :: "string \<Rightarrow> string \<Rightarrow> string" where
  "runIndexKey acceptedAt runId = RUN_INDEX_PREFIX @ acceptedAt @ '':'' @ runId"

definition pendingUserRunKey :: "string \<Rightarrow> string \<Rightarrow> string" where
  "pendingUserRunKey acceptedAt runId = PENDING_USER_RUN_PREFIX @ acceptedAt @ '':'' @ runId"

definition pendingAgentRunKey :: "string \<Rightarrow> string \<Rightarrow> string" where
  "pendingAgentRunKey acceptedAt runId = PENDING_AGENT_RUN_PREFIX @ acceptedAt @ '':'' @ runId"

text \<open>Keys of the Session log and of the working-context projection, under an encoded Session id.\<close>

definition PUBLICATION_CURSOR_KEY :: string where "PUBLICATION_CURSOR_KEY = ''publication-cursor''"
definition SESSION_EVENT_LOG_INDEX_PREFIX :: string where
  "SESSION_EVENT_LOG_INDEX_PREFIX = SESSION_EVENT_LOG_PREFIX @ ''index:''"
definition SESSION_EVENT_LOG_PAGE_PREFIX :: string where
  "SESSION_EVENT_LOG_PAGE_PREFIX = SESSION_EVENT_LOG_PREFIX @ ''page:''"
definition SESSION_EVENT_PAYLOAD_PREFIX :: string where
  "SESSION_EVENT_PAYLOAD_PREFIX = SESSION_EVENT_LOG_PREFIX @ ''payload:''"
definition WORKING_CONTEXT_HEAD_PREFIX :: string where
  "WORKING_CONTEXT_HEAD_PREFIX = WORKING_CONTEXT_PREFIX @ ''head:''"
definition WORKING_CONTEXT_TURN_PREFIX :: string where
  "WORKING_CONTEXT_TURN_PREFIX = WORKING_CONTEXT_PREFIX @ ''turn:''"
definition WORKING_CONTEXT_PAGE_PREFIX :: string where
  "WORKING_CONTEXT_PAGE_PREFIX = WORKING_CONTEXT_PREFIX @ ''page:''"
definition WORKING_CONTEXT_CHUNK_PREFIX :: string where
  "WORKING_CONTEXT_CHUNK_PREFIX = WORKING_CONTEXT_PREFIX @ ''chunk:''"
definition WORKING_CONTEXT_VOICE_PREFIX :: string where
  "WORKING_CONTEXT_VOICE_PREFIX = WORKING_CONTEXT_PREFIX @ ''voice:''"

text \<open>\<open>encodeURIComponent\<close>: unreserved characters stand for themselves, every other UTF-8 byte is
  a percent sign and two upper-case hexadecimal digits.\<close>

definition uriUnreserved :: "char list" where
  "uriUnreserved =
     ''ABCDEFGHIJKLMNOPQRSTUVWXYZabcdefghijklmnopqrstuvwxyz0123456789-_.!~*'' @ [CHR 0x27] @ ''()''"

definition upperHexDigit :: "nat \<Rightarrow> char" where
  "upperHexDigit d = (if d < 10 then char_of (48 + d) else char_of (55 + d))"

definition contextSessionPart :: "string \<Rightarrow> string" where
  "contextSessionPart sessionId =
     concat (map (\<lambda>b. if char_of (unat b) \<in> set uriUnreserved then [char_of (unat b)]
                      else [CHR ''%'', upperHexDigit (unat b div 16), upperHexDigit (unat b mod 16)])
       (utf8_encode (js sessionId)))"

definition workingContextHeadKeyV1 :: "string \<Rightarrow> string" where
  "workingContextHeadKeyV1 sessionId = WORKING_CONTEXT_HEAD_PREFIX @ contextSessionPart sessionId"

definition workingContextTurnPrefixV1 :: "string \<Rightarrow> string" where
  "workingContextTurnPrefixV1 sessionId =
     WORKING_CONTEXT_TURN_PREFIX @ contextSessionPart sessionId @ '':''"

definition workingContextTurnKeyV1 :: "string \<Rightarrow> nat \<Rightarrow> string" where
  "workingContextTurnKeyV1 sessionId turn =
     workingContextTurnPrefixV1 sessionId @ padStart 10 (decimal turn)"

definition workingContextPagePrefixV1 :: "string \<Rightarrow> nat \<Rightarrow> string" where
  "workingContextPagePrefixV1 sessionId turn =
     WORKING_CONTEXT_PAGE_PREFIX @ contextSessionPart sessionId @ '':'' @
     padStart 10 (decimal turn) @ '':''"

definition workingContextPageKeyV1 :: "string \<Rightarrow> nat \<Rightarrow> nat \<Rightarrow> string" where
  "workingContextPageKeyV1 sessionId turn page =
     workingContextPagePrefixV1 sessionId turn @ padStart 6 (decimal page)"

definition workingContextChunkKeyV1 :: "string \<Rightarrow> nat \<Rightarrow> nat \<Rightarrow> nat \<Rightarrow> string" where
  "workingContextChunkKeyV1 sessionId turn messageIndex chunk =
     WORKING_CONTEXT_CHUNK_PREFIX @ contextSessionPart sessionId @ '':'' @
     padStart 10 (decimal turn) @ '':'' @ padStart 6 (decimal messageIndex) @ '':'' @
     padStart 6 (decimal chunk)"

definition workingContextVoiceKeyV1 :: "string \<Rightarrow> string" where
  "workingContextVoiceKeyV1 sessionId = WORKING_CONTEXT_VOICE_PREFIX @ contextSessionPart sessionId"

text \<open>The due time \<open>drainDueRepairs\<close> reads back out of a repair key.\<close>

definition repairDueOf :: "string \<Rightarrow> nat" where
  "repairDueOf key = parseDecimal (take 16 (drop (length REPAIR_DUE_PREFIX) key))"

definition isRunStateStorageKeyV1 :: "string \<Rightarrow> bool" where
  "isRunStateStorageKeyV1 key \<longleftrightarrow>
     key = ACTIVE_RUN_KEY \<or> key = PARKED_RUN_KEY \<or> prefix PENDING_USER_RUN_PREFIX key \<or>
     prefix RUN_PREFIX key \<or> prefix RUN_INDEX_PREFIX key"

section \<open>The bounded Workspace key tail\<close>

text \<open>FNV-1a over the UTF-8 bytes, at 64 bits, rendered as sixteen hexadecimal digits.\<close>

fun fnv1a :: "64 word \<Rightarrow> 8 word list \<Rightarrow> 64 word" where
  "fnv1a hash [] = hash"
| "fnv1a hash (b # bs) = fnv1a ((hash XOR ucast b) * 0x100000001b3) bs"

definition fingerprint :: "jstr \<Rightarrow> jstr" where
  "fingerprint s =
     js (padStart 16 (radix 16 (unat (fnv1a 0xcbf29ce484222325 (utf8_encode s)))))"

definition WORKSPACE_KEY_TAIL_LIMIT :: nat where "WORKSPACE_KEY_TAIL_LIMIT = 900"

definition workspaceFileKeyTail :: "jstr \<Rightarrow> jstr \<Rightarrow> jstr" where
  "workspaceFileKeyTail rootKey path =
     (let tail = rootKey @ js '':'' @ path
      in if length tail \<le> WORKSPACE_KEY_TAIL_LIMIT then tail
         else slice0 tail (WORKSPACE_KEY_TAIL_LIMIT - 20) @ js ''#'' @ fingerprint tail)"

definition workspaceGenerationKey :: "jstr \<Rightarrow> jstr \<Rightarrow> jstr" where
  "workspaceGenerationKey rootKey path =
     js WORKSPACE_GENERATION_PREFIX @ workspaceFileKeyTail rootKey path"

definition workspaceConflictPrefix :: "jstr \<Rightarrow> jstr \<Rightarrow> jstr" where
  "workspaceConflictPrefix rootKey path =
     js WORKSPACE_CONFLICT_PREFIX @ workspaceFileKeyTail rootKey path @ js '':''"

definition workspaceConflictKey :: "jstr \<Rightarrow> jstr \<Rightarrow> jstr \<Rightarrow> jstr" where
  "workspaceConflictKey rootKey path generationId =
     workspaceConflictPrefix rootKey path @ generationId"

section \<open>Admission fences\<close>

datatype fence_error = InvalidFences

text \<open>\<open>[...new Set(xs)]\<close>: the first occurrence of each element, in order.\<close>

fun dedupFrom :: "'a list \<Rightarrow> 'a list \<Rightarrow> 'a list" where
  "dedupFrom seen [] = []"
| "dedupFrom seen (x # xs) =
     (if x \<in> set seen then dedupFrom seen xs else x # dedupFrom (x # seen) xs)"

definition storedRunAdmissionFences :: "string list option \<Rightarrow> fence_error + string list" where
  "storedRunAdmissionFences input =
     (case input of
        None \<Rightarrow> Inr []
      | Some fences \<Rightarrow>
          if length fences > MAX_RUN_ADMISSION_FENCES
             \<or> list_ex (\<lambda>runId. length runId < 1 \<or> length runId > 128) fences
          then Inl InvalidFences
          else Inr (dedupFrom [] fences))"

lemma set_dedupFrom: "set (dedupFrom seen xs) = set xs - set seen"
  by (induction seen xs rule: dedupFrom.induct) auto

lemma distinct_dedupFrom: "distinct (dedupFrom seen xs)"
  by (induction seen xs rule: dedupFrom.induct) (auto simp: set_dedupFrom)

lemma length_dedupFrom: "length (dedupFrom seen xs) \<le> length xs"
  by (induction seen xs rule: dedupFrom.induct) auto

lemma dedupFrom_id: "distinct xs \<Longrightarrow> set xs \<inter> set seen = {} \<Longrightarrow> dedupFrom seen xs = xs"
  by (induction seen xs rule: dedupFrom.induct) auto

section \<open>Order, round trips and disjointness\<close>

lemma append_less_iff [simp]:
  fixes p :: "'a::linorder list"
  shows "p @ x < p @ y \<longleftrightarrow> x < y"
  by (induction p) auto

lemma append_less_same_length:
  fixes xs ys :: "'a::linorder list"
  shows "length xs = length ys \<Longrightarrow> xs < ys \<Longrightarrow> xs @ u < ys @ v"
  by (induction xs ys rule: list_induct2) auto

lemma publicationPendingKey_less_iff:
  "m < 10 ^ 16 \<Longrightarrow> n < 10 ^ 16 \<Longrightarrow>
   publicationPendingKey m < publicationPendingKey n \<longleftrightarrow> m < n"
  by (simp add: publicationPendingKey_def padStart_decimal fixedWidth_less_iff
      del: fixedWidth.simps)

lemma repairDueKey_less:
  "m < n \<Longrightarrow> n < 10 ^ 16 \<Longrightarrow> repairDueKey m r < repairDueKey n q"
  by (simp add: repairDueKey_def padStart_decimal fixedWidth_less_iff append_less_same_length
      del: fixedWidth.simps)

lemma repairDueOf_repairDueKey:
  "n < 10 ^ 16 \<Longrightarrow> repairDueOf (repairDueKey n r) = n"
  by (simp add: repairDueOf_def repairDueKey_def padStart_decimal parseDecimal_fixedWidth
      del: fixedWidth.simps)

lemma keyFamilies_apart:
  "list_all (\<lambda>p. list_all (\<lambda>q. p = q \<or> \<not> prefix p q) keyFamilies) keyFamilies"
  by code_simp

lemma key_family_unique:
  assumes "p \<in> set keyFamilies" and "q \<in> set keyFamilies" and "prefix p key" and "prefix q key"
  shows "p = q"
proof -
  have "prefix p q \<or> prefix q p" using prefix_same_cases [OF assms(3,4)] by blast
  with assms(1,2) keyFamilies_apart show ?thesis by (auto simp: list_all_iff)
qed

lemma length_fingerprint [simp]: "length (fingerprint s) = 16"
proof -
  let ?n = "unat (fnv1a 0xcbf29ce484222325 (utf8_encode s))"
  have "?n < 2 ^ 64" by (rule order.strict_trans2 [OF unsigned_less]) simp
  then have "?n < 16 ^ 16" by simp
  then have "padStart 16 (radix 16 ?n) = fixedWidth 16 16 ?n" by (intro padStart_radix) simp_all
  then show ?thesis by (simp add: fingerprint_def js_def del: fixedWidth.simps)
qed

lemma length_workspaceFileKeyTail: "length (workspaceFileKeyTail rootKey path) \<le> 900"
  by (auto simp: workspaceFileKeyTail_def WORKSPACE_KEY_TAIL_LIMIT_def Let_def min_def slice0_def js_def)

lemma workspaceFileKeyTail_readable:
  "length rootKey + length path < 900 \<Longrightarrow> workspaceFileKeyTail rootKey path = rootKey @ js '':'' @ path"
  by (simp add: workspaceFileKeyTail_def WORKSPACE_KEY_TAIL_LIMIT_def Let_def js_def)

text \<open>An encoded Session id has no separator, so a key splits in one way only.\<close>

lemma contextSessionPart_no_colon: "CHR '':'' \<notin> set (contextSessionPart sessionId)"
proof -
  have digits: "list_all (\<lambda>d. upperHexDigit d \<noteq> CHR '':'') [0..<16]" by code_simp
  have hex: "d < 16 \<Longrightarrow> upperHexDigit d \<noteq> CHR '':''" for d
    using digits by (simp add: list_all_iff)
  have small: "unat b div 16 < 16" for b :: "8 word"
    using unsigned_less [of b, where 'a = nat] by simp
  have free: "CHR '':'' \<notin> set uriUnreserved" by code_simp
  let ?enc = "\<lambda>b :: 8 word. if char_of (unat b) \<in> set uriUnreserved then [char_of (unat b)]
      else [CHR ''%'', upperHexDigit (unat b div 16), upperHexDigit (unat b mod 16)]"
  have "CHR '':'' \<notin> set (?enc b)" for b
  proof (cases "char_of (unat b) \<in> set uriUnreserved")
    case True
    then have "char_of (unat b) \<noteq> CHR '':''" using free by metis
    with True show ?thesis by simp
  next
    case False
    moreover have "upperHexDigit (unat b div 16) \<noteq> CHR '':''" using hex small by blast
    moreover have "upperHexDigit (unat b mod 16) \<noteq> CHR '':''" using hex by simp
    ultimately show ?thesis by simp
  qed
  then show ?thesis unfolding contextSessionPart_def set_concat set_map by blast
qed

lemma colon_split:
  assumes "CHR '':'' \<notin> set x" and "CHR '':'' \<notin> set y"
    and "x @ '':'' @ u = y @ '':'' @ v"
  shows "x = y \<and> u = v"
  using assms by (induction x arbitrary: y) (auto simp: Cons_eq_append_conv append_eq_Cons_conv)

lemma workingContextTurnKeyV1_parts:
  assumes "workingContextTurnKeyV1 s m = workingContextTurnKeyV1 t n"
    and "m < 10 ^ 10" and "n < 10 ^ 10"
  shows "contextSessionPart s = contextSessionPart t \<and> m = n"
proof -
  have "contextSessionPart s @ '':'' @ padStart 10 (decimal m) =
      contextSessionPart t @ '':'' @ padStart 10 (decimal n)"
    using assms(1) by (simp add: workingContextTurnKeyV1_def workingContextTurnPrefixV1_def)
  then have "contextSessionPart s = contextSessionPart t"
      and "padStart 10 (decimal m) = padStart 10 (decimal n)"
    using colon_split [OF contextSessionPart_no_colon contextSessionPart_no_colon] by blast+
  with assms(2,3) show ?thesis
    by (simp add: padStart_decimal fixedWidth_inject del: fixedWidth.simps)
qed

lemma workingContextTurnKeyV1_less:
  "m < n \<Longrightarrow> n < 10 ^ 10 \<Longrightarrow>
   workingContextTurnKeyV1 s m < workingContextTurnKeyV1 s n"
  by (simp add: workingContextTurnKeyV1_def workingContextTurnPrefixV1_def padStart_decimal
      fixedWidth_less_iff del: fixedWidth.simps)

section \<open>Properties\<close>

text \<open>No stored key belongs to two families: a key of one family starts with no other family's
  prefix or scalar key, so listing one family never meets another.\<close>

theorem key_families_disjoint:
  assumes "p \<in> set keyFamilies" and "q \<in> set keyFamilies" and "p \<noteq> q" and "prefix p key"
  shows "\<not> prefix q key"
  using key_family_unique [OF assms(1,2)] assms(3,4) by blast

theorem key_families_disjoint_witness:
  "\<not> prefix RUN_PREFIX (runIndexKey ''2026'' ''r'')"
  using key_families_disjoint [of RUN_INDEX_PREFIX RUN_PREFIX "runIndexKey ''2026'' ''r''"]
  by (simp add: keyFamilies_def runIndexKey_def RUN_INDEX_PREFIX_def RUN_PREFIX_def)

text \<open>The repair index lists in order of due time, whatever the run ids, and the due time the
  drain reads back from a key is the one it was written with.\<close>

theorem repair_index_chronological:
  assumes "m < n" and "n < 10 ^ 16"
  shows "repairDueKey m r < repairDueKey n q \<and> repairDueOf (repairDueKey n q) = n \<and>
    repairDueOf (repairDueKey m r) = m"
  using assms by (simp add: repairDueKey_less repairDueOf_repairDueKey)

theorem repair_index_chronological_witness:
  "repairDueKey 999 ''z'' < repairDueKey 1000 ''a'' \<and> repairDueOf (repairDueKey 1000 ''a'') = 1000"
  using repair_index_chronological [of 999 1000 "''z''" "''a''"] by simp

text \<open>The tail of a Workspace key has at most 900 code units; a root key and path that fit are
  readable in it.\<close>

theorem workspace_key_tail_bounded:
  "length (workspaceFileKeyTail rootKey path) \<le> 900 \<and>
   (length rootKey + length path < 900 \<longrightarrow>
      workspaceFileKeyTail rootKey path = rootKey @ js '':'' @ path)"
  by (simp add: length_workspaceFileKeyTail workspaceFileKeyTail_readable)

theorem workspace_key_tail_bounded_witness:
  "workspaceFileKeyTail (js ''root'') (js ''a.txt'') = js ''root:a.txt''"
  using workspace_key_tail_bounded [of "js ''root''" "js ''a.txt''"] by simp

end
