(* ===== verification/Turn_Errors.thy ===== *)
theory Turn_Errors
  imports Storage_Keys
begin

text \<open>
  The refusals of an admission (core/durable/turn-errors.ts). A refusal crosses an RPC boundary
  that keeps only an error's name and message, so its code is written on the name and read back
  from it; the lemmas say that exactly the three codes survive.
\<close>

datatype refusal_code = Busy | Fenced | Duplicate

definition BOT_TURN_REFUSAL_PREFIX_V1 :: string where
  "BOT_TURN_REFUSAL_PREFIX_V1 = ''BotTurnRefusedError:''"

fun refusalCodeName :: "refusal_code \<Rightarrow> string" where
  "refusalCodeName Busy = ''busy''"
| "refusalCodeName Fenced = ''fenced''"
| "refusalCodeName Duplicate = ''duplicate''"

record turn_refused =
  tr_code :: refusal_code
  tr_message :: string
  tr_name :: string

definition botTurnRefusedError :: "refusal_code \<Rightarrow> string \<Rightarrow> turn_refused" where
  "botTurnRefusedError code message =
     \<lparr>tr_code = code, tr_message = message,
      tr_name = BOT_TURN_REFUSAL_PREFIX_V1 @ refusalCodeName code\<rparr>"

text \<open>\<open>None\<close> is a thrown value without a \<open>name\<close>.\<close>

definition botTurnRefusalCodeV1 :: "string option \<Rightarrow> refusal_code option" where
  "botTurnRefusalCodeV1 errorName =
     (let name = case errorName of None \<Rightarrow> [] | Some n \<Rightarrow> n
      in if \<not> prefix BOT_TURN_REFUSAL_PREFIX_V1 name then None
         else let code = drop (length BOT_TURN_REFUSAL_PREFIX_V1) name
              in if code = ''busy'' then Some Busy
                 else if code = ''fenced'' then Some Fenced
                 else if code = ''duplicate'' then Some Duplicate
                 else None)"

lemma botTurnRefusalCodeV1_name:
  "botTurnRefusalCodeV1 (Some (BOT_TURN_REFUSAL_PREFIX_V1 @ refusalCodeName code)) = Some code"
  by (cases code) (simp_all add: botTurnRefusalCodeV1_def)

lemma botTurnRefusalCodeV1_Some_iff:
  "botTurnRefusalCodeV1 name = Some code \<longleftrightarrow>
   name = Some (BOT_TURN_REFUSAL_PREFIX_V1 @ refusalCodeName code)"
proof
  assume a: "botTurnRefusalCodeV1 name = Some code"
  then obtain n where n: "name = Some n" and p: "prefix BOT_TURN_REFUSAL_PREFIX_V1 n"
    by (cases name) (auto simp: botTurnRefusalCodeV1_def BOT_TURN_REFUSAL_PREFIX_V1_def
        split: if_splits)
  then obtain c where c: "n = BOT_TURN_REFUSAL_PREFIX_V1 @ c" by (auto elim: prefixE)
  from a n c have "c = refusalCodeName code"
    by (auto simp: botTurnRefusalCodeV1_def split: if_splits)
  with n c show "name = Some (BOT_TURN_REFUSAL_PREFIX_V1 @ refusalCodeName code)" by simp
qed (auto simp: botTurnRefusalCodeV1_name)

text \<open>A refusal survives the RPC boundary: the name a refusal is given is read back as its code,
  and no other name is read as a refusal.\<close>

theorem refusal_code_round_trip:
  "botTurnRefusalCodeV1 (Some (tr_name (botTurnRefusedError code message))) = Some code \<and>
   (botTurnRefusalCodeV1 name = Some code \<longleftrightarrow>
      name = Some (tr_name (botTurnRefusedError code message)))"
  by (simp add: botTurnRefusalCodeV1_Some_iff botTurnRefusedError_def)

end
