(* ===== verification/Json.thy ===== *)
theory Json
  imports Js_Strings Numerals
begin

text \<open>
  JSON values and \<open>JSON.stringify\<close> as the kernel uses it: fingerprints of commands, the byte size of a
  stored page and the exact payload of an event are all texts it writes. Numbers are kept as the
  text they are written as. The lemmas say that a text determines the value it was written from.
\<close>

datatype json =
    JNull
  | JBool bool
  | JNum string
  | JStr jstr
  | JArr "json list"
  | JObj "(string \<times> json) list"

section \<open>Strings\<close>

definition hex4 :: "16 word \<Rightarrow> jstr" where
  "hex4 c = js (fixedWidth 16 4 (unat c))"

text \<open>A unit as it is written alone: the short escapes, \<open>\u\<close> escapes of the other control characters and
  of lone surrogates, and everything else as it is.\<close>

definition escapeUnit :: "16 word \<Rightarrow> jstr" where
  "escapeUnit c =
     (if c = 8 then [0x5C, 0x62] else if c = 9 then [0x5C, 0x74] else if c = 10 then [0x5C, 0x6E]
      else if c = 12 then [0x5C, 0x66] else if c = 13 then [0x5C, 0x72]
      else if c = 0x22 then [0x5C, 0x22] else if c = 0x5C then [0x5C, 0x5C]
      else if c < 0x20 \<or> high_surrogate c \<or> low_surrogate c then 0x5C # 0x75 # hex4 c
      else [c])"

fun quoteUnits :: "jstr \<Rightarrow> jstr" where
  "quoteUnits [] = []"
| "quoteUnits [c] = escapeUnit c"
| "quoteUnits (c # d # s) =
     (if high_surrogate c \<and> low_surrogate d then c # d # quoteUnits s
      else escapeUnit c @ quoteUnits (d # s))"

definition quoteJson :: "jstr \<Rightarrow> jstr" where
  "quoteJson s = 0x22 # quoteUnits s @ [0x22]"

section \<open>Values\<close>

fun joinComma :: "jstr list \<Rightarrow> jstr" where
  "joinComma [] = []"
| "joinComma [x] = x"
| "joinComma (x # y # xs) = x @ 0x2C # joinComma (y # xs)"

fun stringify :: "json \<Rightarrow> jstr" where
  "stringify JNull = js ''null''"
| "stringify (JBool b) = (if b then js ''true'' else js ''false'')"
| "stringify (JNum n) = js n"
| "stringify (JStr s) = quoteJson s"
| "stringify (JArr xs) = 0x5B # joinComma (map stringify xs) @ [0x5D]"
| "stringify (JObj members) =
     0x7B # joinComma (map (\<lambda>(k, v). quoteJson (js k) @ 0x3A # stringify v) members) @ [0x7D]"

section \<open>A text determines its value\<close>

definition hexVal :: "16 word \<Rightarrow> nat" where
  "hexVal c = (if unat c < 58 then unat c - 48 else unat c - 87)"

text \<open>One unit read back, and a string read up to its closing quote.\<close>

definition shortEscape :: "16 word \<Rightarrow> 16 word" where
  "shortEscape e =
     (if e = 0x62 then 8 else if e = 0x74 then 9 else if e = 0x6E then 10
      else if e = 0x66 then 12 else if e = 0x72 then 13 else e)"

fun readUnit :: "jstr \<Rightarrow> (16 word \<times> jstr) option" where
  "readUnit [] = None"
| "readUnit (c # s) =
     (if c \<noteq> 0x5C then Some (c, s)
      else case s of
          [] \<Rightarrow> None
        | e # s' \<Rightarrow>
            if e \<noteq> 0x75 then Some (shortEscape e, s')
            else case s' of
                h1 # h2 # h3 # h4 # r \<Rightarrow>
                  Some (of_nat (((hexVal h1 * 16 + hexVal h2) * 16 + hexVal h3) * 16 + hexVal h4), r)
              | _ \<Rightarrow> None)"

lemma readUnit_shorter: "readUnit s = Some (c, r) \<Longrightarrow> length r < length s"
  by (cases s) (auto split: if_splits list.splits)

function unquote :: "jstr \<Rightarrow> (jstr \<times> jstr) option" where
  "unquote [] = None"
| "unquote (c # s) =
     (if c = 0x22 then Some ([], s)
      else case readUnit (c # s) of
          None \<Rightarrow> None
        | Some (u, r) \<Rightarrow>
            (case unquote r of None \<Rightarrow> None | Some (t, rest) \<Rightarrow> Some (u # t, rest)))"
  by pat_completeness auto
termination
  by (relation "measure length") (simp, metis in_measure length_Cons readUnit_shorter)

declare unquote.simps(2) [simp del]

definition hexUnit :: "nat \<Rightarrow> 16 word" where
  "hexUnit d = of_nat (of_char (digitChar d))"

lemma hexVal_hexUnit [simp]: "d < 16 \<Longrightarrow> hexVal (hexUnit d) = d"
  by (auto simp: hexVal_def hexUnit_def of_char_digitChar unat_of_nat)

lemma fixedWidth_4:
  "fixedWidth 16 4 n =
     [digitChar (n div 4096 mod 16), digitChar (n div 256 mod 16), digitChar (n div 16 mod 16),
      digitChar (n mod 16)]"
proof -
  have "(4::nat) = Suc (Suc (Suc (Suc 0)))" by simp
  then have "fixedWidth 16 4 n = fixedWidth 16 (Suc (Suc (Suc (Suc 0)))) n" by (rule arg_cong)
  also have "\<dots> = [digitChar (n div 16 div 16 div 16 mod 16), digitChar (n div 16 div 16 mod 16),
      digitChar (n div 16 mod 16), digitChar (n mod 16)]" by simp
  finally show ?thesis by (simp add: div_mult2_eq [symmetric])
qed

lemma hex4_units:
  "hex4 c = [hexUnit (unat c div 4096 mod 16), hexUnit (unat c div 256 mod 16),
     hexUnit (unat c div 16 mod 16), hexUnit (unat c mod 16)]"
  by (simp add: hex4_def fixedWidth_4 hexUnit_def del: fixedWidth.simps)

lemma hex4_value:
  fixes n :: nat
  assumes "n < 65536"
  shows "((n div 4096 mod 16 * 16 + n div 256 mod 16) * 16 + n div 16 mod 16) * 16 + n mod 16 = n"
proof -
  have top: "n div 4096 mod 16 = n div 4096" using assms by (intro mod_less) simp
  have "n div 4096 * 16 + n div 256 mod 16 = n div 256"
    using div_mult_mod_eq [of "n div 256" 16] by (simp add: div_mult2_eq [symmetric])
  moreover have "n div 256 * 16 + n div 16 mod 16 = n div 16"
    using div_mult_mod_eq [of "n div 16" 16] by (simp add: div_mult2_eq [symmetric])
  ultimately show ?thesis using top by simp
qed

lemma readUnit_hex4: "readUnit (0x5C # 0x75 # hex4 c @ r) = Some (c, r)"
proof -
  have "unat c < 65536" using unsigned_less [of c, where 'a = nat] by simp
  from arg_cong [OF hex4_value [OF this], of "of_nat :: nat \<Rightarrow> 16 word"]
  have v: "of_nat (((unat c div 4096 mod 16 * 16 + unat c div 256 mod 16) * 16
      + unat c div 16 mod 16) * 16 + unat c mod 16) = c"
    by (rule trans) simp
  show ?thesis using v by (simp add: hex4_units del: of_nat_add of_nat_mult)
qed

lemma readUnit_escapeUnit: "readUnit (escapeUnit c @ r) = Some (c, r)"
proof (cases "c \<in> {8, 9, 10, 12, 13, 0x22, 0x5C}")
  case True
  then show ?thesis by (auto simp: escapeUnit_def shortEscape_def)
next
  case False
  then show ?thesis using readUnit_hex4 [of c r]
    by (cases "c < 0x20 \<or> high_surrogate c \<or> low_surrogate c")
       (simp_all add: escapeUnit_def del: readUnit.simps, simp)
qed

lemma escapeUnit_not_quote: "\<exists>x xs. escapeUnit c = x # xs \<and> x \<noteq> 0x22"
  by (auto simp: escapeUnit_def)

lemma surrogate_plain: "high_surrogate c \<or> low_surrogate c \<Longrightarrow> c \<noteq> 0x22 \<and> c \<noteq> 0x5C"
  by (auto simp: high_surrogate_def low_surrogate_def)

lemma unquote_escaped:
  assumes "unquote s = Some (t, rest)"
  shows "unquote (escapeUnit c @ s) = Some (c # t, rest)"
proof -
  obtain x xs where x: "escapeUnit c = x # xs" "x \<noteq> 0x22" using escapeUnit_not_quote by blast
  have "readUnit (x # xs @ s) = Some (c, s)" using readUnit_escapeUnit [of c s] x by simp
  with x assms show ?thesis by (simp add: unquote.simps(2) del: readUnit.simps)
qed

lemma unquote_plain:
  assumes "unquote s = Some (t, rest)" and "c \<noteq> 0x22" and "c \<noteq> 0x5C"
  shows "unquote (c # s) = Some (c # t, rest)"
  using assms by (simp add: unquote.simps(2))

lemma unquote_quoteUnits: "unquote (quoteUnits s @ 0x22 # rest) = Some (s, rest)"
proof (induction s rule: quoteUnits.induct)
  case 1
  then show ?case by (simp add: unquote.simps(2))
next
  case (2 c)
  have "unquote (0x22 # rest) = Some ([], rest)" by (simp add: unquote.simps(2))
  then show ?case by (simp add: unquote_escaped)
next
  case (3 c d s)
  show ?case
  proof (cases "high_surrogate c \<and> low_surrogate d")
    case True
    then have "unquote (quoteUnits s @ 0x22 # rest) = Some (s, rest)" using 3 by simp
    with True surrogate_plain show ?thesis by (simp add: unquote_plain)
  next
    case False
    then have "unquote (quoteUnits (d # s) @ 0x22 # rest) = Some (d # s, rest)" using 3 by simp
    then have "unquote (escapeUnit c @ quoteUnits (d # s) @ 0x22 # rest) = Some (c # d # s, rest)"
      by (rule unquote_escaped)
    moreover have "quoteUnits (c # d # s) = escapeUnit c @ quoteUnits (d # s)"
      using False by (simp only: quoteUnits.simps if_False)
    ultimately show ?thesis by simp
  qed
qed

lemma quoteJson_split:
  assumes "quoteJson s @ x = quoteJson t @ y"
  shows "s = t \<and> x = y"
proof -
  have "quoteUnits s @ 0x22 # x = quoteUnits t @ 0x22 # y" using assms by (simp add: quoteJson_def)
  then have "Some (s, x) = Some (t, y)" by (metis unquote_quoteUnits)
  then show ?thesis by simp
qed

lemma js_inject [simp]: "js s = js t \<longleftrightarrow> s = t"
proof
  have inj: "(of_nat (of_char c) :: 16 word) = of_nat (of_char d) \<longleftrightarrow> c = d" for c d :: char
  proof -
    have small: "of_char x < (65536 :: nat)" for x :: char
      using of_char_mod_256 [of x, where 'a = nat] mod_less_divisor [of 256 "of_char x :: nat"] by linarith
    have t: "take_bit 16 (of_char x) = (of_char x :: nat)" for x :: char
      by (rule take_bit_nat_eq_self) (use small [of x] in simp)
    then show ?thesis by (simp add: word_of_nat_eq_iff)
  qed
  show "js s = js t \<Longrightarrow> s = t"
    unfolding js_def by (rule map_injective) (auto simp: inj intro: injI)
qed simp

text \<open>A number's text is not empty and has none of the characters that close or separate values.\<close>

definition numberText :: "string \<Rightarrow> bool" where
  "numberText n \<longleftrightarrow> n \<noteq> [] \<and> list_all (\<lambda>c. c \<in> set ''0123456789+-.eE'') n"

fun wf_json :: "json \<Rightarrow> bool" where
  "wf_json (JNum n) = numberText n"
| "wf_json (JArr xs) = list_all wf_json xs"
| "wf_json (JObj members) = list_all (\<lambda>m. wf_json (snd m)) members"
| "wf_json _ = True"

definition delimited :: "jstr \<Rightarrow> bool" where
  "delimited x \<longleftrightarrow> (case x of [] \<Rightarrow> True | c # _ \<Rightarrow> c = 0x2C \<or> c = 0x5D \<or> c = 0x7D)"

lemma delimited_simps [simp]:
  "delimited []" "delimited (c # x) \<longleftrightarrow> c = 0x2C \<or> c = 0x5D \<or> c = 0x7D"
  by (simp_all add: delimited_def)

lemma join_Cons:
  "joinComma (a # xs) @ e # x = a @ (if xs = [] then e # x else 0x2C # joinComma xs @ e # x)"
  by (cases xs) auto

lemma joinComma_split:
  assumes enc: "\<And>a b x y. a \<in> set xs \<Longrightarrow> b \<in> set ys \<Longrightarrow> enc a @ x = enc b @ y \<Longrightarrow>
      delimited x \<Longrightarrow> delimited y \<Longrightarrow> a = b \<and> x = y"
    and starts: "\<And>a x. a \<in> set xs \<union> set ys \<Longrightarrow> \<not> delimited (enc a @ x)"
    and e: "e = 0x5D \<or> e = 0x7D"
    and eq: "joinComma (map enc xs) @ e # x = joinComma (map enc ys) @ e # y"
  shows "xs = ys \<and> x = y"
  using enc starts eq
proof (induction xs arbitrary: ys)
  case Nil
  show ?case
  proof (cases ys)
    case (Cons b ys')
    have "delimited (e # x)" using e by auto
    then have "delimited (enc b @ (if map enc ys' = [] then e # y else 0x2C # joinComma (map enc ys') @ e # y))"
      using Nil.prems(3) unfolding Cons list.map joinComma.simps(1) append_Nil join_Cons by metis
    with Nil.prems(2) [of b] Cons show ?thesis by simp
  qed (use Nil in simp)
next
  case (Cons a xs)
  have d: "delimited (if map enc zs = [] then e # z else 0x2C # joinComma (map enc zs) @ e # z)" for zs z
    using e by auto
  show ?case
  proof (cases ys)
    case Nil
    have "delimited (e # y)" using e by auto
    then have "delimited (enc a @ (if map enc xs = [] then e # x else 0x2C # joinComma (map enc xs) @ e # x))"
      using Cons.prems(3) unfolding Nil list.map joinComma.simps(1) append_Nil join_Cons by metis
    with Cons.prems(2) [of a] show ?thesis by simp
  next
    case ys: (Cons b ys')
    have "enc a @ (if map enc xs = [] then e # x else 0x2C # joinComma (map enc xs) @ e # x)
        = enc b @ (if map enc ys' = [] then e # y else 0x2C # joinComma (map enc ys') @ e # y)"
      using Cons.prems(3) unfolding ys list.map join_Cons .
    then have ab: "a = b \<and> (if map enc xs = [] then e # x else 0x2C # joinComma (map enc xs) @ e # x)
        = (if map enc ys' = [] then e # y else 0x2C # joinComma (map enc ys') @ e # y)"
      by (rule Cons.prems(1) [OF _ _ _ d d, rotated 2]) (simp_all add: ys)
    show ?thesis
    proof (cases "xs = [] \<or> ys' = []")
      case True
      with ab e ys show ?thesis by (auto split: if_splits)
    next
      case False
      then have "joinComma (map enc xs) @ e # x = joinComma (map enc ys') @ e # y"
        using ab by simp
      then have "xs = ys' \<and> x = y"
        using Cons.prems(1,2) ys by (intro Cons.IH) auto
      with ab ys show ?thesis by simp
    qed
  qed
qed

text \<open>The first unit of a value's text tells its constructor.\<close>

definition NUMBER_UNITS :: "16 word set" where
  "NUMBER_UNITS = set (js ''0123456789+-.eE'')"

lemma numberText_units:
  assumes "numberText n"
  shows "js n \<noteq> [] \<and> set (js n) \<subseteq> NUMBER_UNITS"
proof -
  have "n \<noteq> []" and "set n \<subseteq> set ''0123456789+-.eE''"
    using assms by (simp add: numberText_def, simp add: numberText_def list_all_iff subset_iff)
  then show ?thesis unfolding NUMBER_UNITS_def js_def set_map by (simp only: image_mono map_is_Nil_conv simp_thms)
qed

lemma NUMBER_UNITS_free: "c \<in> NUMBER_UNITS \<Longrightarrow> \<not> delimited [c]"
  by (auto simp: NUMBER_UNITS_def)

fun jsonTag :: "json \<Rightarrow> nat" where
  "jsonTag JNull = 0" | "jsonTag (JBool b) = (if b then 1 else 2)" | "jsonTag (JNum n) = 3"
| "jsonTag (JStr s) = 4" | "jsonTag (JArr xs) = 5" | "jsonTag (JObj ms) = 6"

definition unitTag :: "16 word \<Rightarrow> nat" where
  "unitTag c = (if c = 0x6E then 0 else if c = 0x74 then 1 else if c = 0x66 then 2
     else if c = 0x22 then 4 else if c = 0x5B then 5 else if c = 0x7B then 6
     else if c = 0x2C \<or> c = 0x5D \<or> c = 0x7D then 7 else 3)"

lemma numberUnit_tag: "c \<in> NUMBER_UNITS \<Longrightarrow> unitTag c = 3"
  by (auto simp: unitTag_def NUMBER_UNITS_def)

lemma stringify_tag:
  assumes "wf_json a"
  shows "\<exists>c r. stringify a = c # r \<and> unitTag c = jsonTag a"
proof (cases a)
  case (JNum n)
  with assms have "js n \<noteq> [] \<and> set (js n) \<subseteq> NUMBER_UNITS" by (simp add: numberText_units)
  then obtain c r where "js n = c # r" "c \<in> NUMBER_UNITS" by (cases "js n") auto
  then show ?thesis using JNum numberUnit_tag by auto
qed (simp_all add: unitTag_def quoteJson_def)

lemma stringify_not_delimited: "wf_json a \<Longrightarrow> \<not> delimited (stringify a @ x)"
proof
  assume "wf_json a" and d: "delimited (stringify a @ x)"
  then obtain c r where c: "stringify a = c # r" "unitTag c = jsonTag a" using stringify_tag by blast
  have "jsonTag a \<noteq> 7" by (cases a) auto
  with c d show False by (auto simp: unitTag_def)
qed

lemma number_split:
  assumes "set s \<subseteq> NUMBER_UNITS" and "set t \<subseteq> NUMBER_UNITS" and "s @ x = t @ y"
    and "delimited x" and "delimited y"
  shows "s = t \<and> x = y"
  using assms
proof (induction s arbitrary: t)
  case Nil
  show ?case
  proof (cases t)
    case (Cons c t')
    with Nil have "delimited [c]" by (simp add: delimited_def)
    with Cons Nil.prems(2) NUMBER_UNITS_free show ?thesis by simp
  qed (use Nil in simp)
next
  case (Cons c s)
  show ?case
  proof (cases t)
    case Nil
    with Cons.prems have "delimited [c]" by (auto simp: delimited_def)
    with Cons.prems(1) NUMBER_UNITS_free show ?thesis by simp
  next
    case (Cons d t')
    with Cons.prems Cons.IH [of t'] show ?thesis by simp
  qed
qed

lemma stringify_same_tag:
  assumes "wf_json a" and "wf_json b" and "stringify a @ x = stringify b @ y"
  shows "jsonTag a = jsonTag b"
  using stringify_tag [OF assms(1)] stringify_tag [OF assms(2)] assms(3) by auto

lemma stringify_split:
  "wf_json a \<Longrightarrow> wf_json b \<Longrightarrow> stringify a @ x = stringify b @ y \<Longrightarrow> delimited x \<Longrightarrow> delimited y \<Longrightarrow>
   a = b \<and> x = y"
proof (induction a arbitrary: b x y)
  case (JNum n)
  from stringify_same_tag [OF JNum.prems(1,2,3)] obtain m where b: "b = JNum m"
    by (cases b) (auto split: if_splits)
  have n: "set (js n) \<subseteq> NUMBER_UNITS" and m: "set (js m) \<subseteq> NUMBER_UNITS"
    using JNum.prems(1,2) b numberText_units by simp_all
  have "js n = js m \<and> x = y"
    by (rule number_split [OF n m]) (use JNum.prems b in simp_all)
  with b show ?case by simp
next
  case (JStr s)
  from stringify_same_tag [OF JStr.prems(1,2,3)] obtain t where b: "b = JStr t"
    by (cases b) (auto split: if_splits)
  with JStr.prems(3) have "quoteJson s @ x = quoteJson t @ y" by simp
  then have "s = t \<and> x = y" by (rule quoteJson_split)
  with b show ?case by simp
next
  case (JArr xs)
  from stringify_same_tag [OF JArr.prems(1,2,3)] obtain ys where b: "b = JArr ys"
    by (cases b) (auto split: if_splits)
  have wf: "\<forall>a \<in> set xs. wf_json a" "\<forall>a \<in> set ys. wf_json a"
    using JArr.prems(1,2) b by (simp_all add: list_all_iff)
  have "xs = ys \<and> x = y"
  proof (rule joinComma_split [where enc = stringify and e = "0x5D"])
    fix u v p q
    assume "u \<in> set xs" "v \<in> set ys" "stringify u @ p = stringify v @ q" "delimited p" "delimited q"
    with JArr.IH wf show "u = v \<and> p = q" by blast
  next
    show "\<not> delimited (stringify u @ p)" if "u \<in> set xs \<union> set ys" for u p
      using that wf stringify_not_delimited by blast
  qed (use JArr.prems(3) b in simp_all)
  with b show ?case by simp
next
  case (JObj ms)
  from stringify_same_tag [OF JObj.prems(1,2,3)] obtain ns where b: "b = JObj ns"
    by (cases b) (auto split: if_splits)
  let ?enc = "\<lambda>(k, v). quoteJson (js k) @ 0x3A # stringify v"
  have wf: "\<forall>m \<in> set ms. wf_json (snd m)" "\<forall>m \<in> set ns. wf_json (snd m)"
    using JObj.prems(1,2) b by (simp_all add: list_all_iff)
  have "ms = ns \<and> x = y"
  proof (rule joinComma_split [where enc = ?enc and e = "0x7D"])
    fix u v p q
    assume uv: "u \<in> set ms" "v \<in> set ns" "?enc u @ p = ?enc v @ q" and d: "delimited p" "delimited q"
    obtain k s where u: "u = (k, s)" by (cases u)
    obtain l t where v: "v = (l, t)" by (cases v)
    have "quoteJson (js k) @ (0x3A # stringify s @ p) = quoteJson (js l) @ (0x3A # stringify t @ q)"
      using uv(3) u v by simp
    then have "js k = js l \<and> 0x3A # stringify s @ p = 0x3A # stringify t @ q" by (rule quoteJson_split)
    then have k: "k = l" and st: "stringify s @ p = stringify t @ q" by simp_all
    have "s \<in> Basic_BNFs.snds u" using u by simp
    moreover have "wf_json s" "wf_json t" using wf uv(1,2) u v by auto
    ultimately have "s = t \<and> p = q" using JObj.IH [OF uv(1)] st d by blast
    with k u v show "u = v \<and> p = q" by simp
  next
    show "\<not> delimited (?enc u @ p)" if "u \<in> set ms \<union> set ns" for u p
      by (cases u) (simp add: quoteJson_def)
  qed (use JObj.prems(3) b in simp_all)
  with b show ?case by simp
next
  case JNull
  from stringify_same_tag [OF JNull.prems(1,2,3)] have "b = JNull" by (cases b) (auto split: if_splits)
  with JNull.prems show ?case by simp
next
  case (JBool p)
  from stringify_same_tag [OF JBool.prems(1,2,3)] have "b = JBool p"
    by (cases b) (auto split: if_splits)
  with JBool.prems show ?case by simp
qed

lemma stringify_inject: "wf_json a \<Longrightarrow> wf_json b \<Longrightarrow> stringify a = stringify b \<longleftrightarrow> a = b"
  using stringify_split [of a b "[]" "[]"] by auto

end
