(* ===== verification/Session_Events.thy ===== *)
theory Session_Events
  imports Turn_Errors Json "HOL-Library.AList"
begin

text \<open>
  The events of a Session and the tool occurrences an assistant message declares
  (core/contracts/types.ts, core/contracts/batch.ts): JSON values, tool calls, the event union,
  occurrence ids, the decoder of a batch's calls and the expansion of a step's calls. Turn and step
  numbers are natural numbers; JSON numbers are kept as the text \<open>JSON.stringify\<close> gives them, so
  that equal trees are equal texts. The lemmas say that the ids of one step never collide, whatever
  the model wrote.
\<close>

section \<open>Values\<close>

fun isRecord :: "json \<Rightarrow> bool" where
  "isRecord (JObj members) = True"
| "isRecord _ = False"

text \<open>Reading a property: \<open>None\<close> is \<open>undefined\<close>.\<close>

fun jget :: "json \<Rightarrow> string \<Rightarrow> json option" where
  "jget (JObj members) key = map_of members key"
| "jget _ key = None"

record tool_call =
  tc_id :: jstr
  tc_name :: jstr
  tc_input :: json

record tool_occurrence =
  occ_id :: string
  occ_parent :: "string option"
  occ_turn :: nat
  occ_step :: nat
  occ_ordinal :: nat
  occ_call :: tool_call

datatype step_outcome = Completed | Blocked | Cancelled | Interrupted | Model_Error | Tool_Error

datatype turn_type = Chat | Agent | Automation | Subagent

datatype result_status = Result_Completed | Result_Interrupted

record tool_intent =
  ti_turn :: nat
  ti_step :: nat
  ti_occurrence :: string
  ti_name :: jstr
  ti_input :: json

record attachment =
  att_hash :: string
  att_detail :: json
  att_data :: "jstr option"

record tool_outcome =
  to_turn :: nat
  to_step :: nat
  to_occurrence :: string
  to_name :: jstr
  to_content :: jstr
  to_error :: bool
  to_status :: result_status
  to_attachments :: "attachment list"

text \<open>
  The event union. The kernel tells the constructors below apart; every other member
  (\<open>composition/pinned\<close>, \<open>supervision/...\<close>, \<open>send/to-user\<close>, \<open>model/usage\<close>, \<open>package/...\<close>,
  \<open>conversation/...\<close>) is an \<open>Other_Event\<close> with its type and payload.
\<close>

datatype event_body =
    Session_Created string
  | Session_Disposed string
  | Turn_Start nat
  | Turn_Admission nat turn_type
  | Turn_End nat step_outcome "jstr option"
  | Step_Start nat nat
  | Step_End nat nat step_outcome
  | User_Message nat nat string jstr "attachment list"
  | Model_Request nat nat string json
  | Model_Response_Failed nat nat string json
  | Assistant_Message nat nat string jstr "tool_call list" "json option"
  | Tool_Call tool_intent
  | Tool_Result tool_outcome
  | Other_Event string "nat option" json

record session_event =
  seq :: nat
  timestamp :: string
  body :: event_body

section \<open>Tool occurrences\<close>

datatype journal_error =
    Coordinates_Invalid
  | Batch_Index_Invalid
  | Turn_Started_While_Open nat nat
  | Turn_Started_Again nat
  | Turn_End_Unmatched nat
  | Turn_End_Open_Step nat nat
  | Step_Outside_Turn nat nat
  | Step_Started_While_Open nat nat
  | Step_Started_Again nat nat
  | Step_End_Unmatched nat nat
  | Step_End_Unsettled string
  | Calls_Outside_Step nat nat
  | Multiple_Assistant_Calls string
  | Occurrence_Outside_Step string
  | Occurrence_Unmatched string
  | Input_Mismatch string
  | Duplicate_Intent string
  | Result_Without_Intent string
  | Duplicate_Result string
  | Not_Durably_Settled string
  | Undefined_Entry string

definition MAX_SAFE_INTEGER :: nat where "MAX_SAFE_INTEGER = 9007199254740991"

definition toolOccurrenceId :: "nat \<Rightarrow> nat \<Rightarrow> nat \<Rightarrow> journal_error + string" where
  "toolOccurrenceId turn step ordinal =
     (if turn > MAX_SAFE_INTEGER \<or> turn = 0 \<or> step > MAX_SAFE_INTEGER \<or> step = 0
         \<or> ordinal > MAX_SAFE_INTEGER
      then Inl Coordinates_Invalid
      else Inr (''tool:'' @ decimal turn @ '':'' @ decimal step @ '':'' @ decimal ordinal))"

fun toolCallOccurrencesFrom ::
  "nat \<Rightarrow> nat \<Rightarrow> nat \<Rightarrow> tool_call list \<Rightarrow> journal_error + tool_occurrence list" where
  "toolCallOccurrencesFrom turn step ordinal [] = Inr []"
| "toolCallOccurrencesFrom turn step ordinal (call # calls) =
     rbind (toolOccurrenceId turn step ordinal) (\<lambda>occurrenceId.
     rbind (toolCallOccurrencesFrom turn step (Suc ordinal) calls) (\<lambda>rest.
     Inr (\<lparr>occ_id = occurrenceId, occ_parent = None, occ_turn = turn, occ_step = step,
           occ_ordinal = ordinal, occ_call = call\<rparr> # rest)))"

definition toolCallOccurrences ::
  "nat \<Rightarrow> nat \<Rightarrow> tool_call list \<Rightarrow> journal_error + tool_occurrence list" where
  "toolCallOccurrences turn step calls = toolCallOccurrencesFrom turn step 0 calls"

definition toolIntentMatches :: "tool_call \<Rightarrow> tool_intent \<Rightarrow> bool" where
  "toolIntentMatches call intent \<longleftrightarrow>
     (if tc_name call \<noteq> ti_name intent then False else tc_input call = ti_input intent)"

fun outcomeName :: "step_outcome \<Rightarrow> string" where
  "outcomeName Completed = ''completed''"
| "outcomeName Blocked = ''blocked''"
| "outcomeName Cancelled = ''cancelled''"
| "outcomeName Interrupted = ''interrupted''"
| "outcomeName Model_Error = ''model-error''"
| "outcomeName Tool_Error = ''tool-error''"

definition turnFailureMessage :: "step_outcome \<Rightarrow> jstr option \<Rightarrow> jstr" where
  "turnFailureMessage outcome reason =
     (case reason of
        Some (c # cs) \<Rightarrow> js (''Bot turn ended with outcome '' @ outcomeName outcome @ '': '') @ (c # cs)
      | _ \<Rightarrow> js (''Bot turn ended with outcome '' @ outcomeName outcome))"

section \<open>Batches\<close>

definition BATCH_TOOL_NAME :: jstr where "BATCH_TOOL_NAME = js ''batch''"
definition BATCH_MAX_CALLS_V1 :: nat where "BATCH_MAX_CALLS_V1 = 25"
definition BATCH_INVALID_CALL_NAME_V1 :: jstr where
  "BATCH_INVALID_CALL_NAME_V1 = js ''invalid_tool_call''"

definition batchToolOccurrenceId :: "string \<Rightarrow> nat \<Rightarrow> journal_error + string" where
  "batchToolOccurrenceId occurrenceId subIndex =
     (if subIndex > MAX_SAFE_INTEGER then Inl Batch_Index_Invalid
      else Inr (occurrenceId @ ''.'' @ decimal subIndex))"

datatype batch_sub_call =
    Sub_Call jstr json
  | Sub_Invalid jstr string json

datatype batch_refusal = Not_An_Object | Empty_Calls | Too_Many_Calls nat nat

definition decodeBatchCall :: "json \<Rightarrow> batch_sub_call" where
  "decodeBatchCall call =
     (let tool = (case jget call ''tool'' of Some (JStr t) \<Rightarrow> t | _ \<Rightarrow> [])
      in if \<not> isRecord call \<or> tool = [] then Sub_Invalid tool ''it needs a tool name'' call
         else if tool = BATCH_TOOL_NAME then Sub_Invalid tool ''batch cannot call itself'' call
         else case jget call ''arguments'' of
             None \<Rightarrow> Sub_Call tool (JObj [])
           | Some arguments \<Rightarrow>
               if isRecord arguments then Sub_Call tool arguments
               else Sub_Invalid tool ''its arguments must be an object'' call)"

text \<open>The decoder with its cap as an argument; the code's cap is \<open>BATCH_MAX_CALLS_V1\<close>.\<close>

definition decodeBatchCallsUpTo :: "nat \<Rightarrow> json \<Rightarrow> batch_refusal + batch_sub_call list" where
  "decodeBatchCallsUpTo cap input =
     (if \<not> isRecord input then Inl Not_An_Object
      else case jget input ''calls'' of
          Some (JArr calls) \<Rightarrow>
            if calls = [] then Inl Empty_Calls
            else if length calls > cap then Inl (Too_Many_Calls cap (length calls))
            else Inr (map decodeBatchCall calls)
        | _ \<Rightarrow> Inl Empty_Calls)"

definition decodeBatchCallsV1 :: "json \<Rightarrow> batch_refusal + batch_sub_call list" where
  "decodeBatchCallsV1 input = decodeBatchCallsUpTo BATCH_MAX_CALLS_V1 input"

fun batchSubCallName :: "batch_sub_call \<Rightarrow> jstr" where
  "batchSubCallName (Sub_Call tool arguments) = tool"
| "batchSubCallName (Sub_Invalid tool reason raw) = BATCH_INVALID_CALL_NAME_V1"

fun batchSubCallInput :: "batch_sub_call \<Rightarrow> json" where
  "batchSubCallInput (Sub_Call tool arguments) = arguments"
| "batchSubCallInput (Sub_Invalid tool reason raw) = raw"

fun batchSubOccurrencesFrom ::
  "tool_occurrence \<Rightarrow> nat \<Rightarrow> batch_sub_call list \<Rightarrow> journal_error + tool_occurrence list" where
  "batchSubOccurrencesFrom parent index [] = Inr []"
| "batchSubOccurrencesFrom parent index (sub # subs) =
     rbind (batchToolOccurrenceId (occ_id parent) index) (\<lambda>occurrenceId.
     rbind (batchSubOccurrencesFrom parent (Suc index) subs) (\<lambda>rest.
     Inr (\<lparr>occ_id = occurrenceId, occ_parent = Some (occ_id parent), occ_turn = occ_turn parent,
           occ_step = occ_step parent, occ_ordinal = index,
           occ_call = \<lparr>tc_id = tc_id (occ_call parent) @ js (''.'' @ decimal index),
                       tc_name = batchSubCallName sub, tc_input = batchSubCallInput sub\<rparr>\<rparr> # rest)))"

definition batchSubOccurrencesUpTo ::
  "nat \<Rightarrow> tool_occurrence \<Rightarrow> journal_error + tool_occurrence list" where
  "batchSubOccurrencesUpTo cap parent =
     (if tc_name (occ_call parent) \<noteq> BATCH_TOOL_NAME then Inr []
      else case decodeBatchCallsUpTo cap (tc_input (occ_call parent)) of
          Inl reason \<Rightarrow> Inr []
        | Inr subs \<Rightarrow> batchSubOccurrencesFrom parent 0 subs)"

definition batchSubOccurrencesV1 :: "tool_occurrence \<Rightarrow> journal_error + tool_occurrence list" where
  "batchSubOccurrencesV1 parent = batchSubOccurrencesUpTo BATCH_MAX_CALLS_V1 parent"

fun withSubOccurrences ::
  "nat \<Rightarrow> tool_occurrence list \<Rightarrow> journal_error + tool_occurrence list" where
  "withSubOccurrences cap [] = Inr []"
| "withSubOccurrences cap (occurrence # occurrences) =
     rbind (batchSubOccurrencesUpTo cap occurrence) (\<lambda>subs.
     rbind (withSubOccurrences cap occurrences) (\<lambda>rest.
     Inr (occurrence # subs @ rest)))"

definition expandToolCallOccurrencesUpTo ::
  "nat \<Rightarrow> nat \<Rightarrow> nat \<Rightarrow> tool_call list \<Rightarrow> journal_error + tool_occurrence list" where
  "expandToolCallOccurrencesUpTo cap turn step calls =
     rbind (toolCallOccurrences turn step calls) (withSubOccurrences cap)"

definition expandToolCallOccurrencesV1 ::
  "nat \<Rightarrow> nat \<Rightarrow> tool_call list \<Rightarrow> journal_error + tool_occurrence list" where
  "expandToolCallOccurrencesV1 turn step calls =
     expandToolCallOccurrencesUpTo BATCH_MAX_CALLS_V1 turn step calls"

section \<open>Ids of one step\<close>

lemma tail_split:
  assumes "c \<notin> set x" and "c \<notin> set y"
    and "u = [] \<or> (\<exists>w. u = c # w)" and "v = [] \<or> (\<exists>w. v = c # w)" and "x @ u = y @ v"
  shows "x = y \<and> u = v"
  using assms by (induction x arbitrary: y) (auto simp: Cons_eq_append_conv append_eq_Cons_conv)

lemma upt_Suc_shift: "[n..<n + Suc k] = n # [Suc n..<Suc n + k]"
  by (simp add: upt_conv_Cons del: upt_Suc)

lemma dot_not_in_decimal [simp]: "CHR ''.'' \<notin> set (decimal n)"
  using decimal_digits [of "CHR ''.''" n] by auto

lemma colon_not_in_decimal [simp]: "CHR '':'' \<notin> set (decimal n)"
  using decimal_digits [of "CHR '':''" n] by auto

text \<open>An id is the base of its step, an ordinal, and for a call of a batch a dot and its index.\<close>

definition idBase :: "nat \<Rightarrow> nat \<Rightarrow> string" where
  "idBase turn step = ''tool:'' @ decimal turn @ '':'' @ decimal step @ '':''"

lemma idBase_split:
  assumes "idBase t s @ u = idBase t' s' @ v"
  shows "t = t' \<and> s = s' \<and> u = v"
proof -
  have "decimal t = decimal t' \<and> '':'' @ decimal s @ '':'' @ u = '':'' @ decimal s' @ '':'' @ v"
    by (rule tail_split [where c = "CHR '':''"]) (use assms in \<open>simp_all add: idBase_def\<close>)
  then have "t = t'" and s: "decimal s @ '':'' @ u = decimal s' @ '':'' @ v" by simp_all
  moreover have "decimal s = decimal s' \<and> '':'' @ u = '':'' @ v"
    by (rule tail_split [where c = "CHR '':''"]) (use s in simp_all)
  ultimately show ?thesis by simp
qed

lemma toolOccurrenceId_Inr:
  "toolOccurrenceId turn step ordinal = Inr i \<Longrightarrow> i = idBase turn step @ decimal ordinal"
  by (simp add: toolOccurrenceId_def idBase_def split: if_splits)

lemma toolCallOccurrencesFrom_Inr:
  assumes "toolCallOccurrencesFrom turn step n calls = Inr occs"
  shows "map occ_id occs = map (\<lambda>i. idBase turn step @ decimal i) [n..<n + length calls]
    \<and> map occ_call occs = calls
    \<and> (\<forall>x \<in> set occs. occ_turn x = turn \<and> occ_step x = step \<and> occ_parent x = None)"
  using assms
proof (induction calls arbitrary: n occs)
  case (Cons call calls)
  then obtain i rest where i: "toolOccurrenceId turn step n = Inr i"
    and rest: "toolCallOccurrencesFrom turn step (Suc n) calls = Inr rest"
    and occs: "occs = \<lparr>occ_id = i, occ_parent = None, occ_turn = turn, occ_step = step,
        occ_ordinal = n, occ_call = call\<rparr> # rest"
    by (auto simp: rbind_Inr_iff)
  have "[n..<n + length (call # calls)] = n # [Suc n..<Suc n + length calls]"
    using upt_Suc_shift [of n "length calls"] by (simp del: upt_Suc)
  with Cons.IH [OF rest] toolOccurrenceId_Inr [OF i] occs show ?case by simp
qed simp

lemma batchSubOccurrencesFrom_Inr:
  assumes "batchSubOccurrencesFrom parent n subs = Inr occs"
  shows "map occ_id occs = map (\<lambda>i. occ_id parent @ ''.'' @ decimal i) [n..<n + length subs]
    \<and> (\<forall>x \<in> set occs. occ_turn x = occ_turn parent \<and> occ_step x = occ_step parent
         \<and> occ_parent x = Some (occ_id parent))"
  using assms
proof (induction subs arbitrary: n occs)
  case (Cons sub subs)
  then obtain i rest where i: "batchToolOccurrenceId (occ_id parent) n = Inr i"
    and rest: "batchSubOccurrencesFrom parent (Suc n) subs = Inr rest"
    and occs: "map occ_id occs = i # map occ_id rest"
      "\<forall>x \<in> set occs. x \<in> set rest \<or> occ_turn x = occ_turn parent \<and> occ_step x = occ_step parent
         \<and> occ_parent x = Some (occ_id parent)"
    by (auto simp: rbind_Inr_iff)
  have "[n..<n + length (sub # subs)] = n # [Suc n..<Suc n + length subs]"
    using upt_Suc_shift [of n "length subs"] by (simp del: upt_Suc)
  moreover have "i = occ_id parent @ ''.'' @ decimal n"
    using i by (simp add: batchToolOccurrenceId_def split: if_splits)
  ultimately show ?case using Cons.IH [OF rest] occs by auto
qed simp

lemma batchSubOccurrencesUpTo_Inr:
  assumes "batchSubOccurrencesUpTo cap parent = Inr occs"
  shows "(\<exists>n. map occ_id occs = map (\<lambda>i. occ_id parent @ ''.'' @ decimal i) [0..<n])
    \<and> (\<forall>x \<in> set occs. occ_turn x = occ_turn parent \<and> occ_step x = occ_step parent
         \<and> occ_parent x = Some (occ_id parent))"
proof (cases "decodeBatchCallsUpTo cap (tc_input (occ_call parent))")
  case (Inl reason)
  then have "occs = []" using assms by (simp add: batchSubOccurrencesUpTo_def split: if_splits)
  then show ?thesis by (auto intro: exI [of _ 0])
next
  case (Inr subs)
  show ?thesis
  proof (cases "tc_name (occ_call parent) = BATCH_TOOL_NAME")
    case True
    with Inr assms have "batchSubOccurrencesFrom parent 0 subs = Inr occs"
      by (simp add: batchSubOccurrencesUpTo_def)
    from batchSubOccurrencesFrom_Inr [OF this] show ?thesis by auto
  next
    case False
    then have "occs = []" using assms by (simp add: batchSubOccurrencesUpTo_def)
    then show ?thesis by (auto intro: exI [of _ 0])
  qed
qed

text \<open>The id of an occurrence, or of a call of its batch.\<close>

definition idUnder :: "string \<Rightarrow> string \<Rightarrow> bool" where
  "idUnder p i \<longleftrightarrow> (\<exists>u. i = p @ u \<and> (u = [] \<or> (\<exists>w. u = CHR ''.'' # w)))"

lemma idUnder_unique:
  assumes "idUnder (base @ decimal m) i" and "idUnder (base @ decimal n) i"
  shows "m = n"
proof -
  from assms obtain u v where u: "i = base @ decimal m @ u" "u = [] \<or> (\<exists>w. u = CHR ''.'' # w)"
    and v: "i = base @ decimal n @ v" "v = [] \<or> (\<exists>w. v = CHR ''.'' # w)"
    unfolding idUnder_def by (metis append.assoc)
  then have "decimal m @ u = decimal n @ v" by simp
  from tail_split [OF dot_not_in_decimal dot_not_in_decimal u(2) v(2) this] show ?thesis by simp
qed

lemma batchSub_block:
  assumes "batchSubOccurrencesUpTo cap parent = Inr occs"
  shows "distinct (map occ_id (parent # occs))
    \<and> (\<forall>x \<in> set (parent # occs). occ_turn x = occ_turn parent \<and> occ_step x = occ_step parent
         \<and> idUnder (occ_id parent) (occ_id x))"
proof -
  from batchSubOccurrencesUpTo_Inr [OF assms] obtain n where
    ids: "map occ_id occs = map (\<lambda>i. occ_id parent @ ''.'' @ decimal i) [0..<n]" and
    pos: "\<forall>x \<in> set occs. occ_turn x = occ_turn parent \<and> occ_step x = occ_step parent" by blast
  have "distinct (map (\<lambda>i. occ_id parent @ ''.'' @ decimal i) [0..<n])"
    by (simp add: distinct_map inj_on_def)
  with ids have "distinct (map occ_id occs)" by simp
  moreover have form: "\<exists>i. occ_id x = occ_id parent @ ''.'' @ decimal i" if "x \<in> set occs" for x
  proof -
    have "occ_id x \<in> set (map occ_id occs)" using that by simp
    then show ?thesis unfolding ids by auto
  qed
  moreover have "occ_id parent \<notin> set (map occ_id occs)" unfolding ids by auto
  moreover have "idUnder (occ_id parent) (occ_id x)"
    if "x \<in> set (parent # occs)" for x
    using that form by (cases "x = parent") (force simp: idUnder_def)+
  ultimately show ?thesis using pos by simp
qed

lemma withSubOccurrences_Inr:
  assumes "withSubOccurrences cap occs = Inr r"
    and "\<forall>x \<in> set occs. \<exists>i. occ_id x = base @ decimal i"
    and "distinct (map occ_id occs)"
  shows "distinct (map occ_id r)
    \<and> (\<forall>x \<in> set r. \<exists>q \<in> set occs. occ_turn x = occ_turn q \<and> occ_step x = occ_step q
         \<and> idUnder (occ_id q) (occ_id x))"
  using assms
proof (induction occs arbitrary: r)
  case (Cons p occs)
  then obtain subs rest where subs: "batchSubOccurrencesUpTo cap p = Inr subs"
    and rest: "withSubOccurrences cap occs = Inr rest" and r: "r = (p # subs) @ rest"
    by (auto simp: rbind_Inr_iff)
  note block = batchSub_block [OF subs]
  have IH: "distinct (map occ_id rest)
    \<and> (\<forall>x \<in> set rest. \<exists>q \<in> set occs. occ_turn x = occ_turn q \<and> occ_step x = occ_step q
         \<and> idUnder (occ_id q) (occ_id x))"
    using Cons.IH [OF rest] Cons.prems by simp
  have apart: "occ_id x \<noteq> occ_id y" if x: "x \<in> set (p # subs)" and y: "y \<in> set rest" for x y
  proof
    assume eq: "occ_id x = occ_id y"
    have u: "idUnder (occ_id p) (occ_id x)" using block x by (auto simp del: distinct.simps)
    obtain q where q: "q \<in> set occs" and v: "idUnder (occ_id q) (occ_id y)"
      using IH y by blast
    obtain i j where i: "occ_id p = base @ decimal i" and j: "occ_id q = base @ decimal j"
      using Cons.prems(2) q by (meson list.set_intros)
    have "i = j" using u v unfolding i j eq by (rule idUnder_unique)
    then have "occ_id p \<in> occ_id ` set occs" using i j q by (metis imageI)
    then show False using Cons.prems(3) by simp
  qed
  have "set (map occ_id (p # subs)) \<inter> set (map occ_id rest) = {}"
    using apart by (auto simp del: list.map)
  then have "distinct (map occ_id r)" unfolding r map_append distinct_append
    using block IH by blast
  moreover have "\<exists>q \<in> set (p # occs). occ_turn x = occ_turn q \<and> occ_step x = occ_step q
         \<and> idUnder (occ_id q) (occ_id x)" if "x \<in> set r" for x
  proof (cases "x \<in> set rest")
    case True
    with IH show ?thesis by (meson list.set_intros(2))
  next
    case False
    with that r have "x \<in> set (p # subs)" by simp
    with block show ?thesis by (meson list.set_intros(1))
  qed
  ultimately show ?case by blast
qed simp

lemma expandToolCallOccurrencesUpTo_Inr:
  assumes "expandToolCallOccurrencesUpTo cap turn step calls = Inr r"
  shows "distinct (map occ_id r)
    \<and> (\<forall>x \<in> set r. occ_turn x = turn \<and> occ_step x = step \<and> prefix (idBase turn step) (occ_id x))"
proof -
  obtain occs where occs: "toolCallOccurrencesFrom turn step 0 calls = Inr occs"
    and r: "withSubOccurrences cap occs = Inr r"
    using assms by (auto simp: expandToolCallOccurrencesUpTo_def toolCallOccurrences_def rbind_Inr_iff)
  note top = toolCallOccurrencesFrom_Inr [OF occs]
  have ids: "map occ_id occs = map (\<lambda>i. idBase turn step @ decimal i) [0..<length calls]"
    using top by simp
  have form: "\<forall>x \<in> set occs. \<exists>i. occ_id x = idBase turn step @ decimal i"
  proof
    fix x assume "x \<in> set occs"
    then have "occ_id x \<in> set (map occ_id occs)" by simp
    then show "\<exists>i. occ_id x = idBase turn step @ decimal i" unfolding ids by auto
  qed
  have dist: "distinct (map occ_id occs)" unfolding ids by (simp add: distinct_map inj_on_def)
  from withSubOccurrences_Inr [OF r form dist] top form show ?thesis
    by (fastforce simp: prefix_def idUnder_def)
qed

lemmas expandToolCallOccurrencesV1_Inr =
  expandToolCallOccurrencesUpTo_Inr [of BATCH_MAX_CALLS_V1, folded expandToolCallOccurrencesV1_def]

section \<open>Properties\<close>

text \<open>C39: The occurrences one step declares have distinct ids, the calls of its batches included,
  whatever ids, names and arguments the model wrote; every one is at the position of its step.\<close>

theorem occurrence_ids_distinct:
  assumes "expandToolCallOccurrencesV1 turn step calls = Inr occurrences"
  shows "distinct (map occ_id occurrences) \<and>
    (\<forall>x \<in> set occurrences. occ_turn x = turn \<and> occ_step x = step)"
  using expandToolCallOccurrencesV1_Inr [OF assms] by blast

definition twoCallBatch :: tool_call where
  "twoCallBatch = \<lparr>tc_id = js ''c'', tc_name = js ''batch'', tc_input = JObj [(''calls'', JArr
     [JObj [(''tool'', JStr (js ''read''))], JObj [(''tool'', JStr (js ''read''))]])]\<rparr>"

lemma twoCallBatch_expands:
  "map_sum id (map occ_id) (expandToolCallOccurrencesV1 1 1 [twoCallBatch, twoCallBatch]) =
   Inr [''tool:1:1:0'', ''tool:1:1:0.0'', ''tool:1:1:0.1'',
        ''tool:1:1:1'', ''tool:1:1:1.0'', ''tool:1:1:1.1'']"
  by (simp add: expandToolCallOccurrencesV1_def expandToolCallOccurrencesUpTo_def
      toolCallOccurrences_def toolOccurrenceId_def MAX_SAFE_INTEGER_def decimal_digit
      batchSubOccurrencesUpTo_def twoCallBatch_def BATCH_TOOL_NAME_def decodeBatchCallsUpTo_def
      BATCH_MAX_CALLS_V1_def batchToolOccurrenceId_def)

theorem occurrence_ids_distinct_witness:
  "\<exists>occurrences. expandToolCallOccurrencesV1 1 1 [twoCallBatch, twoCallBatch] = Inr occurrences \<and>
     length occurrences = 6 \<and> distinct (map occ_id occurrences)"
proof -
  obtain occurrences where o: "expandToolCallOccurrencesV1 1 1 [twoCallBatch, twoCallBatch] = Inr occurrences"
      and ids: "map occ_id occurrences = [''tool:1:1:0'', ''tool:1:1:0.0'', ''tool:1:1:0.1'',
        ''tool:1:1:1'', ''tool:1:1:1.0'', ''tool:1:1:1.1'']"
    using twoCallBatch_expands
    by (cases "expandToolCallOccurrencesV1 1 1 [twoCallBatch, twoCallBatch]") auto
  have "length occurrences = 6" using arg_cong [OF ids, of length] by simp
  with o occurrence_ids_distinct [OF o] show ?thesis by blast
qed

end
