(* ===== verification/Session_Journal.thy ===== *)
theory Session_Journal
  imports Session_Events
begin

text \<open>
  The tool-occurrence journal of a Session (\<open>validateToolOccurrenceJournal\<close> and
  \<open>validateSettledToolOccurrenceJournal\<close> of core/contracts/session.ts): one pass over the events
  that accepts a log of well-bracketed Turns and steps in which every tool call is declared by an
  assistant message, intended once and answered once before its step ends. A JavaScript \<open>Map\<close> is an
  association list in insertion order, a \<open>Set\<close> a list without repetition. The invariant
  \<open>journal_inv\<close> says what an accepted prefix guarantees.
\<close>

section \<open>The pass\<close>

record journal_entry =
  je_occurrence :: tool_occurrence
  je_intent :: "tool_intent option"
  je_result :: "tool_outcome option"

record open_step =
  os_turn :: nat
  os_step :: nat
  os_occurrences :: "string list"

record journal_state =
  js_journal :: "(string \<times> journal_entry) list"
  js_startedTurns :: "nat list"
  js_startedSteps :: "(nat \<times> nat) list"
  js_openTurn :: "nat option"
  js_openStep :: "open_step option"

definition journal_start :: journal_state where
  "journal_start =
     \<lparr>js_journal = [], js_startedTurns = [], js_startedSteps = [], js_openTurn = None,
      js_openStep = None\<rparr>"

definition entryUnsettled :: "journal_entry \<Rightarrow> bool" where
  "entryUnsettled entry \<longleftrightarrow> je_intent entry = None \<or> je_result entry = None"

definition stepIs :: "open_step option \<Rightarrow> nat \<Rightarrow> nat \<Rightarrow> bool" where
  "stepIs openStep turn step \<longleftrightarrow>
     (case openStep of None \<Rightarrow> False | Some s \<Rightarrow> os_turn s = turn \<and> os_step s = step)"

fun firstUnsettled :: "(string \<times> journal_entry) list \<Rightarrow> string list \<Rightarrow> journal_entry option" where
  "firstUnsettled journal [] = None"
| "firstUnsettled journal (occurrenceId # ids) =
     (case map_of journal occurrenceId of
        Some entry \<Rightarrow> if entryUnsettled entry then Some entry else firstUnsettled journal ids
      | None \<Rightarrow> firstUnsettled journal ids)"

fun declareOccurrences ::
  "tool_occurrence list \<Rightarrow> (string \<times> journal_entry) list \<Rightarrow> string list \<Rightarrow>
   journal_error + ((string \<times> journal_entry) list \<times> string list)" where
  "declareOccurrences [] journal ids = Inr (journal, ids)"
| "declareOccurrences (occurrence # occurrences) journal ids =
     (if map_of journal (occ_id occurrence) \<noteq> None
      then Inl (Multiple_Assistant_Calls (occ_id occurrence))
      else declareOccurrences occurrences
        (AList.update (occ_id occurrence)
          \<lparr>je_occurrence = occurrence, je_intent = None, je_result = None\<rparr> journal)
        (if occ_id occurrence \<in> set ids then ids else ids @ [occ_id occurrence]))"

text \<open>The entry a \<open>tool/call\<close> or \<open>tool/result\<close> event is about, after the checks both share.\<close>

definition matchedEntry ::
  "journal_state \<Rightarrow> nat \<Rightarrow> nat \<Rightarrow> string \<Rightarrow> jstr \<Rightarrow> journal_error + journal_entry" where
  "matchedEntry st turn step occurrenceId name =
     (if \<not> stepIs (js_openStep st) turn step then Inl (Occurrence_Outside_Step occurrenceId)
      else case map_of (js_journal st) occurrenceId of
          None \<Rightarrow> Inl (Occurrence_Unmatched occurrenceId)
        | Some entry \<Rightarrow>
            if occ_turn (je_occurrence entry) \<noteq> turn \<or> occ_step (je_occurrence entry) \<noteq> step
               \<or> tc_name (occ_call (je_occurrence entry)) \<noteq> name
            then Inl (Occurrence_Unmatched occurrenceId)
            else Inr entry)"

fun journalStep :: "nat \<Rightarrow> event_body \<Rightarrow> journal_state \<Rightarrow> journal_error + journal_state" where
  "journalStep cap (Turn_Start turn) st =
     (case js_openTurn st of
        Some openTurn \<Rightarrow> Inl (Turn_Started_While_Open turn openTurn)
      | None \<Rightarrow>
          if turn \<in> set (js_startedTurns st) then Inl (Turn_Started_Again turn)
          else Inr (st\<lparr>js_startedTurns := turn # js_startedTurns st, js_openTurn := Some turn\<rparr>))"
| "journalStep cap (Turn_End turn outcome reason) st =
     (if js_openTurn st \<noteq> Some turn then Inl (Turn_End_Unmatched turn)
      else case js_openStep st of
          Some s \<Rightarrow> Inl (Turn_End_Open_Step turn (os_step s))
        | None \<Rightarrow> Inr (st\<lparr>js_openTurn := None\<rparr>))"
| "journalStep cap (Step_Start turn step) st =
     (if js_openTurn st \<noteq> Some turn then Inl (Step_Outside_Turn turn step)
      else case js_openStep st of
          Some s \<Rightarrow> Inl (Step_Started_While_Open turn step)
        | None \<Rightarrow>
            if (turn, step) \<in> set (js_startedSteps st) then Inl (Step_Started_Again turn step)
            else Inr (st\<lparr>js_startedSteps := (turn, step) # js_startedSteps st,
                js_openStep := Some \<lparr>os_turn = turn, os_step = step, os_occurrences = []\<rparr>\<rparr>))"
| "journalStep cap (Step_End turn step outcome) st =
     (case js_openStep st of
        None \<Rightarrow> Inl (Step_End_Unmatched turn step)
      | Some s \<Rightarrow>
          if os_turn s \<noteq> turn \<or> os_step s \<noteq> step then Inl (Step_End_Unmatched turn step)
          else case firstUnsettled (js_journal st) (os_occurrences s) of
              Some entry \<Rightarrow> Inl (Step_End_Unsettled (occ_id (je_occurrence entry)))
            | None \<Rightarrow> Inr (st\<lparr>js_openStep := None\<rparr>))"
| "journalStep cap (Assistant_Message turn step requestId text toolCalls providerState) st =
     (if toolCalls = [] then Inr st
      else case js_openStep st of
          None \<Rightarrow> Inl (Calls_Outside_Step turn step)
        | Some s \<Rightarrow>
            if os_turn s \<noteq> turn \<or> os_step s \<noteq> step then Inl (Calls_Outside_Step turn step)
            else rbind (expandToolCallOccurrencesUpTo cap turn step toolCalls) (\<lambda>occurrences.
              rbind (declareOccurrences occurrences (js_journal st) (os_occurrences s))
                (\<lambda>(journal, ids).
                  Inr (st\<lparr>js_journal := journal,
                          js_openStep := Some (s\<lparr>os_occurrences := ids\<rparr>)\<rparr>))))"
| "journalStep cap (Tool_Call intent) st =
     rbind (matchedEntry st (ti_turn intent) (ti_step intent) (ti_occurrence intent) (ti_name intent))
       (\<lambda>entry.
         if \<not> toolIntentMatches (occ_call (je_occurrence entry)) intent
         then Inl (Input_Mismatch (ti_occurrence intent))
         else if je_intent entry \<noteq> None \<or> je_result entry \<noteq> None
         then Inl (Duplicate_Intent (ti_occurrence intent))
         else Inr (st\<lparr>js_journal := AList.update (ti_occurrence intent)
                (entry\<lparr>je_intent := Some intent\<rparr>) (js_journal st)\<rparr>))"
| "journalStep cap (Tool_Result result) st =
     rbind (matchedEntry st (to_turn result) (to_step result) (to_occurrence result) (to_name result))
       (\<lambda>entry.
         if je_intent entry = None then Inl (Result_Without_Intent (to_occurrence result))
         else if je_result entry \<noteq> None then Inl (Duplicate_Result (to_occurrence result))
         else Inr (st\<lparr>js_journal := AList.update (to_occurrence result)
                (entry\<lparr>je_result := Some result\<rparr>) (js_journal st)\<rparr>))"
| "journalStep cap _ st = Inr st"

fun journalRun :: "nat \<Rightarrow> session_event list \<Rightarrow> journal_state \<Rightarrow> journal_error + journal_state" where
  "journalRun cap [] st = Inr st"
| "journalRun cap (event # events) st =
     rbind (journalStep cap (body event) st) (journalRun cap events)"

definition validateToolOccurrenceJournalUpTo ::
  "nat \<Rightarrow> session_event list \<Rightarrow> journal_error + (string \<times> journal_entry) list" where
  "validateToolOccurrenceJournalUpTo cap events =
     rbind (journalRun cap events journal_start) (\<lambda>st. Inr (js_journal st))"

definition validateToolOccurrenceJournal ::
  "session_event list \<Rightarrow> journal_error + (string \<times> journal_entry) list" where
  "validateToolOccurrenceJournal events =
     validateToolOccurrenceJournalUpTo BATCH_MAX_CALLS_V1 events"

definition validateSettledToolOccurrenceJournal ::
  "session_event list \<Rightarrow> journal_error + (string \<times> journal_entry) list" where
  "validateSettledToolOccurrenceJournal events =
     rbind (validateToolOccurrenceJournal events) (\<lambda>journal.
       case find (\<lambda>(_, entry). entryUnsettled entry) journal of
         Some (_, entry) \<Rightarrow> Inl (Not_Durably_Settled (occ_id (je_occurrence entry)))
       | None \<Rightarrow> Inr journal)"

lemma journalRun_append:
  "journalRun cap (xs @ ys) st = rbind (journalRun cap xs st) (journalRun cap ys)"
proof (induction xs arbitrary: st)
  case (Cons x xs)
  then show ?case by (cases "journalStep cap (body x) st") simp_all
qed simp

section \<open>What an accepted log guarantees\<close>

definition entry_ok :: "string \<Rightarrow> journal_entry \<Rightarrow> bool" where
  "entry_ok key entry \<longleftrightarrow>
     occ_id (je_occurrence entry) = key \<and>
     (case je_intent entry of
        None \<Rightarrow> je_result entry = None
      | Some intent \<Rightarrow>
          ti_occurrence intent = key \<and>
          ti_turn intent = occ_turn (je_occurrence entry) \<and>
          ti_step intent = occ_step (je_occurrence entry) \<and>
          toolIntentMatches (occ_call (je_occurrence entry)) intent) \<and>
     (case je_result entry of
        None \<Rightarrow> True
      | Some result \<Rightarrow>
          to_occurrence result = key \<and>
          to_turn result = occ_turn (je_occurrence entry) \<and>
          to_step result = occ_step (je_occurrence entry) \<and>
          to_name result = tc_name (occ_call (je_occurrence entry)))"

text \<open>An entry that is not settled belongs to the open step; a declared id of that step is an entry
  at its position.\<close>

definition journal_inv :: "journal_state \<Rightarrow> bool" where
  "journal_inv st \<longleftrightarrow>
     distinct (map fst (js_journal st)) \<and>
     (\<forall>key entry. map_of (js_journal st) key = Some entry \<longrightarrow> entry_ok key entry \<and>
        (entryUnsettled entry \<longrightarrow>
          (\<exists>s. js_openStep st = Some s \<and> key \<in> set (os_occurrences s)))) \<and>
     (\<forall>turn. js_openTurn st = Some turn \<longrightarrow> turn \<in> set (js_startedTurns st)) \<and>
     (\<forall>s. js_openStep st = Some s \<longrightarrow>
        js_openTurn st = Some (os_turn s) \<and> (os_turn s, os_step s) \<in> set (js_startedSteps st) \<and>
        distinct (os_occurrences s) \<and>
        (\<forall>key \<in> set (os_occurrences s). \<exists>entry. map_of (js_journal st) key = Some entry \<and>
           occ_turn (je_occurrence entry) = os_turn s \<and> occ_step (je_occurrence entry) = os_step s))"

lemma journal_inv_start [simp]: "journal_inv journal_start"
  by (simp add: journal_inv_def journal_start_def)

lemma firstUnsettled_None_iff:
  "firstUnsettled journal ids = None \<longleftrightarrow>
   (\<forall>key \<in> set ids. \<forall>entry. map_of journal key = Some entry \<longrightarrow> \<not> entryUnsettled entry)"
  by (induction ids) (auto split: option.splits)

lemma matchedEntry_Inr_iff:
  "matchedEntry st turn step key name = Inr entry \<longleftrightarrow>
   stepIs (js_openStep st) turn step \<and> map_of (js_journal st) key = Some entry \<and>
   occ_turn (je_occurrence entry) = turn \<and> occ_step (je_occurrence entry) = step \<and>
   tc_name (occ_call (je_occurrence entry)) = name"
  by (auto simp: matchedEntry_def split: option.splits if_splits)

lemma declareOccurrences_Inr:
  assumes "declareOccurrences occs journal ids = Inr (journal', ids')"
    and "distinct (map fst journal)" and "distinct ids"
  shows "distinct (map fst journal') \<and> distinct ids' \<and>
    set ids' = set ids \<union> occ_id ` set occs \<and>
    (\<forall>key. map_of journal' key =
       (case find (\<lambda>x. occ_id x = key) occs of
          Some x \<Rightarrow> Some \<lparr>je_occurrence = x, je_intent = None, je_result = None\<rparr>
        | None \<Rightarrow> map_of journal key)) \<and>
    (\<forall>x \<in> set occs. map_of journal (occ_id x) = None)"
  using assms
proof (induction occs arbitrary: journal ids)
  case (Cons x occs)
  let ?journal = "AList.update (occ_id x) \<lparr>je_occurrence = x, je_intent = None, je_result = None\<rparr> journal"
  let ?ids = "if occ_id x \<in> set ids then ids else ids @ [occ_id x]"
  from Cons.prems(1) have fresh: "map_of journal (occ_id x) = None"
    and rest: "declareOccurrences occs ?journal ?ids = Inr (journal', ids')"
    by (auto split: if_splits)
  have IH: "distinct (map fst journal') \<and> distinct ids' \<and>
    set ids' = set ?ids \<union> occ_id ` set occs \<and>
    (\<forall>key. map_of journal' key =
       (case find (\<lambda>y. occ_id y = key) occs of
          Some y \<Rightarrow> Some \<lparr>je_occurrence = y, je_intent = None, je_result = None\<rparr>
        | None \<Rightarrow> map_of ?journal key)) \<and>
    (\<forall>y \<in> set occs. map_of ?journal (occ_id y) = None)"
    using Cons.IH [OF rest] Cons.prems(2,3) by (simp add: distinct_update)
  have notx: "occ_id y \<noteq> occ_id x" "map_of journal (occ_id y) = None" if "y \<in> set occs" for y
    using IH that by (auto simp: update_conv' split: if_splits)
  have nofind: "find (\<lambda>y. occ_id y = occ_id x) occs = None"
    using notx(1) by (auto simp: find_None_iff)
  have "map_of journal' key =
       (case find (\<lambda>y. occ_id y = key) (x # occs) of
          Some y \<Rightarrow> Some \<lparr>je_occurrence = y, je_intent = None, je_result = None\<rparr>
        | None \<Rightarrow> map_of journal key)" for key
    using IH nofind by (cases "occ_id x = key") (auto simp: update_conv' split: option.splits)
  moreover have "set ids' = set ids \<union> occ_id ` set (x # occs)"
    using IH by (auto split: if_splits)
  ultimately show ?case using IH notx(2) fresh by auto
qed simp

lemma find_by_id:
  assumes "distinct (map occ_id occs)"
  shows "find (\<lambda>x. occ_id x = key) occs = Some y \<longleftrightarrow> y \<in> set occs \<and> occ_id y = key"
  using assms by (induction occs) auto

lemma journal_inv_declare:
  assumes inv: "journal_inv st" and s: "js_openStep st = Some s"
    and expand: "expandToolCallOccurrencesUpTo cap (os_turn s) (os_step s) calls = Inr occs"
    and decl0: "declareOccurrences occs (js_journal st) (os_occurrences s) = Inr (journal, ids)"
  shows "journal_inv (st\<lparr>js_journal := journal, js_openStep := Some (s\<lparr>os_occurrences := ids\<rparr>)\<rparr>)"
proof -
  have dist: "distinct (map occ_id occs)"
    and pos: "\<forall>x \<in> set occs. occ_turn x = os_turn s \<and> occ_step x = os_step s"
    using expandToolCallOccurrencesUpTo_Inr [OF expand] by auto
  have prev: "distinct (map fst (js_journal st))" "distinct (os_occurrences s)"
    using inv s by (auto simp: journal_inv_def)
  note decl = declareOccurrences_Inr [OF decl0 prev]
  have get: "map_of journal key =
      (case find (\<lambda>x. occ_id x = key) occs of
         Some x \<Rightarrow> Some \<lparr>je_occurrence = x, je_intent = None, je_result = None\<rparr>
       | None \<Rightarrow> map_of (js_journal st) key)" for key
    using decl by blast
  have ids: "set ids = set (os_occurrences s) \<union> occ_id ` set occs" using decl by blast
  have entries: "entry_ok key entry \<and> (entryUnsettled entry \<longrightarrow> key \<in> set ids)"
    if e: "map_of journal key = Some entry" for key entry
  proof (cases "find (\<lambda>x. occ_id x = key) occs")
    case None
    with e get have "map_of (js_journal st) key = Some entry" by simp
    with inv s ids show ?thesis by (auto simp: journal_inv_def)
  next
    case (Some x)
    then have "x \<in> set occs \<and> occ_id x = key" by (simp add: find_by_id [OF dist])
    moreover have "entry = \<lparr>je_occurrence = x, je_intent = None, je_result = None\<rparr>"
      using Some e get by simp
    ultimately show ?thesis using ids by (auto simp: entry_ok_def)
  qed
  have found: "\<exists>entry. map_of journal key = Some entry \<and>
      occ_turn (je_occurrence entry) = os_turn s \<and> occ_step (je_occurrence entry) = os_step s"
    if k: "key \<in> set ids" for key
  proof (cases "find (\<lambda>x. occ_id x = key) occs")
    case None
    then have "key \<notin> occ_id ` set occs" by (auto simp: find_None_iff)
    with k ids have "key \<in> set (os_occurrences s)" by simp
    with inv s None get show ?thesis by (auto simp: journal_inv_def)
  next
    case (Some x)
    then have "x \<in> set occs" by (simp add: find_by_id [OF dist])
    with Some pos get show ?thesis by simp
  qed
  show ?thesis
    using decl entries found inv s by (auto simp: journal_inv_def)
qed

lemma journal_inv_entry:
  assumes inv: "journal_inv st" and old: "map_of (js_journal st) key = Some entry"
    and same: "je_occurrence entry' = je_occurrence entry" and ok: "entry_ok key entry'"
    and opened: "stepIs (js_openStep st) (occ_turn (je_occurrence entry)) (occ_step (je_occurrence entry))"
    and unsettled: "entryUnsettled entry"
  shows "journal_inv (st\<lparr>js_journal := AList.update key entry' (js_journal st)\<rparr>)"
proof -
  have "\<exists>s. js_openStep st = Some s \<and> key \<in> set (os_occurrences s)"
    using inv old unsettled by (auto simp: journal_inv_def)
  then show ?thesis using assms unfolding journal_inv_def
    by (auto simp: distinct_update update_conv' stepIs_def split: if_splits)
qed

lemma journal_inv_step:
  assumes "journalStep cap b st = Inr st'" and "journal_inv st"
  shows "journal_inv st'"
proof (cases b)
  case (Step_End turn step outcome)
  with assms obtain s where s: "js_openStep st = Some s"
    and none: "firstUnsettled (js_journal st) (os_occurrences s) = None"
    and st': "st' = st\<lparr>js_openStep := None\<rparr>"
    by (auto split: option.splits if_splits)
  have "\<not> entryUnsettled entry" if "map_of (js_journal st) key = Some entry" for key entry
    using that none s assms(2) unfolding firstUnsettled_None_iff journal_inv_def
    by (metis option.inject)
  with assms(2) st' show ?thesis by (auto simp: journal_inv_def)
next
  case (Assistant_Message turn step requestId words toolCalls providerState)
  show ?thesis
  proof (cases "toolCalls = []")
    case True
    with Assistant_Message assms show ?thesis by simp
  next
    case False
    with Assistant_Message assms(1) obtain s occs journal ids where
      s: "js_openStep st = Some s" "os_turn s = turn" "os_step s = step"
      and occs: "expandToolCallOccurrencesUpTo cap turn step toolCalls = Inr occs"
      and decl: "declareOccurrences occs (js_journal st) (os_occurrences s) = Inr (journal, ids)"
      and st': "st' = st\<lparr>js_journal := journal, js_openStep := Some (s\<lparr>os_occurrences := ids\<rparr>)\<rparr>"
      by (auto simp: rbind_Inr_iff split: option.splits if_splits)
    show ?thesis unfolding st'
      using assms(2) s(1) occs [folded s(2,3)] decl by (rule journal_inv_declare)
  qed
next
  case (Tool_Call intent)
  with assms(1) obtain entry where
    m: "matchedEntry st (ti_turn intent) (ti_step intent) (ti_occurrence intent) (ti_name intent) = Inr entry"
    and i: "toolIntentMatches (occ_call (je_occurrence entry)) intent"
    and fresh: "je_intent entry = None" "je_result entry = None"
    and st': "st' = st\<lparr>js_journal := AList.update (ti_occurrence intent)
        (entry\<lparr>je_intent := Some intent\<rparr>) (js_journal st)\<rparr>"
    by (auto simp: rbind_Inr_iff split: if_splits)
  have old: "map_of (js_journal st) (ti_occurrence intent) = Some entry"
    using m by (simp add: matchedEntry_Inr_iff)
  then have "entry_ok (ti_occurrence intent) entry" using assms(2) by (simp add: journal_inv_def)
  with m i fresh have "entry_ok (ti_occurrence intent) (entry\<lparr>je_intent := Some intent\<rparr>)"
    by (simp add: entry_ok_def matchedEntry_Inr_iff)
  with old m fresh assms(2) show ?thesis unfolding st'
    by (intro journal_inv_entry) (auto simp: matchedEntry_Inr_iff entryUnsettled_def)
next
  case (Tool_Result result)
  with assms(1) obtain entry where
    m: "matchedEntry st (to_turn result) (to_step result) (to_occurrence result) (to_name result) = Inr entry"
    and fresh: "je_intent entry \<noteq> None" "je_result entry = None"
    and st': "st' = st\<lparr>js_journal := AList.update (to_occurrence result)
        (entry\<lparr>je_result := Some result\<rparr>) (js_journal st)\<rparr>"
    by (auto simp: rbind_Inr_iff split: if_splits)
  have old: "map_of (js_journal st) (to_occurrence result) = Some entry"
    using m by (simp add: matchedEntry_Inr_iff)
  then have "entry_ok (to_occurrence result) entry" using assms(2) by (simp add: journal_inv_def)
  with m fresh have "entry_ok (to_occurrence result) (entry\<lparr>je_result := Some result\<rparr>)"
    by (auto simp: entry_ok_def matchedEntry_Inr_iff)
  with old m fresh assms(2) show ?thesis unfolding st'
    by (intro journal_inv_entry) (auto simp: matchedEntry_Inr_iff entryUnsettled_def)
qed (use assms in \<open>auto simp: journal_inv_def split: option.splits if_splits\<close>)

lemma journal_inv_run:
  "journalRun cap events st = Inr st' \<Longrightarrow> journal_inv st \<Longrightarrow> journal_inv st'"
proof (induction events arbitrary: st)
  case (Cons event events)
  then show ?case by (auto simp: rbind_Inr_iff dest: journal_inv_step)
qed simp

lemma journal_inv_validated:
  "journalRun cap events journal_start = Inr st \<Longrightarrow> journal_inv st"
  by (erule journal_inv_run) simp

lemma journal_inv_get:
  "journal_inv st \<Longrightarrow> map_of (js_journal st) key = Some entry \<Longrightarrow> entry_ok key entry"
  unfolding journal_inv_def by blast

lemma journal_inv_unsettled:
  assumes "journal_inv st" and "map_of (js_journal st) key = Some entry" and "entryUnsettled entry"
  obtains s where "js_openStep st = Some s" and "key \<in> set (os_occurrences s)"
    and "occ_turn (je_occurrence entry) = os_turn s" and "occ_step (je_occurrence entry) = os_step s"
proof -
  obtain s where s: "js_openStep st = Some s" "key \<in> set (os_occurrences s)"
    using assms unfolding journal_inv_def by blast
  then have "\<exists>e. map_of (js_journal st) key = Some e \<and>
      occ_turn (je_occurrence e) = os_turn s \<and> occ_step (je_occurrence e) = os_step s"
    using assms(1) unfolding journal_inv_def by blast
  with s assms(2) that show thesis by simp
qed

lemma journal_inv_occurrence:
  assumes "journal_inv st" and "js_openStep st = Some s" and "key \<in> set (os_occurrences s)"
  obtains entry where "map_of (js_journal st) key = Some entry"
  using assms unfolding journal_inv_def by blast

lemma journal_inv_keys: "journal_inv st \<Longrightarrow> distinct (map fst (js_journal st))"
  unfolding journal_inv_def by blast

end
