(* ===== verification/Session.thy ===== *)
theory Session
  imports Session_Journal
begin

text \<open>
  The resident Session (class \<open>Session\<close> of core/contracts/session.ts): seeding from an active-run
  journal, appending with absolute sequence numbers, the persistence chain and \<open>flush\<close>, the
  attachment cache, the open-step query and the repairs of an interrupted run. Time is an argument.
  The callback that persists a batch is an argument of \<open>flushSession\<close>; a batch waits in
  \<open>ses_pending\<close> until then. The lemmas say that a repair of an accepted journal is accepted as far
  as every call of the open step had started, and that a repair for resumption always is.
\<close>

section \<open>Seeds\<close>

record session_cursor =
  cur_session :: string
  cur_epoch :: nat
  cur_nextSeq :: nat
  cur_nextTurn :: nat

record session_seed =
  seed_cursor :: session_cursor
  seed_startSeq :: nat
  seed_events :: "session_event list"

datatype session_error =
    Session_Is_Disposed
  | Seeded_For_Another string
  | Journal_Start_Mismatch
  | Journal_Not_Contiguous
  | Cursor_Mismatch
  | Journal_Invalid journal_error

fun contiguousFrom :: "nat \<Rightarrow> session_event list \<Rightarrow> bool" where
  "contiguousFrom start [] = True"
| "contiguousFrom start (event # events) = (seq event = start \<and> contiguousFrom (Suc start) events)"

fun turnAfter :: "nat \<Rightarrow> event_body \<Rightarrow> nat" where
  "turnAfter nextTurn (Turn_Start turn) = max nextTurn (turn + 1)"
| "turnAfter nextTurn _ = nextTurn"

definition turnAfterAll :: "nat \<Rightarrow> session_event list \<Rightarrow> nat" where
  "turnAfterAll nextTurn events = foldl (\<lambda>n event. turnAfter n (body event)) nextTurn events"

definition sessionSeedFromJournalV1 ::
  "string \<Rightarrow> session_event list \<Rightarrow> nat \<Rightarrow> session_error + session_seed" where
  "sessionSeedFromJournalV1 sessionId events epoch =
     (case events of
        [] \<Rightarrow> Inr \<lparr>seed_cursor = \<lparr>cur_session = sessionId, cur_epoch = epoch, cur_nextSeq = 0,
                 cur_nextTurn = 1\<rparr>, seed_startSeq = 0, seed_events = []\<rparr>
      | first # _ \<Rightarrow>
          if \<not> contiguousFrom (seq first) events then Inl Journal_Not_Contiguous
          else Inr \<lparr>seed_cursor = \<lparr>cur_session = sessionId, cur_epoch = epoch,
                 cur_nextSeq = seq (last events) + 1, cur_nextTurn = turnAfterAll 1 events\<rparr>,
               seed_startSeq = seq first, seed_events = events\<rparr>)"

section \<open>The Session\<close>

record session =
  ses_id :: string
  ses_events :: "session_event list"
  ses_epoch :: nat
  ses_nextSeq :: nat
  ses_nextTurn :: nat
  ses_disposed :: bool
  ses_persists :: bool
  ses_pending :: "session_event list list"
  ses_failure :: "string option"
  ses_attachments :: "(string \<times> jstr) list"

fun stampFrom :: "string \<Rightarrow> nat \<Rightarrow> event_body list \<Rightarrow> session_event list" where
  "stampFrom now n [] = []"
| "stampFrom now n (input # inputs) =
     \<lparr>seq = n, timestamp = now, body = input\<rparr> # stampFrom now (Suc n) inputs"

definition appendBatch ::
  "string \<Rightarrow> event_body list \<Rightarrow> session \<Rightarrow> session_error + (session \<times> session_event list)" where
  "appendBatch now inputs s =
     (if ses_disposed s then Inl Session_Is_Disposed
      else let events = stampFrom now (ses_nextSeq s) inputs in
        Inr (s\<lparr>ses_nextSeq := ses_nextSeq s + length events,
               ses_nextTurn := turnAfterAll (ses_nextTurn s) events,
               ses_events := ses_events s @ events,
               ses_pending := (if ses_persists s \<and> events \<noteq> [] then ses_pending s @ [events]
                               else ses_pending s)\<rparr>, events))"

definition newSession ::
  "string \<Rightarrow> string \<Rightarrow> session_seed \<Rightarrow> bool \<Rightarrow> session_error + session" where
  "newSession now sessionId seed persists =
     (let cursor = seed_cursor seed; journal = seed_events seed;
          s = \<lparr>ses_id = sessionId, ses_events = journal, ses_epoch = cur_epoch cursor,
               ses_nextSeq = cur_nextSeq cursor, ses_nextTurn = cur_nextTurn cursor,
               ses_disposed = False, ses_persists = persists, ses_pending = [], ses_failure = None,
               ses_attachments = []\<rparr>
      in if cur_session cursor \<noteq> sessionId then Inl (Seeded_For_Another (cur_session cursor))
         else case journal of
             first # _ \<Rightarrow>
               if seq first \<noteq> seed_startSeq seed then Inl Journal_Start_Mismatch
               else if \<not> contiguousFrom (seq first) journal then Inl Journal_Not_Contiguous
               else if cur_nextSeq cursor \<noteq> seq (last journal) + 1 then Inl Cursor_Mismatch
               else Inr s
           | [] \<Rightarrow>
               if cur_nextSeq cursor = 0 \<and> cur_nextTurn cursor = 1
               then rbind (appendBatch now [Session_Created now] s) (\<lambda>(s', _). Inr s')
               else Inr s)"

text \<open>The constructor given a bare journal: its seed first.\<close>

definition sessionOf :: "string \<Rightarrow> string \<Rightarrow> session_event list \<Rightarrow> session_error + session" where
  "sessionOf now sessionId events =
     rbind (sessionSeedFromJournalV1 sessionId events 1) (\<lambda>seed. newSession now sessionId seed False)"

definition sessionCursor :: "session \<Rightarrow> session_cursor" where
  "sessionCursor s =
     \<lparr>cur_session = ses_id s, cur_epoch = ses_epoch s, cur_nextSeq = ses_nextSeq s,
      cur_nextTurn = ses_nextTurn s\<rparr>"

text \<open>Every queued write is attempted in order, also after one failed; the first failure is kept.\<close>

fun persistAll ::
  "(session_event list \<Rightarrow> string + unit) \<Rightarrow> session_event list list \<Rightarrow> string option \<Rightarrow> string option" where
  "persistAll persist [] failure = failure"
| "persistAll persist (batch # batches) failure =
     persistAll persist batches
       (case persist batch of
          Inr _ \<Rightarrow> failure
        | Inl e \<Rightarrow> (case failure of None \<Rightarrow> Some e | Some f \<Rightarrow> Some f))"

definition flushSession ::
  "(session_event list \<Rightarrow> string + unit) \<Rightarrow> session \<Rightarrow> session \<times> (string + unit)" where
  "flushSession persist s =
     (let failure = persistAll persist (ses_pending s) (ses_failure s);
          s' = s\<lparr>ses_pending := [], ses_failure := failure\<rparr>
      in (s', case failure of None \<Rightarrow> Inr () | Some e \<Rightarrow> Inl e))"

definition disposeSession :: "string \<Rightarrow> session \<Rightarrow> session_error + session" where
  "disposeSession now s =
     (if ses_disposed s then Inr s
      else rbind (appendBatch now [Session_Disposed now] s)
             (\<lambda>(s', _). Inr (s'\<lparr>ses_disposed := True\<rparr>)))"

fun turnTypeOf :: "session_event list \<Rightarrow> nat \<Rightarrow> turn_type option" where
  "turnTypeOf [] turn = None"
| "turnTypeOf (event # events) turn =
     (case body event of
        Turn_Admission t turnType \<Rightarrow> if t = turn then Some turnType else turnTypeOf events turn
      | _ \<Rightarrow> turnTypeOf events turn)"

section \<open>The attachment cache\<close>

definition SESSION_ATTACHMENT_CACHE_LIMIT :: nat where "SESSION_ATTACHMENT_CACHE_LIMIT = 4"
definition SESSION_ATTACHMENT_MAX_BASE64 :: nat where "SESSION_ATTACHMENT_MAX_BASE64 = 8000000"

definition isContentHash :: "string \<Rightarrow> bool" where
  "isContentHash h \<longleftrightarrow> length h = 64 \<and> list_all (\<lambda>c. c \<in> set ''0123456789abcdef'') h"

definition offerAttachmentBytes :: "string \<Rightarrow> jstr \<Rightarrow> session \<Rightarrow> session" where
  "offerAttachmentBytes contentHash dataBase64 s =
     (if \<not> isContentHash contentHash then s
      else if length dataBase64 > SESSION_ATTACHMENT_MAX_BASE64 then s
      else let cache = AList.delete contentHash (ses_attachments s) @ [(contentHash, dataBase64)]
           in s\<lparr>ses_attachments := drop (length cache - SESSION_ATTACHMENT_CACHE_LIMIT) cache\<rparr>)"

section \<open>Repairs of an interrupted run\<close>

fun lastBody :: "(event_body \<Rightarrow> bool) \<Rightarrow> session_event list \<Rightarrow> event_body option" where
  "lastBody P [] = None"
| "lastBody P (event # events) =
     (case lastBody P events of
        Some b \<Rightarrow> Some b
      | None \<Rightarrow> if P (body event) then Some (body event) else None)"

definition isStepStart :: "event_body \<Rightarrow> bool" where
  "isStepStart b = (case b of Step_Start t n \<Rightarrow> True | _ \<Rightarrow> False)"
definition isStepEnd :: "event_body \<Rightarrow> bool" where
  "isStepEnd b = (case b of Step_End t n r \<Rightarrow> True | _ \<Rightarrow> False)"

definition latestOpenStepPositionV1 :: "session_event list \<Rightarrow> (nat \<times> nat) option" where
  "latestOpenStepPositionV1 events =
     (case lastBody isStepStart events of
        Some (Step_Start turn step) \<Rightarrow>
          (case lastBody isStepEnd events of
             Some (Step_End turn' step' outcome) \<Rightarrow>
               if turn' = turn \<and> step' = step then None else Some (turn, step)
           | _ \<Rightarrow> Some (turn, step))
      | _ \<Rightarrow> None)"

record interruption_scan =
  sc_openTurn :: "nat option"
  sc_openStep :: "(nat \<times> nat) option"
  sc_hasAssistant :: bool
  sc_requests :: "string list"

definition scan_start :: interruption_scan where
  "scan_start = \<lparr>sc_openTurn = None, sc_openStep = None, sc_hasAssistant = False, sc_requests = []\<rparr>"

fun scanStep :: "event_body \<Rightarrow> interruption_scan \<Rightarrow> interruption_scan" where
  "scanStep (Turn_Start turn) sc = sc\<lparr>sc_openTurn := Some turn\<rparr>"
| "scanStep (Turn_End turn outcome reason) sc =
     (if sc_openTurn sc = Some turn then sc\<lparr>sc_openTurn := None\<rparr> else sc)"
| "scanStep (Step_Start turn step) sc =
     sc\<lparr>sc_openStep := Some (turn, step), sc_hasAssistant := False\<rparr>"
| "scanStep (Step_End turn step outcome) sc =
     (if sc_openStep sc = Some (turn, step) then sc\<lparr>sc_openStep := None\<rparr> else sc)"
| "scanStep (Model_Request turn step requestId request) sc =
     sc\<lparr>sc_requests := (if requestId \<in> set (sc_requests sc) then sc_requests sc
                         else sc_requests sc @ [requestId])\<rparr>"
| "scanStep (Model_Response_Failed turn step requestId failure) sc =
     sc\<lparr>sc_requests := removeAll requestId (sc_requests sc)\<rparr>"
| "scanStep (Assistant_Message turn step requestId text toolCalls providerState) sc =
     sc\<lparr>sc_requests := removeAll requestId (sc_requests sc),
        sc_hasAssistant := (sc_openStep sc = Some (turn, step) \<or> sc_hasAssistant sc)\<rparr>"
| "scanStep _ sc = sc"

definition scanEvents :: "session_event list \<Rightarrow> interruption_scan" where
  "scanEvents events = foldl (\<lambda>sc event. scanStep (body event) sc) scan_start events"

definition INTERRUPTED_RESULT :: jstr where
  "INTERRUPTED_RESULT = js ''Interrupted before a durable result was recorded.''"

definition interruptedResult :: "tool_intent \<Rightarrow> tool_outcome" where
  "interruptedResult intent =
     \<lparr>to_turn = ti_turn intent, to_step = ti_step intent, to_occurrence = ti_occurrence intent,
      to_name = ti_name intent, to_content = INTERRUPTED_RESULT, to_error = True,
      to_status = Result_Interrupted, to_attachments = []\<rparr>"

text \<open>The result an entry without one is given, when its call had started.\<close>

definition entryRepair :: "string \<times> journal_entry \<Rightarrow> tool_outcome option" where
  "entryRepair e =
     (case je_intent (snd e) of
        None \<Rightarrow> None
      | Some intent \<Rightarrow> if je_result (snd e) = None then Some (interruptedResult intent) else None)"

definition interruptionRepairs ::
  "bool \<Rightarrow> session_event list \<Rightarrow> session_error + event_body list" where
  "interruptionRepairs closeTurn events =
     (case validateToolOccurrenceJournal events of
        Inl e \<Rightarrow> Inl (Journal_Invalid e)
      | Inr journal \<Rightarrow>
          let sc = scanEvents events;
              results = (if closeTurn then map Tool_Result (List.map_filter entryRepair journal) else []);
              stepEnd = (case sc_openStep sc of
                  None \<Rightarrow> []
                | Some (turn, step) \<Rightarrow>
                    if (if closeTurn then True else sc_requests sc = [] \<and> \<not> sc_hasAssistant sc)
                    then [Step_End turn step Interrupted] else []);
              turnEnd = (case sc_openTurn sc of
                  None \<Rightarrow> []
                | Some turn \<Rightarrow> if closeTurn then [Turn_End turn Interrupted None] else [])
          in Inr (results @ stepEnd @ turnEnd))"

definition reconcileInterrupted ::
  "string \<Rightarrow> session \<Rightarrow> session_error + (session \<times> session_event list)" where
  "reconcileInterrupted now s =
     rbind (interruptionRepairs True (ses_events s)) (\<lambda>repairs.
       if repairs \<noteq> [] then appendBatch now repairs s else Inr (s, []))"

definition reconcileForResume ::
  "string \<Rightarrow> session \<Rightarrow> session_error + (session \<times> session_event list)" where
  "reconcileForResume now s =
     rbind (interruptionRepairs False (ses_events s)) (\<lambda>repairs.
       if repairs \<noteq> [] then appendBatch now repairs s else Inr (s, []))"

section \<open>Sequence numbers and Turns\<close>

lemma length_stampFrom [simp]: "length (stampFrom now n inputs) = length inputs"
  by (induction inputs arbitrary: n) auto

lemma stampFrom_eq_Nil [simp]: "stampFrom now n inputs = [] \<longleftrightarrow> inputs = []"
  by (cases inputs) auto

lemma map_body_stampFrom [simp]: "map body (stampFrom now n inputs) = inputs"
  by (induction inputs arbitrary: n) auto

lemma contiguousFrom_stampFrom [simp]: "contiguousFrom n (stampFrom now n inputs)"
  by (induction inputs arbitrary: n) auto

lemma contiguousFrom_append:
  "contiguousFrom n (xs @ ys) \<longleftrightarrow> contiguousFrom n xs \<and> contiguousFrom (n + length xs) ys"
  by (induction xs arbitrary: n) auto

lemma contiguousFrom_last: "contiguousFrom n xs \<Longrightarrow> xs \<noteq> [] \<Longrightarrow> seq (last xs) + 1 = n + length xs"
proof (induction xs arbitrary: n)
  case (Cons x xs)
  then show ?case by (cases "xs = []") force+
qed simp

lemma contiguousFrom_nth: "contiguousFrom n xs \<Longrightarrow> i < length xs \<Longrightarrow> seq (xs ! i) = n + i"
  by (induction xs arbitrary: n i) (auto simp: nth_Cons split: nat.splits)

lemma turnAfterAll_simps [simp]:
  "turnAfterAll n [] = n"
  "turnAfterAll n (event # events) = turnAfterAll (turnAfter n (body event)) events"
  "turnAfterAll n (xs @ ys) = turnAfterAll (turnAfterAll n xs) ys"
  by (simp_all add: turnAfterAll_def)

lemma turnAfter_mono: "n \<le> turnAfter n b"
  by (cases b) auto

lemma turnAfterAll_mono: "n \<le> turnAfterAll n events"
proof (induction events arbitrary: n)
  case (Cons event events)
  then show ?case using turnAfter_mono order.trans by (simp, blast)
qed simp

lemma turnAfterAll_started:
  "event \<in> set events \<Longrightarrow> body event = Turn_Start turn \<Longrightarrow> turn < turnAfterAll n events"
proof (induction events arbitrary: n)
  case (Cons x events)
  show ?case
  proof (cases "event = x")
    case True
    then have "turn < turnAfter n (body x)" using Cons.prems by simp
    also have "\<dots> \<le> turnAfterAll (turnAfter n (body x)) events" by (rule turnAfterAll_mono)
    finally show ?thesis by simp
  next
    case False
    with Cons show ?thesis by simp
  qed
qed simp

text \<open>The cursor follows the journal: contiguous, next sequence after the last, next Turn after every
  Turn started.\<close>

definition session_ok :: "session \<Rightarrow> bool" where
  "session_ok s \<longleftrightarrow>
     (case ses_events s of
        [] \<Rightarrow> True
      | first # _ \<Rightarrow> contiguousFrom (seq first) (ses_events s) \<and>
                     ses_nextSeq s = seq first + length (ses_events s)) \<and>
     (\<forall>event \<in> set (ses_events s). \<forall>turn. body event = Turn_Start turn \<longrightarrow> turn < ses_nextTurn s)"

lemma appendBatch_Inr:
  "appendBatch now inputs s = Inr (s', events) \<Longrightarrow>
   events = stampFrom now (ses_nextSeq s) inputs \<and> ses_events s' = ses_events s @ events \<and>
   ses_nextSeq s' = ses_nextSeq s + length inputs \<and>
   ses_nextTurn s' = turnAfterAll (ses_nextTurn s) events \<and> ses_disposed s' = ses_disposed s"
  by (auto simp: appendBatch_def Let_def split: if_splits)

lemma session_ok_append:
  assumes "session_ok s" and "appendBatch now inputs s = Inr (s', events)"
  shows "session_ok s'"
proof -
  note a = appendBatch_Inr [OF assms(2)]
  have "turn < ses_nextTurn s'" if "event \<in> set (ses_events s')" "body event = Turn_Start turn" for event turn
  proof (cases "event \<in> set events")
    case True
    with that(2) a show ?thesis by (simp add: turnAfterAll_started)
  next
    case False
    with that a assms(1) have "turn < ses_nextTurn s" by (auto simp: session_ok_def)
    with a turnAfterAll_mono [of "ses_nextTurn s" events] show ?thesis by simp
  qed
  moreover have "case ses_events s' of
        [] \<Rightarrow> True
      | first # _ \<Rightarrow> contiguousFrom (seq first) (ses_events s') \<and>
                     ses_nextSeq s' = seq first + length (ses_events s')"
  proof (cases "ses_events s")
    case Nil
    with a show ?thesis by (cases inputs) auto
  next
    case (Cons first rest)
    with a assms(1) have "contiguousFrom (seq first) (ses_events s @ events)"
      by (subst contiguousFrom_append) (simp add: session_ok_def)
    with Cons a assms(1) show ?thesis by (simp add: session_ok_def)
  qed
  ultimately show ?thesis by (auto simp: session_ok_def)
qed

lemma sessionOf_Inr_events:
  assumes "sessionOf now sessionId events = Inr s" and "events \<noteq> []"
  shows "ses_events s = events \<and> session_ok s \<and> \<not> ses_disposed s \<and>
    ses_nextSeq s = seq (hd events) + length events"
proof -
  obtain first rest where ev: "events = first # rest" using assms(2) by (cases events) auto
  have c: "contiguousFrom (seq first) events"
    using assms(1) ev by (auto simp: sessionOf_def sessionSeedFromJournalV1_def split: if_splits)
  then have l: "Suc (seq (last events)) = seq first + length events"
    using contiguousFrom_last [OF c assms(2)] by simp
  have s: "ses_events s = events \<and> ses_nextSeq s = Suc (seq (last events)) \<and>
      ses_nextTurn s = turnAfterAll 1 events \<and> \<not> ses_disposed s"
    using assms(1) c ev
    by (auto simp: sessionOf_def sessionSeedFromJournalV1_def newSession_def Let_def split: if_splits)
  with l c ev show ?thesis by (auto simp: session_ok_def turnAfterAll_started simp del: turnAfterAll_simps)
qed

lemma sessionOf_contiguous:
  assumes "contiguousFrom n events" and "events \<noteq> []"
  shows "\<exists>s. sessionOf now sessionId events = Inr s"
proof -
  obtain first rest where "events = first # rest" using assms(2) by (cases events) auto
  with assms show ?thesis
    by (simp add: sessionOf_def sessionSeedFromJournalV1_def newSession_def Let_def)
qed

section \<open>The scan agrees with the journal\<close>

definition scan_agrees :: "interruption_scan \<Rightarrow> journal_state \<Rightarrow> bool" where
  "scan_agrees sc st \<longleftrightarrow>
     sc_openTurn sc = js_openTurn st \<and>
     sc_openStep sc = map_option (\<lambda>s. (os_turn s, os_step s)) (js_openStep st) \<and>
     (\<forall>s. js_openStep st = Some s \<longrightarrow> \<not> sc_hasAssistant sc \<longrightarrow> os_occurrences s = [])"

lemma scan_agrees_step:
  assumes "scan_agrees sc st" and "journalStep cap b st = Inr st'"
  shows "scan_agrees (scanStep b sc) st'"
  using assms
  by (cases b)
     (auto simp: scan_agrees_def rbind_Inr_iff matchedEntry_Inr_iff split: option.splits if_splits)

lemma scan_agrees_run:
  "scan_agrees sc st \<Longrightarrow> journalRun cap events st = Inr st' \<Longrightarrow>
   scan_agrees (foldl (\<lambda>sc event. scanStep (body event) sc) sc events) st'"
proof (induction events arbitrary: sc st)
  case (Cons event events)
  then show ?case by (auto simp: rbind_Inr_iff intro: scan_agrees_step)
qed simp

lemma scanEvents_agrees:
  "journalRun cap events journal_start = Inr st \<Longrightarrow> scan_agrees (scanEvents events) st"
  unfolding scanEvents_def
  by (rule scan_agrees_run) (simp_all add: scan_agrees_def scan_start_def journal_start_def)

section \<open>Repairs are accepted\<close>

text \<open>Running bare bodies, which is what a repair is.\<close>

fun journalBodies :: "nat \<Rightarrow> event_body list \<Rightarrow> journal_state \<Rightarrow> journal_error + journal_state" where
  "journalBodies cap [] st = Inr st"
| "journalBodies cap (b # bs) st = rbind (journalStep cap b st) (journalBodies cap bs)"

lemma journalRun_bodies: "journalRun cap events st = journalBodies cap (map body events) st"
proof (induction events arbitrary: st)
  case (Cons event events)
  then show ?case by (cases "journalStep cap (body event) st") simp_all
qed simp

lemma journalBodies_append:
  "journalBodies cap (xs @ ys) st = rbind (journalBodies cap xs st) (journalBodies cap ys)"
proof (induction xs arbitrary: st)
  case (Cons x xs)
  then show ?case by (cases "journalStep cap x st") simp_all
qed simp

text \<open>An entry with the result a repair gives it.\<close>

definition repairedEntry :: "string \<times> journal_entry \<Rightarrow> journal_entry" where
  "repairedEntry e = (case entryRepair e of
       None \<Rightarrow> snd e | Some result \<Rightarrow> (snd e)\<lparr>je_result := Some result\<rparr>)"

lemma repair_step:
  assumes inv: "journal_inv st" and get: "map_of (js_journal st) key = Some entry"
    and r: "entryRepair (key, entry) = Some result"
  shows "journalStep cap (Tool_Result result) st =
    Inr (st\<lparr>js_journal := AList.update key (repairedEntry (key, entry)) (js_journal st)\<rparr>)"
proof -
  obtain intent where i: "je_intent entry = Some intent" and none: "je_result entry = None"
    and res: "result = interruptedResult intent"
    using r by (auto simp: entryRepair_def split: option.splits if_splits)
  have ok: "entry_ok key entry" using inv get by (rule journal_inv_get)
  have "entryUnsettled entry" using none by (simp add: entryUnsettled_def)
  with inv get obtain s where s: "js_openStep st = Some s"
    and pos: "occ_turn (je_occurrence entry) = os_turn s" "occ_step (je_occurrence entry) = os_step s"
    by (rule journal_inv_unsettled)
  have m: "matchedEntry st (to_turn result) (to_step result) (to_occurrence result) (to_name result) = Inr entry"
    using ok i res s pos get
    by (auto simp: matchedEntry_Inr_iff entry_ok_def interruptedResult_def stepIs_def toolIntentMatches_def
        split: if_splits)
  have "to_occurrence result = key" using ok i res by (simp add: entry_ok_def interruptedResult_def)
  with m i none r show ?thesis by (simp add: repairedEntry_def)
qed

lemma repairs_accepted:
  assumes "journal_inv st" and "distinct (map fst es)"
    and "\<forall>(key, entry) \<in> set es. map_of (js_journal st) key = Some entry"
  shows "\<exists>st'. journalBodies cap (map Tool_Result (List.map_filter entryRepair es)) st = Inr st'
    \<and> journal_inv st' \<and> js_openTurn st' = js_openTurn st \<and> js_openStep st' = js_openStep st
    \<and> (\<forall>key. map_of (js_journal st') key =
        (case map_of es key of Some entry \<Rightarrow> Some (repairedEntry (key, entry))
         | None \<Rightarrow> map_of (js_journal st) key))"
  using assms
proof (induction es arbitrary: st)
  case Nil
  then show ?case by (simp add: List.map_filter_simps)
next
  case (Cons e es)
  obtain key entry where e: "e = (key, entry)" by (cases e)
  have get: "map_of (js_journal st) key = Some entry" using Cons.prems e by simp
  show ?case
  proof (cases "entryRepair e")
    case None
    obtain st' where st': "journalBodies cap (map Tool_Result (List.map_filter entryRepair es)) st = Inr st'"
      "journal_inv st'" "js_openTurn st' = js_openTurn st" "js_openStep st' = js_openStep st"
      "\<forall>key. map_of (js_journal st') key =
          (case map_of es key of Some entry \<Rightarrow> Some (repairedEntry (key, entry))
           | None \<Rightarrow> map_of (js_journal st) key)"
      using Cons.IH [OF Cons.prems(1)] Cons.prems(2,3) by auto
    have fresh: "map_of es key = None" using Cons.prems e by (simp add: map_of_eq_None_iff)
    have same: "repairedEntry e = entry" using None e by (simp add: repairedEntry_def)
    show ?thesis
    proof (intro exI conjI allI)
      show "journalBodies cap (map Tool_Result (List.map_filter entryRepair (e # es))) st = Inr st'"
        using None st'(1) by (simp add: List.map_filter_simps)
      show "journal_inv st'" "js_openTurn st' = js_openTurn st" "js_openStep st' = js_openStep st"
        using st' by simp_all
      show "map_of (js_journal st') k =
        (case map_of (e # es) k of Some entry \<Rightarrow> Some (repairedEntry (k, entry))
         | None \<Rightarrow> map_of (js_journal st) k)" for k
        using st'(5) fresh e same get by (cases "k = key") (auto split: option.splits)
    qed
  next
    case (Some result)
    let ?st = "st\<lparr>js_journal := AList.update key (repairedEntry e) (js_journal st)\<rparr>"
    have step: "journalStep cap (Tool_Result result) st = Inr ?st"
      using repair_step [OF Cons.prems(1) get] Some e by simp
    have inv: "journal_inv ?st" using journal_inv_step [OF step Cons.prems(1)] .
    have fresh: "map_of es key = None" using Cons.prems e by (simp add: map_of_eq_None_iff)
    have es: "\<forall>(key, entry) \<in> set es. map_of (js_journal ?st) key = Some entry"
    proof (clarify)
      fix k x assume x: "(k, x) \<in> set es"
      then have "k \<noteq> key" using fresh by (force simp: map_of_eq_None_iff)
      moreover have "map_of (js_journal st) k = Some x" using Cons.prems(3) x by auto
      ultimately show "map_of (js_journal ?st) k = Some x" by (simp add: update_conv')
    qed
    obtain st' where st': "journalBodies cap (map Tool_Result (List.map_filter entryRepair es)) ?st = Inr st'"
      "journal_inv st'" "js_openTurn st' = js_openTurn st" "js_openStep st' = js_openStep st"
      "\<forall>key. map_of (js_journal st') key =
        (case map_of es key of Some entry \<Rightarrow> Some (repairedEntry (key, entry))
         | None \<Rightarrow> map_of (js_journal ?st) key)"
      using Cons.IH [OF inv _ es] Cons.prems(2) by auto
    show ?thesis
    proof (intro exI conjI allI)
      show "journalBodies cap (map Tool_Result (List.map_filter entryRepair (e # es))) st = Inr st'"
        using Some step st'(1) by (simp add: List.map_filter_simps)
      show "journal_inv st'" "js_openTurn st' = js_openTurn st" "js_openStep st' = js_openStep st"
        using st' by simp_all
      show "map_of (js_journal st') k =
        (case map_of (e # es) k of Some entry \<Rightarrow> Some (repairedEntry (k, entry))
         | None \<Rightarrow> map_of (js_journal st) k)" for k
        using st'(5) fresh e by (cases "k = key") (auto simp: update_conv' split: option.splits)
    qed
  qed
qed

text \<open>A call of the open step that never started: what a repair cannot settle.\<close>

definition allStarted :: "(string \<times> journal_entry) list \<Rightarrow> bool" where
  "allStarted journal \<longleftrightarrow> list_all (\<lambda>(_, entry). je_intent entry \<noteq> None) journal"

lemma allStarted_iff:
  "distinct (map fst journal) \<Longrightarrow>
   allStarted journal \<longleftrightarrow> (\<forall>key entry. map_of journal key = Some entry \<longrightarrow> je_intent entry \<noteq> None)"
  by (auto simp: allStarted_def list_all_iff)

lemma repairedEntry_unsettled:
  "entryUnsettled (repairedEntry (key, entry)) \<longleftrightarrow> je_intent entry = None"
  by (auto simp: repairedEntry_def entryRepair_def entryUnsettled_def split: option.splits)

lemma no_open_step_settled:
  "journal_inv st \<Longrightarrow> js_openStep st = None \<Longrightarrow> map_of (js_journal st) key = Some entry \<Longrightarrow>
   \<not> entryUnsettled entry"
  by (metis journal_inv_unsettled option.distinct(1))

text \<open>The events a closing repair adds, and what running them does.\<close>

lemma interruptionRepairs_True:
  assumes "journalRun BATCH_MAX_CALLS_V1 events journal_start = Inr st"
  shows "interruptionRepairs True events =
    Inr (map Tool_Result (List.map_filter entryRepair (js_journal st)) @
      (case js_openStep st of None \<Rightarrow> []
       | Some s \<Rightarrow> [Step_End (os_turn s) (os_step s) Interrupted]) @
      (case js_openTurn st of None \<Rightarrow> [] | Some turn \<Rightarrow> [Turn_End turn Interrupted None]))"
  using scanEvents_agrees [OF assms] assms
  by (simp add: interruptionRepairs_def validateToolOccurrenceJournal_def
      validateToolOccurrenceJournalUpTo_def scan_agrees_def Let_def split: option.splits)

lemma closing_repair_run:
  assumes inv: "journal_inv st"
  shows "(\<exists>st'. journalBodies cap
      (map Tool_Result (List.map_filter entryRepair (js_journal st)) @
      (case js_openStep st of None \<Rightarrow> []
       | Some s \<Rightarrow> [Step_End (os_turn s) (os_step s) Interrupted]) @
      (case js_openTurn st of None \<Rightarrow> [] | Some turn \<Rightarrow> [Turn_End turn Interrupted None])) st = Inr st'
      \<and> js_openTurn st' = None \<and> js_openStep st' = None \<and> journal_inv st')
    \<longleftrightarrow> allStarted (js_journal st)" (is "?run \<longleftrightarrow> _")
proof -
  have keys: "distinct (map fst (js_journal st))" using inv by (rule journal_inv_keys)
  have self: "\<forall>(key, entry) \<in> set (js_journal st). map_of (js_journal st) key = Some entry"
    using keys by auto
  from repairs_accepted [OF inv keys self] obtain st1 where
    r: "journalBodies cap (map Tool_Result (List.map_filter entryRepair (js_journal st))) st = Inr st1"
    and inv1: "journal_inv st1" and turn: "js_openTurn st1 = js_openTurn st"
    and step: "js_openStep st1 = js_openStep st"
    and get: "\<forall>key. map_of (js_journal st1) key =
        (case map_of (js_journal st) key of Some entry \<Rightarrow> Some (repairedEntry (key, entry))
         | None \<Rightarrow> map_of (js_journal st) key)"
    by blast
  have get': "map_of (js_journal st1) key = Some x \<longleftrightarrow>
      (\<exists>entry. map_of (js_journal st) key = Some entry \<and> x = repairedEntry (key, entry))" for key x
    using get by (auto split: option.splits)
  show ?thesis
  proof (cases "js_openStep st")
    case None
    have "allStarted (js_journal st)"
      unfolding allStarted_iff [OF keys]
      using no_open_step_settled [OF inv None] by (auto simp: entryUnsettled_def)
    moreover have ?run
    proof (cases "js_openTurn st")
      case None
      with \<open>js_openStep st = None\<close> show ?thesis using r turn step inv1 by auto
    next
      case (Some t)
      have go: "journalBodies cap [Turn_End t Interrupted None] st1 = Inr (st1\<lparr>js_openTurn := None\<rparr>)"
        using Some None turn step by simp
      then have "journal_inv (st1\<lparr>js_openTurn := None\<rparr>)"
        using journal_inv_step [of cap "Turn_End t Interrupted None" st1] inv1 Some None turn step by auto
      with go r Some None step show ?thesis by (simp add: journalBodies_append)
    qed
    ultimately show ?thesis by simp
  next
    case (Some s)
    have opened: "js_openTurn st = Some (os_turn s)" using inv Some by (auto simp: journal_inv_def)
    have started: "allStarted (js_journal st) \<longleftrightarrow>
        firstUnsettled (js_journal st1) (os_occurrences s) = None"
    proof
      assume all: "allStarted (js_journal st)"
      show "firstUnsettled (js_journal st1) (os_occurrences s) = None"
        unfolding firstUnsettled_None_iff get'
        using all repairedEntry_unsettled unfolding allStarted_iff [OF keys] by blast
    next
      assume none: "firstUnsettled (js_journal st1) (os_occurrences s) = None"
      show "allStarted (js_journal st)" unfolding allStarted_iff [OF keys]
      proof (intro allI impI notI)
        fix key entry assume e: "map_of (js_journal st) key = Some entry" "je_intent entry = None"
        then have "entryUnsettled entry" by (simp add: entryUnsettled_def)
        with inv e(1) obtain s' where "js_openStep st = Some s'" "key \<in> set (os_occurrences s')"
          by (rule journal_inv_unsettled)
        with Some have k: "key \<in> set (os_occurrences s)" by simp
        have "map_of (js_journal st1) key = Some (repairedEntry (key, entry))"
          using e(1) get' by blast
        with none k e(2) show False unfolding firstUnsettled_None_iff
          using repairedEntry_unsettled by blast
      qed
    qed
    show ?thesis
    proof (cases "firstUnsettled (js_journal st1) (os_occurrences s)")
      case None
      let ?st2 = "st1\<lparr>js_openStep := None\<rparr>"
      have s2: "journalStep cap (Step_End (os_turn s) (os_step s) Interrupted) st1 = Inr ?st2"
        using None Some step by simp
      then have inv2: "journal_inv ?st2" using inv1 by (rule journal_inv_step)
      have s3: "journalStep cap (Turn_End (os_turn s) Interrupted None) ?st2 =
          Inr (?st2\<lparr>js_openTurn := None\<rparr>)"
        using opened turn by simp
      then have inv3: "journal_inv (?st2\<lparr>js_openTurn := None\<rparr>)" using inv2 by (rule journal_inv_step)
      have ?run using r Some opened s2 s3 inv3 by (simp add: journalBodies_append)
      with None started show ?thesis by simp
    next
      case (Some entry)
      have "\<not> ?run" using r \<open>js_openStep st = Some s\<close> Some step by (simp add: journalBodies_append)
      with Some started show ?thesis by simp
    qed
  qed
qed

lemma journal_inv_bodies:
  "journalBodies cap bs st = Inr st' \<Longrightarrow> journal_inv st \<Longrightarrow> journal_inv st'"
proof (induction bs arbitrary: st)
  case (Cons b bs)
  then show ?case by (auto simp: rbind_Inr_iff dest: journal_inv_step)
qed simp

lemma closing_repair_closes:
  assumes inv: "journal_inv st" and run: "journalBodies cap
      (map Tool_Result (List.map_filter entryRepair (js_journal st)) @
      (case js_openStep st of None \<Rightarrow> []
       | Some s \<Rightarrow> [Step_End (os_turn s) (os_step s) Interrupted]) @
      (case js_openTurn st of None \<Rightarrow> [] | Some turn \<Rightarrow> [Turn_End turn Interrupted None])) st = Inr st'"
  shows "js_openTurn st' = None \<and> js_openStep st' = None"
proof -
  have keys: "distinct (map fst (js_journal st))" using inv by (rule journal_inv_keys)
  have self: "\<forall>(key, entry) \<in> set (js_journal st). map_of (js_journal st) key = Some entry"
    using keys by auto
  from repairs_accepted [OF inv keys self] obtain st1 where
    r: "journalBodies cap (map Tool_Result (List.map_filter entryRepair (js_journal st))) st = Inr st1"
    and turn: "js_openTurn st1 = js_openTurn st" and step: "js_openStep st1 = js_openStep st"
    by blast
  show ?thesis
    using run r turn step
    by (auto simp: journalBodies_append rbind_Inr_iff split: option.splits if_splits)
qed

lemma closing_repair_refused:
  assumes inv: "journal_inv st" and no: "\<not> allStarted (js_journal st)"
  shows "\<exists>e. journalBodies cap
      (map Tool_Result (List.map_filter entryRepair (js_journal st)) @
      (case js_openStep st of None \<Rightarrow> []
       | Some s \<Rightarrow> [Step_End (os_turn s) (os_step s) Interrupted]) @
      (case js_openTurn st of None \<Rightarrow> [] | Some turn \<Rightarrow> [Turn_End turn Interrupted None])) st = Inl e"
proof (rule ccontr)
  assume neg: "\<not> ?thesis"
  let ?bs = "map Tool_Result (List.map_filter entryRepair (js_journal st)) @
      (case js_openStep st of None \<Rightarrow> []
       | Some s \<Rightarrow> [Step_End (os_turn s) (os_step s) Interrupted]) @
      (case js_openTurn st of None \<Rightarrow> [] | Some turn \<Rightarrow> [Turn_End turn Interrupted None])"
  obtain st' where run: "journalBodies cap ?bs st = Inr st'"
    using neg by (cases "journalBodies cap ?bs st") auto
  have "js_openTurn st' = None \<and> js_openStep st' = None"
    using run closing_repair_closes [OF inv] by blast
  moreover have "journal_inv st'" using run inv by (rule journal_inv_bodies)
  ultimately show False using run no closing_repair_run [OF inv, of cap] by blast
qed

text \<open>A closing repair of an accepted journal is accepted, and leaves every call settled, exactly when
  every declared call had started.\<close>

lemma reconcileInterrupted_run:
  assumes "\<not> ses_disposed s"
    and "journalRun BATCH_MAX_CALLS_V1 (ses_events s) journal_start = Inr st"
  shows "\<exists>s' added. reconcileInterrupted now s = Inr (s', added) \<and>
    ses_events s' = ses_events s @ added \<and>
    map body added = map Tool_Result (List.map_filter entryRepair (js_journal st)) @
      (case js_openStep st of None \<Rightarrow> []
       | Some s \<Rightarrow> [Step_End (os_turn s) (os_step s) Interrupted]) @
      (case js_openTurn st of None \<Rightarrow> [] | Some turn \<Rightarrow> [Turn_End turn Interrupted None])"
  using assms by (auto simp: reconcileInterrupted_def interruptionRepairs_True appendBatch_def Let_def)

lemma validate_iff_run:
  "validateToolOccurrenceJournal events = Inr journal \<longleftrightarrow>
   (\<exists>st. journalRun BATCH_MAX_CALLS_V1 events journal_start = Inr st \<and> js_journal st = journal)"
  by (auto simp: validateToolOccurrenceJournal_def validateToolOccurrenceJournalUpTo_def rbind_Inr_iff)

lemma validateSettled_iff:
  "(\<exists>journal. validateSettledToolOccurrenceJournal events = Inr journal) \<longleftrightarrow>
   (\<exists>st. journalRun BATCH_MAX_CALLS_V1 events journal_start = Inr st \<and>
      (\<forall>e \<in> set (js_journal st). \<not> entryUnsettled (snd e)))"
proof (cases "journalRun BATCH_MAX_CALLS_V1 events journal_start")
  case (Inl e)
  then show ?thesis
    by (simp add: validateSettledToolOccurrenceJournal_def validateToolOccurrenceJournal_def
        validateToolOccurrenceJournalUpTo_def)
next
  case (Inr st)
  then show ?thesis
    by (auto simp: validateSettledToolOccurrenceJournal_def validateToolOccurrenceJournal_def
        validateToolOccurrenceJournalUpTo_def find_None_iff find_Some_iff case_prod_beta
        split: option.splits)
qed

lemma settled_when_closed:
  "journal_inv st \<Longrightarrow> js_openStep st = None \<Longrightarrow> e \<in> set (js_journal st) \<Longrightarrow> \<not> entryUnsettled (snd e)"
  using no_open_step_settled [of st "fst e" "snd e"] journal_inv_keys [of st] by simp

text \<open>A repair for resumption never settles a call, and is always accepted.\<close>

lemma resume_repair_run:
  assumes run: "journalRun BATCH_MAX_CALLS_V1 events journal_start = Inr st"
  shows "\<exists>repairs st'. interruptionRepairs False events = Inr repairs \<and>
    journalBodies cap repairs st = Inr st' \<and> js_journal st' = js_journal st \<and>
    js_openTurn st' = js_openTurn st \<and>
    (repairs = [] \<or> (\<exists>s. js_openStep st = Some s \<and> os_occurrences s = [] \<and>
       repairs = [Step_End (os_turn s) (os_step s) Interrupted]))"
proof -
  note agrees = scanEvents_agrees [OF run]
  show ?thesis
  proof (cases "js_openStep st")
    case None
    then have "interruptionRepairs False events = Inr []"
      using agrees run by (simp add: interruptionRepairs_def validateToolOccurrenceJournal_def
          validateToolOccurrenceJournalUpTo_def scan_agrees_def Let_def split: option.splits)
    then show ?thesis by simp
  next
    case (Some s)
    show ?thesis
    proof (cases "sc_requests (scanEvents events) = [] \<and> \<not> sc_hasAssistant (scanEvents events)")
      case True
      have empty: "os_occurrences s = []" using agrees Some True by (simp add: scan_agrees_def)
      have "interruptionRepairs False events = Inr [Step_End (os_turn s) (os_step s) Interrupted]"
        using agrees run Some True by (simp add: interruptionRepairs_def
            validateToolOccurrenceJournal_def validateToolOccurrenceJournalUpTo_def scan_agrees_def
            Let_def split: option.splits)
      then show ?thesis using Some empty by simp
    next
      case False
      then have "interruptionRepairs False events = Inr []"
        using agrees run Some by (auto simp: interruptionRepairs_def validateToolOccurrenceJournal_def
            validateToolOccurrenceJournalUpTo_def scan_agrees_def Let_def split: option.splits)
      then show ?thesis by simp
    qed
  qed
qed

section \<open>The attachment cache is bounded\<close>

lemma offerAttachmentBytes_bound:
  "length (ses_attachments s) \<le> SESSION_ATTACHMENT_CACHE_LIMIT \<Longrightarrow>
   length (ses_attachments (offerAttachmentBytes h d s)) \<le> SESSION_ATTACHMENT_CACHE_LIMIT"
  by (auto simp: offerAttachmentBytes_def Let_def SESSION_ATTACHMENT_CACHE_LIMIT_def)

lemma persistAll_failure: "persistAll persist batches (Some f) = Some f"
proof (induction batches)
  case (Cons b bs)
  then show ?case by (cases "persist b") simp_all
qed simp

lemma persistAll_None_iff:
  "persistAll persist batches None = None \<longleftrightarrow> (\<forall>b \<in> set batches. persist b = Inr ())"
proof (induction batches)
  case (Cons b bs)
  then show ?case by (cases "persist b") (simp_all add: persistAll_failure)
qed simp

section \<open>Properties\<close>

text \<open>A log in which a step declared two calls and only the first started before it was interrupted.\<close>

definition eventAt :: "nat \<Rightarrow> event_body \<Rightarrow> session_event" where
  "eventAt n b = \<lparr>seq = n, timestamp = ''t'', body = b\<rparr>"

definition readCall :: "string \<Rightarrow> tool_call" where
  "readCall i = \<lparr>tc_id = js i, tc_name = js ''read'', tc_input = JObj []\<rparr>"

definition readIntent :: "string \<Rightarrow> tool_intent" where
  "readIntent occurrence = \<lparr>ti_turn = 1, ti_step = 1, ti_occurrence = occurrence,
     ti_name = js ''read'', ti_input = JObj []\<rparr>"

definition oneCallLog :: "session_event list" where
  "oneCallLog = [eventAt 0 (Turn_Start 1), eventAt 1 (Step_Start 1 1),
     eventAt 2 (Assistant_Message 1 1 ''r'' [] [readCall ''a''] None),
     eventAt 3 (Tool_Call (readIntent ''tool:1:1:0''))]"

definition parallelLog :: "session_event list" where
  "parallelLog = [eventAt 0 (Turn_Start 1), eventAt 1 (Step_Start 1 1),
     eventAt 2 (Assistant_Message 1 1 ''r'' [] [readCall ''a'', readCall ''b''] None),
     eventAt 3 (Tool_Call (readIntent ''tool:1:1:0''))]"

lemmas sample_defs = eventAt_def readCall_def readIntent_def oneCallLog_def parallelLog_def
  validateToolOccurrenceJournal_def validateToolOccurrenceJournalUpTo_def journal_start_def
  expandToolCallOccurrencesUpTo_def toolCallOccurrences_def toolOccurrenceId_def
  MAX_SAFE_INTEGER_def decimal_digit batchSubOccurrencesUpTo_def BATCH_TOOL_NAME_def
  matchedEntry_def stepIs_def toolIntentMatches_def

lemma oneCallLog_journal:
  "\<exists>journal. validateToolOccurrenceJournal oneCallLog = Inr journal \<and> allStarted journal"
  by (simp add: sample_defs allStarted_def)

lemma parallelLog_journal:
  "\<exists>journal. validateToolOccurrenceJournal parallelLog = Inr journal \<and> \<not> allStarted journal"
  by (simp add: sample_defs allStarted_def)

text \<open>C37: Closing an interrupted Turn: on a log the journal accepts, the repair never fails, only
  appends, and the log it leaves is a complete account (every declared call settled) exactly when
  every declared call had started. A call the model asked for in parallel that had not started yet
  is not settled by the repair, and the log it leaves is then refused.\<close>

theorem reconcile_completes_iff_all_started:
  assumes "\<not> ses_disposed s" and "validateToolOccurrenceJournal (ses_events s) = Inr journal"
  shows "\<exists>s' added. reconcileInterrupted now s = Inr (s', added) \<and>
    ses_events s' = ses_events s @ added \<and>
    ((\<exists>settled. validateSettledToolOccurrenceJournal (ses_events s') = Inr settled)
       \<longleftrightarrow> allStarted journal) \<and>
    (\<not> allStarted journal \<longrightarrow> (\<exists>e. validateToolOccurrenceJournal (ses_events s') = Inl e))"
proof -
  obtain st where st: "journalRun BATCH_MAX_CALLS_V1 (ses_events s) journal_start = Inr st"
    and j: "js_journal st = journal" using assms(2) by (auto simp: validate_iff_run)
  obtain s' added where r: "reconcileInterrupted now s = Inr (s', added)"
      "ses_events s' = ses_events s @ added"
    and b: "map body added = map Tool_Result (List.map_filter entryRepair (js_journal st)) @
      (case js_openStep st of None \<Rightarrow> []
       | Some s \<Rightarrow> [Step_End (os_turn s) (os_step s) Interrupted]) @
      (case js_openTurn st of None \<Rightarrow> [] | Some turn \<Rightarrow> [Turn_End turn Interrupted None])"
    using reconcileInterrupted_run [OF assms(1) st] by blast
  have run: "journalRun BATCH_MAX_CALLS_V1 (ses_events s') journal_start =
      journalBodies BATCH_MAX_CALLS_V1 (map body added) st"
    using r(2) st by (simp add: journalBodies_append journalRun_bodies)
  note closed = closing_repair_run [OF journal_inv_validated [OF st], of BATCH_MAX_CALLS_V1, folded b run]
  show ?thesis
  proof (cases "allStarted journal")
    case True
    then obtain st' where "journalRun BATCH_MAX_CALLS_V1 (ses_events s') journal_start = Inr st'"
      "js_openStep st' = None" "journal_inv st'" using closed j by blast
    with True r show ?thesis using settled_when_closed
      by (intro exI [of _ s'] exI [of _ added]) (simp add: validateSettled_iff)
  next
    case False
    have "\<exists>e. journalRun BATCH_MAX_CALLS_V1 (ses_events s') journal_start = Inl e"
      using closing_repair_refused [OF journal_inv_validated [OF st]] False j b run by simp
    with False r show ?thesis
      by (intro exI [of _ s'] exI [of _ added])
         (auto simp: validateSettled_iff validateToolOccurrenceJournal_def
            validateToolOccurrenceJournalUpTo_def)
  qed
qed

definition sampleSession :: "session_event list \<Rightarrow> session" where
  "sampleSession events =
     \<lparr>ses_id = ''s'', ses_events = events, ses_epoch = 1, ses_nextSeq = length events,
      ses_nextTurn = 2, ses_disposed = False, ses_persists = False, ses_pending = [],
      ses_failure = None, ses_attachments = []\<rparr>"

theorem reconcile_completes_iff_all_started_witness:
  "(\<exists>s' added. reconcileInterrupted ''t'' (sampleSession oneCallLog) = Inr (s', added) \<and>
      (\<exists>settled. validateSettledToolOccurrenceJournal (ses_events s') = Inr settled)) \<and>
   (\<exists>s' added. reconcileInterrupted ''t'' (sampleSession parallelLog) = Inr (s', added) \<and>
      (\<exists>e. validateToolOccurrenceJournal (ses_events s') = Inl e))"
proof -
  obtain j1 where j1: "validateToolOccurrenceJournal oneCallLog = Inr j1" "allStarted j1"
    using oneCallLog_journal by blast
  obtain j2 where j2: "validateToolOccurrenceJournal parallelLog = Inr j2" "\<not> allStarted j2"
    using parallelLog_journal by blast
  have "\<not> ses_disposed (sampleSession events)" "ses_events (sampleSession events) = events" for events
    by (simp_all add: sampleSession_def)
  then show ?thesis
    using reconcile_completes_iff_all_started [of "sampleSession oneCallLog" j1 "''t''"]
      reconcile_completes_iff_all_started [of "sampleSession parallelLog" j2 "''t''"] j1 j2
    by auto
qed

text \<open>Repairing a run that will be resumed keeps an accepted log accepted, leaves its Turn open and
  settles no call; the only event it may add closes an open step that declared no call.\<close>

theorem resume_repair_keeps_journal:
  assumes "\<not> ses_disposed s" and "validateToolOccurrenceJournal (ses_events s) = Inr journal"
  shows "\<exists>s' added. reconcileForResume now s = Inr (s', added) \<and>
    ses_events s' = ses_events s @ added \<and> length added \<le> 1 \<and>
    validateToolOccurrenceJournal (ses_events s') = Inr journal \<and>
    sc_openTurn (scanEvents (ses_events s')) = sc_openTurn (scanEvents (ses_events s))"
proof -
  obtain st where st: "journalRun BATCH_MAX_CALLS_V1 (ses_events s) journal_start = Inr st"
    and j: "js_journal st = journal" using assms(2) by (auto simp: validate_iff_run)
  obtain repairs st' where rep: "interruptionRepairs False (ses_events s) = Inr repairs"
    and go: "journalBodies BATCH_MAX_CALLS_V1 repairs st = Inr st'" "js_journal st' = js_journal st"
      "js_openTurn st' = js_openTurn st"
    and small: "length repairs \<le> 1"
    using resume_repair_run [OF st, of BATCH_MAX_CALLS_V1] by auto
  have "\<exists>s' added. reconcileForResume now s = Inr (s', added) \<and>
      ses_events s' = ses_events s @ added \<and> map body added = repairs"
    using assms(1) rep by (auto simp: reconcileForResume_def appendBatch_def Let_def)
  then obtain s' added where r: "reconcileForResume now s = Inr (s', added)"
    "ses_events s' = ses_events s @ added" "map body added = repairs" by blast
  have run: "journalRun BATCH_MAX_CALLS_V1 (ses_events s') journal_start = Inr st'"
    using r st go by (simp add: journalBodies_append journalRun_bodies)
  have "length added \<le> 1" using r(3) small by (metis length_map)
  moreover have "validateToolOccurrenceJournal (ses_events s') = Inr journal"
    using run go(2) j validate_iff_run by blast
  moreover have "sc_openTurn (scanEvents (ses_events s')) = sc_openTurn (scanEvents (ses_events s))"
    using scanEvents_agrees [OF st] scanEvents_agrees [OF run] go(3) by (simp add: scan_agrees_def)
  ultimately show ?thesis using r by blast
qed

theorem resume_repair_keeps_journal_witness:
  "\<exists>s' added. reconcileForResume ''t'' (sampleSession parallelLog) = Inr (s', added) \<and>
     length added \<le> 1 \<and> (\<exists>journal. validateToolOccurrenceJournal (ses_events s') = Inr journal)"
proof -
  obtain j where j: "validateToolOccurrenceJournal parallelLog = Inr j"
    using parallelLog_journal by blast
  show ?thesis
    using resume_repair_keeps_journal [of "sampleSession parallelLog" j "''t''"] j
    by (auto simp: sampleSession_def)
qed

text \<open>A Session's cursor follows its journal: after any append the events are contiguous, the next
  sequence number is the one after the last event and the next Turn is after every Turn started.\<close>

theorem session_cursor_follows_journal:
  assumes "session_ok s" and "appendBatch now inputs s = Inr (s', events)"
  shows "session_ok s' \<and> ses_events s' = ses_events s @ events \<and> map body events = inputs \<and>
    contiguousFrom (ses_nextSeq s) events \<and> ses_nextSeq s' = ses_nextSeq s + length inputs"
  using session_ok_append [OF assms] appendBatch_Inr [OF assms(2)] by simp

theorem session_cursor_follows_journal_witness:
  "\<exists>s' events. appendBatch ''t'' [Turn_Start 7] (sampleSession []) = Inr (s', events) \<and>
     session_ok s' \<and> ses_nextSeq s' = 1"
proof -
  have ok: "session_ok (sampleSession [])" by (simp add: session_ok_def sampleSession_def)
  obtain s' events where a: "appendBatch ''t'' [Turn_Start 7] (sampleSession []) = Inr (s', events)"
    by (simp add: appendBatch_def sampleSession_def Let_def)
  from session_cursor_follows_journal [OF ok a] have "ses_nextSeq s' = 1"
    by (simp add: sampleSession_def)
  with a session_cursor_follows_journal [OF ok a] show ?thesis by blast
qed

text \<open>A flush reports a failure exactly when some write failed, and every queued write is attempted
  whatever became of the ones before it.\<close>

theorem flush_reports_any_failure:
  "ses_pending (fst (flushSession persist s)) = [] \<and>
   (snd (flushSession persist s) = Inr () \<longleftrightarrow>
      ses_failure s = None \<and> (\<forall>batch \<in> set (ses_pending s). persist batch = Inr ()))"
proof (cases "ses_failure s")
  case None
  then show ?thesis
    using persistAll_None_iff [of persist "ses_pending s"]
    by (cases "persistAll persist (ses_pending s) None") (auto simp: flushSession_def)
next
  case (Some e)
  then show ?thesis by (simp add: flushSession_def persistAll_failure)
qed

theorem flush_reports_any_failure_witness:
  "snd (flushSession (\<lambda>batch. Inr ()) (sampleSession [])) = Inr ()"
  using flush_reports_any_failure [of "\<lambda>batch. Inr ()" "sampleSession []"]
  by (simp add: sampleSession_def)

end
