(* ===== verification/Turn_History.thy ===== *)
theory Turn_History
  imports Session
begin

text \<open>
  Messages derived from events (core/contracts/turn-history.ts and \<open>normalizedMessagesV1\<close> of
  core/contracts/session.ts): which events become a message, which Turn each belongs to, the
  messages themselves, and the completion of a history whose parallel tool calls were interrupted.
  The loop of \<open>answerEveryToolCallV1\<close> keeps its index and its copy-on-write accumulator; it is proved
  equal to the recursion \<open>answerFrom\<close>, and the result is given position by position (\<open>unansweredAt\<close>).
\<close>

datatype llm_message =
    User_Msg jstr "attachment list"
  | Assistant_Msg jstr "tool_call list" "json option"
  | Tool_Msg jstr jstr jstr bool "attachment list"

section \<open>Which events become a message\<close>

fun nestedToolOccurrenceIdsV1 :: "session_event list \<Rightarrow> journal_error + string list" where
  "nestedToolOccurrenceIdsV1 [] = Inr []"
| "nestedToolOccurrenceIdsV1 (event # events) =
     (case body event of
        Assistant_Message turn step requestId text toolCalls providerState \<Rightarrow>
          rbind (expandToolCallOccurrencesV1 turn step toolCalls) (\<lambda>occurrences.
          rbind (nestedToolOccurrenceIdsV1 events) (\<lambda>rest.
          Inr (map occ_id (filter (\<lambda>x. occ_parent x \<noteq> None) occurrences) @ rest)))
      | _ \<Rightarrow> nestedToolOccurrenceIdsV1 events)"

definition isMessageEvent :: "string list \<Rightarrow> session_event \<Rightarrow> bool" where
  "isMessageEvent nested event =
     (case body event of
        User_Message turn step messageId text attachments \<Rightarrow> True
      | Assistant_Message turn step requestId text toolCalls providerState \<Rightarrow> True
      | Tool_Result result \<Rightarrow> to_occurrence result \<notin> set nested
      | _ \<Rightarrow> False)"

definition messageEventsV1 :: "session_event list \<Rightarrow> journal_error + session_event list" where
  "messageEventsV1 events =
     rbind (nestedToolOccurrenceIdsV1 events) (\<lambda>nested. Inr (filter (isMessageEvent nested) events))"

fun eventTurn :: "event_body \<Rightarrow> nat option" where
  "eventTurn (Session_Created at) = None"
| "eventTurn (Session_Disposed at) = None"
| "eventTurn (Turn_Start turn) = Some turn"
| "eventTurn (Turn_Admission turn turnType) = Some turn"
| "eventTurn (Turn_End turn outcome reason) = Some turn"
| "eventTurn (Step_Start turn step) = Some turn"
| "eventTurn (Step_End turn step outcome) = Some turn"
| "eventTurn (User_Message turn step messageId text attachments) = Some turn"
| "eventTurn (Model_Request turn step requestId request) = Some turn"
| "eventTurn (Model_Response_Failed turn step requestId failure) = Some turn"
| "eventTurn (Assistant_Message turn step requestId text toolCalls providerState) = Some turn"
| "eventTurn (Tool_Call intent) = Some (ti_turn intent)"
| "eventTurn (Tool_Result result) = Some (to_turn result)"
| "eventTurn (Other_Event kind turn payload) = turn"

definition messageTurnsV1 :: "session_event list \<Rightarrow> journal_error + nat list" where
  "messageTurnsV1 events =
     rbind (messageEventsV1 events)
       (\<lambda>es. Inr (map (\<lambda>event. case eventTurn (body event) of Some turn \<Rightarrow> turn | None \<Rightarrow> 0) es))"

definition isTurnStart :: "event_body \<Rightarrow> bool" where
  "isTurnStart b = (case b of Turn_Start turn \<Rightarrow> True | _ \<Rightarrow> False)"

definition currentTurnV1 :: "session_event list \<Rightarrow> nat" where
  "currentTurnV1 events =
     (case lastBody isTurnStart events of Some (Turn_Start turn) \<Rightarrow> turn | _ \<Rightarrow> 0)"

section \<open>The messages\<close>

definition resolveAttachment :: "(string \<Rightarrow> jstr option) \<Rightarrow> attachment \<Rightarrow> attachment" where
  "resolveAttachment resolver a =
     (case resolver (att_hash a) of None \<Rightarrow> a | Some d \<Rightarrow> a\<lparr>att_data := Some d\<rparr>)"

definition eventMessage ::
  "(string \<Rightarrow> jstr option) \<Rightarrow> (string \<times> journal_entry) list \<Rightarrow> event_body \<Rightarrow>
   journal_error + llm_message list" where
  "eventMessage resolver journal b =
     (case b of
        User_Message turn step messageId content attachments \<Rightarrow> Inr [User_Msg content attachments]
      | Assistant_Message turn step requestId content toolCalls providerState \<Rightarrow>
          Inr [Assistant_Msg content toolCalls providerState]
      | Tool_Result result \<Rightarrow>
          (case map_of journal (to_occurrence result) of
             None \<Rightarrow> Inl (Undefined_Entry (to_occurrence result))
           | Some entry \<Rightarrow>
               Inr [Tool_Msg (tc_id (occ_call (je_occurrence entry))) (to_name result)
                      (to_content result) (to_error result)
                      (map (resolveAttachment resolver) (to_attachments result))])
      | _ \<Rightarrow> Inr [])"

definition otherTurn :: "nat option \<Rightarrow> event_body \<Rightarrow> bool" where
  "otherTurn onlyTurn b =
     (case (onlyTurn, eventTurn b) of (Some only, Some turn) \<Rightarrow> turn \<noteq> only | _ \<Rightarrow> False)"

fun messagesOf ::
  "(string \<Rightarrow> jstr option) \<Rightarrow> nat option \<Rightarrow> (string \<times> journal_entry) list \<Rightarrow>
   session_event list \<Rightarrow> journal_error + llm_message list" where
  "messagesOf resolver onlyTurn journal [] = Inr []"
| "messagesOf resolver onlyTurn journal (event # events) =
     (if otherTurn onlyTurn (body event) then messagesOf resolver onlyTurn journal events
      else rbind (eventMessage resolver journal (body event)) (\<lambda>m.
           rbind (messagesOf resolver onlyTurn journal events) (\<lambda>ms. Inr (m @ ms))))"

definition normalizedMessagesV1 ::
  "session_event list \<Rightarrow> (string \<Rightarrow> jstr option) \<Rightarrow> nat option \<Rightarrow>
   journal_error + llm_message list" where
  "normalizedMessagesV1 events resolver onlyTurn =
     rbind (validateToolOccurrenceJournal events) (\<lambda>journal.
     rbind (messageEventsV1 events) (messagesOf resolver onlyTurn journal))"

section \<open>Every tool call answered\<close>

definition UNRUN_TOOL_CALL_RESULT_V1 :: jstr where
  "UNRUN_TOOL_CALL_RESULT_V1 = js ''Not run: the Turn ended before this call started.''"

fun isToolMsg :: "llm_message \<Rightarrow> bool" where
  "isToolMsg (Tool_Msg callId name content failed attachments) = True"
| "isToolMsg _ = False"

fun toolMsgCall :: "llm_message \<Rightarrow> jstr option" where
  "toolMsgCall (Tool_Msg callId name content failed attachments) = Some callId"
| "toolMsgCall _ = None"

fun messageCalls :: "llm_message \<Rightarrow> tool_call list" where
  "messageCalls (Assistant_Msg content toolCalls providerState) = toolCalls"
| "messageCalls _ = []"

definition missingCalls :: "tool_call list \<Rightarrow> llm_message list \<Rightarrow> tool_call list" where
  "missingCalls calls results =
     filter (\<lambda>call. Some (tc_id call) \<notin> set (map toolMsgCall results)) calls"

definition unrunResult :: "tool_call \<Rightarrow> llm_message" where
  "unrunResult call = Tool_Msg (tc_id call) (tc_name call) UNRUN_TOOL_CALL_RESULT_V1 True []"

definition pushTo :: "llm_message list option \<Rightarrow> llm_message list \<Rightarrow> llm_message list option" where
  "pushTo answered ms = map_option (\<lambda>a. a @ ms) answered"

function answerLoop ::
  "llm_message list \<Rightarrow> nat \<Rightarrow> llm_message list option \<Rightarrow> llm_message list option" where
  "answerLoop messages index answered =
     (if \<not> index < length messages then answered
      else let message = messages ! index in
        if messageCalls message = [] then answerLoop messages (Suc index) (pushTo answered [message])
        else let results = takeWhile isToolMsg (drop (Suc index) messages);
                 block = message # results;
                 next_index = Suc index + length results;
                 missing = missingCalls (messageCalls message) results;
                 answered' = (if missing \<noteq> [] \<and> answered = None
                              then Some (take (next_index - length block) messages) else answered)
             in answerLoop messages next_index (pushTo answered' (block @ map unrunResult missing)))"
  by pat_completeness auto
termination
  by (relation "measure (\<lambda>(messages, index, answered). length messages - index)") auto

declare answerLoop.simps [simp del]

definition answerEveryToolCallV1 :: "llm_message list \<Rightarrow> llm_message list" where
  "answerEveryToolCallV1 messages =
     (case answerLoop messages 0 None of Some answered \<Rightarrow> answered | None \<Rightarrow> messages)"

text \<open>The recursion the loop implements.\<close>

function answerFrom :: "llm_message list \<Rightarrow> llm_message list" where
  "answerFrom [] = []"
| "answerFrom (message # messages) =
     (if messageCalls message = [] then message # answerFrom messages
      else let results = takeWhile isToolMsg messages
           in message # results @ map unrunResult (missingCalls (messageCalls message) results)
                @ answerFrom (dropWhile isToolMsg messages))"
  by pat_completeness auto
termination
  by (relation "measure length") (auto simp: less_Suc_eq_le length_dropWhile_le)

declare answerFrom.simps(2) [simp del]

text \<open>Every call of an assistant message has a result in the tool block that follows it.\<close>

fun allAnswered :: "llm_message list \<Rightarrow> bool" where
  "allAnswered [] = True"
| "allAnswered (message # messages) =
     (missingCalls (messageCalls message) (takeWhile isToolMsg messages) = [] \<and> allAnswered messages)"

text \<open>What the completed history adds after position \<open>k\<close>, read off the messages alone: \<open>openCalls\<close> are the calls of the
  message that heads the tool block a list ends in, and where that block ends the calls without a result in it get one.\<close>

definition openCalls :: "llm_message list \<Rightarrow> tool_call list" where
  "openCalls ms = (case dropWhile isToolMsg (rev ms) of [] \<Rightarrow> [] | message # before \<Rightarrow> messageCalls message)"

definition unansweredAt :: "llm_message list \<Rightarrow> nat \<Rightarrow> tool_call list" where
  "unansweredAt messages k =
     (if Suc k < length messages \<and> isToolMsg (messages ! Suc k) then []
      else missingCalls (openCalls (take (Suc k) messages)) (takeWhile isToolMsg (rev (take (Suc k) messages))))"

section \<open>Facts about derived messages\<close>

lemma declareOccurrences_keys:
  "declareOccurrences occs journal ids = Inr (journal', ids') \<Longrightarrow> map_of journal key \<noteq> None \<Longrightarrow>
   map_of journal' key \<noteq> None"
proof (induction occs arbitrary: journal ids)
  case (Cons x occs)
  let ?journal = "AList.update (occ_id x) \<lparr>je_occurrence = x, je_intent = None, je_result = None\<rparr> journal"
  have rest: "declareOccurrences occs ?journal
      (if occ_id x \<in> set ids then ids else ids @ [occ_id x]) = Inr (journal', ids')"
    using Cons.prems(1) by (simp split: if_split_asm)
  have "map_of ?journal key \<noteq> None" using Cons.prems(2) by (simp add: update_conv')
  with rest show ?case by (rule Cons.IH)
qed simp

lemma journalStep_keys:
  assumes "journalStep cap b st = Inr st'" and "map_of (js_journal st) key \<noteq> None"
  shows "map_of (js_journal st') key \<noteq> None"
proof (cases b)
  case (Assistant_Message turn step requestId words toolCalls providerState)
  show ?thesis
  proof (cases "toolCalls = []")
    case False
    with Assistant_Message assms(1) obtain s occs journal ids where
      decl: "declareOccurrences occs (js_journal st) (os_occurrences s) = Inr (journal, ids)"
      and st': "st' = st\<lparr>js_journal := journal, js_openStep := Some (s\<lparr>os_occurrences := ids\<rparr>)\<rparr>"
      by (auto simp: rbind_Inr_iff split: option.splits if_splits)
    from declareOccurrences_keys [OF decl assms(2)] show ?thesis unfolding st' by simp
  qed (use assms Assistant_Message in simp)
next
  case (Tool_Call intent)
  with assms show ?thesis by (auto simp: rbind_Inr_iff update_conv' split: if_splits)
next
  case (Tool_Result result)
  with assms show ?thesis by (auto simp: rbind_Inr_iff update_conv' split: if_splits)
qed (use assms in \<open>auto split: option.splits if_splits\<close>)

lemma journalRun_keys:
  "journalRun cap events st = Inr st' \<Longrightarrow> map_of (js_journal st) key \<noteq> None \<Longrightarrow>
   map_of (js_journal st') key \<noteq> None"
proof (induction events arbitrary: st)
  case (Cons event events)
  then obtain st1 where "journalStep cap (body event) st = Inr st1" "journalRun cap events st1 = Inr st'"
    by (auto simp: rbind_Inr_iff)
  with Cons.IH Cons.prems(2) journalStep_keys show ?case by blast
qed simp

lemma journalRun_result_known:
  "journalRun cap events st = Inr st' \<Longrightarrow> event \<in> set events \<Longrightarrow> body event = Tool_Result result \<Longrightarrow>
   map_of (js_journal st') (to_occurrence result) \<noteq> None"
proof (induction events arbitrary: st)
  case (Cons x events)
  obtain st1 where step: "journalStep cap (body x) st = Inr st1" and run: "journalRun cap events st1 = Inr st'"
    using Cons.prems(1) by (auto simp: rbind_Inr_iff)
  show ?case
  proof (cases "event = x")
    case True
    with step Cons.prems(3) have "map_of (js_journal st1) (to_occurrence result) \<noteq> None"
      by (auto simp: rbind_Inr_iff update_conv' split: if_splits)
    with run show ?thesis by (rule journalRun_keys)
  next
    case False
    with Cons.prems have "event \<in> set events" by simp
    with run show ?thesis using Cons.prems(3) by (rule Cons.IH)
  qed
qed simp

lemma messagesOf_total:
  assumes "\<forall>event \<in> set events. \<forall>result. body event = Tool_Result result \<longrightarrow>
      map_of journal (to_occurrence result) \<noteq> None"
  shows "\<exists>ms. messagesOf resolver onlyTurn journal events = Inr ms"
  using assms
proof (induction events)
  case (Cons event events)
  then obtain ms where ms: "messagesOf resolver onlyTurn journal events = Inr ms" by auto
  have "\<exists>m. eventMessage resolver journal (body event) = Inr m"
  proof (cases "body event")
    case (Tool_Result result)
    with Cons.prems have "map_of journal (to_occurrence result) \<noteq> None"
      by simp
    with Tool_Result show ?thesis by (auto simp: eventMessage_def)
  qed (simp_all add: eventMessage_def)
  with ms show ?case by auto
qed simp

lemma messagesOf_length:
  assumes "messagesOf resolver None journal events = Inr ms"
    and "\<forall>event \<in> set events. isMessageEvent nested event"
  shows "length ms = length events"
  using assms
proof (induction events arbitrary: ms)
  case (Cons event events)
  then obtain m rest where m: "eventMessage resolver journal (body event) = Inr m"
    and rest: "messagesOf resolver None journal events = Inr rest" and ms: "ms = m @ rest"
    by (auto simp: otherTurn_def rbind_Inr_iff)
  have "length m = 1" using m Cons.prems(2)
    by (auto simp: eventMessage_def isMessageEvent_def split: event_body.splits option.splits)
  with Cons.IH [OF rest] Cons.prems(2) ms show ?case by simp
qed simp

section \<open>The loop is the recursion, and answers every call\<close>

lemma missingCalls_answered:
  "missingCalls calls (results @ map unrunResult (missingCalls calls results)) = []"
  by (auto simp: missingCalls_def unrunResult_def filter_empty_conv)

lemma isToolMsg_unrunResult [simp]: "isToolMsg (unrunResult call)"
  by (simp add: unrunResult_def)

lemma messageCalls_tool: "isToolMsg m \<Longrightarrow> messageCalls m = []"
  by (cases m) auto

lemma answerFrom_tools:
  "list_all isToolMsg ms \<Longrightarrow> answerFrom (ms @ rest) = ms @ answerFrom rest"
  by (induction ms) (auto simp: answerFrom.simps(2) messageCalls_tool)

lemma answerFrom_hd: "takeWhile isToolMsg (answerFrom ms) = takeWhile isToolMsg ms"
proof (induction ms rule: answerFrom.induct)
  case (2 m ms)
  show ?case
  proof (cases "isToolMsg m")
    case True
    then have "messageCalls m = []" by (rule messageCalls_tool)
    with 2 True show ?thesis by (simp add: answerFrom.simps(2))
  next
    case False
    then show ?thesis by (simp add: answerFrom.simps(2) Let_def)
  qed
qed simp

lemma takeWhile_tools:
  "takeWhile isToolMsg (takeWhile isToolMsg ms @ map unrunResult calls @ rest) =
   takeWhile isToolMsg ms @ map unrunResult calls @ takeWhile isToolMsg rest"
proof -
  have "\<forall>m \<in> set (takeWhile isToolMsg ms @ map unrunResult calls). isToolMsg m"
    by (auto dest: set_takeWhileD)
  then show ?thesis using takeWhile_append2 [of "takeWhile isToolMsg ms @ map unrunResult calls"] by simp
qed

lemma allAnswered_tools: "list_all isToolMsg ms \<Longrightarrow> allAnswered (ms @ rest) \<longleftrightarrow> allAnswered rest"
  by (induction ms) (auto simp: messageCalls_tool missingCalls_def)

lemma missingCalls_mono: "missingCalls calls a = [] \<Longrightarrow> missingCalls calls (a @ b) = []"
  by (auto simp: missingCalls_def filter_empty_conv)

lemma tools_takeWhile: "list_all isToolMsg (takeWhile isToolMsg ms @ map unrunResult calls)"
  by (auto simp: list_all_iff dest: set_takeWhileD)

lemma allAnswered_answerFrom: "allAnswered (answerFrom ms)"
proof (induction ms rule: answerFrom.induct)
  case (2 m ms)
  show ?case
  proof (cases "messageCalls m = []")
    case True
    with 2 show ?thesis by (simp add: answerFrom.simps(2) missingCalls_def)
  next
    case False
    let ?results = "takeWhile isToolMsg ms" and ?rest = "answerFrom (dropWhile isToolMsg ms)"
    let ?block = "?results @ map unrunResult (missingCalls (messageCalls m) ?results)"
    have "missingCalls (messageCalls m) (takeWhile isToolMsg (?block @ ?rest)) = []"
      unfolding append_assoc takeWhile_tools
      using missingCalls_mono [OF missingCalls_answered] by simp
    moreover have "allAnswered (?block @ ?rest)"
      using 2 False allAnswered_tools [OF tools_takeWhile] by simp
    ultimately show ?thesis using False by (simp add: answerFrom.simps(2) Let_def)
  qed
qed simp

lemma allAnswered_dropWhile: "allAnswered ms \<Longrightarrow> allAnswered (dropWhile isToolMsg ms)"
  by (induction ms) auto

lemma answerFrom_id: "allAnswered ms \<Longrightarrow> answerFrom ms = ms"
  by (induction ms rule: answerFrom.induct)
     (auto simp: answerFrom.simps(2) Let_def allAnswered_dropWhile)

lemma answerLoop_eq:
  "answerLoop messages index answered =
     (let r = answerFrom (drop index messages)
      in case answered of
           Some a \<Rightarrow> Some (a @ r)
         | None \<Rightarrow> if r = drop index messages then None else Some (take index messages @ r))"
proof (induction messages index answered rule: answerLoop.induct)
  case (1 messages index answered)
  show ?case
  proof (cases "index < length messages")
    case False
    then show ?thesis by (subst answerLoop.simps) (simp split: option.splits)
  next
    case True
    let ?m = "messages ! index" and ?rest = "drop (Suc index) messages"
    have split: "drop index messages = ?m # ?rest" using True by (simp add: Cons_nth_drop_Suc)
    have prefix: "take (Suc index) messages = take index messages @ [?m]"
      using True by (simp add: take_Suc_conv_app_nth)
    show ?thesis
    proof (cases "messageCalls ?m = []")
      case calls: True
      have "answerLoop messages index answered =
          answerLoop messages (Suc index) (pushTo answered [?m])"
        using True calls by (subst answerLoop.simps) simp
      also have "\<dots> = (let r = answerFrom (drop index messages)
          in case answered of
               Some a \<Rightarrow> Some (a @ r)
             | None \<Rightarrow> if r = drop index messages then None else Some (take index messages @ r))"
        using 1(1) [OF _ refl calls] True calls prefix
        by (auto simp: split answerFrom.simps(2) pushTo_def Let_def split: option.splits)
      finally show ?thesis .
    next
      case calls: False
      let ?results = "takeWhile isToolMsg ?rest"
      let ?n = "Suc index + length ?results"
      let ?missing = "missingCalls (messageCalls ?m) ?results"
      let ?answered = "if ?missing \<noteq> [] \<and> answered = None
          then Some (take (?n - length (?m # ?results)) messages) else answered"
      have rest: "drop ?n messages = dropWhile isToolMsg ?rest"
        by (simp add: dropWhile_eq_drop add.commute)
      have whole: "?rest = ?results @ drop ?n messages" unfolding rest by simp
      have upto: "take ?n messages = take index messages @ ?m # ?results"
      proof -
        have "messages = take index messages @ ?m # ?results @ drop ?n messages"
          using split whole by (metis append_take_drop_id)
        moreover have "length (take index messages @ ?m # ?results) = ?n" using True by simp
        ultimately show ?thesis
          by (metis append_eq_conv_conj append_Cons append_assoc)
      qed
      have IH: "answerLoop messages ?n (pushTo ?answered ((?m # ?results) @ map unrunResult ?missing)) =
         (let r = answerFrom (drop ?n messages)
          in case pushTo ?answered ((?m # ?results) @ map unrunResult ?missing) of
               Some a \<Rightarrow> Some (a @ r)
             | None \<Rightarrow> if r = drop ?n messages then None else Some (take ?n messages @ r))"
        by (rule 1(2) [OF _ refl calls refl refl refl refl refl]) (use True in simp)
      have step: "answerLoop messages index answered =
          answerLoop messages ?n (pushTo ?answered ((?m # ?results) @ map unrunResult ?missing))"
        using True calls by (subst answerLoop.simps) (simp add: Let_def)
      have ref: "answerFrom (drop index messages) =
          ?m # ?results @ map unrunResult ?missing @ answerFrom (drop ?n messages)"
        unfolding split rest using calls by (simp add: answerFrom.simps(2) Let_def)
      have whole': "drop index messages = ?m # ?results @ drop ?n messages"
        using split whole by simp
      have same: "answerFrom (drop index messages) = drop index messages \<longleftrightarrow>
          ?missing = [] \<and> answerFrom (drop ?n messages) = drop ?n messages"
      proof
        assume eq: "answerFrom (drop index messages) = drop index messages"
        then have "allAnswered (?m # ?rest)" using allAnswered_answerFrom split by metis
        then have none: "?missing = []" by simp
        then have "?m # ?results @ answerFrom (drop ?n messages) = drop index messages"
          using eq unfolding ref by simp
        from trans [OF this whole'] none show "?missing = [] \<and> answerFrom (drop ?n messages) = drop ?n messages" by simp
      next
        assume "?missing = [] \<and> answerFrom (drop ?n messages) = drop ?n messages"
        then show "answerFrom (drop index messages) = drop index messages"
          using ref trans [OF _ whole' [symmetric]] by simp
      qed
      show ?thesis unfolding step IH
        using same ref upto by (cases answered) (auto simp: pushTo_def Let_def)
    qed
  qed
qed

section \<open>What is added, and where\<close>

lemma openCalls_block:
  assumes "list_all isToolMsg results" and "\<not> isToolMsg message"
  shows "openCalls (pre @ message # results) = messageCalls message"
    and "takeWhile isToolMsg (rev (pre @ message # results)) = rev results"
proof -
  have "\<forall>m \<in> set (rev results). isToolMsg m" using assms(1) by (simp add: list_all_iff)
  then show "openCalls (pre @ message # results) = messageCalls message"
    and "takeWhile isToolMsg (rev (pre @ message # results)) = rev results"
    using assms(2) dropWhile_append2 [of "rev results" isToolMsg "message # rev pre"]
      takeWhile_append2 [of "rev results" isToolMsg "message # rev pre"] by (simp_all add: openCalls_def)
qed

lemma openCalls_snoc: "openCalls (pre @ [m]) = (if isToolMsg m then openCalls pre else messageCalls m)"
  by (simp add: openCalls_def)

lemma missingCalls_Nil [simp]: "missingCalls [] results = []" by (simp add: missingCalls_def)

lemma missingCalls_rev [simp]: "missingCalls calls (rev results) = missingCalls calls results"
  by (simp add: missingCalls_def)

lemma unansweredAt_inside:
  assumes "list_all isToolMsg results" and "length pre \<le> k" and "k < length pre + length results"
  shows "unansweredAt (pre @ message # results @ rest) k = []"
proof -
  obtain n where k: "k = length pre + n" using assms(2) le_Suc_ex by blast
  have "(pre @ message # results @ rest) ! Suc k = results ! (k - length pre)"
    using assms(3) nth_append_length_plus [of pre "message # results @ rest" "Suc n"] by (simp add: k nth_append)
  moreover have "results ! (k - length pre) \<in> set results" using assms(2,3) by simp
  ultimately show ?thesis using assms by (simp add: unansweredAt_def list_all_iff)
qed

lemma unansweredAt_end:
  assumes "list_all isToolMsg results" and "\<not> isToolMsg message" and "rest = [] \<or> \<not> isToolMsg (hd rest)"
  shows "unansweredAt (pre @ message # results @ rest) (length pre + length results) =
    missingCalls (messageCalls message) results"
proof -
  have "take (Suc (length pre + length results)) (pre @ message # results @ rest) = pre @ message # results" by simp
  moreover have "rest \<noteq> [] \<Longrightarrow> (pre @ message # results @ rest) ! Suc (length pre + length results) = hd rest"
    by (simp add: nth_append hd_conv_nth)
  ultimately show ?thesis
    using assms(3) openCalls_block [OF assms(1,2), of pre] by (auto simp: unansweredAt_def)
qed

text \<open>The messages from \<open>length pre\<close> on, each kept and followed by the results of the calls left open there.\<close>

abbreviation filledFrom :: "llm_message list \<Rightarrow> nat \<Rightarrow> llm_message list" where
  "filledFrom messages n \<equiv>
     concat (map (\<lambda>k. messages ! k # map unrunResult (unansweredAt messages k)) [n..<length messages])"

lemma filledFrom_block:
  assumes "list_all isToolMsg results" and "\<not> isToolMsg message" and "rest = [] \<or> \<not> isToolMsg (hd rest)"
  shows "filledFrom (pre @ message # results @ rest) (length pre) =
    message # results @ map unrunResult (missingCalls (messageCalls message) results) @
    filledFrom (pre @ message # results @ rest) (length (pre @ message # results))"
proof -
  let ?ms = "pre @ message # results @ rest" and ?e = "length pre + length results"
  let ?f = "\<lambda>k. ?ms ! k # map unrunResult (unansweredAt ?ms k)"
  have range: "[length pre..<length ?ms] = [length pre..<?e] @ ?e # [length (pre @ message # results)..<length ?ms]"
  proof -
    have "[length pre..<length ?ms] = [length pre..<?e] @ [?e..<length ?ms]"
      using upt_add_eq_append [of "length pre" ?e "length ?ms - ?e"] by (simp add: add.assoc)
    then show ?thesis using upt_conv_Cons [of ?e "length ?ms"] by (simp del: upt_Suc add: add.assoc)
  qed
  have "map ?f [length pre..<?e] = map (\<lambda>k. [?ms ! k]) [length pre..<?e]"
    using unansweredAt_inside [OF assms(1)] by simp
  also have "concat \<dots> = map ((!) ?ms) [length pre..<?e]" by (rule concat_map_singleton)
  finally have inner: "concat (map ?f [length pre..<?e]) = map ((!) ?ms) [length pre..<?e]" .
  have "map ((!) ?ms) [length pre..<?e] @ [?ms ! ?e] = map ((!) ?ms) [length pre..<Suc ?e]" by simp
  also have "\<dots> = take (length (message # results)) (drop (length pre) ?ms)"
    by (rule nth_equalityI) (auto simp: nth_append nth_Cons' less_Suc_eq)
  also have "\<dots> = message # results" by simp
  finally have kept: "map ((!) ?ms) [length pre..<?e] @ [?ms ! ?e] = message # results" .
  have "filledFrom ?ms (length pre) = (map ((!) ?ms) [length pre..<?e] @ [?ms ! ?e]) @
      map unrunResult (unansweredAt ?ms ?e) @ filledFrom ?ms (length (pre @ message # results))"
    unfolding range using inner by simp
  then show ?thesis unfolding kept unansweredAt_end [OF assms] by (simp only: append_Cons)
qed

lemma answerFrom_filled:
  "ms = [] \<or> \<not> isToolMsg (hd ms) \<or> openCalls pre = [] \<Longrightarrow> answerFrom ms = filledFrom (pre @ ms) (length pre)"
proof (induction ms arbitrary: pre rule: answerFrom.induct)
  case (2 m ms)
  show ?case
  proof (cases "messageCalls m = []")
    case True
    then have none: "openCalls (pre @ [m]) = []" using "2.prems" by (auto simp: openCalls_snoc)
    then have "unansweredAt (pre @ m # ms) (length pre) = []" by (simp add: unansweredAt_def)
    then have "filledFrom (pre @ m # ms) (length pre) = m # filledFrom ((pre @ [m]) @ ms) (length (pre @ [m]))"
      using upt_conv_Cons [of "length pre" "length (pre @ m # ms)"] by (simp del: upt_Suc)
    then show ?thesis using 2(1) [OF True, of "pre @ [m]"] none True by (simp add: answerFrom.simps(2))
  next
    case False
    then have m: "\<not> isToolMsg m" using messageCalls_tool by blast
    let ?results = "takeWhile isToolMsg ms" and ?rest = "dropWhile isToolMsg ms"
    have rest: "?rest = [] \<or> \<not> isToolMsg (hd ?rest)" using hd_dropWhile by blast
    have "list_all isToolMsg ?results" by (auto simp: list_all_iff dest: set_takeWhileD)
    from filledFrom_block [OF this m rest, of pre]
    show ?thesis using 2(2) [OF False refl, of "pre @ m # ?results"] rest False
      by (auto simp: answerFrom.simps(2) Let_def simp del: upt_Suc)
  qed
qed simp

section \<open>Properties\<close>

text \<open>C38: The history sent to a provider answers every tool call and changes nothing else: every message is kept at its place,
  and what is added is, at the end of a tool block and nowhere else, one error result for each call of the block's assistant message
  that has no result in the block, in the order of the calls. In the completed messages each call of an assistant message has a
  result in the tool block that follows it, completing twice changes nothing, and messages that miss nothing are returned as they
  are.\<close>

theorem every_tool_call_answered:
  "answerEveryToolCallV1 messages = concat (map (\<lambda>k. messages ! k # map unrunResult (unansweredAt messages k))
     [0..<length messages]) \<and>
   allAnswered (answerEveryToolCallV1 messages) \<and>
   answerEveryToolCallV1 (answerEveryToolCallV1 messages) = answerEveryToolCallV1 messages \<and>
   (answerEveryToolCallV1 messages = messages \<longleftrightarrow> allAnswered messages)"
proof -
  have eq: "answerEveryToolCallV1 ms = answerFrom ms" for ms
    by (simp add: answerEveryToolCallV1_def answerLoop_eq Let_def)
  have "openCalls [] = []" by (simp add: openCalls_def)
  then have "answerFrom messages = filledFrom messages 0" using answerFrom_filled [of messages "[]"] by simp
  then show ?thesis unfolding eq
    using allAnswered_answerFrom answerFrom_id by metis
qed

text \<open>Deriving the messages of an accepted log never fails on a missing call, and
  \<open>messageTurnsV1\<close>, which narrowing policies read, has exactly one Turn per derived message.\<close>

theorem derived_messages_total_and_aligned:
  assumes "validateToolOccurrenceJournal events = Inr journal"
    and "nestedToolOccurrenceIdsV1 events = Inr nested"
  shows "\<exists>messages turns. normalizedMessagesV1 events resolver None = Inr messages \<and>
    messageTurnsV1 events = Inr turns \<and> length messages = length turns"
proof -
  let ?es = "filter (isMessageEvent nested) events"
  have es: "messageEventsV1 events = Inr ?es" using assms(2) by (simp add: messageEventsV1_def)
  have known: "\<forall>event \<in> set ?es. \<forall>result. body event = Tool_Result result \<longrightarrow>
      map_of journal (to_occurrence result) \<noteq> None"
    using assms(1) journalRun_result_known by (fastforce simp: validate_iff_run)
  obtain ms where ms: "messagesOf resolver None journal ?es = Inr ms"
    using messagesOf_total [OF known] by blast
  have "length ms = length ?es" using ms by (rule messagesOf_length [where nested = nested]) simp
  with es ms assms show ?thesis by (simp add: normalizedMessagesV1_def messageTurnsV1_def)
qed

lemma oneCallLog_nested: "nestedToolOccurrenceIdsV1 oneCallLog = Inr []"
  by (simp add: sample_defs expandToolCallOccurrencesV1_def)

theorem derived_messages_total_and_aligned_witness:
  "\<exists>messages turns. normalizedMessagesV1 oneCallLog (\<lambda>hash. None) None = Inr messages \<and>
    messageTurnsV1 oneCallLog = Inr turns \<and> length messages = length turns"
proof -
  obtain j where j: "validateToolOccurrenceJournal oneCallLog = Inr j" using oneCallLog_journal by blast
  from derived_messages_total_and_aligned [OF j oneCallLog_nested] show ?thesis .
qed

text \<open>A settled step that declared a batch of twenty-six calls, which the decoder refuses whole.\<close>

definition wideBatch :: tool_call where
  "wideBatch = \<lparr>tc_id = js ''b'', tc_name = js ''batch'', tc_input = JObj [(''calls'', JArr
     (replicate 26 (JObj [(''tool'', JStr (js ''read''))])))]\<rparr>"

definition wideIntent :: tool_intent where
  "wideIntent = \<lparr>ti_turn = 1, ti_step = 1, ti_occurrence = ''tool:1:1:0'',
     ti_name = tc_name wideBatch, ti_input = tc_input wideBatch\<rparr>"

definition wideBatchLog :: "session_event list" where
  "wideBatchLog = [eventAt 0 (Turn_Start 1), eventAt 1 (Step_Start 1 1),
     eventAt 2 (Assistant_Message 1 1 ''r'' [] [wideBatch] None), eventAt 3 (Tool_Call wideIntent),
     eventAt 4 (Tool_Result (interruptedResult wideIntent)), eventAt 5 (Step_End 1 1 Completed)]"

lemmas wide_defs = sample_defs wideBatchLog_def wideBatch_def wideIntent_def interruptedResult_def
  decodeBatchCallsUpTo_def batchToolOccurrenceId_def decodeBatchCall_def

text \<open>Under a cap of twenty-six the batch declares its first sub-call, which the log never starts.\<close>

lemma wideBatch_first_sub:
  assumes "expandToolCallOccurrencesUpTo 26 1 1 [wideBatch] = Inr occs"
  shows "\<exists>x \<in> set occs. occ_id x = ''tool:1:1:0.0''"
proof -
  let ?call = "JObj [(''tool'', JStr (js ''read''))]"
  let ?parent = "\<lparr>occ_id = ''tool:1:1:0'', occ_parent = None, occ_turn = 1, occ_step = 1,
      occ_ordinal = 0, occ_call = wideBatch\<rparr>"
  obtain subs where subs: "batchSubOccurrencesUpTo 26 ?parent = Inr subs" and sub: "occs = ?parent # subs"
    using assms by (auto simp: expandToolCallOccurrencesUpTo_def toolCallOccurrences_def
        toolOccurrenceId_def MAX_SAFE_INTEGER_def decimal_digit rbind_Inr_iff)
  have "batchSubOccurrencesFrom ?parent 0 (replicate 26 (decodeBatchCall ?call)) = Inr subs"
    using subs by (simp add: batchSubOccurrencesUpTo_def wideBatch_def BATCH_TOOL_NAME_def
        decodeBatchCallsUpTo_def)
  from batchSubOccurrencesFrom_Inr [OF this]
  have ids: "map occ_id subs = map (\<lambda>i. ''tool:1:1:0'' @ ''.'' @ decimal i) [0..<26]" by simp
  have "''tool:1:1:0'' @ ''.'' @ decimal 0 \<in> set (map occ_id subs)"
    unfolding ids set_map by (rule imageI) simp
  then have "''tool:1:1:0.0'' \<in> occ_id ` set subs" by (simp add: decimal_digit)
  with sub show ?thesis by auto
qed

lemma wideBatchLog_refused:
  assumes run: "journalRun 26 wideBatchLog journal_start = Inr st"
  shows False
proof -
  let ?intent = "Tool_Call wideIntent" and ?result = "Tool_Result (interruptedResult wideIntent)"
  obtain s3 s4 s5 where
    s3: "journalBodies 26 [Turn_Start 1, Step_Start 1 1, Assistant_Message 1 1 ''r'' [] [wideBatch] None]
      journal_start = Inr s3"
    and s4: "journalStep 26 ?intent s3 = Inr s4" and s5: "journalStep 26 ?result s4 = Inr s5"
    and st: "journalStep 26 (Step_End 1 1 Completed) s5 = Inr st"
    using run by (auto simp: wideBatchLog_def eventAt_def rbind_Inr_iff journalRun_bodies
        simp del: journalStep.simps)
  obtain occs journal ids where
    occs: "expandToolCallOccurrencesUpTo 26 1 1 [wideBatch] = Inr occs"
    and decl: "declareOccurrences occs [] [] = Inr (journal, ids)" and j3: "js_journal s3 = journal"
    using s3 by (auto simp: journal_start_def rbind_Inr_iff)
  have j4: "\<exists>e. js_journal s4 = AList.update ''tool:1:1:0'' e journal"
    using s4 j3 by (auto simp: rbind_Inr_iff wideIntent_def split: if_splits)
  have j5: "\<exists>e. js_journal s5 = AList.update ''tool:1:1:0'' e (js_journal s4)"
    using s5 by (auto simp: rbind_Inr_iff wideIntent_def interruptedResult_def split: if_splits)
  have closed: "js_openStep st = None \<and> js_journal st = js_journal s5"
    using st by (auto split: option.splits if_splits)
  obtain x where x: "x \<in> set occs" "occ_id x = ''tool:1:1:0.0''"
    using wideBatch_first_sub [OF occs] by blast
  have "distinct (map occ_id occs)" using expandToolCallOccurrencesUpTo_Inr [OF occs] by blast
  then have "map_of journal ''tool:1:1:0.0'' =
      Some \<lparr>je_occurrence = x, je_intent = None, je_result = None\<rparr>"
    using declareOccurrences_Inr [OF decl] x find_by_id [of occs "''tool:1:1:0.0''" x] by simp
  with j4 j5 closed have "map_of (js_journal st) ''tool:1:1:0.0'' =
      Some \<lparr>je_occurrence = x, je_intent = None, je_result = None\<rparr>"
    by (auto simp: update_conv')
  then show False
    using no_open_step_settled [OF journal_inv_validated [OF run] conjunct1 [OF closed]]
    unfolding entryUnsettled_def by fastforce
qed

text \<open>The cap on a batch is part of the durable format in both directions: a stored step whose batch
  of twenty-six calls was refused is accepted under the code's cap of twenty-five and refused once
  the cap admits it, because its sub-calls then exist and were never settled.\<close>

theorem raising_batch_cap_breaks_stored_logs:
  "(\<exists>journal. validateToolOccurrenceJournal wideBatchLog = Inr journal) \<and>
   (\<exists>e. validateToolOccurrenceJournalUpTo 26 wideBatchLog = Inl e)"
proof
  show "\<exists>journal. validateToolOccurrenceJournal wideBatchLog = Inr journal"
    by (simp add: wide_defs BATCH_MAX_CALLS_V1_def entryUnsettled_def)
  show "\<exists>e. validateToolOccurrenceJournalUpTo 26 wideBatchLog = Inl e"
    using wideBatchLog_refused
    by (cases "journalRun 26 wideBatchLog journal_start") (auto simp: validateToolOccurrenceJournalUpTo_def)
qed

end
