(* ===== verification/Working_Context.thy ===== *)
theory Working_Context
  imports Turn_History
begin

text \<open>
  The cursor half of the working-context projection (core/durable/working-context.ts): the stored
  conversation head and its decoder, the plan that applies, skips or refuses a batch of events, the
  advance of the head, and the three projections the event log calls. A stored value that is not a
  head is \<open>Not_A_Head\<close>. The page projector the Shell registers is an argument, as in the code;
  without one the head records a cursor only. The lemmas say that a batch is applied exactly when it
  continues the projection, so that a head always counts the events it was given.
\<close>

section \<open>The head\<close>

datatype head_status = Head_Ready | Head_Cursor | Head_Unavailable

record conversation_head =
  ch_schemaVersion :: nat
  ch_session :: string
  ch_epoch :: nat
  ch_nextSeq :: nat
  ch_nextTurn :: nat
  ch_revision :: nat
  ch_projectedThroughSeq :: nat
  ch_chatTurnCount :: nat
  ch_messageBearingChatTurns :: nat
  ch_status :: "head_status option"
  ch_unavailableReason :: "string option"
  ch_openTurn :: "nat option"
  ch_compactionFailures :: nat
  ch_lastFailureThroughTurn :: nat

datatype stored_head = Not_A_Head | Head conversation_head

definition WORKING_CONTEXT_SCHEMA_VERSION_V1 :: nat where "WORKING_CONTEXT_SCHEMA_VERSION_V1 = 1"

definition emptyConversationHeadV1 :: "string \<Rightarrow> conversation_head" where
  "emptyConversationHeadV1 sessionId =
     \<lparr>ch_schemaVersion = WORKING_CONTEXT_SCHEMA_VERSION_V1, ch_session = sessionId, ch_epoch = 1,
      ch_nextSeq = 0, ch_nextTurn = 1, ch_revision = 0, ch_projectedThroughSeq = 0,
      ch_chatTurnCount = 0, ch_messageBearingChatTurns = 0, ch_status = Some Head_Ready,
      ch_unavailableReason = None, ch_openTurn = None, ch_compactionFailures = 0,
      ch_lastFailureThroughTurn = 0\<rparr>"

datatype context_error =
    Head_Corrupt string
  | Projection_Rejected string
  | Projector_Failed string

text \<open>\<open>ch_status = None\<close> is a status that is none of the three.\<close>

definition requireConversationHeadV1 ::
  "stored_head option \<Rightarrow> string \<Rightarrow> context_error + conversation_head option" where
  "requireConversationHeadV1 stored sessionId =
     (case stored of
        None \<Rightarrow> Inr None
      | Some Not_A_Head \<Rightarrow> Inl (Head_Corrupt sessionId)
      | Some (Head head) \<Rightarrow>
          if ch_schemaVersion head \<noteq> WORKING_CONTEXT_SCHEMA_VERSION_V1
             \<or> ch_session head \<noteq> sessionId
             \<or> ch_epoch head > MAX_SAFE_INTEGER \<or> ch_epoch head < 1
             \<or> ch_nextSeq head > MAX_SAFE_INTEGER
             \<or> ch_nextTurn head > MAX_SAFE_INTEGER \<or> ch_nextTurn head < 1
             \<or> ch_projectedThroughSeq head > MAX_SAFE_INTEGER
             \<or> ch_status head = None
          then Inl (Head_Corrupt sessionId)
          else Inr (Some head))"

section \<open>Advancing\<close>

datatype cursor_advance = Replay | Reject string | Apply

definition planCursorAdvanceV1 ::
  "conversation_head option \<Rightarrow> string \<Rightarrow> session_event list \<Rightarrow> nat option \<Rightarrow> cursor_advance" where
  "planCursorAdvanceV1 head sessionId events expectedEpoch =
     (case events of
        [] \<Rightarrow> Replay
      | first # _ \<Rightarrow>
          if \<not> contiguousFrom (seq first) events
          then Reject ''projection batch is not contiguous''
          else case head of
              None \<Rightarrow>
                if seq first \<noteq> 0 then Reject ''projection is missing the events before this batch''
                else Apply
            | Some h \<Rightarrow>
                if expectedEpoch \<noteq> None \<and> expectedEpoch \<noteq> Some (ch_epoch h)
                then Reject ''projection epoch does not match''
                else if ch_status h = Some Head_Unavailable
                then Reject (case ch_unavailableReason h of
                       None \<Rightarrow> ''working context is unavailable'' | Some reason \<Rightarrow> reason)
                else if seq (last events) + 1 \<le> ch_projectedThroughSeq h then Replay
                else if seq first \<noteq> ch_projectedThroughSeq h
                then Reject ''projection gap or overlap''
                else Apply)"

fun advanceHeadStep :: "event_body \<Rightarrow> conversation_head \<Rightarrow> conversation_head" where
  "advanceHeadStep (Turn_Start turn) head =
     head\<lparr>ch_nextTurn := max (ch_nextTurn head) (turn + 1), ch_openTurn := Some turn\<rparr>"
| "advanceHeadStep (Turn_End turn outcome reason) head =
     (if ch_openTurn head = Some turn then head\<lparr>ch_openTurn := None\<rparr> else head)"
| "advanceHeadStep _ head = head"

definition advanceConversationHeadV1 ::
  "conversation_head \<Rightarrow> session_event list \<Rightarrow> conversation_head" where
  "advanceConversationHeadV1 head events =
     foldl (\<lambda>h event. advanceHeadStep (body event) h)
       (head\<lparr>ch_projectedThroughSeq := seq (last events) + 1, ch_nextSeq := seq (last events) + 1,
             ch_revision := ch_revision head + 1\<rparr>)
       events"

section \<open>The projections\<close>

type_synonym head_store = "stored_head kv"

record context_projector =
  pr_append :: "head_store \<Rightarrow> string \<Rightarrow> session_event list \<Rightarrow> nat option \<Rightarrow> context_error + head_store"
  pr_replace :: "head_store \<Rightarrow> string \<Rightarrow> session_event list \<Rightarrow> context_error + head_store"
  pr_truncate :: "head_store \<Rightarrow> string \<Rightarrow> nat \<Rightarrow> context_error + head_store"

definition headIn :: "head_store \<Rightarrow> string \<Rightarrow> context_error + conversation_head option" where
  "headIn heads sessionId =
     requireConversationHeadV1 (kv_get heads (workingContextHeadKeyV1 sessionId)) sessionId"

definition putHead :: "string \<Rightarrow> conversation_head \<Rightarrow> head_store \<Rightarrow> head_store" where
  "putHead sessionId head heads = kv_put (workingContextHeadKeyV1 sessionId) (Head head) heads"

definition writeCursorOnlyV1 ::
  "head_store \<Rightarrow> string \<Rightarrow> session_event list \<Rightarrow> nat option \<Rightarrow> context_error + head_store" where
  "writeCursorOnlyV1 heads sessionId events expectedEpoch =
     rbind (headIn heads sessionId) (\<lambda>existing.
       case planCursorAdvanceV1 existing sessionId events expectedEpoch of
         Replay \<Rightarrow> Inr heads
       | Reject reason \<Rightarrow> Inl (Projection_Rejected reason)
       | Apply \<Rightarrow>
           let base = (case existing of
                 Some h \<Rightarrow> h
               | None \<Rightarrow> (emptyConversationHeadV1 sessionId)\<lparr>ch_status := Some Head_Cursor\<rparr>);
               base' = (if ch_status base = Some Head_Ready
                        then base\<lparr>ch_status := Some Head_Cursor\<rparr> else base)
           in Inr (putHead sessionId
                ((advanceConversationHeadV1 base' events)\<lparr>ch_status := Some Head_Cursor\<rparr>) heads))"

definition projectSessionAppendV1 ::
  "context_projector option \<Rightarrow> head_store \<Rightarrow> string \<Rightarrow> session_event list \<Rightarrow> nat option \<Rightarrow>
   context_error + head_store" where
  "projectSessionAppendV1 projector heads sessionId events expectedEpoch =
     (case projector of
        Some p \<Rightarrow> pr_append p heads sessionId events expectedEpoch
      | None \<Rightarrow> writeCursorOnlyV1 heads sessionId events expectedEpoch)"

definition projectSessionReplaceV1 ::
  "context_projector option \<Rightarrow> head_store \<Rightarrow> string \<Rightarrow> session_event list \<Rightarrow>
   context_error + head_store" where
  "projectSessionReplaceV1 projector heads sessionId events =
     (case projector of
        Some p \<Rightarrow> pr_replace p heads sessionId events
      | None \<Rightarrow>
          let head = (emptyConversationHeadV1 sessionId)
                       \<lparr>ch_status := Some Head_Cursor, ch_epoch := 2\<rparr>
          in Inr (putHead sessionId
               (if events = [] then head else advanceConversationHeadV1 head events) heads))"

definition projectSessionTruncateV1 ::
  "context_projector option \<Rightarrow> head_store \<Rightarrow> string \<Rightarrow> nat \<Rightarrow> context_error + head_store" where
  "projectSessionTruncateV1 projector heads sessionId startSeq =
     (case projector of
        Some p \<Rightarrow> pr_truncate p heads sessionId startSeq
      | None \<Rightarrow>
          rbind (headIn heads sessionId) (\<lambda>existing.
            case existing of
              None \<Rightarrow> Inr heads
            | Some head \<Rightarrow>
                if startSeq \<ge> ch_projectedThroughSeq head then Inr heads
                else Inr (putHead sessionId
                  (head\<lparr>ch_projectedThroughSeq := startSeq, ch_nextSeq := startSeq,
                        ch_revision := ch_revision head + 1, ch_epoch := ch_epoch head + 1,
                        ch_status := Some Head_Cursor\<rparr>) heads)))"

section \<open>Reading the cursor\<close>

datatype cursor_read =
    Cursor_Ready session_cursor conversation_head
  | Cursor_Empty session_cursor
  | Cursor_Unavailable session_cursor string

definition cursorFromHead :: "conversation_head \<Rightarrow> session_cursor" where
  "cursorFromHead head =
     \<lparr>cur_session = ch_session head, cur_epoch = ch_epoch head, cur_nextSeq = ch_nextSeq head,
      cur_nextTurn = ch_nextTurn head\<rparr>"

text \<open>\<open>eventCount\<close> is the count of the log's stored index, \<open>None\<close> when it has none.\<close>

definition readSessionCursorV1 :: "head_store \<Rightarrow> nat option \<Rightarrow> string \<Rightarrow> cursor_read" where
  "readSessionCursorV1 heads eventCount sessionId =
     (let count = (case eventCount of
                     Some n \<Rightarrow> if n \<le> MAX_SAFE_INTEGER then n else 0 | None \<Rightarrow> 0);
          counted = \<lparr>cur_session = sessionId, cur_epoch = 1, cur_nextSeq = count, cur_nextTurn = 1\<rparr>
      in case headIn heads sessionId of
           Inl e \<Rightarrow> Cursor_Unavailable counted
             (''working context head for '' @ [CHR 0x22] @ sessionId @ [CHR 0x22] @ '' is corrupt'')
         | Inr (Some head) \<Rightarrow>
             (case ch_status head of
                Some Head_Ready \<Rightarrow> Cursor_Ready (cursorFromHead head) head
              | Some Head_Cursor \<Rightarrow>
                  Cursor_Unavailable (cursorFromHead head)
                    ''working context pages have not been projected''
              | _ \<Rightarrow> Cursor_Unavailable (cursorFromHead head)
                       (case ch_unavailableReason head of
                          None \<Rightarrow> ''working context is unavailable'' | Some reason \<Rightarrow> reason))
         | Inr None \<Rightarrow>
             if count > 0
             then Cursor_Unavailable counted ''working context projection is missing''
             else Cursor_Empty (cursorFromHead (emptyConversationHeadV1 sessionId)))"

section \<open>The head follows the log\<close>

lemma advanceHeadStep_simps [simp]:
  "ch_projectedThroughSeq (advanceHeadStep b h) = ch_projectedThroughSeq h"
  "ch_nextSeq (advanceHeadStep b h) = ch_nextSeq h"
  "ch_epoch (advanceHeadStep b h) = ch_epoch h"
  "ch_session (advanceHeadStep b h) = ch_session h"
  "ch_schemaVersion (advanceHeadStep b h) = ch_schemaVersion h"
  "ch_status (advanceHeadStep b h) = ch_status h"
  "ch_nextTurn (advanceHeadStep b h) = turnAfter (ch_nextTurn h) b"
  by (cases b; simp)+

lemma advanceHeadFold_simps:
  "ch_projectedThroughSeq (foldl (\<lambda>h event. advanceHeadStep (body event) h) h events) =
     ch_projectedThroughSeq h"
  "ch_nextSeq (foldl (\<lambda>h event. advanceHeadStep (body event) h) h events) = ch_nextSeq h"
  "ch_epoch (foldl (\<lambda>h event. advanceHeadStep (body event) h) h events) = ch_epoch h"
  "ch_session (foldl (\<lambda>h event. advanceHeadStep (body event) h) h events) = ch_session h"
  "ch_schemaVersion (foldl (\<lambda>h event. advanceHeadStep (body event) h) h events) = ch_schemaVersion h"
  "ch_status (foldl (\<lambda>h event. advanceHeadStep (body event) h) h events) = ch_status h"
  "ch_nextTurn (foldl (\<lambda>h event. advanceHeadStep (body event) h) h events) =
     turnAfterAll (ch_nextTurn h) events"
  by (induction events arbitrary: h) simp_all

lemma advanceConversationHeadV1_simps [simp]:
  "ch_projectedThroughSeq (advanceConversationHeadV1 head events) = seq (last events) + 1"
  "ch_nextSeq (advanceConversationHeadV1 head events) = seq (last events) + 1"
  "ch_epoch (advanceConversationHeadV1 head events) = ch_epoch head"
  "ch_session (advanceConversationHeadV1 head events) = ch_session head"
  "ch_schemaVersion (advanceConversationHeadV1 head events) = ch_schemaVersion head"
  "ch_status (advanceConversationHeadV1 head events) = ch_status head"
  "ch_nextTurn (advanceConversationHeadV1 head events) = turnAfterAll (ch_nextTurn head) events"
  by (simp_all add: advanceConversationHeadV1_def advanceHeadFold_simps)

text \<open>A head that counts \<open>n\<close> events of its Session.\<close>

definition head_at :: "string \<Rightarrow> nat \<Rightarrow> conversation_head option \<Rightarrow> bool" where
  "head_at sessionId n head \<longleftrightarrow>
     (case head of
        None \<Rightarrow> n = 0
      | Some h \<Rightarrow> ch_projectedThroughSeq h = n \<and> ch_nextSeq h = n \<and> ch_session h = sessionId \<and>
                  ch_status h \<noteq> Some Head_Unavailable)"

lemma plan_continues:
  assumes "head_at sessionId n head" and "contiguousFrom n events" and "events \<noteq> []"
    and "expectedEpoch = None \<or> head = None \<or> expectedEpoch = map_option ch_epoch head"
  shows "planCursorAdvanceV1 head sessionId events expectedEpoch = Apply"
proof -
  obtain first rest where ev: "events = first # rest" using assms(3) by (cases events) auto
  have "Suc (seq (last events)) = n + length events"
    using contiguousFrom_last [OF assms(2,3)] by simp
  with assms ev show ?thesis
    by (auto simp: planCursorAdvanceV1_def head_at_def split: option.splits)
qed

lemma plan_apply:
  assumes "planCursorAdvanceV1 head sessionId events expectedEpoch = Apply"
  shows "events \<noteq> [] \<and>
    contiguousFrom (case head of None \<Rightarrow> 0 | Some h \<Rightarrow> ch_projectedThroughSeq h) events"
  using assms
  by (auto simp: planCursorAdvanceV1_def split: list.splits option.splits if_splits)

lemma headIn_putHead:
  "headIn (putHead sessionId h heads) sessionId =
     requireConversationHeadV1 (Some (Head h)) sessionId"
  by (simp add: headIn_def putHead_def)

lemma requireConversationHeadV1_Inr:
  "requireConversationHeadV1 stored sessionId = Inr (Some h) \<Longrightarrow>
   stored = Some (Head h) \<and> ch_session h = sessionId \<and> 1 \<le> ch_epoch h \<and> 1 \<le> ch_nextTurn h \<and>
   ch_schemaVersion h = 1"
  by (auto simp: requireConversationHeadV1_def WORKING_CONTEXT_SCHEMA_VERSION_V1_def
      split: option.splits stored_head.splits if_splits)


section \<open>Properties\<close>

lemma write_counted:
  assumes h: "headIn heads sessionId = Inr head" and at_n: "head_at sessionId n head"
    and events: "contiguousFrom n events" "events \<noteq> []"
    and small: "n + length events \<le> MAX_SAFE_INTEGER"
      "turnAfterAll (case head of None \<Rightarrow> 1 | Some h \<Rightarrow> ch_nextTurn h) events \<le> MAX_SAFE_INTEGER"
  shows "\<exists>heads' h. writeCursorOnlyV1 heads sessionId events None = Inr heads' \<and>
    headIn heads' sessionId = Inr (Some h) \<and> head_at sessionId (n + length events) (Some h)"
proof -
  let ?base = "(case head of Some h \<Rightarrow> h
      | None \<Rightarrow> (emptyConversationHeadV1 sessionId)\<lparr>ch_status := Some Head_Cursor\<rparr>)"
  let ?base' = "if ch_status ?base = Some Head_Ready then ?base\<lparr>ch_status := Some Head_Cursor\<rparr> else ?base"
  let ?next = "(advanceConversationHeadV1 ?base' events)\<lparr>ch_status := Some Head_Cursor\<rparr>"
  have last: "seq (last events) + 1 = n + length events"
    using contiguousFrom_last [OF events] by simp
  have base: "ch_session ?base = sessionId \<and> 1 \<le> ch_epoch ?base \<and> ch_epoch ?base \<le> MAX_SAFE_INTEGER
      \<and> 1 \<le> ch_nextTurn ?base \<and> ch_schemaVersion ?base = 1 \<and>
      ch_nextTurn ?base = (case head of None \<Rightarrow> 1 | Some h \<Rightarrow> ch_nextTurn h)"
  proof (cases head)
    case None
    then show ?thesis by (simp add: emptyConversationHeadV1_def WORKING_CONTEXT_SCHEMA_VERSION_V1_def
          MAX_SAFE_INTEGER_def)
  next
    case (Some h)
    then show ?thesis using assms(1)
      by (auto simp: headIn_def requireConversationHeadV1_def WORKING_CONTEXT_SCHEMA_VERSION_V1_def
          split: option.splits stored_head.splits if_splits)
  qed
  have "1 \<le> turnAfterAll (ch_nextTurn ?base) events"
    using base turnAfterAll_mono [of "ch_nextTurn ?base" events] by linarith
  then have req: "requireConversationHeadV1 (Some (Head ?next)) sessionId = Inr (Some ?next)"
    using base last small
    by (auto simp: requireConversationHeadV1_def WORKING_CONTEXT_SCHEMA_VERSION_V1_def)
  have "writeCursorOnlyV1 heads sessionId events None = Inr (putHead sessionId ?next heads)"
    using h plan_continues [OF at_n events, of None]
    by (simp add: writeCursorOnlyV1_def Let_def)
  moreover have "head_at sessionId (n + length events) (Some ?next)"
    using base last by (simp add: head_at_def)
  ultimately show ?thesis using req headIn_putHead by metis
qed

text \<open>The conversation head counts the log: projecting the next contiguous batch succeeds and the
  head then stands after the batch, so a cursor read from it allocates the next sequence number.\<close>

theorem head_counts_appended_events:
  assumes "headIn heads sessionId = Inr head" and "head_at sessionId n head"
    and "contiguousFrom n events" and "events \<noteq> []"
    and "n + length events \<le> MAX_SAFE_INTEGER"
    and "turnAfterAll (case head of None \<Rightarrow> 1 | Some h \<Rightarrow> ch_nextTurn h) events \<le> MAX_SAFE_INTEGER"
  shows "\<exists>heads' h. projectSessionAppendV1 None heads sessionId events None = Inr heads' \<and>
    headIn heads' sessionId = Inr (Some h) \<and> head_at sessionId (n + length events) (Some h)"
  using write_counted [OF assms] by (simp add: projectSessionAppendV1_def)

theorem head_counts_appended_events_witness:
  "\<exists>heads' h. projectSessionAppendV1 None [] ''s'' [eventAt 0 (Turn_Start 1), eventAt 1 (Step_Start 1 1)] None
     = Inr heads' \<and> headIn heads' ''s'' = Inr (Some h) \<and> head_at ''s'' 2 (Some h)"
  using head_counts_appended_events [of "[]" "''s''" None 0
      "[eventAt 0 (Turn_Start 1), eventAt 1 (Step_Start 1 1)]"]
  by (simp add: headIn_def requireConversationHeadV1_def head_at_def eventAt_def MAX_SAFE_INTEGER_def numeral_2_eq_2)

text \<open>A gap or an overlap never reaches the head: when a projection succeeds, either nothing was
  written or the batch starts exactly where the projection ends, and a batch that ends inside the
  projection writes nothing.\<close>

theorem projection_refuses_gaps:
  assumes "headIn heads sessionId = Inr head"
    and "projectSessionAppendV1 None heads sessionId events expectedEpoch = Inr heads'"
  shows "heads' = heads \<or>
    contiguousFrom (case head of None \<Rightarrow> 0 | Some h \<Rightarrow> ch_projectedThroughSeq h) events"
proof (cases "planCursorAdvanceV1 head sessionId events expectedEpoch")
  case Apply
  with plan_apply [OF Apply] show ?thesis by blast
qed (use assms in \<open>auto simp: projectSessionAppendV1_def writeCursorOnlyV1_def\<close>)

theorem projection_refuses_gaps_witness:
  "projectSessionAppendV1 None [] ''s'' [eventAt 3 (Turn_Start 1)] None \<noteq>
     Inr (putHead ''s'' (emptyConversationHeadV1 ''s'') [])"
  using projection_refuses_gaps [of "[]" "''s''" None "[eventAt 3 (Turn_Start 1)]" None
      "putHead ''s'' (emptyConversationHeadV1 ''s'') []"]
  by (auto simp: headIn_def requireConversationHeadV1_def eventAt_def putHead_def)

end
