(* ===== verification/Run_Origins.thy ===== *)
theory Run_Origins
  imports Working_Context
begin

text \<open>
  What a stored run says of its admission (core/durable/run-records.ts): the lane, what produced the
  Turn and what its spending is charged to, with the exact decoders that read them back from storage,
  and the effect admissions a run carries. A decoder takes a JSON value and refuses a field too many,
  a field too few and a value out of bounds. The encoders write the fields in the order the decoders
  rebuild them. The lemmas say that a value within its bounds survives being stored.
\<close>

section \<open>Lanes, triggers, causes and origins\<close>

datatype run_lane = Lane_User | Lane_Agent | Lane_Background

definition defaultRunLaneV1 :: "turn_type \<Rightarrow> run_lane" where
  "defaultRunLaneV1 turnType =
     (if turnType = Chat then Lane_User
      else if turnType = Agent then Lane_Agent else Lane_Background)"

datatype run_trigger = Cron | Webhook | Manual | Connection

datatype cause_kind = Cause_Chat | Cause_Routine | Cause_Group | Cause_Voice | Cause_Email

record run_cause =
  ca_kind :: cause_kind
  ca_botId :: jstr
  ca_id :: "jstr option"
  ca_label :: "jstr option"
  ca_trigger :: "run_trigger option"

datatype prompt_writer = By_User | By_Bot

datatype group_reason = Reason_Mention | Reason_Continue | Reason_Retry | Reason_Jev

record group_member =
  gm_botId :: jstr
  gm_name :: jstr

datatype run_origin =
    Routine_Origin jstr jstr run_trigger "prompt_writer option"
  | Subagent_Origin jstr jstr "run_cause option"
  | Handoff_Origin jstr nat
  | Bot_Origin jstr jstr jstr "run_cause option"
  | Voice_Origin jstr jstr jstr
  | Delivery_Origin jstr bool
  | Group_Origin jstr jstr "group_member list" nat group_reason
  | Input_Delivery_Origin jstr
  | Email_Origin jstr bool

definition STORED_RUN_HANDOFF_MAX_DEPTH :: nat where "STORED_RUN_HANDOFF_MAX_DEPTH = 1"

record run_admission =
  ad_turnType :: turn_type
  ad_lane :: "run_lane option"
  ad_subagentRole :: "jstr option"
  ad_origin :: "run_origin option"

section \<open>Names in storage\<close>

text \<open>\<open>CONST.find((value) => value === candidate)\<close> over the names of an enumeration.\<close>

definition named :: "('a \<times> string) list \<Rightarrow> json option \<Rightarrow> 'a option" where
  "named table value =
     (case value of
        Some (JStr s) \<Rightarrow> map_option fst (find (\<lambda>(a, name). js name = s) table)
      | _ \<Rightarrow> None)"

definition nameOf :: "('a \<times> string) list \<Rightarrow> 'a \<Rightarrow> json" where
  "nameOf table a = (case map_of table a of Some name \<Rightarrow> JStr (js name) | None \<Rightarrow> JNull)"

definition STORED_RUN_ORIGIN_TRIGGERS :: "(run_trigger \<times> string) list" where
  "STORED_RUN_ORIGIN_TRIGGERS =
     [(Cron, ''cron''), (Webhook, ''webhook''), (Manual, ''manual''), (Connection, ''connection'')]"

definition STORED_RUN_CAUSE_KINDS :: "(cause_kind \<times> string) list" where
  "STORED_RUN_CAUSE_KINDS =
     [(Cause_Chat, ''chat''), (Cause_Routine, ''routine''), (Cause_Group, ''group''),
      (Cause_Voice, ''voice''), (Cause_Email, ''email'')]"

definition RUN_LANES_V1 :: "(run_lane \<times> string) list" where
  "RUN_LANES_V1 =
     [(Lane_User, ''user''), (Lane_Agent, ''agent''), (Lane_Background, ''background'')]"

definition TURN_TYPES_V1 :: "(turn_type \<times> string) list" where
  "TURN_TYPES_V1 =
     [(Chat, ''chat''), (Agent, ''agent''), (Automation, ''automation''), (Subagent, ''subagent'')]"

definition PROMPT_WRITERS :: "(prompt_writer \<times> string) list" where
  "PROMPT_WRITERS = [(By_User, ''user''), (By_Bot, ''bot'')]"

definition GROUP_REASONS :: "(group_reason \<times> string) list" where
  "GROUP_REASONS =
     [(Reason_Mention, ''mention''), (Reason_Continue, ''continue''), (Reason_Retry, ''retry''),
      (Reason_Jev, ''jev'')]"

section \<open>Reading fields\<close>

datatype record_error =
    Origin_Fields_Invalid
  | Origin_Invalid
  | Origin_Id_Invalid
  | Origin_Depth_Invalid
  | Origin_Kind_Invalid
  | Origin_Trigger_Invalid
  | Origin_Writer_Invalid
  | Origin_Cause_Invalid
  | Admission_Invalid
  | Admission_Fields_Invalid
  | Admission_Turn_Type_Invalid
  | Admission_Lane_Invalid
  | Admission_Role_Invalid
  | Effects_Invalid
  | Effect_Invalid
  | Effect_Fields_Invalid
  | Effect_Kind_Invalid
  | Effect_Id_Invalid
  | Effect_Outcome_Invalid
  | Effects_Colliding

fun memberKeys :: "json \<Rightarrow> string list" where
  "memberKeys (JObj members) = map fst members"
| "memberKeys _ = []"

definition hasField :: "json \<Rightarrow> string \<Rightarrow> bool" where
  "hasField candidate key \<longleftrightarrow> key \<in> set (memberKeys candidate)"

text \<open>A bounded, non-empty string field.\<close>

definition boundedField :: "json \<Rightarrow> string \<Rightarrow> nat \<Rightarrow> jstr option" where
  "boundedField candidate key maximum =
     (case jget candidate key of
        Some (JStr s) \<Rightarrow> if boundedString s maximum False then Some s else None
      | _ \<Rightarrow> None)"

definition textField :: "json \<Rightarrow> string \<Rightarrow> jstr option" where
  "textField candidate key =
     (case jget candidate key of Some (JStr s) \<Rightarrow> Some s | _ \<Rightarrow> None)"

text \<open>A number that is a safe natural: its text is the one \<open>String(n)\<close> gives.\<close>

definition safeNat :: "json option \<Rightarrow> nat option" where
  "safeNat value =
     (case value of
        Some (JNum t) \<Rightarrow>
          if t = decimal (parseDecimal t) \<and> parseDecimal t \<le> MAX_SAFE_INTEGER
          then Some (parseDecimal t) else None
      | _ \<Rightarrow> None)"

definition kindIs :: "json \<Rightarrow> string \<Rightarrow> bool" where
  "kindIs candidate kind \<longleftrightarrow> jget candidate ''kind'' = Some (JStr (js kind))"

definition requireExactOriginFields :: "json \<Rightarrow> string list \<Rightarrow> record_error + unit" where
  "requireExactOriginFields candidate names =
     rguard (length (memberKeys candidate) = length names \<and> list_all (hasField candidate) names)
       Origin_Fields_Invalid"

text \<open>The value of an option, or an error.\<close>

definition need :: "'e \<Rightarrow> 'a option \<Rightarrow> 'e + 'a" where
  "need e x = (case x of None \<Rightarrow> Inl e | Some a \<Rightarrow> Inr a)"

section \<open>Causes\<close>

definition causeField :: "json \<Rightarrow> string list" where
  "causeField candidate = (if hasField candidate ''cause'' then [''cause''] else [])"

definition decodeStoredRunCauseV1 :: "json \<Rightarrow> record_error + run_cause" where
  "decodeStoredRunCauseV1 value =
     (if \<not> isRecord value then Inl Origin_Cause_Invalid
      else if list_ex (\<lambda>key. key \<notin> set [''kind'', ''botId'', ''id'', ''label'', ''trigger''])
                (memberKeys value) then Inl Origin_Cause_Invalid
      else
        let kind = named STORED_RUN_CAUSE_KINDS (jget value ''kind'');
            trigger = named STORED_RUN_ORIGIN_TRIGGERS (jget value ''trigger'')
        in if kind = None
              \<or> boundedField value ''botId'' 128 = None
              \<or> (hasField value ''id'' \<and> boundedField value ''id'' 256 = None)
              \<or> (hasField value ''label'' \<and> boundedField value ''label'' 1000 = None)
              \<or> (hasField value ''trigger'' \<and> trigger = None)
           then Inl Origin_Cause_Invalid
           else Inr \<lparr>ca_kind = the kind, ca_botId = the (textField value ''botId''),
                  ca_id = textField value ''id'', ca_label = textField value ''label'',
                  ca_trigger = trigger\<rparr>)"

definition decodeCauseField :: "json \<Rightarrow> record_error + run_cause option" where
  "decodeCauseField candidate =
     (case jget candidate ''cause'' of
        None \<Rightarrow> Inr None
      | Some value \<Rightarrow> rbind (decodeStoredRunCauseV1 value) (\<lambda>cause. Inr (Some cause)))"

section \<open>Origins\<close>

definition decodeSubagentOrigin :: "json \<Rightarrow> record_error + run_origin" where
  "decodeSubagentOrigin c =
     rbind (requireExactOriginFields c ([''kind'', ''taskId'', ''parentRunId''] @ causeField c)) (\<lambda>_.
     rbind (need Origin_Id_Invalid (boundedField c ''taskId'' 256)) (\<lambda>taskId.
     rbind (need Origin_Id_Invalid (boundedField c ''parentRunId'' 256)) (\<lambda>parentRunId.
     rbind (decodeCauseField c) (\<lambda>cause. Inr (Subagent_Origin taskId parentRunId cause)))))"

definition decodeHandoffOrigin :: "json \<Rightarrow> record_error + run_origin" where
  "decodeHandoffOrigin c =
     rbind (requireExactOriginFields c [''kind'', ''parentRunId'', ''depth'']) (\<lambda>_.
     rbind (need Origin_Id_Invalid (boundedField c ''parentRunId'' 128)) (\<lambda>parentRunId.
     rbind (need Origin_Depth_Invalid (safeNat (jget c ''depth''))) (\<lambda>depth.
     if depth < 1 \<or> depth > STORED_RUN_HANDOFF_MAX_DEPTH then Inl Origin_Depth_Invalid
     else Inr (Handoff_Origin parentRunId depth))))"

definition decodeBotOrigin :: "json \<Rightarrow> record_error + run_origin" where
  "decodeBotOrigin c =
     rbind (requireExactOriginFields c
       ([''kind'', ''fromBotId'', ''fromBotName'', ''messageId''] @ causeField c)) (\<lambda>_.
     rbind (need Origin_Invalid (boundedField c ''fromBotId'' 128)) (\<lambda>fromBotId.
     rbind (need Origin_Invalid (boundedField c ''fromBotName'' 100)) (\<lambda>fromBotName.
     rbind (need Origin_Invalid (boundedField c ''messageId'' 256)) (\<lambda>messageId.
     rbind (decodeCauseField c) (\<lambda>cause.
     Inr (Bot_Origin fromBotId fromBotName messageId cause))))))"

definition decodeGroupMember :: "json \<Rightarrow> record_error + group_member" where
  "decodeGroupMember m =
     rbind (rguard (isRecord m) Origin_Invalid) (\<lambda>_.
     rbind (requireExactOriginFields m [''botId'', ''name'']) (\<lambda>_.
     rbind (need Origin_Invalid (boundedField m ''botId'' 128)) (\<lambda>botId.
     rbind (need Origin_Invalid (boundedField m ''name'' 100)) (\<lambda>name.
     Inr \<lparr>gm_botId = botId, gm_name = name\<rparr>))))"

fun traverse :: "('a \<Rightarrow> 'e + 'b) \<Rightarrow> 'a list \<Rightarrow> 'e + 'b list" where
  "traverse f [] = Inr []"
| "traverse f (x # xs) = rbind (f x) (\<lambda>y. rbind (traverse f xs) (\<lambda>ys. Inr (y # ys)))"

definition decodeGroupOrigin :: "json \<Rightarrow> record_error + run_origin" where
  "decodeGroupOrigin c =
     rbind (requireExactOriginFields c
       [''kind'', ''groupId'', ''groupName'', ''members'', ''throughSeq'', ''reason'']) (\<lambda>_.
     rbind (need Origin_Invalid (boundedField c ''groupId'' 128)) (\<lambda>groupId.
     rbind (need Origin_Invalid (boundedField c ''groupName'' 1000)) (\<lambda>groupName.
     rbind (need Origin_Invalid
       (case jget c ''members'' of
          Some (JArr ms) \<Rightarrow> if length ms = 0 \<or> length ms > 8 then None else Some ms
        | _ \<Rightarrow> None)) (\<lambda>members.
     rbind (need Origin_Invalid (safeNat (jget c ''throughSeq''))) (\<lambda>throughSeq.
     rbind (need Origin_Invalid (named GROUP_REASONS (jget c ''reason''))) (\<lambda>reason.
     rbind (traverse decodeGroupMember members) (\<lambda>ms.
     Inr (Group_Origin groupId groupName ms throughSeq reason))))))))"

definition decodeVoiceOrigin :: "json \<Rightarrow> record_error + run_origin" where
  "decodeVoiceOrigin c =
     rbind (requireExactOriginFields c [''kind'', ''callId'', ''voiceTurnId'', ''requestId'']) (\<lambda>_.
     rbind (need Origin_Id_Invalid (boundedField c ''callId'' 128)) (\<lambda>callId.
     rbind (need Origin_Id_Invalid (boundedField c ''voiceTurnId'' 256)) (\<lambda>voiceTurnId.
     rbind (need Origin_Id_Invalid (boundedField c ''requestId'' 128)) (\<lambda>requestId.
     Inr (Voice_Origin callId voiceTurnId requestId)))))"

text \<open>The optional \<open>quiet: true\<close> of an email or delivery origin.\<close>

definition quietField :: "json \<Rightarrow> string list" where
  "quietField c = (if jget c ''quiet'' = None then [] else [''quiet''])"

definition quietOf :: "json \<Rightarrow> bool option" where
  "quietOf c =
     (case jget c ''quiet'' of
        None \<Rightarrow> Some False | Some v \<Rightarrow> if v = JBool True then Some True else None)"

definition addressUnit :: "16 word \<Rightarrow> bool" where
  "addressUnit u \<longleftrightarrow> (0x21 \<le> u \<and> u \<le> 0x3B) \<or> u = 0x3D \<or> (0x3F \<le> u \<and> u \<le> 0x7E)"

definition decodeEmailOrigin :: "json \<Rightarrow> record_error + run_origin" where
  "decodeEmailOrigin c =
     rbind (requireExactOriginFields c ([''kind'', ''messageId''] @ quietField c)) (\<lambda>_.
     rbind (need Origin_Id_Invalid (boundedField c ''messageId'' 250)) (\<lambda>messageId.
     if \<not> list_all addressUnit messageId then Inl Origin_Id_Invalid
     else rbind (need Origin_Id_Invalid (quietOf c)) (\<lambda>quiet.
       Inr (Email_Origin messageId quiet))))"

definition decodeDeliveryOrigin :: "json \<Rightarrow> record_error + run_origin" where
  "decodeDeliveryOrigin c =
     rbind (requireExactOriginFields c ([''kind'', ''wakeRunId''] @ quietField c)) (\<lambda>_.
     rbind (need Origin_Id_Invalid (boundedField c ''wakeRunId'' 256)) (\<lambda>wakeRunId.
     rbind (need Origin_Id_Invalid (quietOf c)) (\<lambda>quiet.
     Inr (Delivery_Origin wakeRunId quiet))))"

definition decodeInputDeliveryOrigin :: "json \<Rightarrow> record_error + run_origin" where
  "decodeInputDeliveryOrigin c =
     rbind (requireExactOriginFields c [''kind'', ''inputId'']) (\<lambda>_.
     rbind (need Origin_Id_Invalid (boundedField c ''inputId'' 512)) (\<lambda>inputId.
     Inr (Input_Delivery_Origin inputId)))"

definition decodeRoutineOrigin :: "json \<Rightarrow> record_error + run_origin" where
  "decodeRoutineOrigin c =
     (let promptBy = named PROMPT_WRITERS (jget c ''promptBy'') in
     rbind (requireExactOriginFields c ([''kind'', ''routineId'', ''fireId'', ''trigger'']
       @ (if hasField c ''promptBy'' then [''promptBy''] else []))) (\<lambda>_.
     if hasField c ''promptBy'' \<and> promptBy = None then Inl Origin_Writer_Invalid
     else rbind (need Origin_Trigger_Invalid
       (named STORED_RUN_ORIGIN_TRIGGERS (jget c ''trigger''))) (\<lambda>trigger.
     rbind (need Origin_Id_Invalid (boundedField c ''routineId'' 256)) (\<lambda>routineId.
     rbind (need Origin_Id_Invalid (boundedField c ''fireId'' 256)) (\<lambda>fireId.
     Inr (Routine_Origin routineId fireId trigger promptBy))))))"

definition decodeStoredRunOrigin :: "json \<Rightarrow> record_error + run_origin" where
  "decodeStoredRunOrigin c =
     (if \<not> isRecord c then Inl Origin_Invalid
      else if kindIs c ''subagent'' then decodeSubagentOrigin c
      else if kindIs c ''handoff'' then decodeHandoffOrigin c
      else if kindIs c ''bot'' then decodeBotOrigin c
      else if kindIs c ''group'' then decodeGroupOrigin c
      else if kindIs c ''voice'' then decodeVoiceOrigin c
      else if kindIs c ''email'' then decodeEmailOrigin c
      else if kindIs c ''routine-delivery'' then decodeDeliveryOrigin c
      else if kindIs c ''input-delivery'' then decodeInputDeliveryOrigin c
      else if \<not> kindIs c ''routine'' then Inl Origin_Kind_Invalid
      else decodeRoutineOrigin c)"

section \<open>Admissions\<close>

definition STORED_RUN_SUBAGENT_ROLE_MAX :: nat where "STORED_RUN_SUBAGENT_ROLE_MAX = 64"

text \<open>The white space \<open>trim\<close> removes.\<close>

definition spaceUnit :: "16 word \<Rightarrow> bool" where
  "spaceUnit u \<longleftrightarrow> u \<in> set [9, 10, 11, 12, 13, 32, 0xA0, 0x1680, 0x2028, 0x2029, 0x202F, 0x205F,
     0x3000, 0xFEFF] \<or> (0x2000 \<le> u \<and> u \<le> 0x200A)"

definition validRole :: "jstr \<Rightarrow> bool" where
  "validRole role \<longleftrightarrow>
     \<not> list_all spaceUnit role \<and> length role \<le> STORED_RUN_SUBAGENT_ROLE_MAX"

definition decodeStoredRunAdmission :: "json \<Rightarrow> record_error + run_admission" where
  "decodeStoredRunAdmission value =
     (if \<not> isRecord value then Inl Admission_Invalid
      else if list_ex (\<lambda>key. key \<notin> set [''schemaVersion'', ''turnType'', ''lane'', ''subagentRole'', ''origin''])
                (memberKeys value)
              \<or> \<not> hasField value ''schemaVersion'' \<or> \<not> hasField value ''turnType''
              \<or> jget value ''schemaVersion'' \<noteq> Some (JNum ''1'')
      then Inl Admission_Fields_Invalid
      else
        rbind (need Admission_Turn_Type_Invalid (named TURN_TYPES_V1 (jget value ''turnType''))) (\<lambda>turnType.
        let lane = named RUN_LANES_V1 (jget value ''lane'') in
        if hasField value ''lane'' \<and> lane = None then Inl Admission_Lane_Invalid
        else let role = textField value ''subagentRole'' in
        if hasField value ''subagentRole''
           \<and> (case role of None \<Rightarrow> True | Some r \<Rightarrow> \<not> validRole r)
        then Inl Admission_Role_Invalid
        else case jget value ''origin'' of
            None \<Rightarrow> Inr \<lparr>ad_turnType = turnType, ad_lane = lane, ad_subagentRole = role,
                        ad_origin = None\<rparr>
          | Some o' \<Rightarrow> rbind (decodeStoredRunOrigin o') (\<lambda>origin.
              Inr \<lparr>ad_turnType = turnType, ad_lane = lane, ad_subagentRole = role,
                   ad_origin = Some origin\<rparr>)))"

section \<open>Effect admissions\<close>

datatype effect_kind = Effect_Model | Effect_Tool
datatype effect_outcome = Effect_Admitted | Effect_Admitted_Once | Effect_Fenced

record effect_admission =
  ea_kind :: effect_kind
  ea_effectId :: jstr
  ea_outcome :: effect_outcome

definition STORED_EFFECT_ADMISSIONS_MAX :: nat where "STORED_EFFECT_ADMISSIONS_MAX = 256"
definition STORED_EFFECT_ID_MAX_BYTES :: nat where "STORED_EFFECT_ID_MAX_BYTES = 512"

definition EFFECT_KINDS :: "(effect_kind \<times> string) list" where
  "EFFECT_KINDS = [(Effect_Model, ''model''), (Effect_Tool, ''tool'')]"

definition EFFECT_OUTCOMES :: "(effect_outcome \<times> string) list" where
  "EFFECT_OUTCOMES =
     [(Effect_Admitted, ''admitted''), (Effect_Admitted_Once, ''admitted-once''),
      (Effect_Fenced, ''fenced'')]"

definition decodeEffectAdmission :: "json \<Rightarrow> record_error + effect_admission" where
  "decodeEffectAdmission entry =
     rbind (rguard (isRecord entry) Effect_Invalid) (\<lambda>_.
     rbind (rguard (length (memberKeys entry) = 3
              \<and> list_all (hasField entry) [''kind'', ''effectId'', ''outcome'']) Effect_Fields_Invalid) (\<lambda>_.
     rbind (need Effect_Kind_Invalid (named EFFECT_KINDS (jget entry ''kind''))) (\<lambda>kind.
     rbind (need Effect_Id_Invalid (boundedField entry ''effectId'' STORED_EFFECT_ID_MAX_BYTES)) (\<lambda>effectId.
     rbind (need Effect_Outcome_Invalid (named EFFECT_OUTCOMES (jget entry ''outcome''))) (\<lambda>outcome.
     Inr \<lparr>ea_kind = kind, ea_effectId = effectId, ea_outcome = outcome\<rparr>)))))"

fun decodeEffectsFrom :: "jstr list \<Rightarrow> json list \<Rightarrow> record_error + effect_admission list" where
  "decodeEffectsFrom effectIds [] = Inr []"
| "decodeEffectsFrom effectIds (entry # entries) =
     rbind (decodeEffectAdmission entry) (\<lambda>effect.
     if ea_effectId effect \<in> set effectIds then Inl Effects_Colliding
     else rbind (decodeEffectsFrom (ea_effectId effect # effectIds) entries) (\<lambda>rest.
       Inr (effect # rest)))"

definition decodeStoredEffectAdmissions :: "json \<Rightarrow> record_error + effect_admission list" where
  "decodeStoredEffectAdmissions value =
     (case value of
        JArr entries \<Rightarrow>
          if length entries > STORED_EFFECT_ADMISSIONS_MAX then Inl Effects_Invalid
          else decodeEffectsFrom [] entries
      | _ \<Rightarrow> Inl Effects_Invalid)"

section \<open>Writing them\<close>

definition optField :: "string \<Rightarrow> json option \<Rightarrow> (string \<times> json) list" where
  "optField key value = (case value of None \<Rightarrow> [] | Some v \<Rightarrow> [(key, v)])"

definition causeJson :: "run_cause \<Rightarrow> json" where
  "causeJson c = JObj
     ([(''kind'', nameOf STORED_RUN_CAUSE_KINDS (ca_kind c)), (''botId'', JStr (ca_botId c))]
      @ optField ''id'' (map_option JStr (ca_id c)) @ optField ''label'' (map_option JStr (ca_label c))
      @ optField ''trigger'' (map_option (nameOf STORED_RUN_ORIGIN_TRIGGERS) (ca_trigger c)))"

definition quietJson :: "bool \<Rightarrow> (string \<times> json) list" where
  "quietJson quiet = (if quiet then [(''quiet'', JBool True)] else [])"

definition memberJson :: "group_member \<Rightarrow> json" where
  "memberJson m = JObj [(''botId'', JStr (gm_botId m)), (''name'', JStr (gm_name m))]"

definition kindJson :: "string \<Rightarrow> string \<times> json" where
  "kindJson kind = (''kind'', JStr (js kind))"

fun originJson :: "run_origin \<Rightarrow> json" where
  "originJson (Routine_Origin routineId fireId trigger promptBy) = JObj
     ([kindJson ''routine'', (''routineId'', JStr routineId), (''fireId'', JStr fireId),
       (''trigger'', nameOf STORED_RUN_ORIGIN_TRIGGERS trigger)]
      @ optField ''promptBy'' (map_option (nameOf PROMPT_WRITERS) promptBy))"
| "originJson (Subagent_Origin taskId parentRunId cause) = JObj
     ([kindJson ''subagent'', (''taskId'', JStr taskId), (''parentRunId'', JStr parentRunId)]
      @ optField ''cause'' (map_option causeJson cause))"
| "originJson (Handoff_Origin parentRunId depth) = JObj
     [kindJson ''handoff'', (''parentRunId'', JStr parentRunId), (''depth'', JNum (decimal depth))]"
| "originJson (Bot_Origin fromBotId fromBotName messageId cause) = JObj
     ([kindJson ''bot'', (''fromBotId'', JStr fromBotId), (''fromBotName'', JStr fromBotName),
       (''messageId'', JStr messageId)] @ optField ''cause'' (map_option causeJson cause))"
| "originJson (Voice_Origin callId voiceTurnId requestId) = JObj
     [kindJson ''voice'', (''callId'', JStr callId), (''voiceTurnId'', JStr voiceTurnId),
      (''requestId'', JStr requestId)]"
| "originJson (Delivery_Origin wakeRunId quiet) = JObj
     ([kindJson ''routine-delivery'', (''wakeRunId'', JStr wakeRunId)] @ quietJson quiet)"
| "originJson (Group_Origin groupId groupName members throughSeq reason) = JObj
     [kindJson ''group'', (''groupId'', JStr groupId), (''groupName'', JStr groupName),
      (''members'', JArr (map memberJson members)), (''throughSeq'', JNum (decimal throughSeq)),
      (''reason'', nameOf GROUP_REASONS reason)]"
| "originJson (Input_Delivery_Origin inputId) = JObj
     [kindJson ''input-delivery'', (''inputId'', JStr inputId)]"
| "originJson (Email_Origin messageId quiet) = JObj
     ([kindJson ''email'', (''messageId'', JStr messageId)] @ quietJson quiet)"

definition admissionJson :: "run_admission \<Rightarrow> json" where
  "admissionJson a = JObj
     ([(''schemaVersion'', JNum ''1''), (''turnType'', nameOf TURN_TYPES_V1 (ad_turnType a))]
      @ optField ''lane'' (map_option (nameOf RUN_LANES_V1) (ad_lane a))
      @ optField ''subagentRole'' (map_option JStr (ad_subagentRole a))
      @ optField ''origin'' (map_option originJson (ad_origin a)))"

definition effectJson :: "effect_admission \<Rightarrow> json" where
  "effectJson e = JObj
     [(''kind'', nameOf EFFECT_KINDS (ea_kind e)), (''effectId'', JStr (ea_effectId e)),
      (''outcome'', nameOf EFFECT_OUTCOMES (ea_outcome e))]"

section \<open>Bounds\<close>

definition within :: "nat \<Rightarrow> jstr \<Rightarrow> bool" where
  "within n s \<longleftrightarrow> boundedString s n False"

definition causeBounded :: "run_cause \<Rightarrow> bool" where
  "causeBounded c \<longleftrightarrow> within 128 (ca_botId c) \<and> pred_option (within 256) (ca_id c) \<and>
     pred_option (within 1000) (ca_label c)"

fun originBounded :: "run_origin \<Rightarrow> bool" where
  "originBounded (Routine_Origin routineId fireId trigger promptBy) =
     (within 256 routineId \<and> within 256 fireId)"
| "originBounded (Subagent_Origin taskId parentRunId cause) =
     (within 256 taskId \<and> within 256 parentRunId \<and> pred_option causeBounded cause)"
| "originBounded (Handoff_Origin parentRunId depth) = (within 128 parentRunId \<and> depth = 1)"
| "originBounded (Bot_Origin fromBotId fromBotName messageId cause) =
     (within 128 fromBotId \<and> within 100 fromBotName \<and> within 256 messageId \<and>
      pred_option causeBounded cause)"
| "originBounded (Voice_Origin callId voiceTurnId requestId) =
     (within 128 callId \<and> within 256 voiceTurnId \<and> within 128 requestId)"
| "originBounded (Delivery_Origin wakeRunId quiet) = within 256 wakeRunId"
| "originBounded (Group_Origin groupId groupName members throughSeq reason) =
     (within 128 groupId \<and> within 1000 groupName \<and> members \<noteq> [] \<and> length members \<le> 8 \<and>
      list_all (\<lambda>m. within 128 (gm_botId m) \<and> within 100 (gm_name m)) members \<and>
      throughSeq \<le> MAX_SAFE_INTEGER)"
| "originBounded (Input_Delivery_Origin inputId) = within 512 inputId"
| "originBounded (Email_Origin messageId quiet) =
     (within 250 messageId \<and> list_all addressUnit messageId)"

definition admissionBounded :: "run_admission \<Rightarrow> bool" where
  "admissionBounded a \<longleftrightarrow> pred_option validRole (ad_subagentRole a) \<and>
     pred_option originBounded (ad_origin a)"

section \<open>What is stored is read back\<close>

lemma named_nameOf:
  "named STORED_RUN_ORIGIN_TRIGGERS (Some (nameOf STORED_RUN_ORIGIN_TRIGGERS t)) = Some t"
  "named STORED_RUN_CAUSE_KINDS (Some (nameOf STORED_RUN_CAUSE_KINDS k)) = Some k"
  "named RUN_LANES_V1 (Some (nameOf RUN_LANES_V1 l)) = Some l"
  "named TURN_TYPES_V1 (Some (nameOf TURN_TYPES_V1 y)) = Some y"
  "named PROMPT_WRITERS (Some (nameOf PROMPT_WRITERS w)) = Some w"
  "named GROUP_REASONS (Some (nameOf GROUP_REASONS r)) = Some r"
  "named EFFECT_KINDS (Some (nameOf EFFECT_KINDS ek)) = Some ek"
  "named EFFECT_OUTCOMES (Some (nameOf EFFECT_OUTCOMES eo)) = Some eo"
proof -
  show "named STORED_RUN_ORIGIN_TRIGGERS (Some (nameOf STORED_RUN_ORIGIN_TRIGGERS t)) = Some t"
    by (cases t) (simp_all add: named_def nameOf_def STORED_RUN_ORIGIN_TRIGGERS_def del: js_simps)
  show "named STORED_RUN_CAUSE_KINDS (Some (nameOf STORED_RUN_CAUSE_KINDS k)) = Some k"
    by (cases k) (simp_all add: named_def nameOf_def STORED_RUN_CAUSE_KINDS_def del: js_simps)
  show "named RUN_LANES_V1 (Some (nameOf RUN_LANES_V1 l)) = Some l"
    by (cases l) (simp_all add: named_def nameOf_def RUN_LANES_V1_def del: js_simps)
  show "named TURN_TYPES_V1 (Some (nameOf TURN_TYPES_V1 y)) = Some y"
    by (cases y) (simp_all add: named_def nameOf_def TURN_TYPES_V1_def del: js_simps)
  show "named PROMPT_WRITERS (Some (nameOf PROMPT_WRITERS w)) = Some w"
    by (cases w) (simp_all add: named_def nameOf_def PROMPT_WRITERS_def del: js_simps)
  show "named GROUP_REASONS (Some (nameOf GROUP_REASONS r)) = Some r"
    by (cases r) (simp_all add: named_def nameOf_def GROUP_REASONS_def del: js_simps)
  show "named EFFECT_KINDS (Some (nameOf EFFECT_KINDS ek)) = Some ek"
    by (cases ek) (simp_all add: named_def nameOf_def EFFECT_KINDS_def del: js_simps)
  show "named EFFECT_OUTCOMES (Some (nameOf EFFECT_OUTCOMES eo)) = Some eo"
    by (cases eo) (simp_all add: named_def nameOf_def EFFECT_OUTCOMES_def del: js_simps)
qed

lemma named_None [simp]: "named table None = None"
  by (simp add: named_def)

lemma jget_Cons [simp]:
  "jget (JObj ((k, v) # ms)) key = (if k = key then Some v else jget (JObj ms) key)"
  by simp

lemma jget_optField [simp]:
  "jget (JObj (optField k v @ ms)) key =
     (if k = key \<and> v \<noteq> None then v else jget (JObj ms) key)"
  "jget (JObj (optField k v)) key = (if k = key then v else None)"
  by (auto simp: optField_def split: option.splits)

lemma jget_quiet [simp]:
  "jget (JObj (quietJson q)) key = (if key = ''quiet'' \<and> q then Some (JBool True) else None)"
  by (simp add: quietJson_def)

lemma safeNat_decimal [simp]: "safeNat (Some (JNum (decimal n))) = (if n \<le> MAX_SAFE_INTEGER then Some n else None)"
  by (simp add: safeNat_def parseDecimal_decimal)

lemmas field_defs = boundedField_def textField_def hasField_def kindIs_def requireExactOriginFields_def
  rguard_def need_def within_def

lemma cause_round_trip:
  "causeBounded c \<Longrightarrow> decodeStoredRunCauseV1 (causeJson c) = Inr c"
  by (cases c; cases "ca_id c"; cases "ca_label c"; cases "ca_trigger c")
     (simp_all add: causeBounded_def decodeStoredRunCauseV1_def causeJson_def field_defs optField_def
        named_nameOf del: js_simps)

lemma causeField_JObj:
  "decodeCauseField (JObj ms) =
     (case jget (JObj ms) ''cause'' of None \<Rightarrow> Inr None
      | Some value \<Rightarrow> rbind (decodeStoredRunCauseV1 value) (\<lambda>cause. Inr (Some cause)))"
  by (simp add: decodeCauseField_def)

lemma traverse_members:
  "list_all (\<lambda>m. within 128 (gm_botId m) \<and> within 100 (gm_name m)) members \<Longrightarrow>
   traverse decodeGroupMember (map memberJson members) = Inr members"
  by (induction members)
     (simp_all add: decodeGroupMember_def memberJson_def field_defs del: js_simps)

lemma origin_round_trip: "originBounded o' \<Longrightarrow> decodeStoredRunOrigin (originJson o') = Inr o'"
proof (induction o')
  case (Routine_Origin routineId fireId trigger promptBy)
  then show ?case
    by (cases promptBy) (simp_all add: decodeStoredRunOrigin_def decodeRoutineOrigin_def kindJson_def
        field_defs optField_def named_nameOf Let_def del: js_simps)
next
  case (Subagent_Origin taskId parentRunId cause)
  then show ?case
    by (cases cause) (simp_all add: decodeStoredRunOrigin_def decodeSubagentOrigin_def kindJson_def
        field_defs optField_def causeField_def decodeCauseField_def cause_round_trip del: js_simps)
next
  case (Handoff_Origin parentRunId depth)
  then show ?case
    by (simp add: decodeStoredRunOrigin_def decodeHandoffOrigin_def kindJson_def field_defs
        STORED_RUN_HANDOFF_MAX_DEPTH_def MAX_SAFE_INTEGER_def safeNat_decimal [of 1, simplified]
        del: js_simps)
next
  case (Bot_Origin fromBotId fromBotName messageId cause)
  then show ?case
    by (cases cause) (simp_all add: decodeStoredRunOrigin_def decodeBotOrigin_def kindJson_def
        field_defs optField_def causeField_def decodeCauseField_def cause_round_trip del: js_simps)
next
  case (Voice_Origin callId voiceTurnId requestId)
  then show ?case
    by (simp add: decodeStoredRunOrigin_def decodeVoiceOrigin_def kindJson_def field_defs del: js_simps)
next
  case (Delivery_Origin wakeRunId quiet)
  then show ?case
    by (cases quiet) (simp_all add: decodeStoredRunOrigin_def decodeDeliveryOrigin_def kindJson_def
        field_defs quietJson_def quietField_def quietOf_def del: js_simps)
next
  case (Group_Origin groupId groupName members throughSeq reason)
  then show ?case
    by (simp add: decodeStoredRunOrigin_def decodeGroupOrigin_def kindJson_def field_defs
        named_nameOf traverse_members [unfolded within_def] del: js_simps)
next
  case (Input_Delivery_Origin inputId)
  then show ?case
    by (simp add: decodeStoredRunOrigin_def decodeInputDeliveryOrigin_def kindJson_def field_defs
        del: js_simps)
next
  case (Email_Origin messageId quiet)
  then show ?case
    by (cases quiet) (simp_all add: decodeStoredRunOrigin_def decodeEmailOrigin_def kindJson_def
        field_defs quietJson_def quietField_def quietOf_def del: js_simps)
qed

lemma admission_round_trip:
  "admissionBounded a \<Longrightarrow> decodeStoredRunAdmission (admissionJson a) = Inr a"
  by (cases a; cases "ad_lane a"; cases "ad_subagentRole a"; cases "ad_origin a")
     (simp_all add: admissionBounded_def decodeStoredRunAdmission_def admissionJson_def field_defs
        optField_def named_nameOf origin_round_trip Let_def del: js_simps)

lemma effects_round_trip:
  "list_all (\<lambda>e. within STORED_EFFECT_ID_MAX_BYTES (ea_effectId e)) effects \<Longrightarrow>
   distinct (map ea_effectId effects) \<Longrightarrow> set (map ea_effectId effects) \<inter> set seen = {} \<Longrightarrow>
   decodeEffectsFrom seen (map effectJson effects) = Inr effects"
  by (induction effects arbitrary: seen)
     (simp_all add: decodeEffectAdmission_def effectJson_def field_defs named_nameOf del: js_simps)

section \<open>What is read is within bounds\<close>

lemma need_Inr_iff [simp]: "need e x = Inr a \<longleftrightarrow> x = Some a"
  by (cases x) (simp_all add: need_def)

lemma boundedField_Some: "boundedField c key n = Some s \<Longrightarrow> within n s"
  by (auto simp: boundedField_def within_def split: option.splits json.splits if_splits)

lemma boundedField_text: "boundedField c key n = Some s \<Longrightarrow> textField c key = Some s"
  by (auto simp: boundedField_def textField_def split: option.splits json.splits if_splits)

lemma textField_within:
  assumes "hasField c key \<longrightarrow> boundedField c key n \<noteq> None"
  shows "pred_option (within n) (textField c key)"
proof (cases "textField c key")
  case (Some s)
  then have "hasField c key"
    by (cases c) (auto simp: textField_def hasField_def split: option.splits json.splits
        dest!: map_of_SomeD intro: rev_image_eqI)
  with assms obtain t where "boundedField c key n = Some t" by auto
  with Some boundedField_Some boundedField_text show ?thesis by fastforce
qed simp

lemma safeNat_Some: "safeNat v = Some n \<Longrightarrow> n \<le> MAX_SAFE_INTEGER"
  by (auto simp: safeNat_def split: option.splits json.splits if_splits)

lemma decodeCause_bounded:
  assumes "decodeStoredRunCauseV1 v = Inr c"
  shows "causeBounded c"
proof -
  from assms obtain b where b: "boundedField v ''botId'' 128 = Some b"
    by (auto simp: decodeStoredRunCauseV1_def Let_def split: if_splits)
  have "ca_botId c = b" using assms boundedField_text [OF b]
    by (auto simp: decodeStoredRunCauseV1_def Let_def split: if_splits)
  moreover have "hasField v ''id'' \<longrightarrow> boundedField v ''id'' 256 \<noteq> None"
      "hasField v ''label'' \<longrightarrow> boundedField v ''label'' 1000 \<noteq> None"
      "ca_id c = textField v ''id''" "ca_label c = textField v ''label''"
    using assms by (auto simp: decodeStoredRunCauseV1_def Let_def split: if_splits)
  ultimately show ?thesis
    using boundedField_Some [OF b] textField_within by (simp add: causeBounded_def)
qed

lemma decodeCauseField_bounded: "decodeCauseField c = Inr cause \<Longrightarrow> pred_option causeBounded cause"
  by (auto simp: decodeCauseField_def rbind_Inr_iff decodeCause_bounded split: option.splits)

lemma traverse_bounded:
  "traverse decodeGroupMember js' = Inr ms \<Longrightarrow> length ms = length js' \<and>
   list_all (\<lambda>m. within 128 (gm_botId m) \<and> within 100 (gm_name m)) ms"
  by (induction js' arbitrary: ms)
     (auto simp: rbind_Inr_iff decodeGroupMember_def dest: boundedField_Some)

lemma decodeOrigin_bounded:
  assumes "decodeStoredRunOrigin j = Inr o'"
  shows "originBounded o'"
proof -
  note d = decodeSubagentOrigin_def decodeHandoffOrigin_def decodeBotOrigin_def decodeVoiceOrigin_def
    decodeEmailOrigin_def decodeDeliveryOrigin_def decodeInputDeliveryOrigin_def decodeRoutineOrigin_def
  have "decodeSubagentOrigin j = Inr o' \<or> decodeHandoffOrigin j = Inr o' \<or> decodeBotOrigin j = Inr o'
      \<or> decodeGroupOrigin j = Inr o' \<or> decodeVoiceOrigin j = Inr o' \<or> decodeEmailOrigin j = Inr o'
      \<or> decodeDeliveryOrigin j = Inr o' \<or> decodeInputDeliveryOrigin j = Inr o'
      \<or> decodeRoutineOrigin j = Inr o'"
    using assms by (auto simp: decodeStoredRunOrigin_def split: if_splits)
  then show ?thesis
  proof (elim disjE)
    assume "decodeGroupOrigin j = Inr o'"
    then show ?thesis
      by (auto simp: decodeGroupOrigin_def rbind_Inr_iff dest!: boundedField_Some safeNat_Some traverse_bounded
          split: option.splits json.splits if_splits)
  qed (auto simp: d rbind_Inr_iff Let_def STORED_RUN_HANDOFF_MAX_DEPTH_def
       dest: boundedField_Some decodeCauseField_bounded split: if_splits)
qed

section \<open>Properties\<close>

text \<open>What produced a Turn survives storage exactly: an origin within its bounds is read back from
  its stored form as it was, and nothing out of bounds is ever read.\<close>

theorem origin_stored_exactly:
  "(originBounded o' \<longrightarrow> decodeStoredRunOrigin (originJson o') = Inr o') \<and>
   (decodeStoredRunOrigin j = Inr p \<longrightarrow> originBounded p)"
  using origin_round_trip decodeOrigin_bounded by blast

theorem origin_stored_exactly_witness:
  "decodeStoredRunOrigin (originJson (Handoff_Origin (js ''run-1'') 1)) = Inr (Handoff_Origin (js ''run-1'') 1)"
  using origin_stored_exactly [of "Handoff_Origin (js ''run-1'') 1"]
  by (simp add: within_def boundedString_def utf8_length_def high_surrogate_def low_surrogate_def encode_unit_def)

text \<open>An admission record within its bounds, its lane, role and origin included, is read back from
  its stored form as it was; so are at most 256 effect admissions with distinct bounded ids.\<close>

theorem admission_stored_exactly:
  "(admissionBounded a \<longrightarrow> decodeStoredRunAdmission (admissionJson a) = Inr a) \<and>
   (length effects \<le> STORED_EFFECT_ADMISSIONS_MAX \<and> distinct (map ea_effectId effects) \<and>
      list_all (\<lambda>e. within STORED_EFFECT_ID_MAX_BYTES (ea_effectId e)) effects \<longrightarrow>
    decodeStoredEffectAdmissions (JArr (map effectJson effects)) = Inr effects)"
  using admission_round_trip effects_round_trip [of effects "[]"]
  by (simp add: decodeStoredEffectAdmissions_def)

theorem admission_stored_exactly_witness:
  "decodeStoredRunAdmission (admissionJson \<lparr>ad_turnType = Agent, ad_lane = Some Lane_User,
       ad_subagentRole = None, ad_origin = None\<rparr>) =
     Inr \<lparr>ad_turnType = Agent, ad_lane = Some Lane_User, ad_subagentRole = None, ad_origin = None\<rparr>"
  using admission_stored_exactly [of "\<lparr>ad_turnType = Agent, ad_lane = Some Lane_User,
       ad_subagentRole = None, ad_origin = None\<rparr>" "[]"]
  by (simp add: admissionBounded_def)

end
