(* ===== verification/Run_Records.thy ===== *)
theory Run_Records
  imports Run_Origins
begin

text \<open>
  The run record (core/durable/run-records.ts): its fields, the codec that refuses a record that is
  not one, the compact form a record is stored in, the lane a run belongs to and the fingerprints
  that identify a command. What other packages decode (run ids, configuration snapshots, prepared
  inputs, attachments, events) and \<open>Date.parse\<close> are the fields of \<open>run_hooks\<close>. The lemmas say which
  combinations of status, outcome and stop intent a stored record can have, and that two commands
  with the same fingerprint are the same command.
\<close>

section \<open>The record\<close>

datatype run_status = Run_Running | Run_Completed | Run_Failed | Run_Cancelled

datatype run_phase = Queued | Admitted | Executing | Parked

record stored_run =
  r_runId :: string
  r_fingerprint :: jstr
  r_sessionId :: string
  r_acceptedAt :: string
  r_input :: jstr
  r_attachments :: "json option"
  r_retryOf :: "string option"
  r_retriedBy :: "string option"
  r_messageRunId :: "string option"
  r_messageAdmittedAt :: "string option"
  r_landedAt :: "(string \<times> nat) option"
  r_events :: "session_event list option"
  r_eventRange :: "(nat \<times> nat) option"
  r_effects :: "effect_admission list"
  r_status :: run_status
  r_responseText :: "jstr option"
  r_failure :: "jstr option"
  r_phase :: run_phase
  r_stopRequestedAt :: "string option"
  r_composition :: string
  r_mounted :: "string option"
  r_prepared :: "json option"
  r_snapshot :: json
  r_previousEventCount :: nat
  r_admission :: "run_admission option"

definition runEvents :: "stored_run \<Rightarrow> session_event list" where
  "runEvents run = (case r_events run of None \<Rightarrow> [] | Some events \<Rightarrow> events)"

text \<open>A hydrated journal and its durable coordinates, in lockstep.\<close>

definition storedRunEventFieldsV2 :: "nat \<Rightarrow> session_event list \<Rightarrow> stored_run \<Rightarrow> stored_run" where
  "storedRunEventFieldsV2 previousEventCount events run =
     run\<lparr>r_events := Some events,
         r_eventRange := Some (previousEventCount, previousEventCount + length events)\<rparr>"

text \<open>The compact form: the range instead of the events.\<close>

definition storedRunRecordV2 :: "stored_run \<Rightarrow> stored_run" where
  "storedRunRecordV2 run =
     run\<lparr>r_events := None,
         r_eventRange :=
           (if runEvents run = [] \<and> r_eventRange run \<noteq> None then r_eventRange run
            else Some (r_previousEventCount run,
                       r_previousEventCount run + length (runEvents run)))\<rparr>"

definition storedRunSubagentRoleV1 :: "stored_run \<Rightarrow> jstr option" where
  "storedRunSubagentRoleV1 run =
     (case r_admission run of None \<Rightarrow> None | Some a \<Rightarrow> ad_subagentRole a)"

definition storedRunTurnTypeV1 :: "stored_run \<Rightarrow> turn_type" where
  "storedRunTurnTypeV1 run = (case r_admission run of None \<Rightarrow> Chat | Some a \<Rightarrow> ad_turnType a)"

definition storedRunLaneV1 :: "stored_run \<Rightarrow> run_lane" where
  "storedRunLaneV1 run =
     (case r_admission run of
        None \<Rightarrow> defaultRunLaneV1 Chat
      | Some a \<Rightarrow>
          (case ad_lane a of Some lane \<Rightarrow> lane | None \<Rightarrow> defaultRunLaneV1 (ad_turnType a)))"

definition isDeliveryOriginV1 :: "run_origin option \<Rightarrow> bool" where
  "isDeliveryOriginV1 origin =
     (case origin of
        Some (Delivery_Origin wakeRunId quiet) \<Rightarrow> True
      | Some (Input_Delivery_Origin inputId) \<Rightarrow> True
      | _ \<Rightarrow> False)"

definition storedRunIsDeliveryV1 :: "stored_run \<Rightarrow> bool" where
  "storedRunIsDeliveryV1 run =
     isDeliveryOriginV1 (case r_admission run of None \<Rightarrow> None | Some a \<Rightarrow> ad_origin a)"

definition storedRunAdmissionV1 ::
  "turn_type option \<Rightarrow> run_origin option \<Rightarrow> jstr option \<Rightarrow> run_lane option \<Rightarrow> run_admission option" where
  "storedRunAdmissionV1 turnType origin subagentRole lane =
     (let admitted = (case turnType of None \<Rightarrow> Chat | Some t \<Rightarrow> t);
          lane' = (case lane of
             None \<Rightarrow> None | Some l \<Rightarrow> if l \<noteq> defaultRunLaneV1 admitted then Some l else None)
      in if admitted = Chat \<and> origin = None \<and> subagentRole = None \<and> lane' = None then None
         else Some \<lparr>ad_turnType = admitted, ad_lane = lane',
                ad_subagentRole = (if subagentRole = Some [] then None else subagentRole),
                ad_origin = origin\<rparr>)"

section \<open>The codec\<close>

record run_hooks =
  h_runId :: "string \<Rightarrow> bool"
  h_snapshot :: "json \<Rightarrow> bool"
  h_prepared :: "json \<Rightarrow> bool"
  h_attachments :: "json \<Rightarrow> bool"
  h_event :: "session_event \<Rightarrow> bool"
  h_dateParse :: "string \<Rightarrow> int option"

datatype codec_error =
    Run_Id_Invalid
  | Fingerprint_Invalid
  | Session_Id_Invalid
  | Acceptance_Time_Invalid
  | Attachments_Invalid
  | Input_Invalid
  | No_Journal_Reference
  | Events_Invalid
  | Event_Range_Invalid
  | Effect_Admissions_Invalid record_error
  | Composition_Invalid
  | Mounted_Composition_Invalid
  | Previous_Count_Invalid
  | Event_Range_Inconsistent
  | Lineage_Invalid
  | Lineage_Names_Itself
  | Lineage_Without_Retry
  | Lineage_Incomplete
  | Landing_Invalid
  | Landed_During_Itself
  | Successor_But_Not_Failed
  | Snapshot_Invalid
  | Prepared_Inputs_Invalid
  | Response_Invalid
  | Failure_Invalid
  | Stop_Time_Invalid
  | Completion_Fields_Invalid
  | Failure_Fields_Invalid
  | No_Stop_Intent
  | Run_Admission_Invalid record_error

definition boundedText :: "string \<Rightarrow> nat \<Rightarrow> bool" where
  "boundedText s maximum \<longleftrightarrow> boundedString (js s) maximum False"

definition validTime :: "run_hooks \<Rightarrow> string \<Rightarrow> bool" where
  "validTime h t \<longleftrightarrow> boundedText t 64 \<and> h_dateParse h t \<noteq> None"

text \<open>The checks of one lineage field: bounded, a run id, and not the run itself.\<close>

definition lineageField :: "run_hooks \<Rightarrow> string \<Rightarrow> string option \<Rightarrow> codec_error + unit" where
  "lineageField h runId value =
     (case value of
        None \<Rightarrow> Inr ()
      | Some v \<Rightarrow>
          if \<not> boundedText v 128 \<or> \<not> h_runId h v then Inl Lineage_Invalid
          else if v = runId then Inl Lineage_Names_Itself
          else Inr ())"

definition requireLineage :: "run_hooks \<Rightarrow> stored_run \<Rightarrow> codec_error + unit" where
  "requireLineage h run =
     rbind (lineageField h (r_runId run) (r_retryOf run)) (\<lambda>_.
     rbind (lineageField h (r_runId run) (r_retriedBy run)) (\<lambda>_.
     rbind (lineageField h (r_runId run) (r_messageRunId run)) (\<lambda>_.
     if r_retryOf run = None
     then (if r_messageRunId run \<noteq> None \<or> r_messageAdmittedAt run \<noteq> None
           then Inl Lineage_Without_Retry else Inr ())
     else (case r_messageAdmittedAt run of
             None \<Rightarrow> Inl Lineage_Incomplete
           | Some t \<Rightarrow> if r_messageRunId run = None \<or> \<not> validTime h t
                       then Inl Lineage_Incomplete else Inr ()))))"

definition requireLanding :: "run_hooks \<Rightarrow> stored_run \<Rightarrow> codec_error + unit" where
  "requireLanding h run =
     (case r_landedAt run of
        None \<Rightarrow> Inr ()
      | Some (landedRun, landedSeq) \<Rightarrow>
          if \<not> boundedText landedRun 128 \<or> landedSeq > MAX_SAFE_INTEGER \<or> \<not> h_runId h landedRun
          then Inl Landing_Invalid
          else if landedRun = r_runId run then Inl Landed_During_Itself
          else Inr ())"

definition requireEventRange :: "stored_run \<Rightarrow> codec_error + unit" where
  "requireEventRange run =
     (case r_eventRange run of
        None \<Rightarrow> Inr ()
      | Some (startSeq, endSeq) \<Rightarrow>
          if startSeq > MAX_SAFE_INTEGER \<or> endSeq > MAX_SAFE_INTEGER \<or> endSeq < startSeq
          then Inl Event_Range_Invalid else Inr ())"

definition requireRangeMatches :: "stored_run \<Rightarrow> codec_error + unit" where
  "requireRangeMatches run =
     (case r_eventRange run of
        None \<Rightarrow> Inr ()
      | Some (startSeq, endSeq) \<Rightarrow>
          if startSeq \<noteq> r_previousEventCount run
             \<or> (runEvents run \<noteq> [] \<and>
                (seq (hd (runEvents run)) \<noteq> startSeq \<or> seq (last (runEvents run)) + 1 \<noteq> endSeq))
          then Inl Event_Range_Inconsistent else Inr ())"

text \<open>Status, response, failure and stop intent go together.\<close>

definition requireOutcomeFields :: "run_hooks \<Rightarrow> stored_run \<Rightarrow> codec_error + unit" where
  "requireOutcomeFields h run =
     rbind (rguard (case r_responseText run of None \<Rightarrow> True | Some t \<Rightarrow> boundedString t 64000 True)
       Response_Invalid) (\<lambda>_.
     rbind (rguard (case r_failure run of None \<Rightarrow> True | Some f \<Rightarrow> boundedString f 8000 False)
       Failure_Invalid) (\<lambda>_.
     rbind (rguard (case r_stopRequestedAt run of None \<Rightarrow> True | Some t \<Rightarrow> validTime h t)
       Stop_Time_Invalid) (\<lambda>_.
     rbind (rguard (\<not> (if r_status run = Run_Completed
                       then r_responseText run = None \<or> r_failure run \<noteq> None
                       else r_responseText run \<noteq> None)) Completion_Fields_Invalid) (\<lambda>_.
     rbind (rguard (\<not> (if r_status run = Run_Failed then r_failure run = None
                       else r_failure run \<noteq> None)) Failure_Fields_Invalid) (\<lambda>_.
     rguard (\<not> (r_status run = Run_Cancelled \<and> r_stopRequestedAt run = None)) No_Stop_Intent)))))"

definition mapError :: "('e \<Rightarrow> 'f) \<Rightarrow> 'e + 'a \<Rightarrow> 'f + 'a" where
  "mapError f r = (case r of Inl e \<Rightarrow> Inl (f e) | Inr a \<Rightarrow> Inr a)"

definition requireStoredRunRecordV1 :: "run_hooks \<Rightarrow> stored_run \<Rightarrow> codec_error + stored_run" where
  "requireStoredRunRecordV1 h run =
     rbind (rguard (h_runId h (r_runId run)) Run_Id_Invalid) (\<lambda>_.
     rbind (rguard (boundedString (r_fingerprint run) 65536 False) Fingerprint_Invalid) (\<lambda>_.
     rbind (rguard (boundedText (r_sessionId run) 257) Session_Id_Invalid) (\<lambda>_.
     rbind (rguard (validTime h (r_acceptedAt run)) Acceptance_Time_Invalid) (\<lambda>_.
     rbind (rguard (case r_attachments run of None \<Rightarrow> True | Some a \<Rightarrow> h_attachments h a)
       Attachments_Invalid) (\<lambda>_.
     rbind (rguard (boundedString (r_input run) 32000 (r_attachments run \<noteq> None)) Input_Invalid) (\<lambda>_.
     rbind (rguard (r_events run \<noteq> None \<or> r_eventRange run \<noteq> None) No_Journal_Reference) (\<lambda>_.
     rbind (rguard (list_all (h_event h) (runEvents run)) Events_Invalid) (\<lambda>_.
     rbind (requireEventRange run) (\<lambda>_.
     rbind (mapError Effect_Admissions_Invalid
       (decodeStoredEffectAdmissions (JArr (map effectJson (r_effects run))))) (\<lambda>_.
     rbind (rguard (boundedText (r_composition run) 256) Composition_Invalid) (\<lambda>_.
     rbind (rguard (case r_mounted run of None \<Rightarrow> True | Some m \<Rightarrow> boundedText m 256)
       Mounted_Composition_Invalid) (\<lambda>_.
     rbind (rguard (r_previousEventCount run \<le> MAX_SAFE_INTEGER) Previous_Count_Invalid) (\<lambda>_.
     rbind (requireRangeMatches run) (\<lambda>_.
     rbind (requireLineage h run) (\<lambda>_.
     rbind (requireLanding h run) (\<lambda>_.
     rbind (rguard (\<not> (r_retriedBy run \<noteq> None \<and> r_status run \<noteq> Run_Failed))
       Successor_But_Not_Failed) (\<lambda>_.
     rbind (rguard (h_snapshot h (r_snapshot run)) Snapshot_Invalid) (\<lambda>_.
     rbind (rguard (case r_prepared run of None \<Rightarrow> True | Some p \<Rightarrow> isRecord p \<and> h_prepared h p)
       Prepared_Inputs_Invalid) (\<lambda>_.
     rbind (requireOutcomeFields h run) (\<lambda>_.
     rbind (case r_admission run of
              None \<Rightarrow> Inr ()
            | Some a \<Rightarrow> mapError Run_Admission_Invalid
                (rbind (decodeStoredRunAdmission (admissionJson a)) (\<lambda>_. Inr ()))) (\<lambda>_.
     Inr (run\<lparr>r_events := Some (runEvents run)\<rparr>))))))))))))))))))))))"

definition optionalStoredRun ::
  "run_hooks \<Rightarrow> stored_run option \<Rightarrow> codec_error + stored_run option" where
  "optionalStoredRun h stored =
     (case stored of
        None \<Rightarrow> Inr None
      | Some run \<Rightarrow> rbind (requireStoredRunRecordV1 h run) (\<lambda>r. Inr (Some r)))"

section \<open>Commands and their fingerprints\<close>

datatype skill_ref = Plugin_Skill string string | Sourced_Skill string string

fun formatSkillRefV1 :: "skill_ref \<Rightarrow> string" where
  "formatSkillRefV1 (Plugin_Skill pluginId slug) = ''plugin/'' @ pluginId @ ''/'' @ slug"
| "formatSkillRefV1 (Sourced_Skill source slug) = source @ ''/'' @ slug"

record turn_command =
  cmd_runId :: string
  cmd_retryOf :: "string option"
  cmd_sessionId :: string
  cmd_acceptedAt :: string
  cmd_text :: jstr
  cmd_attachments :: "(string \<times> json) list"
  cmd_turnType :: "turn_type option"
  cmd_subagentRole :: "jstr option"
  cmd_origin :: "run_origin option"
  cmd_skills :: "skill_ref list"
  cmd_lane :: "run_lane option"

definition commandTurnType :: "turn_command \<Rightarrow> turn_type" where
  "commandTurnType command = (case cmd_turnType command of None \<Rightarrow> Chat | Some t \<Rightarrow> t)"

definition commandLane :: "turn_command \<Rightarrow> run_lane" where
  "commandLane command =
     (case cmd_lane command of
        None \<Rightarrow> defaultRunLaneV1 (commandTurnType command) | Some lane \<Rightarrow> lane)"

definition commandIsV2 :: "turn_command \<Rightarrow> bool" where
  "commandIsV2 command \<longleftrightarrow>
     commandTurnType command \<noteq> Chat \<or> cmd_origin command \<noteq> None \<or>
     cmd_subagentRole command \<noteq> None \<or> cmd_skills command \<noteq> [] \<or>
     cmd_attachments command \<noteq> [] \<or>
     commandLane command \<noteq> defaultRunLaneV1 (commandTurnType command) \<or>
     cmd_retryOf command \<noteq> None"

text \<open>The value of an option that is present and not the empty string.\<close>

definition truthy :: "'a list option \<Rightarrow> 'a list option" where
  "truthy x = (if x = Some [] then None else x)"

definition commandJsonV1 :: "jstr \<Rightarrow> jstr \<Rightarrow> turn_command \<Rightarrow> json" where
  "commandJsonV1 userId botId command = JObj
     [(''userId'', JStr userId), (''botId'', JStr botId),
      (''sessionId'', JStr (js (cmd_sessionId command))), (''text'', JStr (cmd_text command))]"

definition commandJsonV2 :: "jstr \<Rightarrow> jstr \<Rightarrow> turn_command \<Rightarrow> json" where
  "commandJsonV2 userId botId command = JObj
     ([(''userId'', JStr userId), (''botId'', JStr botId),
       (''sessionId'', JStr (js (cmd_sessionId command))), (''text'', JStr (cmd_text command)),
       (''turnType'', nameOf TURN_TYPES_V1 (commandTurnType command))]
      @ optField ''lane''
          (if commandLane command = defaultRunLaneV1 (commandTurnType command) then None
           else Some (nameOf RUN_LANES_V1 (commandLane command)))
      @ optField ''subagentRole'' (map_option JStr (truthy (cmd_subagentRole command)))
      @ optField ''origin'' (map_option originJson (cmd_origin command))
      @ optField ''retryOf'' (map_option (\<lambda>r. JStr (js r)) (truthy (cmd_retryOf command)))
      @ optField ''skills''
          (if cmd_skills command = [] then None
           else Some (JArr (map (\<lambda>s. JStr (js (formatSkillRefV1 s))) (cmd_skills command))))
      @ optField ''attachments''
          (if cmd_attachments command = [] then None
           else Some (JArr (map (\<lambda>a. JStr (js (fst a))) (cmd_attachments command)))))"

definition botTurnCommandFingerprintV1 :: "jstr \<Rightarrow> jstr \<Rightarrow> turn_command \<Rightarrow> jstr" where
  "botTurnCommandFingerprintV1 userId botId command =
     (if commandIsV2 command
      then js ''bot-turn-command-v2:'' @ stringify (commandJsonV2 userId botId command)
      else js ''bot-turn-command-v1:'' @ stringify (commandJsonV1 userId botId command))"

definition botStopCommandFingerprintV1 :: "jstr \<Rightarrow> jstr \<Rightarrow> string \<Rightarrow> jstr" where
  "botStopCommandFingerprintV1 userId botId runId =
     js ''bot-stop-command-v1:'' @ stringify (JObj
       [(''userId'', JStr userId), (''botId'', JStr botId), (''runId'', JStr (js runId))])"

section \<open>A record nobody can decode\<close>

record unreadable_run =
  ur_runId :: string
  ur_sessionId :: "jstr option"
  ur_acceptedAt :: "jstr option"
  ur_input :: "jstr option"
  ur_turnType :: "turn_type option"

definition unreadableStoredRunV1 ::
  "(jstr \<Rightarrow> int option) \<Rightarrow> string \<Rightarrow> json \<Rightarrow> unreadable_run" where
  "unreadableStoredRunV1 dateParse runId raw =
     (let candidate = (if isRecord raw then raw else JObj []);
          admission = (case jget candidate ''admission'' of
             Some a \<Rightarrow> if isRecord a then a else JObj [] | None \<Rightarrow> JObj [])
      in \<lparr>ur_runId = runId,
          ur_sessionId = boundedField candidate ''sessionId'' 257,
          ur_acceptedAt = (case boundedField candidate ''acceptedAt'' 64 of
             Some t \<Rightarrow> if dateParse t \<noteq> None then Some t else None | None \<Rightarrow> None),
          ur_input = boundedField candidate ''input'' 32000,
          ur_turnType = named TURN_TYPES_V1 (jget admission ''turnType'')\<rparr>)"

section \<open>A fingerprint identifies its command\<close>

lemma nameOf_inject [simp]:
  "nameOf STORED_RUN_ORIGIN_TRIGGERS t = nameOf STORED_RUN_ORIGIN_TRIGGERS t' \<longleftrightarrow> t = t'"
  "nameOf STORED_RUN_CAUSE_KINDS k = nameOf STORED_RUN_CAUSE_KINDS k' \<longleftrightarrow> k = k'"
  "nameOf RUN_LANES_V1 l = nameOf RUN_LANES_V1 l' \<longleftrightarrow> l = l'"
  "nameOf TURN_TYPES_V1 y = nameOf TURN_TYPES_V1 y' \<longleftrightarrow> y = y'"
  "nameOf PROMPT_WRITERS w = nameOf PROMPT_WRITERS w' \<longleftrightarrow> w = w'"
  "nameOf GROUP_REASONS r = nameOf GROUP_REASONS r' \<longleftrightarrow> r = r'"
  using named_nameOf by (metis option.inject)+

lemma optField_inject:
  "optField key v = optField key v' \<longleftrightarrow> v = v'"
  by (auto simp: optField_def split: option.splits)

lemma map_option_eqD:
  "map_option f x = map_option f y \<Longrightarrow> (\<And>a b. f a = f b \<Longrightarrow> a = b) \<Longrightarrow> x = y"
  by (cases x; cases y) auto

lemma causeJson_inject:
  assumes "causeJson c = causeJson c'"
  shows "c = c'"
proof -
  have get: "jget (causeJson c) key = jget (causeJson c') key" for key using assms by simp
  have "ca_kind c = ca_kind c'" "ca_botId c = ca_botId c'"
    using assms by (simp_all add: causeJson_def)
  moreover have "map_option JStr (ca_id c) = map_option JStr (ca_id c')"
    using get [of "''id''"] by (simp add: causeJson_def del: jget.simps split: if_splits)
  then have "ca_id c = ca_id c'" by (rule map_option_eqD) simp
  moreover have "map_option JStr (ca_label c) = map_option JStr (ca_label c')"
    using get [of "''label''"] by (simp add: causeJson_def del: jget.simps split: if_splits)
  then have "ca_label c = ca_label c'" by (rule map_option_eqD) simp
  moreover have "map_option (nameOf STORED_RUN_ORIGIN_TRIGGERS) (ca_trigger c) =
     map_option (nameOf STORED_RUN_ORIGIN_TRIGGERS) (ca_trigger c')"
    using get [of "''trigger''"] by (simp add: causeJson_def del: jget.simps split: if_splits)
  then have "ca_trigger c = ca_trigger c'" by (rule map_option_eqD) simp
  ultimately show ?thesis by simp
qed

lemma map_optionJson:
  "map_option JStr x = map_option JStr y \<longleftrightarrow> x = y"
  "map_option causeJson u = map_option causeJson v \<longleftrightarrow> u = v"
  "map_option (nameOf PROMPT_WRITERS) p = map_option (nameOf PROMPT_WRITERS) q \<longleftrightarrow> p = q"
  by (auto dest: map_option_eqD [OF _ causeJson_inject] map_option_eqD [where f = JStr]
      map_option_eqD [where f = "nameOf PROMPT_WRITERS"])

lemma memberJson_inject: "memberJson m = memberJson m' \<Longrightarrow> m = m'"
  by (simp add: memberJson_def)

lemma originKind:
  "jget (originJson o') ''kind'' = Some (JStr (js (case o' of
     Routine_Origin a b c d \<Rightarrow> ''routine'' | Subagent_Origin a b c \<Rightarrow> ''subagent''
   | Handoff_Origin a b \<Rightarrow> ''handoff'' | Bot_Origin a b c d \<Rightarrow> ''bot'' | Voice_Origin a b c \<Rightarrow> ''voice''
   | Delivery_Origin a b \<Rightarrow> ''routine-delivery'' | Group_Origin a b c d e \<Rightarrow> ''group''
   | Input_Delivery_Origin a \<Rightarrow> ''input-delivery'' | Email_Origin a b \<Rightarrow> ''email'')))"
  by (cases o') (simp_all add: kindJson_def del: js_simps)

lemma originJson_inject:
  assumes "originJson o' = originJson p"
  shows "o' = p"
proof -
  have kind: "jget (originJson o') ''kind'' = jget (originJson p) ''kind''" using assms by simp
  show ?thesis
    using assms kind unfolding originKind
    by (cases o'; cases p)
       (auto simp: optField_inject map_optionJson quietJson_def memberJson_inject inj_on_def
         simp del: js_simps dest!: map_injective [OF _ injI [OF memberJson_inject]] split: if_splits)
qed

lemma wf_nameOf [simp]: "wf_json (nameOf table a)"
  by (simp add: nameOf_def split: option.split)

lemma numberText_decimal [simp]: "numberText (decimal n)"
proof -
  have "set ''0123456789'' \<subseteq> set ''0123456789+-.eE''" by simp
  with decimal_digits [of _ n] have "\<forall>c \<in> set (decimal n). c \<in> set ''0123456789+-.eE''" by blast
  then show ?thesis unfolding numberText_def list_all_iff by (intro conjI) simp
qed

lemma list_all_optField [simp]:
  "list_all P (optField key v) \<longleftrightarrow> pred_option (\<lambda>x. P (key, x)) v"
  by (cases v) (simp_all add: optField_def)

lemma wf_causeJson [simp]: "wf_json (causeJson c)"
  by (cases "ca_id c"; cases "ca_label c"; cases "ca_trigger c") (simp_all add: causeJson_def)

lemma wf_originJson [simp]: "wf_json (originJson o')"
proof (cases o')
  case (Routine_Origin a b c d)
  then show ?thesis by (cases d) (simp_all add: kindJson_def)
next
  case (Subagent_Origin a b c)
  then show ?thesis by (cases c) (simp_all add: kindJson_def)
next
  case (Bot_Origin a b c d)
  then show ?thesis by (cases d) (simp_all add: kindJson_def)
qed (simp_all add: kindJson_def quietJson_def memberJson_def list_all_iff)

lemma wf_commandJson [simp]:
  "wf_json (commandJsonV1 userId botId command)" "wf_json (commandJsonV2 userId botId command)"
  by (simp_all add: commandJsonV1_def commandJsonV2_def option.pred_map list.pred_map comp_def
      option.pred_True list.pred_True)

text \<open>What a command is: everything but its run id and the time it was accepted.\<close>

definition commandIdentity where
  "commandIdentity userId botId command =
     (userId, botId, cmd_sessionId command, cmd_text command, commandTurnType command,
      commandLane command, truthy (cmd_subagentRole command), cmd_origin command,
      truthy (cmd_retryOf command), map formatSkillRefV1 (cmd_skills command),
      map fst (cmd_attachments command))"

lemma commandJsonV1_identity:
  assumes "\<not> commandIsV2 c" and "\<not> commandIsV2 d" and "commandJsonV1 u b c = commandJsonV1 v b' d"
  shows "commandIdentity u b c = commandIdentity v b' d"
  using assms by (simp add: commandIsV2_def commandJsonV1_def commandIdentity_def truthy_def)

lemma map_optionJs:
  "map_option (\<lambda>r. JStr (js r)) x = map_option (\<lambda>r. JStr (js r)) y \<longleftrightarrow> x = y"
  by (auto dest: map_option_eqD [where f = "\<lambda>r. JStr (js r)"])

lemma map_optionOrigin: "map_option originJson x = map_option originJson y \<longleftrightarrow> x = y"
  by (auto dest: map_option_eqD [OF _ originJson_inject])

lemma map_JStr_js: "map (\<lambda>x. JStr (js (f x))) xs = map (\<lambda>x. JStr (js (g x))) ys \<longleftrightarrow> map f xs = map g ys"
proof -
  have inj: "inj (\<lambda>s. JStr (js s))" by (simp add: inj_def)
  show ?thesis using inj_map_eq_map [OF inj, of "map f xs" "map g ys"] by (simp add: comp_def)
qed

lemma commandJsonV2_identity:
  assumes "commandJsonV2 u b c = commandJsonV2 v b' d"
  shows "commandIdentity u b c = commandIdentity v b' d"
proof -
  have get: "jget (commandJsonV2 u b c) key = jget (commandJsonV2 v b' d) key" for key
    using assms by simp
  note unfold = commandJsonV2_def
  have head: "u = v" "b = b'" "cmd_sessionId c = cmd_sessionId d" "cmd_text c = cmd_text d"
    "commandTurnType c = commandTurnType d"
    using assms by (simp_all add: unfold)
  have "commandLane c = commandLane d"
    using get [of "''lane''"] head(5) nameOf_inject(3)
    by (auto simp: unfold simp del: jget.simps nameOf_inject split: if_splits)
  moreover have "truthy (cmd_subagentRole c) = truthy (cmd_subagentRole d)"
    using get [of "''subagentRole''"] map_optionJson(1)
    by (simp add: unfold del: jget.simps split: if_splits)
  moreover have "cmd_origin c = cmd_origin d"
    using get [of "''origin''"] originJson_inject
    by (auto simp: unfold simp del: jget.simps split: if_splits)
  moreover have "truthy (cmd_retryOf c) = truthy (cmd_retryOf d)"
    using get [of "''retryOf''"] map_optionJs
    by (simp add: unfold del: jget.simps split: if_splits)
  moreover have "map formatSkillRefV1 (cmd_skills c) = map formatSkillRefV1 (cmd_skills d)"
    using get [of "''skills''"] map_JStr_js [of formatSkillRefV1 "cmd_skills c" formatSkillRefV1 "cmd_skills d"]
    by (auto simp: unfold simp del: jget.simps split: if_splits)
  moreover have "map fst (cmd_attachments c) = map fst (cmd_attachments d)"
    using get [of "''attachments''"] map_JStr_js [of fst "cmd_attachments c" fst "cmd_attachments d"]
    by (auto simp: unfold simp del: jget.simps split: if_splits)
  ultimately show ?thesis using head by (simp add: commandIdentity_def)
qed

lemma fingerprint_tags:
  "js ''bot-turn-command-v2:'' @ x = js ''bot-turn-command-v2:'' @ y \<longleftrightarrow> x = y"
  "js ''bot-turn-command-v1:'' @ x \<noteq> js ''bot-turn-command-v2:'' @ y"
  "js ''bot-turn-command-v2:'' @ y \<noteq> js ''bot-turn-command-v1:'' @ x"
  by simp_all

section \<open>What a stored record can say\<close>

lemma requireOutcomeFields_Inr:
  "requireOutcomeFields h run = Inr u \<longleftrightarrow>
   (case r_responseText run of None \<Rightarrow> True | Some t \<Rightarrow> boundedString t 64000 True) \<and>
   (case r_failure run of None \<Rightarrow> True | Some f \<Rightarrow> boundedString f 8000 False) \<and>
   (case r_stopRequestedAt run of None \<Rightarrow> True | Some t \<Rightarrow> validTime h t) \<and>
   (r_responseText run \<noteq> None \<longleftrightarrow> r_status run = Run_Completed) \<and>
   (r_failure run \<noteq> None \<longleftrightarrow> r_status run = Run_Failed) \<and>
   (r_status run = Run_Cancelled \<longrightarrow> r_stopRequestedAt run \<noteq> None)"
  by (auto simp: requireOutcomeFields_def rbind_Inr_iff)

lemma requireStoredRun_Inr:
  assumes "requireStoredRunRecordV1 h run = Inr run'"
  shows "run' = run\<lparr>r_events := Some (runEvents run)\<rparr> \<and> requireOutcomeFields h run = Inr () \<and>
    requireRangeMatches run = Inr () \<and> requireEventRange run = Inr () \<and>
    boundedString (r_fingerprint run) 65536 False \<and>
    boundedString (r_input run) 32000 (r_attachments run \<noteq> None) \<and>
    (r_retriedBy run \<noteq> None \<longrightarrow> r_status run = Run_Failed)"
  using assms unfolding requireStoredRunRecordV1_def
  by (auto simp: rbind_Inr_iff)

section \<open>Properties\<close>

text \<open>A command's fingerprint identifies it: two commands with the same fingerprint have the same
  user, bot, session, text, turn type, lane, role, origin, retried run, Skills and attachments, so a
  replayed run id can only be answered with the run of the very command it was first sent with.\<close>

theorem fingerprint_identifies_command:
  assumes "botTurnCommandFingerprintV1 u b c = botTurnCommandFingerprintV1 v b' d"
  shows "commandIdentity u b c = commandIdentity v b' d"
proof -
  have same: "commandIsV2 c = commandIsV2 d"
    using assms fingerprint_tags by (simp add: botTurnCommandFingerprintV1_def split: if_splits del: js_simps)
  show ?thesis
  proof (cases "commandIsV2 c")
    case True
    with assms same have "commandJsonV2 u b c = commandJsonV2 v b' d"
      by (simp add: botTurnCommandFingerprintV1_def fingerprint_tags stringify_inject del: js_simps)
    then show ?thesis by (rule commandJsonV2_identity)
  next
    case False
    with assms same have "commandJsonV1 u b c = commandJsonV1 v b' d"
      by (simp add: botTurnCommandFingerprintV1_def stringify_inject del: js_simps)
    with False same show ?thesis by (intro commandJsonV1_identity) simp_all
  qed
qed

definition sampleCommand :: "string \<Rightarrow> string \<Rightarrow> turn_command" where
  "sampleCommand runId text' =
     \<lparr>cmd_runId = runId, cmd_retryOf = None, cmd_sessionId = ''s'', cmd_acceptedAt = ''t'',
      cmd_text = js text', cmd_attachments = [], cmd_turnType = None, cmd_subagentRole = None,
      cmd_origin = None, cmd_skills = [], cmd_lane = None\<rparr>"

theorem fingerprint_identifies_command_witness:
  "botTurnCommandFingerprintV1 (js ''u'') (js ''b'') (sampleCommand ''r1'' ''hi'') \<noteq>
   botTurnCommandFingerprintV1 (js ''u'') (js ''b'') (sampleCommand ''r1'' ''ho'')"
  using fingerprint_identifies_command [of "js ''u''" "js ''b''" "sampleCommand ''r1'' ''hi''"
      "js ''u''" "js ''b''" "sampleCommand ''r1'' ''ho''"]
  by (auto simp: commandIdentity_def sampleCommand_def simp del: js_simps)

text \<open>C40: A record the codec accepts is consistent: it has a response exactly when it completed, a failure
  (of at most 8000 bytes, not empty) exactly when it failed, a response is at most 64000 bytes, a stop intent is there when it was
  cancelled, a successor only when it failed, and its events are the ones its range names.\<close>

theorem stored_run_consistent:
  assumes "requireStoredRunRecordV1 h run = Inr run'"
  shows "(r_responseText run' \<noteq> None \<longleftrightarrow> r_status run' = Run_Completed) \<and>
    (r_failure run' \<noteq> None \<longleftrightarrow> r_status run' = Run_Failed) \<and> r_failure run' \<noteq> Some [] \<and>
    pred_option (\<lambda>failure. utf8_length failure \<le> 8000) (r_failure run') \<and>
    pred_option (\<lambda>answer. utf8_length answer \<le> 64000) (r_responseText run') \<and>
    (r_status run' = Run_Cancelled \<longrightarrow> r_stopRequestedAt run' \<noteq> None) \<and>
    (r_retriedBy run' \<noteq> None \<longrightarrow> r_status run' = Run_Failed) \<and>
    (\<forall>startSeq endSeq. r_eventRange run' = Some (startSeq, endSeq) \<longrightarrow>
       startSeq = r_previousEventCount run' \<and> startSeq \<le> endSeq \<and>
       (runEvents run' \<noteq> [] \<longrightarrow>
         seq (hd (runEvents run')) = startSeq \<and> seq (last (runEvents run')) + 1 = endSeq))"
  using requireStoredRun_Inr [OF assms]
  by (auto simp: requireOutcomeFields_Inr requireRangeMatches_def requireEventRange_def runEvents_def
      boundedString_def split: if_splits option.splits)

definition sampleHooks :: run_hooks where
  "sampleHooks = \<lparr>h_runId = (\<lambda>i. i \<noteq> []), h_snapshot = (\<lambda>s. True), h_prepared = (\<lambda>p. True),
     h_attachments = (\<lambda>a. True), h_event = (\<lambda>e. True), h_dateParse = (\<lambda>t. Some 0)\<rparr>"

definition sampleRun :: stored_run where
  "sampleRun = \<lparr>r_runId = ''r'', r_fingerprint = js ''f'', r_sessionId = ''s'',
     r_acceptedAt = ''t'', r_input = js ''hi'', r_attachments = None, r_retryOf = None,
     r_retriedBy = None, r_messageRunId = None, r_messageAdmittedAt = None, r_landedAt = None,
     r_events = Some [], r_eventRange = Some (0, 0), r_effects = [], r_status = Run_Running,
     r_responseText = None, r_failure = None, r_phase = Admitted, r_stopRequestedAt = None,
     r_composition = ''g'', r_mounted = None, r_prepared = None, r_snapshot = JNull,
     r_previousEventCount = 0, r_admission = None\<rparr>"

lemma sampleRun_valid: "requireStoredRunRecordV1 sampleHooks sampleRun = Inr sampleRun"
  by (simp add: requireStoredRunRecordV1_def sampleRun_def sampleHooks_def boundedString_def
      boundedText_def validTime_def utf8_length_def encode_unit_def high_surrogate_def
      low_surrogate_def runEvents_def requireEventRange_def decodeStoredEffectAdmissions_def mapError_def
      requireRangeMatches_def requireLineage_def lineageField_def requireLanding_def
      requireOutcomeFields_def rguard_def)

theorem stored_run_consistent_witness:
  "r_failure sampleRun = None"
  using stored_run_consistent [OF sampleRun_valid] by (simp add: sampleRun_def)

text \<open>A text of eleven thousand escape characters, such as a pasted terminal recording.\<close>

definition controlText :: jstr where
  "controlText = replicate 11000 0x1B"

definition controlCommand :: turn_command where
  "controlCommand = (sampleCommand ''r'' [])\<lparr>cmd_text := controlText\<rparr>"

lemma quoteUnits_control: "quoteUnits (replicate n 0x1B) = concat (replicate n (escapeUnit 0x1B))"
proof (induction n)
  case (Suc n)
  then show ?case
    by (cases n) (simp_all add: high_surrogate_def)
qed simp

lemma length_quote_control: "length (quoteUnits (replicate n 0x1B)) = 6 * n"
  by (simp add: quoteUnits_control length_concat sum_list_replicate escapeUnit_def hex4_def high_surrogate_def
      low_surrogate_def del: fixedWidth.simps)

text \<open>The bound on a fingerprint is narrower than the bound on a message: a text well within the
  32000 bytes a run's input may have can have a fingerprint longer than the 65536 bytes the codec
  accepts, because each control character is six in JSON, and no run can then be admitted for it.\<close>

theorem valid_input_unadmittable:
  "boundedString (cmd_text controlCommand) 32000 False \<and>
   \<not> boundedString (botTurnCommandFingerprintV1 userId botId controlCommand) 65536 False"
proof
  have "utf8_length (replicate n (0x1B :: 16 word)) = n" for n
  proof (induction n)
    case (Suc n)
    then show ?case by (simp add: utf8_length_not_high high_surrogate_def encode_unit_def low_surrogate_def)
  qed simp
  then show "boundedString (cmd_text controlCommand) 32000 False"
    by (simp add: controlCommand_def controlText_def boundedString_def)
  have "6 * 11000 \<le> length (stringify (commandJsonV1 userId botId controlCommand))"
    using length_quote_control [of 11000]
    by (simp add: commandJsonV1_def controlCommand_def controlText_def quoteJson_def del: quoteUnits.simps)
  then have "66000 \<le> length (botTurnCommandFingerprintV1 userId botId controlCommand)"
    by (simp add: botTurnCommandFingerprintV1_def commandIsV2_def controlCommand_def sampleCommand_def
        commandTurnType_def commandLane_def commandJsonV1_def)
  then show "\<not> boundedString (botTurnCommandFingerprintV1 userId botId controlCommand) 65536 False"
    using length_le_utf8_length [of "botTurnCommandFingerprintV1 userId botId controlCommand"]
    by (simp add: boundedString_def)
qed

end
