(* ===== verification/Json_Parse.thy ===== *)
theory Json_Parse
  imports Json
begin

text \<open>
  \<open>JSON.parse\<close> on the texts \<open>JSON.stringify\<close> writes: no white space, numbers in the form they were
  written in. The fuel of the recursive descent is the length of the text, which is enough for every
  text \<open>stringify\<close> produces; the round trip is the last lemma.
\<close>

section \<open>The parser\<close>

definition unjs :: "jstr \<Rightarrow> string" where
  "unjs s = map (\<lambda>c. char_of (unat c)) s"

definition numberUnit :: "16 word \<Rightarrow> bool" where
  "numberUnit c \<longleftrightarrow> c \<in> set (js ''0123456789+-.eE'')"

definition parseNumber :: "jstr \<Rightarrow> (json \<times> jstr) option" where
  "parseNumber s =
     (let n = takeWhile numberUnit s
      in if n = [] then None else Some (JNum (unjs n), dropWhile numberUnit s))"

fun parseValue :: "nat \<Rightarrow> jstr \<Rightarrow> (json \<times> jstr) option"
  and parseElements :: "nat \<Rightarrow> jstr \<Rightarrow> (json list \<times> jstr) option"
  and parseMembers :: "nat \<Rightarrow> jstr \<Rightarrow> ((string \<times> json) list \<times> jstr) option" where
  "parseValue 0 s = None"
| "parseValue (Suc f) s =
     (case s of
        [] \<Rightarrow> None
      | c # r \<Rightarrow>
          if c = 0x22
          then (case unquote r of None \<Rightarrow> None | Some (t, rest) \<Rightarrow> Some (JStr t, rest))
          else if c = 0x5B
          then (if r \<noteq> [] \<and> hd r = 0x5D then Some (JArr [], tl r)
                else case parseElements f r of
                    None \<Rightarrow> None | Some (xs, rest) \<Rightarrow> Some (JArr xs, rest))
          else if c = 0x7B
          then (if r \<noteq> [] \<and> hd r = 0x7D then Some (JObj [], tl r)
                else case parseMembers f r of
                    None \<Rightarrow> None | Some (ms, rest) \<Rightarrow> Some (JObj ms, rest))
          else if take 4 s = js ''null'' then Some (JNull, drop 4 s)
          else if take 4 s = js ''true'' then Some (JBool True, drop 4 s)
          else if take 5 s = js ''false'' then Some (JBool False, drop 5 s)
          else parseNumber s)"
| "parseElements 0 s = None"
| "parseElements (Suc f) s =
     (case parseValue f s of
        Some (v, e # r) \<Rightarrow>
          if e = 0x5D then Some ([v], r)
          else if e = 0x2C
          then (case parseElements f r of
                  None \<Rightarrow> None | Some (vs, rest) \<Rightarrow> Some (v # vs, rest))
          else None
      | _ \<Rightarrow> None)"
| "parseMembers 0 s = None"
| "parseMembers (Suc f) s =
     (case s of
        [] \<Rightarrow> None
      | q # s' \<Rightarrow>
          if q \<noteq> 0x22 then None
          else case unquote s' of
              Some (k, e # r) \<Rightarrow>
                if e \<noteq> 0x3A then None
                else (case parseValue f r of
                    Some (v, d # r') \<Rightarrow>
                      if d = 0x7D then Some ([(unjs k, v)], r')
                      else if d = 0x2C
                      then (case parseMembers f r' of
                              None \<Rightarrow> None | Some (ms, rest) \<Rightarrow> Some ((unjs k, v) # ms, rest))
                      else None
                  | _ \<Rightarrow> None)
            | _ \<Rightarrow> None)"

definition parseJson :: "jstr \<Rightarrow> json option" where
  "parseJson s =
     (case parseValue (Suc (length s)) s of Some (v, []) \<Rightarrow> Some v | _ \<Rightarrow> None)"

section \<open>The round trip\<close>

lemma unjs_js [simp]: "unjs (js s) = s"
proof -
  have "char_of (unat (of_nat (of_char c) :: 16 word)) = c" for c :: char
  proof -
    have "of_char c < (65536 :: nat)"
      using of_char_mod_256 [of c, where 'a = nat] mod_less_divisor [of 256 "of_char c :: nat"]
      by linarith
    then have "unat (of_nat (of_char c) :: 16 word) = of_char c" by (simp add: unat_of_nat)
    then show ?thesis by simp
  qed
  then show ?thesis by (simp add: unjs_def js_def o_def del: js_simps)
qed

lemma numberUnit_iff: "numberUnit c \<longleftrightarrow> c \<in> NUMBER_UNITS"
  by (simp add: numberUnit_def NUMBER_UNITS_def del: js_simps)

lemma delimited_not_number: "delimited (c # x) \<Longrightarrow> \<not> numberUnit c"
  using NUMBER_UNITS_free by (auto simp: numberUnit_iff)

lemma parseNumber_js:
  assumes "numberText n" and "delimited rest"
  shows "parseNumber (js n @ rest) = Some (JNum n, rest)"
proof -
  have n: "js n \<noteq> []" "\<forall>c \<in> set (js n). numberUnit c"
    using numberText_units [OF assms(1)] by (auto simp: numberUnit_iff simp del: js_simps)
  have "takeWhile numberUnit rest = []" and "dropWhile numberUnit rest = rest"
    using assms(2) delimited_not_number by (cases rest; auto)+
  with n have "takeWhile numberUnit (js n @ rest) = js n"
      "dropWhile numberUnit (js n @ rest) = rest"
    by (simp_all add: takeWhile_append2 dropWhile_append2 del: js_simps)
  with n show ?thesis by (simp add: parseNumber_def Let_def del: js_simps)
qed

lemma length_quoteJson: "2 \<le> length (quoteJson s)"
  by (simp add: quoteJson_def)

lemma stringify_nonempty: "wf_json j \<Longrightarrow> 1 \<le> length (stringify j)"
  using stringify_tag [of j] by (auto simp: Suc_le_eq)

lemma numeric_start:
  assumes "numberText n"
  obtains c r where "js n = c # r" and "unitTag c = 3"
proof -
  have "js n \<noteq> [] \<and> set (js n) \<subseteq> NUMBER_UNITS" using assms by (rule numberText_units)
  then obtain c r where "js n = c # r" "c \<in> NUMBER_UNITS" by (cases "js n") auto
  with numberUnit_tag that show thesis by blast
qed


definition parses :: "json \<Rightarrow> bool" where
  "parses j \<longleftrightarrow> (\<forall>f rest. length (stringify j) \<le> f \<longrightarrow> delimited rest \<longrightarrow>
     parseValue f (stringify j @ rest) = Some (j, rest))"

lemma parsesD:
  "parses j \<Longrightarrow> length (stringify j) \<le> f \<Longrightarrow> delimited rest \<Longrightarrow>
   parseValue f (stringify j @ rest) = Some (j, rest)"
  by (simp add: parses_def)

lemma parseElements_join:
  "xs \<noteq> [] \<Longrightarrow> \<forall>x \<in> set xs. parses x \<Longrightarrow> length (joinComma (map stringify xs)) < f \<Longrightarrow>
   parseElements f (joinComma (map stringify xs) @ 0x5D # rest) = Some (xs, rest)"
proof (induction xs arbitrary: f)
  case (Cons x xs)
  then obtain g where f: "f = Suc g" by (cases f) auto
  have x: "parses x" using Cons.prems by simp
  show ?case
  proof (cases xs)
    case Nil
    have "parseValue g (stringify x @ 0x5D # rest) = Some (x, 0x5D # rest)"
      by (rule parsesD [OF x]) (use Cons.prems Nil f in auto)
    with Nil f show ?thesis by simp
  next
    case (Cons y ys)
    let ?j = "joinComma (map stringify xs)"
    have j: "joinComma (map stringify (x # xs)) = stringify x @ 0x2C # ?j" using Cons by simp
    have len: "length (stringify x) \<le> g" "length ?j < g" using Cons.prems(3) j f by simp_all
    have "parseValue g (stringify x @ 0x2C # ?j @ 0x5D # rest) = Some (x, 0x2C # ?j @ 0x5D # rest)"
      by (rule parsesD [OF x]) (use len in simp_all)
    moreover have "parseElements g (?j @ 0x5D # rest) = Some (xs, rest)"
      by (rule Cons.IH) (use Cons len Cons.prems in simp_all)
    ultimately show ?thesis unfolding j f by simp
  qed
qed simp

abbreviation memberText :: "string \<times> json \<Rightarrow> jstr" where
  "memberText m \<equiv> (case m of (k, v) \<Rightarrow> quoteJson (js k) @ 0x3A # stringify v)"

lemma parseMembers_join:
  "ms \<noteq> [] \<Longrightarrow> \<forall>m \<in> set ms. parses (snd m) \<Longrightarrow> length (joinComma (map memberText ms)) < f \<Longrightarrow>
   parseMembers f (joinComma (map memberText ms) @ 0x7D # rest) = Some (ms, rest)"
proof (induction ms arbitrary: f)
  case (Cons m ms)
  then obtain g where f: "f = Suc g" by (cases f) auto
  obtain k v where m: "m = (k, v)" by (cases m)
  have v: "parses v" using Cons.prems m by simp
  have key: "unquote (quoteUnits (js k) @ 0x22 # x) = Some (js k, x)" for x
    by (rule unquote_quoteUnits)
  show ?case
  proof (cases ms)
    case Nil
    have "parseValue g (stringify v @ 0x7D # rest) = Some (v, 0x7D # rest)"
      by (rule parsesD [OF v]) (use Cons.prems Nil f m in \<open>auto simp: quoteJson_def\<close>)
    with Nil f m show ?thesis by (simp add: quoteJson_def key)
  next
    case (Cons n ns)
    let ?j = "joinComma (map memberText ms)"
    have j: "joinComma (map memberText (m # ms)) =
        0x22 # quoteUnits (js k) @ 0x22 # 0x3A # stringify v @ 0x2C # ?j"
      using Cons m by (simp add: quoteJson_def)
    have len: "length (stringify v) \<le> g" "length ?j < g" using Cons.prems(3) j f by simp_all
    have "parseValue g (stringify v @ 0x2C # ?j @ 0x7D # rest) = Some (v, 0x2C # ?j @ 0x7D # rest)"
      by (rule parsesD [OF v]) (use len in simp_all)
    moreover have "parseMembers g (?j @ 0x7D # rest) = Some (ms, rest)"
      by (rule Cons.IH) (use Cons len Cons.prems in simp_all)
    ultimately show ?thesis unfolding j f by (simp add: key m)
  qed
qed simp

lemma join_start:
  assumes "\<forall>x \<in> set xs. \<not> delimited (enc x)" and "xs \<noteq> []"
  shows "\<exists>c r. joinComma (map enc xs) = c # r \<and> c \<noteq> 0x5D \<and> c \<noteq> 0x7D"
proof -
  obtain x ys where xs: "xs = x # ys" using assms(2) by (cases xs) auto
  with assms(1) obtain c r where "enc x = c # r" "c \<noteq> 0x5D" "c \<noteq> 0x7D" by (cases "enc x") auto
  then show ?thesis by (cases ys) (auto simp: xs)
qed

lemma wf_parses: "wf_json j \<Longrightarrow> parses j"
proof (induction j)
  case (JNum n)
  then obtain c r where n: "js n = c # r" "unitTag c = 3" using numeric_start by auto
  show ?case unfolding parses_def
  proof (intro allI impI)
    fix f and rest :: jstr
    assume f: "length (stringify (JNum n)) \<le> f" and d: "delimited rest"
    then obtain g where g: "f = Suc g" using n by (cases f) (auto simp del: js_simps)
    have "c \<noteq> 0x22 \<and> c \<noteq> 0x5B \<and> c \<noteq> 0x7B \<and> c \<noteq> 0x6E \<and> c \<noteq> 0x74 \<and> c \<noteq> 0x66"
      using n(2) by (auto simp: unitTag_def)
    then show "parseValue f (stringify (JNum n) @ rest) = Some (JNum n, rest)"
      using parseNumber_js [OF _ d, of n] JNum n(1) g by simp
  qed
next
  case (JStr s)
  show ?case unfolding parses_def
  proof (intro allI impI)
    fix f and rest :: jstr
    assume "length (stringify (JStr s)) \<le> f"
    then obtain g where g: "f = Suc g" using length_quoteJson [of s] by (cases f) auto
    show "parseValue f (stringify (JStr s) @ rest) = Some (JStr s, rest)"
      by (simp add: g quoteJson_def unquote_quoteUnits)
  qed
next
  case (JArr xs)
  show ?case unfolding parses_def
  proof (intro allI impI)
    fix f and rest :: jstr
    assume f: "length (stringify (JArr xs)) \<le> f"
    then obtain g where g: "f = Suc g" by (cases f) auto
    show "parseValue f (stringify (JArr xs) @ rest) = Some (JArr xs, rest)"
    proof (cases "xs = []")
      case False
      have wf: "\<forall>x \<in> set xs. wf_json x" using JArr.prems by (simp add: list_all_iff)
      then have "\<forall>x \<in> set xs. \<not> delimited (stringify x)"
        using stringify_not_delimited [where x = "[]"] by auto
      from join_start [OF this False] obtain c r
        where c: "joinComma (map stringify xs) = c # r" "c \<noteq> 0x5D" by blast
      have "parseElements g (joinComma (map stringify xs) @ 0x5D # rest) = Some (xs, rest)"
        by (rule parseElements_join [OF False]) (use JArr.IH wf f g in auto)
      with g c show ?thesis by simp
    qed (simp add: g)
  qed
next
  case (JObj ms)
  show ?case unfolding parses_def
  proof (intro allI impI)
    fix f and rest :: jstr
    assume f: "length (stringify (JObj ms)) \<le> f"
    then obtain g where g: "f = Suc g" by (cases f) auto
    show "parseValue f (stringify (JObj ms) @ rest) = Some (JObj ms, rest)"
    proof (cases "ms = []")
      case False
      have "\<forall>m \<in> set ms. \<not> delimited (memberText m)" by (auto simp: quoteJson_def)
      from join_start [OF this False] obtain c r
        where c: "joinComma (map memberText ms) = c # r" "c \<noteq> 0x7D" by blast
      have "\<forall>m \<in> set ms. parses (snd m)"
        using JObj by (auto simp: list_all_iff)
      then have "parseMembers g (joinComma (map memberText ms) @ 0x7D # rest) = Some (ms, rest)"
        by (rule parseMembers_join [OF False]) (use f g in auto)
      with g c show ?thesis by simp
    qed (simp add: g)
  qed
next
  case JNull
  show ?case unfolding parses_def
  proof (intro allI impI)
    fix f and rest :: jstr
    assume "length (stringify JNull) \<le> f"
    then obtain g where "f = Suc g" by (cases f) auto
    then show "parseValue f (stringify JNull @ rest) = Some (JNull, rest)" by simp
  qed
next
  case (JBool b)
  show ?case unfolding parses_def
  proof (intro allI impI)
    fix f and rest :: jstr
    assume "length (stringify (JBool b)) \<le> f"
    then obtain g where "f = Suc g" by (cases f) (auto split: if_splits)
    then show "parseValue f (stringify (JBool b) @ rest) = Some (JBool b, rest)" by simp
  qed
qed

lemma parseJson_stringify: "wf_json j \<Longrightarrow> parseJson (stringify j) = Some j"
  using wf_parses [of j] parsesD [of j "Suc (length (stringify j))" "[]"]
  by (simp add: parseJson_def del: parseValue.simps)

end
