(* ===== verification/Log_Store.thy ===== *)
theory Log_Store
  imports Run_Records Json_Parse
begin

text \<open>
  The durable Session log (core/durable/session-event-log.ts): an index, pages of entries, each an
  event in line or a bounded projection of it beside the chunks of its exact text, and every
  operation of the module over them. What an event is as a JSON object, its decoder and SHA-256 are
  the fields of \<open>log_codec\<close>; \<open>JSON.stringify\<close> and \<open>JSON.parse\<close> are those of \<open>Json\<close> and \<open>Json_Parse\<close>.
  An operation that throws is rolled back with its storage transaction, so an error carries no store.
\<close>

section \<open>The stored shapes\<close>

definition SESSION_EVENT_PAGE_BYTES_V1 :: nat where "SESSION_EVENT_PAGE_BYTES_V1 = 256 * 1024"
definition SESSION_EVENT_INLINE_BYTES_V1 :: nat where "SESSION_EVENT_INLINE_BYTES_V1 = 16 * 1024"
definition SESSION_EVENT_EXCERPT_BYTES_V1 :: nat where "SESSION_EVENT_EXCERPT_BYTES_V1 = 8 * 1024"

record log_codec =
  lc_json :: "session_event \<Rightarrow> json"
  lc_decode :: "json \<Rightarrow> session_event option"
  lc_sha256 :: "jstr \<Rightarrow> string"

record log_index =
  li_version :: nat
  li_session :: string
  li_events :: nat
  li_pages :: nat

record cut_entry =
  ce_type :: string
  ce_seq :: nat
  ce_projection :: json
  ce_chunks :: nat
  ce_bytes :: nat
  ce_sha256 :: string

datatype log_entry = Inline session_event | Cut cut_entry

record log_page =
  lp_version :: nat
  lp_session :: string
  lp_page :: nat
  lp_start :: nat
  lp_entries :: "log_entry list"

text \<open>The families of the storage the module reads and writes. \<open>ls_legacy\<close> is \<open>latest-events\<close>.\<close>

record log_store =
  ls_index :: "log_index kv"
  ls_pages :: "log_page kv"
  ls_payload :: "jstr kv"
  ls_legacy :: "json option"
  ls_heads :: head_store
  ls_runs :: "stored_run kv"

datatype log_error =
    Index_Invalid string
  | Page_Invalid nat string
  | Pages_Not_Contiguous string
  | Wrong_Count string
  | Log_Not_Contiguous string
  | Log_Range_Invalid
  | Payload_Missing nat nat
  | Payload_Corrupt nat
  | Payload_Not_Chunked
  | Chunk_Too_Large
  | Event_Not_Decoded
  | Legacy_Not_A_List
  | Migration_Wrote_No_Index
  | Batch_Not_Contiguous
  | Projection_Exceeds_Page
  | Repair_Moved_Event
  | Truncate_Boundary_Invalid
  | Run_Range_Lost string
  | Context_Failed context_error

section \<open>Keys\<close>

definition sessionKeyPart :: "string \<Rightarrow> string" where
  "sessionKeyPart sessionId = contextSessionPart sessionId"

definition sessionEventLogIndexKeyV1 :: "string \<Rightarrow> string" where
  "sessionEventLogIndexKeyV1 sessionId = SESSION_EVENT_LOG_INDEX_PREFIX @ sessionKeyPart sessionId"

definition sessionEventLogPagePrefixV1 :: "string \<Rightarrow> string" where
  "sessionEventLogPagePrefixV1 sessionId =
     SESSION_EVENT_LOG_PAGE_PREFIX @ sessionKeyPart sessionId @ '':''"

definition sessionEventLogPageKey :: "string \<Rightarrow> nat \<Rightarrow> string" where
  "sessionEventLogPageKey sessionId page =
     sessionEventLogPagePrefixV1 sessionId @ padStart 10 (decimal page)"

definition sessionEventPayloadPrefixV1 :: "string \<Rightarrow> string" where
  "sessionEventPayloadPrefixV1 sessionId =
     SESSION_EVENT_PAYLOAD_PREFIX @ sessionKeyPart sessionId @ '':''"

definition sessionEventPayloadKey :: "string \<Rightarrow> nat \<Rightarrow> nat \<Rightarrow> string" where
  "sessionEventPayloadKey sessionId eventSeq chunk =
     sessionEventPayloadPrefixV1 sessionId @ padStart 12 (decimal eventSeq) @ '':'' @
     padStart 6 (decimal chunk)"

section \<open>Events as JSON\<close>

fun eventType :: "event_body \<Rightarrow> string" where
  "eventType (Session_Created at) = ''session/created''"
| "eventType (Session_Disposed at) = ''session/disposed''"
| "eventType (Turn_Start t) = ''turn/start''"
| "eventType (Turn_Admission t ty) = ''turn/admission''"
| "eventType (Turn_End t outcome reason) = ''turn/end''"
| "eventType (Step_Start t s) = ''step/start''"
| "eventType (Step_End t s outcome) = ''step/end''"
| "eventType (User_Message t s m txt atts) = ''user/message''"
| "eventType (Model_Request t s rid request) = ''model/request''"
| "eventType (Model_Response_Failed t s rid failure) = ''model/response-failed''"
| "eventType (Assistant_Message t s rid txt calls state) = ''assistant/message''"
| "eventType (Tool_Call intent) = ''tool/call''"
| "eventType (Tool_Result outcome) = ''tool/result''"
| "eventType (Other_Event ty t payload) = ty"

definition jnat :: "nat \<Rightarrow> json" where "jnat n = JNum (decimal n)"
definition jtext :: "string \<Rightarrow> json" where "jtext s = JStr (js s)"

definition serialized :: "log_codec \<Rightarrow> session_event \<Rightarrow> jstr" where
  "serialized c event = stringify (lc_json c event)"

fun jlist :: "json option \<Rightarrow> json list" where
  "jlist (Some (JArr xs)) = xs"
| "jlist _ = []"

fun jstring :: "json option \<Rightarrow> jstr" where
  "jstring (Some (JStr s)) = s"
| "jstring _ = []"

fun isNumber :: "json option \<Rightarrow> bool" where
  "isNumber (Some (JNum n)) = True"
| "isNumber _ = False"

fun isScalar :: "json option \<Rightarrow> bool" where
  "isScalar (Some (JStr s)) = True"
| "isScalar (Some (JNum n)) = True"
| "isScalar (Some (JBool b)) = True"
| "isScalar _ = False"

definition member :: "string \<Rightarrow> json option \<Rightarrow> (string \<times> json) list" where
  "member key v = (case v of None \<Rightarrow> [] | Some j \<Rightarrow> [(key, j)])"

definition eventCoordinates :: "json \<Rightarrow> session_event \<Rightarrow> (string \<times> json) list" where
  "eventCoordinates record event =
     [(''type'', jtext (eventType (body event))), (''seq'', jnat (seq event)),
      (''timestamp'', jtext (timestamp event))] @
     (if isNumber (jget record ''turn'') then member ''turn'' (jget record ''turn'') else []) @
     (if isNumber (jget record ''step'') then member ''step'' (jget record ''step'') else [])"

definition messageExcerpt :: "json option \<Rightarrow> jstr" where
  "messageExcerpt message =
     (case message of
        None \<Rightarrow> []
      | Some m \<Rightarrow>
          let role = jstring (jget m ''role''); content = jstring (jget m ''content'')
          in if role = js ''tool''
             then role @ js ''('' @ jstring (jget m ''name'') @ js ''): '' @ content
             else role @ js '': '' @ content)"

definition namedFields :: "string list" where
  "namedFields = [''requestId'', ''messageId'', ''occurrenceId'', ''effectId'', ''callId'', ''name'',
     ''packageId'', ''status'', ''outcome'', ''isError'']"

definition cutProjection :: "log_codec \<Rightarrow> session_event \<Rightarrow> jstr \<Rightarrow> string \<Rightarrow> json" where
  "cutProjection c event text0 digest =
     (let record = lc_json c event;
          base = eventCoordinates record event;
          cut = (''cut'', JObj [(''marker'', jtext ''content-cut''),
                   (''originalBytes'', jnat (utf8_length text0)), (''sha256'', jtext digest)])
      in if eventType (body event) = ''model/request''
         then let request = (case jget record ''request'' of None \<Rightarrow> JObj [] | Some r \<Rightarrow> r);
                  requestSerialized = stringify request;
                  messages = jlist (jget request ''messages'');
                  lastMessage = (if messages = [] then None else Some (last messages));
                  part = SESSION_EVENT_EXCERPT_BYTES_V1 div 2
              in JObj (base @ [cut, (''request'', JObj (
                   member ''requestId'' (jget request ''requestId'') @
                   member ''provider'' (jget request ''provider'') @
                   member ''model'' (jget request ''model'') @
                   member ''modelBinding'' (jget request ''modelBinding'') @
                   [(''messageCount'', jnat (length messages)),
                    (''toolCount'', jnat (length (jlist (jget request ''tools'')))),
                    (''bytes'', jnat (utf8_length requestSerialized)),
                    (''sha256'', jtext (lc_sha256 c requestSerialized)),
                    (''excerpt'', JObj
                       [(''system'', JStr (cutUtf8 (jstring (jget request ''system'')) part)),
                        (''lastMessage'', JStr (cutUtf8 (messageExcerpt lastMessage) part))]),
                    (''truncated'', JBool True)]))])
         else JObj (base @
                concat (map (\<lambda>key. if isScalar (jget record key)
                                   then member key (jget record key) else []) namedFields) @
                [cut, (''excerpt'', JStr (cutUtf8 text0 SESSION_EVENT_EXCERPT_BYTES_V1)),
                 (''truncated'', JBool True)]))"

definition entryJson :: "log_codec \<Rightarrow> log_entry \<Rightarrow> json" where
  "entryJson c entry =
     (case entry of
        Inline event \<Rightarrow> JObj [(''storage'', jtext ''inline''), (''event'', lc_json c event)]
      | Cut ce \<Rightarrow> JObj [(''storage'', jtext ''cut''), (''projection'', ce_projection ce),
          (''payload'', JObj [(''chunks'', jnat (ce_chunks ce)), (''bytes'', jnat (ce_bytes ce)),
                              (''sha256'', jtext (ce_sha256 ce))])])"

definition pageJson :: "log_codec \<Rightarrow> log_page \<Rightarrow> json" where
  "pageJson c page =
     JObj [(''schemaVersion'', jnat (lp_version page)), (''sessionId'', jtext (lp_session page)),
       (''page'', jnat (lp_page page)), (''startSeq'', jnat (lp_start page)),
       (''entries'', JArr (map (entryJson c) (lp_entries page)))]"

definition utf8Bytes :: "json \<Rightarrow> nat" where
  "utf8Bytes v = utf8_length (stringify v)"

fun storedEventSeq :: "log_entry \<Rightarrow> nat" where
  "storedEventSeq (Inline event) = seq event"
| "storedEventSeq (Cut ce) = ce_seq ce"

section \<open>Reading\<close>

definition requireIndex :: "log_index option \<Rightarrow> string \<Rightarrow> log_error + log_index option" where
  "requireIndex input sessionId =
     (case input of
        None \<Rightarrow> Inr None
      | Some i \<Rightarrow>
          if li_version i \<noteq> 1 \<or> li_session i \<noteq> sessionId \<or> li_events i > MAX_SAFE_INTEGER
             \<or> li_pages i > MAX_SAFE_INTEGER
          then Inl (Index_Invalid sessionId)
          else Inr (Some i))"

definition requirePage :: "log_page option \<Rightarrow> string \<Rightarrow> nat \<Rightarrow> log_error + log_page" where
  "requirePage input sessionId page =
     (case input of
        None \<Rightarrow> Inl (Page_Invalid page sessionId)
      | Some p \<Rightarrow>
          if lp_version p \<noteq> 1 \<or> lp_session p \<noteq> sessionId \<or> lp_page p \<noteq> page
             \<or> lp_start p > MAX_SAFE_INTEGER
          then Inl (Page_Invalid page sessionId)
          else Inr p)"

definition indexOf :: "log_store \<Rightarrow> string \<Rightarrow> log_error + log_index option" where
  "indexOf st sessionId =
     requireIndex (kv_get (ls_index st) (sessionEventLogIndexKeyV1 sessionId)) sessionId"

definition pageAt :: "log_store \<Rightarrow> string \<Rightarrow> nat \<Rightarrow> log_error + log_page" where
  "pageAt st sessionId page =
     requirePage (kv_get (ls_pages st) (sessionEventLogPageKey sessionId page)) sessionId page"

definition decodeSessionEvent :: "log_codec \<Rightarrow> json \<Rightarrow> log_error + session_event" where
  "decodeSessionEvent c v =
     (case lc_decode c v of None \<Rightarrow> Inl Event_Not_Decoded | Some event \<Rightarrow> Inr event)"

fun payloadParts :: "log_store \<Rightarrow> string \<Rightarrow> nat \<Rightarrow> nat list \<Rightarrow> log_error + jstr list" where
  "payloadParts st sessionId eventSeq [] = Inr []"
| "payloadParts st sessionId eventSeq (chunk # chunks) =
     (case kv_get (ls_payload st) (sessionEventPayloadKey sessionId eventSeq chunk) of
        None \<Rightarrow> Inl (Payload_Missing eventSeq chunk)
      | Some part \<Rightarrow>
          rbind (payloadParts st sessionId eventSeq chunks) (\<lambda>parts. Inr (part # parts)))"

definition payloadText :: "log_codec \<Rightarrow> log_store \<Rightarrow> string \<Rightarrow> cut_entry \<Rightarrow> log_error + jstr" where
  "payloadText c st sessionId ce =
     rbind (payloadParts st sessionId (ce_seq ce) [0..<ce_chunks ce]) (\<lambda>parts.
       let text0 = concat parts
       in if utf8_length text0 \<noteq> ce_bytes ce \<or> lc_sha256 c text0 \<noteq> ce_sha256 ce
          then Inl (Payload_Corrupt (ce_seq ce))
          else Inr text0)"

definition exactEvent :: "log_codec \<Rightarrow> log_store \<Rightarrow> string \<Rightarrow> log_entry \<Rightarrow> log_error + session_event" where
  "exactEvent c st sessionId entry =
     (case entry of
        Inline event \<Rightarrow> decodeSessionEvent c (lc_json c event)
      | Cut ce \<Rightarrow>
          rbind (payloadText c st sessionId ce) (\<lambda>text0.
            case parseJson text0 of
              None \<Rightarrow> Inl Event_Not_Decoded
            | Some v \<Rightarrow> decodeSessionEvent c v))"

definition numberOr0 :: "json \<Rightarrow> string \<Rightarrow> json" where
  "numberOr0 v key =
     (case jget v key of Some (JNum n) \<Rightarrow> JNum n | _ \<Rightarrow> JNum ''0'')"

definition displayModelRequest :: "json \<Rightarrow> json" where
  "displayModelRequest projection =
     (let request = (case jget projection ''request'' of None \<Rightarrow> JObj [] | Some r \<Rightarrow> r);
          excerpt = (case jget request ''excerpt'' of None \<Rightarrow> JObj [] | Some e \<Rightarrow> e)
      in JObj ([(''type'', jtext ''model/request'')] @
           member ''seq'' (jget projection ''seq'') @
           member ''timestamp'' (jget projection ''timestamp'') @
           [(''turn'', numberOr0 projection ''turn''), (''step'', numberOr0 projection ''step''),
            (''request'', JObj (
              [(''requestId'', JStr (jstring (jget request ''requestId''))),
               (''provider'', JStr (jstring (jget request ''provider''))),
               (''model'', JStr (jstring (jget request ''model''))),
               (''system'', JStr (jstring (jget excerpt ''system''))),
               (''messages'', JArr []), (''tools'', JArr [])] @
              member ''modelBinding'' (jget request ''modelBinding'')))]))"

definition displayEvent :: "log_codec \<Rightarrow> log_store \<Rightarrow> string \<Rightarrow> log_entry \<Rightarrow> log_error + session_event" where
  "displayEvent c st sessionId entry =
     (case entry of
        Cut ce \<Rightarrow>
          if ce_type ce = ''model/request''
          then decodeSessionEvent c (displayModelRequest (ce_projection ce))
          else exactEvent c st sessionId entry
      | Inline event \<Rightarrow> exactEvent c st sessionId entry)"

definition legacyEvents :: "log_codec \<Rightarrow> log_store \<Rightarrow> log_error + session_event list" where
  "legacyEvents c st =
     (case ls_legacy st of
        None \<Rightarrow> Inr []
      | Some (JArr xs) \<Rightarrow> rmap (decodeSessionEvent c) xs
      | Some _ \<Rightarrow> Inl Legacy_Not_A_List)"

fun readPages :: "log_codec \<Rightarrow> log_store \<Rightarrow> string \<Rightarrow> nat list \<Rightarrow> session_event list \<Rightarrow>
   log_error + session_event list" where
  "readPages c st sessionId [] events = Inr events"
| "readPages c st sessionId (page # pages) events =
     rbind (pageAt st sessionId page) (\<lambda>stored.
     if lp_start stored \<noteq> length events then Inl (Pages_Not_Contiguous sessionId)
     else rbind (rmap (exactEvent c st sessionId) (lp_entries stored)) (\<lambda>more.
          readPages c st sessionId pages (events @ more)))"

definition readLog :: "log_codec \<Rightarrow> log_store \<Rightarrow> string \<Rightarrow> log_error + session_event list" where
  "readLog c st sessionId =
     rbind (indexOf st sessionId) (\<lambda>index.
       case index of
         None \<Rightarrow> legacyEvents c st
       | Some i \<Rightarrow>
           rbind (readPages c st sessionId [0..<li_pages i] []) (\<lambda>events.
             if length events \<noteq> li_events i then Inl (Wrong_Count sessionId)
             else if \<not> contiguousFrom 0 events then Inl (Log_Not_Contiguous sessionId)
             else Inr events))"


section \<open>Reading a range\<close>

definition safeRange :: "nat \<Rightarrow> nat \<Rightarrow> bool" where
  "safeRange startSeq endSeq \<longleftrightarrow>
     startSeq \<le> MAX_SAFE_INTEGER \<and> endSeq \<le> MAX_SAFE_INTEGER \<and> startSeq \<le> endSeq"

function pageBisect ::
  "log_store \<Rightarrow> string \<Rightarrow> nat \<Rightarrow> int \<Rightarrow> int \<Rightarrow> (nat \<times> log_page) option \<Rightarrow>
   log_error + (nat \<times> log_page) option" where
  "pageBisect st sessionId eventSeq low high found =
     (if low \<le> high
      then (let middle = (low + high) div 2
            in case pageAt st sessionId (nat middle) of
                 Inl e \<Rightarrow> Inl e
               | Inr stored \<Rightarrow>
                   if lp_start stored \<le> eventSeq
                   then pageBisect st sessionId eventSeq (middle + 1) high (Some (nat middle, stored))
                   else pageBisect st sessionId eventSeq low (middle - 1) found)
      else Inr found)"
  by pat_completeness auto
termination
  by (relation "measure (\<lambda>(st, sessionId, eventSeq, low, high, found). nat (high + 1 - low))") auto

declare pageBisect.simps [simp del]

definition pageContaining ::
  "log_store \<Rightarrow> string \<Rightarrow> log_index \<Rightarrow> nat \<Rightarrow> log_error + (nat \<times> log_page) option" where
  "pageContaining st sessionId index eventSeq =
     pageBisect st sessionId eventSeq 0 (int (li_pages index) - 1) None"

text \<open>One page of the loop of \<open>rangeEvents\<close>: the flag says that the loop returned.\<close>

fun rangeEntries ::
  "(log_entry \<Rightarrow> log_error + session_event) \<Rightarrow> string \<Rightarrow> nat \<Rightarrow> nat \<Rightarrow> log_entry list \<Rightarrow>
   session_event list \<Rightarrow> log_error + bool \<times> session_event list" where
  "rangeEntries readEntry sessionId startSeq lastSeq [] events = Inr (False, events)"
| "rangeEntries readEntry sessionId startSeq lastSeq (entry # entries) events =
     (let s = storedEventSeq entry
      in if s < startSeq then rangeEntries readEntry sessionId startSeq lastSeq entries events
         else if s \<ge> lastSeq then Inr (True, events)
         else if s \<noteq> startSeq + length events then Inl (Log_Not_Contiguous sessionId)
         else rbind (readEntry entry) (\<lambda>event.
                rangeEntries readEntry sessionId startSeq lastSeq entries (events @ [event])))"

fun rangePages ::
  "(log_entry \<Rightarrow> log_error + session_event) \<Rightarrow> log_store \<Rightarrow> string \<Rightarrow> nat \<Rightarrow> nat \<Rightarrow> nat \<times> log_page \<Rightarrow>
   nat list \<Rightarrow> session_event list \<Rightarrow> log_error + bool \<times> session_event list" where
  "rangePages readEntry st sessionId startSeq lastSeq located [] events = Inr (False, events)"
| "rangePages readEntry st sessionId startSeq lastSeq located (page # pages) events =
     rbind (if page = fst located then Inr (snd located) else pageAt st sessionId page) (\<lambda>stored.
     rbind (rangeEntries readEntry sessionId startSeq lastSeq (lp_entries stored) events)
       (\<lambda>(returned, events').
         if returned then Inr (True, events')
         else if length events' = lastSeq - startSeq then Inr (False, events')
         else rangePages readEntry st sessionId startSeq lastSeq located pages events'))"

definition rangeEvents ::
  "log_codec \<Rightarrow> log_store \<Rightarrow> string \<Rightarrow> nat \<Rightarrow> nat \<Rightarrow> bool \<Rightarrow> log_error + session_event list" where
  "rangeEvents c st sessionId startSeq endSeq display =
     (if \<not> safeRange startSeq endSeq then Inl Log_Range_Invalid
      else rbind (indexOf st sessionId) (\<lambda>index.
        case index of
          None \<Rightarrow> rbind (readLog c st sessionId) (\<lambda>events.
                    Inr (drop startSeq (take endSeq events)))
        | Some i \<Rightarrow>
            let lastSeq = min endSeq (li_events i);
                readEntry = (if display then displayEvent c st sessionId
                             else exactEvent c st sessionId)
            in if startSeq \<ge> lastSeq then Inr []
               else rbind (pageContaining st sessionId i startSeq) (\<lambda>located.
                 case located of
                   None \<Rightarrow> Inl (Pages_Not_Contiguous sessionId)
                 | Some loc \<Rightarrow>
                     rbind (rangePages readEntry st sessionId startSeq lastSeq loc
                              [fst loc..<li_pages i] [])
                       (\<lambda>(returned, events).
                         if returned \<or> length events = lastSeq - startSeq then Inr events
                         else Inl (Log_Not_Contiguous sessionId)))))"

definition readRange ::
  "log_codec \<Rightarrow> log_store \<Rightarrow> string \<Rightarrow> nat \<Rightarrow> nat \<Rightarrow> log_error + session_event list" where
  "readRange c st sessionId startSeq endSeq = rangeEvents c st sessionId startSeq endSeq False"

definition readDisplayRange ::
  "log_codec \<Rightarrow> log_store \<Rightarrow> string \<Rightarrow> nat \<Rightarrow> nat \<Rightarrow> log_error + session_event list" where
  "readDisplayRange c st sessionId startSeq endSeq = rangeEvents c st sessionId startSeq endSeq True"

fun inlineEntries ::
  "log_codec \<Rightarrow> (string \<Rightarrow> bool) \<Rightarrow> nat \<Rightarrow> nat \<Rightarrow> log_entry list \<Rightarrow> session_event list \<Rightarrow>
   log_error + bool \<times> session_event list" where
  "inlineEntries c types startSeq lastSeq [] events = Inr (False, events)"
| "inlineEntries c types startSeq lastSeq (entry # entries) events =
     (let s = storedEventSeq entry
      in if s < startSeq then inlineEntries c types startSeq lastSeq entries events
         else if s \<ge> lastSeq then Inr (True, events)
         else case entry of
             Cut ce \<Rightarrow> inlineEntries c types startSeq lastSeq entries events
           | Inline event \<Rightarrow>
               if \<not> types (eventType (body event))
               then inlineEntries c types startSeq lastSeq entries events
               else rbind (decodeSessionEvent c (lc_json c event)) (\<lambda>decoded.
                      inlineEntries c types startSeq lastSeq entries (events @ [decoded])))"

fun inlinePages ::
  "log_codec \<Rightarrow> log_store \<Rightarrow> string \<Rightarrow> (string \<Rightarrow> bool) \<Rightarrow> nat \<Rightarrow> nat \<Rightarrow> nat \<times> log_page \<Rightarrow> nat list \<Rightarrow>
   session_event list \<Rightarrow> log_error + session_event list" where
  "inlinePages c st sessionId types startSeq lastSeq located [] events = Inr events"
| "inlinePages c st sessionId types startSeq lastSeq located (page # pages) events =
     rbind (if page = fst located then Inr (snd located) else pageAt st sessionId page) (\<lambda>stored.
     rbind (inlineEntries c types startSeq lastSeq (lp_entries stored) events)
       (\<lambda>(returned, events').
         if returned then Inr events'
         else inlinePages c st sessionId types startSeq lastSeq located pages events'))"

text \<open>\<open>types\<close> is the membership test of the set, \<open>noTypes\<close> that it is empty.\<close>

definition readInlineEventsOfTypes ::
  "log_codec \<Rightarrow> log_store \<Rightarrow> string \<Rightarrow> string list \<Rightarrow> nat \<Rightarrow> nat \<Rightarrow> log_error + session_event list" where
  "readInlineEventsOfTypes c st sessionId types startSeq endSeq =
     (if \<not> safeRange startSeq endSeq then Inl Log_Range_Invalid
      else if types = [] then Inr []
      else rbind (indexOf st sessionId) (\<lambda>index.
        case index of
          None \<Rightarrow> rbind (readLog c st sessionId) (\<lambda>events.
            Inr (filter (\<lambda>event. eventType (body event) \<in> set types
                   \<and> startSeq \<le> seq event \<and> seq event < endSeq) events))
        | Some i \<Rightarrow>
            let lastSeq = min endSeq (li_events i)
            in if startSeq \<ge> lastSeq then Inr []
               else rbind (if startSeq = 0
                           then rbind (pageAt st sessionId 0) (\<lambda>stored. Inr (Some (0, stored)))
                           else pageContaining st sessionId i startSeq) (\<lambda>located.
                 case located of
                   None \<Rightarrow> Inl (Pages_Not_Contiguous sessionId)
                 | Some loc \<Rightarrow>
                     inlinePages c st sessionId (\<lambda>t. t \<in> set types) startSeq lastSeq loc
                       [fst loc..<li_pages i] [])))"

section \<open>Writing\<close>

fun putChunks :: "log_store \<Rightarrow> string \<Rightarrow> nat \<Rightarrow> nat \<Rightarrow> jstr list \<Rightarrow> log_error + log_store" where
  "putChunks st sessionId eventSeq chunk [] = Inr st"
| "putChunks st sessionId eventSeq chunk (part # parts) =
     (if utf8_length part > SESSION_EVENT_PAYLOAD_CHUNK_BYTES_V1 then Inl Chunk_Too_Large
      else putChunks
             (st\<lparr>ls_payload := kv_put (sessionEventPayloadKey sessionId eventSeq chunk) part
                                (ls_payload st)\<rparr>)
             sessionId eventSeq (Suc chunk) parts)"

definition storedEvent ::
  "log_codec \<Rightarrow> log_store \<Rightarrow> string \<Rightarrow> session_event \<Rightarrow> log_error + log_entry \<times> log_store" where
  "storedEvent c st sessionId event =
     (let text0 = serialized c event; bytes = utf8_length text0
      in if eventType (body event) \<noteq> ''model/request'' \<and> bytes \<le> SESSION_EVENT_INLINE_BYTES_V1
         then Inr (Inline event, st)
         else let digest = lc_sha256 c text0
              in case payloadChunks text0 of
                   Inl e \<Rightarrow> Inl Payload_Not_Chunked
                 | Inr chunks \<Rightarrow>
                     rbind (putChunks st sessionId (seq event) 0 chunks) (\<lambda>st'.
                       Inr (Cut \<lparr>ce_type = eventType (body event), ce_seq = seq event,
                              ce_projection = cutProjection c event text0 digest,
                              ce_chunks = length chunks, ce_bytes = bytes, ce_sha256 = digest\<rparr>,
                            st')))"

fun storedEvents ::
  "log_codec \<Rightarrow> log_store \<Rightarrow> string \<Rightarrow> session_event list \<Rightarrow> log_error + log_entry list \<times> log_store" where
  "storedEvents c st sessionId [] = Inr ([], st)"
| "storedEvents c st sessionId (event # events) =
     rbind (storedEvent c st sessionId event) (\<lambda>(entry, st').
     rbind (storedEvents c st' sessionId events) (\<lambda>(entries, st''). Inr (entry # entries, st'')))"

definition putPage :: "string \<Rightarrow> nat \<Rightarrow> log_page \<Rightarrow> log_store \<Rightarrow> log_store" where
  "putPage sessionId pageNumber page st =
     st\<lparr>ls_pages := kv_put (sessionEventLogPageKey sessionId pageNumber) page (ls_pages st)\<rparr>"

definition putIndex :: "string \<Rightarrow> nat \<Rightarrow> nat \<Rightarrow> log_store \<Rightarrow> log_store" where
  "putIndex sessionId eventCount pageCount st =
     st\<lparr>ls_index := kv_put (sessionEventLogIndexKeyV1 sessionId)
          \<lparr>li_version = 1, li_session = sessionId, li_events = eventCount, li_pages = pageCount\<rparr>
          (ls_index st)\<rparr>"

text \<open>The loop of \<open>appendStored\<close>: the page being filled, its number, whether it must be written and
  the page count.\<close>

fun fillPages ::
  "log_codec \<Rightarrow> string \<Rightarrow> log_entry list \<Rightarrow> log_page \<Rightarrow> nat \<Rightarrow> bool \<Rightarrow> nat \<Rightarrow> log_store \<Rightarrow>
   log_error + log_page \<times> nat \<times> bool \<times> nat \<times> log_store" where
  "fillPages c sessionId [] page pageNumber dirty pageCount st =
     Inr (page, pageNumber, dirty, pageCount, st)"
| "fillPages c sessionId (entry # entries) page pageNumber dirty pageCount st =
     (let candidate = page\<lparr>lp_entries := lp_entries page @ [entry]\<rparr>
      in if utf8Bytes (pageJson c candidate) \<le> SESSION_EVENT_PAGE_BYTES_V1
         then fillPages c sessionId entries candidate pageNumber True
                (if pageCount = 0 then 1 else pageCount) st
         else if lp_entries page = [] then Inl Projection_Exceeds_Page
         else let st' = (if dirty then putPage sessionId pageNumber page st else st);
                  page' = \<lparr>lp_version = 1, lp_session = sessionId, lp_page = pageNumber + 1,
                           lp_start = storedEventSeq entry, lp_entries = [entry]\<rparr>
              in if utf8Bytes (pageJson c page') > SESSION_EVENT_PAGE_BYTES_V1
                 then Inl Projection_Exceeds_Page
                 else fillPages c sessionId entries page' (pageNumber + 1) True
                        (pageNumber + 1 + 1) st')"

definition appendStored ::
  "log_codec \<Rightarrow> log_store \<Rightarrow> string \<Rightarrow> log_index \<Rightarrow> log_entry list \<Rightarrow> log_error + log_store" where
  "appendStored c st sessionId index entries =
     (let pageNumber = li_pages index - 1
      in rbind (if li_pages index = 0
                then Inr \<lparr>lp_version = 1, lp_session = sessionId, lp_page = 0,
                          lp_start = li_events index, lp_entries = []\<rparr>
                else pageAt st sessionId pageNumber) (\<lambda>page.
         rbind (fillPages c sessionId entries page pageNumber False (li_pages index) st)
           (\<lambda>(page', pageNumber', dirty, pageCount, st').
             Inr (putIndex sessionId (li_events index + length entries) pageCount
                    (if dirty then putPage sessionId pageNumber' page' st' else st')))))"

fun deleteChunks :: "string \<Rightarrow> nat \<Rightarrow> nat list \<Rightarrow> log_store \<Rightarrow> log_store" where
  "deleteChunks sessionId eventSeq [] st = st"
| "deleteChunks sessionId eventSeq (chunk # chunks) st =
     deleteChunks sessionId eventSeq chunks
       (st\<lparr>ls_payload := kv_delete (sessionEventPayloadKey sessionId eventSeq chunk) (ls_payload st)\<rparr>)"

fun deleteEntryPayloads :: "string \<Rightarrow> log_entry list \<Rightarrow> log_store \<Rightarrow> log_store" where
  "deleteEntryPayloads sessionId [] st = st"
| "deleteEntryPayloads sessionId (Inline event # entries) st = deleteEntryPayloads sessionId entries st"
| "deleteEntryPayloads sessionId (Cut ce # entries) st =
     deleteEntryPayloads sessionId entries (deleteChunks sessionId (ce_seq ce) [0..<ce_chunks ce] st)"

definition deletePagePayloads :: "string \<Rightarrow> log_page \<Rightarrow> log_store \<Rightarrow> log_store" where
  "deletePagePayloads sessionId stored st = deleteEntryPayloads sessionId (lp_entries stored) st"

definition deletePage :: "string \<Rightarrow> nat \<Rightarrow> log_store \<Rightarrow> log_store" where
  "deletePage sessionId page st =
     st\<lparr>ls_pages := kv_delete (sessionEventLogPageKey sessionId page) (ls_pages st)\<rparr>"

fun clearPages :: "string \<Rightarrow> nat list \<Rightarrow> log_store \<Rightarrow> log_error + log_store" where
  "clearPages sessionId [] st = Inr st"
| "clearPages sessionId (page # pages) st =
     rbind (pageAt st sessionId page) (\<lambda>stored.
       clearPages sessionId pages
         (deletePage sessionId page (deletePagePayloads sessionId stored st)))"

definition clearPaged :: "string \<Rightarrow> log_store \<Rightarrow> log_error + log_store" where
  "clearPaged sessionId st =
     rbind (indexOf st sessionId) (\<lambda>index.
     rbind (clearPages sessionId [0..<(case index of None \<Rightarrow> 0 | Some i \<Rightarrow> li_pages i)] st) (\<lambda>st'.
       Inr (st'\<lparr>ls_index := kv_delete (sessionEventLogIndexKeyV1 sessionId) (ls_index st')\<rparr>)))"

section \<open>Run ranges after a rewrite\<close>

fun withoutSeq :: "json \<Rightarrow> json" where
  "withoutSeq (JObj members) = JObj (filter (\<lambda>(k, v). k \<noteq> ''seq'') members)"
| "withoutSeq v = v"

definition eventSignature :: "log_codec \<Rightarrow> session_event \<Rightarrow> jstr" where
  "eventSignature c event = stringify (withoutSeq (lc_json c event))"

text \<open>The coordinate each matched event of the old log has in the new one, in old order; matching
  is greedy.\<close>

fun matchedCoordinates :: "jstr list \<Rightarrow> jstr list \<Rightarrow> nat \<Rightarrow> nat list" where
  "matchedCoordinates [] rewritten rewrittenIndex = []"
| "matchedCoordinates (p # ps) [] rewrittenIndex = []"
| "matchedCoordinates (p # ps) (r # rs) rewrittenIndex =
     (if r = p then rewrittenIndex # matchedCoordinates ps rs (Suc rewrittenIndex)
      else matchedCoordinates (p # ps) rs (Suc rewrittenIndex))"

definition newBoundary :: "nat list \<Rightarrow> nat \<Rightarrow> nat \<Rightarrow> nat \<Rightarrow> nat option" where
  "newBoundary matched previousLength rewrittenLength boundary =
     (if boundary < length matched then Some (matched ! boundary)
      else if boundary \<le> previousLength then Some rewrittenLength
      else None)"

definition safeEventRange :: "(nat \<times> nat) option \<Rightarrow> bool" where
  "safeEventRange coordinates =
     (case coordinates of
        None \<Rightarrow> False
      | Some (startSeq, endSeq) \<Rightarrow> safeRange startSeq endSeq)"

definition rebaseRun ::
  "string \<Rightarrow> (nat \<Rightarrow> nat option) \<Rightarrow> string \<times> stored_run \<Rightarrow> log_error + string \<times> stored_run" where
  "rebaseRun sessionId boundary keyed =
     (case keyed of (key, run) \<Rightarrow>
        if r_sessionId run \<noteq> sessionId \<or> \<not> safeEventRange (r_eventRange run) then Inr (key, run)
        else case r_eventRange run of
            None \<Rightarrow> Inr (key, run)
          | Some (startSeq, endSeq) \<Rightarrow>
              (case (boundary startSeq, boundary endSeq) of
                 (Some startSeq', Some endSeq') \<Rightarrow>
                   Inr (key, run\<lparr>r_previousEventCount := startSeq',
                                 r_eventRange := Some (startSeq', endSeq')\<rparr>)
               | _ \<Rightarrow> Inl (Run_Range_Lost key)))"

definition rebaseRunRanges ::
  "log_codec \<Rightarrow> log_store \<Rightarrow> string \<Rightarrow> session_event list \<Rightarrow> session_event list \<Rightarrow>
   log_error + log_store" where
  "rebaseRunRanges c st sessionId previous rewritten =
     (if previous = [] then Inr st
      else let matched = matchedCoordinates (map (eventSignature c) previous)
                           (map (eventSignature c) rewritten) 0
           in rbind (rmap (rebaseRun sessionId
                            (newBoundary matched (length previous) (length rewritten)))
                       (ls_runs st)) (\<lambda>runs.
                Inr (st\<lparr>ls_runs := runs\<rparr>)))"

section \<open>The operations\<close>

definition withHeads :: "log_store \<Rightarrow> context_error + head_store \<Rightarrow> log_error + log_store" where
  "withHeads st result =
     (case result of Inl e \<Rightarrow> Inl (Context_Failed e) | Inr heads \<Rightarrow> Inr (st\<lparr>ls_heads := heads\<rparr>))"

definition decodedEvents :: "log_codec \<Rightarrow> session_event list \<Rightarrow> log_error + session_event list" where
  "decodedEvents c events = rmap (\<lambda>event. decodeSessionEvent c (lc_json c event)) events"

definition rewriteLog ::
  "log_codec \<Rightarrow> context_projector option \<Rightarrow> log_store \<Rightarrow> string \<Rightarrow> session_event list \<Rightarrow>
   log_error + log_store" where
  "rewriteLog c projector st sessionId events =
     rbind (readLog c st sessionId) (\<lambda>previous.
     rbind (decodedEvents c events) (\<lambda>decoded.
     if \<not> contiguousFrom 0 decoded then Inl (Log_Not_Contiguous sessionId)
     else rbind (clearPaged sessionId st) (\<lambda>st1.
          let empty = \<lparr>li_version = 1, li_session = sessionId, li_events = 0, li_pages = 0\<rparr>;
              st2 = putIndex sessionId 0 0 st1
          in rbind (if decoded = [] then Inr st2
                    else rbind (storedEvents c st2 sessionId decoded) (\<lambda>(entries, st3).
                           appendStored c st3 sessionId empty entries)) (\<lambda>st4.
             rbind (rebaseRunRanges c st4 sessionId previous decoded) (\<lambda>st5.
             let st6 = st5\<lparr>ls_legacy := None\<rparr>
             in withHeads st6
                  (projectSessionReplaceV1 projector (ls_heads st6) sessionId decoded))))))"

definition migrate ::
  "log_codec \<Rightarrow> context_projector option \<Rightarrow> log_store \<Rightarrow> string \<Rightarrow>
   log_error + session_event list \<times> log_store" where
  "migrate c projector st sessionId =
     rbind (indexOf st sessionId) (\<lambda>index.
       case index of
         Some i \<Rightarrow> rbind (readLog c st sessionId) (\<lambda>events. Inr (events, st))
       | None \<Rightarrow>
           rbind (legacyEvents c st) (\<lambda>events.
           rbind (rewriteLog c projector st sessionId events) (\<lambda>st'. Inr (events, st'))))"

definition appendLog ::
  "log_codec \<Rightarrow> context_projector option \<Rightarrow> log_store \<Rightarrow> string \<Rightarrow> session_event list \<Rightarrow> nat option \<Rightarrow>
   log_error + log_store" where
  "appendLog c projector st sessionId events expectedEpoch =
     (if events = [] then Inr st
      else rbind (indexOf st sessionId) (\<lambda>index0.
        rbind (case index0 of
                 Some i \<Rightarrow> Inr (index0, st)
               | None \<Rightarrow>
                   rbind (migrate c projector st sessionId) (\<lambda>(migrated, st').
                   rbind (indexOf st' sessionId) (\<lambda>index. Inr (index, st')))) (\<lambda>(index, st1).
        case index of
          None \<Rightarrow> Inl Migration_Wrote_No_Index
        | Some i \<Rightarrow>
            rbind (decodedEvents c events) (\<lambda>decoded.
            if \<not> contiguousFrom (li_events i) decoded then Inl Batch_Not_Contiguous
            else rbind (storedEvents c st1 sessionId decoded) (\<lambda>(entries, st2).
                 rbind (appendStored c st2 sessionId i entries) (\<lambda>st3.
                 withHeads st3 (projectSessionAppendV1 projector (ls_heads st3) sessionId
                                  decoded expectedEpoch)))))))"

definition ensureLegacyLogDecodable :: "log_codec \<Rightarrow> log_store \<Rightarrow> string \<Rightarrow> log_error + unit" where
  "ensureLegacyLogDecodable c st sessionId =
     (if kv_get (ls_index st) (sessionEventLogIndexKeyV1 sessionId) \<noteq> None then Inr ()
      else rbind (legacyEvents c st) (\<lambda>events. Inr ()))"

definition migrateLegacyBlobIfPresent ::
  "log_codec \<Rightarrow> context_projector option \<Rightarrow> log_store \<Rightarrow> string \<Rightarrow> log_error + log_store" where
  "migrateLegacyBlobIfPresent c projector st sessionId =
     (if kv_get (ls_index st) (sessionEventLogIndexKeyV1 sessionId) \<noteq> None then Inr st
      else if ls_legacy st = None then Inr st
      else rbind (migrate c projector st sessionId) (\<lambda>(events, st'). Inr st'))"

definition eventCount :: "log_store \<Rightarrow> string \<Rightarrow> log_error + nat" where
  "eventCount st sessionId =
     rbind (indexOf st sessionId) (\<lambda>index.
       case index of
         Some i \<Rightarrow> Inr (li_events i)
       | None \<Rightarrow> Inr (case ls_legacy st of Some (JArr xs) \<Rightarrow> length xs | _ \<Rightarrow> 0))"

text \<open>The loop of \<open>truncateSuffix\<close>, from the last page down: the new page count and the store.\<close>

fun truncatePages :: "string \<Rightarrow> nat \<Rightarrow> nat list \<Rightarrow> nat \<Rightarrow> log_store \<Rightarrow> log_error + nat \<times> log_store" where
  "truncatePages sessionId startSeq [] pageCount st = Inr (pageCount, st)"
| "truncatePages sessionId startSeq (page # pages) pageCount st =
     rbind (pageAt st sessionId page) (\<lambda>stored.
       if lp_start stored \<ge> startSeq
       then truncatePages sessionId startSeq pages page
              (deletePage sessionId page (deletePagePayloads sessionId stored st))
       else let kept = filter (\<lambda>entry. storedEventSeq entry < startSeq) (lp_entries stored)
            in if length kept \<noteq> length (lp_entries stored)
               then Inr (pageCount,
                      putPage sessionId page (stored\<lparr>lp_entries := kept\<rparr>)
                        (deleteEntryPayloads sessionId
                           (filter (\<lambda>entry. \<not> storedEventSeq entry < startSeq) (lp_entries stored))
                           st))
               else Inr (pageCount, st))"

definition truncateSuffix ::
  "context_projector option \<Rightarrow> log_store \<Rightarrow> string \<Rightarrow> nat \<Rightarrow> log_error + log_store" where
  "truncateSuffix projector st sessionId startSeq =
     (if startSeq > MAX_SAFE_INTEGER then Inl Truncate_Boundary_Invalid
      else rbind (indexOf st sessionId) (\<lambda>index.
        case index of
          None \<Rightarrow> Inr st
        | Some i \<Rightarrow>
            if startSeq \<ge> li_events i then Inr st
            else rbind (truncatePages sessionId startSeq (rev [0..<li_pages i]) (li_pages i) st)
                   (\<lambda>(pageCount, st').
                     let st'' = putIndex sessionId startSeq pageCount st'
                     in withHeads st''
                          (projectSessionTruncateV1 projector (ls_heads st'') sessionId startSeq))))"

section \<open>Repairing stored events\<close>

text \<open>\<open>repair\<close> is shown an event as stored and answers its replacement or \<open>None\<close>.\<close>

definition rawEntry :: "log_codec \<Rightarrow> log_store \<Rightarrow> string \<Rightarrow> log_entry \<Rightarrow> log_error + json" where
  "rawEntry c st sessionId entry =
     (case entry of
        Inline event \<Rightarrow> Inr (lc_json c event)
      | Cut ce \<Rightarrow>
          rbind (payloadText c st sessionId ce) (\<lambda>text0.
            case parseJson text0 of None \<Rightarrow> Inl Event_Not_Decoded | Some v \<Rightarrow> Inr v))"

fun entryChunks :: "log_entry \<Rightarrow> nat" where
  "entryChunks (Inline event) = 0"
| "entryChunks (Cut ce) = ce_chunks ce"

fun repairEntries ::
  "log_codec \<Rightarrow> string \<Rightarrow> (json \<Rightarrow> json option) \<Rightarrow> log_entry list \<Rightarrow> log_store \<Rightarrow>
   log_error + log_entry list \<times> nat \<times> log_store" where
  "repairEntries c sessionId repair [] st = Inr ([], 0, st)"
| "repairEntries c sessionId repair (entry # entries) st =
     rbind (rawEntry c st sessionId entry) (\<lambda>raw.
       case repair raw of
         None \<Rightarrow>
           rbind (repairEntries c sessionId repair entries st) (\<lambda>(rest, repaired, st').
             Inr (entry # rest, repaired, st'))
       | Some replacement \<Rightarrow>
           rbind (decodeSessionEvent c replacement) (\<lambda>event.
             if seq event \<noteq> storedEventSeq entry then Inl Repair_Moved_Event
             else rbind (storedEvent c st sessionId event) (\<lambda>(next0, st1).
                  rbind (repairEntries c sessionId repair entries
                           (deleteChunks sessionId (seq event)
                              [entryChunks next0..<entryChunks entry] st1))
                    (\<lambda>(rest, repaired, st'). Inr (next0 # rest, Suc repaired, st')))))"

fun repairPages ::
  "log_codec \<Rightarrow> string \<Rightarrow> (json \<Rightarrow> json option) \<Rightarrow> nat list \<Rightarrow> nat \<Rightarrow> log_store \<Rightarrow>
   log_error + nat \<times> log_store" where
  "repairPages c sessionId repair [] repaired st = Inr (repaired, st)"
| "repairPages c sessionId repair (page # pages) repaired st =
     rbind (pageAt st sessionId page) (\<lambda>stored.
     rbind (repairEntries c sessionId repair (lp_entries stored) st) (\<lambda>(entries, more, st').
       repairPages c sessionId repair pages (repaired + more)
         (if more > 0 then putPage sessionId page (stored\<lparr>lp_entries := entries\<rparr>) st' else st')))"

definition repairStoredEvents ::
  "log_codec \<Rightarrow> log_store \<Rightarrow> string \<Rightarrow> (json \<Rightarrow> json option) \<Rightarrow> log_error + nat \<times> log_store" where
  "repairStoredEvents c st sessionId repair =
     rbind (indexOf st sessionId) (\<lambda>index.
       case index of
         None \<Rightarrow> Inr (0, st)
       | Some i \<Rightarrow> repairPages c sessionId repair [0..<li_pages i] 0 st)"

section \<open>Projections\<close>

definition projectionOf :: "log_codec \<Rightarrow> session_event \<Rightarrow> json" where
  "projectionOf c event =
     (let text0 = serialized c event
      in if eventType (body event) \<noteq> ''model/request''
            \<and> utf8_length text0 \<le> SESSION_EVENT_INLINE_BYTES_V1
         then lc_json c event
         else cutProjection c event text0 (lc_sha256 c text0))"

fun entryProjection :: "log_codec \<Rightarrow> log_entry \<Rightarrow> json" where
  "entryProjection c (Inline event) = lc_json c event"
| "entryProjection c (Cut ce) = ce_projection ce"

fun projectionPages :: "log_codec \<Rightarrow> log_store \<Rightarrow> string \<Rightarrow> nat \<Rightarrow> nat \<Rightarrow> nat list \<Rightarrow> log_error + json list" where
  "projectionPages c st sessionId startSeq endSeq [] = Inr []"
| "projectionPages c st sessionId startSeq endSeq (page # pages) =
     rbind (pageAt st sessionId page) (\<lambda>stored.
     rbind (projectionPages c st sessionId startSeq endSeq pages) (\<lambda>rest.
       Inr (map (entryProjection c)
              (filter (\<lambda>entry. startSeq \<le> storedEventSeq entry \<and> storedEventSeq entry < endSeq)
                 (lp_entries stored)) @ rest)))"

definition readProjections ::
  "log_codec \<Rightarrow> log_store \<Rightarrow> string \<Rightarrow> nat \<Rightarrow> nat \<Rightarrow> log_error + json list" where
  "readProjections c st sessionId startSeq endSeq =
     rbind (indexOf st sessionId) (\<lambda>index.
       case index of
         None \<Rightarrow> rbind (readLog c st sessionId) (\<lambda>events.
                   Inr (map (projectionOf c) (drop startSeq (take endSeq events))))
       | Some i \<Rightarrow> projectionPages c st sessionId startSeq endSeq [0..<li_pages i])"

end
