(* ===== verification/Session_Log.thy ===== *)
theory Session_Log
  imports Log_Store "HOL-Library.Sublist"
begin

text \<open>
  What the Session log promises. \<open>log_rep c st sessionId ps events\<close> says that the store holds the
  events \<open>events\<close> in the pages \<open>ps\<close>; reading, range reading, appending, truncating and rewriting are
  refinements of the same operations on the flat list. The interface the kernel uses is the locale
  \<open>event_log\<close>, interpreted on the log's own operations.
\<close>

section \<open>Keys\<close>

lemma parseDecimal_zeros: "parseDecimal (replicate k (CHR ''0'') @ s) = parseDecimal s"
proof (induction s rule: rev_induct)
  case Nil
  have "parseDecimal (replicate k (CHR ''0'')) = 0"
  proof (induction k)
    case (Suc k)
    have "replicate (Suc k) (CHR ''0'') = replicate k (CHR ''0'') @ [CHR ''0'']"
      by (simp add: replicate_append_same)
    with Suc show ?case by (simp add: parseDecimal_append digitVal_def)
  qed (simp add: parseDecimal_def)
  then show ?case by (simp add: parseDecimal_def)
next
  case (snoc c s)
  then show ?case by (simp add: parseDecimal_append append_assoc [symmetric] del: append_assoc)
qed

lemma parseDecimal_padStart [simp]: "parseDecimal (padStart w (decimal n)) = n"
  by (simp add: padStart_def parseDecimal_zeros)

lemma padStart_inject [simp]: "padStart w (decimal m) = padStart w (decimal n) \<longleftrightarrow> m = n"
  by (metis parseDecimal_padStart)

lemma padStart_no_colon: "CHR '':'' \<notin> set (padStart w (decimal n))"
  by (auto simp: padStart_def)

lemma pageKey_inject [simp]:
  "sessionEventLogPageKey s m = sessionEventLogPageKey s n \<longleftrightarrow> m = n"
  by (simp add: sessionEventLogPageKey_def)

lemma payloadKey_inject [simp]:
  "sessionEventPayloadKey s m i = sessionEventPayloadKey s n j \<longleftrightarrow> m = n \<and> i = j"
proof
  assume "sessionEventPayloadKey s m i = sessionEventPayloadKey s n j"
  then have "padStart 12 (decimal m) @ '':'' @ padStart 6 (decimal i) =
      padStart 12 (decimal n) @ '':'' @ padStart 6 (decimal j)"
    by (simp add: sessionEventPayloadKey_def)
  then have "padStart 12 (decimal m) = padStart 12 (decimal n) \<and>
      padStart 6 (decimal i) = padStart 6 (decimal j)"
    by (rule colon_split [OF padStart_no_colon padStart_no_colon])
  then show "m = n \<and> i = j" by simp
qed simp

section \<open>Contiguous lists\<close>

lemma contiguous_nth: "contiguousFrom k events \<Longrightarrow> i < length events \<Longrightarrow> seq (events ! i) = k + i"
proof (induction events arbitrary: k i)
  case (Cons e events)
  then show ?case by (cases i) auto
qed simp

lemma contiguousI: "(\<And>i. i < length events \<Longrightarrow> seq (events ! i) = k + i) \<Longrightarrow> contiguousFrom k events"
proof (induction events arbitrary: k)
  case (Cons e events)
  have "seq e = k" using Cons.prems [of 0] by simp
  moreover have "contiguousFrom (Suc k) events"
    by (rule Cons.IH) (use Cons.prems [of "Suc _"] in simp)
  ultimately show ?case by simp
qed simp

lemma contiguous_iff: "contiguousFrom k events \<longleftrightarrow> (\<forall>i < length events. seq (events ! i) = k + i)"
  using contiguous_nth contiguousI by blast

lemma contiguous_append [simp]:
  "contiguousFrom k (xs @ ys) \<longleftrightarrow> contiguousFrom k xs \<and> contiguousFrom (k + length xs) ys"
  by (induction xs arbitrary: k) auto

lemma contiguous_take: "contiguousFrom k xs \<Longrightarrow> contiguousFrom k (take n xs)"
  by (simp add: contiguous_iff)

lemma contiguous_drop: "contiguousFrom k xs \<Longrightarrow> contiguousFrom (k + n) (drop n xs)"
  by (auto simp: contiguous_iff)

section \<open>Payloads\<close>

text \<open>An event the codec stores: its object is JSON and decodes to the event.\<close>

definition storable :: "log_codec \<Rightarrow> session_event \<Rightarrow> bool" where
  "storable c event \<longleftrightarrow> lc_decode c (lc_json c event) = Some event \<and> wf_json (lc_json c event)"

lemma decode_storable: "storable c event \<Longrightarrow> decodeSessionEvent c (lc_json c event) = Inr event"
  by (simp add: storable_def decodeSessionEvent_def)

lemma decodedEvents_storable: "list_all (storable c) events \<Longrightarrow> decodedEvents c events = Inr events"
  unfolding decodedEvents_def by (rule rmap_id) (auto simp: list_all_iff decode_storable)

text \<open>Two stores whose payloads agree at the events of \<open>S\<close>.\<close>

definition same_payload :: "string \<Rightarrow> nat set \<Rightarrow> log_store \<Rightarrow> log_store \<Rightarrow> bool" where
  "same_payload sessionId S st st' \<longleftrightarrow>
     (\<forall>s \<in> S. \<forall>chunk. kv_get (ls_payload st') (sessionEventPayloadKey sessionId s chunk) =
        kv_get (ls_payload st) (sessionEventPayloadKey sessionId s chunk))"

lemma same_payload_refl [simp]: "same_payload sessionId S st st"
  by (simp add: same_payload_def)

lemma same_payload_trans:
  "same_payload sessionId S st st' \<Longrightarrow> same_payload sessionId S st' st'' \<Longrightarrow>
   same_payload sessionId S st st''"
  by (simp add: same_payload_def)

lemma same_payload_mono:
  "same_payload sessionId S st st' \<Longrightarrow> T \<subseteq> S \<Longrightarrow> same_payload sessionId T st st'"
  by (auto simp: same_payload_def)

lemma same_payload_eq: "ls_payload st' = ls_payload st \<Longrightarrow> same_payload sessionId S st st'"
  by (simp add: same_payload_def)

lemma payloadParts_same:
  "same_payload sessionId S st st' \<Longrightarrow> s \<in> S \<Longrightarrow>
   payloadParts st' sessionId s chunks = payloadParts st sessionId s chunks"
  by (induction chunks) (auto simp: same_payload_def split: option.splits)

lemma exactEvent_same:
  "same_payload sessionId S st st' \<Longrightarrow> storedEventSeq entry \<in> S \<Longrightarrow>
   exactEvent c st' sessionId entry = exactEvent c st sessionId entry"
  by (cases entry) (simp_all add: exactEvent_def payloadText_def payloadParts_same)

lemma payloadParts_stored:
  "(\<And>i. i < length parts \<Longrightarrow>
      kv_get (ls_payload st) (sessionEventPayloadKey sessionId s (k + i)) = Some (parts ! i)) \<Longrightarrow>
   payloadParts st sessionId s [k..<k + length parts] = Inr parts"
proof (induction parts arbitrary: k)
  case (Cons p parts)
  have "payloadParts st sessionId s [Suc k..<Suc k + length parts] = Inr parts"
    by (rule Cons.IH) (use Cons.prems [of "Suc _"] in simp)
  with Cons.prems [of 0] show ?case by (simp add: upt_conv_Cons del: upt_Suc)
qed simp

lemma putChunks_ok:
  "list_all chunk_ok parts \<Longrightarrow>
   \<exists>st'. putChunks st sessionId s k parts = Inr st' \<and> st' = st\<lparr>ls_payload := ls_payload st'\<rparr> \<and>
     (\<forall>i < length parts. kv_get (ls_payload st') (sessionEventPayloadKey sessionId s (k + i))
        = Some (parts ! i)) \<and>
     (\<forall>i < k. kv_get (ls_payload st') (sessionEventPayloadKey sessionId s i)
        = kv_get (ls_payload st) (sessionEventPayloadKey sessionId s i)) \<and>
     same_payload sessionId (- {s}) st st'"
proof (induction parts arbitrary: st k)
  case (Cons p parts)
  let ?st = "st\<lparr>ls_payload := kv_put (sessionEventPayloadKey sessionId s k) p (ls_payload st)\<rparr>"
  from Cons.IH [of ?st "Suc k"] Cons.prems obtain st' where
    st': "putChunks ?st sessionId s (Suc k) parts = Inr st'" "st' = ?st\<lparr>ls_payload := ls_payload st'\<rparr>"
      "\<forall>i < length parts. kv_get (ls_payload st') (sessionEventPayloadKey sessionId s (Suc k + i))
        = Some (parts ! i)"
      "\<forall>i < Suc k. kv_get (ls_payload st') (sessionEventPayloadKey sessionId s i)
        = kv_get (ls_payload ?st) (sessionEventPayloadKey sessionId s i)"
      "same_payload sessionId (- {s}) ?st st'" by auto
  have "putChunks st sessionId s k (p # parts) = Inr st'"
    using Cons.prems st'(1) by (simp add: chunk_ok_def)
  moreover have "st' = st\<lparr>ls_payload := ls_payload st'\<rparr>" using st'(2) by simp
  moreover have "\<forall>i < length (p # parts).
      kv_get (ls_payload st') (sessionEventPayloadKey sessionId s (k + i)) = Some ((p # parts) ! i)"
  proof (intro allI impI)
    fix i assume "i < length (p # parts)"
    then show "kv_get (ls_payload st') (sessionEventPayloadKey sessionId s (k + i))
        = Some ((p # parts) ! i)"
      using st'(3) st'(4) by (cases i) auto
  qed
  moreover have "same_payload sessionId (- {s}) st st'"
    using st'(5) by (auto simp: same_payload_def)
  ultimately show ?case using st'(4) by auto
qed simp

definition entry_holds :: "log_codec \<Rightarrow> log_store \<Rightarrow> string \<Rightarrow> log_entry \<Rightarrow> session_event \<Rightarrow> bool" where
  "entry_holds c st sessionId entry event \<longleftrightarrow>
     storedEventSeq entry = seq event \<and> exactEvent c st sessionId entry = Inr event"

text \<open>The entry an event is stored as.\<close>

definition entryOf :: "log_codec \<Rightarrow> session_event \<Rightarrow> log_entry" where
  "entryOf c event =
     (let text0 = serialized c event; digest = lc_sha256 c text0
      in if eventType (body event) \<noteq> ''model/request''
            \<and> utf8_length text0 \<le> SESSION_EVENT_INLINE_BYTES_V1
         then Inline event
         else Cut \<lparr>ce_type = eventType (body event), ce_seq = seq event,
                ce_projection = cutProjection c event text0 digest,
                ce_chunks = (case payloadChunks text0 of Inl e \<Rightarrow> 0 | Inr chunks \<Rightarrow> length chunks),
                ce_bytes = utf8_length text0, ce_sha256 = digest\<rparr>)"

lemma storedEvent_holds:
  assumes "storable c event"
  shows "\<exists>st'. storedEvent c st sessionId event = Inr (entryOf c event, st') \<and>
     entry_holds c st' sessionId (entryOf c event) event \<and> st' = st\<lparr>ls_payload := ls_payload st'\<rparr> \<and>
     same_payload sessionId (- {seq event}) st st'"
proof (cases "eventType (body event) \<noteq> ''model/request'' \<and>
    utf8_length (serialized c event) \<le> SESSION_EVENT_INLINE_BYTES_V1")
  case True
  then have "storedEvent c st sessionId event = Inr (Inline event, st)"
    unfolding storedEvent_def Let_def by (rule if_P)
  moreover have "entryOf c event = Inline event" unfolding entryOf_def Let_def using True by (rule if_P)
  ultimately show ?thesis using assms by (auto simp: entry_holds_def exactEvent_def decode_storable)
next
  case False
  let ?text = "serialized c event"
  obtain chunks where chunks: "payloadChunks ?text = Inr chunks" "concat chunks = ?text"
    "list_all chunk_ok chunks"
    using payloadChunksFrom_ok [of 0 ?text "[]"] by (auto simp: payloadChunks_def)
  from putChunks_ok [OF chunks(3), of st sessionId "seq event" 0] obtain st' where
    st': "putChunks st sessionId (seq event) 0 chunks = Inr st'" "st' = st\<lparr>ls_payload := ls_payload st'\<rparr>"
      "\<forall>i < length chunks. kv_get (ls_payload st') (sessionEventPayloadKey sessionId (seq event) i)
        = Some (chunks ! i)"
      "same_payload sessionId (- {seq event}) st st'" by auto
  define ce where "ce = \<lparr>ce_type = eventType (body event), ce_seq = seq event,
     ce_projection = cutProjection c event ?text (lc_sha256 c ?text), ce_chunks = length chunks,
     ce_bytes = utf8_length ?text, ce_sha256 = lc_sha256 c ?text\<rparr>"
  have "storedEvent c st sessionId event = Inr (Cut ce, st')"
    unfolding storedEvent_def Let_def if_not_P [OF False] using chunks(1) st'(1)
    by (simp add: ce_def)
  moreover have "payloadParts st' sessionId (seq event) [0..<length chunks] = Inr chunks"
    using payloadParts_stored [of chunks st' sessionId "seq event" 0] st'(3) by simp
  then have "payloadText c st' sessionId ce = Inr ?text"
    using chunks(2) by (simp add: payloadText_def ce_def)
  then have "exactEvent c st' sessionId (Cut ce) = Inr event"
    using assms by (simp add: exactEvent_def serialized_def storable_def parseJson_stringify
        decodeSessionEvent_def)
  then have "entry_holds c st' sessionId (Cut ce) event" by (simp add: entry_holds_def ce_def)
  moreover have "entryOf c event = Cut ce"
    unfolding entryOf_def Let_def if_not_P [OF False] using chunks(1) by (simp add: ce_def)
  ultimately show ?thesis using st' by auto
qed

lemma entry_holds_same:
  "same_payload sessionId S st st' \<Longrightarrow> seq event \<in> S \<Longrightarrow>
   entry_holds c st' sessionId entry event = entry_holds c st sessionId entry event"
  by (auto simp: entry_holds_def exactEvent_same)

lemma entries_hold_same:
  assumes "same_payload sessionId S st st'" and "seq ` set events \<subseteq> S"
  shows "list_all2 (entry_holds c st' sessionId) entries events =
    list_all2 (entry_holds c st sessionId) entries events"
  using assms(2) entry_holds_same [OF assms(1)]
  by (intro list.rel_cong refl) auto

lemma storedEvents_hold:
  "list_all (storable c) events \<Longrightarrow> contiguousFrom k events \<Longrightarrow>
   \<exists>st'. storedEvents c st sessionId events = Inr (map (entryOf c) events, st') \<and>
     list_all2 (entry_holds c st' sessionId) (map (entryOf c) events) events \<and>
     st' = st\<lparr>ls_payload := ls_payload st'\<rparr> \<and> same_payload sessionId {..<k} st st'"
proof (induction events arbitrary: st k)
  case Nil
  then show ?case by simp
next
  case (Cons event events)
  let ?entry = "entryOf c event" and ?entries = "map (entryOf c) events"
  obtain st1 where s1: "storedEvent c st sessionId event = Inr (?entry, st1)"
    "entry_holds c st1 sessionId ?entry event" "st1 = st\<lparr>ls_payload := ls_payload st1\<rparr>"
    "same_payload sessionId (- {seq event}) st st1"
    using storedEvent_holds [of c event st sessionId] Cons.prems by auto
  obtain st2 where s2: "storedEvents c st1 sessionId events = Inr (?entries, st2)"
    "list_all2 (entry_holds c st2 sessionId) ?entries events"
    "st2 = st1\<lparr>ls_payload := ls_payload st2\<rparr>" "same_payload sessionId {..<Suc k} st1 st2"
    using Cons.IH [of "Suc k" st1] Cons.prems by auto
  have k: "seq event = k" using Cons.prems by simp
  have "entry_holds c st2 sessionId ?entry event"
    using entry_holds_same [OF s2(4)] s1(2) k by simp
  moreover have "same_payload sessionId {..<k} st st2"
    by (rule same_payload_trans [OF same_payload_mono [OF s1(4)] same_payload_mono [OF s2(4)]])
       (use k in auto)
  moreover have "st2 = st\<lparr>ls_payload := ls_payload st2\<rparr>"
  proof -
    have "st2 = (st\<lparr>ls_payload := ls_payload st1\<rparr>)\<lparr>ls_payload := ls_payload st2\<rparr>"
      using s2(3) unfolding s1(3) [symmetric] .
    then show ?thesis by simp
  qed
  moreover have "storedEvents c st sessionId (event # events) = Inr (?entry # ?entries, st2)"
    by (simp add: s1(1) s2(1))
  ultimately show ?case using s2(2) by simp
qed


section \<open>The representation\<close>

definition pageStart :: "log_entry list list \<Rightarrow> nat \<Rightarrow> nat" where
  "pageStart ps i = length (concat (take i ps))"

definition pageRec :: "string \<Rightarrow> log_entry list list \<Rightarrow> nat \<Rightarrow> log_page" where
  "pageRec sessionId ps i = \<lparr>lp_version = 1, lp_session = sessionId, lp_page = i,
     lp_start = pageStart ps i, lp_entries = ps ! i\<rparr>"

definition indexRec :: "string \<Rightarrow> nat \<Rightarrow> nat \<Rightarrow> log_index" where
  "indexRec sessionId events pages =
     \<lparr>li_version = 1, li_session = sessionId, li_events = events, li_pages = pages\<rparr>"

definition pages_stored :: "log_store \<Rightarrow> string \<Rightarrow> log_entry list list \<Rightarrow> bool" where
  "pages_stored st sessionId ps \<longleftrightarrow>
     (\<forall>i < length ps. kv_get (ls_pages st) (sessionEventLogPageKey sessionId i) =
        Some (pageRec sessionId ps i))"

definition log_pages ::
  "log_codec \<Rightarrow> log_store \<Rightarrow> string \<Rightarrow> log_entry list list \<Rightarrow> session_event list \<Rightarrow> bool" where
  "log_pages c st sessionId ps events \<longleftrightarrow>
     pages_stored st sessionId ps \<and> [] \<notin> set ps \<and>
     list_all2 (entry_holds c st sessionId) (concat ps) events \<and>
     contiguousFrom 0 events \<and> length events \<le> MAX_SAFE_INTEGER"

definition log_rep ::
  "log_codec \<Rightarrow> log_store \<Rightarrow> string \<Rightarrow> log_entry list list \<Rightarrow> session_event list \<Rightarrow> bool" where
  "log_rep c st sessionId ps events \<longleftrightarrow>
     kv_get (ls_index st) (sessionEventLogIndexKeyV1 sessionId) =
       Some (indexRec sessionId (length events) (length ps)) \<and>
     log_pages c st sessionId ps events"

definition log_holds :: "log_codec \<Rightarrow> log_store \<Rightarrow> string \<Rightarrow> session_event list \<Rightarrow> bool" where
  "log_holds c st sessionId events \<longleftrightarrow> (\<exists>ps. log_rep c st sessionId ps events)"

lemma pageStart_0 [simp]: "pageStart ps 0 = 0"
  by (simp add: pageStart_def)

lemma pageStart_Suc: "i < length ps \<Longrightarrow> pageStart ps (Suc i) = pageStart ps i + length (ps ! i)"
  by (simp add: pageStart_def take_Suc_conv_app_nth)

lemma pageStart_all: "length ps \<le> i \<Longrightarrow> pageStart ps i = length (concat ps)"
  by (simp add: pageStart_def)

lemma pageStart_mono: "i \<le> j \<Longrightarrow> pageStart ps i \<le> pageStart ps j"
proof -
  assume "i \<le> j"
  then have "take j ps = take i ps @ take (j - i) (drop i ps)"
    using take_add [of i "j - i" ps] by simp
  then show ?thesis by (simp add: pageStart_def)
qed

lemma pageStart_le: "pageStart ps i \<le> length (concat ps)"
  using pageStart_mono [of i "max i (length ps)" ps] pageStart_all [of ps "max i (length ps)"] by simp

lemma length_pages_le: "[] \<notin> set ps \<Longrightarrow> length ps \<le> length (concat ps)"
proof (induction ps)
  case (Cons p ps)
  then show ?case by (cases p) auto
qed simp

lemma concat_split_at:
  "i < length ps \<Longrightarrow> concat ps = concat (take i ps) @ ps ! i @ concat (drop (Suc i) ps)"
  by (metis append_take_drop_id concat_append concat.simps(2) Cons_nth_drop_Suc)

lemma rep_length: "log_rep c st sessionId ps events \<Longrightarrow> length (concat ps) = length events"
  by (auto simp: log_rep_def log_pages_def list_all2_lengthD)

lemma rep_index:
  assumes "log_rep c st sessionId ps events"
  shows "indexOf st sessionId = Inr (Some (indexRec sessionId (length events) (length ps)))"
proof -
  have "length ps \<le> length events"
    using assms length_pages_le [of ps] rep_length [OF assms] by (simp add: log_rep_def log_pages_def)
  with assms show ?thesis
    by (simp add: indexOf_def requireIndex_def log_rep_def log_pages_def indexRec_def)
qed

lemma rep_page:
  assumes "log_rep c st sessionId ps events" and "i < length ps"
  shows "pageAt st sessionId i = Inr (pageRec sessionId ps i)"
proof -
  have "pageStart ps i \<le> MAX_SAFE_INTEGER"
    using pageStart_le [of ps i] rep_length [OF assms(1)] assms(1) by (simp add: log_rep_def log_pages_def)
  with assms show ?thesis
    by (simp add: pageAt_def requirePage_def log_rep_def log_pages_def pages_stored_def pageRec_def)
qed

lemma rep_entry:
  assumes "log_rep c st sessionId ps events" and "i < length ps" and "j < length (ps ! i)"
  shows "pageStart ps i + j < length events" and
    "entry_holds c st sessionId (ps ! i ! j) (events ! (pageStart ps i + j))"
proof -
  have split: "concat ps = concat (take i ps) @ ps ! i @ concat (drop (Suc i) ps)"
    using assms(2) by (rule concat_split_at)
  from arg_cong [OF split, of length] rep_length [OF assms(1)] assms(3)
  show lt: "pageStart ps i + j < length events" by (simp add: pageStart_def)
  have "concat ps ! (pageStart ps i + j) = ps ! i ! j"
    using assms(3) by (subst split) (simp add: pageStart_def nth_append)
  moreover have "list_all2 (entry_holds c st sessionId) (concat ps) events"
    using assms(1) by (simp add: log_rep_def log_pages_def)
  ultimately show "entry_holds c st sessionId (ps ! i ! j) (events ! (pageStart ps i + j))"
    using lt list_all2_nthD2 by fastforce
qed

lemma rep_seq:
  assumes "log_rep c st sessionId ps events" and "i < length ps" and "j < length (ps ! i)"
  shows "storedEventSeq (ps ! i ! j) = pageStart ps i + j"
proof -
  have "seq (events ! (pageStart ps i + j)) = pageStart ps i + j"
    using assms(1) rep_entry(1) [OF assms] contiguous_nth [of 0 events "pageStart ps i + j"]
    by (simp add: log_rep_def log_pages_def)
  with rep_entry(2) [OF assms] show ?thesis by (simp add: entry_holds_def)
qed

lemma rep_page_entries:
  assumes "log_rep c st sessionId ps events" and "i < length ps"
  shows "list_all2 (entry_holds c st sessionId) (ps ! i)
    (take (length (ps ! i)) (drop (pageStart ps i) events))"
proof -
  have "length (ps ! i) = length (take (length (ps ! i)) (drop (pageStart ps i) events))"
  proof (cases "length (ps ! i)")
    case (Suc n)
    then show ?thesis using rep_entry(1) [OF assms, of n] by simp
  qed simp
  then show ?thesis
    using rep_entry [OF assms] by (auto simp: list_all2_conv_all_nth)
qed

section \<open>Reading the whole log\<close>

lemma rmap_exact:
  "list_all2 (entry_holds c st sessionId) entries events \<Longrightarrow>
   rmap (exactEvent c st sessionId) entries = Inr events"
  unfolding rmap_Inr_iff by (erule list_all2_mono) (simp add: entry_holds_def)

lemma readPages_rep:
  assumes "log_rep c st sessionId ps events"
  shows "i \<le> length ps \<Longrightarrow>
    readPages c st sessionId [i..<length ps] (take (pageStart ps i) events) = Inr events"
proof (induction "length ps - i" arbitrary: i)
  case 0
  then have "i = length ps" by simp
  then show ?case using rep_length [OF assms] by (simp add: pageStart_all)
next
  case (Suc n)
  then have i: "i < length ps" by simp
  have IH: "readPages c st sessionId [Suc i..<length ps] (take (pageStart ps (Suc i)) events)
      = Inr events"
    by (rule Suc.hyps(1)) (use Suc.hyps(2) i in simp_all)
  have len: "length (take (pageStart ps i) events) = pageStart ps i"
    using pageStart_le [of ps i] rep_length [OF assms] by simp
  have more: "rmap (exactEvent c st sessionId) (ps ! i) =
      Inr (take (length (ps ! i)) (drop (pageStart ps i) events))"
    by (rule rmap_exact [OF rep_page_entries [OF assms i]])
  have "take (pageStart ps (Suc i)) events =
      take (pageStart ps i) events @ take (length (ps ! i)) (drop (pageStart ps i) events)"
    using i by (simp add: pageStart_Suc take_add)
  with IH more len i show ?case
    by (simp add: upt_conv_Cons rep_page [OF assms i] pageRec_def)
qed

lemma readLog_rep:
  assumes "log_rep c st sessionId ps events"
  shows "readLog c st sessionId = Inr events"
  using readPages_rep [OF assms, of 0] assms
  by (simp add: readLog_def rep_index [OF assms] indexRec_def log_rep_def log_pages_def)

lemma eventCount_rep:
  "log_rep c st sessionId ps events \<Longrightarrow> eventCount st sessionId = Inr (length events)"
  by (simp add: eventCount_def rep_index indexRec_def)

section \<open>Reading a range\<close>

text \<open>The page a bisection has found so far: the last one below \<open>k\<close>.\<close>

definition foundPage :: "string \<Rightarrow> log_entry list list \<Rightarrow> nat \<Rightarrow> (nat \<times> log_page) option" where
  "foundPage sessionId ps k = (if k = 0 then None else Some (k - 1, pageRec sessionId ps (k - 1)))"

lemma pageBisect_rep:
  assumes rep: "log_rep c st sessionId ps events"
  shows "low \<le> high' \<Longrightarrow> high' \<le> length ps \<Longrightarrow>
    \<forall>i < low. pageStart ps i \<le> s \<Longrightarrow> \<forall>i. high' \<le> i \<and> i < length ps \<longrightarrow> s < pageStart ps i \<Longrightarrow>
    \<exists>k \<le> length ps. pageBisect st sessionId s (int low) (int high' - 1) (foundPage sessionId ps low)
        = Inr (foundPage sessionId ps k) \<and>
      (\<forall>i < k. pageStart ps i \<le> s) \<and> (\<forall>i. k \<le> i \<and> i < length ps \<longrightarrow> s < pageStart ps i)"
proof (induction "high' - low" arbitrary: low high' rule: less_induct)
  case less
  show ?case
  proof (cases "low < high'")
    case False
    then have "low = high'" using less.prems(1) by simp
    with less.prems show ?thesis
      by (intro exI [of _ low]) (simp add: pageBisect.simps)
  next
    case True
    define m where "m = nat ((int low + (int high' - 1)) div 2)"
    have m: "low \<le> m" "m < high'" "int m = (int low + (int high' - 1)) div 2"
      using True by (auto simp: m_def)
    have page: "pageAt st sessionId m = Inr (pageRec sessionId ps m)"
      using rep_page [OF rep] m less.prems(2) by simp
    show ?thesis
    proof (cases "pageStart ps m \<le> s")
      case le: True
      have "pageBisect st sessionId s (int low) (int high' - 1) (foundPage sessionId ps low) =
          pageBisect st sessionId s (int (Suc m)) (int high' - 1) (foundPage sessionId ps (Suc m))"
        using True page le
        by (subst pageBisect.simps)
           (simp add: m(3) [symmetric] pageRec_def foundPage_def Let_def add.commute)
      moreover have "\<forall>i < Suc m. pageStart ps i \<le> s"
        using le pageStart_mono [of _ m ps] order_trans by (metis less_Suc_eq_le)
      ultimately show ?thesis
        using less.hyps [of high' "Suc m"] m less.prems by (simp add: diff_less_mono2)
    next
      case gt: False
      have "pageBisect st sessionId s (int low) (int high' - 1) (foundPage sessionId ps low) =
          pageBisect st sessionId s (int low) (int m - 1) (foundPage sessionId ps low)"
        using True page gt
        by (subst pageBisect.simps) (simp add: m(3) [symmetric] pageRec_def Let_def)
      moreover have "\<forall>i. m \<le> i \<and> i < length ps \<longrightarrow> s < pageStart ps i"
        using gt pageStart_mono [of m _ ps] by (meson leI le_trans)
      ultimately show ?thesis
        using less.hyps [of m low] m less.prems by simp
    qed
  qed
qed

lemma pageContaining_rep:
  assumes rep: "log_rep c st sessionId ps events" and s: "s < length events"
  shows "\<exists>k < length ps. pageContaining st sessionId (indexRec sessionId (length events) (length ps)) s
      = Inr (Some (k, pageRec sessionId ps k)) \<and> pageStart ps k \<le> s"
proof -
  have "ps \<noteq> []" using rep_length [OF rep] s by auto
  then have pos: "0 < length ps" by simp
  obtain k where k: "k \<le> length ps"
    "pageBisect st sessionId s 0 (int (length ps) - 1) (foundPage sessionId ps 0)
      = Inr (foundPage sessionId ps k)"
    "\<forall>i < k. pageStart ps i \<le> s" "\<forall>i. k \<le> i \<and> i < length ps \<longrightarrow> s < pageStart ps i"
    using pageBisect_rep [OF rep, of 0 "length ps" s] by auto
  have "k \<noteq> 0" using k(4) pos by (metis le0 not_less_zero pageStart_0)
  with k pos show ?thesis
    by (intro exI [of _ "k - 1"]) (auto simp: pageContaining_def indexRec_def foundPage_def)
qed

text \<open>The part of the flat list a loop has collected when it has passed \<open>k\<close> events.\<close>

definition collected :: "session_event list \<Rightarrow> nat \<Rightarrow> nat \<Rightarrow> session_event list" where
  "collected events startSeq k = drop startSeq (take k events)"

lemma collected_Suc:
  "startSeq \<le> k \<Longrightarrow> k < length events \<Longrightarrow>
   collected events startSeq (Suc k) = collected events startSeq k @ [events ! k]"
  by (simp add: collected_def take_Suc_conv_app_nth)

lemma length_collected: "k \<le> length events \<Longrightarrow> length (collected events startSeq k) = k - startSeq"
  by (simp add: collected_def)

lemma collected_before [simp]: "k \<le> startSeq \<Longrightarrow> collected events startSeq k = []"
  by (simp add: collected_def)

lemma rangeEntries_rep:
  assumes read: "\<And>j. j < length entries \<Longrightarrow> readEntry (entries ! j) = Inr (events ! (k + j))"
    and seqs: "\<And>j. j < length entries \<Longrightarrow> storedEventSeq (entries ! j) = k + j"
    and lt: "k + length entries \<le> length events" and k: "k \<le> lastSeq" and sl: "startSeq < lastSeq"
  shows "rangeEntries readEntry sessionId startSeq lastSeq entries (collected events startSeq k) =
    Inr (lastSeq < k + length entries,
         collected events startSeq (min lastSeq (k + length entries)))"
  using read seqs lt k
proof (induction entries arbitrary: k)
  case Nil
  then show ?case by (simp add: min_absorb2)
next
  case (Cons e es)
  have e: "readEntry e = Inr (events ! k)" "storedEventSeq e = k"
    using Cons.prems(1,2) [of 0] by simp_all
  have IH: "rangeEntries readEntry sessionId startSeq lastSeq es (collected events startSeq (Suc k)) =
      Inr (lastSeq < Suc k + length es, collected events startSeq (min lastSeq (Suc k + length es)))"
    if "k < lastSeq"
    by (rule Cons.IH) (use Cons.prems(1,2) [of "Suc _"] Cons.prems(3) that in simp_all)
  consider "k < startSeq" | "startSeq \<le> k" "k = lastSeq" | "startSeq \<le> k" "k < lastSeq"
    using Cons.prems(4) by linarith
  then show ?case
  proof cases
    case 1
    with IH sl show ?thesis by (simp add: e)
  next
    case 2
    then show ?thesis by (simp add: e)
  next
    case 3
    then have "length (collected events startSeq k) = k - startSeq"
      using Cons.prems(3) by (simp add: length_collected)
    moreover have "collected events startSeq (Suc k) = collected events startSeq k @ [events ! k]"
      using 3 Cons.prems(3) by (simp add: collected_Suc)
    ultimately show ?thesis using IH 3 by (simp add: e)
  qed
qed

lemma rangePages_rep:
  assumes rep: "log_rep c st sessionId ps events"
    and read: "\<And>i j. i < length ps \<Longrightarrow> j < length (ps ! i) \<Longrightarrow>
        readEntry (ps ! i ! j) = Inr (shown ! (pageStart ps i + j))"
    and shown: "length shown = length events"
    and sl: "startSeq < lastSeq" and last: "lastSeq \<le> length events"
    and loc: "located = (k0, pageRec sessionId ps k0)"
  shows "i \<le> length ps \<Longrightarrow> pageStart ps i \<le> lastSeq \<Longrightarrow>
    \<exists>returned. rangePages readEntry st sessionId startSeq lastSeq located [i..<length ps]
      (collected shown startSeq (pageStart ps i)) =
      Inr (returned, collected shown startSeq lastSeq)"
proof (induction "length ps - i" arbitrary: i)
  case 0
  then have "i = length ps" by simp
  moreover from this have "lastSeq = length events"
    using 0 last rep_length [OF rep] by (simp add: pageStart_all)
  ultimately show ?case using rep_length [OF rep] by (auto simp: pageStart_all)
next
  case (Suc n)
  then have i: "i < length ps" by simp
  let ?k = "pageStart ps i"
  have page: "(if i = fst located then Inr (snd located) else pageAt st sessionId i) =
      Inr (pageRec sessionId ps i)"
    using rep_page [OF rep i] loc by auto
  have scan: "rangeEntries readEntry sessionId startSeq lastSeq (ps ! i) (collected shown startSeq ?k)
      = Inr (lastSeq < ?k + length (ps ! i),
             collected shown startSeq (min lastSeq (?k + length (ps ! i))))"
  proof (rule rangeEntries_rep)
    show "?k + length (ps ! i) \<le> length shown"
      using pageStart_Suc [OF i] pageStart_le [of ps "Suc i"] rep_length [OF rep] shown by simp
  qed (use read [OF i] rep_seq [OF rep i] Suc.prems sl in simp_all)
  have unf: "[i..<length ps] = i # [Suc i..<length ps]" using i by (simp add: upt_conv_Cons)
  show ?case
  proof (cases "lastSeq \<le> ?k + length (ps ! i)")
    case True
    then have "length (collected shown startSeq lastSeq) = lastSeq - startSeq"
      using last shown by (simp add: length_collected)
    with True scan show ?thesis by (auto simp: unf page pageRec_def min_absorb1)
  next
    case False
    then have k': "pageStart ps (Suc i) < lastSeq" using i by (simp add: pageStart_Suc)
    have "\<exists>returned. rangePages readEntry st sessionId startSeq lastSeq located [Suc i..<length ps]
        (collected shown startSeq (pageStart ps (Suc i))) =
        Inr (returned, collected shown startSeq lastSeq)"
      by (rule Suc.hyps(1)) (use Suc.hyps(2) i k' in simp_all)
    moreover have "length (collected shown startSeq (pageStart ps (Suc i))) \<noteq> lastSeq - startSeq"
      using k' last sl shown by (simp add: length_collected)
    ultimately show ?thesis
      using scan False i by (simp add: unf page pageRec_def pageStart_Suc)
  qed
qed

lemma rangeEvents_rep:
  assumes rep: "log_rep c st sessionId ps events" and range: "safeRange startSeq endSeq"
    and read: "\<And>i j. i < length ps \<Longrightarrow> j < length (ps ! i) \<Longrightarrow>
        (if display then displayEvent c st sessionId else exactEvent c st sessionId) (ps ! i ! j) =
        Inr (shown ! (pageStart ps i + j))"
    and shown: "length shown = length events"
  shows "rangeEvents c st sessionId startSeq endSeq display = Inr (drop startSeq (take endSeq shown))"
proof -
  let ?last = "min endSeq (length events)"
  show ?thesis
  proof (cases "startSeq < ?last")
    case False
    then have "drop startSeq (take endSeq shown) = []" using shown by auto
    moreover have "?last \<le> startSeq" using False by linarith
    ultimately show ?thesis using range
      by (simp add: rangeEvents_def rep_index [OF rep] indexRec_def Let_def del: min_le_iff_disj)
  next
    case True
    from pageContaining_rep [OF rep, of startSeq] True obtain k where
      k: "k < length ps" "pageStart ps k \<le> startSeq"
        "pageContaining st sessionId (indexRec sessionId (length events) (length ps)) startSeq
          = Inr (Some (k, pageRec sessionId ps k))" by auto
    obtain returned where
      "rangePages (if display then displayEvent c st sessionId else exactEvent c st sessionId)
         st sessionId startSeq ?last (k, pageRec sessionId ps k) [k..<length ps] [] =
       Inr (returned, collected shown startSeq ?last)"
      using rangePages_rep [OF rep read shown True _ refl, of k k] k True by auto
    moreover have "length (collected shown startSeq ?last) = ?last - startSeq"
      using shown by (simp add: length_collected)
    moreover have "collected shown startSeq ?last = drop startSeq (take endSeq shown)"
      using shown by (simp add: collected_def min_def)
    ultimately show ?thesis
      using True range k by (simp add: rangeEvents_def rep_index [OF rep] indexRec_def Let_def)
  qed
qed


section \<open>Appending\<close>

lemma pages_stored_snoc:
  "pages_stored st sessionId (ps @ [p]) \<longleftrightarrow>
     pages_stored st sessionId ps \<and>
     kv_get (ls_pages st) (sessionEventLogPageKey sessionId (length ps)) =
       Some (pageRec sessionId (ps @ [p]) (length ps))"
proof -
  have "pageRec sessionId (ps @ [p]) i = pageRec sessionId ps i" if "i < length ps" for i
    using that by (simp add: pageRec_def pageStart_def nth_append)
  then show ?thesis by (auto simp: pages_stored_def less_Suc_eq)
qed

lemma pageRec_last:
  "pageRec sessionId (ps @ [p]) (length ps) = \<lparr>lp_version = 1, lp_session = sessionId,
     lp_page = length ps, lp_start = length (concat ps), lp_entries = p\<rparr>"
  by (simp add: pageRec_def pageStart_def)

lemma pages_stored_put:
  "length ps \<le> i \<Longrightarrow> pages_stored (putPage sessionId i page st) sessionId ps =
     pages_stored st sessionId ps"
  by (simp add: pages_stored_def putPage_def)

lemma pages_stored_cong:
  "ls_pages st' = ls_pages st \<Longrightarrow> pages_stored st' sessionId ps = pages_stored st sessionId ps"
  by (simp add: pages_stored_def)

text \<open>The page \<open>appendStored\<close> is filling, after the completed pages \<open>ps\<close>.\<close>

definition filling :: "string \<Rightarrow> log_entry list list \<Rightarrow> log_entry list \<Rightarrow> log_page" where
  "filling sessionId ps cur = \<lparr>lp_version = 1, lp_session = sessionId, lp_page = length ps,
     lp_start = length (concat ps), lp_entries = cur\<rparr>"

lemma pages_stored_put_last:
  "pages_stored st sessionId ps \<Longrightarrow>
   pages_stored (putPage sessionId (length ps) (filling sessionId ps p) st) sessionId (ps @ [p])"
  unfolding pages_stored_snoc
  by (simp add: pages_stored_put pageRec_last filling_def) (simp add: putPage_def)

definition fill_inv ::
  "string \<Rightarrow> log_entry list list \<Rightarrow> log_entry list \<Rightarrow> bool \<Rightarrow> nat \<Rightarrow> log_store \<Rightarrow> bool" where
  "fill_inv sessionId ps cur dirty pageCount st \<longleftrightarrow>
     pages_stored st sessionId ps \<and> [] \<notin> set ps \<and>
     (if cur = [] then ps = [] \<and> pageCount = 0 \<and> \<not> dirty
      else pageCount = Suc (length ps) \<and>
           (dirty \<or> pages_stored st sessionId (ps @ [cur])))"

text \<open>An entry that fits a page of its own.\<close>

definition fits_page :: "log_codec \<Rightarrow> string \<Rightarrow> log_entry \<Rightarrow> bool" where
  "fits_page c sessionId entry \<longleftrightarrow>
     (\<forall>page start. page \<le> MAX_SAFE_INTEGER \<longrightarrow> start \<le> MAX_SAFE_INTEGER \<longrightarrow> utf8Bytes (pageJson c \<lparr>lp_version = 1, lp_session = sessionId, lp_page = page,
        lp_start = start, lp_entries = [entry]\<rparr>) \<le> SESSION_EVENT_PAGE_BYTES_V1)"

lemma fillPages_ok:
  assumes "\<forall>e \<in> set entries. fits_page c sessionId e"
    and "\<And>j. j < length entries \<Longrightarrow> storedEventSeq (entries ! j) = length (concat ps) + length cur + j"
    and "fill_inv sessionId ps cur dirty pageCount st"
    and "length (concat ps) + length cur + length entries \<le> MAX_SAFE_INTEGER"
  shows "\<exists>ps' cur' dirty' pageCount' st'.
    fillPages c sessionId entries (filling sessionId ps cur) (length ps) dirty pageCount st =
      Inr (filling sessionId ps' cur', length ps', dirty', pageCount', st') \<and>
    fill_inv sessionId ps' cur' dirty' pageCount' st' \<and>
    concat ps' @ cur' = concat ps @ cur @ entries \<and> st' = st\<lparr>ls_pages := ls_pages st'\<rparr>"
  using assms
proof (induction entries arbitrary: ps cur dirty pageCount st)
  case Nil
  then show ?case
    by (intro exI [of _ ps] exI [of _ cur] exI [of _ dirty] exI [of _ pageCount] exI [of _ st]) simp
next
  case (Cons e es)
  have fits: "fits_page c sessionId e" "\<forall>x \<in> set es. fits_page c sessionId x"
    using Cons.prems(1) by auto
  have seqs: "storedEventSeq (es ! j) = length (concat ps) + length cur + 1 + j" if "j < length es" for j
    using Cons.prems(2) [of "Suc j"] that by simp
  have e: "storedEventSeq e = length (concat ps) + length cur" using Cons.prems(2) [of 0] by simp
  have small: "length ps + length cur < MAX_SAFE_INTEGER" "length (concat ps) + length cur < MAX_SAFE_INTEGER"
    using Cons.prems(3,4) length_pages_le [of ps] by (auto simp: fill_inv_def split: if_splits)
  let ?cand = "filling sessionId ps (cur @ [e])"
  show ?case
  proof (cases "utf8Bytes (pageJson c ?cand) \<le> SESSION_EVENT_PAGE_BYTES_V1")
    case True
    have inv: "fill_inv sessionId ps (cur @ [e]) True (if pageCount = 0 then 1 else pageCount) st"
      using Cons.prems(3) by (auto simp: fill_inv_def split: if_splits)
    have seqs': "storedEventSeq (es ! j) = length (concat ps) + length (cur @ [e]) + j"
      if "j < length es" for j using seqs [OF that] by simp
    have "fillPages c sessionId (e # es) (filling sessionId ps cur) (length ps) dirty pageCount st =
        fillPages c sessionId es ?cand (length ps) True (if pageCount = 0 then 1 else pageCount) st"
      using True by (simp add: filling_def)
    then show ?thesis using Cons.IH [OF fits(2) seqs' inv] Cons.prems(4) by simp
  next
    case False
    have cur: "cur \<noteq> []"
    proof
      assume "cur = []"
      with fits(1) False small show False by (simp add: fits_page_def filling_def)
    qed
    define st1 where "st1 = (if dirty then putPage sessionId (length ps) (filling sessionId ps cur) st
      else st)"
    let ?ps = "ps @ [cur]"
    have stored: "pages_stored st1 sessionId ?ps"
      using Cons.prems(3) cur pages_stored_put_last by (auto simp: fill_inv_def st1_def)
    have inv: "fill_inv sessionId ?ps [e] True (length ps + 1 + 1) st1"
      using stored cur Cons.prems(3) by (simp add: fill_inv_def)
    have page: "utf8Bytes (pageJson c (filling sessionId ?ps [e])) \<le> SESSION_EVENT_PAGE_BYTES_V1"
      using fits(1) small cur by (cases cur) (simp_all add: fits_page_def filling_def)
    have next0: "\<lparr>lp_version = 1, lp_session = sessionId, lp_page = length ps + 1,
        lp_start = storedEventSeq e, lp_entries = [e]\<rparr> = filling sessionId ?ps [e]"
      by (simp add: filling_def e)
    have seqs': "storedEventSeq (es ! j) = length (concat ?ps) + length [e] + j"
      if "j < length es" for j using seqs [OF that] by simp
    have step: "fillPages c sessionId (e # es) (filling sessionId ps cur) (length ps) dirty pageCount st =
        fillPages c sessionId es (filling sessionId ?ps [e]) (length ps + 1) True
          (length ps + 1 + 1) st1"
      using False cur page unfolding fillPages.simps Let_def next0 [symmetric] st1_def
      by (simp add: filling_def)
    have "length ?ps = length ps + 1" by simp
    then obtain ps' cur' dirty' pageCount' st' where r:
      "fillPages c sessionId es (filling sessionId ?ps [e]) (length ps + 1) True
          (length ps + 1 + 1) st1 = Inr (filling sessionId ps' cur', length ps', dirty', pageCount', st')"
      "fill_inv sessionId ps' cur' dirty' pageCount' st'"
      "concat ps' @ cur' = concat ?ps @ [e] @ es" "st' = st1\<lparr>ls_pages := ls_pages st'\<rparr>"
      using Cons.IH [OF fits(2) seqs' inv] Cons.prems(4) by auto
    have eq: "st1\<lparr>ls_pages := q\<rparr> = st\<lparr>ls_pages := q\<rparr>" for q
      by (simp add: st1_def putPage_def)
    have "st' = st\<lparr>ls_pages := ls_pages st'\<rparr>" by (rule trans [OF r(4) eq])
    moreover have "concat ps' @ cur' = concat ps @ cur @ e # es" using r(3) by simp
    ultimately show ?thesis unfolding step using r(1,2) by blast
  qed
qed


lemma entry_holds_payload:
  "ls_payload st' = ls_payload st \<Longrightarrow> entry_holds c st' = entry_holds c st"
  by (intro ext entry_holds_same [where S = UNIV] same_payload_eq UNIV_I)

lemma log_pages_payload:
  assumes "log_pages c st sessionId ps events" and "same_payload sessionId {..<length events} st st'"
    and "ls_pages st' = ls_pages st"
  shows "log_pages c st' sessionId ps events"
proof -
  have "seq ` set events \<subseteq> {..<length events}"
  proof
    fix s assume "s \<in> seq ` set events"
    then obtain i where "i < length events" "s = seq (events ! i)" by (auto simp: in_set_conv_nth)
    then show "s \<in> {..<length events}"
      using assms(1) contiguous_nth [of 0 events i] by (simp add: log_pages_def)
  qed
  from entries_hold_same [OF assms(2) this] pages_stored_cong [OF assms(3)] assms(1) show ?thesis
    by (simp add: log_pages_def)
qed

text \<open>Payload chunks, heads, runs and the legacy value are as before.\<close>

definition same_rest :: "log_store \<Rightarrow> log_store \<Rightarrow> bool" where
  "same_rest st st' \<longleftrightarrow> ls_heads st' = ls_heads st \<and> ls_runs st' = ls_runs st \<and>
     ls_legacy st' = ls_legacy st"

lemma same_rest_refl [simp]: "same_rest st st"
  by (simp add: same_rest_def)

lemma same_rest_trans: "same_rest st st' \<Longrightarrow> same_rest st' st'' \<Longrightarrow> same_rest st st''"
  by (simp add: same_rest_def)

lemma filling_start:
  assumes pages: "log_pages c st sessionId ps events"
  shows "\<exists>ps0 cur. (if length ps = 0
      then Inr \<lparr>lp_version = 1, lp_session = sessionId, lp_page = 0,
             lp_start = length events, lp_entries = []\<rparr>
      else pageAt st sessionId (length ps - 1)) = Inr (filling sessionId ps0 cur) \<and>
    length ps - 1 = length ps0 \<and> fill_inv sessionId ps0 cur False (length ps) st \<and>
    concat ps0 @ cur = concat ps"
proof (cases ps rule: rev_cases)
  case Nil
  then have "events = []" using pages by (simp add: log_pages_def)
  with Nil show ?thesis
    by (intro exI [of _ "[]"] exI [of _ "[]"]) (simp add: filling_def fill_inv_def pages_stored_def)
next
  case (snoc ps0 cur)
  have len: "length events = length (concat ps)"
    using pages by (auto simp: log_pages_def dest: list_all2_lengthD)
  have "length (concat ps0) \<le> MAX_SAFE_INTEGER"
    using pages len snoc by (simp add: log_pages_def)
  then have "pageAt st sessionId (length ps0) = Inr (filling sessionId ps0 cur)"
    using pages snoc
    by (simp add: log_pages_def pages_stored_snoc pageAt_def requirePage_def pageRec_last filling_def)
  moreover have "fill_inv sessionId ps0 cur False (length ps) st"
    using pages snoc by (auto simp: fill_inv_def log_pages_def pages_stored_snoc)
  ultimately show ?thesis using snoc by (intro exI [of _ ps0] exI [of _ cur]) simp
qed

lemma appendStored_rep:
  assumes pages: "log_pages c st sessionId ps events"
    and hold: "list_all2 (entry_holds c st sessionId) entries new"
    and fits: "\<forall>e \<in> set entries. fits_page c sessionId e"
    and contiguous: "contiguousFrom (length events) new" and new: "new \<noteq> []"
    and bound: "length events + length new \<le> MAX_SAFE_INTEGER"
  shows "\<exists>ps' st'. appendStored c st sessionId (indexRec sessionId (length events) (length ps)) entries
      = Inr st' \<and> log_rep c st' sessionId ps' (events @ new) \<and> same_rest st st' \<and>
      ls_payload st' = ls_payload st"
proof -
  from filling_start [OF pages] obtain ps0 cur where start:
    "(if length ps = 0 then Inr \<lparr>lp_version = 1, lp_session = sessionId, lp_page = 0,
             lp_start = length events, lp_entries = []\<rparr>
      else pageAt st sessionId (length ps - 1)) = Inr (filling sessionId ps0 cur)"
    "length ps - 1 = length ps0" "fill_inv sessionId ps0 cur False (length ps) st"
    "concat ps0 @ cur = concat ps" by blast
  have len: "length (concat ps) = length events" "length entries = length new"
    using pages hold by (auto simp: log_pages_def dest: list_all2_lengthD)
  have seqs: "storedEventSeq (entries ! j) = length (concat ps0) + length cur + j"
    if j: "j < length entries" for j
  proof -
    have "storedEventSeq (entries ! j) = seq (new ! j)"
      using list_all2_nthD [OF hold j] by (simp add: entry_holds_def)
    also have "\<dots> = length events + j" using contiguous_nth [OF contiguous] j len by simp
    finally show ?thesis using len start(4) by (metis length_append)
  qed
  obtain ps1 cur1 dirty pageCount st1 where fill:
    "fillPages c sessionId entries (filling sessionId ps0 cur) (length ps0) False (length ps) st
      = Inr (filling sessionId ps1 cur1, length ps1, dirty, pageCount, st1)"
    "fill_inv sessionId ps1 cur1 dirty pageCount st1"
    "concat ps1 @ cur1 = concat ps0 @ cur @ entries" "st1 = st\<lparr>ls_pages := ls_pages st1\<rparr>"
    using fillPages_ok [OF fits seqs start(3)] bound len arg_cong [OF start(4), of length] by auto
  have ne: "cur1 \<noteq> []" using fill(2,3) len new by (auto simp: fill_inv_def)
  let ?ps = "ps1 @ [cur1]"
  define st2 where "st2 = (if dirty then putPage sessionId (length ps1) (filling sessionId ps1 cur1) st1
    else st1)"
  define st3 where "st3 = putIndex sessionId (length events + length entries) pageCount st2"
  have run: "appendStored c st sessionId (indexRec sessionId (length events) (length ps)) entries = Inr st3"
    unfolding appendStored_def Let_def indexRec_def log_index.simps start(1) rbind_simps
    unfolding start(2) fill(1) by (simp add: st2_def st3_def)
  have stored: "pages_stored st2 sessionId ?ps"
    using fill(2) ne pages_stored_put_last by (auto simp: fill_inv_def st2_def)
  have payload: "ls_payload st3 = ls_payload st" "same_rest st st3"
    using fill(4) by (auto simp: st3_def st2_def putIndex_def putPage_def same_rest_def
        dest: arg_cong [where f = ls_payload] arg_cong [where f = ls_heads]
          arg_cong [where f = ls_runs] arg_cong [where f = ls_legacy])
  have "list_all2 (entry_holds c st3 sessionId) (concat ?ps) (events @ new)"
    using pages hold fill(3) start(4) unfolding entry_holds_payload [OF payload(1)]
    by (simp add: log_pages_def list_all2_appendI flip: append_assoc)
  moreover have "pages_stored st3 sessionId ?ps"
    using stored by (simp add: st3_def putIndex_def pages_stored_def)
  moreover have "kv_get (ls_index st3) (sessionEventLogIndexKeyV1 sessionId) =
      Some (indexRec sessionId (length (events @ new)) (length ?ps))"
    using fill(2) ne len by (simp add: st3_def putIndex_def indexRec_def fill_inv_def)
  ultimately have "log_rep c st3 sessionId ?ps (events @ new)"
    using pages fill(2) ne contiguous bound by (simp add: log_rep_def log_pages_def fill_inv_def)
  with run payload show ?thesis by blast
qed


lemma appendLog_rep:
  assumes rep: "log_rep c st sessionId ps events" and new: "new \<noteq> []"
    and storable: "list_all (storable c) new"
    and contiguous: "contiguousFrom (length events) new"
    and fits: "\<forall>e \<in> set new. fits_page c sessionId (entryOf c e)"
    and bound: "length events + length new \<le> MAX_SAFE_INTEGER"
  shows "\<exists>ps' st'. appendLog c projector st sessionId new epoch =
      withHeads st' (projectSessionAppendV1 projector (ls_heads st) sessionId new epoch) \<and>
    log_rep c st' sessionId ps' (events @ new) \<and> same_rest st st'"
proof -
  obtain st1 where st1: "storedEvents c st sessionId new = Inr (map (entryOf c) new, st1)"
    "list_all2 (entry_holds c st1 sessionId) (map (entryOf c) new) new"
    "st1 = st\<lparr>ls_payload := ls_payload st1\<rparr>" "same_payload sessionId {..<length events} st st1"
    using storedEvents_hold [OF storable contiguous] by blast
  have pages: "log_pages c st1 sessionId ps events"
    by (rule log_pages_payload [OF _ st1(4)])
       (use rep arg_cong [OF st1(3), of ls_pages] in \<open>simp_all add: log_rep_def\<close>)
  have rest: "same_rest st st1"
    using arg_cong [OF st1(3), of ls_heads] arg_cong [OF st1(3), of ls_runs]
      arg_cong [OF st1(3), of ls_legacy] by (simp add: same_rest_def)
  obtain ps' st2 where st2: "appendStored c st1 sessionId (indexRec sessionId (length events) (length ps))
      (map (entryOf c) new) = Inr st2" "log_rep c st2 sessionId ps' (events @ new)"
    "same_rest st1 st2"
    using appendStored_rep [OF pages st1(2) _ contiguous new bound] fits by auto
  have "same_rest st st2" by (rule same_rest_trans [OF rest st2(3)])
  moreover from this have "appendLog c projector st sessionId new epoch =
      withHeads st2 (projectSessionAppendV1 projector (ls_heads st) sessionId new epoch)"
    using new contiguous st1(1) st2(1)
    by (simp add: appendLog_def rep_index [OF rep] decodedEvents_storable [OF storable] same_rest_def)
       (simp add: indexRec_def)
  ultimately show ?thesis using st2(2) by blast
qed

text \<open>A batch that does not continue the log is refused.\<close>

lemma appendLog_gap:
  assumes rep: "log_rep c st sessionId ps events" and new: "new \<noteq> []"
    and storable: "list_all (storable c) new"
    and gap: "\<not> contiguousFrom (length events) new"
  shows "appendLog c projector st sessionId new epoch = Inl Batch_Not_Contiguous"
  using new gap
  by (simp add: appendLog_def rep_index [OF rep] decodedEvents_storable [OF storable] indexRec_def)

section \<open>Truncating\<close>

lemma deleteChunks_fields [simp]:
  "ls_pages (deleteChunks sessionId s chunks st) = ls_pages st"
  "ls_index (deleteChunks sessionId s chunks st) = ls_index st"
  "ls_heads (deleteChunks sessionId s chunks st) = ls_heads st"
  "ls_runs (deleteChunks sessionId s chunks st) = ls_runs st"
  "ls_legacy (deleteChunks sessionId s chunks st) = ls_legacy st"
  by (induction chunks arbitrary: st) simp_all

lemma deleteChunks_payload:
  "same_payload sessionId (- {s}) st (deleteChunks sessionId s chunks st)"
proof (induction chunks arbitrary: st)
  case (Cons i chunks)
  show ?case unfolding deleteChunks.simps
    by (rule same_payload_trans [OF _ Cons.IH]) (auto simp: same_payload_def)
qed simp

lemma deleteEntryPayloads_fields [simp]:
  "ls_pages (deleteEntryPayloads sessionId entries st) = ls_pages st"
  "ls_index (deleteEntryPayloads sessionId entries st) = ls_index st"
  "ls_heads (deleteEntryPayloads sessionId entries st) = ls_heads st"
  "ls_runs (deleteEntryPayloads sessionId entries st) = ls_runs st"
  "ls_legacy (deleteEntryPayloads sessionId entries st) = ls_legacy st"
  by (induction sessionId entries st rule: deleteEntryPayloads.induct) simp_all

lemma deleteEntryPayloads_payload:
  "same_payload sessionId (- storedEventSeq ` set entries) st
     (deleteEntryPayloads sessionId entries st)"
proof (induction sessionId entries st rule: deleteEntryPayloads.induct)
  case (2 sessionId event entries st)
  then show ?case by (auto intro: same_payload_mono)
next
  case (3 sessionId ce entries st)
  show ?case unfolding deleteEntryPayloads.simps
    by (rule same_payload_trans [OF same_payload_mono [OF deleteChunks_payload]
          same_payload_mono [OF 3]]) auto
qed simp

text \<open>What a step of the loops that delete leaves alone.\<close>

definition same_but_pages :: "log_store \<Rightarrow> log_store \<Rightarrow> bool" where
  "same_but_pages st st' \<longleftrightarrow> same_rest st st' \<and> ls_index st' = ls_index st"

lemma same_but_pages_refl [simp]: "same_but_pages st st"
  by (simp add: same_but_pages_def)

lemma same_but_pages_trans:
  "same_but_pages st st' \<Longrightarrow> same_but_pages st' st'' \<Longrightarrow> same_but_pages st st''"
  by (auto simp: same_but_pages_def intro: same_rest_trans)

lemma same_but_pages_page [simp]:
  "same_but_pages st (deletePage sessionId page st)"
  "same_but_pages st (putPage sessionId page p st)"
  "ls_payload (deletePage sessionId page st) = ls_payload st"
  "ls_payload (putPage sessionId page p st) = ls_payload st"
  by (simp_all add: same_but_pages_def same_rest_def deletePage_def putPage_def)

lemma deleteEntryPayloads_frame [simp]:
  "same_but_pages st (deleteEntryPayloads sessionId entries st)"
  by (simp add: same_but_pages_def same_rest_def)

lemma filter_below:
  "(\<And>j. j < length xs \<Longrightarrow> f (xs ! j) = k + j) \<Longrightarrow>
   filter (\<lambda>x. f x < (n::nat)) xs = take (n - k) xs \<and> filter (\<lambda>x. \<not> f x < n) xs = drop (n - k) xs"
proof (induction xs arbitrary: k)
  case (Cons x xs)
  have x: "f x = k" using Cons.prems [of 0] by simp
  have IH: "filter (\<lambda>x. f x < n) xs = take (n - Suc k) xs \<and>
      filter (\<lambda>x. \<not> f x < n) xs = drop (n - Suc k) xs"
    by (rule Cons.IH) (use Cons.prems [of "Suc _"] in simp)
  show ?case
  proof (cases "k < n")
    case True
    then have "n - k = Suc (n - Suc k)" by simp
    with IH x True show ?thesis by simp
  next
    case False
    with IH x show ?thesis by simp
  qed
qed simp

lemma pages_stored_delete:
  "length ps \<le> i \<Longrightarrow> pages_stored (deletePage sessionId i st) sessionId ps =
     pages_stored st sessionId ps"
  by (simp add: pages_stored_def deletePage_def)

lemma truncatePages_rep:
  assumes rep: "log_rep c st0 sessionId ps events"
  shows "n \<le> length ps \<Longrightarrow> startSeq \<le> pageStart ps n \<Longrightarrow>
    pages_stored st sessionId (take n ps) \<Longrightarrow>
    \<exists>ps' st'. truncatePages sessionId startSeq (rev [0..<n]) n st = Inr (length ps', st') \<and>
      pages_stored st' sessionId ps' \<and> [] \<notin> set ps' \<and>
      concat ps' = take startSeq (concat ps) \<and>
      same_but_pages st st' \<and> same_payload sessionId {..<startSeq} st st'"
proof (induction n arbitrary: st)
  case 0
  then show ?case by (intro exI [of _ "[]"] exI [of _ st]) simp
next
  case (Suc n)
  then have n: "n < length ps" by simp
  have snoc: "take (Suc n) ps = take n ps @ [ps ! n]" using n by (rule take_Suc_conv_app_nth)
  have len: "length (take n ps) = n" using n by simp
  have below: "pages_stored st sessionId (take n ps)"
    and "kv_get (ls_pages st) (sessionEventLogPageKey sessionId n) =
      Some (pageRec sessionId (take n ps @ [ps ! n]) n)"
    using Suc.prems(3) unfolding snoc pages_stored_snoc len by simp_all
  then have page: "kv_get (ls_pages st) (sessionEventLogPageKey sessionId n) =
      Some (pageRec sessionId ps n)"
    using len by (simp add: pageRec_def pageStart_def nth_append)
  have "pageStart ps n \<le> MAX_SAFE_INTEGER"
    using pageStart_le [of ps n] rep_length [OF rep] rep by (simp add: log_rep_def log_pages_def)
  then have pageAt: "pageAt st sessionId n = Inr (pageRec sessionId ps n)"
    using page by (simp add: pageAt_def requirePage_def pageRec_def)
  have seqs: "storedEventSeq (ps ! n ! j) = pageStart ps n + j" if "j < length (ps ! n)" for j
    using rep_seq [OF rep n that] .
  have ne: "[] \<notin> set ps" using rep by (simp add: log_rep_def log_pages_def)
  have split: "concat ps = concat (take n ps) @ ps ! n @ concat (drop (Suc n) ps)"
    using n by (rule concat_split_at)
  show ?case
  proof (cases "startSeq \<le> pageStart ps n")
    case True
    let ?st = "deletePage sessionId n (deletePagePayloads sessionId (pageRec sessionId ps n) st)"
    have "pages_stored ?st sessionId (take n ps)"
      using below len pages_stored_cong [of "deletePagePayloads sessionId (pageRec sessionId ps n) st" st
          sessionId "take n ps"]
      by (simp add: pages_stored_delete deletePagePayloads_def)
    from Suc.IH [OF _ True this] n obtain ps' st' where IH:
      "truncatePages sessionId startSeq (rev [0..<n]) n ?st = Inr (length ps', st')"
      "pages_stored st' sessionId ps'" "[] \<notin> set ps'" "concat ps' = take startSeq (concat ps)"
      "same_but_pages ?st st'" "same_payload sessionId {..<startSeq} ?st st'" by auto
    have "same_but_pages st ?st"
      by (rule same_but_pages_trans [of _ "deletePagePayloads sessionId (pageRec sessionId ps n) st"])
         (simp_all add: deletePagePayloads_def)
    then have frame: "same_but_pages st st'" using IH(5) by (rule same_but_pages_trans)
    have "same_payload sessionId {..<startSeq} st (deletePagePayloads sessionId (pageRec sessionId ps n) st)"
      unfolding deletePagePayloads_def
      by (rule same_payload_mono [OF deleteEntryPayloads_payload])
         (use seqs True in \<open>auto simp: pageRec_def in_set_conv_nth\<close>)
    then have "same_payload sessionId {..<startSeq} st ?st"
      by (rule same_payload_trans) (simp add: same_payload_eq)
    then have payload: "same_payload sessionId {..<startSeq} st st'"
      using IH(6) by (rule same_payload_trans)
    show ?thesis
      by (intro exI [of _ ps'] exI [of _ st'])
         (use IH(1-4) True frame payload pageAt in \<open>simp add: pageRec_def\<close>)
  next
    case False
    let ?m = "startSeq - pageStart ps n"
    have kept: "filter (\<lambda>e. storedEventSeq e < startSeq) (ps ! n) = take ?m (ps ! n)"
      and cut: "filter (\<lambda>e. \<not> storedEventSeq e < startSeq) (ps ! n) = drop ?m (ps ! n)"
      using filter_below [OF seqs] by blast+
    have m: "?m \<le> length (ps ! n)" using Suc.prems(2) n by (simp add: pageStart_Suc)
    let ?ps = "take n ps @ [take ?m (ps ! n)]"
    have concat: "concat ?ps = take startSeq (concat ps)"
      using False m by (simp add: split [THEN arg_cong, of "take startSeq"] pageStart_def)
    have "ps ! n \<noteq> []" using ne n by (metis nth_mem)
    then have ne': "[] \<notin> set ?ps"
      using ne False in_set_takeD [of "[]" n ps] by (auto simp: take_eq_Nil)
    have rec: "pageRec sessionId ps n\<lparr>lp_entries := take ?m (ps ! n)\<rparr> =
        filling sessionId (take n ps) (take ?m (ps ! n))"
      using len by (simp add: pageRec_def filling_def pageStart_def)
    show ?thesis
    proof (cases "?m = length (ps ! n)")
      case True
      then have "?ps = take (Suc n) ps" using snoc by simp
      then show ?thesis
        by (intro exI [of _ ?ps] exI [of _ st])
           (use Suc.prems(3) False pageAt kept concat ne' True n in \<open>simp add: pageRec_def\<close>)
    next
      case partial: False
      let ?st = "deleteEntryPayloads sessionId (drop ?m (ps ! n)) st"
      let ?st' = "putPage sessionId n (filling sessionId (take n ps) (take ?m (ps ! n))) ?st"
      have "pages_stored ?st sessionId (take n ps)"
        using below by (simp add: pages_stored_cong [of ?st st])
      then have stored: "pages_stored ?st' sessionId ?ps"
        using pages_stored_put_last [of ?st sessionId "take n ps"] len by simp
      have "same_payload sessionId {..<startSeq} st ?st"
        by (rule same_payload_mono [OF deleteEntryPayloads_payload])
           (use cut in \<open>auto simp flip: cut\<close>)
      then have payload: "same_payload sessionId {..<startSeq} st ?st'"
        by (rule same_payload_trans) (simp add: same_payload_eq)
      have frame: "same_but_pages st ?st'"
        by (rule same_but_pages_trans [of _ ?st]) simp_all
      have "truncatePages sessionId startSeq (rev [0..<Suc n]) (Suc n) st = Inr (Suc n, ?st')"
        using pageAt False kept cut rec partial m by (simp add: pageRec_def Let_def)
      with stored ne' concat payload frame n show ?thesis
        by (intro exI [of _ ?ps] exI [of _ ?st']) simp
    qed
  qed
qed


lemma list_all2_take:
  "list_all2 P xs ys \<Longrightarrow> list_all2 P (take n xs) (take n ys)"
  by (simp add: list_all2_takeI)

lemma truncateSuffix_rep:
  assumes rep: "log_rep c st sessionId ps events" and lt: "startSeq < length events"
  shows "\<exists>ps' st'. truncateSuffix projector st sessionId startSeq =
      withHeads st' (projectSessionTruncateV1 projector (ls_heads st) sessionId startSeq) \<and>
    log_rep c st' sessionId ps' (take startSeq events) \<and> same_rest st st'"
proof -
  have max: "startSeq \<le> MAX_SAFE_INTEGER" using lt rep by (simp add: log_rep_def log_pages_def)
  have "startSeq \<le> pageStart ps (length ps)" using lt rep_length [OF rep] by (simp add: pageStart_all)
  moreover have "pages_stored st sessionId (take (length ps) ps)"
    using rep by (simp add: log_rep_def log_pages_def)
  ultimately obtain ps' st1 where st1:
    "truncatePages sessionId startSeq (rev [0..<length ps]) (length ps) st = Inr (length ps', st1)"
    "pages_stored st1 sessionId ps'" "[] \<notin> set ps'" "concat ps' = take startSeq (concat ps)"
    "same_but_pages st st1" "same_payload sessionId {..<startSeq} st st1"
    using truncatePages_rep [OF rep, of "length ps" startSeq st] by auto
  let ?st = "putIndex sessionId startSeq (length ps') st1"
  have rest: "same_rest st ?st"
    using st1(5) by (simp add: same_but_pages_def same_rest_def putIndex_def)
  have run: "truncateSuffix projector st sessionId startSeq =
      withHeads ?st (projectSessionTruncateV1 projector (ls_heads st) sessionId startSeq)"
    using max lt st1(1) rest
    by (simp add: truncateSuffix_def rep_index [OF rep] indexRec_def Let_def same_rest_def)
  have contiguous: "contiguousFrom 0 (take startSeq events)"
    using rep by (simp add: log_rep_def log_pages_def contiguous_take)
  have "seq ` set (take startSeq events) \<subseteq> {..<startSeq}"
  proof
    fix s assume "s \<in> seq ` set (take startSeq events)"
    then obtain i where "i < length (take startSeq events)" "s = seq (take startSeq events ! i)"
      by (auto simp: in_set_conv_nth)
    with contiguous_nth [OF contiguous] show "s \<in> {..<startSeq}" by simp
  qed
  from entries_hold_same [OF st1(6) this]
  have "list_all2 (entry_holds c st1 sessionId) (concat ps') (take startSeq events)"
    using rep st1(4) by (simp add: log_rep_def log_pages_def list_all2_take)
  then have "list_all2 (entry_holds c ?st sessionId) (concat ps') (take startSeq events)"
    by (subst entry_holds_payload [of ?st st1]) (simp_all add: putIndex_def)
  moreover have "pages_stored ?st sessionId ps'"
    using st1(2) by (simp add: putIndex_def pages_stored_def)
  ultimately have "log_rep c ?st sessionId ps' (take startSeq events)"
    using lt st1(3) max contiguous
    by (simp add: log_rep_def log_pages_def putIndex_def indexRec_def)
  with run rest show ?thesis by blast
qed

section \<open>Rewriting\<close>

lemma clearPages_ok:
  assumes "length (concat ps) \<le> MAX_SAFE_INTEGER"
  shows "k \<le> length ps \<Longrightarrow>
    \<forall>i. k \<le> i \<and> i < length ps \<longrightarrow> kv_get (ls_pages st) (sessionEventLogPageKey sessionId i) =
      Some (pageRec sessionId ps i) \<Longrightarrow>
    \<exists>st'. clearPages sessionId [k..<length ps] st = Inr st' \<and> same_but_pages st st'"
proof (induction "length ps - k" arbitrary: k st)
  case 0
  then show ?case by simp
next
  case (Suc n)
  then have k: "k < length ps" by simp
  let ?st = "deletePage sessionId k (deletePagePayloads sessionId (pageRec sessionId ps k) st)"
  have "pageStart ps k \<le> MAX_SAFE_INTEGER" using pageStart_le [of ps k] assms by simp
  then have page: "pageAt st sessionId k = Inr (pageRec sessionId ps k)"
    using Suc.prems(2) k by (simp add: pageAt_def requirePage_def pageRec_def)
  have "\<exists>st'. clearPages sessionId [Suc k..<length ps] ?st = Inr st' \<and> same_but_pages ?st st'"
    by (rule Suc.hyps(1))
       (use Suc.hyps(2) Suc.prems(2) k in \<open>auto simp: deletePage_def deletePagePayloads_def\<close>)
  then obtain st' where st': "clearPages sessionId [Suc k..<length ps] ?st = Inr st'"
    "same_but_pages ?st st'" by blast
  have "same_but_pages st ?st"
    by (rule same_but_pages_trans [of _ "deletePagePayloads sessionId (pageRec sessionId ps k) st"])
       (simp_all add: deletePagePayloads_def)
  with st' have "same_but_pages st st'" using same_but_pages_trans by blast
  with st'(1) page k show ?case by (simp add: upt_conv_Cons)
qed

lemma clearPaged_rep:
  assumes rep: "log_rep c st sessionId ps events"
  shows "\<exists>st'. clearPaged sessionId st = Inr st' \<and> same_rest st st'"
proof -
  have "length (concat ps) \<le> MAX_SAFE_INTEGER"
    using rep_length [OF rep] rep by (simp add: log_rep_def log_pages_def)
  from clearPages_ok [OF this, of 0 st sessionId] rep obtain st' where
    "clearPages sessionId [0..<length ps] st = Inr st'" "same_but_pages st st'"
    by (auto simp: log_rep_def log_pages_def pages_stored_def)
  then show ?thesis
    by (simp add: clearPaged_def rep_index [OF rep] same_but_pages_def same_rest_def)
       (simp add: indexRec_def)
qed

lemma clearPaged_unpaged:
  "indexOf st sessionId = Inr None \<Longrightarrow> \<exists>st'. clearPaged sessionId st = Inr st' \<and> same_rest st st'"
  by (simp add: clearPaged_def same_rest_def)

lemma log_pages_empty: "log_pages c st sessionId [] []"
  by (simp add: log_pages_def pages_stored_def)

lemma rewriteLog_rep:
  assumes read: "readLog c st sessionId = Inr previous"
    and cleared: "clearPaged sessionId st = Inr st1"
    and storable: "list_all (storable c) new" and contiguous: "contiguousFrom 0 new"
    and fits: "\<forall>e \<in> set new. fits_page c sessionId (entryOf c e)"
    and bound: "length new \<le> MAX_SAFE_INTEGER"
  shows "\<exists>ps' st4. rewriteLog c projector st sessionId new =
      rbind (rebaseRunRanges c st4 sessionId previous new) (\<lambda>st5.
        withHeads (st5\<lparr>ls_legacy := None\<rparr>)
          (projectSessionReplaceV1 projector (ls_heads st5) sessionId new)) \<and>
    log_rep c st4 sessionId ps' new \<and> same_rest st1 st4"
proof -
  let ?st2 = "putIndex sessionId 0 0 st1"
  have rest2: "same_rest st1 ?st2" by (simp add: same_rest_def putIndex_def)
  have unfold: "rewriteLog c projector st sessionId new =
      rbind (if new = [] then Inr ?st2
             else rbind (storedEvents c ?st2 sessionId new) (\<lambda>(entries, st3).
                    appendStored c st3 sessionId (indexRec sessionId 0 0) entries)) (\<lambda>st4.
      rbind (rebaseRunRanges c st4 sessionId previous new) (\<lambda>st5.
        withHeads (st5\<lparr>ls_legacy := None\<rparr>)
          (projectSessionReplaceV1 projector (ls_heads st5) sessionId new)))"
    unfolding rewriteLog_def read cleared decodedEvents_storable [OF storable] rbind_simps
    using contiguous by (simp add: Let_def indexRec_def)
  show ?thesis
  proof (cases "new = []")
    case True
    have "log_rep c ?st2 sessionId [] new"
      using True log_pages_empty by (simp add: log_rep_def putIndex_def indexRec_def)
    with rest2 show ?thesis unfolding unfold using True by (intro exI conjI) simp_all
  next
    case False
    obtain st3 where st3: "storedEvents c ?st2 sessionId new = Inr (map (entryOf c) new, st3)"
      "list_all2 (entry_holds c st3 sessionId) (map (entryOf c) new) new"
      "st3 = ?st2\<lparr>ls_payload := ls_payload st3\<rparr>"
      using storedEvents_hold [OF storable contiguous, of ?st2 sessionId] by blast
    have rest3: "same_rest ?st2 st3"
      using arg_cong [OF st3(3), of ls_heads] arg_cong [OF st3(3), of ls_runs]
        arg_cong [OF st3(3), of ls_legacy] by (simp add: same_rest_def)
    obtain ps' st4 where st4: "appendStored c st3 sessionId (indexRec sessionId 0 0)
        (map (entryOf c) new) = Inr st4" "log_rep c st4 sessionId ps' new" "same_rest st3 st4"
      using appendStored_rep [OF log_pages_empty st3(2) _ _ False, of ] fits contiguous bound by auto
    have "same_rest st1 st4"
      by (rule same_rest_trans [OF same_rest_trans [OF rest2 rest3] st4(3)])
    with st4(1,2) show ?thesis unfolding unfold using False st3(1) by (intro exI conjI) simp_all
  qed
qed


section \<open>Run ranges\<close>

lemma matched_length: "length (matchedCoordinates ps rs k) \<le> length ps"
  by (induction ps rs k rule: matchedCoordinates.induct) auto

lemma matched_bounds:
  "x \<in> set (matchedCoordinates ps rs k) \<Longrightarrow> k \<le> x \<and> x < k + length rs"
  by (induction ps rs k rule: matchedCoordinates.induct) (auto split: if_splits)

lemma matched_sorted: "sorted_wrt (<) (matchedCoordinates ps rs k)"
proof (induction ps rs k rule: matchedCoordinates.induct)
  case (3 p ps r rs k)
  then show ?case using matched_bounds [of _ ps rs "Suc k"] by (auto simp: Suc_le_eq)
qed simp_all

lemma matched_same:
  "i < length (matchedCoordinates ps rs k) \<Longrightarrow>
   rs ! (matchedCoordinates ps rs k ! i - k) = ps ! i"
proof (induction ps rs k arbitrary: i rule: matchedCoordinates.induct)
  case (3 p ps r rs k)
  have shift: "(r # rs) ! (x - k) = rs ! (x - Suc k)" if "Suc k \<le> x" for x
  proof -
    from that have "x - k = Suc (x - Suc k)" by simp
    then show ?thesis by simp
  qed
  show ?case
  proof (cases "r = p")
    case True
    show ?thesis
    proof (cases i)
      case (Suc j)
      then have "j < length (matchedCoordinates ps rs (Suc k))" using "3.prems" True by simp
      moreover from this have "Suc k \<le> matchedCoordinates ps rs (Suc k) ! j"
        using matched_bounds nth_mem by metis
      ultimately show ?thesis using "3.IH"(1) [OF True] True Suc shift by simp
    qed (use True in simp)
  next
    case False
    then have i: "i < length (matchedCoordinates (p # ps) rs (Suc k))" using "3.prems" by simp
    then have "Suc k \<le> matchedCoordinates (p # ps) rs (Suc k) ! i"
      using matched_bounds nth_mem by metis
    with "3.IH"(2) [OF False i] False shift show ?thesis by simp
  qed
qed simp_all

lemma matched_all: "subseq ps rs \<Longrightarrow> length (matchedCoordinates ps rs k) = length ps"
proof (induction ps rs k rule: matchedCoordinates.induct)
  case (3 p ps r rs k)
  then show ?case
    by (metis matchedCoordinates.simps(3) length_Cons subseq_Cons2_iff subseq_Cons2_neq)
qed simp_all

lemma newBoundary_mono:
  assumes "newBoundary m n len a = Some a'" and "newBoundary m n len b = Some b'" and "a \<le> b"
    and "sorted_wrt (<) m" and "\<forall>x \<in> set m. x < len"
  shows "a' \<le> b' \<and> b' \<le> len"
proof -
  have lt: "m ! i < len" if "i < length m" for i using assms(5) that by simp
  show ?thesis
  proof (cases "b < length m")
    case True
    then have "a' = m ! a" "b' = m ! b" using assms(1,2,3) by (auto simp: newBoundary_def)
    moreover have "m ! a \<le> m ! b"
      using assms(3,4) True sorted_wrt_nth_less [of "(<)" m a b] by (cases "a = b") auto
    ultimately show ?thesis using lt [OF True] by simp
  next
    case False
    then have "b' = len" using assms(2) by (auto simp: newBoundary_def split: if_splits)
    moreover have "a' \<le> len"
      using assms(1) lt [of a] by (auto simp: newBoundary_def split: if_splits)
    ultimately show ?thesis by simp
  qed
qed

lemma newBoundary_inside:
  assumes "newBoundary m n len a = Some a'" and "newBoundary m n len b = Some b'"
    and "a \<le> j" and "j < b" and "j < length m"
    and "sorted_wrt (<) m" and "\<forall>x \<in> set m. x < len"
  shows "a' \<le> m ! j \<and> m ! j < b'"
proof
  have "a' = m ! a" using assms(1,3,5) by (simp add: newBoundary_def)
  then show "a' \<le> m ! j"
    using assms(3,5,6) sorted_wrt_nth_less [of "(<)" m a j] by (cases "a = j") auto
next
  show "m ! j < b'"
  proof (cases "b < length m")
    case True
    then have "b' = m ! b" using assms(2) by (simp add: newBoundary_def)
    then show ?thesis using assms(4,6) True sorted_wrt_nth_less [of "(<)" m j b] by simp
  next
    case False
    then have "b' = len" using assms(2) by (auto simp: newBoundary_def split: if_splits)
    then show ?thesis using assms(5,7) by simp
  qed
qed

lemma rebaseRunRanges_run:
  assumes run: "rebaseRunRanges c st sessionId previous rewritten = Inr st'" and ne: "previous \<noteq> []"
    and n: "n < length (ls_runs st)" "ls_runs st ! n = (key, run0)"
    and own: "r_sessionId run0 = sessionId" "r_eventRange run0 = Some (a, b)" "safeRange a b"
    and kept: "subseq (map (eventSignature c) previous) (map (eventSignature c) rewritten)"
  shows "\<exists>a' b' m. ls_runs st' ! n =
      (key, run0\<lparr>r_previousEventCount := a', r_eventRange := Some (a', b')\<rparr>) \<and>
    a' \<le> b' \<and> b' \<le> length rewritten \<and> length m = length previous \<and> sorted_wrt (<) m \<and>
    (\<forall>j. a \<le> j \<and> j < b \<longrightarrow> a' \<le> m ! j \<and> m ! j < b' \<and>
       eventSignature c (rewritten ! (m ! j)) = eventSignature c (previous ! j))"
proof -
  let ?ps = "map (eventSignature c) previous" and ?rs = "map (eventSignature c) rewritten"
  define m where "m = matchedCoordinates ?ps ?rs 0"
  have m: "length m = length previous" "sorted_wrt (<) m" "\<forall>x \<in> set m. x < length rewritten"
    using matched_all [OF kept, of 0] matched_sorted [of ?ps ?rs 0] matched_bounds [of _ ?ps ?rs 0]
    by (auto simp: m_def)
  let ?boundary = "newBoundary m (length previous) (length rewritten)"
  from run ne obtain runs where runs: "rmap (rebaseRun sessionId ?boundary) (ls_runs st) = Inr runs"
    and st': "st' = st\<lparr>ls_runs := runs\<rparr>"
    by (auto simp: rebaseRunRanges_def Let_def m_def rbind_Inr_iff)
  have "rebaseRun sessionId ?boundary (key, run0) = Inr (runs ! n)"
    using list_all2_nthD [OF runs [unfolded rmap_Inr_iff] n(1)] n(2) by simp
  then obtain a' b' where ab: "?boundary a = Some a'" "?boundary b = Some b'"
    and runs_n: "runs ! n = (key, run0\<lparr>r_previousEventCount := a', r_eventRange := Some (a', b')\<rparr>)"
    using own by (auto simp: rebaseRun_def safeEventRange_def split: option.splits)
  have le: "a \<le> b" using own(3) by (simp add: safeRange_def)
  have b: "b \<le> length previous" using ab(2) m(1) by (auto simp: newBoundary_def split: if_splits)
  have "a' \<le> m ! j \<and> m ! j < b' \<and>
      eventSignature c (rewritten ! (m ! j)) = eventSignature c (previous ! j)"
    if j: "a \<le> j" "j < b" for j
  proof -
    have len: "j < length m" using j b m(1) by simp
    then have "?rs ! (m ! j) = ?ps ! j" using matched_same [of j ?ps ?rs 0] by (simp add: m_def)
    moreover have "m ! j < length rewritten" using m(3) len by simp
    ultimately show ?thesis
      using newBoundary_inside [OF ab j len m(2,3)] len m(1) by simp
  qed
  moreover have "a' \<le> b' \<and> b' \<le> length rewritten" by (rule newBoundary_mono [OF ab le m(2,3)])
  ultimately show ?thesis using runs_n st' m(1,2)
    by (intro exI [of _ a'] exI [of _ b'] exI [of _ m]) simp
qed

end
