(* ===== verification/Event_Log.thy ===== *)
theory Event_Log
  imports Session_Log
begin

text \<open>
  The interface of the Session log the kernel relies on, as the locale \<open>event_log\<close>, its
  interpretation on the operations of \<open>Log_Store\<close>, and the properties of the log: what a read returns
  after an append, a truncation and a rewrite, which batches are refused, and where a run's events are
  after a rewrite. An in-line event always fits a page.
\<close>

section \<open>The interface\<close>

locale event_log =
  fixes holds :: "'s \<Rightarrow> 'e list \<Rightarrow> bool"
    and whole :: "'s \<Rightarrow> 'x + 'e list"
    and part :: "'s \<Rightarrow> nat \<Rightarrow> nat \<Rightarrow> 'x + 'e list"
    and appended :: "'s \<Rightarrow> 'e list \<Rightarrow> 's \<Rightarrow> bool"
    and truncated :: "'s \<Rightarrow> nat \<Rightarrow> 's \<Rightarrow> bool"
  assumes whole_holds: "holds st es \<Longrightarrow> whole st = Inr es"
    and part_holds: "holds st es \<Longrightarrow> a \<le> b \<Longrightarrow> b \<le> length es \<Longrightarrow>
      part st a b = Inr (drop a (take b es))"
    and holds_appended: "holds st es \<Longrightarrow> appended st new st' \<Longrightarrow> holds st' (es @ new)"
    and holds_truncated: "holds st es \<Longrightarrow> truncated st n st' \<Longrightarrow> holds st' (take n es)"
begin

lemma appended_batch:
  "holds st es \<Longrightarrow> appended st new st' \<Longrightarrow>
   part st' (length es) (length es + length new) = Inr new"
  using part_holds [OF holds_appended] by fastforce

lemma appended_keeps_part:
  "holds st es \<Longrightarrow> appended st new st' \<Longrightarrow> a \<le> b \<Longrightarrow> b \<le> length es \<Longrightarrow>
   part st' a b = part st a b"
  using part_holds [of st es a b] part_holds [OF holds_appended, of st es new st' a b] by simp

lemma truncated_keeps_part:
  "holds st es \<Longrightarrow> truncated st n st' \<Longrightarrow> a \<le> b \<Longrightarrow> b \<le> n \<Longrightarrow> n \<le> length es \<Longrightarrow>
   part st' a b = part st a b"
  using part_holds [of st es a b] part_holds [OF holds_truncated, of st es n st' a b]
  by (simp add: min_def)

lemma restart:
  assumes "holds st es" and "appended st new st'" and "truncated st' (length es) st''"
  shows "whole st'' = whole st"
proof -
  have "holds st'' (take (length es) (es @ new))"
    by (rule holds_truncated [OF holds_appended [OF assms(1,2)] assms(3)])
  then show ?thesis using whole_holds assms(1) by simp
qed

end

section \<open>The interpretation\<close>

lemma log_rep_heads: "log_rep c (st\<lparr>ls_heads := h\<rparr>) sessionId ps events = log_rep c st sessionId ps events"
proof -
  have "entry_holds c (st\<lparr>ls_heads := h\<rparr>) sessionId = entry_holds c st sessionId"
    by (rule fun_cong [OF entry_holds_payload]) simp
  then show ?thesis by (simp add: log_rep_def log_pages_def pages_stored_def)
qed

lemma withHeads_Inr:
  "withHeads st result = Inr st' \<longleftrightarrow> (\<exists>heads. result = Inr heads \<and> st' = st\<lparr>ls_heads := heads\<rparr>)"
  by (auto simp: withHeads_def split: sum.splits)

lemma withHeads_Inl: "withHeads st result = Inl e \<longleftrightarrow> (\<exists>x. result = Inl x \<and> e = Context_Failed x)"
  by (auto simp: withHeads_def split: sum.splits)

text \<open>A batch the log may be given: its events are storable, each fits a page, and the log stays within
  the safe integers. \<open>ok_batch\<close> says nothing of its sequence numbers.\<close>

definition ok_batch :: "log_codec \<Rightarrow> string \<Rightarrow> session_event list \<Rightarrow> bool" where
  "ok_batch c sessionId new \<longleftrightarrow>
     list_all (\<lambda>e. storable c e \<and> fits_page c sessionId (entryOf c e) \<and> seq e < MAX_SAFE_INTEGER) new"

definition appendsTo ::
  "log_codec \<Rightarrow> context_projector option \<Rightarrow> string \<Rightarrow> log_store \<Rightarrow> session_event list \<Rightarrow> log_store \<Rightarrow> bool" where
  "appendsTo c projector sessionId st new st' \<longleftrightarrow>
     ok_batch c sessionId new \<and> (\<exists>epoch. appendLog c projector st sessionId new epoch = Inr st')"

lemma contiguous_bound:
  assumes "contiguousFrom k new" and "list_all (\<lambda>e. seq e < MAX_SAFE_INTEGER) new" and "new \<noteq> []"
  shows "k + length new \<le> MAX_SAFE_INTEGER"
proof -
  have "seq (new ! (length new - 1)) = k + (length new - 1)"
    using assms(1,3) by (intro contiguous_nth) simp_all
  moreover have "seq (new ! (length new - 1)) < MAX_SAFE_INTEGER"
    using assms(2,3) by (simp add: list_all_length)
  moreover have "0 < length new" using assms(3) by simp
  ultimately show ?thesis by linarith
qed

lemma appendLog_ok:
  assumes "log_holds c st sessionId events" and "new \<noteq> []" and "ok_batch c sessionId new"
    and "contiguousFrom (length events) new"
  shows "\<exists>st'. appendLog c projector st sessionId new epoch =
      withHeads st' (projectSessionAppendV1 projector (ls_heads st) sessionId new epoch) \<and>
    log_holds c st' sessionId (events @ new) \<and> same_rest st st'"
proof -
  obtain ps where rep: "log_rep c st sessionId ps events" using assms(1) by (auto simp: log_holds_def)
  have "list_all (storable c) new" "\<forall>e \<in> set new. fits_page c sessionId (entryOf c e)"
    "list_all (\<lambda>e. seq e < MAX_SAFE_INTEGER) new"
    using assms(3) by (auto simp: ok_batch_def list_all_iff)
  with appendLog_rep [OF rep assms(2) _ assms(4) _ contiguous_bound [OF assms(4) _ assms(2)]]
  show ?thesis unfolding log_holds_def by blast
qed

lemma appendsTo_holds:
  assumes "log_holds c st sessionId events" and "appendsTo c projector sessionId st new st'"
  shows "log_holds c st' sessionId (events @ new)"
proof (cases "new = []")
  case True
  with assms show ?thesis by (simp add: appendsTo_def appendLog_def)
next
  case new: False
  obtain epoch where run: "appendLog c projector st sessionId new epoch = Inr st'"
    and ok: "ok_batch c sessionId new"
    using assms(2) by (auto simp: appendsTo_def)
  obtain ps where rep: "log_rep c st sessionId ps events" using assms(1) by (auto simp: log_holds_def)
  have "list_all (storable c) new" using ok by (auto simp: ok_batch_def list_all_iff)
  then have "contiguousFrom (length events) new"
    using appendLog_gap [OF rep new, of projector epoch] run by fastforce
  from appendLog_ok [OF assms(1) new ok this, of projector epoch] obtain st1 where
    "withHeads st1 (projectSessionAppendV1 projector (ls_heads st) sessionId new epoch) = Inr st'"
    "log_holds c st1 sessionId (events @ new)" using run by auto
  then show ?thesis by (auto simp: withHeads_Inr log_holds_def log_rep_heads)
qed

definition truncatesTo ::
  "context_projector option \<Rightarrow> string \<Rightarrow> log_store \<Rightarrow> nat \<Rightarrow> log_store \<Rightarrow> bool" where
  "truncatesTo projector sessionId st n st' \<longleftrightarrow> truncateSuffix projector st sessionId n = Inr st'"

lemma truncatesTo_holds:
  assumes "log_holds c st sessionId events" and "truncatesTo projector sessionId st n st'"
  shows "log_holds c st' sessionId (take n events)"
proof -
  obtain ps where rep: "log_rep c st sessionId ps events" using assms(1) by (auto simp: log_holds_def)
  show ?thesis
  proof (cases "n < length events")
    case True
    from truncateSuffix_rep [OF rep True, of projector] assms(2) obtain ps' st1 where
      "withHeads st1 (projectSessionTruncateV1 projector (ls_heads st) sessionId n) = Inr st'"
      "log_rep c st1 sessionId ps' (take n events)" unfolding truncatesTo_def by fastforce
    then show ?thesis by (auto simp: withHeads_Inr log_holds_def log_rep_heads)
  next
    case False
    then have "st' = st" using assms(2)
      by (auto simp: truncatesTo_def truncateSuffix_def rep_index [OF rep] indexRec_def split: if_splits)
    with assms(1) False show ?thesis by simp
  qed
qed

lemma readRange_rep:
  assumes rep: "log_rep c st sessionId ps events" and range: "safeRange a b"
  shows "readRange c st sessionId a b = Inr (drop a (take b events))"
  unfolding readRange_def
  by (rule rangeEvents_rep [OF rep range]) (use rep_entry(2) [OF rep] in \<open>simp_all add: entry_holds_def\<close>)

lemma readRange_holds:
  assumes "log_holds c st sessionId events" and "a \<le> b" and "b \<le> length events"
  shows "readRange c st sessionId a b = Inr (drop a (take b events))"
proof -
  obtain ps where rep: "log_rep c st sessionId ps events" using assms(1) by (auto simp: log_holds_def)
  have "length events \<le> MAX_SAFE_INTEGER" using rep by (simp add: log_rep_def log_pages_def)
  with assms(2,3) have "safeRange a b" by (simp add: safeRange_def)
  then show ?thesis by (rule readRange_rep [OF rep])
qed

lemma readLog_holds: "log_holds c st sessionId events \<Longrightarrow> readLog c st sessionId = Inr events"
  by (auto simp: log_holds_def dest: readLog_rep)

interpretation slog: event_log "\<lambda>st. log_holds c st sessionId" "\<lambda>st. readLog c st sessionId"
    "\<lambda>st. readRange c st sessionId" "appendsTo c projector sessionId" "truncatesTo projector sessionId"
  for c projector sessionId
  by unfold_locales
    (simp_all add: readLog_holds readRange_holds appendsTo_holds truncatesTo_holds)

section \<open>In-line events fit\<close>

lemma length_escapeUnit: "length (escapeUnit c) \<le> 6"
  by (simp add: escapeUnit_def hex4_def del: fixedWidth.simps)

lemma length_quoteUnits: "length (quoteUnits s) \<le> 6 * length s"
proof (induction s rule: quoteUnits.induct)
  case (3 c d s)
  have "length (quoteUnits (c # d # s)) \<le> length (escapeUnit c) + length (quoteUnits (d # s))"
    if "\<not> (high_surrogate c \<and> low_surrogate d)" using that by (simp only: quoteUnits.simps if_False length_append)
  with 3 length_escapeUnit [of c] show ?case
    by (cases "high_surrogate c \<and> low_surrogate d") force+
qed (use length_escapeUnit in \<open>simp_all add: le_trans\<close>)

lemma quote_bytes: "utf8_length (quoteJson s) \<le> 18 * length s + 6"
  using utf8_length_le3 [of "quoteJson s"] length_quoteUnits [of s] by (simp add: quoteJson_def)

lemma decimal_bytes:
  assumes "n \<le> MAX_SAFE_INTEGER"
  shows "utf8_length (js (decimal n)) \<le> 48"
proof -
  have "n < 10 ^ 16" using assms by (simp add: MAX_SAFE_INTEGER_def)
  from length_radix [OF _ this] have "length (decimal n) \<le> 16" by (simp add: decimal_def)
  with utf8_length_le3 [of "js (decimal n)"] show ?thesis by simp
qed

lemma utf8_Cons_le: "utf8_length (c # s) \<le> 3 + utf8_length s"
  using utf8_length_append [of "[c]" s] unit_bytes_bounds(2) [of c] by simp

lemma sum_bytes:
  "utf8_length (s @ t) \<le> m + n" if "utf8_length s \<le> m" and "utf8_length t \<le> n"
  using utf8_length_append [of s t] that by linarith

lemma member_bytes:
  assumes "utf8_length (stringify v) \<le> n"
  shows "utf8_length (quoteJson (js k) @ 0x3A # stringify v) \<le> 18 * length k + 9 + n"
  using utf8_length_append [of "quoteJson (js k)" "0x3A # stringify v"] quote_bytes [of "js k"]
    utf8_Cons_le [of "0x3A" "stringify v"] assms by simp

lemma join_bytes:
  "utf8_length (joinComma xs) \<le> sum_list (map (\<lambda>x. utf8_length x + 3) xs)"
proof (induction xs rule: joinComma.induct)
  case (3 x y xs)
  have "utf8_length (joinComma (x # y # xs)) \<le> utf8_length x + (3 + utf8_length (joinComma (y # xs)))"
    using utf8_length_append [of x "0x2C # joinComma (y # xs)"]
      utf8_Cons_le [of "0x2C" "joinComma (y # xs)"] by (simp only: joinComma.simps)
  with 3 show ?case by simp
qed simp_all

lemma object_bytes:
  assumes "sum_list (map (\<lambda>(k, v). 18 * length k + 12 + utf8_length (stringify v)) ms) \<le> n"
  shows "utf8_length (stringify (JObj ms)) \<le> 6 + n"
proof -
  let ?texts = "map (\<lambda>(k, v). quoteJson (js k) @ 0x3A # stringify v) ms"
  have "utf8_length (joinComma ?texts) \<le> sum_list (map (\<lambda>x. utf8_length x + 3) ?texts)"
    by (rule join_bytes)
  also have "\<dots> \<le> sum_list (map (\<lambda>(k, v). 18 * length k + 12 + utf8_length (stringify v)) ms)"
    unfolding map_map by (rule sum_list_mono) (use member_bytes [OF order_refl] in \<open>auto simp: add.commute add.left_commute\<close>)
  finally have "utf8_length (joinComma ?texts @ [0x7D]) \<le> n + 3"
    using assms utf8_length_append [of "joinComma ?texts" "[0x7D]"] unit_bytes_bounds(2) [of "0x7D"]
    by simp
  then show ?thesis using utf8_Cons_le [of "0x7B" "joinComma ?texts @ [0x7D]"] by simp
qed

lemma inline_fits:
  assumes "eventType (body event) \<noteq> ''model/request''"
    and "utf8_length (serialized c event) \<le> SESSION_EVENT_INLINE_BYTES_V1" and "length sessionId \<le> 1000"
  shows "fits_page c sessionId (entryOf c event)"
proof -
  have entry: "entryOf c event = Inline event"
    using assms(1,2) unfolding entryOf_def Let_def by simp
  have e: "utf8_length (stringify (entryJson c (Inline event))) \<le> 6 + (462 + 16384)"
    unfolding entryJson_def log_entry.case
    by (rule object_bytes)
       (use assms(2) quote_bytes [of "js ''inline''"] in
        \<open>simp add: serialized_def jtext_def SESSION_EVENT_INLINE_BYTES_V1_def del: js_simps\<close>)
  show ?thesis unfolding fits_page_def entry
  proof (intro allI impI)
    fix page start
    assume small: "page \<le> MAX_SAFE_INTEGER" "start \<le> MAX_SAFE_INTEGER"
    let ?entries = "JArr [entryJson c (Inline event)]"
    have arr: "utf8_length (stringify ?entries) \<le> 6 + (6 + (462 + 16384))"
      using e utf8_length_append [of "stringify (entryJson c (Inline event))" "[0x5D]"]
        utf8_Cons_le [of "0x5B" "stringify (entryJson c (Inline event)) @ [0x5D]"]
        unit_bytes_bounds(2) [of "0x5D"] by simp
    have one: "utf8_length (js (decimal 1)) \<le> 48" by (rule decimal_bytes) (simp add: MAX_SAFE_INTEGER_def)
    have "utf8Bytes (pageJson c \<lparr>lp_version = 1, lp_session = sessionId, lp_page = page,
        lp_start = start, lp_entries = [Inline event]\<rparr>) \<le> 6 + (1000 + 18 * 1000 + 16858)"
      unfolding utf8Bytes_def pageJson_def
      by (rule object_bytes)
         (use arr one decimal_bytes [OF small(1)] decimal_bytes [OF small(2)]
            quote_bytes [of "js sessionId"] assms(3) in
          \<open>simp add: jnat_def jtext_def del: js_simps stringify.simps(5) One_nat_def\<close>)
    also have "\<dots> \<le> SESSION_EVENT_PAGE_BYTES_V1" by (simp add: SESSION_EVENT_PAGE_BYTES_V1_def)
    finally show "utf8Bytes (pageJson c \<lparr>lp_version = 1, lp_session = sessionId, lp_page = page,
        lp_start = start, lp_entries = [Inline event]\<rparr>) \<le> SESSION_EVENT_PAGE_BYTES_V1" .
  qed
qed


section \<open>A log of Turn starts\<close>

text \<open>A codec for the events the witnesses store, and a log that has just been created.\<close>

definition turnCodec :: log_codec where
  "turnCodec = \<lparr>
     lc_json = (\<lambda>event. JObj [(''type'', jtext (eventType (body event))), (''seq'', jnat (seq event)),
        (''timestamp'', jtext (timestamp event)),
        (''turn'', case body event of Turn_Start turn \<Rightarrow> jnat turn | _ \<Rightarrow> JNull)]),
     lc_decode = (\<lambda>v. case (jget v ''type'', jget v ''seq'', jget v ''timestamp'', jget v ''turn'') of
          (Some (JStr ty), Some (JNum s), Some (JStr t), Some (JNum turn)) \<Rightarrow>
            if unjs ty = ''turn/start''
            then Some \<lparr>seq = parseDecimal s, timestamp = unjs t, body = Turn_Start (parseDecimal turn)\<rparr>
            else None
        | _ \<Rightarrow> None),
     lc_sha256 = (\<lambda>s. ''digest'')\<rparr>"

definition turnAt :: "nat \<Rightarrow> session_event" where
  "turnAt n = \<lparr>seq = n, timestamp = ''t'', body = Turn_Start (Suc n)\<rparr>"

definition emptyLog :: log_store where
  "emptyLog = putIndex ''s'' 0 0 \<lparr>ls_index = [], ls_pages = [], ls_payload = [], ls_legacy = None,
     ls_heads = [], ls_runs = []\<rparr>"

lemma turnAt_storable: "storable turnCodec (turnAt n)"
  by (simp add: storable_def turnCodec_def turnAt_def jtext_def jnat_def numberText_decimal
      del: js_simps)

lemma turnAt_bytes:
  assumes "n < MAX_SAFE_INTEGER"
  shows "utf8_length (serialized turnCodec (turnAt n)) \<le> 6 + 2000"
proof -
  have "n \<le> MAX_SAFE_INTEGER" "Suc n \<le> MAX_SAFE_INTEGER" using assms by simp_all
  note bytes = decimal_bytes [OF this(1)] decimal_bytes [OF this(2)]
    quote_bytes [of "js ''turn/start''"] quote_bytes [of "js ''t''"]
  show ?thesis unfolding serialized_def turnCodec_def log_codec.simps
    by (rule object_bytes)
       (use bytes in \<open>simp add: turnAt_def jtext_def jnat_def del: js_simps\<close>)
qed

lemma turnAt_fits:
  assumes "n < MAX_SAFE_INTEGER" and "length sessionId \<le> 1000"
  shows "fits_page turnCodec sessionId (entryOf turnCodec (turnAt n))"
  by (rule inline_fits)
     (use turnAt_bytes [OF assms(1)] assms(2) in
      \<open>simp_all add: turnAt_def SESSION_EVENT_INLINE_BYTES_V1_def\<close>)

lemma turns_ok:
  assumes "list_all (\<lambda>n. n < MAX_SAFE_INTEGER) ns"
  shows "ok_batch turnCodec ''s'' (map turnAt ns)"
proof -
  have "storable turnCodec (turnAt n) \<and> fits_page turnCodec ''s'' (entryOf turnCodec (turnAt n)) \<and>
      seq (turnAt n) < MAX_SAFE_INTEGER" if "n \<in> set ns" for n
    using assms that turnAt_storable turnAt_fits [of n "''s''"]
    by (simp add: list_all_iff) (simp add: turnAt_def)
  then show ?thesis unfolding ok_batch_def list_all_iff set_map by blast
qed

lemma emptyLog_holds: "log_holds turnCodec emptyLog ''s'' []"
  unfolding log_holds_def
  by (rule exI [of _ "[]"]) (simp add: log_rep_def log_pages_empty emptyLog_def putIndex_def indexRec_def kv_get_def)

lemma three_turns:
  "\<exists>st. log_holds turnCodec st ''s'' (map turnAt [0, 1, 2])"
proof -
  have "ok_batch turnCodec ''s'' (map turnAt [0, 1, 2])"
    by (rule turns_ok) (simp add: MAX_SAFE_INTEGER_def)
  moreover have "contiguousFrom (length ([] :: session_event list)) (map turnAt [0, 1, 2])"
    by (simp add: turnAt_def)
  ultimately show ?thesis
    using appendLog_ok [OF emptyLog_holds, of "map turnAt [0, 1, 2]" None None] by auto
qed

section \<open>Properties\<close>

text \<open>C13: The paged log refines a flat list under append. A batch that continues the log is stored whatever
  mixture of in-line events and chunked payloads its pages end up with: only the context projection
  may still refuse it, and when it does not, reading the log back gives the old events followed by the
  batch, and the range the batch was stored under is the batch.\<close>

theorem log_append_then_read:
  assumes "log_holds c st sessionId events" and "new \<noteq> []" and "ok_batch c sessionId new"
    and "contiguousFrom (length events) new"
  shows "case appendLog c projector st sessionId new epoch of
      Inl e \<Rightarrow> (\<exists>x. e = Context_Failed x)
    | Inr st' \<Rightarrow> readLog c st' sessionId = Inr (events @ new) \<and>
        readRange c st' sessionId (length events) (length events + length new) = Inr new"
proof (cases "appendLog c projector st sessionId new epoch")
  case (Inl e)
  obtain st1 where "appendLog c projector st sessionId new epoch =
      withHeads st1 (projectSessionAppendV1 projector (ls_heads st) sessionId new epoch)"
    using appendLog_ok [OF assms, of projector epoch] by blast
  with Inl have "\<exists>x. e = Context_Failed x" by (metis withHeads_Inl)
  with Inl show ?thesis by simp
next
  case (Inr st')
  then have "appendsTo c projector sessionId st new st'" using assms(3) by (auto simp: appendsTo_def)
  with Inr assms(1) show ?thesis
    using slog.whole_holds [OF slog.holds_appended] slog.appended_batch by fastforce
qed

theorem log_append_then_read_witness:
  "\<exists>st. log_holds turnCodec st ''s'' (map turnAt [0, 1, 2]) \<and>
     (case appendLog turnCodec None st ''s'' (map turnAt [3, 4]) None of
        Inl e \<Rightarrow> (\<exists>x. e = Context_Failed x)
      | Inr st' \<Rightarrow> readLog turnCodec st' ''s'' = Inr (map turnAt [0, 1, 2] @ map turnAt [3, 4]) \<and>
          readRange turnCodec st' ''s'' 3 5 = Inr (map turnAt [3, 4]))"
proof -
  obtain st where st: "log_holds turnCodec st ''s'' (map turnAt [0, 1, 2])" using three_turns by blast
  have "ok_batch turnCodec ''s'' (map turnAt [3, 4])"
    by (rule turns_ok) (simp add: MAX_SAFE_INTEGER_def)
  moreover have "contiguousFrom (length (map turnAt [0, 1, 2])) (map turnAt [3, 4])"
    by (simp add: turnAt_def)
  ultimately have r: "case appendLog turnCodec None st ''s'' (map turnAt [3, 4]) None of
        Inl e \<Rightarrow> (\<exists>x. e = Context_Failed x)
      | Inr st' \<Rightarrow> readLog turnCodec st' ''s'' = Inr (map turnAt [0, 1, 2] @ map turnAt [3, 4]) \<and>
          readRange turnCodec st' ''s'' (length (map turnAt [0, 1, 2]))
            (length (map turnAt [0, 1, 2]) + length (map turnAt [3, 4])) = Inr (map turnAt [3, 4])"
    by (intro log_append_then_read [OF st]) simp_all
  have lens: "length (map turnAt [0, 1, 2]) = 3" "3 + length (map turnAt [3, 4]) = 5" by simp_all
  show ?thesis using r st unfolding lens by blast
qed

text \<open>C32: A range read of the log is a slice of the flat list: seeking by bisecting the page keys and
  stopping early reads exactly the events whose sequence numbers lie in the range, for every range,
  past the end of the log too.\<close>

theorem log_range_is_slice:
  assumes "log_holds c st sessionId events" and "safeRange a b"
  shows "readRange c st sessionId a b = Inr (drop a (take b events))"
  using assms readRange_rep by (auto simp: log_holds_def)

theorem log_range_is_slice_witness:
  "\<exists>st. log_holds turnCodec st ''s'' (map turnAt [0, 1, 2]) \<and>
     readRange turnCodec st ''s'' 1 5 = Inr (map turnAt [1, 2])"
proof -
  obtain st where st: "log_holds turnCodec st ''s'' (map turnAt [0, 1, 2])" using three_turns by blast
  have "safeRange 1 5" by (simp add: safeRange_def MAX_SAFE_INTEGER_def)
  from log_range_is_slice [OF st this] st show ?thesis by (intro exI [of _ st]) simp
qed

text \<open>C31: Discarding the Turn a recovery restarts gives back the log as it was before it: a batch appended
  and then truncated at the old end leaves every read as it was, and the exact events before the
  boundary are never touched.\<close>

theorem restart_restores_log:
  assumes "log_holds c st sessionId events"
    and "appendsTo c projector sessionId st new st'"
    and "truncateSuffix projector st' sessionId (length events) = Inr st''"
  shows "readLog c st'' sessionId = readLog c st sessionId \<and> log_holds c st'' sessionId events"
proof -
  have t: "truncatesTo projector sessionId st' (length events) st''"
    using assms(3) by (simp add: truncatesTo_def)
  have "log_holds c st'' sessionId (take (length events) (events @ new))"
    by (rule slog.holds_truncated [OF slog.holds_appended [OF assms(1,2)] t])
  then show ?thesis using slog.restart [OF assms(1,2) t] by simp
qed

theorem restart_restores_log_witness:
  "\<exists>st st' st''. log_holds turnCodec st ''s'' [] \<and>
     appendsTo turnCodec None ''s'' st (map turnAt [0]) st' \<and>
     truncateSuffix None st' ''s'' 0 = Inr st'' \<and>
     readLog turnCodec st'' ''s'' = readLog turnCodec st ''s''"
proof -
  have ok: "ok_batch turnCodec ''s'' (map turnAt [0])"
    by (rule turns_ok) (simp add: MAX_SAFE_INTEGER_def)
  have cont: "contiguousFrom (length ([] :: session_event list)) (map turnAt [0])"
    by (simp add: turnAt_def)
  have heads: "ls_heads emptyLog = []" by (simp add: emptyLog_def putIndex_def)
  obtain hs where hs: "projectSessionAppendV1 None [] ''s'' (map turnAt [0]) None = Inr hs"
    by (simp add: projectSessionAppendV1_def writeCursorOnlyV1_def headIn_def
        requireConversationHeadV1_def planCursorAdvanceV1_def turnAt_def)
  from appendLog_ok [OF emptyLog_holds _ ok cont, of None None] heads hs obtain st' where
    st': "appendLog turnCodec None emptyLog ''s'' (map turnAt [0]) None = Inr st'"
    "ls_heads st' = hs"
    by (auto simp: withHeads_def)
  have a: "appendsTo turnCodec None ''s'' emptyLog (map turnAt [0]) st'"
    using ok st'(1) by (auto simp: appendsTo_def)
  obtain ps where rep: "log_rep turnCodec st' ''s'' ps (map turnAt [0])"
    using slog.holds_appended [OF emptyLog_holds a] by (auto simp: log_holds_def)
  have "\<exists>hs'. projectSessionTruncateV1 None hs ''s'' 0 = Inr hs'"
    using hs
    by (auto simp: projectSessionAppendV1_def writeCursorOnlyV1_def headIn_def
        requireConversationHeadV1_def planCursorAdvanceV1_def turnAt_def projectSessionTruncateV1_def
        putHead_def emptyConversationHeadV1_def WORKING_CONTEXT_SCHEMA_VERSION_V1_def
        advanceConversationHeadV1_def MAX_SAFE_INTEGER_def kv_get_def)
  with truncateSuffix_rep [OF rep, of 0 None] st'(2) obtain st'' where
    t: "truncateSuffix None st' ''s'' 0 = Inr st''"
    by (auto simp: withHeads_def)
  from restart_restores_log [OF emptyLog_holds a] t emptyLog_holds a show ?thesis by force
qed

text \<open>A batch that does not start where the log ends, or has a gap, is refused and nothing is stored.\<close>

theorem log_refuses_gap:
  assumes "log_holds c st sessionId events" and "new \<noteq> []" and "list_all (storable c) new"
    and "\<not> contiguousFrom (length events) new"
  shows "appendLog c projector st sessionId new epoch = Inl Batch_Not_Contiguous"
  using assms appendLog_gap by (auto simp: log_holds_def)

theorem log_refuses_gap_witness:
  "appendLog turnCodec None emptyLog ''s'' [turnAt 1] None = Inl Batch_Not_Contiguous"
  by (rule log_refuses_gap [OF emptyLog_holds])
     (simp_all add: turnAt_storable, simp add: turnAt_def)

text \<open>C33: A structural repair that inserts events never moves a run off its events: when the rewritten log
  still has every old event in order, the new range of each run of the Session contains every event
  the old range had, in order, and lies within the new log.\<close>

theorem run_ranges_follow_rewrite:
  assumes "rebaseRunRanges c st sessionId previous rewritten = Inr st'" and "previous \<noteq> []"
    and "n < length (ls_runs st)" and "ls_runs st ! n = (key, run0)"
    and "r_sessionId run0 = sessionId" and "r_eventRange run0 = Some (a, b)" and "safeRange a b"
    and "subseq (map (eventSignature c) previous) (map (eventSignature c) rewritten)"
  shows "\<exists>a' b' m. ls_runs st' ! n =
      (key, run0\<lparr>r_previousEventCount := a', r_eventRange := Some (a', b')\<rparr>) \<and>
    a' \<le> b' \<and> b' \<le> length rewritten \<and> length m = length previous \<and> sorted_wrt (<) m \<and>
    (\<forall>j. a \<le> j \<and> j < b \<longrightarrow> a' \<le> m ! j \<and> m ! j < b' \<and>
       eventSignature c (rewritten ! (m ! j)) = eventSignature c (previous ! j))"
  by (rule rebaseRunRanges_run [OF assms])

definition rebaseStore :: log_store where
  "rebaseStore = emptyLog\<lparr>ls_runs := [(''run:r'',
     sampleRun\<lparr>r_sessionId := ''s'', r_eventRange := Some (1, 2)\<rparr>)]\<rparr>"

theorem run_ranges_follow_rewrite_witness:
  "\<exists>st'. rebaseRunRanges turnCodec rebaseStore ''s'' [turnAt 0, turnAt 1] [turnAt 0, turnAt 7, turnAt 1]
      = Inr st' \<and>
    (\<exists>a' b' m. ls_runs st' ! 0 = (''run:r'', sampleRun\<lparr>r_sessionId := ''s'', r_previousEventCount := a',
         r_eventRange := Some (a', b')\<rparr>) \<and> b' \<le> 3 \<and> a' \<le> m ! 1 \<and> m ! 1 < b')"
proof -
  let ?old = "[turnAt 0, turnAt 1]" and ?new = "[turnAt 0, turnAt 7, turnAt 1]"
  let ?run = "sampleRun\<lparr>r_sessionId := ''s'', r_eventRange := Some (1, 2)\<rparr>"
  have sigs: "eventSignature turnCodec (turnAt m) = eventSignature turnCodec (turnAt n) \<longleftrightarrow> m = n" for m n
    unfolding eventSignature_def
    by (subst stringify_inject)
       (simp_all add: turnCodec_def turnAt_def jtext_def jnat_def numberText_decimal del: js_simps)
  have sub: "subseq (map (eventSignature turnCodec) ?old) (map (eventSignature turnCodec) ?new)"
    by (simp add: sigs)
  have safe: "safeRange 1 2" by (simp add: safeRange_def MAX_SAFE_INTEGER_def)
  obtain st' where run: "rebaseRunRanges turnCodec rebaseStore ''s'' ?old ?new = Inr st'"
    using safe by (simp add: rebaseRunRanges_def rebaseStore_def rebaseRun_def safeEventRange_def
        newBoundary_def sigs)
  have at0: "ls_runs rebaseStore ! 0 = (''run:r'', ?run)" "0 < length (ls_runs rebaseStore)"
    by (simp_all add: rebaseStore_def)
  have "\<exists>a' b' m. ls_runs st' ! 0 =
      (''run:r'', ?run\<lparr>r_previousEventCount := a', r_eventRange := Some (a', b')\<rparr>) \<and>
    a' \<le> b' \<and> b' \<le> length ?new \<and> length m = length ?old \<and> sorted_wrt (<) m \<and>
    (\<forall>j. 1 \<le> j \<and> j < 2 \<longrightarrow> a' \<le> m ! j \<and> m ! j < b' \<and>
       eventSignature turnCodec (?new ! (m ! j)) = eventSignature turnCodec (?old ! j))"
    by (rule run_ranges_follow_rewrite [OF run _ at0(2,1) _ _ safe sub]) simp_all
  then show ?thesis using run by fastforce
qed

end
