(* ===== verification/Run_Recovery.thy ===== *)
theory Run_Recovery
  imports Event_Log Turn_History
begin

text \<open>
  What becomes of a run that stopped without settling: whether it is still working
  (core/durable/run-liveness.ts), what recovery does with it and how a log left inside a Turn is
  closed (core/durable/run-recovery.ts). The message of a journal error is the error value; time and
  \<open>Date.parse\<close> are arguments.
\<close>

section \<open>Liveness\<close>

definition TURN_DEADLINE_MS_V1 :: int where "TURN_DEADLINE_MS_V1 = 15 * 60 * 1000"
definition STALE_RUNNING_RUN_GRACE_MS_V1 :: int where "STALE_RUNNING_RUN_GRACE_MS_V1 = 60000"

definition STALE_RUNNING_RUN_FAILURE_V1 :: jstr where
  "STALE_RUNNING_RUN_FAILURE_V1 =
     js ''This Turn stopped without finishing and was settled when nothing was left to finish it. Try sending it again.''"

datatype stale_reason = Past_Deadline | Turn_Closed

record run_liveness =
  lv_working :: bool
  lv_stale :: bool
  lv_reason :: "stale_reason option"

definition NOT_RUNNING :: run_liveness where
  "NOT_RUNNING = \<lparr>lv_working = False, lv_stale = False, lv_reason = None\<rparr>"

fun openedTurnSeqV1 :: "session_event list \<Rightarrow> nat option" where
  "openedTurnSeqV1 [] = None"
| "openedTurnSeqV1 (event # events) =
     (case openedTurnSeqV1 events of
        Some s \<Rightarrow> Some s
      | None \<Rightarrow> (case body event of Turn_Start t \<Rightarrow> Some (seq event) | _ \<Rightarrow> None))"

definition isTurnEnd :: "event_body \<Rightarrow> bool" where
  "isTurnEnd b = (case b of Turn_End t outcome reason \<Rightarrow> True | _ \<Rightarrow> False)"

definition runLivenessV1 ::
  "(string \<Rightarrow> int option) \<Rightarrow> stored_run option \<Rightarrow> session_event list \<Rightarrow> int \<Rightarrow> int \<Rightarrow> int \<Rightarrow> run_liveness" where
  "runLivenessV1 dateParse run0 sessionEvents now deadlineMs graceMs =
     (case run0 of
        None \<Rightarrow> NOT_RUNNING
      | Some r \<Rightarrow>
          if r_status r \<noteq> Run_Running then NOT_RUNNING
          else if (case dateParse (r_acceptedAt r) of
                     None \<Rightarrow> False | Some acceptedAt \<Rightarrow> now - acceptedAt > deadlineMs + graceMs)
          then \<lparr>lv_working = False, lv_stale = True, lv_reason = Some Past_Deadline\<rparr>
          else if (case openedTurnSeqV1 (runEvents r) of
                     None \<Rightarrow> False
                   | Some opened \<Rightarrow>
                       \<exists>event \<in> set sessionEvents. isTurnEnd (body event) \<and> opened \<le> seq event)
          then \<lparr>lv_working = False, lv_stale = True, lv_reason = Some Turn_Closed\<rparr>
          else \<lparr>lv_working = True, lv_stale = False, lv_reason = None\<rparr>)"

section \<open>The recovery plan\<close>

datatype journal_failure =
    Journal_Refused journal_error
  | Occurrence_Skipped string
  | No_Durable_Model_Request

datatype recovery_plan =
    Plan_Complete jstr
  | Plan_Fail jstr
  | Plan_Invalid_Journal journal_failure
  | Plan_Restart
  | Plan_Resume

datatype model_request_state = No_Request | Unresolved string | Resolved string

fun modelRequestStep :: "event_body \<Rightarrow> model_request_state \<Rightarrow> model_request_state" where
  "modelRequestStep (Model_Request t s requestId request) state = Unresolved requestId"
| "modelRequestStep (Assistant_Message t s requestId txt calls provider) state =
     (case state of
        No_Request \<Rightarrow> No_Request
      | Unresolved r \<Rightarrow> if requestId = r then Resolved r else state
      | Resolved r \<Rightarrow> state)"
| "modelRequestStep (Model_Response_Failed t s requestId failure) state =
     (case state of
        No_Request \<Rightarrow> No_Request
      | Unresolved r \<Rightarrow> if requestId = r then Resolved r else state
      | Resolved r \<Rightarrow> state)"
| "modelRequestStep _ state = state"

definition latestModelRequestJournalState :: "session_event list \<Rightarrow> model_request_state" where
  "latestModelRequestJournalState events =
     foldl (\<lambda>state event. modelRequestStep (body event) state) No_Request events"

definition isAssistant :: "event_body \<Rightarrow> bool" where
  "isAssistant b = (case b of Assistant_Message t s r txt calls p \<Rightarrow> True | _ \<Rightarrow> False)"

datatype recovery_error = Run_Refused codec_error | Occurrences_Refused journal_error

definition isExternal :: "event_body \<Rightarrow> bool" where
  "isExternal b = (case b of Model_Request t s r q \<Rightarrow> True | Tool_Call i \<Rightarrow> True | _ \<Rightarrow> False)"

text \<open>The occurrences a resumed step dispatches again: those of the last assistant message.\<close>

definition resumableOccurrences :: "event_body option \<Rightarrow> recovery_error + string list" where
  "resumableOccurrences lastAssistant =
     (case lastAssistant of
        Some (Assistant_Message turn step requestId txt calls provider) \<Rightarrow>
          (case expandToolCallOccurrencesV1 turn step calls of
             Inl e \<Rightarrow> Inl (Occurrences_Refused e)
           | Inr occurrences \<Rightarrow> Inr (map occ_id occurrences))
      | _ \<Rightarrow> Inr [])"

definition planByEffects ::
  "session_event list \<Rightarrow> (string \<times> journal_entry) list \<Rightarrow> recovery_error + recovery_plan" where
  "planByEffects events journal =
     Inr (if \<not> (\<exists>event \<in> set events. isExternal (body event))
          then (if length journal > 0 then Plan_Invalid_Journal No_Durable_Model_Request
                else Plan_Restart)
          else Plan_Resume)"

definition planBotRunRecovery :: "run_hooks \<Rightarrow> stored_run \<Rightarrow> recovery_error + recovery_plan" where
  "planBotRunRecovery h run =
     (case requireStoredRunRecordV1 h run of
        Inl e \<Rightarrow> Inl (Run_Refused e)
      | Inr _ \<Rightarrow>
     (let events = runEvents run in
      case validateToolOccurrenceJournal events of
        Inl e \<Rightarrow> Inr (Plan_Invalid_Journal (Journal_Refused e))
      | Inr journal \<Rightarrow>
          let terminalTurn = lastBody isTurnEnd events;
              lastAssistant = lastBody isAssistant events
          in case terminalTurn of
               Some (Turn_End turn outcome reason) \<Rightarrow>
                 (case validateSettledToolOccurrenceJournal events of
                    Inl e \<Rightarrow> Inr (Plan_Invalid_Journal (Journal_Refused e))
                  | Inr _ \<Rightarrow>
                      if outcome \<noteq> Completed
                      then Inr (Plan_Fail (turnFailureMessage outcome reason))
                      else Inr (Plan_Complete
                        (case lastAssistant of
                           Some (Assistant_Message t s r txt calls p) \<Rightarrow> txt | _ \<Rightarrow> [])))
             | _ \<Rightarrow>
                 (case latestModelRequestJournalState events of
                    Resolved requestId \<Rightarrow>
                      rbind (resumableOccurrences lastAssistant) (\<lambda>resumable.
                        case find (\<lambda>(key, entry). je_intent entry = None \<and> je_result entry = None
                               \<and> occ_id (je_occurrence entry) \<notin> set resumable) journal of
                          Some (key, entry) \<Rightarrow>
                            Inr (Plan_Invalid_Journal
                              (Occurrence_Skipped (occ_id (je_occurrence entry))))
                        | None \<Rightarrow>
                            if \<not> (\<exists>(key, entry) \<in> set journal.
                                   je_intent entry \<noteq> None \<and> je_result entry = None)
                            then Inr Plan_Resume
                            else planByEffects events journal)
                  | _ \<Rightarrow> planByEffects events journal)))"

section \<open>Open Turns\<close>

fun openTurnStep :: "event_body \<Rightarrow> nat option \<Rightarrow> nat option" where
  "openTurnStep (Turn_Start turn) openTurn = Some turn"
| "openTurnStep (Turn_End turn outcome reason) openTurn =
     (if openTurn = Some turn then None else openTurn)"
| "openTurnStep _ openTurn = openTurn"

definition openTurnAfter :: "session_event list \<Rightarrow> nat option \<Rightarrow> nat option" where
  "openTurnAfter events openTurn = foldl (\<lambda>t event. openTurnStep (body event) t) openTurn events"

definition hasOrphanedOpenTurnV1 :: "session_event list \<Rightarrow> bool" where
  "hasOrphanedOpenTurnV1 events \<longleftrightarrow> openTurnAfter events None \<noteq> None"

fun unclosedFrom :: "session_event list \<Rightarrow> nat option \<Rightarrow> bool" where
  "unclosedFrom [] openTurn = (openTurn \<noteq> None)"
| "unclosedFrom (event # events) openTurn =
     (if isTurnStart (body event) \<and> openTurn \<noteq> None then True
      else unclosedFrom events (openTurnStep (body event) openTurn))"

definition hasUnclosedTurnV1 :: "session_event list \<Rightarrow> bool" where
  "hasUnclosedTurnV1 events = unclosedFrom events None"

text \<open>The \<open>try\<close> of the repairs: a Session that cannot be built or reconciled is no repair.\<close>

definition reconciled :: "string \<Rightarrow> string \<Rightarrow> session_event list \<Rightarrow> (session \<times> session_event list) option" where
  "reconciled now sessionId events =
     (case rbind (sessionOf now sessionId events) (reconcileInterrupted now) of
        Inl e \<Rightarrow> None | Inr result \<Rightarrow> Some result)"

definition repairOrphanedOpenTurnV1 :: "string \<Rightarrow> string \<Rightarrow> session_event list \<Rightarrow> session_event list" where
  "repairOrphanedOpenTurnV1 now sessionId latest =
     (if \<not> hasOrphanedOpenTurnV1 latest then []
      else case reconciled now sessionId latest of None \<Rightarrow> [] | Some (s, repairs) \<Rightarrow> repairs)"

text \<open>\<open>closeOpenTurn\<close> answers the repaired prefix, or \<open>None\<close> when the code's returns \<open>false\<close>.\<close>

definition closeOpenTurn :: "string \<Rightarrow> string \<Rightarrow> session_event list \<Rightarrow> session_event list option" where
  "closeOpenTurn now sessionId repaired =
     (if repaired = [] \<or> \<not> hasOrphanedOpenTurnV1 repaired then Some repaired
      else case reconciled now sessionId repaired of
          None \<Rightarrow> None
        | Some (s, repairs) \<Rightarrow> if hasOrphanedOpenTurnV1 (ses_events s) then None else Some (ses_events s))"

fun repairLoop :: "string \<Rightarrow> string \<Rightarrow> session_event list \<Rightarrow> session_event list \<Rightarrow> session_event list option" where
  "repairLoop now sessionId [] repaired = closeOpenTurn now sessionId repaired"
| "repairLoop now sessionId (event # events) repaired =
     (case (if isTurnStart (body event) then closeOpenTurn now sessionId repaired else Some repaired) of
        None \<Rightarrow> None
      | Some prefix0 \<Rightarrow>
          repairLoop now sessionId events (prefix0 @ [event\<lparr>seq := length prefix0\<rparr>]))"

definition repairedSessionLogV1 :: "string \<Rightarrow> string \<Rightarrow> session_event list \<Rightarrow> session_event list option" where
  "repairedSessionLogV1 now sessionId latest =
     (if \<not> hasUnclosedTurnV1 latest then None else repairLoop now sessionId latest [])"

text \<open>\<open>errorEvents\<close> are the events a \<open>BotTurnExecutionError\<close> carries; another error has none.\<close>

definition eventsForFailedRun :: "stored_run option \<Rightarrow> session_event list option \<Rightarrow> session_event list" where
  "eventsForFailedRun durableRun errorEvents =
     (case durableRun of
        Some r \<Rightarrow> runEvents r
      | None \<Rightarrow> (case errorEvents of None \<Rightarrow> [] | Some events \<Rightarrow> events))"


section \<open>Closed logs\<close>

fun noRestart :: "session_event list \<Rightarrow> nat option \<Rightarrow> bool" where
  "noRestart [] openTurn = True"
| "noRestart (event # events) openTurn =
     ((isTurnStart (body event) \<longrightarrow> openTurn = None) \<and>
      noRestart events (openTurnStep (body event) openTurn))"

lemma openTurnAfter_simps [simp]:
  "openTurnAfter [] t = t"
  "openTurnAfter (event # events) t = openTurnAfter events (openTurnStep (body event) t)"
  "openTurnAfter (xs @ ys) t = openTurnAfter ys (openTurnAfter xs t)"
  by (simp_all add: openTurnAfter_def)

lemma noRestart_append [simp]:
  "noRestart (xs @ ys) t \<longleftrightarrow> noRestart xs t \<and> noRestart ys (openTurnAfter xs t)"
  by (induction xs arbitrary: t) auto

lemma unclosedFrom_iff: "unclosedFrom events t \<longleftrightarrow> \<not> (noRestart events t \<and> openTurnAfter events t = None)"
  by (induction events arbitrary: t) auto

lemma noRestart_no_start:
  "list_all (\<lambda>event. \<not> isTurnStart (body event)) events \<Longrightarrow> noRestart events t"
  by (induction events arbitrary: t) auto

lemma repair_bodies:
  assumes "interruptionRepairs True events = Inr repairs"
  shows "list_all (\<lambda>b. \<not> isTurnStart b) repairs"
  using assms
  by (auto simp: interruptionRepairs_def isTurnStart_def list_all_iff Let_def
      split: sum.splits option.splits if_splits)

text \<open>A repair that succeeds only appends, keeps the numbering and adds no Turn start.\<close>

lemma reconciled_Some:
  assumes "reconciled now sessionId events = Some (s, repairs)" and "contiguousFrom 0 events"
    and "events \<noteq> []"
  shows "ses_events s = events @ repairs \<and> contiguousFrom 0 (ses_events s) \<and>
    list_all (\<lambda>event. \<not> isTurnStart (body event)) repairs"
proof -
  obtain s0 where s0: "sessionOf now sessionId events = Inr s0"
    and rec: "reconcileInterrupted now s0 = Inr (s, repairs)"
    using assms(1) by (auto simp: reconciled_def rbind_Inr_iff split: sum.splits)
  have ev: "ses_events s0 = events" "ses_nextSeq s0 = length events"
    using sessionOf_Inr_events [OF s0 assms(3)] assms(2,3) by (cases events; simp)+
  obtain bodies where b: "interruptionRepairs True events = Inr bodies"
    and a: "if bodies \<noteq> [] then appendBatch now bodies s0 = Inr (s, repairs) else s = s0 \<and> repairs = []"
    using rec ev by (auto simp: reconcileInterrupted_def rbind_Inr_iff split: if_splits)
  show ?thesis
  proof (cases "bodies = []")
    case True
    with a ev assms(2) show ?thesis by simp
  next
    case False
    with a have "appendBatch now bodies s0 = Inr (s, repairs)" by simp
    from appendBatch_Inr [OF this] ev have r: "ses_events s = events @ repairs"
      "repairs = stampFrom now (length events) bodies" by simp_all
    then have "list_all (\<lambda>b. \<not> isTurnStart b) (map body repairs)" using repair_bodies [OF b] by simp
    then have "list_all (\<lambda>event. \<not> isTurnStart (body event)) repairs" by (simp add: list_all_iff)
    with r assms(2) show ?thesis by (simp add: contiguousFrom_append)
  qed
qed

definition repair_prefix :: "session_event list \<Rightarrow> session_event list \<Rightarrow> bool" where
  "repair_prefix seen repaired \<longleftrightarrow>
     contiguousFrom 0 repaired \<and> noRestart repaired None \<and> subseq (map body seen) (map body repaired)"

lemma closeOpenTurn_closes:
  assumes "closeOpenTurn now sessionId repaired = Some closed" and "repair_prefix seen repaired"
  shows "repair_prefix seen closed \<and> openTurnAfter closed None = None"
proof (cases "repaired = [] \<or> \<not> hasOrphanedOpenTurnV1 repaired")
  case True
  with assms show ?thesis by (auto simp: closeOpenTurn_def hasOrphanedOpenTurnV1_def)
next
  case False
  then obtain s repairs where r: "reconciled now sessionId repaired = Some (s, repairs)"
    and closed: "closed = ses_events s" "\<not> hasOrphanedOpenTurnV1 (ses_events s)"
    using assms(1) by (auto simp: closeOpenTurn_def split: option.splits if_splits)
  have c: "contiguousFrom 0 repaired" "repaired \<noteq> []" using assms(2) False by (auto simp: repair_prefix_def)
  note e = reconciled_Some [OF r c]
  have "subseq (map body seen) (map body repaired @ map body repairs)"
    using assms(2) by (auto simp: repair_prefix_def)
  moreover have "contiguousFrom 0 (repaired @ repairs)" using e by metis
  ultimately show ?thesis using e closed assms(2)
    by (simp add: repair_prefix_def hasOrphanedOpenTurnV1_def noRestart_no_start contiguousFrom_append)
qed

lemma repairLoop_closes:
  "repairLoop now sessionId events repaired = Some result \<Longrightarrow> repair_prefix seen repaired \<Longrightarrow>
   repair_prefix (seen @ events) result \<and> openTurnAfter result None = None"
proof (induction events arbitrary: seen repaired)
  case Nil
  then show ?case using closeOpenTurn_closes by simp
next
  case (Cons event events)
  then obtain prefix0 where p: "(if isTurnStart (body event) then closeOpenTurn now sessionId repaired
      else Some repaired) = Some prefix0"
    and rest: "repairLoop now sessionId events (prefix0 @ [event\<lparr>seq := length prefix0\<rparr>]) = Some result"
    by (auto split: option.splits)
  have prefix0: "repair_prefix seen prefix0 \<and> (isTurnStart (body event) \<longrightarrow> openTurnAfter prefix0 None = None)"
    using p Cons.prems(2) closeOpenTurn_closes by (auto split: if_splits)
  then have "repair_prefix (seen @ [event]) (prefix0 @ [event\<lparr>seq := length prefix0\<rparr>])"
    by (auto simp: repair_prefix_def contiguousFrom_append intro: list_emb_append_mono)
  from Cons.IH [OF rest this] show ?case by simp
qed

section \<open>Plans\<close>

lemma lastBody_None: "lastBody P events = None \<longleftrightarrow> (\<forall>event \<in> set events. \<not> P (body event))"
  by (induction events) (auto split: option.splits)

lemma lastBody_Some: "lastBody P events = Some b \<Longrightarrow> P b \<and> (\<exists>event \<in> set events. body event = b)"
  by (induction events) (auto split: option.splits if_splits)

lemma isTurnEndE: "isTurnEnd b \<Longrightarrow> (\<And>t outcome reason. b = Turn_End t outcome reason \<Longrightarrow> P) \<Longrightarrow> P"
  by (cases b) (auto simp: isTurnEnd_def)

lemma journal_step_expands:
  "journalStep cap (Assistant_Message t s r txt calls p) st = Inr st' \<Longrightarrow>
   \<exists>occurrences. expandToolCallOccurrencesUpTo cap t s calls = Inr occurrences"
  by (cases "calls = []")
     (auto simp: expandToolCallOccurrencesUpTo_def toolCallOccurrences_def rbind_Inr_iff
       split: option.splits if_splits)

text \<open>A message of an accepted log expands, so recovery never fails on it.\<close>

lemma journal_run_expands:
  "journalRun cap events st = Inr st' \<Longrightarrow> event \<in> set events \<Longrightarrow>
   body event = Assistant_Message t s r txt calls p \<Longrightarrow>
   \<exists>occurrences. expandToolCallOccurrencesUpTo cap t s calls = Inr occurrences"
  by (induction events arbitrary: st)
     (auto simp: rbind_Inr_iff simp del: journalStep.simps dest: journal_step_expands)

lemma resumable_total:
  assumes "validateToolOccurrenceJournal events = Inr journal"
  shows "\<exists>ids. resumableOccurrences (lastBody isAssistant events) = Inr ids"
proof (cases "lastBody isAssistant events")
  case None
  then show ?thesis by (simp add: resumableOccurrences_def)
next
  case (Some b)
  then obtain event where event: "event \<in> set events" "body event = b" and a: "isAssistant b"
    using lastBody_Some by blast
  from a obtain t s r w calls p where b: "b = Assistant_Message t s r w calls p"
    by (cases b) (auto simp: isAssistant_def)
  obtain st where "journalRun BATCH_MAX_CALLS_V1 events journal_start = Inr st"
    using assms validate_iff_run by blast
  from journal_run_expands [OF this event(1)] event(2) b
  show ?thesis by (auto simp: Some resumableOccurrences_def expandToolCallOccurrencesV1_def)
qed

text \<open>What a plan promises of the events it was made for.\<close>

fun plan_sound :: "session_event list \<Rightarrow> recovery_plan \<Rightarrow> bool" where
  "plan_sound events (Plan_Complete txt) =
     ((\<exists>turn reason. lastBody isTurnEnd events = Some (Turn_End turn Completed reason)) \<and>
      (\<exists>journal. validateSettledToolOccurrenceJournal events = Inr journal))"
| "plan_sound events (Plan_Fail failure) =
     (\<exists>turn outcome reason. lastBody isTurnEnd events = Some (Turn_End turn outcome reason) \<and>
        outcome \<noteq> Completed \<and> failure = turnFailureMessage outcome reason)"
| "plan_sound events (Plan_Invalid_Journal failure) = True"
| "plan_sound events Plan_Restart =
     (\<forall>event \<in> set events. \<not> isExternal (body event) \<and> \<not> isTurnEnd (body event))"
| "plan_sound events Plan_Resume =
     ((\<forall>event \<in> set events. \<not> isTurnEnd (body event)) \<and>
      (\<exists>journal. validateToolOccurrenceJournal events = Inr journal))"

lemma planByEffects_sound:
  "validateToolOccurrenceJournal events = Inr journal \<Longrightarrow> lastBody isTurnEnd events = None \<Longrightarrow>
   \<exists>plan. planByEffects events journal = Inr plan \<and> plan_sound events plan"
  by (auto simp: planByEffects_def lastBody_None)

lemma plan_exists:
  assumes "requireStoredRunRecordV1 h run = Inr run'"
  shows "\<exists>plan. planBotRunRecovery h run = Inr plan \<and> plan_sound (runEvents run) plan"
proof (cases "validateToolOccurrenceJournal (runEvents run)")
  case (Inl e)
  with assms show ?thesis by (simp add: planBotRunRecovery_def Let_def)
next
  case (Inr journal)
  show ?thesis
  proof (cases "lastBody isTurnEnd (runEvents run)")
    case (Some b)
    then obtain t outcome reason where b: "b = Turn_End t outcome reason"
      using lastBody_Some isTurnEndE by blast
    show ?thesis
      by (cases "validateSettledToolOccurrenceJournal (runEvents run)")
         (use assms Inr Some b in \<open>simp_all add: planBotRunRecovery_def Let_def\<close>)
  next
    case None
    note effects = planByEffects_sound [OF Inr None]
    obtain ids where ids: "resumableOccurrences (lastBody isAssistant (runEvents run)) = Inr ids"
      using resumable_total [OF Inr] by blast
    have ends: "\<forall>event \<in> set (runEvents run). \<not> isTurnEnd (body event)"
      using None by (simp add: lastBody_None)
    show ?thesis
      using assms Inr None ids effects ends
      by (auto simp: planBotRunRecovery_def Let_def split: model_request_state.splits option.splits)
  qed
qed

section \<open>A log the repair leaves unreadable\<close>

text \<open>A Turn abandoned after the first of two parallel calls, and the next Turn behind it.\<close>

definition wedgedLog :: "session_event list" where
  "wedgedLog = parallelLog @ [eventAt 4 (Turn_Start 2), eventAt 5 (Turn_End 2 Model_Error None)]"

section \<open>Properties\<close>

text \<open>No run works forever: once its acceptance time can be read, a running record is judged stale from
  the Turn deadline plus the grace on, whatever its log holds; until then exactly a Turn of its own
  that the log already closes makes it stale; and no record is both working and stale.\<close>

theorem no_run_works_forever:
  assumes "dateParse (r_acceptedAt r) = Some acceptedAt" and "r_status r = Run_Running"
  shows "let v = runLivenessV1 dateParse (Some r) log now deadline grace in
    lv_working v = (\<not> lv_stale v) \<and>
    (lv_stale v \<longleftrightarrow> acceptedAt + deadline + grace < now \<or>
       (\<exists>opened. openedTurnSeqV1 (runEvents r) = Some opened \<and>
          (\<exists>event \<in> set log. isTurnEnd (body event) \<and> opened \<le> seq event)))"
  using assms by (auto simp: runLivenessV1_def split: option.splits)

theorem no_run_works_forever_witness:
  "lv_stale (runLivenessV1 (\<lambda>t. Some 0) (Some sampleRun) [] 960001 TURN_DEADLINE_MS_V1
     STALE_RUNNING_RUN_GRACE_MS_V1)"
  using no_run_works_forever [of "\<lambda>t. Some 0" sampleRun 0 "[]" 960001 TURN_DEADLINE_MS_V1
      STALE_RUNNING_RUN_GRACE_MS_V1]
  by (simp add: sampleRun_def TURN_DEADLINE_MS_V1_def STALE_RUNNING_RUN_GRACE_MS_V1_def Let_def)

text \<open>C36: A rewritten Session log has no Turn left open anywhere, is numbered from zero without a gap, and
  still contains every event of the old log in order; rewriting it again changes nothing.\<close>

theorem repaired_log_is_closed:
  assumes "repairedSessionLogV1 now sessionId latest = Some repaired"
  shows "\<not> hasUnclosedTurnV1 repaired \<and> contiguousFrom 0 repaired \<and>
    subseq (map body latest) (map body repaired) \<and>
    repairedSessionLogV1 now' sessionId repaired = None"
proof -
  have loop: "repairLoop now sessionId latest [] = Some repaired"
    using assms by (simp add: repairedSessionLogV1_def split: if_splits)
  have "repair_prefix [] []" by (simp add: repair_prefix_def)
  from repairLoop_closes [OF loop this] show ?thesis
    by (simp add: repair_prefix_def hasUnclosedTurnV1_def unclosedFrom_iff repairedSessionLogV1_def)
qed

text \<open>C16: Recovery has a plan for every stored run: a run is completed only on a completed last Turn whose
  calls are all settled, fails only with the reason its last Turn ended for or because its journal is
  refused, is restarted only when the log shows no external effect and no Turn end, and is resumed
  only inside an unfinished Turn the journal accepts.\<close>

theorem recovery_plan_sound:
  assumes "requireStoredRunRecordV1 h run = Inr run'"
  shows "\<exists>plan. planBotRunRecovery h run = Inr plan \<and> plan_sound (runEvents run) plan"
  using assms by (rule plan_exists)

theorem recovery_plan_sound_witness:
  "planBotRunRecovery sampleHooks sampleRun = Inr Plan_Restart \<and>
   (\<exists>plan. planBotRunRecovery sampleHooks sampleRun = Inr plan \<and> plan_sound (runEvents sampleRun) plan)"
proof
  have "runEvents sampleRun = []" by (simp add: runEvents_def sampleRun_def)
  then show "planBotRunRecovery sampleHooks sampleRun = Inr Plan_Restart"
    by (simp add: planBotRunRecovery_def sampleRun_valid validateToolOccurrenceJournal_def
        validateToolOccurrenceJournalUpTo_def journal_start_def latestModelRequestJournalState_def
        planByEffects_def Let_def)
qed (rule recovery_plan_sound [OF sampleRun_valid])

text \<open>A Turn abandoned inside its first step, and a closed Turn behind it.\<close>

definition abandonedLog :: "session_event list" where
  "abandonedLog = [eventAt 0 (Turn_Start 1), eventAt 1 (Step_Start 1 1),
     eventAt 2 (Turn_Start 2), eventAt 3 (Turn_End 2 Model_Error None)]"

lemmas recovery_defs = repairedSessionLogV1_def hasUnclosedTurnV1_def closeOpenTurn_def
  hasOrphanedOpenTurnV1_def reconciled_def sessionOf_def sessionSeedFromJournalV1_def newSession_def
  reconcileInterrupted_def interruptionRepairs_def appendBatch_def isTurnStart_def scanEvents_def
  scan_start_def

lemma abandonedLog_repaired:
  "\<exists>repaired. repairedSessionLogV1 ''t'' ''s'' abandonedLog = Some repaired \<and> length repaired = 6"
  by (simp add: abandonedLog_def recovery_defs sample_defs List.map_filter_simps Let_def)

theorem repaired_log_is_closed_witness:
  "\<exists>repaired. repairedSessionLogV1 ''t'' ''s'' abandonedLog = Some repaired \<and>
     \<not> hasUnclosedTurnV1 repaired \<and> hasUnclosedTurnV1 abandonedLog"
proof -
  obtain repaired where r: "repairedSessionLogV1 ''t'' ''s'' abandonedLog = Some repaired"
    using abandonedLog_repaired by blast
  moreover from this have "hasUnclosedTurnV1 abandonedLog"
    by (simp add: repairedSessionLogV1_def split: if_splits)
  ultimately show ?thesis using repaired_log_is_closed [OF r] by blast
qed

text \<open>The repair of a Turn abandoned between two parallel calls leaves a log the journal refuses: the
  rewritten log of \<open>wedgedLog\<close> is closed, and every later validation of it fails because the call
  that had not started is never settled.\<close>

theorem repaired_parallel_log_refused:
  "\<exists>repaired e. repairedSessionLogV1 ''t'' ''s'' wedgedLog = Some repaired \<and>
     \<not> hasUnclosedTurnV1 repaired \<and> validateToolOccurrenceJournal repaired = Inl e"
  by (simp add: wedgedLog_def recovery_defs sample_defs List.map_filter_simps Let_def entryRepair_def
      interruptedResult_def entryUnsettled_def)

end
