(* ===== verification/Publication.thy ===== *)
theory Publication
  imports Log_Store
begin

text \<open>
  Committed publication (core/durable/publication.ts): the head, the conversation rows, the replay
  log, the pending broadcasts and the visible index, the commit that allocates cursors, the trimming
  of the replay window and the drain that delivers a batch. The entries one transaction collects and
  puts together are written one by one here; an error rolls the transaction back, so it carries no
  store. \<open>Garbage\<close> is a stored value that is not an object of the expected shape and version.
\<close>

section \<open>The stored shapes\<close>

datatype conversation_kind = Message_Kind | Run_Status_Kind | Announcement_Kind | Card_Revision_Kind
  | Computer_Kind | Look_Kind

fun kindName :: "conversation_kind \<Rightarrow> string" where
  "kindName Message_Kind = ''message''"
| "kindName Run_Status_Kind = ''run-status''"
| "kindName Announcement_Kind = ''announcement''"
| "kindName Card_Revision_Kind = ''card-revision''"
| "kindName Computer_Kind = ''computer''"
| "kindName Look_Kind = ''look''"

datatype 'a stored = Garbage json | Stored 'a

record publication_head =
  ph_epoch :: nat
  ph_first :: nat
  ph_last :: nat
  ph_through :: nat

record conversation_row =
  cr_entity :: string
  cr_kind :: conversation_kind
  cr_revision :: nat
  cr_payload :: json

record conversation_update =
  cu_epoch :: nat
  cu_cursor :: nat
  cu_kind :: conversation_kind
  cu_entity :: string
  cu_revision :: nat
  cu_payload :: json

record pending_publication =
  pp_epoch :: nat
  pp_cursor :: nat
  pp_entity :: string
  pp_kind :: conversation_kind
  pp_revision :: nat

record visible_index =
  vi_runs :: "string list"
  vi_announcements :: "string list"

record contribution =
  co_kind :: conversation_kind
  co_entity :: string
  co_payload :: json
  co_revision :: "int option"

record publication =
  pb_head :: "publication_head stored option"
  pb_rows :: "conversation_row stored kv"
  pb_updates :: "conversation_update stored kv"
  pb_pending :: "pending_publication stored kv"
  pb_index :: "visible_index stored option"

datatype publication_error =
    Head_Publication_Corrupt
  | Row_Corrupt
  | Update_Corrupt
  | Pending_Corrupt
  | Visible_Index_Corrupt
  | Entity_Id_Invalid
  | Not_A_Safe_Integer
  | Cursor_Exhausted
  | Replay_Gap nat

section \<open>Decoding\<close>

definition requireSafeInteger :: "nat \<Rightarrow> publication_error + unit" where
  "requireSafeInteger n = rguard (n \<le> MAX_SAFE_INTEGER) Not_A_Safe_Integer"

definition requireEntityId :: "string \<Rightarrow> publication_error + unit" where
  "requireEntityId entity = rguard (1 \<le> length entity \<and> length entity \<le> 320) Entity_Id_Invalid"

definition emptyPublicationHeadV1 :: publication_head where
  "emptyPublicationHeadV1 = \<lparr>ph_epoch = 1, ph_first = 1, ph_last = 0, ph_through = 0\<rparr>"

definition decodePublicationHeadV1 ::
  "publication_head stored option \<Rightarrow> publication_error + publication_head" where
  "decodePublicationHeadV1 input =
     (case input of
        None \<Rightarrow> Inr emptyPublicationHeadV1
      | Some (Garbage v) \<Rightarrow> Inl Head_Publication_Corrupt
      | Some (Stored h) \<Rightarrow>
          rbind (requireSafeInteger (ph_epoch h)) (\<lambda>_.
          rbind (requireSafeInteger (ph_first h)) (\<lambda>_.
          rbind (requireSafeInteger (ph_last h)) (\<lambda>_.
          rbind (requireSafeInteger (ph_through h)) (\<lambda>_.
          if ph_epoch h < 1 \<or> ph_first h < 1 \<or> ph_last h < ph_first h - 1
             \<or> ph_through h > ph_last h
          then Inl Head_Publication_Corrupt
          else Inr h)))))"

definition decodeConversationRowV1 ::
  "conversation_row stored \<Rightarrow> publication_error + conversation_row" where
  "decodeConversationRowV1 input =
     (case input of
        Garbage v \<Rightarrow> Inl Row_Corrupt
      | Stored row \<Rightarrow>
          rbind (requireEntityId (cr_entity row)) (\<lambda>_.
          rbind (requireSafeInteger (cr_revision row)) (\<lambda>_. Inr row)))"

definition decodeConversationUpdateV1 ::
  "conversation_update stored \<Rightarrow> publication_error + conversation_update" where
  "decodeConversationUpdateV1 input =
     (case input of
        Garbage v \<Rightarrow> Inl Update_Corrupt
      | Stored u \<Rightarrow>
          rbind (requireSafeInteger (cu_epoch u)) (\<lambda>_.
          rbind (requireSafeInteger (cu_cursor u)) (\<lambda>_.
          rbind (requireEntityId (cu_entity u)) (\<lambda>_.
          rbind (requireSafeInteger (cu_revision u)) (\<lambda>_. Inr u)))))"

definition decodePendingPublicationV1 ::
  "pending_publication stored \<Rightarrow> publication_error + pending_publication" where
  "decodePendingPublicationV1 input =
     (case input of
        Garbage v \<Rightarrow> Inl Pending_Corrupt
      | Stored p \<Rightarrow>
          rbind (requireSafeInteger (pp_epoch p)) (\<lambda>_.
          rbind (requireSafeInteger (pp_cursor p)) (\<lambda>_.
          rbind (requireEntityId (pp_entity p)) (\<lambda>_.
          rbind (requireSafeInteger (pp_revision p)) (\<lambda>_. Inr p)))))"

definition decodeVisibleIndex ::
  "visible_index stored option \<Rightarrow> publication_error + visible_index" where
  "decodeVisibleIndex input =
     (case input of
        None \<Rightarrow> Inr \<lparr>vi_runs = [], vi_announcements = []\<rparr>
      | Some (Garbage v) \<Rightarrow> Inl Visible_Index_Corrupt
      | Some (Stored i) \<Rightarrow> Inr i)"

definition runEntityIdV1 :: "string \<Rightarrow> string" where
  "runEntityIdV1 runId = ''run:'' @ runId"

definition messageEntityIdV1 :: "string \<Rightarrow> string \<Rightarrow> string \<Rightarrow> string" where
  "messageEntityIdV1 sessionId runId occurrenceId =
     ''msg:'' @ sessionId @ '':'' @ runId @ '':'' @ occurrenceId"

definition announcementEntityIdV1 :: "string \<Rightarrow> string" where
  "announcementEntityIdV1 i = ''ann:'' @ i"

definition cardEntityIdV1 :: "string \<Rightarrow> string" where
  "cardEntityIdV1 surfaceId = ''card:'' @ surfaceId"

definition COMPUTER_ENTITY_ID_V1 :: string where "COMPUTER_ENTITY_ID_V1 = ''computer''"
definition LOOK_ENTITY_ID_V1 :: string where "LOOK_ENTITY_ID_V1 = ''look''"

definition isPublicationStorageKeyV1 :: "string \<Rightarrow> bool" where
  "isPublicationStorageKeyV1 key \<longleftrightarrow>
     key = PUBLICATION_HEAD_KEY \<or> key = CONVERSATION_VISIBLE_INDEX_KEY \<or>
     prefix PUBLICATION_PENDING_PREFIX key \<or> prefix CONVERSATION_ROW_PREFIX key \<or>
     prefix CONVERSATION_UPDATE_PREFIX key"

section \<open>The replay window\<close>

definition updateJson :: "conversation_update \<Rightarrow> json" where
  "updateJson u =
     JObj [(''schemaVersion'', jnat 1), (''epoch'', jnat (cu_epoch u)),
       (''cursor'', jnat (cu_cursor u)), (''kind'', jtext (kindName (cu_kind u))),
       (''entityId'', jtext (cu_entity u)), (''revision'', jnat (cu_revision u)),
       (''payload'', cu_payload u)]"

fun storedJson :: "conversation_update stored \<Rightarrow> json" where
  "storedJson (Garbage v) = v"
| "storedJson (Stored u) = updateJson u"

definition updateAt :: "publication \<Rightarrow> nat \<Rightarrow> conversation_update stored option" where
  "updateAt st cursor = kv_get (pb_updates st) (conversationUpdateKeyV1 cursor)"

fun replayOver :: "publication \<Rightarrow> nat list \<Rightarrow> nat \<Rightarrow> bool" where
  "replayOver st [] bytes = False"
| "replayOver st (cursor # cursors) bytes =
     (case updateAt st cursor of
        None \<Rightarrow> replayOver st cursors bytes
      | Some stored \<Rightarrow>
          let bytes' = bytes + utf8Bytes (storedJson stored)
          in if bytes' > PUBLICATION_REPLAY_MAX_BYTES_V1 then True
             else replayOver st cursors bytes')"

definition deleteUpdate :: "nat \<Rightarrow> publication \<Rightarrow> publication" where
  "deleteUpdate cursor st =
     st\<lparr>pb_updates := kv_delete (conversationUpdateKeyV1 cursor) (pb_updates st)\<rparr>"

text \<open>\<open>through\<close> is the last cursor that may be dropped, \<open>lastCursor\<close> the head's last.\<close>

function trimFrom :: "nat \<Rightarrow> nat \<Rightarrow> nat \<Rightarrow> publication \<Rightarrow> nat \<times> publication" where
  "trimFrom through lastCursor first st =
     (if first > through then (first, st)
      else if lastCursor + 1 - first \<le> PUBLICATION_REPLAY_MAX_EVENTS_V1
              \<and> \<not> replayOver st [first..<lastCursor + 1] 0
      then (first, st)
      else trimFrom through lastCursor (first + 1) (deleteUpdate first st))"
  by pat_completeness auto
termination
  by (relation "measure (\<lambda>(through, lastCursor, first, st). Suc through - first)") auto

declare trimFrom.simps [simp del]

definition trimReplay :: "publication_head \<Rightarrow> publication \<Rightarrow> publication_head \<times> publication" where
  "trimReplay head st =
     (case trimFrom (min (ph_through head) (ph_last head)) (ph_last head) (ph_first head) st of
        (first, st') \<Rightarrow> (head\<lparr>ph_first := first\<rparr>, st'))"

section \<open>Committing\<close>

definition pushBounded :: "string list \<Rightarrow> string \<Rightarrow> nat \<Rightarrow> string list" where
  "pushBounded ids entity limit =
     (let next0 = filter (\<lambda>i. i \<noteq> entity) ids @ [entity]
      in if length next0 > limit then drop (length next0 - limit) next0 else next0)"

definition indexed :: "contribution \<Rightarrow> visible_index \<Rightarrow> visible_index" where
  "indexed c index =
     (case co_kind c of
        Run_Status_Kind \<Rightarrow>
          index\<lparr>vi_runs := pushBounded (vi_runs index) (co_entity c)
                            CONVERSATION_VISIBLE_RUN_LIMIT_V1\<rparr>
      | Announcement_Kind \<Rightarrow>
          index\<lparr>vi_announcements := pushBounded (vi_announcements index) (co_entity c)
                                     CONVERSATION_VISIBLE_ANNOUNCEMENT_LIMIT_V1\<rparr>
      | _ \<Rightarrow> index)"

text \<open>The revision a contribution writes, \<open>None\<close> when it is skipped.\<close>

definition nextRevision :: "contribution \<Rightarrow> conversation_row option \<Rightarrow> nat option" where
  "nextRevision c current =
     (let next0 = (case co_revision c of
             Some r \<Rightarrow> r
           | None \<Rightarrow> int (case current of None \<Rightarrow> 0 | Some row \<Rightarrow> cr_revision row) + 1)
      in if \<bar>next0\<bar> > int MAX_SAFE_INTEGER \<or> next0 < 1 \<or>
            (case current of None \<Rightarrow> False | Some row \<Rightarrow> next0 \<le> int (cr_revision row))
         then None else Some (nat next0))"

definition currentRow :: "publication \<Rightarrow> string \<Rightarrow> publication_error + conversation_row option" where
  "currentRow st entity =
     (case kv_get (pb_rows st) (conversationRowKeyV1 entity) of
        None \<Rightarrow> Inr None
      | Some stored \<Rightarrow> rbind (decodeConversationRowV1 stored) (\<lambda>row. Inr (Some row)))"

definition writePublished ::
  "contribution \<Rightarrow> conversation_update \<Rightarrow> publication \<Rightarrow> publication" where
  "writePublished c u st =
     st\<lparr>pb_rows := kv_put (conversationRowKeyV1 (co_entity c))
           (Stored \<lparr>cr_entity = co_entity c, cr_kind = co_kind c, cr_revision = cu_revision u,
                    cr_payload = co_payload c\<rparr>) (pb_rows st),
        pb_updates := kv_put (conversationUpdateKeyV1 (cu_cursor u)) (Stored u) (pb_updates st),
        pb_pending := kv_put (publicationPendingKey (cu_cursor u))
           (Stored \<lparr>pp_epoch = cu_epoch u, pp_cursor = cu_cursor u, pp_entity = co_entity c,
                    pp_kind = co_kind c, pp_revision = cu_revision u\<rparr>) (pb_pending st)\<rparr>"

fun commitContributions ::
  "contribution list \<Rightarrow> publication_head \<Rightarrow> visible_index \<Rightarrow> publication \<Rightarrow>
   publication_error + conversation_update list \<times> publication_head \<times> visible_index \<times> publication" where
  "commitContributions [] head index st = Inr ([], head, index, st)"
| "commitContributions (c # cs) head index st =
     rbind (requireEntityId (co_entity c)) (\<lambda>_.
     rbind (currentRow st (co_entity c)) (\<lambda>current.
       case nextRevision c current of
         None \<Rightarrow> commitContributions cs head index st
       | Some revision \<Rightarrow>
           let lastCursor = ph_last head + 1
           in if lastCursor > MAX_SAFE_INTEGER then Inl Cursor_Exhausted
              else let u = \<lparr>cu_epoch = ph_epoch head, cu_cursor = lastCursor, cu_kind = co_kind c,
                            cu_entity = co_entity c, cu_revision = revision,
                            cu_payload = co_payload c\<rparr>
                   in rbind (commitContributions cs (head\<lparr>ph_last := lastCursor\<rparr>) (indexed c index)
                               (writePublished c u st))
                        (\<lambda>(committed, head', index', st'). Inr (u # committed, head', index', st'))))"

definition commitPublicationsV1 ::
  "contribution list \<Rightarrow> publication \<Rightarrow>
   publication_error + conversation_update list \<times> publication" where
  "commitPublicationsV1 contributions st =
     (if contributions = [] then Inr ([], st)
      else rbind (decodePublicationHeadV1 (pb_head st)) (\<lambda>head.
      rbind (decodeVisibleIndex (pb_index st)) (\<lambda>index.
      rbind (commitContributions contributions head index st)
        (\<lambda>(committed, head', index', st').
          if committed = [] then Inr ([], st)
          else case trimReplay head' st' of
              (head'', st'') \<Rightarrow>
                Inr (committed, st''\<lparr>pb_head := Some (Stored head''),
                                     pb_index := Some (Stored index')\<rparr>)))))"

section \<open>Reading\<close>

definition readPublicationHeadV1 :: "publication \<Rightarrow> publication_error + publication_head" where
  "readPublicationHeadV1 st = decodePublicationHeadV1 (pb_head st)"

definition readConversationRowV1 ::
  "publication \<Rightarrow> string \<Rightarrow> publication_error + conversation_row option" where
  "readConversationRowV1 st entity = currentRow st entity"

definition readConversationUpdateV1 ::
  "publication \<Rightarrow> nat \<Rightarrow> publication_error + conversation_update option" where
  "readConversationUpdateV1 st cursor =
     (case updateAt st cursor of
        None \<Rightarrow> Inr None
      | Some stored \<Rightarrow> rbind (decodeConversationUpdateV1 stored) (\<lambda>u. Inr (Some u)))"

definition readVisibleIndexV1 :: "publication \<Rightarrow> publication_error + visible_index" where
  "readVisibleIndexV1 st = decodeVisibleIndex (pb_index st)"

definition readReplayUpdatesV1 ::
  "publication \<Rightarrow> publication_head \<Rightarrow> nat \<Rightarrow> publication_error + conversation_update list" where
  "readReplayUpdatesV1 st head afterCursor =
     rmap (\<lambda>cursor.
         rbind (readConversationUpdateV1 st cursor) (\<lambda>u.
           case u of None \<Rightarrow> Inl (Replay_Gap cursor) | Some update \<Rightarrow> Inr update))
       [afterCursor + 1..<ph_last head + 1]"

section \<open>Draining\<close>

definition reconstructUpdate ::
  "publication \<Rightarrow> pending_publication \<Rightarrow> publication_error + conversation_update option" where
  "reconstructUpdate st p =
     rbind (readConversationUpdateV1 st (pp_cursor p)) (\<lambda>found.
       case found of
         Some u \<Rightarrow> Inr (Some u)
       | None \<Rightarrow>
           rbind (readConversationRowV1 st (pp_entity p)) (\<lambda>row.
             case row of
               None \<Rightarrow> Inr None
             | Some r \<Rightarrow>
                 if cr_revision r < pp_revision p then Inr None
                 else Inr (Some \<lparr>cu_epoch = pp_epoch p, cu_cursor = pp_cursor p,
                                 cu_kind = pp_kind p, cu_entity = pp_entity p,
                                 cu_revision = pp_revision p, cu_payload = cr_payload r\<rparr>)))"

record drain_batch =
  db_keys :: "string list"
  db_markers :: "pending_publication list"
  db_updates :: "conversation_update list"

text \<open>What a drain reads before it delivers: \<open>None\<close> when nothing is pending.\<close>

definition readDrainBatch :: "publication \<Rightarrow> nat \<Rightarrow> publication_error + drain_batch option" where
  "readDrainBatch st batch =
     (let pending = take batch (pb_pending st)
      in if pending = [] then Inr None
         else rbind (rmap (\<lambda>entry. decodePendingPublicationV1 (snd entry)) pending) (\<lambda>decoded.
           let markers = sort_key pp_cursor decoded
           in rbind (rmap (reconstructUpdate st) markers) (\<lambda>found.
             Inr (Some \<lparr>db_keys = map fst pending, db_markers = markers,
                        db_updates = List.map_filter id found\<rparr>))))"

text \<open>The transaction after a delivery. \<open>refreshAlarm\<close> belongs to the caller.\<close>

definition settleDrain :: "drain_batch \<Rightarrow> publication \<Rightarrow> publication_error + publication" where
  "settleDrain b st =
     rbind (decodePublicationHeadV1 (pb_head st)) (\<lambda>head.
       let through = pp_cursor (last (db_markers b))
       in case trimReplay (head\<lparr>ph_through := max (ph_through head) through\<rparr>) st of
            (trimmed, st') \<Rightarrow>
              Inr (st'\<lparr>pb_pending := fold kv_delete (db_keys b) (pb_pending st'),
                       pb_head := Some (Stored trimmed)\<rparr>))"

text \<open>\<open>delivered\<close> says whether the delivery returned; the flag of the result that more is pending. What
  other transactions did to the store during the delivery is \<open>meanwhile\<close>.\<close>

definition drainPendingPublicationV1 ::
  "bool \<Rightarrow> (publication \<Rightarrow> publication) \<Rightarrow> nat \<Rightarrow> publication \<Rightarrow>
   publication_error + bool \<times> conversation_update list \<times> publication" where
  "drainPendingPublicationV1 delivered meanwhile batch st =
     rbind (readDrainBatch st batch) (\<lambda>found.
       case found of
         None \<Rightarrow> Inr (False, [], st)
       | Some b \<Rightarrow>
           if \<not> delivered then Inr (True, db_updates b, meanwhile st)
           else rbind (settleDrain b (meanwhile st)) (\<lambda>st'.
                  Inr (pb_pending st' \<noteq> [], db_updates b, st')))"

end
