(* ===== verification/Run_Terminal.thy ===== *)
theory Run_Terminal
  imports Run_Recovery Publication
begin

text \<open>
  The storage of one Bot's Durable Object as the kernel uses it, and the settlement of a run
  (core/durable/run-terminal.ts): completing, cancelling and failing it, each inside one storage
  transaction. \<open>durable\<close> has one field per key or key family; a Package record, whose key is the
  Package's own, is in \<open>d_packages\<close>. The records a Package contributes are functions of the settled run
  and of the storage, and may throw. A transaction that throws leaves the storage as it was, so an
  error carries none.
\<close>

section \<open>The storage\<close>

record identity =
  id_user :: string
  id_bot :: string

record durable =
  d_log :: log_store
  d_active :: "string option"
  d_parked :: "string option"
  d_pendingUser :: "string kv"
  d_pendingAgent :: "string kv"
  d_runIndex :: "string kv"
  d_fences :: "string list option"
  d_fenceMarks :: "json kv"
  d_repairDue :: "string kv"
  d_repairRun :: "nat kv"
  d_identity :: "identity option"
  d_notifications :: "json kv"
  d_packages :: "json kv"
  d_publication :: publication
  d_alarm :: "int option"

datatype kernel_error =
    Record_Refused codec_error
  | Log_Refused log_error
  | Publication_Refused publication_error
  | Recovery_Refused recovery_error
  | Turn_Refused refusal_code
  | Fences_Refused fence_error
  | Identity_Mismatch
  | Identity_Unavailable
  | Run_Not_Active
  | Run_Not_Accepted
  | Run_Not_Resumable
  | Run_Key_Mismatch
  | Run_Range_Incomplete
  | Events_Missing_Before nat
  | Suffix_Not_Continuing nat
  | No_Durable_Stop_Intent
  | Kernel_Key string
  | Failed_Record_Key string
  | Stop_Key_Reused
  | Stop_Already_Terminal
  | Response_Missing
  | Hook_Failed

text \<open>What the kernel is given: the codec of the run record, that of events, and the registered
  projector of the working context.\<close>

record kernel_env =
  ke_run :: run_hooks
  ke_log :: log_codec
  ke_projector :: "context_projector option"

definition runKey :: "string \<Rightarrow> string" where
  "runKey runId = RUN_PREFIX @ runId"

definition runAt :: "durable \<Rightarrow> string \<Rightarrow> stored_run option" where
  "runAt d runId = kv_get (ls_runs (d_log d)) (runKey runId)"

definition putRun :: "string \<Rightarrow> stored_run \<Rightarrow> durable \<Rightarrow> durable" where
  "putRun runId run d =
     d\<lparr>d_log := (d_log d)\<lparr>ls_runs := kv_put (runKey runId) run (ls_runs (d_log d))\<rparr>\<rparr>"

definition requireRun :: "('a :: type) kernel_env_scheme \<Rightarrow> stored_run \<Rightarrow> kernel_error + stored_run" where
  "requireRun env run = mapError Record_Refused (requireStoredRunRecordV1 (ke_run env) run)"

definition optionalRun :: "'a kernel_env_scheme \<Rightarrow> durable \<Rightarrow> string \<Rightarrow> kernel_error + stored_run option" where
  "optionalRun env d runId = mapError Record_Refused (optionalStoredRun (ke_run env) (runAt d runId))"

section \<open>Committing the events of a settlement\<close>

definition settledEventsV1 ::
  "'a kernel_env_scheme \<Rightarrow> string \<Rightarrow> string \<Rightarrow> session_event list \<Rightarrow> kernel_error + session_event list" where
  "settledEventsV1 env now sessionId events =
     rbind (mapError Log_Refused (decodedEvents (ke_log env) events)) (\<lambda>decoded.
       Inr (if decoded = [] then []
            else case reconciled now sessionId decoded of
                None \<Rightarrow> decoded
              | Some (s, repairs) \<Rightarrow> decoded @ repairs))"

definition commitSuffixV1 ::
  "'a kernel_env_scheme \<Rightarrow> durable \<Rightarrow> string \<Rightarrow> nat \<Rightarrow> session_event list \<Rightarrow> kernel_error + durable" where
  "commitSuffixV1 env d sessionId startSeq events =
     (if events = [] then Inr d
      else rbind (mapError Log_Refused (eventCount (d_log d) sessionId)) (\<lambda>count.
        if count < startSeq then Inl (Events_Missing_Before startSeq)
        else let have0 = count - startSeq
             in if have0 > length events then Inr d
                else rbind (mapError Log_Refused (decodedEvents (ke_log env) (drop have0 events))) (\<lambda>missing.
                  if missing = [] then Inr d
                  else if seq (hd missing) \<noteq> count then Inl (Suffix_Not_Continuing count)
                  else rbind (mapError Log_Refused
                         (appendLog (ke_log env) (ke_projector env) (d_log d) sessionId missing None)) (\<lambda>st.
                    Inr (d\<lparr>d_log := st\<rparr>)))))"

definition journalCoveringLogV1 ::
  "'a kernel_env_scheme \<Rightarrow> durable \<Rightarrow> string \<Rightarrow> nat \<Rightarrow> session_event list \<Rightarrow>
   kernel_error + session_event list" where
  "journalCoveringLogV1 env d sessionId previousEventCount events =
     rbind (mapError Log_Refused (decodedEvents (ke_log env) events)) (\<lambda>snapshot.
     rbind (mapError Log_Refused (eventCount (d_log d) sessionId)) (\<lambda>logCount.
       if logCount \<le> previousEventCount + length snapshot then Inr snapshot
       else rbind (mapError Log_Refused
              (readRange (ke_log env) (d_log d) sessionId previousEventCount logCount)) (\<lambda>covered.
         Inr (if length covered \<noteq> logCount - previousEventCount then snapshot else covered))))"

section \<open>Leaving the queue\<close>

definition leaveQueueV1 :: "stored_run \<Rightarrow> durable \<Rightarrow> durable" where
  "leaveQueueV1 run d =
     (if r_phase run = Parked
      then (if d_parked d = Some (r_runId run) then d\<lparr>d_parked := None\<rparr> else d)
      else if r_phase run \<noteq> Queued then d
      else if storedRunLaneV1 run = Lane_Agent
      then d\<lparr>d_pendingAgent :=
               kv_delete (pendingAgentRunKey (r_acceptedAt run) (r_runId run)) (d_pendingAgent d)\<rparr>
      else d\<lparr>d_pendingUser :=
               kv_delete (pendingUserRunKey (r_acceptedAt run) (r_runId run)) (d_pendingUser d)\<rparr>)"

definition releaseActive :: "string \<Rightarrow> durable \<Rightarrow> durable" where
  "releaseActive runId d = (if d_active d = Some runId then d\<lparr>d_active := None\<rparr> else d)"

section \<open>Reading a run with its events\<close>

definition hydrateWith ::
  "(log_store \<Rightarrow> string \<Rightarrow> nat \<Rightarrow> nat \<Rightarrow> log_error + session_event list) \<Rightarrow>
   'a kernel_env_scheme \<Rightarrow> durable \<Rightarrow> stored_run \<Rightarrow> kernel_error + stored_run" where
  "hydrateWith readEvents env d run =
     (case r_eventRange run of
        None \<Rightarrow> Inr run
      | Some (startSeq, endSeq) \<Rightarrow>
          rbind (mapError Log_Refused (readEvents (d_log d) (r_sessionId run) startSeq endSeq)) (\<lambda>events.
            if length events \<noteq> endSeq - startSeq then Inl Run_Range_Incomplete
            else requireRun env (run\<lparr>r_events := Some events\<rparr>)))"

definition hydratedRun ::
  "'a kernel_env_scheme \<Rightarrow> durable \<Rightarrow> string \<Rightarrow> kernel_error + stored_run option" where
  "hydratedRun env d runId =
     rbind (optionalRun env d runId) (\<lambda>stored.
       case stored of
         None \<Rightarrow> Inr None
       | Some run \<Rightarrow>
           rbind (hydrateWith (readRange (ke_log env)) env d run) (\<lambda>r. Inr (Some r)))"

section \<open>Settling\<close>

record completion =
  cp_text :: jstr
  cp_events :: "session_event list"
  cp_notification :: "(string \<times> json) option"

datatype settlement = Settled_Completed | Settled_Cancelled | Settled_Failed
  | Preserved_Completion | Run_Missing

type_synonym package_hook = "durable \<Rightarrow> stored_run \<Rightarrow> kernel_error + (string \<times> json) list"

text \<open>The keys \<open>terminalKeys\<close> names.\<close>

definition assertPackageRecordKeys ::
  "string \<Rightarrow> (string \<times> json) list \<Rightarrow> kernel_error + unit" where
  "assertPackageRecordKeys runId records =
     (case find (\<lambda>(key, v). key = runKey runId \<or> key = ACTIVE_RUN_KEY \<or> key = LATEST_EVENTS_KEY
                  \<or> prefix NOTIFICATION_PREFIX key) records of
        None \<Rightarrow> Inr () | Some (key, v) \<Rightarrow> Inl (Kernel_Key key))"

definition putPackages :: "(string \<times> json) list \<Rightarrow> durable \<Rightarrow> durable" where
  "putPackages records d = d\<lparr>d_packages := fold (\<lambda>(key, v). kv_put key v) records (d_packages d)\<rparr>"

definition putNotification :: "(string \<times> json) option \<Rightarrow> durable \<Rightarrow> durable" where
  "putNotification notification d =
     (case notification of
        None \<Rightarrow> d
      | Some (notificationId, intent) \<Rightarrow>
          d\<lparr>d_notifications := kv_put (NOTIFICATION_PREFIX @ notificationId) intent (d_notifications d)\<rparr>)"

definition stopRequested :: "stored_run \<Rightarrow> bool" where
  "stopRequested run \<longleftrightarrow> truthy (r_stopRequestedAt run) \<noteq> None"

definition cancelledRun :: "session_event list \<Rightarrow> stored_run \<Rightarrow> stored_run" where
  "cancelledRun events run =
     (storedRunEventFieldsV2 (r_previousEventCount run) events
        (run\<lparr>r_responseText := None, r_failure := None\<rparr>))\<lparr>r_status := Run_Cancelled\<rparr>"

definition completeStoredRun ::
  "'a kernel_env_scheme \<Rightarrow> durable \<Rightarrow> string \<Rightarrow> completion \<Rightarrow> package_hook option \<Rightarrow>
   kernel_error + settlement \<times> durable" where
  "completeStoredRun env d runId result packageRecords =
     (if d_active d \<noteq> Some runId then Inl Run_Not_Active
      else rbind (hydratedRun env d runId) (\<lambda>found.
        case found of
          None \<Rightarrow> Inl Run_Not_Accepted
        | Some run \<Rightarrow>
            rbind (mapError Log_Refused (decodedEvents (ke_log env) (cp_events result))) (\<lambda>events.
              if stopRequested run
              then rbind (requireRun env (cancelledRun events run)) (\<lambda>cancelled.
                   rbind (commitSuffixV1 env d (r_sessionId run) (r_previousEventCount run) events) (\<lambda>d1.
                     Inr (Settled_Cancelled,
                          (putRun runId (storedRunRecordV2 cancelled) d1)\<lparr>d_active := None\<rparr>)))
              else rbind (commitSuffixV1 env d (r_sessionId run) (r_previousEventCount run) events) (\<lambda>d1.
                   rbind (journalCoveringLogV1 env d1 (r_sessionId run) (r_previousEventCount run) events)
                     (\<lambda>journal.
                   rbind (requireRun env
                           ((storedRunEventFieldsV2 (r_previousEventCount run) journal run)
                              \<lparr>r_status := Run_Completed, r_responseText := Some (cp_text result)\<rparr>))
                     (\<lambda>completed.
                   rbind (case packageRecords of
                            None \<Rightarrow> Inr []
                          | Some hook \<Rightarrow>
                              rbind (hook d1 completed) (\<lambda>contributed.
                              rbind (assertPackageRecordKeys runId contributed) (\<lambda>_. Inr contributed)))
                     (\<lambda>contributed.
                     Inr (Settled_Completed,
                          (putPackages contributed
                            (putNotification (cp_notification result)
                              (putRun runId (storedRunRecordV2 completed) d1)))\<lparr>d_active := None\<rparr>))))))))"

definition cancelStoredRun ::
  "'a kernel_env_scheme \<Rightarrow> string \<Rightarrow> durable \<Rightarrow> string \<Rightarrow> session_event list \<Rightarrow>
   kernel_error + settlement \<times> durable" where
  "cancelStoredRun env now d runId events =
     rbind (hydratedRun env d runId) (\<lambda>found.
       case found of
         None \<Rightarrow> Inr (Run_Missing, d)
       | Some run \<Rightarrow>
           if r_status run = Run_Completed then Inr (Preserved_Completion, d)
           else if \<not> stopRequested run then Inl No_Durable_Stop_Intent
           else rbind (settledEventsV1 env now (r_sessionId run) events) (\<lambda>decodedEvents0.
                rbind (requireRun env (cancelledRun decodedEvents0 run)) (\<lambda>cancelled.
                rbind (commitSuffixV1 env d (r_sessionId run) (r_previousEventCount run) decodedEvents0)
                  (\<lambda>d1.
                  Inr (Settled_Cancelled,
                       releaseActive runId
                         (leaveQueueV1 run (putRun runId (storedRunRecordV2 cancelled) d1)))))))"

definition failStoredRun ::
  "'a kernel_env_scheme \<Rightarrow> string \<Rightarrow> durable \<Rightarrow> string \<Rightarrow> session_event list \<Rightarrow> jstr \<Rightarrow>
   package_hook option \<Rightarrow> kernel_error + settlement \<times> durable" where
  "failStoredRun env now d runId events failure failureRecords =
     rbind (hydratedRun env d runId) (\<lambda>found.
       case found of
         None \<Rightarrow> Inr (Run_Missing, d)
       | Some run \<Rightarrow>
           if r_status run = Run_Completed then Inr (Preserved_Completion, d)
           else if stopRequested run then cancelStoredRun env now d runId events
           else rbind (settledEventsV1 env now (r_sessionId run) events) (\<lambda>decodedEvents0.
                rbind (requireRun env
                        ((storedRunEventFieldsV2 (r_previousEventCount run) decodedEvents0 run)
                           \<lparr>r_status := Run_Failed, r_failure := Some failure\<rparr>)) (\<lambda>failed.
                rbind (if r_status run = Run_Failed then Inr []
                       else case failureRecords of None \<Rightarrow> Inr [] | Some hook \<Rightarrow> hook d failed)
                  (\<lambda>contributed.
                rbind (case find (\<lambda>(key, v). key = runKey runId \<or> key = ACTIVE_RUN_KEY) contributed of
                         None \<Rightarrow> Inr () | Some (key, v) \<Rightarrow> Inl (Failed_Record_Key key)) (\<lambda>_.
                rbind (commitSuffixV1 env d (r_sessionId run) (r_previousEventCount run) decodedEvents0)
                  (\<lambda>d1.
                  Inr (Settled_Failed,
                       releaseActive runId
                         (leaveQueueV1 run
                           (putPackages contributed
                             (putRun runId (storedRunRecordV2 failed) d1)))))))))) "

end
