(* ===== verification/Authority.thy ===== *)
theory Authority
  imports Run_Terminal
begin

text \<open>
  The durable transactions of a Bot's authority (core/durable/authority.ts): admission and its
  queues, promotion, parking and resuming, the events a Turn appends, settlement, stale-run repair,
  recovery, the recovery alarm and the reads other parts use. Every definition is one method, the
  body of its storage transaction first, and takes what the method does not read from storage as
  arguments: \<open>now\<close> is \<open>Date.now()\<close>, \<open>exec\<close> the run this isolate is executing, and the hooks of the Package
  are the fields of \<open>authority_env\<close>. The promises that wait, wake and keep the isolate alive are not
  modelled.
\<close>

section \<open>Identifiers\<close>

definition identifierStart :: "char \<Rightarrow> bool" where
  "identifierStart c \<longleftrightarrow>
     c \<in> set ''abcdefghijklmnopqrstuvwxyzABCDEFGHIJKLMNOPQRSTUVWXYZ0123456789''"

definition isPublicIdentifier :: "string \<Rightarrow> bool" where
  "isPublicIdentifier i \<longleftrightarrow>
     i \<noteq> [] \<and> length i \<le> 128 \<and> identifierStart (hd i) \<and>
     list_all (\<lambda>c. identifierStart c \<or> c \<in> set ''._-'') (tl i)"

section \<open>The hooks\<close>

datatype visible_cause = Cause_Admission | Cause_Promotion | Cause_Events | Cause_Terminal

text \<open>\<open>ae_pin\<close> is the generation \<open>composition.pin\<close> answers, \<open>ae_deadlines\<close> the deadlines of the Package's own
  work, \<open>ae_journalMessage\<close> the message of a journal error. A hook that is absent is \<open>None\<close>; the others always answer.\<close>

record authority_env = kernel_env +
  ae_deadlines :: "durable \<Rightarrow> int list"
  ae_admittedSnapshot :: "durable \<Rightarrow> json \<Rightarrow> json"
  ae_preparedInputs :: "json \<Rightarrow> json option"
  ae_pin :: "durable \<Rightarrow> string"
  ae_journalMessage :: "journal_error \<Rightarrow> jstr"
  ae_notification :: "json \<Rightarrow> completion \<Rightarrow> (string \<times> json) option"
  ae_terminalRecords :: "(json \<Rightarrow> string \<Rightarrow> package_hook) option"
  ae_failureRecords :: "package_hook option"
  ae_eventRecords :: "(session_event list \<Rightarrow> package_hook) option"
  ae_visible ::
    "(visible_cause \<Rightarrow> stored_run \<Rightarrow> session_event list option \<Rightarrow> contribution list) option"

section \<open>The recovery alarm\<close>

text \<open>Times are milliseconds since 1970; an acceptance time before it is clamped to it here.\<close>

definition runRepairRecordsV1 :: "string \<Rightarrow> int \<Rightarrow> durable \<Rightarrow> durable" where
  "runRepairRecordsV1 runId startedAt d =
     (let dueAt = nat (startedAt + TURN_DEADLINE_MS_V1 + STALE_RUNNING_RUN_GRACE_MS_V1)
      in d\<lparr>d_repairRun := kv_put (repairRunKey runId) dueAt (d_repairRun d),
           d_repairDue := kv_put (repairDueKey dueAt runId) runId (d_repairDue d)\<rparr>)"

definition clearRunRepair :: "string \<Rightarrow> durable \<Rightarrow> durable" where
  "clearRunRepair runId d =
     (let due = kv_get (d_repairRun d) (repairRunKey runId);
          d' = d\<lparr>d_repairRun := kv_delete (repairRunKey runId) (d_repairRun d)\<rparr>
      in case due of
           None \<Rightarrow> d'
         | Some dueAt \<Rightarrow> d'\<lparr>d_repairDue := kv_delete (repairDueKey dueAt runId) (d_repairDue d')\<rparr>)"

text \<open>The due time of the first repair that is neither the active nor the executing run's.\<close>

definition nextRepairDue :: "string option \<Rightarrow> string option \<Rightarrow> string kv \<Rightarrow> int list" where
  "nextRepairDue active exec repairs =
     (case find (\<lambda>(key, runId). Some runId \<noteq> active \<and> Some runId \<noteq> exec) (take 3 repairs) of
        None \<Rightarrow> [] | Some (key, runId) \<Rightarrow> [int (repairDueOf key)])"

definition recoveryDeadlines :: "authority_env \<Rightarrow> string option \<Rightarrow> int \<Rightarrow> durable \<Rightarrow> int list" where
  "recoveryDeadlines env exec now d =
     ae_deadlines env d @
     (if d_active d \<noteq> None then [now + RECOVERY_ALARM_DELAY_MS]
      else if d_pendingUser d \<noteq> [] \<or> d_pendingAgent d \<noteq> [] \<or> d_parked d \<noteq> None
      then [now + RECOVERY_ALARM_DELAY_MS] else []) @
     nextRepairDue (d_active d) exec (d_repairDue d) @
     (if pb_pending (d_publication d) \<noteq> [] then [now] else [])"

definition refreshRecoveryAlarm ::
  "authority_env \<Rightarrow> string option \<Rightarrow> int \<Rightarrow> durable \<Rightarrow> kernel_error + durable" where
  "refreshRecoveryAlarm env exec now d =
     rbind (case d_active d of
              None \<Rightarrow> Inr None | Some activeRunId \<Rightarrow> optionalRun env d activeRunId) (\<lambda>_.
       let deadlines = recoveryDeadlines env exec now d
       in Inr (d\<lparr>d_alarm := (if deadlines = [] then None else Some (min_list deadlines))\<rparr>))"

section \<open>Reading\<close>

definition cursorAt :: "durable \<Rightarrow> string \<Rightarrow> cursor_read" where
  "cursorAt d sessionId =
     readSessionCursorV1 (ls_heads (d_log d))
       (map_option li_events (kv_get (ls_index (d_log d)) (sessionEventLogIndexKeyV1 sessionId)))
       sessionId"

fun cursorOf :: "cursor_read \<Rightarrow> session_cursor" where
  "cursorOf (Cursor_Ready cursor head) = cursor"
| "cursorOf (Cursor_Empty cursor) = cursor"
| "cursorOf (Cursor_Unavailable cursor reason) = cursor"

definition readRunFrom ::
  "'a kernel_env_scheme \<Rightarrow> durable \<Rightarrow> string \<Rightarrow> bool \<Rightarrow> kernel_error + stored_run option" where
  "readRunFrom env d runId display =
     rbind (optionalRun env d runId) (\<lambda>found.
       case found of
         None \<Rightarrow> Inr None
       | Some run \<Rightarrow>
           rbind (hydrateWith ((if display then readDisplayRange else readRange) (ke_log env)) env d run)
             (\<lambda>r. Inr (Some r)))"

definition readSessionEvents ::
  "'a kernel_env_scheme \<Rightarrow> durable \<Rightarrow> string \<Rightarrow> kernel_error + session_event list" where
  "readSessionEvents env d sessionId = mapError Log_Refused (readLog (ke_log env) (d_log d) sessionId)"

text \<open>The projections of a run's events, or the events of a record that has no range.\<close>

definition readRunEventProjections ::
  "'a kernel_env_scheme \<Rightarrow> durable \<Rightarrow> string \<Rightarrow>
   kernel_error + (stored_run \<times> (session_event list + json list) \<times> nat) option" where
  "readRunEventProjections env d runId =
     rbind (optionalRun env d runId) (\<lambda>found.
       case found of
         None \<Rightarrow> Inr None
       | Some run \<Rightarrow>
           (case r_eventRange run of
              None \<Rightarrow> Inr (Some (run, Inl (runEvents run), length (runEvents run)))
            | Some (startSeq, endSeq) \<Rightarrow>
                rbind (mapError Log_Refused
                         (readProjections (ke_log env) (d_log d) (r_sessionId run) startSeq endSeq)) (\<lambda>events.
                  if length events \<noteq> endSeq - startSeq then Inl Run_Range_Incomplete
                  else Inr (Some (run, Inr events, endSeq - startSeq)))))"

text \<open>The record, checked against the key it was looked up by.\<close>

definition readRun :: "'a kernel_env_scheme \<Rightarrow> durable \<Rightarrow> string \<Rightarrow> kernel_error + stored_run option" where
  "readRun env d runId =
     rbind (readRunFrom env d runId False) (\<lambda>found.
       case found of
         None \<Rightarrow> Inr None
       | Some run \<Rightarrow> if r_runId run \<noteq> runId then Inl Run_Key_Mismatch else Inr (Some run))"

text \<open>A run for display: the decoded record, or the record that cannot be decoded, of which
  \<open>unreadableStoredRunV1\<close> makes the row that is drawn.\<close>

datatype display_run = Readable stored_run | Unreadable string "stored_run option"

definition readRunHeaderForDisplay :: "'a kernel_env_scheme \<Rightarrow> durable \<Rightarrow> string \<Rightarrow> display_run option" where
  "readRunHeaderForDisplay env d runId =
     (case runAt d runId of
        None \<Rightarrow> None
      | Some raw \<Rightarrow>
          Some (case requireRun env raw of Inl e \<Rightarrow> Unreadable runId (Some raw) | Inr run \<Rightarrow> Readable run))"

definition hydrateRunForDisplay :: "'a kernel_env_scheme \<Rightarrow> durable \<Rightarrow> display_run \<Rightarrow> display_run" where
  "hydrateRunForDisplay env d header =
     (case header of
        Unreadable runId raw \<Rightarrow> header
      | Readable run \<Rightarrow>
          (case hydrateWith (readDisplayRange (ke_log env)) env d run of
             Inl e \<Rightarrow> Unreadable (r_runId run) (Some run) | Inr r \<Rightarrow> Readable r))"

definition readStoredRunForDisplayOrDegraded ::
  "'a kernel_env_scheme \<Rightarrow> durable \<Rightarrow> string \<Rightarrow> display_run option" where
  "readStoredRunForDisplayOrDegraded env d runId =
     map_option (hydrateRunForDisplay env d) (readRunHeaderForDisplay env d runId)"

text \<open>The admission index, newest first, before a cursor.\<close>

definition listRunIndex :: "durable \<Rightarrow> nat \<Rightarrow> string option \<Rightarrow> (string \<times> string) list" where
  "listRunIndex d limit before =
     take limit (rev (case before of
       Some cursor \<Rightarrow>
         if prefix RUN_INDEX_PREFIX cursor then filter (\<lambda>(key, runId). key < cursor) (d_runIndex d)
         else d_runIndex d
     | None \<Rightarrow> d_runIndex d))"

text \<open>The seed of a Turn: the cursor it numbers its events from, why no context can be read, and the
  events it has already written.\<close>

record turn_seed =
  ts_cursor :: session_cursor
  ts_unavailable :: "string option"
  ts_journal :: "session_event list"

fun turnContextSeedV1 :: "cursor_read \<Rightarrow> session_event list \<Rightarrow> turn_seed" where
  "turnContextSeedV1 (Cursor_Unavailable cursor reason) journal =
     \<lparr>ts_cursor = cursor, ts_unavailable = Some reason, ts_journal = journal\<rparr>"
| "turnContextSeedV1 (Cursor_Ready cursor head) journal =
     \<lparr>ts_cursor = cursor, ts_unavailable = None, ts_journal = journal\<rparr>"
| "turnContextSeedV1 (Cursor_Empty cursor) journal =
     \<lparr>ts_cursor = cursor, ts_unavailable = None, ts_journal = journal\<rparr>"

definition botConversationBaseSessionIdV1 :: "identity \<Rightarrow> string" where
  "botConversationBaseSessionIdV1 who = id_user who @ '':'' @ id_bot who"

definition readConversationSessionId :: "durable \<Rightarrow> string option" where
  "readConversationSessionId d = map_option botConversationBaseSessionIdV1 (d_identity d)"

definition validateIdentity :: "identity \<Rightarrow> durable \<Rightarrow> kernel_error + unit" where
  "validateIdentity who d =
     (case d_identity d of
        None \<Rightarrow> Inr ()
      | Some existing \<Rightarrow> if existing \<noteq> who then Inl Identity_Mismatch else Inr ())"

definition assertIdentity :: "identity \<Rightarrow> durable \<Rightarrow> kernel_error + durable" where
  "assertIdentity who d =
     rbind (validateIdentity who d) (\<lambda>_.
       Inr (if d_identity d = None then d\<lparr>d_identity := Some who\<rparr> else d))"

definition recordNotification :: "string \<Rightarrow> json \<Rightarrow> durable \<Rightarrow> durable" where
  "recordNotification notificationId intent d = putNotification (Some (notificationId, intent)) d"

definition acknowledgeNotification :: "string \<Rightarrow> durable \<Rightarrow> durable" where
  "acknowledgeNotification notificationId d =
     d\<lparr>d_notifications := kv_delete (NOTIFICATION_PREFIX @ notificationId) (d_notifications d)\<rparr>"

section \<open>Publication\<close>

fun statusName :: "run_status \<Rightarrow> string" where
  "statusName Run_Running = ''running''"
| "statusName Run_Completed = ''completed''"
| "statusName Run_Failed = ''failed''"
| "statusName Run_Cancelled = ''cancelled''"

fun phaseName :: "run_phase \<Rightarrow> string" where
  "phaseName Queued = ''queued''"
| "phaseName Admitted = ''admitted''"
| "phaseName Executing = ''executing''"
| "phaseName Parked = ''parked''"

definition commitVisible ::
  "authority_env \<Rightarrow> visible_cause \<Rightarrow> stored_run \<Rightarrow> session_event list option \<Rightarrow> durable \<Rightarrow>
   kernel_error + durable" where
  "commitVisible env cause run events d =
     (let contributions = (case ae_visible env of
            Some hook \<Rightarrow> hook cause run events
          | None \<Rightarrow>
              if cause = Cause_Events then []
              else [\<lparr>co_kind = Run_Status_Kind, co_entity = runEntityIdV1 (r_runId run),
                     co_payload = JObj [(''runId'', jtext (r_runId run)),
                       (''status'', jtext (statusName (r_status run))),
                       (''phase'', jtext (phaseName (r_phase run)))],
                     co_revision = None\<rparr>])
      in rbind (mapError Publication_Refused (commitPublicationsV1 contributions (d_publication d)))
           (\<lambda>(committed, publication). Inr (d\<lparr>d_publication := publication\<rparr>)))"

text \<open>The drain, with the alarm refreshed in the transaction that settles it.\<close>

definition drainPublication ::
  "authority_env \<Rightarrow> string option \<Rightarrow> int \<Rightarrow> bool \<Rightarrow> durable \<Rightarrow> kernel_error + bool \<times> durable" where
  "drainPublication env exec now delivered d =
     rbind (mapError Publication_Refused
              (drainPendingPublicationV1 delivered (\<lambda>st. st) MAINTENANCE_BATCH_V1 (d_publication d)))
       (\<lambda>(again, updates, publication).
         if pb_pending (d_publication d) = [] \<or> \<not> delivered then Inr (again, d)
         else rbind (refreshRecoveryAlarm env exec now (d\<lparr>d_publication := publication\<rparr>)) (\<lambda>d'.
                Inr (again, d')))"

section \<open>Admission\<close>

text \<open>The command and the identity it is owned by.\<close>

record owned_command =
  oc_identity :: identity
  oc_command :: turn_command

definition ownedFingerprint :: "owned_command \<Rightarrow> jstr" where
  "ownedFingerprint c =
     botTurnCommandFingerprintV1 (js (id_user (oc_identity c))) (js (id_bot (oc_identity c))) (oc_command c)"

definition oc_runId :: "owned_command \<Rightarrow> string" where "oc_runId c = cmd_runId (oc_command c)"

datatype admission_state = Replay_Terminal | Replay_Queued | Replay_Running

definition assertMatchingRunCommand ::
  "'a kernel_env_scheme \<Rightarrow> owned_command \<Rightarrow> durable \<Rightarrow> kernel_error + unit" where
  "assertMatchingRunCommand env c d =
     rbind (optionalRun env d (oc_runId c)) (\<lambda>found.
       case found of
         None \<Rightarrow> Inr ()
       | Some run \<Rightarrow>
           if r_fingerprint run \<noteq> ownedFingerprint c then Inl (Turn_Refused Duplicate) else Inr ())"

definition replayAdmission :: "owned_command \<Rightarrow> stored_run \<Rightarrow> kernel_error + admission_state" where
  "replayAdmission c existing =
     (if r_fingerprint existing \<noteq> ownedFingerprint c then Inl (Turn_Refused Duplicate)
      else Inr (if r_status existing \<noteq> Run_Running then Replay_Terminal
                else if r_phase existing = Queued then Replay_Queued else Replay_Running))"

definition fencedIn :: "string \<Rightarrow> durable \<Rightarrow> kernel_error + bool" where
  "fencedIn runId d =
     rbind (mapError Fences_Refused (storedRunAdmissionFences (d_fences d))) (\<lambda>fences.
       Inr (runId \<in> set fences \<or> kv_get (d_fenceMarks d) (RUN_ADMISSION_FENCE_PREFIX @ runId) \<noteq> None))"

definition refuseFenced :: "string \<Rightarrow> durable \<Rightarrow> kernel_error + unit" where
  "refuseFenced runId d =
     rbind (fencedIn runId d) (\<lambda>fenced. if fenced then Inl (Turn_Refused Fenced) else Inr ())"

definition fenceRunAdmission ::
  "'a kernel_env_scheme \<Rightarrow> identity \<Rightarrow> string \<Rightarrow> durable \<Rightarrow> kernel_error + stored_run option \<times> durable" where
  "fenceRunAdmission env who runId d =
     rbind (validateIdentity who d) (\<lambda>_.
     rbind (optionalRun env d runId) (\<lambda>found.
       case found of
         Some run \<Rightarrow> if r_runId run \<noteq> runId then Inl Run_Key_Mismatch else Inr (Some run, d)
       | None \<Rightarrow>
           rbind (mapError Fences_Refused (storedRunAdmissionFences (d_fences d))) (\<lambda>storedFences.
             let kept = filter (\<lambda>fenced. fenced \<noteq> runId) storedFences;
                 kept' = drop (Suc (length kept) - MAX_RUN_ADMISSION_FENCES) kept
             in Inr (None, d\<lparr>d_fences := Some (kept' @ [runId]),
                             d_identity := Some (case d_identity d of None \<Rightarrow> who | Some i \<Rightarrow> i),
                             d_fenceMarks := kv_delete (RUN_ADMISSION_FENCE_PREFIX @ runId)
                                               (d_fenceMarks d)\<rparr>))))"

text \<open>The transaction that moves a legacy log before an admission reads its cursor. It is of its own: it
  stays if the admission is then refused.\<close>

definition prepareAdmission :: "'a kernel_env_scheme \<Rightarrow> owned_command \<Rightarrow> durable \<Rightarrow> kernel_error + durable" where
  "prepareAdmission env c d =
     rbind (refuseFenced (oc_runId c) d) (\<lambda>_.
     rbind (mapError Log_Refused
              (migrateLegacyBlobIfPresent (ke_log env) (ke_projector env) (d_log d)
                 (cmd_sessionId (oc_command c)))) (\<lambda>st.
       Inr (d\<lparr>d_log := st\<rparr>)))"

definition uploadIds :: "json option \<Rightarrow> jstr list" where
  "uploadIds attachments = map (\<lambda>item. jstring (jget item ''uploadId'')) (jlist attachments)"

fun joinWith :: "jstr \<Rightarrow> jstr list \<Rightarrow> jstr" where
  "joinWith sep [] = []"
| "joinWith sep [x] = x"
| "joinWith sep (x # xs) = x @ sep @ joinWith sep xs"

definition commandAttachments :: "turn_command \<Rightarrow> json option" where
  "commandAttachments command =
     (if cmd_attachments command = [] then None else Some (JArr (map snd (cmd_attachments command))))"

definition retryAllowed :: "turn_command \<Rightarrow> string \<Rightarrow> stored_run \<Rightarrow> bool" where
  "retryAllowed command retryOf target \<longleftrightarrow>
     retryOf \<noteq> cmd_runId command \<and> r_runId target = retryOf \<and>
     r_sessionId target = cmd_sessionId command \<and> r_status target = Run_Failed \<and>
     r_retriedBy target = None \<and> storedRunTurnTypeV1 target = Chat \<and>
     storedRunLaneV1 target = Lane_User \<and>
     (case r_admission target of None \<Rightarrow> True | Some a \<Rightarrow> ad_origin a = None) \<and>
     r_input target = cmd_text command \<and>
     joinWith (js '','') (uploadIds (r_attachments target)) =
       joinWith (js '','') (map (\<lambda>a. js (fst a)) (cmd_attachments command)) \<and>
     commandTurnType command = Chat \<and>
     (case cmd_lane command of None \<Rightarrow> True | Some lane \<Rightarrow> lane = Lane_User) \<and>
     cmd_origin command = None \<and> cmd_skills command = []"

definition retryTargetOf ::
  "'a kernel_env_scheme \<Rightarrow> turn_command \<Rightarrow> durable \<Rightarrow> kernel_error + stored_run option" where
  "retryTargetOf env command d =
     (case cmd_retryOf command of
        None \<Rightarrow> Inr None
      | Some retryOf \<Rightarrow>
          rbind (optionalRun env d retryOf) (\<lambda>found.
            case found of
              None \<Rightarrow> Inl (Turn_Refused Fenced)
            | Some target \<Rightarrow>
                if retryAllowed command retryOf target then Inr (Some target)
                else Inl (Turn_Refused Fenced)))"

definition admissionQueued :: "run_lane \<Rightarrow> durable \<Rightarrow> bool" where
  "admissionQueued lane d \<longleftrightarrow>
     d_active d \<noteq> None \<or> d_pendingUser d \<noteq> [] \<or>
     (lane = Lane_Agent \<and> (d_pendingAgent d \<noteq> [] \<or> d_parked d \<noteq> None))"

definition laneOpen :: "run_lane \<Rightarrow> durable \<Rightarrow> kernel_error + unit" where
  "laneOpen lane d =
     (if lane = Lane_Background \<and>
         (d_active d \<noteq> None \<or> d_parked d \<noteq> None \<or> d_pendingUser d \<noteq> [] \<or> d_pendingAgent d \<noteq> [])
      then Inl (Turn_Refused Busy)
      else if lane = Lane_User \<and> admissionQueued lane d \<and>
              length (d_pendingUser d) \<ge> MAX_PENDING_USER_RUNS_V1
      then Inl (Turn_Refused Busy)
      else if lane = Lane_Agent \<and> admissionQueued lane d \<and>
              length (d_pendingAgent d) \<ge> MAX_PENDING_AGENT_RUNS_V1
      then Inl (Turn_Refused Busy)
      else Inr ())"

text \<open>Where a message sent while a Turn runs landed, in that Turn's own Session.\<close>

definition landingOf ::
  "'a kernel_env_scheme \<Rightarrow> durable \<Rightarrow> kernel_error + (string \<times> nat) option" where
  "landingOf env d =
     rbind (case d_active d of None \<Rightarrow> Inr None | Some runId \<Rightarrow> optionalRun env d runId) (\<lambda>running.
       Inr (map_option (\<lambda>run. (r_runId run, cur_nextSeq (cursorOf (cursorAt d (r_sessionId run)))))
              running))"

definition admittedRecord ::
  "authority_env \<Rightarrow> owned_command \<Rightarrow> json \<Rightarrow> stored_run option \<Rightarrow> (string \<times> nat) option \<Rightarrow> durable \<Rightarrow>
   stored_run" where
  "admittedRecord env c settings retryTarget landedAt d =
     (let command = oc_command c
      in \<lparr>r_runId = cmd_runId command, r_fingerprint = ownedFingerprint c,
          r_sessionId = cmd_sessionId command, r_acceptedAt = cmd_acceptedAt command,
          r_input = cmd_text command, r_attachments = commandAttachments command,
          r_retryOf = map_option r_runId retryTarget, r_retriedBy = None,
          r_messageRunId = map_option (\<lambda>t. case r_messageRunId t of Some m \<Rightarrow> m | None \<Rightarrow> r_runId t)
                             retryTarget,
          r_messageAdmittedAt =
            map_option (\<lambda>t. case r_messageAdmittedAt t of Some m \<Rightarrow> m | None \<Rightarrow> r_acceptedAt t)
              retryTarget,
          r_landedAt = (case retryTarget of Some t \<Rightarrow> r_landedAt t | None \<Rightarrow> landedAt),
          r_events = Some [], r_eventRange = None, r_effects = [], r_status = Run_Running,
          r_responseText = None, r_failure = None,
          r_phase = (if admissionQueued (commandLane command) d then Queued else Admitted),
          r_stopRequestedAt = None, r_composition = ae_pin env d, r_mounted = None,
          r_prepared = ae_preparedInputs env settings,
          r_snapshot = ae_admittedSnapshot env d settings,
          r_previousEventCount = cur_nextSeq (cursorOf (cursorAt d (cmd_sessionId command))),
          r_admission = storedRunAdmissionV1 (cmd_turnType command) (cmd_origin command)
                          (cmd_subagentRole command) (cmd_lane command)\<rparr>)"

datatype admission = Admitted_Active cursor_read json string | Admitted_Queued

definition enqueueRun :: "run_lane \<Rightarrow> string \<Rightarrow> string \<Rightarrow> durable \<Rightarrow> durable" where
  "enqueueRun lane acceptedAt runId d =
     (if lane = Lane_Agent
      then d\<lparr>d_pendingAgent := kv_put (pendingAgentRunKey acceptedAt runId) runId (d_pendingAgent d)\<rparr>
      else d\<lparr>d_pendingUser := kv_put (pendingUserRunKey acceptedAt runId) runId (d_pendingUser d)\<rparr>)"

text \<open>What the admission puts, for a record the codec accepted and a retried run it marked.\<close>

definition putAdmitted ::
  "authority_env \<Rightarrow> owned_command \<Rightarrow> stored_run \<Rightarrow> stored_run option \<Rightarrow> durable \<Rightarrow> durable" where
  "putAdmitted env c admittedRun marked d =
     (let command = oc_command c; runId = cmd_runId command; acceptedAt = cmd_acceptedAt command;
          d1 = putRun runId (storedRunRecordV2 admittedRun) d;
          d2 = (case marked of None \<Rightarrow> d1 | Some t \<Rightarrow> putRun (r_runId t) (storedRunRecordV2 t) d1);
          d3 = d2\<lparr>d_runIndex := kv_put (runIndexKey acceptedAt runId) runId (d_runIndex d2)\<rparr>;
          d4 = (if admissionQueued (commandLane command) d
                then enqueueRun (commandLane command) acceptedAt runId d3
                else runRepairRecordsV1 runId
                       (case h_dateParse (ke_run env) acceptedAt of None \<Rightarrow> 0 | Some t \<Rightarrow> t)
                       (d3\<lparr>d_active := Some runId\<rparr>))
      in d4\<lparr>d_identity := Some (case d_identity d of None \<Rightarrow> oc_identity c | Some i \<Rightarrow> i)\<rparr>)"

definition admitIn ::
  "authority_env \<Rightarrow> string option \<Rightarrow> int \<Rightarrow> owned_command \<Rightarrow> json \<Rightarrow> durable \<Rightarrow>
   kernel_error + admission \<times> durable" where
  "admitIn env exec now c settings d =
     (let command = oc_command c; lane = commandLane command in
      rbind (optionalRun env d (cmd_runId command)) (\<lambda>existing.
      if existing \<noteq> None then Inl (Turn_Refused Duplicate)
      else rbind (refuseFenced (cmd_runId command) d) (\<lambda>_.
      rbind (validateIdentity (oc_identity c) d) (\<lambda>_.
      rbind (retryTargetOf env command d) (\<lambda>retryTarget.
      rbind (laneOpen lane d) (\<lambda>_.
      rbind (landingOf env d) (\<lambda>landedAt.
      rbind (requireRun env (admittedRecord env c settings retryTarget landedAt d)) (\<lambda>admittedRun.
      rbind (case retryTarget of
               None \<Rightarrow> Inr None
             | Some t \<Rightarrow> rbind (requireRun env (t\<lparr>r_retriedBy := Some (cmd_runId command)\<rparr>))
                          (\<lambda>m. Inr (Some m))) (\<lambda>marked.
      rbind (commitVisible env Cause_Admission admittedRun None
               (putAdmitted env c admittedRun marked d)) (\<lambda>d1.
      rbind (refreshRecoveryAlarm env exec now d1) (\<lambda>d2.
        Inr (if admissionQueued lane d then Admitted_Queued
             else Admitted_Active (cursorAt d (cmd_sessionId command))
                    (ae_admittedSnapshot env d settings) (ae_pin env d), d2))))))))))))"

text \<open>\<open>acceptRun\<close>: both transactions; \<open>settings\<close> is the snapshot the Package resolved in between.\<close>

definition acceptRun ::
  "authority_env \<Rightarrow> string option \<Rightarrow> int \<Rightarrow> owned_command \<Rightarrow> json \<Rightarrow> durable \<Rightarrow>
   kernel_error + admission \<times> durable" where
  "acceptRun env exec now c settings d =
     rbind (prepareAdmission env c d) (\<lambda>d1. admitIn env exec now c settings d1)"

text \<open>\<open>admit\<close> up to the receipt: a stored run is replayed, another is accepted.\<close>

datatype receipt = Receipt_Replayed admission_state | Receipt_Accepted admission

definition admit ::
  "authority_env \<Rightarrow> string option \<Rightarrow> int \<Rightarrow> owned_command \<Rightarrow> json \<Rightarrow> durable \<Rightarrow>
   kernel_error + receipt \<times> durable" where
  "admit env exec now c settings d =
     rbind (assertMatchingRunCommand env c d) (\<lambda>_.
     rbind (readRun env d (oc_runId c)) (\<lambda>existing.
       case existing of
         Some run \<Rightarrow> rbind (replayAdmission c run) (\<lambda>state. Inr (Receipt_Replayed state, d))
       | None \<Rightarrow>
           rbind (acceptRun env exec now c settings d) (\<lambda>(accepted, d').
             Inr (Receipt_Accepted accepted, d'))))"

section \<open>The queues\<close>

text \<open>The oldest entry of a queue whose run still waits, with the entries ahead of it pruned.\<close>

fun livePendingHead ::
  "'a kernel_env_scheme \<Rightarrow> durable \<Rightarrow> string kv \<Rightarrow> kernel_error + (string \<times> string) option \<times> string kv" where
  "livePendingHead env d [] = Inr (None, [])"
| "livePendingHead env d ((key, runId) # pending) =
     rbind (optionalRun env d runId) (\<lambda>found.
       if (case found of
             None \<Rightarrow> False | Some run \<Rightarrow> r_status run = Run_Running \<and> r_phase run = Queued)
       then Inr (Some (key, runId), (key, runId) # pending)
       else livePendingHead env d pending)"

datatype promotion = Not_Queued | Blocked | Promoted cursor_read json string

text \<open>Whether the run may start: \<open>None\<close> when it may, by lane, queue heads and the parked run.\<close>

definition promotionBlock ::
  "run_lane \<Rightarrow> string \<Rightarrow> (string \<times> string) option \<Rightarrow> (string \<times> string) option \<Rightarrow> durable \<Rightarrow>
   promotion option" where
  "promotionBlock lane runId firstUser firstAgent d =
     (if lane = Lane_Agent
      then (if firstUser \<noteq> None then Some Blocked
            else if d_parked d \<noteq> None then Some Blocked
            else if map_option snd firstAgent \<noteq> Some runId
            then Some (if firstAgent \<noteq> None then Blocked else Not_Queued)
            else if d_active d \<noteq> None then Some Blocked else None)
      else (if map_option snd firstUser \<noteq> Some runId
            then Some (if firstUser \<noteq> None then Blocked else Not_Queued)
            else if d_active d \<noteq> None then Some Blocked else None))"

definition dequeueRun ::
  "run_lane \<Rightarrow> (string \<times> string) option \<Rightarrow> (string \<times> string) option \<Rightarrow> durable \<Rightarrow> durable" where
  "dequeueRun lane firstUser firstAgent d =
     (case (if lane = Lane_Agent then firstAgent else None) of
        Some (key, runId) \<Rightarrow> d\<lparr>d_pendingAgent := kv_delete key (d_pendingAgent d)\<rparr>
      | None \<Rightarrow>
          (case firstUser of
             Some (key, runId) \<Rightarrow> d\<lparr>d_pendingUser := kv_delete key (d_pendingUser d)\<rparr>
           | None \<Rightarrow> d))"

definition promotedRecord :: "nat \<Rightarrow> stored_run \<Rightarrow> stored_run" where
  "promotedRecord nextSeq run =
     storedRunEventFieldsV2 nextSeq [] (run\<lparr>r_phase := Admitted, r_previousEventCount := nextSeq\<rparr>)"

definition promoteQueuedRun ::
  "authority_env \<Rightarrow> string option \<Rightarrow> int \<Rightarrow> string \<Rightarrow> durable \<Rightarrow> kernel_error + promotion \<times> durable" where
  "promoteQueuedRun env exec now runId d =
     rbind (livePendingHead env d (d_pendingUser d)) (\<lambda>(firstUser, users).
     rbind (livePendingHead env d (d_pendingAgent d)) (\<lambda>(firstAgent, agents).
     let pruned = users \<noteq> d_pendingUser d \<or> agents \<noteq> d_pendingAgent d;
         d0 = d\<lparr>d_pendingUser := users, d_pendingAgent := agents\<rparr>
     in rbind (if pruned then refreshRecoveryAlarm env exec now d0 else Inr d0) (\<lambda>d1.
     rbind (optionalRun env d1 runId) (\<lambda>found.
       case found of
         None \<Rightarrow> Inr (Not_Queued, d1)
       | Some run \<Rightarrow>
           if r_status run \<noteq> Run_Running \<or> r_phase run \<noteq> Queued then Inr (Not_Queued, d1)
           else case promotionBlock (storedRunLaneV1 run) runId firstUser firstAgent d1 of
               Some outcome \<Rightarrow> Inr (outcome, d1)
             | None \<Rightarrow>
                 let seeded = cursorAt d1 (r_sessionId run)
                 in rbind (requireRun env (promotedRecord (cur_nextSeq (cursorOf seeded)) run)) (\<lambda>promoted.
                    let d2 = runRepairRecordsV1 runId now
                          ((putRun runId (storedRunRecordV2 promoted) (clearRunRepair runId d1))
                             \<lparr>d_active := Some runId\<rparr>)
                    in rbind (commitVisible env Cause_Promotion promoted None d2) (\<lambda>d3.
                       rbind (refreshRecoveryAlarm env exec now
                                (dequeueRun (storedRunLaneV1 run) firstUser firstAgent d3)) (\<lambda>d4.
                         Inr (Promoted seeded (r_snapshot promoted) (r_composition promoted), d4))))))))"

section \<open>Starting, parking and resuming\<close>

definition executingIn ::
  "authority_env \<Rightarrow> string option \<Rightarrow> int \<Rightarrow> string \<Rightarrow> stored_run \<Rightarrow> durable \<Rightarrow> kernel_error + durable" where
  "executingIn env exec now runId run d =
     refreshRecoveryAlarm env exec now
       (putRun runId (storedRunRecordV2 (run\<lparr>r_phase := Executing\<rparr>)) d)"

text \<open>The transaction a Turn starts with: the inputs prepared for it, and its record executing.\<close>

definition startAdmittedRun ::
  "authority_env \<Rightarrow> string option \<Rightarrow> int \<Rightarrow> string \<Rightarrow> durable \<Rightarrow> kernel_error + json option \<times> durable" where
  "startAdmittedRun env exec now runId d =
     rbind (optionalRun env d runId) (\<lambda>found.
       case found of
         None \<Rightarrow> Inl Run_Not_Resumable
       | Some run \<Rightarrow>
           if r_status run \<noteq> Run_Running then Inl Run_Not_Resumable
           else rbind (executingIn env exec now runId run d) (\<lambda>d'. Inr (r_prepared run, d')))"

definition deferRunRecovery ::
  "authority_env \<Rightarrow> string option \<Rightarrow> int \<Rightarrow> string \<Rightarrow> durable \<Rightarrow> kernel_error + durable" where
  "deferRunRecovery env exec now runId d =
     rbind (readRunFrom env d runId False) (\<lambda>found.
       case found of
         None \<Rightarrow> Inl Run_Not_Resumable
       | Some run \<Rightarrow>
           if r_status run \<noteq> Run_Running then Inl Run_Not_Resumable
           else executingIn env exec now runId run d)"

definition parkRun ::
  "authority_env \<Rightarrow> string option \<Rightarrow> int \<Rightarrow> string \<Rightarrow> durable \<Rightarrow> kernel_error + durable" where
  "parkRun env exec now runId d =
     rbind (readRunFrom env d runId False) (\<lambda>found.
       case found of
         None \<Rightarrow> Inl Run_Not_Resumable
       | Some run \<Rightarrow>
           if r_status run \<noteq> Run_Running then Inl Run_Not_Resumable
           else rbind (requireRun env (run\<lparr>r_phase := Parked\<rparr>)) (\<lambda>parked.
             let d1 = (putRun runId (storedRunRecordV2 parked) (clearRunRepair runId d))
                        \<lparr>d_parked := Some runId\<rparr>
             in rbind (commitVisible env Cause_Promotion parked None (releaseActive runId d1)) (\<lambda>d2.
                  refreshRecoveryAlarm env exec now d2)))"

datatype unparking = Resumable | Unpark_Blocked | Gone

definition unparkRun ::
  "authority_env \<Rightarrow> string option \<Rightarrow> int \<Rightarrow> string \<Rightarrow> durable \<Rightarrow> kernel_error + unparking \<times> durable" where
  "unparkRun env exec now runId d =
     (if d_parked d \<noteq> Some runId then Inr (Gone, d)
      else if d_active d \<noteq> None then Inr (Unpark_Blocked, d)
      else rbind (livePendingHead env d (d_pendingUser d)) (\<lambda>(head, users).
        let d0 = d\<lparr>d_pendingUser := users\<rparr>
        in if head \<noteq> None
           then rbind (if users \<noteq> d_pendingUser d then refreshRecoveryAlarm env exec now d0 else Inr d0)
                  (\<lambda>d1. Inr (Unpark_Blocked, d1))
           else rbind (readRunFrom env d0 runId False) (\<lambda>found.
             let d1 = d0\<lparr>d_parked := None\<rparr>
             in case found of
                  None \<Rightarrow> rbind (refreshRecoveryAlarm env exec now d1) (\<lambda>d2. Inr (Gone, d2))
                | Some run \<Rightarrow>
                    if r_status run \<noteq> Run_Running \<or> r_phase run \<noteq> Parked
                    then rbind (refreshRecoveryAlarm env exec now d1) (\<lambda>d2. Inr (Gone, d2))
                    else rbind (requireRun env (run\<lparr>r_phase := Admitted\<rparr>)) (\<lambda>resumed.
                      rbind (commitVisible env Cause_Promotion resumed None
                               (runRepairRecordsV1 runId now
                                 ((putRun runId (storedRunRecordV2 resumed) d1)\<lparr>d_active := Some runId\<rparr>)))
                        (\<lambda>d2.
                      rbind (refreshRecoveryAlarm env exec now d2) (\<lambda>d3. Inr (Resumable, d3)))))))"

datatype giving_way = Yield_Turn | Park_Turn

definition userMessageWaiting ::
  "'a kernel_env_scheme \<Rightarrow> durable \<Rightarrow> string \<Rightarrow> kernel_error + giving_way option" where
  "userMessageWaiting env d runId =
     (if d_active d \<noteq> Some runId \<or> d_pendingUser d = [] then Inr None
      else rbind (optionalRun env d runId) (\<lambda>found.
        Inr (case found of
               None \<Rightarrow> None
             | Some run \<Rightarrow>
                 if r_status run \<noteq> Run_Running then None
                 else if (case r_admission run of
                            None \<Rightarrow> False
                          | Some a \<Rightarrow> (case ad_origin a of
                              Some (Bot_Origin w x y z) \<Rightarrow> True
                            | Some (Voice_Origin x y z) \<Rightarrow> True
                            | _ \<Rightarrow> False))
                 then None
                 else if storedRunLaneV1 run = Lane_User then Some Yield_Turn
                 else if readConversationSessionId d = Some (r_sessionId run) then Some Yield_Turn
                 else if d_parked d \<noteq> None then None else Some Park_Turn)))"

section \<open>The events of a Turn\<close>

definition appendRunEventsIn ::
  "authority_env \<Rightarrow> string option \<Rightarrow> int \<Rightarrow> string \<Rightarrow> session_event list \<Rightarrow> durable \<Rightarrow>
   kernel_error + durable" where
  "appendRunEventsIn env exec now runId durableEvents d =
     rbind (readRunFrom env d runId False) (\<lambda>found.
       case found of
         None \<Rightarrow> Inl Run_Not_Accepted
       | Some run \<Rightarrow>
           rbind (mapError Log_Refused
                    (appendLog (ke_log env) (ke_projector env) (d_log d) (r_sessionId run) durableEvents None))
             (\<lambda>st.
           rbind (requireRun env (storedRunEventFieldsV2 (r_previousEventCount run)
                                    (runEvents run @ durableEvents) run)) (\<lambda>next0.
           rbind (case ae_eventRecords env of
                    None \<Rightarrow> Inr [] | Some hook \<Rightarrow> hook durableEvents (d\<lparr>d_log := st\<rparr>) next0)
             (\<lambda>records.
           rbind (commitVisible env Cause_Events next0 (Some durableEvents)
                    (putRun runId (storedRunRecordV2 next0) (putPackages records (d\<lparr>d_log := st\<rparr>))))
             (\<lambda>d1. refreshRecoveryAlarm env exec now d1)))))"

definition isSessionDisposed :: "event_body \<Rightarrow> bool" where
  "isSessionDisposed b = (case b of Session_Disposed at \<Rightarrow> True | _ \<Rightarrow> False)"

definition persistRunEvents ::
  "authority_env \<Rightarrow> string option \<Rightarrow> int \<Rightarrow> string \<Rightarrow> session_event list \<Rightarrow> durable \<Rightarrow>
   kernel_error + durable" where
  "persistRunEvents env exec now runId events d =
     rbind (mapError Log_Refused
              (decodedEvents (ke_log env)
                 (filter (\<lambda>event. \<not> isSessionDisposed (body event)) events))) (\<lambda>durableEvents.
       if durableEvents = [] then Inr d
       else appendRunEventsIn env exec now runId durableEvents d)"

text \<open>\<open>timestamp0\<close> is the time the appended events are stamped with.\<close>

definition appendQuietSessionEvents ::
  "authority_env \<Rightarrow> string option \<Rightarrow> int \<Rightarrow> string \<Rightarrow> string \<Rightarrow> string \<Rightarrow> nat \<Rightarrow> event_body list \<Rightarrow>
   durable \<Rightarrow> kernel_error + bool \<times> durable" where
  "appendQuietSessionEvents env exec now timestamp0 runId sessionId expectedEventCount bodies d =
     (if bodies = [] then Inr (True, d)
      else if exec \<noteq> None then Inr (False, d)
      else if d_active d \<noteq> None \<or> d_parked d \<noteq> None \<or> d_pendingUser d \<noteq> [] \<or> d_pendingAgent d \<noteq> []
      then Inr (False, d)
      else rbind (mapError Log_Refused (eventCount (d_log d) sessionId)) (\<lambda>count.
        if count \<noteq> expectedEventCount then Inr (False, d)
        else rbind (readRunFrom env d runId False) (\<lambda>found.
          case found of
            None \<Rightarrow> Inr (False, d)
          | Some run \<Rightarrow>
              if r_sessionId run \<noteq> sessionId \<or> r_previousEventCount run + length (runEvents run) \<noteq> count
              then Inr (False, d)
              else rbind (mapError Log_Refused
                       (decodedEvents (ke_log env) (stampFrom timestamp0 count bodies))) (\<lambda>events.
                   rbind (appendRunEventsIn env exec now runId events d) (\<lambda>d'. Inr (True, d'))))))"

section \<open>Settlement\<close>

text \<open>\<open>terminalPackageRecords\<close> binds the hook to the snapshot and to the run's cursor in the admission index.\<close>

definition terminalPackageRecords :: "authority_env \<Rightarrow> json \<Rightarrow> package_hook option" where
  "terminalPackageRecords env snapshot =
     map_option (\<lambda>hook d run. hook snapshot (runIndexKey (r_acceptedAt run) (r_runId run)) d run)
       (ae_terminalRecords env)"

definition withNotification :: "authority_env \<Rightarrow> json \<Rightarrow> completion \<Rightarrow> completion" where
  "withNotification env snapshot result =
     (case ae_notification env snapshot result of
        None \<Rightarrow> result | Some notification \<Rightarrow> result\<lparr>cp_notification := Some notification\<rparr>)"

text \<open>The visible update of a run that has just been settled.\<close>

definition publishSettled :: "authority_env \<Rightarrow> string \<Rightarrow> durable \<Rightarrow> kernel_error + durable" where
  "publishSettled env runId d =
     rbind (readRunFrom env d runId False) (\<lambda>settled.
       case settled of
         None \<Rightarrow> Inr d
       | Some run \<Rightarrow> commitVisible env Cause_Terminal run None d)"

definition completeRun ::
  "authority_env \<Rightarrow> string option \<Rightarrow> int \<Rightarrow> string \<Rightarrow> completion \<Rightarrow> json \<Rightarrow> durable \<Rightarrow>
   kernel_error + durable" where
  "completeRun env exec now runId result snapshot d =
     rbind (completeStoredRun env d runId result (terminalPackageRecords env snapshot)) (\<lambda>(settled, d1).
     rbind (publishSettled env runId d1) (\<lambda>d2.
     rbind (refreshRecoveryAlarm env exec now d2) (\<lambda>d3. Inr (clearRunRepair runId d3))))"

definition failRun ::
  "authority_env \<Rightarrow> string option \<Rightarrow> int \<Rightarrow> string \<Rightarrow> string \<Rightarrow> session_event list \<Rightarrow> jstr \<Rightarrow> durable \<Rightarrow>
   kernel_error + durable" where
  "failRun env exec now timestamp0 runId events failure d =
     rbind (failStoredRun env timestamp0 d runId events (boundedRunFailureV1 failure)
              (ae_failureRecords env)) (\<lambda>(settled, d1).
     rbind (publishSettled env runId d1) (\<lambda>d2.
     rbind (refreshRecoveryAlarm env exec now d2) (\<lambda>d3. Inr (clearRunRepair runId d3))))"

definition DISCARDED_RUN_RECOVERY_FAILURE_V1 :: jstr where
  "DISCARDED_RUN_RECOVERY_FAILURE_V1 = js ''Turn was discarded before recovery could resume it''"

definition settleStoppedParkedRun ::
  "authority_env \<Rightarrow> string option \<Rightarrow> int \<Rightarrow> string \<Rightarrow> string \<Rightarrow> durable \<Rightarrow> kernel_error + bool \<times> durable" where
  "settleStoppedParkedRun env exec now timestamp0 runId d =
     rbind (readRunFrom env d runId False) (\<lambda>found.
       case found of
         None \<Rightarrow> Inr (False, d)
       | Some run \<Rightarrow>
           if r_status run \<noteq> Run_Running \<or> r_phase run \<noteq> Parked \<or> \<not> stopRequested run
           then Inr (False, d)
           else rbind (failStoredRun env timestamp0 d runId (runEvents run)
                         DISCARDED_RUN_RECOVERY_FAILURE_V1 None) (\<lambda>(settled, d1).
                rbind (publishSettled env runId d1) (\<lambda>d2.
                rbind (refreshRecoveryAlarm env exec now (clearRunRepair runId d2)) (\<lambda>d3.
                  Inr (True, d3)))))"

text \<open>\<open>finishTurn\<close> is what \<open>executeAdmittedRun\<close> and \<open>executeResumedRun\<close> do with what the Turn answered. The events of
  \<open>Turn_Failed\<close> are what to fall back on when no record is read: for an admitted run those its error carries, for a resumed
  one those of the record it was resumed with (\<open>durableRun?.events ?? run.events\<close>).\<close>

datatype turn_answer =
    Turn_Completed completion
  | Turn_Parked
  | Turn_Recovery_Required jstr
  | Turn_Failed jstr "session_event list option"

definition failedEvents ::
  "authority_env \<Rightarrow> durable \<Rightarrow> string \<Rightarrow> session_event list option \<Rightarrow> kernel_error + session_event list" where
  "failedEvents env d runId errorEvents =
     rbind (readRun env d runId) (\<lambda>durableRun. Inr (eventsForFailedRun durableRun errorEvents))"

definition finishTurn ::
  "authority_env \<Rightarrow> string option \<Rightarrow> int \<Rightarrow> string \<Rightarrow> string \<Rightarrow> json \<Rightarrow> turn_answer \<Rightarrow> durable \<Rightarrow>
   kernel_error + durable" where
  "finishTurn env exec now timestamp0 runId settings answer d =
     (case answer of
        Turn_Completed result \<Rightarrow>
          completeRun env exec now runId (withNotification env settings result) settings d
      | Turn_Parked \<Rightarrow> parkRun env exec now runId d
      | Turn_Recovery_Required message \<Rightarrow> deferRunRecovery env exec now runId d
      | Turn_Failed message errorEvents \<Rightarrow>
          rbind (failedEvents env d runId errorEvents) (\<lambda>events.
            failRun env exec now timestamp0 runId events message d))"

definition settledTerminalRunResult ::
  "authority_env \<Rightarrow> durable \<Rightarrow> string \<Rightarrow> kernel_error + completion option" where
  "settledTerminalRunResult env d runId =
     rbind (readRun env d runId) (\<lambda>found.
       Inr (case found of
              None \<Rightarrow> None
            | Some run \<Rightarrow>
                if r_status run \<noteq> Run_Failed \<and> r_status run \<noteq> Run_Cancelled then None
                else Some \<lparr>cp_text = (case r_responseText run of None \<Rightarrow> [] | Some t \<Rightarrow> t),
                           cp_events = runEvents run, cp_notification = None\<rparr>))"

definition storedNotification :: "durable \<Rightarrow> string \<Rightarrow> (string \<times> json) option" where
  "storedNotification d runId =
     map_option (\<lambda>intent. (runId, intent)) (kv_get (d_notifications d) (NOTIFICATION_PREFIX @ runId))"

definition terminalRunResult ::
  "authority_env \<Rightarrow> durable \<Rightarrow> string \<Rightarrow> kernel_error + completion option" where
  "terminalRunResult env d runId =
     rbind (readRun env d runId) (\<lambda>found.
       Inr (case found of
              None \<Rightarrow> None
            | Some run \<Rightarrow>
                if r_status run = Run_Cancelled
                then Some \<lparr>cp_text = [], cp_events = runEvents run, cp_notification = None\<rparr>
                else if r_status run \<noteq> Run_Completed then None
                else Some \<lparr>cp_text = (case r_responseText run of None \<Rightarrow> [] | Some t \<Rightarrow> t),
                           cp_events = runEvents run,
                           cp_notification = storedNotification d runId\<rparr>))"

definition completionOf :: "authority_env \<Rightarrow> durable \<Rightarrow> string \<Rightarrow> kernel_error + completion option" where
  "completionOf env d runId =
     rbind (terminalRunResult env d runId) (\<lambda>found.
       case found of
         Some result \<Rightarrow> Inr (Some result) | None \<Rightarrow> settledTerminalRunResult env d runId)"

definition settledReplayResult ::
  "authority_env \<Rightarrow> owned_command \<Rightarrow> durable \<Rightarrow> kernel_error + completion option" where
  "settledReplayResult env c d =
     rbind (readRun env d (oc_runId c)) (\<lambda>found.
       case found of
         None \<Rightarrow> Inr None
       | Some run \<Rightarrow>
           if r_fingerprint run \<noteq> ownedFingerprint c then Inl (Turn_Refused Duplicate)
           else if r_status run = Run_Cancelled \<or> r_status run = Run_Failed
           then Inr (Some \<lparr>cp_text = [], cp_events = runEvents run, cp_notification = None\<rparr>)
           else if r_status run \<noteq> Run_Completed then Inl (Turn_Refused Duplicate)
           else case r_responseText run of
               None \<Rightarrow> Inl Response_Missing
             | Some answer \<Rightarrow>
                 Inr (Some \<lparr>cp_text = answer, cp_events = runEvents run,
                            cp_notification = storedNotification d (oc_runId c)\<rparr>))"

definition discardedRunResult :: "authority_env \<Rightarrow> durable \<Rightarrow> string \<Rightarrow> kernel_error + completion option" where
  "discardedRunResult env d runId =
     rbind (readRun env d runId) (\<lambda>found.
       Inr (case found of
              None \<Rightarrow> None
            | Some run \<Rightarrow>
                if r_status run \<noteq> Run_Cancelled then None
                else Some \<lparr>cp_text = [], cp_events = runEvents run, cp_notification = None\<rparr>))"

text \<open>What a delivery of the command is answered with: its disposition and, once it has settled, the
  completion.\<close>

datatype disposition = Disposed_Settled "completion option" | Disposed_Queued | Disposed_Admitted

definition admissionReceipt ::
  "authority_env \<Rightarrow> owned_command \<Rightarrow> admission_state \<Rightarrow> durable \<Rightarrow> kernel_error + disposition" where
  "admissionReceipt env c state d =
     (case state of
        Replay_Terminal \<Rightarrow>
          rbind (completionOf env d (oc_runId c)) (\<lambda>result. Inr (Disposed_Settled result))
      | Replay_Queued \<Rightarrow> Inr Disposed_Queued
      | Replay_Running \<Rightarrow> Inr Disposed_Admitted)"

section \<open>Records beside a Turn\<close>

definition UNADMITTED_RUN_GENERATION_V1 :: string where
  "UNADMITTED_RUN_GENERATION_V1 = ''unadmitted''"

definition unadmittedRecord :: "owned_command \<Rightarrow> jstr \<Rightarrow> json \<Rightarrow> stored_run" where
  "unadmittedRecord c failure snapshot =
     (let command = oc_command c
      in \<lparr>r_runId = cmd_runId command, r_fingerprint = ownedFingerprint c,
          r_sessionId = cmd_sessionId command, r_acceptedAt = cmd_acceptedAt command,
          r_input = cmd_text command, r_attachments = commandAttachments command,
          r_retryOf = None, r_retriedBy = None, r_messageRunId = None, r_messageAdmittedAt = None,
          r_landedAt = None, r_events = Some [], r_eventRange = Some (0, 0), r_effects = [],
          r_status = Run_Failed, r_responseText = None, r_failure = Some failure, r_phase = Admitted,
          r_stopRequestedAt = None, r_composition = UNADMITTED_RUN_GENERATION_V1, r_mounted = None,
          r_prepared = None, r_snapshot = snapshot, r_previousEventCount = 0,
          r_admission = storedRunAdmissionV1 (cmd_turnType command) (cmd_origin command)
                          (cmd_subagentRole command) (cmd_lane command)\<rparr>)"

definition recordUnadmittedFailure ::
  "'a kernel_env_scheme \<Rightarrow> owned_command \<Rightarrow> jstr \<Rightarrow> json \<Rightarrow> durable \<Rightarrow>
   kernel_error + stored_run option \<times> durable" where
  "recordUnadmittedFailure env c failure snapshot d =
     (if runAt d (oc_runId c) \<noteq> None
      then rbind (optionalRun env d (oc_runId c)) (\<lambda>run. Inr (run, d))
      else rbind (requireRun env (unadmittedRecord c failure snapshot)) (\<lambda>run.
        let d1 = putRun (oc_runId c) (storedRunRecordV2 run) d
        in Inr (Some run,
             d1\<lparr>d_runIndex := kv_put (runIndexKey (cmd_acceptedAt (oc_command c)) (oc_runId c))
                                (oc_runId c) (d_runIndex d1)\<rparr>)))"

definition repinRun ::
  "'a kernel_env_scheme \<Rightarrow> string \<Rightarrow> string \<Rightarrow> durable \<Rightarrow> kernel_error + durable" where
  "repinRun env runId generationId d =
     rbind (optionalRun env d runId) (\<lambda>found.
       case found of
         None \<Rightarrow> Inl Run_Not_Resumable
       | Some run \<Rightarrow>
           if r_status run \<noteq> Run_Running then Inl Run_Not_Resumable
           else if r_composition run = generationId \<or> r_mounted run = Some generationId then Inr d
           else Inr (putRun runId (storedRunRecordV2 (run\<lparr>r_mounted := Some generationId\<rparr>)) d))"

section \<open>Stale runs\<close>

definition settleStaleRun ::
  "authority_env \<Rightarrow> string option \<Rightarrow> int \<Rightarrow> string \<Rightarrow> string \<Rightarrow> durable \<Rightarrow> kernel_error + durable" where
  "settleStaleRun env exec now timestamp0 runId d =
     (if exec = Some runId \<or> d_active d = Some runId then Inr d
      else rbind (readRunFrom env d runId False) (\<lambda>found.
        case found of
          None \<Rightarrow> Inr d
        | Some run \<Rightarrow>
            if r_runId run \<noteq> runId \<or> r_status run \<noteq> Run_Running then Inr d
            else rbind (mapError Log_Refused
                    (readInlineEventsOfTypes (ke_log env) (d_log d) (r_sessionId run) [''turn/end'']
                       0 MAX_SAFE_INTEGER)) (\<lambda>sessionEvents.
              if lv_working (runLivenessV1 (h_dateParse (ke_run env)) (Some run) sessionEvents now
                               TURN_DEADLINE_MS_V1 STALE_RUNNING_RUN_GRACE_MS_V1)
              then Inr d
              else rbind (failStoredRun env timestamp0 d runId (runEvents run)
                            STALE_RUNNING_RUN_FAILURE_V1 (ae_failureRecords env)) (\<lambda>(settled, d1).
                   rbind (publishSettled env runId d1) (\<lambda>d2. refreshRecoveryAlarm env exec now d2)))))"

definition deleteRepair :: "string \<Rightarrow> string \<Rightarrow> durable \<Rightarrow> durable" where
  "deleteRepair key runId d =
     d\<lparr>d_repairDue := kv_delete key (d_repairDue d),
       d_repairRun := kv_delete (repairRunKey runId) (d_repairRun d)\<rparr>"

definition isRunning :: "stored_run option \<Rightarrow> bool" where
  "isRunning found = (case found of None \<Rightarrow> False | Some run \<Rightarrow> r_status run = Run_Running)"

definition waitsItsTurn :: "stored_run option \<Rightarrow> bool" where
  "waitsItsTurn found =
     (case found of None \<Rightarrow> False | Some run \<Rightarrow> r_phase run = Queued \<or> r_phase run = Parked)"

text \<open>The loop over one batch of due repairs; \<open>active\<close> is the active run read before it. The drain of
  publication between two repairs is left to \<open>drainPublication\<close>.\<close>

fun drainRepairs ::
  "authority_env \<Rightarrow> string option \<Rightarrow> int \<Rightarrow> string \<Rightarrow> string option \<Rightarrow> (string \<times> string) list \<Rightarrow>
   durable \<Rightarrow> kernel_error + durable" where
  "drainRepairs env exec now timestamp0 active [] d = Inr d"
| "drainRepairs env exec now timestamp0 active ((key, runId) # due) d =
     (if int (repairDueOf key) > now then Inr d
      else if Some runId = exec \<or> Some runId = active
      then drainRepairs env exec now timestamp0 active due d
      else rbind (optionalRun env d runId) (\<lambda>before.
        if \<not> isRunning before \<or> waitsItsTurn before
        then drainRepairs env exec now timestamp0 active due (deleteRepair key runId d)
        else rbind (settleStaleRun env exec now timestamp0 runId d) (\<lambda>d1.
             rbind (optionalRun env d1 runId) (\<lambda>after.
               drainRepairs env exec now timestamp0 active due
                 (if \<not> isRunning after then deleteRepair key runId d1 else d1)))))"

definition drainDueRepairs ::
  "authority_env \<Rightarrow> string option \<Rightarrow> int \<Rightarrow> string \<Rightarrow> durable \<Rightarrow> kernel_error + durable" where
  "drainDueRepairs env exec now timestamp0 d =
     drainRepairs env exec now timestamp0 (d_active d) (take MAINTENANCE_BATCH_V1 (d_repairDue d)) d"

section \<open>Recovery\<close>

definition recoveredCommand :: "identity \<Rightarrow> stored_run \<Rightarrow> owned_command" where
  "recoveredCommand who run =
     \<lparr>oc_identity = who,
      oc_command = \<lparr>cmd_runId = r_runId run, cmd_retryOf = r_retryOf run, cmd_sessionId = r_sessionId run,
        cmd_acceptedAt = r_acceptedAt run, cmd_text = r_input run,
        cmd_attachments = map (\<lambda>item. (unjs (jstring (jget item ''uploadId'')), item))
                            (jlist (r_attachments run)),
        cmd_turnType = Some (storedRunTurnTypeV1 run), cmd_subagentRole = storedRunSubagentRoleV1 run,
        cmd_origin = (case r_admission run of None \<Rightarrow> None | Some a \<Rightarrow> ad_origin a), cmd_skills = [],
        cmd_lane = Some (storedRunLaneV1 run)\<rparr>\<rparr>"

datatype recovery_outcome =
    Nothing_To_Recover
  | Recovered_Settled string
  | Recovered_Restart stored_run cursor_read json
  | Recovered_Resume stored_run json

definition restartedRecord :: "stored_run \<Rightarrow> stored_run" where
  "restartedRecord run =
     run\<lparr>r_events := Some [], r_eventRange := Some (r_previousEventCount run, r_previousEventCount run),
         r_phase := Admitted\<rparr>"

text \<open>A settlement of recovery: the terminal update, the repair index and the alarm.\<close>

definition settleRecovered ::
  "authority_env \<Rightarrow> string option \<Rightarrow> int \<Rightarrow> string \<Rightarrow> kernel_error + settlement \<times> durable \<Rightarrow>
   kernel_error + recovery_outcome \<times> durable" where
  "settleRecovered env exec now runId settled =
     rbind settled (\<lambda>(outcome, d1).
     rbind (publishSettled env runId d1) (\<lambda>d2.
     rbind (refreshRecoveryAlarm env exec now (clearRunRepair runId d2)) (\<lambda>d3.
       Inr (Recovered_Settled runId, d3))))"

definition journalFailureText :: "authority_env \<Rightarrow> journal_failure \<Rightarrow> jstr" where
  "journalFailureText env failure =
     js ''Invalid durable tool journal: '' @
     (case failure of
        Journal_Refused e \<Rightarrow> ae_journalMessage env e
      | Occurrence_Skipped occurrenceId \<Rightarrow>
          js (''tool occurrence '' @ [CHR 0x22] @ occurrenceId @ [CHR 0x22] @
              '' was skipped before recovery'')
      | No_Durable_Model_Request \<Rightarrow>
          js ''assistant tool occurrences have no durable model request'')"

definition recoverRun ::
  "authority_env \<Rightarrow> string option \<Rightarrow> int \<Rightarrow> string \<Rightarrow> string \<Rightarrow> stored_run \<Rightarrow> durable \<Rightarrow>
   kernel_error + recovery_outcome \<times> durable" where
  "recoverRun env exec now timestamp0 activeRunId run d =
     (let runId = r_runId run;
          fail0 = (\<lambda>failure hook. settleRecovered env exec now runId
                     (failStoredRun env timestamp0 d runId (runEvents run) failure hook))
      in rbind (mapError Log_Refused (ensureLegacyLogDecodable (ke_log env) (d_log d) (r_sessionId run)))
           (\<lambda>_.
         if stopRequested run then fail0 DISCARDED_RUN_RECOVERY_FAILURE_V1 None
         else rbind (mapError Recovery_Refused (planBotRunRecovery (ke_run env) run)) (\<lambda>plan.
           case plan of
             Plan_Complete responseText \<Rightarrow>
               settleRecovered env exec now runId
                 (completeStoredRun env d runId
                    (withNotification env (r_snapshot run)
                      \<lparr>cp_text = responseText, cp_events = runEvents run, cp_notification = None\<rparr>)
                    (terminalPackageRecords env (r_snapshot run)))
           | Plan_Fail failure \<Rightarrow> fail0 failure (ae_failureRecords env)
           | Plan_Invalid_Journal failure \<Rightarrow> fail0 (journalFailureText env failure) (ae_failureRecords env)
           | Plan_Restart \<Rightarrow>
               rbind (mapError Log_Refused
                        (truncateSuffix (ke_projector env) (d_log d) (r_sessionId run)
                           (r_previousEventCount run))) (\<lambda>st.
               let d1 = d\<lparr>d_log := st\<rparr>;
                   seeded = cursorAt d1 (r_sessionId run)
               in rbind (refreshRecoveryAlarm env exec now
                           (putRun activeRunId (storedRunRecordV2 (restartedRecord run)) d1)) (\<lambda>d2.
                    Inr (Recovered_Restart run seeded (r_snapshot run), d2)))
           | Plan_Resume \<Rightarrow>
               rbind (executingIn env exec now activeRunId run d) (\<lambda>d1.
                 Inr (Recovered_Resume run (r_snapshot run), d1)))))"

text \<open>The transaction of \<open>recoverActiveRun\<close> for the run that was active when it was called.\<close>

definition recoverActiveRunIn ::
  "authority_env \<Rightarrow> string option \<Rightarrow> int \<Rightarrow> string \<Rightarrow> string \<Rightarrow> durable \<Rightarrow>
   kernel_error + recovery_outcome \<times> durable" where
  "recoverActiveRunIn env exec now timestamp0 activeRunId d =
     (if d_active d = None \<or> d_active d = exec then Inr (Nothing_To_Recover, d)
      else rbind (readRunFrom env d activeRunId False) (\<lambda>found.
        case found of
          None \<Rightarrow> rbind (refreshRecoveryAlarm env exec now d) (\<lambda>d1. Inr (Nothing_To_Recover, d1))
        | Some run \<Rightarrow>
            if r_status run \<noteq> Run_Running
            then rbind (refreshRecoveryAlarm env exec now (clearRunRepair (r_runId run) d)) (\<lambda>d1.
                   Inr (Nothing_To_Recover, d1))
            else recoverRun env exec now timestamp0 activeRunId run d))"

text \<open>The loop of \<open>recoverQueuedRun\<close> up to what it hands over: the run that is active again, or the one
  that was promoted. \<open>waiters\<close> are the runs a caller of this isolate is waiting to start.\<close>

datatype queue_recovery = Queue_Idle | Queue_Resume string | Queue_Start string cursor_read json string

fun recoverQueuedRun ::
  "nat \<Rightarrow> authority_env \<Rightarrow> string option \<Rightarrow> int \<Rightarrow> string set \<Rightarrow> durable \<Rightarrow>
   kernel_error + queue_recovery \<times> durable" where
  "recoverQueuedRun 0 env exec now waiters d = Inr (Queue_Idle, d)"
| "recoverQueuedRun (Suc attempts) env exec now waiters d =
     (case (if d_pendingUser d = [] then d_parked d else None) of
        Some parkedRunId \<Rightarrow>
          if exec = Some parkedRunId then Inr (Queue_Idle, d)
          else rbind (unparkRun env exec now parkedRunId d) (\<lambda>(unparked, d1).
            case unparked of
              Gone \<Rightarrow> recoverQueuedRun attempts env exec now waiters d1
            | Unpark_Blocked \<Rightarrow> Inr (Queue_Idle, d1)
            | Resumable \<Rightarrow> Inr (Queue_Resume parkedRunId, d1))
      | None \<Rightarrow>
          (case kv_first (if d_pendingUser d = [] then d_pendingAgent d else d_pendingUser d) of
             None \<Rightarrow> Inr (Queue_Idle, d)
           | Some (key, pendingRunId) \<Rightarrow>
               if pendingRunId \<in> waiters \<or> exec = Some pendingRunId then Inr (Queue_Idle, d)
               else rbind (promoteQueuedRun env exec now pendingRunId d) (\<lambda>(promoted, d1).
                 case promoted of
                   Not_Queued \<Rightarrow> recoverQueuedRun attempts env exec now waiters d1
                 | Blocked \<Rightarrow> Inr (Queue_Idle, d1)
                 | Promoted seed settings generationId \<Rightarrow>
                     Inr (Queue_Start pendingRunId seed settings generationId, d1))))"

definition QUEUE_RECOVERY_ATTEMPTS :: nat where
  "QUEUE_RECOVERY_ATTEMPTS = MAX_PENDING_USER_RUNS_V1 + MAX_PENDING_AGENT_RUNS_V1 + 2"

section \<open>The alarm\<close>

text \<open>\<open>recoverActiveRun\<close> up to the Turn it starts, resumes or leaves.\<close>

datatype recovery_step = Recovery_Idle | Recovery_Queue queue_recovery | Recovery_Active recovery_outcome

definition recoverActiveRun ::
  "authority_env \<Rightarrow> string option \<Rightarrow> int \<Rightarrow> string \<Rightarrow> string set \<Rightarrow> durable \<Rightarrow>
   kernel_error + recovery_step \<times> durable" where
  "recoverActiveRun env exec now timestamp0 waiters d =
     (case d_active d of
        None \<Rightarrow>
          rbind (recoverQueuedRun QUEUE_RECOVERY_ATTEMPTS env exec now waiters d) (\<lambda>(outcome, d').
            Inr (Recovery_Queue outcome, d'))
      | Some activeRunId \<Rightarrow>
          if exec = Some activeRunId then Inr (Recovery_Idle, d)
          else rbind (recoverActiveRunIn env exec now timestamp0 activeRunId d) (\<lambda>(outcome, d').
                 Inr (Recovery_Active outcome, d')))"

text \<open>\<open>delivered\<close> is the outcome of the delivery, \<open>inFlight\<close> whether Package work is under way, \<open>deferWork\<close> and
  \<open>settleWork\<close> what the Package does to its own deadlines. A recovery that fails leaves the storage of
  its own transactions; here that is the storage it started on. The alarm is armed again in every
  case.\<close>

datatype alarm_outcome = Alarm_Deferred | Alarm_Queue queue_recovery | Alarm_Recovery recovery_step
  | Alarm_Failed kernel_error

definition alarmRecovery ::
  "authority_env \<Rightarrow> string option \<Rightarrow> int \<Rightarrow> string \<Rightarrow> string set \<Rightarrow> (durable \<Rightarrow> durable) \<Rightarrow> durable \<Rightarrow>
   alarm_outcome \<times> durable" where
  "alarmRecovery env exec now timestamp0 waiters settleWork d =
     (if d_active d = None \<and> (d_pendingUser d \<noteq> [] \<or> d_pendingAgent d \<noteq> [] \<or> d_parked d \<noteq> None)
      then (case recoverQueuedRun QUEUE_RECOVERY_ATTEMPTS env exec now waiters d of
              Inl e \<Rightarrow> (Alarm_Failed e, d)
            | Inr (outcome, d') \<Rightarrow> (Alarm_Queue outcome, d'))
      else let d0 = settleWork d
           in case recoverActiveRun env exec now timestamp0 waiters d0 of
                Inl e \<Rightarrow> (Alarm_Failed e, d0)
              | Inr (outcome, d') \<Rightarrow> (Alarm_Recovery outcome, d'))"

definition alarm ::
  "authority_env \<Rightarrow> string option \<Rightarrow> int \<Rightarrow> string \<Rightarrow> string set \<Rightarrow> bool \<Rightarrow> bool \<Rightarrow>
   (durable \<Rightarrow> durable) \<Rightarrow> (durable \<Rightarrow> durable) \<Rightarrow> durable \<Rightarrow> kernel_error + alarm_outcome \<times> durable" where
  "alarm env exec now timestamp0 waiters delivered inFlight deferWork settleWork d =
     rbind (drainPublication env exec now delivered d) (\<lambda>(again, d1).
     rbind (drainDueRepairs env exec now timestamp0 d1) (\<lambda>d2.
       if exec \<noteq> None \<or> inFlight
       then rbind (refreshRecoveryAlarm env exec now (deferWork d2)) (\<lambda>d3. Inr (Alarm_Deferred, d3))
       else case alarmRecovery env exec now timestamp0 waiters settleWork d2 of
           (outcome, d3) \<Rightarrow>
             rbind (refreshRecoveryAlarm env exec now d3) (\<lambda>d4. Inr (outcome, d4))))"

section \<open>Stop\<close>

text \<open>The transaction of \<open>stopRun\<close> (app/shell/turn.ts). \<open>receipts\<close> are the stored stop receipts, by key; a
  receipt is here the fingerprint and the time of its command. \<open>requeue\<close> gives back what a delivery Turn
  drained.\<close>

definition STOP_RECEIPT_PREFIX :: string where "STOP_RECEIPT_PREFIX = ''stop-receipt:''"

definition stopRunIn ::
  "authority_env \<Rightarrow> string option \<Rightarrow> int \<Rightarrow> string \<Rightarrow> (string \<Rightarrow> durable \<Rightarrow> durable) \<Rightarrow> identity \<Rightarrow>
   string \<Rightarrow> string \<Rightarrow> (jstr \<times> string) kv \<Rightarrow> durable \<Rightarrow>
   kernel_error + stored_run \<times> (jstr \<times> string) kv \<times> durable" where
  "stopRunIn env exec now timestamp0 requeue who commandId runId receipts d =
     (let print = botStopCommandFingerprintV1 (js (id_user who)) (js (id_bot who)) runId;
          receiptKey = STOP_RECEIPT_PREFIX @ commandId;
          existing = kv_get receipts receiptKey
      in rbind (validateIdentity who d) (\<lambda>_.
         if existing \<noteq> None \<and> map_option fst existing \<noteq> Some print then Inl Stop_Key_Reused
         else rbind (optionalRun env d runId) (\<lambda>found.
           case found of
             None \<Rightarrow> Inl Run_Not_Accepted
           | Some run \<Rightarrow>
               if existing \<noteq> None then Inr (run, receipts, d)
               else if r_status run \<noteq> Run_Running
                       \<or> (\<exists>event \<in> set (runEvents run). isTurnEnd (body event))
               then Inl Stop_Already_Terminal
               else let stopAt = (case r_stopRequestedAt run of Some t \<Rightarrow> t | None \<Rightarrow> timestamp0)
                    in rbind (requireRun env (run\<lparr>r_stopRequestedAt := Some stopAt\<rparr>)) (\<lambda>stopped.
                       let d1 = putRun runId stopped d;
                           d2 = (if storedRunIsDeliveryV1 run then requeue runId d1 else d1)
                       in rbind (refreshRecoveryAlarm env exec now d2) (\<lambda>d3.
                            Inr (stopped, kv_put receiptKey (print, stopAt) receipts, d3))))))"

end
