(* ===== verification/Scheduler.thy ===== *)
theory Scheduler
  imports Authority
begin

text \<open>
  What the authority promises about admitted runs, without records, logs or publication: a scheduler
  with one active run, at most one parked run and two queues. \<open>sched_step\<close> are its steps, and
  \<open>sched_ok\<close> its invariant: every run that has not settled is either the active one, the parked one or
  in the queue of its lane, and nothing else claims the active or the parked slot.
\<close>

section \<open>The scheduler\<close>

record shape =
  sh_status :: run_status
  sh_phase :: run_phase
  sh_lane :: run_lane
  sh_at :: string
  sh_print :: jstr
  sh_stop :: bool

record sched =
  sc_run :: "string \<Rightarrow> shape option"
  sc_active :: "string option"
  sc_parked :: "string option"
  sc_users :: "string kv"
  sc_agents :: "string kv"

definition live_queued :: "sched \<Rightarrow> string \<Rightarrow> bool" where
  "live_queued s k \<longleftrightarrow>
     (case sc_run s k of
        None \<Rightarrow> False | Some sh \<Rightarrow> sh_status sh = Run_Running \<and> sh_phase sh = Queued)"

definition setRun :: "string \<Rightarrow> shape \<Rightarrow> sched \<Rightarrow> sched" where
  "setRun k sh s = s\<lparr>sc_run := (sc_run s)(k \<mapsto> sh)\<rparr>"

definition leaveSched :: "string \<Rightarrow> shape \<Rightarrow> sched \<Rightarrow> sched" where
  "leaveSched k sh s =
     (if sh_phase sh = Parked then (if sc_parked s = Some k then s\<lparr>sc_parked := None\<rparr> else s)
      else if sh_phase sh \<noteq> Queued then s
      else if sh_lane sh = Lane_Agent
      then s\<lparr>sc_agents := kv_delete (pendingAgentRunKey (sh_at sh) k) (sc_agents s)\<rparr>
      else s\<lparr>sc_users := kv_delete (pendingUserRunKey (sh_at sh) k) (sc_users s)\<rparr>)"

definition releaseSched :: "string \<Rightarrow> sched \<Rightarrow> sched" where
  "releaseSched k s = (if sc_active s = Some k then s\<lparr>sc_active := None\<rparr> else s)"

definition enqueueSched :: "string \<Rightarrow> shape \<Rightarrow> sched \<Rightarrow> sched" where
  "enqueueSched k sh s =
     (if sh_lane sh = Lane_Agent
      then s\<lparr>sc_agents := kv_put (pendingAgentRunKey (sh_at sh) k) k (sc_agents s)\<rparr>
      else s\<lparr>sc_users := kv_put (pendingUserRunKey (sh_at sh) k) k (sc_users s)\<rparr>)"

inductive sched_step :: "sched \<Rightarrow> sched \<Rightarrow> bool" where
  admit_start: "sc_run s k = None \<Longrightarrow> isPublicIdentifier k \<Longrightarrow> sc_active s = None \<Longrightarrow>
    sh_status sh = Run_Running \<Longrightarrow> sh_phase sh = Admitted \<Longrightarrow>
    sched_step s ((setRun k sh s)\<lparr>sc_active := Some k\<rparr>)"
| admit_queue: "sc_run s k = None \<Longrightarrow> isPublicIdentifier k \<Longrightarrow>
    sh_status sh = Run_Running \<Longrightarrow> sh_phase sh = Queued \<Longrightarrow>
    (sh_lane sh = Lane_Agent \<Longrightarrow> length (sc_agents s) < MAX_PENDING_AGENT_RUNS_V1) \<Longrightarrow>
    (sh_lane sh \<noteq> Lane_Agent \<Longrightarrow> length (sc_users s) < MAX_PENDING_USER_RUNS_V1) \<Longrightarrow>
    sched_step s (enqueueSched k sh (setRun k sh s))"
| refuse: "sc_run s k = None \<Longrightarrow> isPublicIdentifier k \<Longrightarrow> sh_status sh \<noteq> Run_Running \<Longrightarrow>
    sched_step s (setRun k sh s)"
| prune_user: "sc_users s = (key, k) # rest \<Longrightarrow> \<not> live_queued s k \<Longrightarrow>
    sched_step s (s\<lparr>sc_users := rest\<rparr>)"
| prune_agent: "sc_agents s = (key, k) # rest \<Longrightarrow> \<not> live_queued s k \<Longrightarrow>
    sched_step s (s\<lparr>sc_agents := rest\<rparr>)"
| promote_user: "sc_users s = (key, k) # rest \<Longrightarrow> sc_run s k = Some sh \<Longrightarrow> live_queued s k \<Longrightarrow>
    sh_lane sh \<noteq> Lane_Agent \<Longrightarrow> sc_active s = None \<Longrightarrow>
    sched_step s ((setRun k (sh\<lparr>sh_phase := Admitted\<rparr>) s)
      \<lparr>sc_active := Some k, sc_users := kv_delete key (sc_users s)\<rparr>)"
| promote_agent: "sc_users s = [] \<Longrightarrow> sc_parked s = None \<Longrightarrow> sc_agents s = (key, k) # rest \<Longrightarrow>
    sc_run s k = Some sh \<Longrightarrow> live_queued s k \<Longrightarrow> sh_lane sh = Lane_Agent \<Longrightarrow> sc_active s = None \<Longrightarrow>
    sched_step s ((setRun k (sh\<lparr>sh_phase := Admitted\<rparr>) s)
      \<lparr>sc_active := Some k, sc_agents := kv_delete key (sc_agents s)\<rparr>)"
| run_phase: "sc_active s = Some k \<Longrightarrow> sc_run s k = Some sh \<Longrightarrow> phase \<in> {Admitted, Executing} \<Longrightarrow>
    sched_step s (setRun k (sh\<lparr>sh_phase := phase\<rparr>) s)"
| park: "sc_active s = Some k \<Longrightarrow> sc_run s k = Some sh \<Longrightarrow> sc_parked s = None \<Longrightarrow>
    sched_step s ((setRun k (sh\<lparr>sh_phase := Parked\<rparr>) s)\<lparr>sc_parked := Some k, sc_active := None\<rparr>)"
| unpark: "sc_parked s = Some k \<Longrightarrow> sc_run s k = Some sh \<Longrightarrow> sc_active s = None \<Longrightarrow> sc_users s = [] \<Longrightarrow>
    sched_step s ((setRun k (sh\<lparr>sh_phase := Admitted\<rparr>) s)\<lparr>sc_parked := None, sc_active := Some k\<rparr>)"
| stop: "sc_run s k = Some sh \<Longrightarrow> sh_stop sh \<le> b \<Longrightarrow> sched_step s (setRun k (sh\<lparr>sh_stop := b\<rparr>) s)"
| settle: "sc_run s k = Some sh \<Longrightarrow> status \<noteq> Run_Running \<Longrightarrow> sh_status sh \<noteq> Run_Completed \<Longrightarrow>
    (sh_stop sh \<Longrightarrow> status = Run_Cancelled) \<Longrightarrow>
    sched_step s (releaseSched k (leaveSched k sh (setRun k (sh\<lparr>sh_status := status\<rparr>) s)))"

inductive_cases sched_stepE: "sched_step s s'"

text \<open>Where an unsettled run is waiting to be carried on.\<close>

definition claimed :: "sched \<Rightarrow> string \<Rightarrow> shape \<Rightarrow> bool" where
  "claimed s k sh \<longleftrightarrow>
     (case sh_phase sh of
        Queued \<Rightarrow>
          (if sh_lane sh = Lane_Agent
           then kv_get (sc_agents s) (pendingAgentRunKey (sh_at sh) k) = Some k
           else kv_get (sc_users s) (pendingUserRunKey (sh_at sh) k) = Some k)
      | Parked \<Rightarrow> sc_parked s = Some k
      | _ \<Rightarrow> sc_active s = Some k)"

definition entries_ok :: "(string \<Rightarrow> string \<Rightarrow> string) \<Rightarrow> bool \<Rightarrow> sched \<Rightarrow> string kv \<Rightarrow> bool" where
  "entries_ok key agent s m \<longleftrightarrow>
     (\<forall>(x, k) \<in> set m. \<exists>sh. sc_run s k = Some sh \<and> x = key (sh_at sh) k \<and>
        (sh_lane sh = Lane_Agent \<longleftrightarrow> agent))"

definition sched_ok :: "sched \<Rightarrow> bool" where
  "sched_ok s \<longleftrightarrow>
     (\<forall>k sh. sc_run s k = Some sh \<longrightarrow> isPublicIdentifier k) \<and>
     (\<forall>k. sc_active s = Some k \<longrightarrow> (\<exists>sh. sc_run s k = Some sh \<and> sh_status sh = Run_Running \<and>
        sh_phase sh \<in> {Admitted, Executing})) \<and>
     (\<forall>k. sc_parked s = Some k \<longrightarrow> (\<exists>sh. sc_run s k = Some sh \<and> sh_status sh = Run_Running \<and>
        sh_phase sh = Parked)) \<and>
     (\<forall>k sh. sc_run s k = Some sh \<longrightarrow> sh_status sh = Run_Running \<longrightarrow> claimed s k sh) \<and>
     entries_ok pendingUserRunKey False s (sc_users s) \<and> entries_ok pendingAgentRunKey True s (sc_agents s) \<and>
     length (sc_users s) \<le> MAX_PENDING_USER_RUNS_V1 \<and>
     length (sc_agents s) \<le> MAX_PENDING_AGENT_RUNS_V1 \<and>
     kv_sorted (sc_users s) \<and> kv_sorted (sc_agents s)"

section \<open>The invariant\<close>

lemma identifier_no_colon:
  assumes "isPublicIdentifier i"
  shows "CHR '':'' \<notin> set i"
proof -
  obtain c cs where i: "i = c # cs" using assms by (cases i) (auto simp: isPublicIdentifier_def)
  have start: "\<not> identifierStart (CHR '':'')" by (simp add: identifierStart_def)
  have "identifierStart c" and "\<forall>x \<in> set cs. identifierStart x \<or> x \<in> set ''._-''"
    using assms by (auto simp: isPublicIdentifier_def i list_all_iff)
  with start show ?thesis by (auto simp: i)
qed

lemma last_colon:
  "CHR '':'' \<notin> set k \<Longrightarrow> CHR '':'' \<notin> set k' \<Longrightarrow> a @ '':'' @ k = a' @ '':'' @ k' \<Longrightarrow> a = a' \<and> k = k'"
proof -
  assume k: "CHR '':'' \<notin> set k" "CHR '':'' \<notin> set k'" and e: "a @ '':'' @ k = a' @ '':'' @ k'"
  then have "rev k @ CHR '':'' # rev a = rev k' @ CHR '':'' # rev a'"
    by (metis append.assoc append_Cons append_Nil rev.simps(2) rev_append rev_rev_ident)
  then have "takeWhile (\<lambda>c. c \<noteq> CHR '':'') (rev k @ CHR '':'' # rev a) =
      takeWhile (\<lambda>c. c \<noteq> CHR '':'') (rev k' @ CHR '':'' # rev a')" by simp
  moreover have "takeWhile (\<lambda>c. c \<noteq> CHR '':'') (rev x @ CHR '':'' # y) = rev x"
    if "CHR '':'' \<notin> set x" for x y
    using that by (subst takeWhile_append2) auto
  ultimately have "k = k'" using k by simp
  with e show ?thesis by simp
qed

lemma pendingKeys_inject:
  assumes "isPublicIdentifier k" and "isPublicIdentifier k'"
  shows "pendingUserRunKey a k = pendingUserRunKey a' k' \<longleftrightarrow> a = a' \<and> k = k'"
    and "pendingAgentRunKey a k = pendingAgentRunKey a' k' \<longleftrightarrow> a = a' \<and> k = k'"
  using last_colon [OF identifier_no_colon [OF assms(1)] identifier_no_colon [OF assms(2)], of a a']
  by (auto simp: pendingUserRunKey_def pendingAgentRunKey_def)

lemma setRun_simps [simp]:
  "sc_run (setRun k sh s) = (sc_run s)(k \<mapsto> sh)" "sc_active (setRun k sh s) = sc_active s"
  "sc_parked (setRun k sh s) = sc_parked s" "sc_users (setRun k sh s) = sc_users s"
  "sc_agents (setRun k sh s) = sc_agents s"
  by (simp_all add: setRun_def)

lemma leaveSched_simps [simp]:
  "sc_run (leaveSched k sh s) = sc_run s" "sc_active (leaveSched k sh s) = sc_active s"
  "sc_parked (leaveSched k sh s) =
     (if sh_phase sh = Parked \<and> sc_parked s = Some k then None else sc_parked s)"
  "sc_users (leaveSched k sh s) =
     (if sh_phase sh = Queued \<and> sh_lane sh \<noteq> Lane_Agent
      then kv_delete (pendingUserRunKey (sh_at sh) k) (sc_users s) else sc_users s)"
  "sc_agents (leaveSched k sh s) =
     (if sh_phase sh = Queued \<and> sh_lane sh = Lane_Agent
      then kv_delete (pendingAgentRunKey (sh_at sh) k) (sc_agents s) else sc_agents s)"
  by (auto simp: leaveSched_def)

lemma releaseSched_simps [simp]:
  "sc_run (releaseSched k s) = sc_run s" "sc_parked (releaseSched k s) = sc_parked s"
  "sc_users (releaseSched k s) = sc_users s" "sc_agents (releaseSched k s) = sc_agents s"
  "sc_active (releaseSched k s) = (if sc_active s = Some k then None else sc_active s)"
  by (auto simp: releaseSched_def)

lemma enqueueSched_simps [simp]:
  "sc_run (enqueueSched k sh s) = sc_run s" "sc_active (enqueueSched k sh s) = sc_active s"
  "sc_parked (enqueueSched k sh s) = sc_parked s"
  "sc_users (enqueueSched k sh s) =
     (if sh_lane sh = Lane_Agent then sc_users s
      else kv_put (pendingUserRunKey (sh_at sh) k) k (sc_users s))"
  "sc_agents (enqueueSched k sh s) =
     (if sh_lane sh = Lane_Agent then kv_put (pendingAgentRunKey (sh_at sh) k) k (sc_agents s)
      else sc_agents s)"
  by (auto simp: enqueueSched_def)

text \<open>The parts of the invariant, one field at a time.\<close>

definition slots_ok :: "sched \<Rightarrow> bool" where
  "slots_ok s \<longleftrightarrow>
     (\<forall>k sh. sc_run s k = Some sh \<longrightarrow> isPublicIdentifier k) \<and>
     (\<forall>k. sc_active s = Some k \<longrightarrow> (\<exists>sh. sc_run s k = Some sh \<and> sh_status sh = Run_Running \<and>
        sh_phase sh \<in> {Admitted, Executing})) \<and>
     (\<forall>k. sc_parked s = Some k \<longrightarrow> (\<exists>sh. sc_run s k = Some sh \<and> sh_status sh = Run_Running \<and>
        sh_phase sh = Parked))"

definition claims_ok :: "sched \<Rightarrow> bool" where
  "claims_ok s \<longleftrightarrow> (\<forall>k sh. sc_run s k = Some sh \<longrightarrow> sh_status sh = Run_Running \<longrightarrow> claimed s k sh)"

definition queues_ok :: "sched \<Rightarrow> bool" where
  "queues_ok s \<longleftrightarrow>
     entries_ok pendingUserRunKey False s (sc_users s) \<and> entries_ok pendingAgentRunKey True s (sc_agents s) \<and>
     length (sc_users s) \<le> MAX_PENDING_USER_RUNS_V1 \<and>
     length (sc_agents s) \<le> MAX_PENDING_AGENT_RUNS_V1 \<and>
     kv_sorted (sc_users s) \<and> kv_sorted (sc_agents s)"

lemma sched_ok_parts: "sched_ok s \<longleftrightarrow> slots_ok s \<and> claims_ok s \<and> queues_ok s"
  by (simp add: sched_ok_def slots_ok_def claims_ok_def queues_ok_def)

lemma entries_ok_cong:
  assumes "entries_ok key agent s m" and "set m' \<subseteq> set m"
    and "\<And>k sh. sc_run s k = Some sh \<Longrightarrow>
      \<exists>sh'. sc_run s' k = Some sh' \<and> sh_at sh' = sh_at sh \<and> sh_lane sh' = sh_lane sh"
  shows "entries_ok key agent s' m'"
  unfolding entries_ok_def
proof clarify
  fix x k
  assume "(x, k) \<in> set m'"
  with assms(1,2) obtain sh where "sc_run s k = Some sh" "x = key (sh_at sh) k" "(sh_lane sh = Lane_Agent) = agent"
    unfolding entries_ok_def by blast
  with assms(3) show "\<exists>sh. sc_run s' k = Some sh \<and> x = key (sh_at sh) k \<and> (sh_lane sh = Lane_Agent) = agent"
    by metis
qed

lemma entries_ok_put:
  assumes "entries_ok key agent s m" and "sc_run s' k = Some sh" and "(sh_lane sh = Lane_Agent) = agent"
    and "\<And>k sh. sc_run s k = Some sh \<Longrightarrow>
      \<exists>sh'. sc_run s' k = Some sh' \<and> sh_at sh' = sh_at sh \<and> sh_lane sh' = sh_lane sh"
  shows "entries_ok key agent s' (kv_put (key (sh_at sh) k) k m)"
proof -
  have "entries_ok key agent s' m" using assms(1) subset_refl assms(4) by (rule entries_ok_cong)
  with assms(2,3) set_kv_put [of "key (sh_at sh) k" k m] show ?thesis by (fastforce simp: entries_ok_def)
qed

lemma step_keeps_at:
  assumes "sched_step s s'" and "sc_run s k = Some sh"
  shows "\<exists>sh'. sc_run s' k = Some sh' \<and> sh_at sh' = sh_at sh \<and> sh_lane sh' = sh_lane sh"
  using assms by (cases rule: sched_step.cases) auto

lemma kv_sorted_tail: "kv_sorted (e # m) \<Longrightarrow> kv_sorted m"
  by (simp add: kv_sorted_def)

lemma step_sorted:
  assumes "sched_step s s'" and "kv_sorted (sc_users s) \<and> kv_sorted (sc_agents s)"
  shows "kv_sorted (sc_users s') \<and> kv_sorted (sc_agents s')"
  using assms by (cases rule: sched_step.cases) (auto dest: kv_sorted_tail)

lemma length_kv_delete_Cons [simp]: "length (kv_delete key (e # m)) \<le> Suc (length m)"
  using length_kv_delete [of key "e # m"] by simp

lemma step_users:
  assumes "sched_step s s'"
  shows "set (sc_users s') \<subseteq> set (sc_users s) \<and> length (sc_users s') \<le> length (sc_users s) \<or>
    (\<exists>k sh. sc_run s' k = Some sh \<and> sh_lane sh \<noteq> Lane_Agent \<and> sc_users s' = kv_put (pendingUserRunKey (sh_at sh) k) k (sc_users s) \<and>
       length (sc_users s) < MAX_PENDING_USER_RUNS_V1)"
  using assms
proof (cases rule: sched_step.cases)
  case (admit_queue k sh)
  then show ?thesis by (cases "sh_lane sh = Lane_Agent") auto
qed (intro disjI1, auto simp: length_kv_delete)

lemma step_agents:
  assumes "sched_step s s'"
  shows "set (sc_agents s') \<subseteq> set (sc_agents s) \<and> length (sc_agents s') \<le> length (sc_agents s) \<or>
    (\<exists>k sh. sc_run s' k = Some sh \<and> sh_lane sh = Lane_Agent \<and> sc_agents s' = kv_put (pendingAgentRunKey (sh_at sh) k) k (sc_agents s) \<and>
       length (sc_agents s) < MAX_PENDING_AGENT_RUNS_V1)"
  using assms
proof (cases rule: sched_step.cases)
  case (admit_queue k sh)
  then show ?thesis by (cases "sh_lane sh = Lane_Agent") auto
qed (intro disjI1, auto simp: length_kv_delete)

lemma queues_step:
  assumes "sched_step s s'" and "queues_ok s"
  shows "queues_ok s'"
proof -
  note keep = step_keeps_at [OF assms(1)]
  have "entries_ok pendingUserRunKey False s' (sc_users s') \<and> length (sc_users s') \<le> MAX_PENDING_USER_RUNS_V1"
    using step_users [OF assms(1)]
  proof (elim disjE exE conjE)
    assume "set (sc_users s') \<subseteq> set (sc_users s)" and "length (sc_users s') \<le> length (sc_users s)"
    then show ?thesis using assms(2) entries_ok_cong [OF _ _ keep, where key = pendingUserRunKey and m = "sc_users s" and agent = False]
      by (auto simp: queues_ok_def)
  next
    fix k sh
    assume "sc_run s' k = Some sh" and "sh_lane sh \<noteq> Lane_Agent"
      and put: "sc_users s' = kv_put (pendingUserRunKey (sh_at sh) k) k (sc_users s)"
      and "length (sc_users s) < MAX_PENDING_USER_RUNS_V1"
    then show ?thesis
      using assms(2) entries_ok_put [OF _ _ _ keep, where key = pendingUserRunKey and m = "sc_users s" and agent = False]
        length_kv_put [of "pendingUserRunKey (sh_at sh) k" k "sc_users s"]
      by (auto simp: queues_ok_def)
  qed
  moreover have "entries_ok pendingAgentRunKey True s' (sc_agents s') \<and>
      length (sc_agents s') \<le> MAX_PENDING_AGENT_RUNS_V1"
    using step_agents [OF assms(1)]
  proof (elim disjE exE conjE)
    assume "set (sc_agents s') \<subseteq> set (sc_agents s)" and "length (sc_agents s') \<le> length (sc_agents s)"
    then show ?thesis using assms(2) entries_ok_cong [OF _ _ keep, where key = pendingAgentRunKey and m = "sc_agents s" and agent = True]
      by (auto simp: queues_ok_def)
  next
    fix k sh
    assume "sc_run s' k = Some sh" and "sh_lane sh = Lane_Agent"
      and put: "sc_agents s' = kv_put (pendingAgentRunKey (sh_at sh) k) k (sc_agents s)"
      and "length (sc_agents s) < MAX_PENDING_AGENT_RUNS_V1"
    then show ?thesis
      using assms(2) entries_ok_put [OF _ _ _ keep, where key = pendingAgentRunKey and m = "sc_agents s" and agent = True]
        length_kv_put [of "pendingAgentRunKey (sh_at sh) k" k "sc_agents s"]
      by (auto simp: queues_ok_def)
  qed
  ultimately show ?thesis using step_sorted [OF assms(1)] assms(2) by (simp add: queues_ok_def)
qed

lemma slots_step:
  assumes "sched_step s s'" and "slots_ok s"
  shows "slots_ok s'"
  using assms
proof (cases rule: sched_step.cases)
  case (settle k sh status)
  then show ?thesis using assms(2) by (auto simp: slots_ok_def)
qed (use assms(2) in \<open>auto simp: slots_ok_def live_queued_def\<close>)

lemma kv_get_tail:
  "kv_get ((key, k) # rest) x = Some v \<Longrightarrow> v \<noteq> k \<Longrightarrow> kv_get rest x = Some v"
  by (auto simp: kv_get_def split: if_splits)

text \<open>A step that touches one run leaves every other claim to a claim of the step before.\<close>

lemma claims_okI:
  assumes "claims_ok s" and "\<And>x. x \<noteq> k \<Longrightarrow> sc_run s' x = sc_run s x"
    and "\<And>sh. sc_run s' k = Some sh \<Longrightarrow> sh_status sh = Run_Running \<Longrightarrow> claimed s' k sh"
    and "\<And>x sh. x \<noteq> k \<Longrightarrow> sc_run s x = Some sh \<Longrightarrow> sh_status sh = Run_Running \<Longrightarrow> claimed s x sh \<Longrightarrow>
      claimed s' x sh"
  shows "claims_ok s'"
  using assms by (metis claims_ok_def)

lemma claims_step:
  assumes "sched_step s s'" and ok: "slots_ok s" "queues_ok s" "claims_ok s"
  shows "claims_ok s'"
proof -
  have ids: "isPublicIdentifier k" if "sc_run s k = Some sh" for k sh
    using that ok(1) by (auto simp: slots_ok_def)
  have userEntry: "\<exists>sh. sc_run s k = Some sh \<and> key = pendingUserRunKey (sh_at sh) k"
    if "sc_users s = (key, k) # rest" for key k rest
    using that ok(2) by (auto simp: queues_ok_def entries_ok_def)
  have agentEntry: "\<exists>sh. sc_run s k = Some sh \<and> key = pendingAgentRunKey (sh_at sh) k"
    if "sc_agents s = (key, k) # rest" for key k rest
    using that ok(2) by (auto simp: queues_ok_def entries_ok_def)
  note claim = claims_okI [OF ok(3)]
  from assms(1) show ?thesis
  proof (cases rule: sched_step.cases)
    case (admit_start k sh)
    show ?thesis by (rule claim [where k = k])
        (use admit_start in \<open>auto simp: claimed_def split: run_phase.splits if_splits\<close>)
  next
    case (admit_queue k sh)
    show ?thesis by (rule claim [where k = k])
        (use admit_queue ids in \<open>auto simp: claimed_def pendingKeys_inject split: run_phase.splits if_splits\<close>)
  next
    case (refuse k sh)
    show ?thesis by (rule claim [where k = k])
        (use refuse in \<open>auto simp: claimed_def split: run_phase.splits if_splits\<close>)
  next
    case (prune_user key k rest)
    show ?thesis
    proof (rule claim [where k = k])
      fix sh
      assume "sc_run s' k = Some sh" and "sh_status sh = Run_Running"
      with prune_user ok(3) show "claimed s' k sh"
        by (auto simp: claims_ok_def claimed_def live_queued_def split: run_phase.splits)
    qed (use prune_user in \<open>auto simp: claimed_def dest: kv_get_tail split: run_phase.splits if_splits\<close>)
  next
    case (prune_agent key k rest)
    show ?thesis
    proof (rule claim [where k = k])
      fix sh
      assume "sc_run s' k = Some sh" and "sh_status sh = Run_Running"
      with prune_agent ok(3) show "claimed s' k sh"
        by (auto simp: claims_ok_def claimed_def live_queued_def split: run_phase.splits)
    qed (use prune_agent in \<open>auto simp: claimed_def dest: kv_get_tail split: run_phase.splits if_splits\<close>)
  next
    case (promote_user key k rest sh)
    from userEntry [OF promote_user(2)] promote_user(3)
    have key: "key = pendingUserRunKey (sh_at sh) k" by auto
    show ?thesis by (rule claim [where k = k])
        (use promote_user(1,3-6) key ids in
          \<open>auto simp: claimed_def pendingKeys_inject split: run_phase.splits if_splits\<close>)
  next
    case (promote_agent key k rest sh)
    from agentEntry [OF promote_agent(4)] promote_agent(5)
    have key: "key = pendingAgentRunKey (sh_at sh) k" by auto
    show ?thesis by (rule claim [where k = k])
        (use promote_agent(1-3,5-8) key ids in
          \<open>auto simp: claimed_def pendingKeys_inject split: run_phase.splits if_splits\<close>)
  next
    case (run_phase k sh phase)
    show ?thesis by (rule claim [where k = k])
        (use run_phase in \<open>auto simp: claimed_def split: run_phase.splits if_splits\<close>)
  next
    case (park k sh)
    show ?thesis by (rule claim [where k = k])
        (use park in \<open>auto simp: claimed_def split: run_phase.splits if_splits\<close>)
  next
    case (unpark k sh)
    show ?thesis by (rule claim [where k = k])
        (use unpark in \<open>auto simp: claimed_def split: run_phase.splits if_splits\<close>)
  next
    case (stop k sh b)
    show ?thesis by (rule claim [where k = k])
        (use stop ok(3) in \<open>auto simp: claims_ok_def claimed_def split: run_phase.splits if_splits\<close>)
  next
    case (settle k sh status)
    show ?thesis by (rule claim [where k = k])
        (use settle ids in \<open>auto simp: claimed_def pendingKeys_inject split: run_phase.splits if_splits\<close>)
  qed
qed

lemma sched_step_ok: "sched_step s s' \<Longrightarrow> sched_ok s \<Longrightarrow> sched_ok s'"
  using slots_step queues_step claims_step by (simp add: sched_ok_parts)

lemma sched_steps_ok: "sched_step\<^sup>*\<^sup>* s s' \<Longrightarrow> sched_ok s \<Longrightarrow> sched_ok s'"
  by (induction rule: rtranclp_induct) (auto intro: sched_step_ok)

section \<open>What a later state keeps of a run\<close>

definition later :: "shape \<Rightarrow> shape \<Rightarrow> bool" where
  "later sh sh' \<longleftrightarrow>
     sh_at sh' = sh_at sh \<and> sh_lane sh' = sh_lane sh \<and> sh_print sh' = sh_print sh \<and>
     (sh_status sh \<noteq> Run_Running \<longrightarrow> sh_status sh' \<noteq> Run_Running) \<and>
     (sh_status sh = Run_Completed \<longrightarrow> sh_status sh' = Run_Completed) \<and>
     (sh_stop sh \<longrightarrow> sh_stop sh' \<and> sh_status sh' \<in> {sh_status sh, Run_Cancelled})"

lemma later_trans: "later a b \<Longrightarrow> later b c \<Longrightarrow> later a c"
  by (auto simp: later_def)

lemma sched_step_later:
  "sched_step s s' \<Longrightarrow> sc_run s k = Some sh \<Longrightarrow> \<exists>sh'. sc_run s' k = Some sh' \<and> later sh sh'"
  by (cases rule: sched_step.cases) (auto simp: later_def)

lemma sched_steps_later:
  "sched_step\<^sup>*\<^sup>* s s' \<Longrightarrow> sc_run s k = Some sh \<Longrightarrow> \<exists>sh'. sc_run s' k = Some sh' \<and> later sh sh'"
proof (induction rule: rtranclp_induct)
  case base
  then show ?case by (auto simp: later_def)
next
  case (step s1 s2)
  then show ?case using sched_step_later later_trans by blast
qed

end
