(* ===== verification/Authority_Frame.thy ===== *)
theory Authority_Frame
  imports Scheduler
begin

text \<open>
  What the operations of the authority leave alone: the log operations keep every run's identity and
  shape, reads return the stored run, and publication, repair, notification and Package records do
  not touch the scheduler.
\<close>

section \<open>The scheduler a storage stands for\<close>

definition shapeOf :: "stored_run \<Rightarrow> shape" where
  "shapeOf run = \<lparr>sh_status = r_status run, sh_phase = r_phase run, sh_lane = storedRunLaneV1 run,
     sh_at = r_acceptedAt run, sh_print = r_fingerprint run, sh_stop = stopRequested run\<rparr>"

definition schedOf :: "durable \<Rightarrow> sched" where
  "schedOf d = \<lparr>sc_run = (\<lambda>k. map_option shapeOf (runAt d k)), sc_active = d_active d,
     sc_parked = d_parked d, sc_users = d_pendingUser d, sc_agents = d_pendingAgent d\<rparr>"

definition keys_ok :: "durable \<Rightarrow> bool" where
  "keys_ok d \<longleftrightarrow> (\<forall>k run. runAt d k = Some run \<longrightarrow> r_runId run = k)"

definition sameRun :: "stored_run \<Rightarrow> stored_run \<Rightarrow> bool" where
  "sameRun run run' \<longleftrightarrow> r_runId run' = r_runId run \<and> shapeOf run' = shapeOf run \<and>
     r_stopRequestedAt run' = r_stopRequestedAt run \<and> r_fingerprint run' = r_fingerprint run"

lemma sameRun_refl [simp]: "sameRun run run"
  by (simp add: sameRun_def)

lemma sameRun_trans: "sameRun a b \<Longrightarrow> sameRun b c \<Longrightarrow> sameRun a c"
  by (simp add: sameRun_def)

definition runs_kept :: "log_store \<Rightarrow> log_store \<Rightarrow> bool" where
  "runs_kept st st' \<longleftrightarrow> (\<forall>k. rel_option sameRun (kv_get (ls_runs st) k) (kv_get (ls_runs st') k))"

lemma runs_kept_same: "ls_runs st' = ls_runs st \<Longrightarrow> runs_kept st st'"
  by (simp add: runs_kept_def option.rel_refl)

lemma runs_kept_refl [simp]: "runs_kept st st"
  by (rule runs_kept_same) simp

lemma rel_sameRun_trans: "rel_option sameRun x y \<Longrightarrow> rel_option sameRun y z \<Longrightarrow> rel_option sameRun x z"
  by (cases x; cases y; cases z) (auto intro: sameRun_trans)

lemma runs_kept_trans: "runs_kept st st' \<Longrightarrow> runs_kept st' st'' \<Longrightarrow> runs_kept st st''"
  unfolding runs_kept_def using rel_sameRun_trans by metis

section \<open>The log\<close>

lemma putChunks_runs: "putChunks st sessionId n chunk parts = Inr st' \<Longrightarrow> ls_runs st' = ls_runs st"
  by (induction parts arbitrary: st chunk) (auto split: if_splits)

lemma storedEvent_runs: "storedEvent c st sessionId event = Inr (entry, st') \<Longrightarrow> ls_runs st' = ls_runs st"
  by (auto simp: storedEvent_def Let_def rbind_Inr_iff dest: putChunks_runs split: if_splits sum.splits)

lemma storedEvents_runs:
  "storedEvents c st sessionId events = Inr (entries, st') \<Longrightarrow> ls_runs st' = ls_runs st"
  by (induction events arbitrary: st entries) (auto simp: rbind_Inr_iff dest!: storedEvent_runs)

lemma putPage_runs [simp]: "ls_runs (putPage sessionId n page st) = ls_runs st"
  by (simp add: putPage_def)

lemma putIndex_runs [simp]: "ls_runs (putIndex sessionId n k st) = ls_runs st"
  by (simp add: putIndex_def)

lemma deletePage_runs [simp]: "ls_runs (deletePage sessionId n st) = ls_runs st"
  by (simp add: deletePage_def)

lemma fillPages_runs:
  "fillPages c sessionId entries page n dirty count st = Inr (page', n', dirty', count', st') \<Longrightarrow>
   ls_runs st' = ls_runs st"
  by (induction c sessionId entries page n dirty count st rule: fillPages.induct)
    (auto simp: Let_def split: if_splits)

lemma appendStored_runs: "appendStored c st sessionId index entries = Inr st' \<Longrightarrow> ls_runs st' = ls_runs st"
  by (auto simp: appendStored_def Let_def rbind_Inr_iff dest!: fillPages_runs split: if_splits)

lemma withHeads_runs: "withHeads st r = Inr st' \<Longrightarrow> ls_runs st' = ls_runs st"
  by (auto simp: withHeads_def split: sum.splits)

lemma clearPages_runs: "clearPages sessionId pages st = Inr st' \<Longrightarrow> ls_runs st' = ls_runs st"
  by (induction pages arbitrary: st) (auto simp: rbind_Inr_iff deletePagePayloads_def)

lemma clearPaged_runs: "clearPaged sessionId st = Inr st' \<Longrightarrow> ls_runs st' = ls_runs st"
  by (auto simp: clearPaged_def rbind_Inr_iff dest: clearPages_runs)

lemma rebaseRun_same: "rebaseRun sessionId boundary (k, run) = Inr (k', run') \<Longrightarrow> k' = k \<and> sameRun run run'"
  by (auto simp: rebaseRun_def sameRun_def shapeOf_def storedRunLaneV1_def stopRequested_def split: if_splits option.splits prod.splits)

lemma rmap_rebase_get:
  "rmap (rebaseRun sessionId boundary) m = Inr m' \<Longrightarrow> rel_option sameRun (kv_get m k) (kv_get m' k)"
proof (induction m arbitrary: m')
  case (Cons e m)
  obtain x run where e: "e = (x, run)" by (cases e)
  obtain e' rest where r: "rebaseRun sessionId boundary (x, run) = Inr e'" "rmap (rebaseRun sessionId boundary) m = Inr rest"
    "m' = e' # rest"
    using Cons.prems by (auto simp: e rbind_Inr_iff)
  obtain run' where "e' = (x, run')" "sameRun run run'" using r(1) rebaseRun_same by (cases e') blast
  with Cons.IH [OF r(2)] r(3) show ?case by (auto simp: e kv_get_def)
qed simp

lemma rebaseRunRanges_runs: "rebaseRunRanges c st sessionId previous rewritten = Inr st' \<Longrightarrow> runs_kept st st'"
  by (auto simp: rebaseRunRanges_def runs_kept_def Let_def rbind_Inr_iff intro: rmap_rebase_get
      option.rel_refl split: if_splits)

lemma rewriteLog_runs:
  assumes "rewriteLog c projector st sessionId events = Inr st'"
  shows "runs_kept st st'"
proof -
  obtain previous st1 st4 st5 where st1: "clearPaged sessionId st = Inr st1"
    and st4: "ls_runs st4 = ls_runs st1"
    and st5: "\<exists>decoded. rebaseRunRanges c st4 sessionId previous decoded = Inr st5"
    and st': "ls_runs st' = ls_runs st5"
    using assms
    by (auto simp: rewriteLog_def rbind_Inr_iff Let_def dest!: withHeads_runs
        dest: storedEvents_runs appendStored_runs split: if_splits) (metis storedEvents_runs appendStored_runs putIndex_runs)+
  have "runs_kept st4 st5" using st5 rebaseRunRanges_runs by blast
  then have "runs_kept st st5" using clearPaged_runs [OF st1] st4 by (simp add: runs_kept_def)
  then show ?thesis using st' by (simp add: runs_kept_def)
qed

lemma migrate_runs: "migrate c projector st sessionId = Inr (events, st') \<Longrightarrow> runs_kept st st'"
  by (auto simp: migrate_def rbind_Inr_iff dest: rewriteLog_runs split: option.splits)

lemma migrateLegacy_runs: "migrateLegacyBlobIfPresent c projector st sessionId = Inr st' \<Longrightarrow> runs_kept st st'"
  by (auto simp: migrateLegacyBlobIfPresent_def rbind_Inr_iff dest: migrate_runs split: if_splits)

lemma appendLog_runs:
  assumes "appendLog c projector st sessionId events epoch = Inr st'"
  shows "runs_kept st st'"
proof (cases "events = []")
  case True
  with assms show ?thesis by (simp add: appendLog_def)
next
  case False
  then obtain index st1 where st1: "runs_kept st st1" and st': "ls_runs st' = ls_runs st1"
    using assms
    by (auto simp: appendLog_def rbind_Inr_iff dest!: withHeads_runs split: option.splits if_splits)
      (metis appendStored_runs storedEvents_runs migrate_runs runs_kept_refl)+
  then show ?thesis by (simp add: runs_kept_def)
qed

lemma deleteEntryPayloads_runs [simp]: "ls_runs (deleteEntryPayloads sessionId entries st) = ls_runs st"
  by simp

lemma truncatePages_runs:
  "truncatePages sessionId startSeq pages n st = Inr (n', st') \<Longrightarrow> ls_runs st' = ls_runs st"
  by (induction sessionId startSeq pages n st rule: truncatePages.induct)
    (auto simp: rbind_Inr_iff Let_def deletePagePayloads_def split: if_splits)

lemma truncateSuffix_runs: "truncateSuffix projector st sessionId n = Inr st' \<Longrightarrow> runs_kept st st'"
  by (auto simp: truncateSuffix_def rbind_Inr_iff Let_def intro!: runs_kept_same
      dest!: withHeads_runs truncatePages_runs split: if_splits option.splits)

section \<open>Reads\<close>

definition env_ok :: "'a kernel_env_scheme \<Rightarrow> bool" where
  "env_ok env \<longleftrightarrow> (\<forall>i. h_runId (ke_run env) i \<longrightarrow> isPublicIdentifier i)"

lemma mapError_Inr_iff [simp]: "mapError f r = Inr x \<longleftrightarrow> r = Inr x"
  by (cases r) (simp_all add: mapError_def)

lemma requireRun_Inr:
  assumes "requireRun env run = Inr run'"
  shows "run' = run\<lparr>r_events := Some (runEvents run)\<rparr> \<and> h_runId (ke_run env) (r_runId run)"
proof
  show "run' = run\<lparr>r_events := Some (runEvents run)\<rparr>"
    using requireStoredRun_Inr assms by (auto simp: requireRun_def)
  show "h_runId (ke_run env) (r_runId run)"
    using assms by (auto simp: requireRun_def requireStoredRunRecordV1_def rbind_Inr_iff)
qed

lemma shapeOf_update [simp]:
  "shapeOf (run\<lparr>r_events := e\<rparr>) = shapeOf run"
  "shapeOf (run\<lparr>r_eventRange := g\<rparr>) = shapeOf run"
  "shapeOf (run\<lparr>r_phase := p\<rparr>) = (shapeOf run)\<lparr>sh_phase := p\<rparr>"
  "shapeOf (run\<lparr>r_status := t\<rparr>) = (shapeOf run)\<lparr>sh_status := t\<rparr>"
  "shapeOf (run\<lparr>r_responseText := x\<rparr>) = shapeOf run"
  "shapeOf (run\<lparr>r_failure := y\<rparr>) = shapeOf run"
  "shapeOf (run\<lparr>r_previousEventCount := n\<rparr>) = shapeOf run"
  "shapeOf (run\<lparr>r_mounted := z\<rparr>) = shapeOf run"
  "shapeOf (run\<lparr>r_retriedBy := z\<rparr>) = shapeOf run"
  "shapeOf (run\<lparr>r_stopRequestedAt := z\<rparr>) = (shapeOf run)\<lparr>sh_stop := truthy z \<noteq> None\<rparr>"
  by (simp_all add: shapeOf_def storedRunLaneV1_def stopRequested_def)

lemma shapeOf_stored [simp]:
  "shapeOf (storedRunRecordV2 run) = shapeOf run"
  "shapeOf (storedRunEventFieldsV2 n events run) = shapeOf run"
  by (simp_all add: storedRunRecordV2_def storedRunEventFieldsV2_def)

lemma shapeOf_simps [simp]:
  "sh_status (shapeOf run) = r_status run" "sh_phase (shapeOf run) = r_phase run"
  "sh_lane (shapeOf run) = storedRunLaneV1 run" "sh_at (shapeOf run) = r_acceptedAt run"
  "sh_print (shapeOf run) = r_fingerprint run" "sh_stop (shapeOf run) = stopRequested run"
  by (simp_all add: shapeOf_def)

lemma r_runId_stored [simp]:
  "r_runId (storedRunRecordV2 run) = r_runId run"
  "r_runId (storedRunEventFieldsV2 n events run) = r_runId run"
  "r_stopRequestedAt (storedRunRecordV2 run) = r_stopRequestedAt run"
  "r_stopRequestedAt (storedRunEventFieldsV2 n events run) = r_stopRequestedAt run"
  "r_fingerprint (storedRunRecordV2 run) = r_fingerprint run"
  "r_fingerprint (storedRunEventFieldsV2 n events run) = r_fingerprint run"
  by (simp_all add: storedRunRecordV2_def storedRunEventFieldsV2_def)

lemma optionalRun_Some:
  "optionalRun env d k = Inr (Some run) \<Longrightarrow>
   \<exists>run0. runAt d k = Some run0 \<and> sameRun run0 run \<and> h_runId (ke_run env) (r_runId run0)"
  by (auto simp: optionalRun_def optionalStoredRun_def rbind_Inr_iff sameRun_def
      dest!: requireRun_Inr [unfolded requireRun_def mapError_Inr_iff] split: option.splits)

lemma optionalRun_None: "optionalRun env d k = Inr None \<longleftrightarrow> runAt d k = None"
  by (auto simp: optionalRun_def optionalStoredRun_def rbind_Inr_iff split: option.splits)

lemma hydrateWith_Inr: "hydrateWith f env d run = Inr run' \<Longrightarrow> sameRun run run'"
  by (auto simp: hydrateWith_def rbind_Inr_iff sameRun_def dest!: requireRun_Inr
      split: option.splits if_splits)

lemma readRunFrom_Some:
  assumes "readRunFrom env d k display = Inr (Some run)"
  shows "\<exists>run0. runAt d k = Some run0 \<and> sameRun run0 run \<and> h_runId (ke_run env) (r_runId run0)"
proof -
  obtain run1 where "optionalRun env d k = Inr (Some run1)"
    "hydrateWith ((if display then readDisplayRange else readRange) (ke_log env)) env d run1 = Inr run"
    using assms by (auto simp: readRunFrom_def rbind_Inr_iff split: option.splits)
  from optionalRun_Some [OF this(1)] hydrateWith_Inr [OF this(2)] show ?thesis
    by (auto simp: sameRun_def)
qed

lemma hydratedRun_readRunFrom: "hydratedRun env d k = readRunFrom env d k False"
  by (simp add: hydratedRun_def readRunFrom_def)

lemma readRunFrom_None: "readRunFrom env d k display = Inr None \<Longrightarrow> runAt d k = None"
  by (auto simp: readRunFrom_def rbind_Inr_iff optionalRun_None split: option.splits)

section \<open>Frames\<close>

definition sameSched :: "durable \<Rightarrow> durable \<Rightarrow> bool" where
  "sameSched d d' \<longleftrightarrow> (\<forall>k. rel_option sameRun (runAt d k) (runAt d' k)) \<and> d_active d' = d_active d \<and>
     d_parked d' = d_parked d \<and> d_pendingUser d' = d_pendingUser d \<and>
     d_pendingAgent d' = d_pendingAgent d"

lemma rel_option_shape: "rel_option sameRun x y \<Longrightarrow> map_option shapeOf y = map_option shapeOf x"
  by (cases x; cases y) (auto simp: sameRun_def)

lemma sameSched_schedOf:
  assumes "sameSched d d'"
  shows "schedOf d' = schedOf d"
proof -
  have "map_option shapeOf (runAt d' k) = map_option shapeOf (runAt d k)" for k
    using assms rel_option_shape [of "runAt d k" "runAt d' k"] by (simp add: sameSched_def)
  with assms show ?thesis by (simp add: schedOf_def sameSched_def)
qed

lemma sameSched_keys: "sameSched d d' \<Longrightarrow> keys_ok d \<Longrightarrow> keys_ok d'"
  unfolding sameSched_def keys_ok_def by (metis option_rel_Some2 sameRun_def)

lemma sameSchedI:
  "d_log d' = d_log d \<Longrightarrow> d_active d' = d_active d \<Longrightarrow> d_parked d' = d_parked d \<Longrightarrow>
   d_pendingUser d' = d_pendingUser d \<Longrightarrow> d_pendingAgent d' = d_pendingAgent d \<Longrightarrow> sameSched d d'"
  by (simp add: sameSched_def runAt_def option.rel_refl)

lemma sameSched_refl [simp]: "sameSched d d"
  by (rule sameSchedI) simp_all

lemma sameSched_trans: "sameSched a b \<Longrightarrow> sameSched b c \<Longrightarrow> sameSched a c"
  unfolding sameSched_def using rel_sameRun_trans by metis

lemma sameSched_log: "runs_kept (d_log d) st \<Longrightarrow> sameSched d (d\<lparr>d_log := st\<rparr>)"
  by (simp add: sameSched_def runs_kept_def runAt_def)

lemma runAt_update [simp]:
  "runAt (d\<lparr>d_active := a\<rparr>) = runAt d" "runAt (d\<lparr>d_parked := p\<rparr>) = runAt d"
  "runAt (d\<lparr>d_pendingUser := u\<rparr>) = runAt d" "runAt (d\<lparr>d_pendingAgent := g\<rparr>) = runAt d"
  "runAt (d\<lparr>d_runIndex := i\<rparr>) = runAt d" "runAt (d\<lparr>d_fences := f\<rparr>) = runAt d"
  "runAt (d\<lparr>d_fenceMarks := fm\<rparr>) = runAt d" "runAt (d\<lparr>d_repairDue := rd\<rparr>) = runAt d"
  "runAt (d\<lparr>d_repairRun := rr\<rparr>) = runAt d" "runAt (d\<lparr>d_identity := who\<rparr>) = runAt d"
  "runAt (d\<lparr>d_notifications := n\<rparr>) = runAt d" "runAt (d\<lparr>d_packages := pk\<rparr>) = runAt d"
  "runAt (d\<lparr>d_publication := pb\<rparr>) = runAt d" "runAt (d\<lparr>d_alarm := al\<rparr>) = runAt d"
  by (simp_all add: runAt_def fun_eq_iff)

lemma schedOf_update [simp]:
  "schedOf (d\<lparr>d_active := a\<rparr>) = (schedOf d)\<lparr>sc_active := a\<rparr>"
  "schedOf (d\<lparr>d_parked := p\<rparr>) = (schedOf d)\<lparr>sc_parked := p\<rparr>"
  "schedOf (d\<lparr>d_pendingUser := u\<rparr>) = (schedOf d)\<lparr>sc_users := u\<rparr>"
  "schedOf (d\<lparr>d_pendingAgent := g\<rparr>) = (schedOf d)\<lparr>sc_agents := g\<rparr>"
  "schedOf (d\<lparr>d_runIndex := i\<rparr>) = schedOf d" "schedOf (d\<lparr>d_fences := f\<rparr>) = schedOf d"
  "schedOf (d\<lparr>d_fenceMarks := fm\<rparr>) = schedOf d" "schedOf (d\<lparr>d_repairDue := rd\<rparr>) = schedOf d"
  "schedOf (d\<lparr>d_repairRun := rr\<rparr>) = schedOf d" "schedOf (d\<lparr>d_identity := who\<rparr>) = schedOf d"
  "schedOf (d\<lparr>d_notifications := n\<rparr>) = schedOf d" "schedOf (d\<lparr>d_packages := pk\<rparr>) = schedOf d"
  "schedOf (d\<lparr>d_publication := pb\<rparr>) = schedOf d" "schedOf (d\<lparr>d_alarm := al\<rparr>) = schedOf d"
  by (simp_all add: schedOf_def)

lemma keys_ok_update [simp]:
  "keys_ok (d\<lparr>d_active := a\<rparr>) = keys_ok d" "keys_ok (d\<lparr>d_parked := p\<rparr>) = keys_ok d"
  "keys_ok (d\<lparr>d_pendingUser := u\<rparr>) = keys_ok d" "keys_ok (d\<lparr>d_pendingAgent := g\<rparr>) = keys_ok d"
  "keys_ok (d\<lparr>d_runIndex := i\<rparr>) = keys_ok d" "keys_ok (d\<lparr>d_fences := f\<rparr>) = keys_ok d"
  "keys_ok (d\<lparr>d_fenceMarks := fm\<rparr>) = keys_ok d" "keys_ok (d\<lparr>d_repairDue := rd\<rparr>) = keys_ok d"
  "keys_ok (d\<lparr>d_repairRun := rr\<rparr>) = keys_ok d" "keys_ok (d\<lparr>d_identity := who\<rparr>) = keys_ok d"
  "keys_ok (d\<lparr>d_notifications := n\<rparr>) = keys_ok d" "keys_ok (d\<lparr>d_packages := pk\<rparr>) = keys_ok d"
  "keys_ok (d\<lparr>d_publication := pb\<rparr>) = keys_ok d" "keys_ok (d\<lparr>d_alarm := al\<rparr>) = keys_ok d"
  by (simp_all add: keys_ok_def)

lemma schedOf_simps [simp]:
  "sc_run (schedOf d) k = map_option shapeOf (runAt d k)" "sc_active (schedOf d) = d_active d"
  "sc_parked (schedOf d) = d_parked d" "sc_users (schedOf d) = d_pendingUser d"
  "sc_agents (schedOf d) = d_pendingAgent d"
  by (simp_all add: schedOf_def)

lemma runKey_inject [simp]: "runKey a = runKey b \<longleftrightarrow> a = b"
  by (simp add: runKey_def)

lemma runAt_putRun [simp]: "runAt (putRun k run d) x = (if x = k then Some run else runAt d x)"
  by (simp add: runAt_def putRun_def)

lemma putRun_fields [simp]:
  "d_active (putRun k run d) = d_active d" "d_parked (putRun k run d) = d_parked d"
  "d_pendingUser (putRun k run d) = d_pendingUser d" "d_pendingAgent (putRun k run d) = d_pendingAgent d"
  "d_publication (putRun k run d) = d_publication d" "d_alarm (putRun k run d) = d_alarm d"
  "d_notifications (putRun k run d) = d_notifications d" "d_identity (putRun k run d) = d_identity d"
  "d_fences (putRun k run d) = d_fences d"
  by (simp_all add: putRun_def)

lemma schedOf_putRun [simp]: "schedOf (putRun k run d) = setRun k (shapeOf run) (schedOf d)"
  by (simp add: schedOf_def setRun_def fun_eq_iff)

lemma keys_ok_putRun: "keys_ok d \<Longrightarrow> r_runId run = k \<Longrightarrow> keys_ok (putRun k run d)"
  by (simp add: keys_ok_def)

lemma schedOf_leaveQueue [simp]:
  "schedOf (leaveQueueV1 run d) = leaveSched (r_runId run) (shapeOf run) (schedOf d)"
  by (simp add: leaveQueueV1_def leaveSched_def)

lemma keys_ok_leaveQueue [simp]: "keys_ok (leaveQueueV1 run d) = keys_ok d"
  by (simp add: leaveQueueV1_def)

lemma schedOf_releaseActive [simp]: "schedOf (releaseActive k d) = releaseSched k (schedOf d)"
  by (simp add: releaseActive_def releaseSched_def)

lemma keys_ok_releaseActive [simp]: "keys_ok (releaseActive k d) = keys_ok d"
  by (simp add: releaseActive_def)

lemma schedOf_beside [simp]:
  "schedOf (putPackages records d) = schedOf d" "keys_ok (putPackages records d) = keys_ok d"
  "schedOf (putNotification note d) = schedOf d" "keys_ok (putNotification note d) = keys_ok d"
  "schedOf (clearRunRepair k d) = schedOf d" "keys_ok (clearRunRepair k d) = keys_ok d"
  "schedOf (runRepairRecordsV1 k t d) = schedOf d" "keys_ok (runRepairRecordsV1 k t d) = keys_ok d"
  "schedOf (deleteRepair key k d) = schedOf d" "keys_ok (deleteRepair key k d) = keys_ok d"
  by (auto simp: putPackages_def putNotification_def clearRunRepair_def runRepairRecordsV1_def
      deleteRepair_def Let_def split: option.splits)

lemma beside_fields [simp]:
  "d_publication (putPackages records d) = d_publication d" "d_alarm (putPackages records d) = d_alarm d"
  "d_publication (putNotification note d) = d_publication d" "d_alarm (putNotification note d) = d_alarm d"
  "d_publication (clearRunRepair k d) = d_publication d" "d_alarm (clearRunRepair k d) = d_alarm d"
  "d_publication (runRepairRecordsV1 k t d) = d_publication d" "d_alarm (runRepairRecordsV1 k t d) = d_alarm d"
  "d_publication (deleteRepair key k d) = d_publication d" "d_alarm (deleteRepair key k d) = d_alarm d"
  by (auto simp: putPackages_def putNotification_def clearRunRepair_def runRepairRecordsV1_def
      deleteRepair_def Let_def split: option.splits)

lemma refresh_Inr:
  "refreshRecoveryAlarm env exec now d = Inr d' \<Longrightarrow>
   d' = d\<lparr>d_alarm := (if recoveryDeadlines env exec now d = [] then None
                     else Some (min_list (recoveryDeadlines env exec now d)))\<rparr>"
  by (auto simp: refreshRecoveryAlarm_def rbind_Inr_iff Let_def)

lemma refresh_sched:
  "refreshRecoveryAlarm env exec now d = Inr d' \<Longrightarrow> schedOf d' = schedOf d \<and> keys_ok d' = keys_ok d"
  using refresh_Inr by fastforce

lemma commitVisible_Inr:
  "commitVisible env cause run events d = Inr d' \<Longrightarrow> \<exists>p. d' = d\<lparr>d_publication := p\<rparr>"
  by (auto simp: commitVisible_def Let_def rbind_Inr_iff)

lemma commitVisible_sched:
  "commitVisible env cause run events d = Inr d' \<Longrightarrow> schedOf d' = schedOf d \<and> keys_ok d' = keys_ok d"
  using commitVisible_Inr by fastforce

lemma publishSettled_sched:
  "publishSettled env k d = Inr d' \<Longrightarrow> schedOf d' = schedOf d \<and> keys_ok d' = keys_ok d"
  by (auto simp: publishSettled_def rbind_Inr_iff dest: commitVisible_sched split: option.splits)

lemma schedOf_log: "runs_kept (d_log d) st \<Longrightarrow> schedOf (d\<lparr>d_log := st\<rparr>) = schedOf d"
  by (rule sameSched_schedOf [OF sameSched_log])

lemma keys_ok_log: "runs_kept (d_log d) st \<Longrightarrow> keys_ok d \<Longrightarrow> keys_ok (d\<lparr>d_log := st\<rparr>)"
  by (rule sameSched_keys [OF sameSched_log])

lemma commitSuffix_kept: "commitSuffixV1 env d sessionId n events = Inr d' \<Longrightarrow>
    \<exists>st. d' = d\<lparr>d_log := st\<rparr> \<and> runs_kept (d_log d) st"
proof -
  assume c: "commitSuffixV1 env d sessionId n events = Inr d'"
  have "d = d\<lparr>d_log := d_log d\<rparr>" by simp
  then have "\<exists>st. d = d\<lparr>d_log := st\<rparr> \<and> runs_kept (d_log d) st" using runs_kept_refl by metis
  then show ?thesis using c
    by (auto simp: commitSuffixV1_def rbind_Inr_iff Let_def dest: appendLog_runs split: if_splits)
qed

end
