(* ===== verification/Authority_Steps.thy ===== *)
theory Authority_Steps
  imports Authority_Frame
begin

text \<open>
  Every transaction of the authority is a run of the scheduler: \<open>follows d d'\<close> says that from a storage
  that satisfies the invariant the scheduler of \<open>d'\<close> is reached from the one of \<open>d\<close> by its steps. The
  transactions that end by arming the alarm also leave \<open>alarmed\<close>: owed work has an alarm.
\<close>

section \<open>Following the scheduler\<close>

definition follows :: "durable \<Rightarrow> durable \<Rightarrow> bool" where
  "follows d d' \<longleftrightarrow>
     (keys_ok d \<and> sched_ok (schedOf d) \<longrightarrow> sched_step\<^sup>*\<^sup>* (schedOf d) (schedOf d') \<and> keys_ok d')"

definition workOwed :: "durable \<Rightarrow> bool" where
  "workOwed d \<longleftrightarrow> d_active d \<noteq> None \<or> d_parked d \<noteq> None \<or> d_pendingUser d \<noteq> [] \<or>
     d_pendingAgent d \<noteq> [] \<or> pb_pending (d_publication d) \<noteq> []"

definition alarmed :: "durable \<Rightarrow> bool" where
  "alarmed d \<longleftrightarrow> (workOwed d \<longrightarrow> d_alarm d \<noteq> None)"

definition carries :: "durable \<Rightarrow> durable \<Rightarrow> bool" where
  "carries d d' \<longleftrightarrow>
     (keys_ok d \<and> sched_ok (schedOf d) \<longrightarrow> follows d d' \<and> (alarmed d \<longrightarrow> alarmed d'))"

lemma follows_refl [simp]: "follows d d"
  by (simp add: follows_def)

lemma follows_trans: "follows d d1 \<Longrightarrow> follows d1 d2 \<Longrightarrow> follows d d2"
  unfolding follows_def by (meson rtranclp_trans sched_steps_ok)

lemma carries_refl [simp]: "carries d d"
  by (simp add: carries_def)

lemma carries_trans: "carries d d1 \<Longrightarrow> carries d1 d2 \<Longrightarrow> carries d d2"
  unfolding carries_def by (meson follows_def follows_trans sched_steps_ok)

lemma follows_same: "schedOf d' = schedOf d \<Longrightarrow> (keys_ok d \<Longrightarrow> keys_ok d') \<Longrightarrow> follows d d'"
  by (simp add: follows_def)

lemma follows_eq:
  "follows d d1 \<Longrightarrow> schedOf d' = schedOf d1 \<and> keys_ok d' = keys_ok d1 \<Longrightarrow> follows d d'"
  by (simp add: follows_def)

lemma followsI:
  "(keys_ok d \<Longrightarrow> sched_ok (schedOf d) \<Longrightarrow> sched_step\<^sup>*\<^sup>* (schedOf d) (schedOf d') \<and> keys_ok d') \<Longrightarrow>
   follows d d'"
  by (simp add: follows_def)

lemma carries_follows: "carries d d' \<Longrightarrow> follows d d'"
  by (simp add: carries_def follows_def)

lemma carriesI: "(keys_ok d \<Longrightarrow> sched_ok (schedOf d) \<Longrightarrow> carries d d') \<Longrightarrow> carries d d'"
  by (simp add: carries_def)

lemma carries_sameI:
  assumes "follows d d'"
    and "d_active d' = d_active d" "d_parked d' = d_parked d" "d_pendingUser d' = d_pendingUser d"
      "d_pendingAgent d' = d_pendingAgent d" "d_publication d' = d_publication d" "d_alarm d' = d_alarm d"
  shows "carries d d'"
  using assms by (simp add: carries_def alarmed_def workOwed_def)

lemma refresh_alarmed: "refreshRecoveryAlarm env exec now d = Inr d' \<Longrightarrow> alarmed d'"
  by (auto simp: alarmed_def workOwed_def recoveryDeadlines_def dest!: refresh_Inr)

lemma refresh_carries:
  assumes "follows d d1" and "refreshRecoveryAlarm env exec now d1 = Inr d2"
  shows "carries d d2"
  using assms refresh_alarmed [OF assms(2)] refresh_sched [OF assms(2)] follows_eq
  by (auto simp: carries_def)

lemma alarmed_beside [simp]:
  "alarmed (clearRunRepair k d) = alarmed d" "alarmed (deleteRepair key k d) = alarmed d"
  by (auto simp: alarmed_def workOwed_def clearRunRepair_def deleteRepair_def Let_def split: option.splits)

lemma carries_beside:
  "carries d (clearRunRepair k d)" "carries d (deleteRepair key k d)"
  by (simp_all add: carries_def follows_same)

section \<open>Records\<close>

lemma setRun_same: "sc_run s k = Some sh \<Longrightarrow> setRun k sh s = s"
  by (simp add: setRun_def fun_upd_idem)

lemma setRun_twice [simp]: "setRun k sh' (setRun k sh s) = setRun k sh' s"
  by (simp add: setRun_def)

lemma setRun_comm: "k \<noteq> k' \<Longrightarrow> setRun k sh (setRun k' sh' s) = setRun k' sh' (setRun k sh s)"
  by (simp add: setRun_def fun_upd_twist)

lemma requireRun_shape:
  assumes "requireRun env run = Inr run'"
  shows "shapeOf run' = shapeOf run \<and> r_runId run' = r_runId run"
  using requireRun_Inr [OF assms] by simp

lemma requireRun_public:
  "env_ok env \<Longrightarrow> requireRun env run = Inr run' \<Longrightarrow> isPublicIdentifier (r_runId run)"
  using requireRun_Inr by (auto simp: env_ok_def)

lemma optionalRun_shape:
  "optionalRun env d k = Inr (Some run) \<Longrightarrow>
   map_option shapeOf (runAt d k) = Some (shapeOf run) \<and> (keys_ok d \<longrightarrow> r_runId run = k)"
  using optionalRun_Some by (fastforce simp: sameRun_def keys_ok_def)

lemma readRunFrom_shape:
  "readRunFrom env d k display = Inr (Some run) \<Longrightarrow>
   map_option shapeOf (runAt d k) = Some (shapeOf run) \<and> (keys_ok d \<longrightarrow> r_runId run = k)"
  using readRunFrom_Some by (fastforce simp: sameRun_def keys_ok_def)

text \<open>A record that is stored again with the shape it had.\<close>

lemma follows_restore:
  assumes "map_option shapeOf (runAt d k) = Some (shapeOf run)"
    and "keys_ok d \<Longrightarrow> r_runId run = k"
  shows "follows d (putRun k run d)"
  using assms by (intro follows_same) (simp_all add: setRun_same keys_ok_putRun)

lemma follows_putRun:
  assumes "keys_ok d \<Longrightarrow> sched_ok (schedOf d) \<Longrightarrow> sched_step (schedOf d) (schedOf d')"
    and "keys_ok d \<Longrightarrow> keys_ok d'"
  shows "follows d d'"
  using assms by (intro followsI) auto

section \<open>Admission\<close>

lemma storedRunLane_admission:
  "r_admission run = storedRunAdmissionV1 (cmd_turnType c) origin role (cmd_lane c) \<Longrightarrow>
   storedRunLaneV1 run = commandLane c"
  by (auto simp: storedRunLaneV1_def storedRunAdmissionV1_def commandLane_def commandTurnType_def Let_def
      split: option.splits if_splits)

lemma admittedRecord_shape:
  "shapeOf (admittedRecord env c settings retryTarget landedAt d) =
     \<lparr>sh_status = Run_Running,
      sh_phase = (if admissionQueued (commandLane (oc_command c)) d then Queued else Admitted),
      sh_lane = commandLane (oc_command c), sh_at = cmd_acceptedAt (oc_command c),
      sh_print = ownedFingerprint c, sh_stop = False\<rparr>"
  by (simp add: shapeOf_def admittedRecord_def Let_def storedRunLane_admission stopRequested_def truthy_def)

lemma laneOpen_Inr:
  assumes "laneOpen lane d = Inr ()" and "admissionQueued lane d"
  shows "lane = Lane_Agent \<Longrightarrow> length (d_pendingAgent d) < MAX_PENDING_AGENT_RUNS_V1"
    and "lane \<noteq> Lane_Agent \<Longrightarrow> length (d_pendingUser d) < MAX_PENDING_USER_RUNS_V1"
  using assms by (cases lane; auto simp: laneOpen_def admissionQueued_def split: if_splits)+

lemma admissionQueued_active: "\<not> admissionQueued lane d \<Longrightarrow> d_active d = None"
  by (simp add: admissionQueued_def)

lemma schedOf_enqueueRun [simp]:
  "schedOf (enqueueRun (sh_lane sh) (sh_at sh) k d) = enqueueSched k sh (schedOf d)"
  by (simp add: enqueueRun_def enqueueSched_def)

lemma keys_ok_enqueueRun [simp]: "keys_ok (enqueueRun lane at0 k d) = keys_ok d"
  by (simp add: enqueueRun_def)

lemma putAdmitted_sched:
  assumes "shapeOf run = sh" and "sh_lane sh = commandLane (oc_command c)"
    and "sh_at sh = cmd_acceptedAt (oc_command c)"
    and "\<And>t. marked = Some t \<Longrightarrow> r_runId t \<noteq> oc_runId c \<and>
           map_option shapeOf (runAt d (r_runId t)) = Some (shapeOf t)"
  shows "schedOf (putAdmitted env c run marked d) =
    (if admissionQueued (commandLane (oc_command c)) d
     then enqueueSched (oc_runId c) sh (setRun (oc_runId c) sh (schedOf d))
     else (setRun (oc_runId c) sh (schedOf d))\<lparr>sc_active := Some (oc_runId c)\<rparr>)"
proof -
  note enqueue = schedOf_enqueueRun [of sh, unfolded assms(2,3)]
  have mark: "setRun (r_runId t) (shapeOf t) (setRun k sh (schedOf d)) = setRun k sh (schedOf d)"
    if "marked = Some t" "k = oc_runId c" for t k
    using assms(4) [OF that(1)] that(2)
    by (simp add: setRun_comm setRun_same)
  show ?thesis
    using assms(1) mark
    by (cases marked) (simp_all add: putAdmitted_def Let_def enqueue oc_runId_def del: schedOf_enqueueRun)
qed

lemma putAdmitted_keys:
  assumes "keys_ok d" and "r_runId run = oc_runId c"
  shows "keys_ok (putAdmitted env c run marked d)"
  using assms
  by (cases marked) (simp_all add: putAdmitted_def Let_def oc_runId_def keys_ok_putRun)

lemma retryTarget_marked:
  assumes "retryTargetOf env command d = Inr retryTarget"
    and "(case retryTarget of None \<Rightarrow> Inr None
          | Some t \<Rightarrow> rbind (requireRun env (t\<lparr>r_retriedBy := Some (cmd_runId command)\<rparr>))
                       (\<lambda>m. Inr (Some m))) = Inr marked"
    and "marked = Some m"
  shows "r_runId m \<noteq> cmd_runId command \<and> map_option shapeOf (runAt d (r_runId m)) = Some (shapeOf m)"
proof -
  obtain t where t: "retryTarget = Some t" "requireRun env (t\<lparr>r_retriedBy := Some (cmd_runId command)\<rparr>) = Inr m"
    using assms(2,3) by (auto simp: rbind_Inr_iff split: option.splits)
  obtain k where k: "optionalRun env d k = Inr (Some t)" "retryAllowed command k t"
    using assms(1) t(1) by (auto simp: retryTargetOf_def rbind_Inr_iff split: option.splits if_splits)
  have "r_runId t = k" "k \<noteq> cmd_runId command" using k(2) by (auto simp: retryAllowed_def)
  with optionalRun_shape [OF k(1)] requireRun_shape [OF t(2)] show ?thesis by simp
qed

lemma admitIn_Inr:
  assumes "admitIn env exec now c settings d = Inr (outcome, d')"
  obtains retryTarget landedAt run marked d1 where
    "runAt d (oc_runId c) = None"
    "refuseFenced (oc_runId c) d = Inr ()" "validateIdentity (oc_identity c) d = Inr ()"
    "retryTargetOf env (oc_command c) d = Inr retryTarget"
    "laneOpen (commandLane (oc_command c)) d = Inr ()"
    "requireRun env (admittedRecord env c settings retryTarget landedAt d) = Inr run"
    "\<forall>m. marked = Some m \<longrightarrow> r_runId m \<noteq> oc_runId c \<and>
       map_option shapeOf (runAt d (r_runId m)) = Some (shapeOf m)"
    "commitVisible env Cause_Admission run None (putAdmitted env c run marked d) = Inr d1"
    "refreshRecoveryAlarm env exec now d1 = Inr d'"
    "outcome = (if admissionQueued (commandLane (oc_command c)) d then Admitted_Queued
       else Admitted_Active (cursorAt d (cmd_sessionId (oc_command c)))
              (ae_admittedSnapshot env d settings) (ae_pin env d))"
proof -
  obtain existing retryTarget landedAt run marked d1 where
    e: "optionalRun env d (cmd_runId (oc_command c)) = Inr existing" "existing = None"
    and r: "refuseFenced (cmd_runId (oc_command c)) d = Inr ()" "validateIdentity (oc_identity c) d = Inr ()"
      "retryTargetOf env (oc_command c) d = Inr retryTarget"
      "laneOpen (commandLane (oc_command c)) d = Inr ()"
      "requireRun env (admittedRecord env c settings retryTarget landedAt d) = Inr run"
    and m: "(case retryTarget of None \<Rightarrow> Inr None
          | Some t \<Rightarrow> rbind (requireRun env (t\<lparr>r_retriedBy := Some (cmd_runId (oc_command c))\<rparr>))
                       (\<lambda>m. Inr (Some m))) = Inr marked"
    and c: "commitVisible env Cause_Admission run None (putAdmitted env c run marked d) = Inr d1"
      "refreshRecoveryAlarm env exec now d1 = Inr d'"
      "outcome = (if admissionQueued (commandLane (oc_command c)) d then Admitted_Queued
       else Admitted_Active (cursorAt d (cmd_sessionId (oc_command c)))
              (ae_admittedSnapshot env d settings) (ae_pin env d))"
    using assms unfolding admitIn_def Let_def
    by (clarsimp simp: rbind_Inr_iff split: if_splits)
  show ?thesis
    by (rule that [OF _ _ r(2,3,4,5) _ c(1,2,3)])
      (use e r(1) retryTarget_marked [OF r(3) m] in \<open>auto simp: oc_runId_def optionalRun_None\<close>)
qed

lemma admitIn_carries:
  assumes env: "env_ok env" and admit: "admitIn env exec now c settings d = Inr (outcome, d')"
  shows "carries d d'"
proof -
  let ?lane = "commandLane (oc_command c)"
  let ?k = "oc_runId c"
  obtain retryTarget landedAt run marked d1 where new: "runAt d ?k = None"
    and lane: "laneOpen ?lane d = Inr ()"
    and run: "requireRun env (admittedRecord env c settings retryTarget landedAt d) = Inr run"
    and marked: "\<forall>m. marked = Some m \<longrightarrow> r_runId m \<noteq> ?k \<and>
       map_option shapeOf (runAt d (r_runId m)) = Some (shapeOf m)"
    and visible: "commitVisible env Cause_Admission run None (putAdmitted env c run marked d) = Inr d1"
    and alarm: "refreshRecoveryAlarm env exec now d1 = Inr d'"
    by (rule admitIn_Inr [OF admit]) (rule that)
  let ?sh = "shapeOf run"
  have sh: "?sh = \<lparr>sh_status = Run_Running,
      sh_phase = (if admissionQueued ?lane d then Queued else Admitted),
      sh_lane = ?lane, sh_at = cmd_acceptedAt (oc_command c), sh_print = ownedFingerprint c,
      sh_stop = False\<rparr>"
    using requireRun_shape [OF run] by (simp add: admittedRecord_shape)
  have id: "r_runId (admittedRecord env c settings retryTarget landedAt d) = ?k"
    by (simp add: admittedRecord_def Let_def oc_runId_def)
  have k: "isPublicIdentifier ?k" using requireRun_public [OF env run] by (simp only: id)
  have runId: "r_runId run = ?k" using requireRun_shape [OF run] by (simp only: id)
  note sched = putAdmitted_sched [where env = env, OF refl _ _ marked [rule_format], where run = run]
  have "sched_step (schedOf d) (schedOf (putAdmitted env c run marked d))"
  proof (cases "admissionQueued ?lane d")
    case True
    with sh laneOpen_Inr [OF lane] show ?thesis
      by (subst sched) (auto intro!: admit_queue simp: new k)
  next
    case False
    with sh show ?thesis
      by (subst sched) (auto intro!: admit_start simp: new k admissionQueued_active)
  qed
  then have "follows d (putAdmitted env c run marked d)"
    by (rule follows_putRun) (rule putAdmitted_keys [OF _ runId])
  then have "follows d d1" using commitVisible_sched [OF visible] by (rule follows_eq)
  then show ?thesis using alarm by (rule refresh_carries)
qed

lemma prepareAdmission_carries:
  assumes "prepareAdmission env c d = Inr d'"
  shows "carries d d'"
proof -
  obtain st where d': "d' = d\<lparr>d_log := st\<rparr>" and st: "runs_kept (d_log d) st"
    using assms by (auto simp: prepareAdmission_def rbind_Inr_iff dest: migrateLegacy_runs)
  show ?thesis unfolding d'
    by (rule carries_sameI [OF follows_same [OF schedOf_log [OF st] keys_ok_log [OF st]]]) simp_all
qed

section \<open>The queues\<close>

lemma live_queued_sched: "live_queued (schedOf d) k \<longleftrightarrow>
    (\<exists>run. runAt d k = Some run \<and> r_status run = Run_Running \<and> r_phase run = Queued)"
  by (auto simp: live_queued_def split: option.splits)

lemma live_queued_cong: "sc_run s' = sc_run s \<Longrightarrow> live_queued s' k = live_queued s k"
  by (simp add: live_queued_def)

lemma optionalRun_live:
  "optionalRun env d k = Inr found \<Longrightarrow>
   (case found of None \<Rightarrow> False | Some run \<Rightarrow> r_status run = Run_Running \<and> r_phase run = Queued) =
     live_queued (schedOf d) k"
  using optionalRun_None [of env d k] optionalRun_shape [of env d k]
  by (auto simp: live_queued_def shapeOf_def split: option.splits)

lemma livePendingHead_Cons:
  assumes "livePendingHead env d ((key, k) # m) = Inr (head, m')"
  shows "if live_queued (schedOf d) k then head = Some (key, k) \<and> m' = (key, k) # m
         else livePendingHead env d m = Inr (head, m')"
proof -
  obtain found where "optionalRun env d k = Inr found" using assms by (auto simp: rbind_Inr_iff)
  with assms optionalRun_live [OF this] show ?thesis by (auto split: if_splits)
qed

lemma livePendingHead_head:
  "livePendingHead env d m = Inr (head, m') \<Longrightarrow>
   (case head of None \<Rightarrow> m' = [] | Some e \<Rightarrow> (\<exists>rest. m' = e # rest) \<and> live_queued (schedOf d) (snd e))"
proof (induction m)
  case (Cons e m)
  obtain key k where e: "e = (key, k)" by (cases e)
  from livePendingHead_Cons [OF Cons.prems [unfolded e]] Cons.IH show ?case
    by (auto simp: e split: if_splits)
qed simp

lemma sched_same:
  "sc_users s = m \<Longrightarrow> s\<lparr>sc_users := m\<rparr> = s" "sc_agents s = m \<Longrightarrow> s\<lparr>sc_agents := m\<rparr> = s"
  by auto

lemma livePendingHead_users:
  "livePendingHead env d m = Inr (head, m') \<Longrightarrow> sc_run s = sc_run (schedOf d) \<Longrightarrow> sc_users s = m \<Longrightarrow>
   sched_step\<^sup>*\<^sup>* s (s\<lparr>sc_users := m'\<rparr>)"
proof (induction m arbitrary: s)
  case (Cons e m)
  obtain key k where e: "e = (key, k)" by (cases e)
  note step = livePendingHead_Cons [OF Cons.prems(1) [unfolded e]]
  show ?case
  proof (cases "live_queued (schedOf d) k")
    case True
    with step Cons.prems(3) show ?thesis by (simp add: e sched_same)
  next
    case False
    then have "sched_step s (s\<lparr>sc_users := m\<rparr>)"
      using Cons.prems(3) live_queued_cong [OF Cons.prems(2)] by (auto simp: e intro!: prune_user)
    moreover have "sched_step\<^sup>*\<^sup>* (s\<lparr>sc_users := m\<rparr>) (s\<lparr>sc_users := m\<rparr>\<lparr>sc_users := m'\<rparr>)"
      by (rule Cons.IH) (use step False Cons.prems(2) in simp_all)
    ultimately show ?thesis by (simp add: converse_rtranclp_into_rtranclp)
  qed
qed (auto simp: sched_same)

lemma livePendingHead_agents:
  "livePendingHead env d m = Inr (head, m') \<Longrightarrow> sc_run s = sc_run (schedOf d) \<Longrightarrow> sc_agents s = m \<Longrightarrow>
   sched_step\<^sup>*\<^sup>* s (s\<lparr>sc_agents := m'\<rparr>)"
proof (induction m arbitrary: s)
  case (Cons e m)
  obtain key k where e: "e = (key, k)" by (cases e)
  note step = livePendingHead_Cons [OF Cons.prems(1) [unfolded e]]
  show ?case
  proof (cases "live_queued (schedOf d) k")
    case True
    with step Cons.prems(3) show ?thesis by (simp add: e sched_same)
  next
    case False
    then have "sched_step s (s\<lparr>sc_agents := m\<rparr>)"
      using Cons.prems(3) live_queued_cong [OF Cons.prems(2)] by (auto simp: e intro!: prune_agent)
    moreover have "sched_step\<^sup>*\<^sup>* (s\<lparr>sc_agents := m\<rparr>) (s\<lparr>sc_agents := m\<rparr>\<lparr>sc_agents := m'\<rparr>)"
      by (rule Cons.IH) (use step False Cons.prems(2) in simp_all)
    ultimately show ?thesis by (simp add: converse_rtranclp_into_rtranclp)
  qed
qed (auto simp: sched_same)

lemma follows_pruned:
  assumes "livePendingHead env d (d_pendingUser d) = Inr (firstUser, users)"
    and "livePendingHead env d (d_pendingAgent d) = Inr (firstAgent, agents)"
  shows "follows d (d\<lparr>d_pendingUser := users, d_pendingAgent := agents\<rparr>)"
proof (rule followsI)
  assume "keys_ok d"
  have "sched_step\<^sup>*\<^sup>* (schedOf d) ((schedOf d)\<lparr>sc_users := users\<rparr>)"
    by (rule livePendingHead_users [OF assms(1)]) simp_all
  moreover have "sched_step\<^sup>*\<^sup>* ((schedOf d)\<lparr>sc_users := users\<rparr>)
      ((schedOf d)\<lparr>sc_users := users\<rparr>\<lparr>sc_agents := agents\<rparr>)"
    by (rule livePendingHead_agents [OF assms(2)]) simp_all
  ultimately show "sched_step\<^sup>*\<^sup>* (schedOf d) (schedOf (d\<lparr>d_pendingUser := users, d_pendingAgent := agents\<rparr>)) \<and>
      keys_ok (d\<lparr>d_pendingUser := users, d_pendingAgent := agents\<rparr>)"
    using \<open>keys_ok d\<close> by simp
qed

lemma follows_pruned_users:
  assumes "livePendingHead env d (d_pendingUser d) = Inr (firstUser, users)"
  shows "follows d (d\<lparr>d_pendingUser := users\<rparr>)"
proof (rule followsI)
  assume "keys_ok d"
  moreover have "sched_step\<^sup>*\<^sup>* (schedOf d) ((schedOf d)\<lparr>sc_users := users\<rparr>)"
    by (rule livePendingHead_users [OF assms]) simp_all
  ultimately show "sched_step\<^sup>*\<^sup>* (schedOf d) (schedOf (d\<lparr>d_pendingUser := users\<rparr>)) \<and>
      keys_ok (d\<lparr>d_pendingUser := users\<rparr>)" by simp
qed

lemma promotedRecord_shape: "shapeOf (promotedRecord n run) = (shapeOf run)\<lparr>sh_phase := Admitted\<rparr>"
  by (simp add: promotedRecord_def)

lemma promotedRecord_runId: "r_runId (promotedRecord n run) = r_runId run"
  by (simp add: promotedRecord_def)

lemma schedOf_dequeue:
  "schedOf (dequeueRun lane firstUser firstAgent d) =
     (case (if lane = Lane_Agent then firstAgent else None) of
        Some (key, k) \<Rightarrow> (schedOf d)\<lparr>sc_agents := kv_delete key (sc_agents (schedOf d))\<rparr>
      | None \<Rightarrow> (case firstUser of
          Some (key, k) \<Rightarrow> (schedOf d)\<lparr>sc_users := kv_delete key (sc_users (schedOf d))\<rparr>
        | None \<Rightarrow> schedOf d))"
  by (simp add: dequeueRun_def split: option.splits)

lemma keys_ok_dequeue [simp]: "keys_ok (dequeueRun lane firstUser firstAgent d) = keys_ok d"
  by (simp add: dequeueRun_def split: option.splits)

text \<open>The head of each queue after the pruning, and what a free promotion then takes.\<close>

definition headsOf :: "(string \<times> string) option \<Rightarrow> (string \<times> string) option \<Rightarrow> durable \<Rightarrow> bool" where
  "headsOf firstUser firstAgent d \<longleftrightarrow>
     (case firstUser of None \<Rightarrow> d_pendingUser d = []
      | Some e \<Rightarrow> (\<exists>rest. d_pendingUser d = e # rest) \<and> live_queued (schedOf d) (snd e)) \<and>
     (case firstAgent of None \<Rightarrow> d_pendingAgent d = []
      | Some e \<Rightarrow> (\<exists>rest. d_pendingAgent d = e # rest) \<and> live_queued (schedOf d) (snd e))"

lemma promote_step:
  assumes heads: "headsOf firstUser firstAgent d"
    and free: "promotionBlock (storedRunLaneV1 run) k firstUser firstAgent d = None"
    and run: "map_option shapeOf (runAt d k) = Some (shapeOf run)"
    and s': "schedOf d' = (setRun k ((shapeOf run)\<lparr>sh_phase := Admitted\<rparr>) (schedOf d))\<lparr>sc_active := Some k\<rparr>"
  shows "sched_step (schedOf d) (schedOf (dequeueRun (storedRunLaneV1 run) firstUser firstAgent d'))"
proof (cases "storedRunLaneV1 run = Lane_Agent")
  case True
  then obtain key rest where "firstAgent = Some (key, k)" "firstUser = None" "d_parked d = None"
    "d_active d = None" "d_pendingAgent d = (key, k) # rest" "d_pendingUser d = []" "live_queued (schedOf d) k"
    using heads free by (cases firstAgent) (auto simp: headsOf_def promotionBlock_def split: if_splits option.splits)
  with True run show ?thesis
    using promote_agent [of "schedOf d" key k rest "shapeOf run"] by (simp add: schedOf_dequeue s')
next
  case False
  then obtain key rest where "firstUser = Some (key, k)" "d_active d = None"
    "d_pendingUser d = (key, k) # rest" "live_queued (schedOf d) k"
    using heads free by (cases firstUser) (auto simp: headsOf_def promotionBlock_def split: if_splits option.splits)
  with False run show ?thesis
    using promote_user [of "schedOf d" key k rest "shapeOf run"] by (simp add: schedOf_dequeue s')
qed

lemma promoteQueuedRun_Inr:
  assumes "promoteQueuedRun env exec now k d = Inr (outcome, d')"
  obtains firstUser users firstAgent agents d1 found where
    "livePendingHead env d (d_pendingUser d) = Inr (firstUser, users)"
    "livePendingHead env d (d_pendingAgent d) = Inr (firstAgent, agents)"
    "(if users = d_pendingUser d \<longrightarrow> agents \<noteq> d_pendingAgent d
        then refreshRecoveryAlarm env exec now (d\<lparr>d_pendingUser := users, d_pendingAgent := agents\<rparr>)
        else Inr (d\<lparr>d_pendingUser := users, d_pendingAgent := agents\<rparr>)) = Inr d1"
    "optionalRun env d1 k = Inr found"
    "(case found of
         None \<Rightarrow> Inr (Not_Queued, d1)
       | Some run \<Rightarrow>
           if r_status run = Run_Running \<longrightarrow> r_phase run \<noteq> Queued then Inr (Not_Queued, d1)
           else case promotionBlock (storedRunLaneV1 run) k firstUser firstAgent d1 of
               Some outcome \<Rightarrow> Inr (outcome, d1)
             | None \<Rightarrow>
                 rbind (requireRun env (promotedRecord (cur_nextSeq (cursorOf (cursorAt d1 (r_sessionId run)))) run))
                   (\<lambda>promoted.
                    rbind (commitVisible env Cause_Promotion promoted None
                      (runRepairRecordsV1 k now
                          ((putRun k (storedRunRecordV2 promoted) (clearRunRepair k d1))
                             \<lparr>d_active := Some k\<rparr>))) (\<lambda>d3.
                       rbind (refreshRecoveryAlarm env exec now
                                (dequeueRun (storedRunLaneV1 run) firstUser firstAgent d3)) (\<lambda>d4.
                         Inr (Promoted (cursorAt d1 (r_sessionId run)) (r_snapshot promoted)
                               (r_composition promoted), d4))))) = Inr (outcome, d')"
  using assms unfolding promoteQueuedRun_def Let_def by (clarsimp simp: rbind_Inr_iff)

lemma promoteQueuedRun_carries:
  assumes promote: "promoteQueuedRun env exec now k d = Inr (outcome, d')"
  shows "carries d d'"
proof -
  obtain firstUser users firstAgent agents d1 found where
    u: "livePendingHead env d (d_pendingUser d) = Inr (firstUser, users)"
    and a: "livePendingHead env d (d_pendingAgent d) = Inr (firstAgent, agents)"
    and d1: "(if users = d_pendingUser d \<longrightarrow> agents \<noteq> d_pendingAgent d
        then refreshRecoveryAlarm env exec now (d\<lparr>d_pendingUser := users, d_pendingAgent := agents\<rparr>)
        else Inr (d\<lparr>d_pendingUser := users, d_pendingAgent := agents\<rparr>)) = Inr d1"
    and found: "optionalRun env d1 k = Inr found"
    and rest: "(case found of
         None \<Rightarrow> Inr (Not_Queued, d1)
       | Some run \<Rightarrow>
           if r_status run = Run_Running \<longrightarrow> r_phase run \<noteq> Queued then Inr (Not_Queued, d1)
           else case promotionBlock (storedRunLaneV1 run) k firstUser firstAgent d1 of
               Some outcome \<Rightarrow> Inr (outcome, d1)
             | None \<Rightarrow>
                 rbind (requireRun env (promotedRecord (cur_nextSeq (cursorOf (cursorAt d1 (r_sessionId run)))) run))
                   (\<lambda>promoted.
                    rbind (commitVisible env Cause_Promotion promoted None
                      (runRepairRecordsV1 k now
                          ((putRun k (storedRunRecordV2 promoted) (clearRunRepair k d1))
                             \<lparr>d_active := Some k\<rparr>))) (\<lambda>d3.
                       rbind (refreshRecoveryAlarm env exec now
                                (dequeueRun (storedRunLaneV1 run) firstUser firstAgent d3)) (\<lambda>d4.
                         Inr (Promoted (cursorAt d1 (r_sessionId run)) (r_snapshot promoted)
                               (r_composition promoted), d4))))) = Inr (outcome, d')"
    by (rule promoteQueuedRun_Inr [OF promote]) (rule that)
  let ?d0 = "d\<lparr>d_pendingUser := users, d_pendingAgent := agents\<rparr>"
  have same: "carries d d1 \<and> schedOf d1 = schedOf ?d0"
  proof (cases "users \<noteq> d_pendingUser d \<or> agents \<noteq> d_pendingAgent d")
    case True
    with d1 have r: "refreshRecoveryAlarm env exec now ?d0 = Inr d1" by simp
    from refresh_carries [OF follows_pruned [OF u a] r] refresh_sched [OF r] show ?thesis by simp
  next
    case False
    with d1 show ?thesis by auto
  qed
  have stay: "carries d d'" if "d' = d1" using same that by simp
  show ?thesis
  proof (cases "\<exists>run. found = Some run \<and> r_status run = Run_Running \<and> r_phase run = Queued \<and>
      promotionBlock (storedRunLaneV1 run) k firstUser firstAgent d1 = None")
    case False
    with rest have "d' = d1" by (simp split: option.splits if_splits)
    then show ?thesis by (rule stay)
  next
    case True
    then obtain run where run: "found = Some run" "r_status run = Run_Running" "r_phase run = Queued"
      and free: "promotionBlock (storedRunLaneV1 run) k firstUser firstAgent d1 = None" by blast
    obtain promoted d3 where
      promoted: "requireRun env (promotedRecord (cur_nextSeq (cursorOf (cursorAt d1 (r_sessionId run)))) run)
         = Inr promoted"
      and visible: "commitVisible env Cause_Promotion promoted None (runRepairRecordsV1 k now
            ((putRun k (storedRunRecordV2 promoted) (clearRunRepair k d1))\<lparr>d_active := Some k\<rparr>)) = Inr d3"
      and alarm: "refreshRecoveryAlarm env exec now (dequeueRun (storedRunLaneV1 run) firstUser firstAgent d3) = Inr d'"
      using rest by (simp add: run free rbind_Inr_iff) blast
    have heads: "headsOf firstUser firstAgent d1"
    proof -
      have "d_pendingUser d1 = users" "d_pendingAgent d1 = agents" "live_queued (schedOf d1) = live_queued (schedOf d)"
        using arg_cong [OF conjunct2 [OF same], of sc_users] arg_cong [OF conjunct2 [OF same], of sc_agents]
          arg_cong [OF conjunct2 [OF same], of sc_run] live_queued_cong [of "schedOf d1" "schedOf d"]
        by (simp_all add: fun_eq_iff)
      with livePendingHead_head [OF u] livePendingHead_head [OF a] show ?thesis
        by (simp only: headsOf_def)
    qed
    note shape = optionalRun_shape [OF found [unfolded run(1)]]
    have "shapeOf promoted = (shapeOf run)\<lparr>sh_phase := Admitted\<rparr>"
      using requireRun_shape [OF promoted] by (simp add: promotedRecord_shape)
    then have "schedOf d3 = (setRun k ((shapeOf run)\<lparr>sh_phase := Admitted\<rparr>) (schedOf d1))\<lparr>sc_active := Some k\<rparr>"
      using commitVisible_sched [OF visible] by simp
    note step = promote_step [OF heads free conjunct1 [OF shape] this]
    have "keys_ok d3" if "keys_ok d1"
    proof -
      have "r_runId promoted = k"
        using requireRun_shape [OF promoted] shape that by (simp add: promotedRecord_runId)
      with that show ?thesis using commitVisible_sched [OF visible] by (simp add: keys_ok_putRun)
    qed
    then have "follows d1 (dequeueRun (storedRunLaneV1 run) firstUser firstAgent d3)"
      using step by (intro follows_putRun) simp_all
    from refresh_carries [OF this alarm] same show ?thesis using carries_trans by blast
  qed
qed

section \<open>Starting, parking and resuming\<close>

lemma executingIn_carries:
  assumes "executingIn env exec now k run d = Inr d'" and "d_active d = Some k"
    and "map_option shapeOf (runAt d k) = Some (shapeOf run)" and "keys_ok d \<Longrightarrow> r_runId run = k"
  shows "carries d d'"
proof -
  have "follows d (putRun k (storedRunRecordV2 (run\<lparr>r_phase := Executing\<rparr>)) d)"
    by (rule follows_putRun)
      (use assms(2-4) in \<open>auto intro!: run_phase [where s = "schedOf d", simplified] keys_ok_putRun\<close>)
  then show ?thesis using assms(1) unfolding executingIn_def by (rule refresh_carries)
qed

lemma startAdmittedRun_carries:
  assumes "startAdmittedRun env exec now k d = Inr (inputs, d')" and "d_active d = Some k"
  shows "carries d d'"
proof -
  obtain run where run: "optionalRun env d k = Inr (Some run)" "executingIn env exec now k run d = Inr d'"
    using assms(1) by (auto simp: startAdmittedRun_def rbind_Inr_iff split: option.splits if_splits)
  from executingIn_carries [OF run(2) assms(2)] optionalRun_shape [OF run(1)] show ?thesis by blast
qed

lemma deferRunRecovery_carries:
  assumes "deferRunRecovery env exec now k d = Inr d'" and "d_active d = Some k"
  shows "carries d d'"
proof -
  obtain run where run: "readRunFrom env d k False = Inr (Some run)" "executingIn env exec now k run d = Inr d'"
    using assms(1) by (auto simp: deferRunRecovery_def rbind_Inr_iff split: option.splits if_splits)
  from executingIn_carries [OF run(2) assms(2)] readRunFrom_shape [OF run(1)] show ?thesis by blast
qed

lemma parkRun_carries:
  assumes "parkRun env exec now k d = Inr d'" and "d_active d = Some k" and "d_parked d = None"
  shows "carries d d'"
proof -
  obtain run parked d2 where run: "readRunFrom env d k False = Inr (Some run)"
    and parked: "requireRun env (run\<lparr>r_phase := Parked\<rparr>) = Inr parked"
    and visible: "commitVisible env Cause_Promotion parked None (releaseActive k
         ((putRun k (storedRunRecordV2 parked) (clearRunRepair k d))\<lparr>d_parked := Some k\<rparr>)) = Inr d2"
    and alarm: "refreshRecoveryAlarm env exec now d2 = Inr d'"
    using assms(1) by (auto simp: parkRun_def Let_def rbind_Inr_iff split: option.splits if_splits)
  note shape = readRunFrom_shape [OF run] requireRun_shape [OF parked]
  have "sched_step (schedOf d) (schedOf d2)"
    using commitVisible_sched [OF visible] shape assms(2,3) park [of "schedOf d" k "shapeOf run"]
    by (simp add: releaseSched_def)
  moreover have "keys_ok d2" if "keys_ok d"
    using commitVisible_sched [OF visible] shape that by (simp add: keys_ok_putRun)
  ultimately have "follows d d2" by (rule follows_putRun)
  then show ?thesis using alarm by (rule refresh_carries)
qed

lemma setRun_parked: "setRun k sh (s\<lparr>sc_parked := p\<rparr>) = (setRun k sh s)\<lparr>sc_parked := p\<rparr>"
  by (simp add: setRun_def)

lemma parked_run:
  assumes "sched_ok (schedOf d)" and "d_parked d = Some k"
  shows "\<exists>run. runAt d k = Some run \<and> r_status run = Run_Running \<and> r_phase run = Parked"
  using assms by (auto simp: sched_ok_parts slots_ok_def)

lemma readRunFrom_at:
  "readRunFrom env d k display = Inr found \<Longrightarrow> runAt d k = Some run0 \<Longrightarrow>
   \<exists>run. found = Some run \<and> sameRun run0 run"
  using readRunFrom_None [of env d k display] readRunFrom_Some [of env d k display]
  by (cases found) auto

lemma unparkRun_carries:
  assumes "unparkRun env exec now k d = Inr (outcome, d')"
  shows "carries d d'"
proof (rule carriesI)
  assume ok: "keys_ok d" "sched_ok (schedOf d)"
  show "carries d d'"
  proof (cases "d_parked d \<noteq> Some k \<or> d_active d \<noteq> None")
    case True
    with assms(1) show ?thesis by (auto simp: unparkRun_def split: if_splits)
  next
    case False
    then have here: "d_parked d = Some k" "d_active d = None" by auto
    obtain head users where u: "livePendingHead env d (d_pendingUser d) = Inr (head, users)"
      using assms(1) here by (auto simp: unparkRun_def rbind_Inr_iff)
    let ?d0 = "d\<lparr>d_pendingUser := users\<rparr>"
    have pruned: "follows d ?d0" using follows_pruned_users [OF u] .
    show ?thesis
    proof (cases "head = None")
      case False
      with assms(1) here u have "(if users \<noteq> d_pendingUser d then refreshRecoveryAlarm env exec now ?d0 else Inr ?d0) = Inr d'"
        by (auto simp: unparkRun_def rbind_Inr_iff)
      then show ?thesis using refresh_carries [OF pruned] by (auto split: if_splits)
    next
      case True
      have empty: "users = []" using livePendingHead_head [OF u] True by simp
      obtain run0 where run0: "runAt ?d0 k = Some run0" "r_status run0 = Run_Running" "r_phase run0 = Parked"
        using parked_run [OF ok(2) here(1)] by auto
      obtain found where found: "readRunFrom env ?d0 k False = Inr found"
        using assms(1) here u True by (auto simp: unparkRun_def rbind_Inr_iff Let_def)
      obtain run where run: "readRunFrom env ?d0 k False = Inr (Some run)" and same: "sameRun run0 run"
        using readRunFrom_at [OF found run0(1)] found by blast
      have "r_status run = Run_Running" "r_phase run = Parked"
        using same run0(2,3) by (auto simp: sameRun_def shapeOf_def)
      then obtain resumed d2 where resumed: "requireRun env (run\<lparr>r_phase := Admitted\<rparr>) = Inr resumed"
        and visible: "commitVisible env Cause_Promotion resumed None (runRepairRecordsV1 k now
            ((putRun k (storedRunRecordV2 resumed) (?d0\<lparr>d_parked := None\<rparr>))\<lparr>d_active := Some k\<rparr>)) = Inr d2"
        and alarm: "refreshRecoveryAlarm env exec now d2 = Inr d'"
        using assms(1) here u True run
        by (auto simp: unparkRun_def rbind_Inr_iff Let_def)
      note shape = readRunFrom_shape [OF run] requireRun_shape [OF resumed]
      have "sched_step (schedOf ?d0) (schedOf d2)"
        using commitVisible_sched [OF visible] shape here empty unpark [of "schedOf ?d0" k "shapeOf run"]
        by (simp add: setRun_parked)
      moreover have "keys_ok d2" if "keys_ok ?d0"
        using commitVisible_sched [OF visible] shape that by (simp add: keys_ok_putRun)
      ultimately have "follows ?d0 d2" by (rule follows_putRun)
      from refresh_carries [OF follows_trans [OF pruned this] alarm] show ?thesis .
    qed
  qed
qed

section \<open>The events of a Turn\<close>

lemma log_shape:
  assumes "runs_kept (d_log d) st"
  shows "map_option shapeOf (runAt (d\<lparr>d_log := st\<rparr>) k) = map_option shapeOf (runAt d k)"
  using arg_cong [OF schedOf_log [OF assms], of "\<lambda>s. sc_run s k"] by simp

lemma appendRunEventsIn_carries:
  assumes "appendRunEventsIn env exec now k events d = Inr d'"
  shows "carries d d'"
proof -
  obtain run st next0 records d1 where run: "readRunFrom env d k False = Inr (Some run)"
    and st: "appendLog (ke_log env) (ke_projector env) (d_log d) (r_sessionId run) events None = Inr st"
    and next0: "requireRun env (storedRunEventFieldsV2 (r_previousEventCount run) (runEvents run @ events) run)
        = Inr next0"
    and visible: "commitVisible env Cause_Events next0 (Some events)
         (putRun k (storedRunRecordV2 next0) (putPackages records (d\<lparr>d_log := st\<rparr>))) = Inr d1"
    and alarm: "refreshRecoveryAlarm env exec now d1 = Inr d'"
    using assms by (auto simp: appendRunEventsIn_def rbind_Inr_iff split: option.splits)
  have kept: "runs_kept (d_log d) st" using appendLog_runs [OF st] .
  note shape = readRunFrom_shape [OF run] requireRun_shape [OF next0]
  have log: "follows d (d\<lparr>d_log := st\<rparr>)"
    by (rule follows_same [OF schedOf_log [OF kept] keys_ok_log [OF kept]])
  have "schedOf d1 = setRun k (shapeOf run) (schedOf d)"
    using commitVisible_sched [OF visible] shape schedOf_log [OF kept] by simp
  also have "\<dots> = schedOf d" using shape by (intro setRun_same) simp
  finally have "follows d d1"
  proof (rule follows_same)
    assume "keys_ok d"
    with commitVisible_sched [OF visible] shape keys_ok_log [OF kept] show "keys_ok d1"
      by (simp add: keys_ok_putRun)
  qed
  then show ?thesis using alarm by (rule refresh_carries)
qed

lemma persistRunEvents_carries:
  "persistRunEvents env exec now k events d = Inr d' \<Longrightarrow> carries d d'"
  by (auto simp: persistRunEvents_def rbind_Inr_iff dest: appendRunEventsIn_carries split: if_splits)

lemma appendQuiet_carries:
  "appendQuietSessionEvents env exec now t k sessionId n bodies d = Inr (done0, d') \<Longrightarrow> carries d d'"
  by (auto simp: appendQuietSessionEvents_def rbind_Inr_iff dest: appendRunEventsIn_carries
      split: if_splits option.splits)

section \<open>Settlement\<close>

lemma settle_follows:
  assumes "map_option shapeOf (runAt d k) = Some (shapeOf run)" and "t \<noteq> Run_Running"
    and "keys_ok d \<Longrightarrow> sched_ok (schedOf d) \<Longrightarrow> r_status run \<noteq> Run_Completed"
    and "stopRequested run \<Longrightarrow> t = Run_Cancelled"
    and "keys_ok d \<Longrightarrow> sched_ok (schedOf d) \<Longrightarrow> schedOf d' =
      releaseSched k (leaveSched k (shapeOf run) (setRun k ((shapeOf run)\<lparr>sh_status := t\<rparr>) (schedOf d)))"
    and "keys_ok d \<Longrightarrow> keys_ok d'"
  shows "follows d d'"
  using assms settle [of "schedOf d" k "shapeOf run" t] by (intro follows_putRun) simp_all

lemma active_run:
  assumes "sched_ok (schedOf d)" and "d_active d = Some k"
    and "map_option shapeOf (runAt d k) = Some sh"
  shows "sh_status sh = Run_Running \<and> sh_phase sh \<in> {Admitted, Executing}"
  using assms by (auto simp: sched_ok_parts slots_ok_def)

lemma leaveSched_active: "sh_phase sh \<in> {Admitted, Executing} \<Longrightarrow> leaveSched k sh s = s"
  by (auto simp: leaveSched_def)

lemma cancelledRun_shape:
  "shapeOf (cancelledRun events run) = (shapeOf run)\<lparr>sh_status := Run_Cancelled\<rparr>"
  "r_runId (cancelledRun events run) = r_runId run"
  by (simp_all add: cancelledRun_def)

lemma completeStoredRun_follows:
  assumes "completeStoredRun env d k result hook = Inr (settled, d')"
  shows "follows d d'"
proof -
  obtain run where active: "d_active d = Some k" and run: "readRunFrom env d k False = Inr (Some run)"
    using assms by (auto simp: completeStoredRun_def hydratedRun_readRunFrom rbind_Inr_iff
        split: if_splits option.splits)
  note shape = readRunFrom_shape [OF run]
  obtain d1 stored events d2 where d1: "commitSuffixV1 env d (r_sessionId run) (r_previousEventCount run) events = Inr d1"
    and stored: "shapeOf stored = (shapeOf run)\<lparr>sh_status := (if stopRequested run then Run_Cancelled else Run_Completed)\<rparr>"
      "r_runId stored = r_runId run"
    and d2: "schedOf d2 = schedOf (putRun k (storedRunRecordV2 stored) d1)"
      "keys_ok d2 = keys_ok (putRun k (storedRunRecordV2 stored) d1)" "d' = d2\<lparr>d_active := None\<rparr>"
  proof (cases "stopRequested run")
    case True
    then obtain events cancelled d1 where "requireRun env (cancelledRun events run) = Inr cancelled"
      "commitSuffixV1 env d (r_sessionId run) (r_previousEventCount run) events = Inr d1"
      "d' = (putRun k (storedRunRecordV2 cancelled) d1)\<lparr>d_active := None\<rparr>"
      using assms run active by (auto simp: completeStoredRun_def hydratedRun_readRunFrom rbind_Inr_iff)
    with True requireRun_shape [OF this(1)] show ?thesis
      by (intro that [where stored = cancelled]) (simp_all add: cancelledRun_shape)
  next
    case False
    then obtain events d1 journal completed contributed where
      "commitSuffixV1 env d (r_sessionId run) (r_previousEventCount run) events = Inr d1"
      and completed: "requireRun env ((storedRunEventFieldsV2 (r_previousEventCount run) journal run)
          \<lparr>r_status := Run_Completed, r_responseText := Some (cp_text result)\<rparr>) = Inr completed"
      and "d' = (putPackages contributed (putNotification (cp_notification result)
          (putRun k (storedRunRecordV2 completed) d1)))\<lparr>d_active := None\<rparr>"
      using assms run active by (auto simp: completeStoredRun_def hydratedRun_readRunFrom rbind_Inr_iff)
    with False requireRun_shape [OF completed] show ?thesis
      by (intro that [where stored = completed]) simp_all
  qed
  obtain st where st: "d1 = d\<lparr>d_log := st\<rparr>" "runs_kept (d_log d) st"
    using commitSuffix_kept [OF d1] by blast
  show ?thesis
  proof (rule settle_follows [OF conjunct1 [OF shape]])
    assume "keys_ok d" and ok: "sched_ok (schedOf d)"
    show "schedOf d' = releaseSched k (leaveSched k (shapeOf run)
        (setRun k ((shapeOf run)\<lparr>sh_status := (if stopRequested run then Run_Cancelled else Run_Completed)\<rparr>) (schedOf d)))"
      using active_run [OF ok active conjunct1 [OF shape]] schedOf_log [OF st(2)] active
      by (simp add: leaveSched_active d2 st(1) stored releaseSched_def)
  next
    assume "keys_ok d"
    then show "keys_ok d'" using shape keys_ok_log [OF st(2)] by (simp add: d2 st(1) stored keys_ok_putRun)
  next
    assume "sched_ok (schedOf d)"
    from active_run [OF this active conjunct1 [OF shape]] show "r_status run \<noteq> Run_Completed" by simp
  qed simp_all
qed

lemma settled_stored:
  assumes run: "readRunFrom env d k False = Inr (Some run)"
    and d1: "commitSuffixV1 env d (r_sessionId run) n events = Inr d1"
    and stored: "shapeOf stored = (shapeOf run)\<lparr>sh_status := t\<rparr>" "r_runId stored = r_runId run"
    and t: "t \<noteq> Run_Running" and final: "r_status run \<noteq> Run_Completed"
    and stop: "stopRequested run \<Longrightarrow> t = Run_Cancelled"
  shows "follows d (releaseActive k (leaveQueueV1 run (putPackages records
           (putRun k (storedRunRecordV2 stored) d1))))"
proof -
  obtain st where st: "d1 = d\<lparr>d_log := st\<rparr>" "runs_kept (d_log d) st"
    using commitSuffix_kept [OF d1] by blast
  note shape = readRunFrom_shape [OF run]
  show ?thesis
    by (rule settle_follows [OF conjunct1 [OF shape] t final stop])
      (use shape schedOf_log [OF st(2)] keys_ok_log [OF st(2)] in
        \<open>simp_all add: stored st(1) keys_ok_putRun\<close>)
qed

lemma putPackages_Nil [simp]: "putPackages [] d = d"
  by (simp add: putPackages_def)

lemma cancelStoredRun_follows:
  assumes "cancelStoredRun env now d k events = Inr (settled, d')"
  shows "follows d d'"
proof (cases "d' = d")
  case False
  then obtain run decoded cancelled d1 where run: "readRunFrom env d k False = Inr (Some run)"
    and final: "r_status run \<noteq> Run_Completed"
    and cancelled: "requireRun env (cancelledRun decoded run) = Inr cancelled"
    and d1: "commitSuffixV1 env d (r_sessionId run) (r_previousEventCount run) decoded = Inr d1"
    and d': "d' = releaseActive k (leaveQueueV1 run (putRun k (storedRunRecordV2 cancelled) d1))"
    using assms by (auto simp: cancelStoredRun_def hydratedRun_readRunFrom rbind_Inr_iff
        split: option.splits if_splits)
  have "shapeOf cancelled = (shapeOf run)\<lparr>sh_status := Run_Cancelled\<rparr>" "r_runId cancelled = r_runId run"
    using requireRun_shape [OF cancelled] by (simp_all add: cancelledRun_shape)
  from settled_stored [OF run d1 this _ final, of "[]"] show ?thesis by (simp add: d')
qed simp

lemma failStoredRun_follows:
  assumes "failStoredRun env now d k events failure hook = Inr (settled, d')"
  shows "follows d d'"
proof (cases "d' = d")
  case False
  then obtain run where run: "readRunFrom env d k False = Inr (Some run)" "r_status run \<noteq> Run_Completed"
    using assms by (auto simp: failStoredRun_def hydratedRun_readRunFrom rbind_Inr_iff
        split: option.splits if_splits)
  show ?thesis
  proof (cases "stopRequested run")
    case True
    with assms run have "cancelStoredRun env now d k events = Inr (settled, d')"
      by (simp add: failStoredRun_def hydratedRun_readRunFrom)
    then show ?thesis by (rule cancelStoredRun_follows)
  next
    case False
    with assms run obtain decoded failed contributed d1 where
      failed: "requireRun env ((storedRunEventFieldsV2 (r_previousEventCount run) decoded run)
                 \<lparr>r_status := Run_Failed, r_failure := Some failure\<rparr>) = Inr failed"
      and d1: "commitSuffixV1 env d (r_sessionId run) (r_previousEventCount run) decoded = Inr d1"
      and d': "d' = releaseActive k (leaveQueueV1 run (putPackages contributed
                 (putRun k (storedRunRecordV2 failed) d1)))"
      by (auto simp: failStoredRun_def hydratedRun_readRunFrom rbind_Inr_iff)
    have "shapeOf failed = (shapeOf run)\<lparr>sh_status := Run_Failed\<rparr>" "r_runId failed = r_runId run"
      using requireRun_shape [OF failed] by simp_all
    from settled_stored [OF run(1) d1 this _ run(2)] False show ?thesis by (simp add: d')
  qed
qed simp

text \<open>What every settlement does after its transaction.\<close>

lemma settled_carries:
  assumes "follows d d1" and "publishSettled env k d1 = Inr d2"
    and "refreshRecoveryAlarm env exec now d2 = Inr d3"
  shows "carries d (clearRunRepair k' d3)"
proof -
  have "follows d d2" using follows_eq [OF assms(1) publishSettled_sched [OF assms(2)]] .
  from carries_trans [OF refresh_carries [OF this assms(3)] carries_beside(1)] show ?thesis .
qed

lemma settled_cleared_carries:
  assumes "follows d d1" and "publishSettled env k d1 = Inr d2"
    and "refreshRecoveryAlarm env exec now (clearRunRepair k' d2) = Inr d3"
  shows "carries d d3"
proof -
  have "follows d d2" using follows_eq [OF assms(1) publishSettled_sched [OF assms(2)]] .
  then have "follows d (clearRunRepair k' d2)" by (rule follows_eq) simp
  then show ?thesis using assms(3) by (rule refresh_carries)
qed

lemma completeRun_carries: "completeRun env exec now k result snapshot d = Inr d' \<Longrightarrow> carries d d'"
  by (auto simp: completeRun_def rbind_Inr_iff intro: settled_carries [OF completeStoredRun_follows])

lemma failRun_carries: "failRun env exec now t k events failure d = Inr d' \<Longrightarrow> carries d d'"
  by (auto simp: failRun_def rbind_Inr_iff intro: settled_carries [OF failStoredRun_follows])

lemma settleStopped_carries:
  "settleStoppedParkedRun env exec now t k d = Inr (done0, d') \<Longrightarrow> carries d d'"
  by (auto simp: settleStoppedParkedRun_def rbind_Inr_iff split: option.splits if_splits
      intro: settled_cleared_carries [OF failStoredRun_follows])

lemma settleStaleRun_carries:
  assumes "settleStaleRun env exec now t k d = Inr d'"
  shows "carries d d'"
proof (cases "d' = d")
  case False
  with assms obtain events failure hook settled d1 d2 where
    "failStoredRun env t d k events failure hook = Inr (settled, d1)"
    "publishSettled env k d1 = Inr d2" "refreshRecoveryAlarm env exec now d2 = Inr d'"
    by (auto simp: settleStaleRun_def rbind_Inr_iff split: option.splits if_splits)
  from follows_eq [OF failStoredRun_follows [OF this(1)] publishSettled_sched [OF this(2)]] this(3)
  show ?thesis by (rule refresh_carries)
qed simp

end
