(* ===== verification/Authority_Recovery.thy ===== *)
theory Authority_Recovery
  imports Authority_Steps
begin

text \<open>
  The repairs of stale runs, recovery, the queue loop, the alarm and the stop command follow the
  scheduler too, and leave owed work with an alarm.
\<close>

section \<open>Records beside a Turn\<close>

lemma unadmittedRecord_shape:
  "sh_status (shapeOf (unadmittedRecord c failure snapshot)) = Run_Failed"
  "r_runId (unadmittedRecord c failure snapshot) = oc_runId c"
  by (simp_all add: unadmittedRecord_def Let_def oc_runId_def)

lemma recordUnadmitted_carries:
  assumes env: "env_ok env" and "recordUnadmittedFailure env c failure snapshot d = Inr (stored, d')"
  shows "carries d d'"
proof (cases "d' = d")
  case False
  with assms(2) obtain run where new: "runAt d (oc_runId c) = None"
    and run: "requireRun env (unadmittedRecord c failure snapshot) = Inr run"
    and d': "d' = (putRun (oc_runId c) (storedRunRecordV2 run) d)
        \<lparr>d_runIndex := kv_put (runIndexKey (cmd_acceptedAt (oc_command c)) (oc_runId c)) (oc_runId c)
           (d_runIndex (putRun (oc_runId c) (storedRunRecordV2 run) d))\<rparr>"
    by (auto simp: recordUnadmittedFailure_def rbind_Inr_iff Let_def split: if_splits)
  have k: "isPublicIdentifier (oc_runId c)"
    using requireRun_public [OF env run] by (simp only: unadmittedRecord_shape)
  have shape: "sh_status (shapeOf run) = Run_Failed" "r_runId run = oc_runId c"
    using requireRun_shape [OF run] unadmittedRecord_shape by metis+
  have "sched_step (schedOf d) (setRun (oc_runId c) (shapeOf run) (schedOf d))"
    by (rule refuse) (use new k shape in simp_all)
  then have "follows d d'" unfolding d'
    by (intro follows_putRun) (simp_all add: shape(2) keys_ok_putRun)
  then show ?thesis by (rule carries_sameI) (simp_all add: d')
qed simp

lemma repinRun_carries:
  assumes "repinRun env k generationId d = Inr d'"
  shows "carries d d'"
proof (cases "d' = d")
  case False
  with assms obtain run where run: "optionalRun env d k = Inr (Some run)"
    and d': "d' = putRun k (storedRunRecordV2 (run\<lparr>r_mounted := Some generationId\<rparr>)) d"
    by (auto simp: repinRun_def rbind_Inr_iff split: option.splits if_splits)
  have "follows d d'" unfolding d'
    by (rule follows_restore) (use optionalRun_shape [OF run] in simp_all)
  then show ?thesis by (rule carries_sameI) (simp_all add: d')
qed simp

lemma fenceRunAdmission_carries:
  "fenceRunAdmission env who k d = Inr (found, d') \<Longrightarrow> carries d d'"
  by (auto simp: fenceRunAdmission_def rbind_Inr_iff Let_def split: option.splits if_splits
      intro!: carries_sameI follows_same)

lemma assertIdentity_carries: "assertIdentity who d = Inr d' \<Longrightarrow> carries d d'"
  by (auto simp: assertIdentity_def rbind_Inr_iff intro!: carries_sameI follows_same)

lemma notification_carries:
  "carries d (recordNotification notificationId intent d)"
  "carries d (acknowledgeNotification notificationId d)"
  by (auto simp: recordNotification_def acknowledgeNotification_def putNotification_def
      intro!: carries_sameI follows_same)

lemma drainPublication_carries:
  assumes "drainPublication env exec now delivered d = Inr (again, d')"
  shows "carries d d'"
proof (cases "d' = d")
  case False
  with assms obtain p where "refreshRecoveryAlarm env exec now (d\<lparr>d_publication := p\<rparr>) = Inr d'"
    by (auto simp: drainPublication_def rbind_Inr_iff split: if_splits)
  moreover have "follows d (d\<lparr>d_publication := p\<rparr>)" by (rule follows_same) simp_all
  ultimately show ?thesis using refresh_carries by blast
qed simp

section \<open>Repairs\<close>

lemma drainRepairs_step:
  assumes "drainRepairs env exec now t active ((key, k) # due) d = Inr d'"
  shows "d' = d \<or> (\<exists>d1. carries d d1 \<and> drainRepairs env exec now t active due d1 = Inr d')"
proof (cases "int (repairDueOf key) > now \<or> Some k = exec \<or> Some k = active")
  case False
  then obtain found where found: "optionalRun env d k = Inr found"
    using assms by (auto simp: rbind_Inr_iff)
  show ?thesis
  proof (cases "isRunning found \<and> \<not> waitsItsTurn found")
    case True
    with False assms found obtain d1 again where d1: "settleStaleRun env exec now t k d = Inr d1"
      and rest: "drainRepairs env exec now t active due
           (if \<not> isRunning again then deleteRepair key k d1 else d1) = Inr d'"
      by (auto simp: rbind_Inr_iff)
    have "carries d1 (if \<not> isRunning again then deleteRepair key k d1 else d1)"
      by (simp add: carries_beside)
    with carries_trans [OF settleStaleRun_carries [OF d1] this] rest show ?thesis by blast
  next
    case dead: False
    have "drainRepairs env exec now t active due (deleteRepair key k d) = Inr d'"
      using assms False found dead by auto
    with carries_beside(2) show ?thesis by blast
  qed
qed (use assms carries_refl in \<open>auto split: if_splits\<close>)

lemma drainRepairs_carries: "drainRepairs env exec now t active due d = Inr d' \<Longrightarrow> carries d d'"
proof (induction due arbitrary: d)
  case (Cons e due)
  obtain key k where e: "e = (key, k)" by (cases e)
  from drainRepairs_step [OF Cons.prems [unfolded e]] Cons.IH show ?case
    by (auto intro: carries_trans)
qed simp

lemma drainDueRepairs_carries: "drainDueRepairs env exec now t d = Inr d' \<Longrightarrow> carries d d'"
  unfolding drainDueRepairs_def by (rule drainRepairs_carries)

section \<open>Recovery\<close>

lemma settleRecovered_carries:
  assumes "settleRecovered env exec now k settled = Inr (outcome, d')"
    and "\<And>s d1. settled = Inr (s, d1) \<Longrightarrow> follows d d1"
  shows "carries d d'"
  using assms(1)
  by (auto simp: settleRecovered_def rbind_Inr_iff intro: settled_cleared_carries [OF assms(2)])

lemma recoverRun_fail_carries:
  "settleRecovered env exec now k (failStoredRun env t d k' events failure hook) = Inr (outcome, d') \<Longrightarrow>
   carries d d'"
  by (rule settleRecovered_carries) (auto intro: failStoredRun_follows)

lemma recoverRun_carries:
  assumes recover: "recoverRun env exec now t k run d = Inr (outcome, d')"
    and active: "d_active d = Some k" and run: "readRunFrom env d k False = Inr (Some run)"
  shows "carries d d'"
proof (cases "stopRequested run")
  case True
  with recover show ?thesis
    by (auto simp: recoverRun_def rbind_Inr_iff Let_def intro: recoverRun_fail_carries)
next
  case False
  with recover obtain plan where plan: "planBotRunRecovery (ke_run env) run = Inr plan"
    by (auto simp: recoverRun_def rbind_Inr_iff Let_def)
  note shape = readRunFrom_shape [OF run]
  show ?thesis
  proof (cases plan)
    case (Plan_Complete text0)
    with recover False plan show ?thesis
      by (auto simp: recoverRun_def rbind_Inr_iff Let_def
          intro: settleRecovered_carries completeStoredRun_follows)
  next
    case Plan_Restart
    with recover False plan obtain st where
      st: "truncateSuffix (ke_projector env) (d_log d) (r_sessionId run) (r_previousEventCount run) = Inr st"
      and alarm: "refreshRecoveryAlarm env exec now
           (putRun k (storedRunRecordV2 (restartedRecord run)) (d\<lparr>d_log := st\<rparr>)) = Inr d'"
      by (auto simp: recoverRun_def rbind_Inr_iff Let_def)
    have kept: "runs_kept (d_log d) st" using truncateSuffix_runs [OF st] .
    have "follows d (putRun k (storedRunRecordV2 (restartedRecord run)) (d\<lparr>d_log := st\<rparr>))"
      by (rule follows_putRun)
        (use shape active schedOf_log [OF kept] keys_ok_log [OF kept]
          run_phase [of "schedOf d" k "shapeOf run" Admitted] in
          \<open>simp_all add: restartedRecord_def keys_ok_putRun\<close>)
    then show ?thesis using alarm by (rule refresh_carries)
  next
    case Plan_Resume
    with recover False plan have "executingIn env exec now k run d = Inr d'"
      by (auto simp: recoverRun_def rbind_Inr_iff Let_def)
    from executingIn_carries [OF this active] shape show ?thesis by blast
  qed (use recover False plan in
      \<open>auto simp: recoverRun_def rbind_Inr_iff Let_def intro: recoverRun_fail_carries\<close>)
qed

lemma refresh_self_carries: "refreshRecoveryAlarm env exec now d = Inr d' \<Longrightarrow> carries d d'"
  by (rule refresh_carries) simp_all

lemma recoverActiveRunIn_carries:
  assumes "recoverActiveRunIn env exec now t k d = Inr (outcome, d')" and "d_active d = Some k"
  shows "carries d d'"
proof (cases "d_active d = exec")
  case True
  with assms show ?thesis by (simp add: recoverActiveRunIn_def)
next
  case False
  with assms obtain found where found: "readRunFrom env d k False = Inr found"
    by (auto simp: recoverActiveRunIn_def rbind_Inr_iff)
  show ?thesis
  proof (cases found)
    case None
    with assms False found show ?thesis
      by (auto simp: recoverActiveRunIn_def rbind_Inr_iff intro: refresh_self_carries)
  next
    case (Some run)
    with assms False found show ?thesis
      by (auto simp: recoverActiveRunIn_def rbind_Inr_iff
          intro: recoverRun_carries carries_trans [OF carries_beside(1) refresh_self_carries] split: if_splits)
  qed
qed

lemma recoverQueuedRun_carries:
  "recoverQueuedRun n env exec now waiters d = Inr (outcome, d') \<Longrightarrow> carries d d'"
proof (induction n arbitrary: d)
  case (Suc n)
  show ?case
  proof (cases "if d_pendingUser d = [] then d_parked d else None")
    case (Some k)
    show ?thesis
    proof (cases "exec = Some k")
      case False
      with Suc.prems Some obtain u d1 where u: "unparkRun env exec now k d = Inr (u, d1)"
        and "(case u of Gone \<Rightarrow> recoverQueuedRun n env exec now waiters d1
              | Unpark_Blocked \<Rightarrow> Inr (Queue_Idle, d1)
              | Resumable \<Rightarrow> Inr (Queue_Resume k, d1)) = Inr (outcome, d')"
        by (auto simp: rbind_Inr_iff)
      then have "carries d1 d'" using Suc.IH by (cases u) auto
      with unparkRun_carries [OF u] show ?thesis by (rule carries_trans)
    qed (use Suc.prems Some in simp)
  next
    case None
    show ?thesis
    proof (cases "kv_first (if d_pendingUser d = [] then d_pendingAgent d else d_pendingUser d)")
      case (Some e)
      obtain key k where e: "e = (key, k)" by (cases e)
      show ?thesis
      proof (cases "k \<in> waiters \<or> exec = Some k")
        case False
        with Suc.prems None Some e obtain p d1 where p: "promoteQueuedRun env exec now k d = Inr (p, d1)"
          and "(case p of Not_Queued \<Rightarrow> recoverQueuedRun n env exec now waiters d1
              | Blocked \<Rightarrow> Inr (Queue_Idle, d1)
              | Promoted seed settings g \<Rightarrow> Inr (Queue_Start k seed settings g, d1)) = Inr (outcome, d')"
          by (auto simp: rbind_Inr_iff)
        then have "carries d1 d'" using Suc.IH by (cases p) auto
        with promoteQueuedRun_carries [OF p] show ?thesis by (rule carries_trans)
      qed (use Suc.prems None Some e in simp)
    qed (use Suc.prems None in \<open>simp add: kv_first_def\<close>)
  qed
qed simp

lemma recoverActiveRun_carries:
  "recoverActiveRun env exec now t waiters d = Inr (outcome, d') \<Longrightarrow> carries d d'"
  by (auto simp: recoverActiveRun_def rbind_Inr_iff split: option.splits if_splits
      intro: recoverQueuedRun_carries recoverActiveRunIn_carries)

end
