(* ===== verification/Authority_Machine.thy ===== *)
theory Authority_Machine
  imports Authority_Recovery
begin

text \<open>
  The authority as a state machine over its storage: one constructor of \<open>authority_step\<close> per
  transaction, with the guards its only callers establish, and the storages that are reachable from an
  empty one. The properties of the whole authority stand here, each an instance of the simulation of
  the scheduler.
\<close>

section \<open>The alarm and the stop command\<close>

text \<open>A hook of the Package that writes its own records only.\<close>

definition packageOnly :: "(durable \<Rightarrow> durable) \<Rightarrow> bool" where
  "packageOnly f \<longleftrightarrow> (\<forall>d. \<exists>packages. f d = d\<lparr>d_packages := packages\<rparr>)"

lemma packageOnly_follows: "packageOnly f \<Longrightarrow> follows d (f d)"
  unfolding packageOnly_def by (metis follows_same schedOf_update(12) keys_ok_update(12))

lemma alarmRecovery_follows:
  assumes "packageOnly settleWork"
    and "alarmRecovery env exec now t waiters settleWork d = (outcome, d')"
  shows "follows d d'"
proof -
  have settle: "follows d (settleWork d)" using packageOnly_follows [OF assms(1)] .
  show ?thesis
    using assms(2)
    by (auto simp: alarmRecovery_def Let_def settle split: if_splits sum.splits
        intro: carries_follows [OF recoverQueuedRun_carries]
          follows_trans [OF settle carries_follows [OF recoverActiveRun_carries]])
qed

lemma alarm_follows:
  assumes hooks: "packageOnly deferWork" "packageOnly settleWork"
    and "alarm env exec now t waiters delivered inFlight deferWork settleWork d = Inr (outcome, d')"
  shows "follows d d' \<and> alarmed d'"
proof -
  obtain again d1 d2 d3 where d1: "drainPublication env exec now delivered d = Inr (again, d1)"
    and d2: "drainDueRepairs env exec now t d1 = Inr d2"
    and d3: "d3 = deferWork d2 \<or> (\<exists>o'. alarmRecovery env exec now t waiters settleWork d2 = (o', d3))"
    and d': "refreshRecoveryAlarm env exec now d3 = Inr d'"
    using assms(3) by (auto simp: alarm_def rbind_Inr_iff split: if_splits prod.splits)
  have "follows d d2"
    using carries_follows [OF drainPublication_carries [OF d1]] carries_follows [OF drainDueRepairs_carries [OF d2]]
    by (rule follows_trans)
  moreover have "follows d2 d3" using d3 packageOnly_follows [OF hooks(1)] alarmRecovery_follows [OF hooks(2)] by auto
  ultimately have "follows d d3" by (rule follows_trans)
  with d' show ?thesis using refresh_sched refresh_alarmed follows_eq by blast
qed

lemma stopRunIn_carries:
  assumes "\<And>k. packageOnly (requeue k)"
    and "stopRunIn env exec now t requeue who commandId k receipts d = Inr (stopped, receipts', d')"
  shows "carries d d'"
proof (cases "d' = d")
  case False
  note stop = assms(2) [unfolded stopRunIn_def Let_def]
  obtain found where found: "optionalRun env d k = Inr found"
    using stop by (auto simp: rbind_Inr_iff split: if_splits)
  then obtain run where run: "optionalRun env d k = Inr (Some run)"
    using stop by (cases found) (auto simp: rbind_Inr_iff split: if_splits)
  obtain at0 d2 where
    stopped: "requireRun env (run\<lparr>r_stopRequestedAt := Some at0\<rparr>) = Inr stopped"
    and d2: "d2 = putRun k stopped d \<or> d2 = requeue k (putRun k stopped d)"
    and alarm: "refreshRecoveryAlarm env exec now d2 = Inr d'"
    and kept: "case r_stopRequestedAt run of None \<Rightarrow> True | Some t0 \<Rightarrow> at0 = t0"
    using stop run False by (auto simp: rbind_Inr_iff split: if_splits option.splits)
  note shape = optionalRun_shape [OF run] requireRun_shape [OF stopped]
  have "sched_step (schedOf d) (setRun k ((shapeOf run)\<lparr>sh_stop := truthy (Some at0) \<noteq> None\<rparr>) (schedOf d))"
    by (rule sched_step.stop)
      (use shape kept in \<open>auto simp: stopRequested_def truthy_def split: option.splits\<close>)
  then have "follows d (putRun k stopped d)"
    by (intro follows_putRun) (use shape in \<open>simp_all add: keys_ok_putRun\<close>)
  then have "follows d d2" using d2 packageOnly_follows [OF assms(1)] follows_trans by blast
  then show ?thesis using alarm by (rule refresh_carries)
qed simp

section \<open>The machine\<close>

inductive authority_step :: "authority_env \<Rightarrow> durable \<Rightarrow> durable \<Rightarrow> bool" for env where
  prepare: "prepareAdmission env c d = Inr d' \<Longrightarrow> authority_step env d d'"
| admission: "admitIn env exec now c settings d = Inr (outcome, d') \<Longrightarrow> authority_step env d d'"
| promotion: "promoteQueuedRun env exec now k d = Inr (outcome, d') \<Longrightarrow> authority_step env d d'"
| start: "d_active d = Some k \<Longrightarrow> startAdmittedRun env exec now k d = Inr (inputs, d') \<Longrightarrow>
    authority_step env d d'"
| defer_recovery: "d_active d = Some k \<Longrightarrow> deferRunRecovery env exec now k d = Inr d' \<Longrightarrow> authority_step env d d'"
| parking: "userMessageWaiting env d k = Inr (Some Park_Turn) \<Longrightarrow> parkRun env exec now k d = Inr d' \<Longrightarrow>
    authority_step env d d'"
| unparking: "unparkRun env exec now k d = Inr (outcome, d') \<Longrightarrow> authority_step env d d'"
| persist: "persistRunEvents env exec now k events d = Inr d' \<Longrightarrow> authority_step env d d'"
| quiet: "appendQuietSessionEvents env exec now t k sessionId n bodies d = Inr (appended, d') \<Longrightarrow>
    authority_step env d d'"
| complete: "completeRun env exec now k result snapshot d = Inr d' \<Longrightarrow> authority_step env d d'"
| fail: "failRun env exec now t k events failure d = Inr d' \<Longrightarrow> authority_step env d d'"
| stop_parked: "settleStoppedParkedRun env exec now t k d = Inr (settled, d') \<Longrightarrow> authority_step env d d'"
| unadmitted: "recordUnadmittedFailure env c failure snapshot d = Inr (stored, d') \<Longrightarrow> authority_step env d d'"
| repin: "repinRun env k generationId d = Inr d' \<Longrightarrow> authority_step env d d'"
| fence: "fenceRunAdmission env who k d = Inr (found, d') \<Longrightarrow> authority_step env d d'"
| identity: "assertIdentity who d = Inr d' \<Longrightarrow> authority_step env d d'"
| notify: "authority_step env d (recordNotification notificationId intent d)"
| acknowledge: "authority_step env d (acknowledgeNotification notificationId d)"
| drain: "drainPublication env exec now delivered d = Inr (again, d') \<Longrightarrow> authority_step env d d'"
| stale: "settleStaleRun env exec now t k d = Inr d' \<Longrightarrow> authority_step env d d'"
| recover: "recoverActiveRun env exec now t waiters d = Inr (outcome, d') \<Longrightarrow> authority_step env d d'"
| fires: "packageOnly deferWork \<Longrightarrow> packageOnly settleWork \<Longrightarrow>
    alarm env exec now t waiters delivered inFlight deferWork settleWork (d\<lparr>d_alarm := None\<rparr>)
      = Inr (outcome, d') \<Longrightarrow> authority_step env d d'"
| stop: "(\<And>r. packageOnly (requeue r)) \<Longrightarrow>
    stopRunIn env exec now t requeue who commandId k receipts d = Inr (stopped, receipts', d') \<Longrightarrow>
    authority_step env d d'"
| package: "packageOnly f \<Longrightarrow> authority_step env d (f d)"

inductive_cases authority_stepE: "authority_step env d d'"

definition emptyStorage :: durable where
  "emptyStorage =
     \<lparr>d_log = \<lparr>ls_index = [], ls_pages = [], ls_payload = [], ls_legacy = None, ls_heads = [],
        ls_runs = []\<rparr>,
      d_active = None, d_parked = None, d_pendingUser = [], d_pendingAgent = [], d_runIndex = [],
      d_fences = None, d_fenceMarks = [], d_repairDue = [], d_repairRun = [], d_identity = None,
      d_notifications = [], d_packages = [],
      d_publication = \<lparr>pb_head = None, pb_rows = [], pb_updates = [], pb_pending = [], pb_index = None\<rparr>,
      d_alarm = None\<rparr>"

definition reachable :: "authority_env \<Rightarrow> durable \<Rightarrow> bool" where
  "reachable env d \<longleftrightarrow> (authority_step env)\<^sup>*\<^sup>* emptyStorage d"

definition owed_ok :: "durable \<Rightarrow> bool" where
  "owed_ok d \<longleftrightarrow> keys_ok d \<and> sched_ok (schedOf d) \<and> alarmed d"

lemma userMessageWaiting_park:
  assumes "userMessageWaiting env d k = Inr (Some Park_Turn)"
  shows "d_active d = Some k \<and> d_parked d = None"
proof -
  obtain found where "d_active d = Some k" "optionalRun env d k = Inr found"
    using assms by (auto simp: userMessageWaiting_def rbind_Inr_iff split: if_splits)
  with assms show ?thesis
    by (cases found) (simp_all add: userMessageWaiting_def split: if_splits)
qed

lemma alarm_step:
  assumes "packageOnly deferWork" "packageOnly settleWork"
    and "alarm env exec now t waiters delivered inFlight deferWork settleWork (d\<lparr>d_alarm := None\<rparr>) = Inr (outcome, d')"
  shows "carries d d'"
proof -
  have "follows d (d\<lparr>d_alarm := None\<rparr>)" by (rule follows_same) simp_all
  with alarm_follows [OF assms] show ?thesis using follows_trans unfolding carries_def by blast
qed

lemma packageOnly_carries: "packageOnly f \<Longrightarrow> carries d (f d)"
  by (rule carries_sameI [OF packageOnly_follows]) (auto simp: packageOnly_def dest!: spec [of _ d])

lemma authority_step_carries:
  assumes env: "env_ok env" and "authority_step env d d'"
  shows "carries d d'"
  using assms(2)
proof (cases rule: authority_step.cases)
  case (parking k exec now)
  then show ?thesis using userMessageWaiting_park parkRun_carries by blast
qed (use env in \<open>auto intro: prepareAdmission_carries admitIn_carries promoteQueuedRun_carries
    startAdmittedRun_carries deferRunRecovery_carries unparkRun_carries persistRunEvents_carries
    appendQuiet_carries completeRun_carries failRun_carries settleStopped_carries
    recordUnadmitted_carries repinRun_carries fenceRunAdmission_carries assertIdentity_carries
    notification_carries drainPublication_carries settleStaleRun_carries recoverActiveRun_carries
    alarm_step stopRunIn_carries packageOnly_carries\<close>)

lemma emptyStorage_ok: "owed_ok emptyStorage"
  by (simp add: owed_ok_def emptyStorage_def keys_ok_def runAt_def schedOf_def sched_ok_def entries_ok_def
      alarmed_def workOwed_def)

lemma carries_owed_ok: "carries d d' \<Longrightarrow> owed_ok d \<Longrightarrow> owed_ok d'"
  unfolding owed_ok_def carries_def follows_def using sched_steps_ok by blast

lemma reachable_ok:
  assumes "env_ok env" and "reachable env d"
  shows "owed_ok d \<and> sched_step\<^sup>*\<^sup>* (schedOf emptyStorage) (schedOf d)"
  using assms(2) unfolding reachable_def
proof (induction rule: rtranclp_induct)
  case base
  show ?case using emptyStorage_ok by simp
next
  case (step d d')
  have c: "carries d d'" using authority_step_carries [OF assms(1) step(2)] .
  with step(3) have "sched_step\<^sup>*\<^sup>* (schedOf d) (schedOf d')"
    by (simp add: carries_def follows_def owed_ok_def)
  with step(3) carries_owed_ok [OF c] show ?case by (meson rtranclp_trans)
qed

end
