(* ===== verification/Authority_Samples.thy ===== *)
theory Authority_Samples
  imports Authority_Machine
begin

text \<open>
  A concrete environment, one message and the storages it passes through: admitted, stopped, queued
  behind nothing. They are evaluated here and used as the instances at which the properties of the
  authority apply.
\<close>

definition sampleEnv :: authority_env where
  "sampleEnv =
     \<lparr>ke_run = sampleHooks\<lparr>h_runId := isPublicIdentifier\<rparr>,
      ke_log = \<lparr>lc_json = (\<lambda>event. JNull), lc_decode = (\<lambda>j. None), lc_sha256 = (\<lambda>s. [])\<rparr>,
      ke_projector = None, ae_deadlines = (\<lambda>d. []), ae_admittedSnapshot = (\<lambda>d settings. settings),
      ae_preparedInputs = (\<lambda>settings. None), ae_pin = (\<lambda>d. ''g''), ae_journalMessage = (\<lambda>e. []),
      ae_notification = (\<lambda>settings result. None), ae_terminalRecords = None, ae_failureRecords = None,
      ae_eventRecords = None, ae_visible = Some (\<lambda>cause run events. [])\<rparr>"

lemma sampleEnv_simps [simp]:
  "ke_run sampleEnv = sampleHooks\<lparr>h_runId := isPublicIdentifier\<rparr>" "ke_projector sampleEnv = None"
  "ae_deadlines sampleEnv d = []" "ae_admittedSnapshot sampleEnv d settings = settings"
  "ae_preparedInputs sampleEnv settings = None" "ae_pin sampleEnv d = ''g''"
  "ae_notification sampleEnv settings result = None" "ae_terminalRecords sampleEnv = None"
  "ae_failureRecords sampleEnv = None" "ae_eventRecords sampleEnv = None"
  "ae_visible sampleEnv = Some (\<lambda>cause run events. [])"
  by (simp_all add: sampleEnv_def)

lemma sampleEnv_ok: "env_ok sampleEnv"
  by (simp add: env_ok_def)

definition sampleOwned :: owned_command where
  "sampleOwned = \<lparr>oc_identity = \<lparr>id_user = ''u'', id_bot = ''b''\<rparr>, oc_command = sampleCommand ''r'' ''hi''\<rparr>"

lemma sample_prepared: "prepareAdmission sampleEnv sampleOwned emptyStorage = Inr emptyStorage"
  by code_simp

lemma sample_units_length: "length (quoteUnits s) \<le> 6 * length s"
  by (induction s rule: quoteUnits.induct) (auto simp: escapeUnit_def hex4_def)

lemma sample_quote_length: "length (quoteJson s) \<le> 6 * length s + 2"
  using sample_units_length [of s] by (simp add: quoteJson_def)

lemma fingerprint_length: "length (ownedFingerprint sampleOwned) \<le> 1000"
proof -
  show ?thesis using sample_quote_length [of "js ''userId''"]
     sample_quote_length [of "js ''botId''"]
     sample_quote_length [of "js ''sessionId''"]
     sample_quote_length [of "js ''text''"]
     sample_quote_length [of "js ''u''"]
     sample_quote_length [of "js ''b''"]
     sample_quote_length [of "js ''s''"]
     sample_quote_length [of "js ''hi''"]
  by (simp add: ownedFingerprint_def sampleOwned_def botTurnCommandFingerprintV1_def
     commandIsV2_def sampleCommand_def commandTurnType_def commandLane_def commandJsonV1_def del: js_simps)
qed

lemma fingerprint_fits: "boundedString (ownedFingerprint sampleOwned) 65536 False"
proof -
  have "ownedFingerprint sampleOwned \<noteq> []"
    by (simp add: ownedFingerprint_def botTurnCommandFingerprintV1_def)
  with fingerprint_length utf8_length_le3 [of "ownedFingerprint sampleOwned"] show ?thesis
    by (simp add: boundedString_def)
qed

text \<open>The record of the sample message, in a phase, stopped or not.\<close>

definition sampleRecord :: "run_phase \<Rightarrow> string option \<Rightarrow> stored_run" where
  "sampleRecord phase stopAt =
     \<lparr>r_runId = ''r'', r_fingerprint = ownedFingerprint sampleOwned, r_sessionId = ''s'',
      r_acceptedAt = ''t'', r_input = js ''hi'', r_attachments = None, r_retryOf = None,
      r_retriedBy = None, r_messageRunId = None, r_messageAdmittedAt = None, r_landedAt = None,
      r_events = None, r_eventRange = Some (0, 0), r_effects = [], r_status = Run_Running,
      r_responseText = None, r_failure = None, r_phase = phase, r_stopRequestedAt = stopAt,
      r_composition = ''g'', r_mounted = None, r_prepared = None, r_snapshot = JNull,
      r_previousEventCount = 0, r_admission = None\<rparr>"

lemma codec_accepts:
  "stopAt \<noteq> Some [] \<Longrightarrow> stopAt = None \<or> stopAt = Some ''t'' \<Longrightarrow> evs = None \<or> evs = Some [] \<Longrightarrow>
   g = Some (0, 0) \<or> g = None \<and> evs = Some [] \<Longrightarrow>
   requireRun sampleEnv ((sampleRecord phase stopAt)\<lparr>r_events := evs, r_eventRange := g\<rparr>) =
     Inr ((sampleRecord phase stopAt)\<lparr>r_events := Some [], r_eventRange := g\<rparr>)"
  using fingerprint_fits
  by (auto simp add: requireRun_def requireStoredRunRecordV1_def sampleRecord_def sampleHooks_def
      isPublicIdentifier_def identifierStart_def
      boundedText_def validTime_def runEvents_def requireEventRange_def decodeStoredEffectAdmissions_def mapError_def
      requireRangeMatches_def requireLineage_def lineageField_def requireLanding_def
      requireOutcomeFields_def rguard_def boundedString_def
      utf8_length_def encode_unit_def high_surrogate_def low_surrogate_def)


lemma emptyStorage_simps:
  "d_active emptyStorage = None" "d_parked emptyStorage = None" "d_pendingUser emptyStorage = []"
  "d_pendingAgent emptyStorage = []" "d_runIndex emptyStorage = []" "d_fences emptyStorage = None"
  "d_fenceMarks emptyStorage = []" "d_repairDue emptyStorage = []" "d_repairRun emptyStorage = []"
  "d_identity emptyStorage = None" "pb_pending (d_publication emptyStorage) = []"
  "ls_runs (d_log emptyStorage) = []" "runAt emptyStorage k = None"
  by (simp_all add: emptyStorage_def runAt_def)

lemma empty_cursor: "cur_nextSeq (cursorOf (cursorAt emptyStorage ''s'')) = 0"
  by code_simp

lemma sampleOwned_simps [simp]:
  "oc_runId sampleOwned = ''r''" "oc_identity sampleOwned = \<lparr>id_user = ''u'', id_bot = ''b''\<rparr>"
  "oc_command sampleOwned = sampleCommand ''r'' ''hi''"
  by (simp_all add: sampleOwned_def oc_runId_def sampleCommand_def)

lemma sampleCommand_simps [simp]:
  "cmd_runId (sampleCommand r x) = r" "cmd_retryOf (sampleCommand r x) = None"
  "cmd_sessionId (sampleCommand r x) = ''s''" "cmd_acceptedAt (sampleCommand r x) = ''t''"
  "cmd_text (sampleCommand r x) = js x" "cmd_attachments (sampleCommand r x) = []"
  "cmd_turnType (sampleCommand r x) = None" "cmd_subagentRole (sampleCommand r x) = None"
  "cmd_origin (sampleCommand r x) = None" "cmd_lane (sampleCommand r x) = None"
  "commandLane (sampleCommand r x) = Lane_User"
  by (simp_all add: sampleCommand_def commandLane_def commandTurnType_def defaultRunLaneV1_def)

lemma sample_admitted:
  "admittedRecord sampleEnv sampleOwned settings None None emptyStorage =
     (sampleRecord Admitted None)\<lparr>r_events := Some [], r_eventRange := None, r_snapshot := settings\<rparr>"
  by (simp add: admittedRecord_def sampleRecord_def commandAttachments_def empty_cursor
      admissionQueued_def storedRunAdmissionV1_def Let_def emptyStorage_simps)

definition admittedStorage :: durable where
  "admittedStorage =
     emptyStorage\<lparr>d_log := (d_log emptyStorage)\<lparr>ls_runs := [(''run:r'', sampleRecord Admitted None)]\<rparr>,
       d_active := Some ''r'', d_runIndex := [(runIndexKey ''t'' ''r'', ''r'')],
       d_repairDue := d_repairDue (runRepairRecordsV1 ''r'' 0 emptyStorage),
       d_repairRun := d_repairRun (runRepairRecordsV1 ''r'' 0 emptyStorage),
       d_identity := Some \<lparr>id_user = ''u'', id_bot = ''b''\<rparr>,
       d_alarm := Some RECOVERY_ALARM_DELAY_MS\<rparr>"

lemma sample_guards:
  "optionalRun env emptyStorage k = Inr None" "refuseFenced k emptyStorage = Inr ()"
  "validateIdentity who emptyStorage = Inr ()"
  "retryTargetOf env (sampleCommand r x) emptyStorage = Inr None"
  "laneOpen Lane_User emptyStorage = Inr ()" "landingOf env emptyStorage = Inr None"
  "\<not> admissionQueued Lane_User emptyStorage"
  by (simp_all add: optionalRun_None emptyStorage_simps refuseFenced_def fencedIn_def
      storedRunAdmissionFences_def mapError_def validateIdentity_def retryTargetOf_def laneOpen_def
      landingOf_def admissionQueued_def)

lemma sample_stored:
  "storedRunRecordV2 ((sampleRecord phase stopAt)\<lparr>r_events := Some [], r_eventRange := None\<rparr>) =
     sampleRecord phase stopAt"
  "storedRunRecordV2 ((sampleRecord phase stopAt)\<lparr>r_events := Some []\<rparr>) = sampleRecord phase stopAt"
  by (simp_all add: storedRunRecordV2_def runEvents_def sampleRecord_def)

lemma commitVisible_sample [simp]: "commitVisible sampleEnv cause run events d = Inr d"
  by (simp add: commitVisible_def commitPublicationsV1_def mapError_def)

lemma putAdmitted_sample:
  "putAdmitted sampleEnv sampleOwned ((sampleRecord Admitted None)\<lparr>r_events := Some [], r_eventRange := None\<rparr>)
     None emptyStorage = admittedStorage\<lparr>d_alarm := None\<rparr>"
  by (simp add: putAdmitted_def Let_def sample_stored admissionQueued_def admittedStorage_def putRun_def
      emptyStorage_def runRepairRecordsV1_def sampleHooks_def runKey_def RUN_PREFIX_def)

lemma codec_accepts_stored:
  assumes "stopAt = None \<or> stopAt = Some ''t''" and "evs = None \<or> evs = Some []"
  shows "requireRun sampleEnv ((sampleRecord phase stopAt)\<lparr>r_events := evs\<rparr>) =
    Inr ((sampleRecord phase stopAt)\<lparr>r_events := Some []\<rparr>)"
  using codec_accepts [of stopAt evs "Some (0, 0)" phase] assms by (auto simp: sampleRecord_def)

lemma optionalRun_sample:
  assumes "runAt d ''r'' = Some ((sampleRecord phase stopAt)\<lparr>r_events := evs\<rparr>)"
    and "stopAt = None \<or> stopAt = Some ''t''" and "evs = None \<or> evs = Some []"
  shows "optionalRun sampleEnv d ''r'' = Inr (Some ((sampleRecord phase stopAt)\<lparr>r_events := Some []\<rparr>))"
  using assms(1) codec_accepts_stored [OF assms(2,3)]
  by (auto simp: optionalRun_def optionalStoredRun_def requireRun_def rbind_Inr_iff)

lemma sampleRecord_events: "sampleRecord phase stopAt = (sampleRecord phase stopAt)\<lparr>r_events := None\<rparr>"
  by (simp add: sampleRecord_def)

lemma admitted_run:
  "runAt (admittedStorage\<lparr>d_alarm := al\<rparr>) ''r'' = Some ((sampleRecord Admitted None)\<lparr>r_events := None\<rparr>)"
  by (simp add: admittedStorage_def runAt_def runKey_def RUN_PREFIX_def kv_get_def sampleRecord_events [symmetric])

lemma refresh_sample:
  assumes "d_active d = Some ''r''" and "d_repairDue d = d_repairDue admittedStorage"
    and "pb_pending (d_publication d) = []" and "optionalRun sampleEnv d ''r'' = Inr found"
  shows "refreshRecoveryAlarm sampleEnv exec 0 d = Inr (d\<lparr>d_alarm := Some RECOVERY_ALARM_DELAY_MS\<rparr>)"
proof -
  have "recoveryDeadlines sampleEnv exec 0 d = [RECOVERY_ALARM_DELAY_MS]"
    using assms by (simp add: recoveryDeadlines_def admittedStorage_def emptyStorage_simps nextRepairDue_def
        runRepairRecordsV1_def Let_def)
  then show ?thesis using assms by (simp add: refreshRecoveryAlarm_def)
qed

lemma admitted_refresh:
  "refreshRecoveryAlarm sampleEnv exec 0 (admittedStorage\<lparr>d_alarm := al\<rparr>) = Inr admittedStorage"
proof -
  have "d_active (admittedStorage\<lparr>d_alarm := al\<rparr>) = Some ''r''"
    "d_repairDue (admittedStorage\<lparr>d_alarm := al\<rparr>) = d_repairDue admittedStorage"
    "pb_pending (d_publication (admittedStorage\<lparr>d_alarm := al\<rparr>)) = []"
    "admittedStorage\<lparr>d_alarm := Some RECOVERY_ALARM_DELAY_MS\<rparr> = admittedStorage"
    by (simp_all add: admittedStorage_def emptyStorage_simps)
  with refresh_sample [OF this(1-3) optionalRun_sample [OF admitted_run]] show ?thesis by simp
qed

lemma sample_admission:
  "admitIn sampleEnv None 0 sampleOwned JNull emptyStorage =
     Inr (Admitted_Active (cursorAt emptyStorage ''s'') JNull ''g'', admittedStorage)"
proof -
  have "(sampleRecord Admitted None)\<lparr>r_events := Some [], r_eventRange := None, r_snapshot := JNull\<rparr> =
      (sampleRecord Admitted None)\<lparr>r_events := Some [], r_eventRange := None\<rparr>"
    by (simp add: sampleRecord_def)
  with codec_accepts [of None "Some []" None Admitted] show ?thesis
    by (simp add: admitIn_def Let_def sample_guards sample_admitted putAdmitted_sample admitted_refresh)
qed


lemma sample_reachable: "reachable sampleEnv admittedStorage"
  unfolding reachable_def by (rule r_into_rtranclp) (rule authority_step.admission [OF sample_admission])

lemma sample_readRun:
  assumes "runAt d ''r'' = Some ((sampleRecord phase stopAt)\<lparr>r_events := evs\<rparr>)"
    and "stopAt = None \<or> stopAt = Some ''t''" and "evs = None \<or> evs = Some []"
    and "readRange (ke_log sampleEnv) (d_log d) ''s'' 0 0 = Inr []"
  shows "readRunFrom sampleEnv d ''r'' False = Inr (Some ((sampleRecord phase stopAt)\<lparr>r_events := Some []\<rparr>))"
proof -
  have fields: "r_eventRange (sampleRecord phase stopAt) = Some (0, 0)" "r_sessionId (sampleRecord phase stopAt) = ''s''"
    by (simp_all add: sampleRecord_def)
  show ?thesis
    using codec_accepts_stored [OF assms(2), of "Some []" phase]
    by (simp add: readRunFrom_def optionalRun_sample [OF assms(1-3)] hydrateWith_def fields assms(4) mapError_def)
qed

lemma admitted_range: "readRange (ke_log sampleEnv) (d_log admittedStorage) ''s'' 0 0 = Inr []"
  by (simp add: admittedStorage_def emptyStorage_def readRange_def rangeEvents_def safeRange_def indexOf_def
      readLog_def requireIndex_def legacyEvents_def)

lemma sample_admit:
  "admit sampleEnv None 0 sampleOwned JNull emptyStorage =
     Inr (Receipt_Accepted (Admitted_Active (cursorAt emptyStorage ''s'') JNull ''g''), admittedStorage)"
  by (simp add: admit_def assertMatchingRunCommand_def readRun_def readRunFrom_def sample_guards acceptRun_def
      sample_prepared sample_admission)

lemma sample_admit_again:
  "admit sampleEnv exec now sampleOwned settings admittedStorage =
     Inr (Receipt_Replayed Replay_Running, admittedStorage)"
proof -
  note run = admitted_run [of "d_alarm admittedStorage", simplified]
  have print: "r_fingerprint (sampleRecord phase stopAt) = ownedFingerprint sampleOwned"
    "r_runId (sampleRecord phase stopAt) = ''r''" "r_status (sampleRecord phase stopAt) = Run_Running"
    "r_phase (sampleRecord phase stopAt) = phase"
    for phase stopAt by (simp_all add: sampleRecord_def)
  show ?thesis
    by (simp add: admit_def assertMatchingRunCommand_def readRun_def optionalRun_sample [OF run] print
        sample_readRun [OF run _ _ admitted_range] replayAdmission_def)
qed

definition stoppedStorage :: durable where
  "stoppedStorage = putRun ''r'' ((sampleRecord Admitted (Some ''t''))\<lparr>r_events := Some []\<rparr>) admittedStorage"

lemma sample_stop:
  "stopRunIn sampleEnv None 0 ''t'' (\<lambda>k d. d) \<lparr>id_user = ''u'', id_bot = ''b''\<rparr> ''c'' ''r'' [] admittedStorage =
     Inr ((sampleRecord Admitted (Some ''t''))\<lparr>r_events := Some []\<rparr>,
       [(''stop-receipt:c'', botStopCommandFingerprintV1 (js ''u'') (js ''b'') ''r'', ''t'')], stoppedStorage)"
proof -
  note run = admitted_run [of "d_alarm admittedStorage", simplified]
  have who: "validateIdentity \<lparr>id_user = ''u'', id_bot = ''b''\<rparr> admittedStorage = Inr ()"
    by (simp add: validateIdentity_def admittedStorage_def)
  have stopped: "(sampleRecord Admitted None)\<lparr>r_events := Some [], r_stopRequestedAt := Some ''t''\<rparr> =
      (sampleRecord Admitted (Some ''t''))\<lparr>r_events := Some []\<rparr>"
    by (simp add: sampleRecord_def)
  have codec: "requireRun sampleEnv ((sampleRecord Admitted (Some ''t''))\<lparr>r_events := Some []\<rparr>) =
      Inr ((sampleRecord Admitted (Some ''t''))\<lparr>r_events := Some []\<rparr>)"
    by (rule codec_accepts_stored) simp_all
  have stored: "runAt stoppedStorage ''r'' = Some ((sampleRecord Admitted (Some ''t''))\<lparr>r_events := Some []\<rparr>)"
    by (simp add: stoppedStorage_def)
  have "d_active stoppedStorage = Some ''r''" "d_repairDue stoppedStorage = d_repairDue admittedStorage"
    "pb_pending (d_publication stoppedStorage) = []"
    "stoppedStorage\<lparr>d_alarm := Some RECOVERY_ALARM_DELAY_MS\<rparr> = stoppedStorage"
    by (simp_all add: stoppedStorage_def admittedStorage_def emptyStorage_simps putRun_def)
  with refresh_sample [OF this(1-3) optionalRun_sample [OF stored]]
  have refresh: "refreshRecoveryAlarm sampleEnv None 0 stoppedStorage = Inr stoppedStorage" by simp
  have start: "r_status (sampleRecord phase stopAt) = Run_Running" "r_admission (sampleRecord phase stopAt) = None"
    "r_stopRequestedAt (sampleRecord phase stopAt) = stopAt" for phase stopAt
    by (simp_all add: sampleRecord_def)
  show ?thesis
    using refresh
    by (simp add: stopRunIn_def Let_def who optionalRun_sample [OF run] stopped codec start runEvents_def
        STOP_RECEIPT_PREFIX_def stoppedStorage_def storedRunIsDeliveryV1_def isDeliveryOriginV1_def
        del: js_simps)
qed

lemma sample_stop_step: "authority_step sampleEnv admittedStorage stoppedStorage"
proof (rule authority_step.stop [OF _ sample_stop])
  have "d = d\<lparr>d_packages := d_packages d\<rparr>" for d :: durable by simp
  then show "packageOnly (\<lambda>d. d)" unfolding packageOnly_def by blast
qed

lemma stopped_run: "runAt stoppedStorage ''r'' = Some ((sampleRecord Admitted (Some ''t''))\<lparr>r_events := Some []\<rparr>)"
  by (simp add: stoppedStorage_def)

definition queuedStorage :: durable where
  "queuedStorage =
     emptyStorage\<lparr>d_log := (d_log emptyStorage)\<lparr>ls_runs := [(''run:r'', sampleRecord Queued None),
         (''run:s'', (sampleRecord Queued None)\<lparr>r_runId := ''s'', r_acceptedAt := ''u''\<rparr>)]\<rparr>,
       d_pendingUser := [(pendingUserRunKey ''t'' ''r'', ''r''), (pendingUserRunKey ''u'' ''s'', ''s'')],
       d_alarm := Some RECOVERY_ALARM_DELAY_MS\<rparr>"

lemma queued_simps:
  "d_active queuedStorage = None" "d_parked queuedStorage = None" "d_pendingAgent queuedStorage = []"
  "d_pendingUser queuedStorage = [(pendingUserRunKey ''t'' ''r'', ''r''), (pendingUserRunKey ''u'' ''s'', ''s'')]"
  "runAt queuedStorage k = (if k = ''r'' then Some (sampleRecord Queued None)
     else if k = ''s'' then Some ((sampleRecord Queued None)\<lparr>r_runId := ''s'', r_acceptedAt := ''u''\<rparr>) else None)"
  "pb_pending (d_publication queuedStorage) = []" "d_alarm queuedStorage = Some RECOVERY_ALARM_DELAY_MS"
  "d_repairRun queuedStorage = []" "d_repairDue queuedStorage = []"
  by (simp_all add: queuedStorage_def emptyStorage_simps runAt_def runKey_def RUN_PREFIX_def kv_get_def)

lemma sampleRecord_shape:
  "shapeOf (sampleRecord phase stopAt) = \<lparr>sh_status = Run_Running, sh_phase = phase, sh_lane = Lane_User,
     sh_at = ''t'', sh_print = ownedFingerprint sampleOwned, sh_stop = truthy stopAt \<noteq> None\<rparr>"
  by (simp add: shapeOf_def sampleRecord_def storedRunLaneV1_def defaultRunLaneV1_def stopRequested_def)

lemma other_shape:
  "shapeOf ((sampleRecord phase stopAt)\<lparr>r_runId := ''s'', r_acceptedAt := ''u''\<rparr>) =
     (shapeOf (sampleRecord phase stopAt))\<lparr>sh_at := ''u''\<rparr>"
  by (simp add: shapeOf_def storedRunLaneV1_def stopRequested_def)

lemma sample_keys: "pendingUserRunKey ''t'' ''r'' < pendingUserRunKey ''u'' ''s''"
  by (simp add: pendingUserRunKey_def PENDING_USER_RUN_PREFIX_def less_char_def)

lemma queued_owed: "owed_ok queuedStorage"
proof -
  note shapes = queued_simps sampleRecord_shape other_shape
  have "claims_ok (schedOf queuedStorage)"
    using sample_keys by (auto simp: claims_ok_def claimed_def shapes kv_get_def split: if_splits)
  moreover have "slots_ok (schedOf queuedStorage)"
    by (auto simp: slots_ok_def shapes isPublicIdentifier_def identifierStart_def split: if_splits)
  moreover have "queues_ok (schedOf queuedStorage)"
    using sample_keys
    by (auto simp: queues_ok_def shapes entries_ok_def kv_sorted_def MAX_PENDING_USER_RUNS_V1_def)
  moreover have "keys_ok queuedStorage"
    by (simp add: keys_ok_def queued_simps sampleRecord_def)
  moreover have "alarmed queuedStorage" by (simp add: alarmed_def queued_simps)
  ultimately show ?thesis by (simp add: owed_ok_def sched_ok_parts)
qed

lemma sample_promotion:
  "\<exists>seed d'. promoteQueuedRun sampleEnv None 0 ''r'' queuedStorage = Inr (Promoted seed JNull ''g'', d')"
proof -
  have run: "runAt queuedStorage ''r'' = Some ((sampleRecord Queued None)\<lparr>r_events := None\<rparr>)"
    by (simp add: queued_simps sampleRecord_events [symmetric])
  have found: "optionalRun sampleEnv queuedStorage ''r'' = Inr (Some ((sampleRecord Queued None)\<lparr>r_events := Some []\<rparr>))"
    by (rule optionalRun_sample [OF run]) simp_all
  have fields: "r_status (sampleRecord phase stopAt) = Run_Running" "r_phase (sampleRecord phase stopAt) = phase"
    "storedRunLaneV1 ((sampleRecord phase stopAt)\<lparr>r_events := evs\<rparr>) = Lane_User"
    "r_sessionId (sampleRecord phase stopAt) = ''s''" "r_snapshot (sampleRecord phase stopAt) = JNull"
    "r_composition (sampleRecord phase stopAt) = ''g''"
    for phase stopAt evs by (simp_all add: sampleRecord_def storedRunLaneV1_def defaultRunLaneV1_def)
  have cursor: "cur_nextSeq (cursorOf (cursorAt queuedStorage ''s'')) = 0" by code_simp
  have promoted: "promotedRecord 0 ((sampleRecord Queued None)\<lparr>r_events := Some []\<rparr>) =
      (sampleRecord Admitted None)\<lparr>r_events := Some []\<rparr>"
    by (simp add: promotedRecord_def storedRunEventFieldsV2_def sampleRecord_def)
  have same: "queuedStorage\<lparr>d_pendingUser := [(pendingUserRunKey ''t'' ''r'', ''r''),
      (pendingUserRunKey ''u'' ''s'', ''s'')], d_pendingAgent := []\<rparr> = queuedStorage"
    by (simp add: queuedStorage_def emptyStorage_def)
  define d2 where "d2 = dequeueRun Lane_User (Some (pendingUserRunKey ''t'' ''r'', ''r'')) None
      (runRepairRecordsV1 ''r'' 0 ((putRun ''r'' (sampleRecord Admitted None) (clearRunRepair ''r'' queuedStorage))
        \<lparr>d_active := Some ''r''\<rparr>))"
  have "refreshRecoveryAlarm sampleEnv None 0 d2 = Inr (d2\<lparr>d_alarm := Some RECOVERY_ALARM_DELAY_MS\<rparr>)"
  proof (rule refresh_sample)
    have stored: "runAt d2 ''r'' = Some ((sampleRecord Admitted None)\<lparr>r_events := None\<rparr>)"
      by (simp add: d2_def dequeueRun_def runRepairRecordsV1_def Let_def sampleRecord_events [symmetric])
    show "optionalRun sampleEnv d2 ''r'' = Inr (Some ((sampleRecord Admitted None)\<lparr>r_events := Some []\<rparr>))"
      by (rule optionalRun_sample [OF stored]) simp_all
  qed (simp_all add: d2_def dequeueRun_def clearRunRepair_def queued_simps putRun_def admittedStorage_def
      emptyStorage_simps runRepairRecordsV1_def Let_def)
  then show ?thesis
    using codec_accepts_stored [of None "Some []" Admitted]
    by (simp add: promoteQueuedRun_def queued_simps found fields promotionBlock_def cursor promoted same Let_def
        sample_stored d2_def)
qed


lemma sample_queue_loop:
  "\<exists>seed d'. recoverQueuedRun QUEUE_RECOVERY_ATTEMPTS sampleEnv None 0 {} queuedStorage =
     Inr (Queue_Start ''r'' seed JNull ''g'', d')"
proof -
  have n: "QUEUE_RECOVERY_ATTEMPTS = Suc 65"
    by (simp add: QUEUE_RECOVERY_ATTEMPTS_def MAX_PENDING_USER_RUNS_V1_def MAX_PENDING_AGENT_RUNS_V1_def)
  have "\<exists>seed d'. recoverQueuedRun (Suc n) sampleEnv None 0 {} queuedStorage =
      Inr (Queue_Start ''r'' seed JNull ''g'', d')" for n
    using sample_promotion by (auto simp: queued_simps kv_first_def)
  then show ?thesis unfolding n by blast
qed

end
