(* ===== verification/Authority_Properties.thy ===== *)
theory Authority_Properties
  imports Authority_Samples
begin

text \<open>
  What the authority guarantees about a message once it has been admitted, over every storage its
  transactions can reach: it is carried on until it settles, an armed alarm carries it on, it is admitted
  once, a stop wins, its outcome is final, and the queues are served oldest first.
\<close>

section \<open>Reachable storages\<close>

lemma reachable_owed: "env_ok env \<Longrightarrow> reachable env d \<Longrightarrow> owed_ok d"
  using reachable_ok by blast

lemma reachable_steps: "reachable env d \<Longrightarrow> (authority_step env)\<^sup>*\<^sup>* d d' \<Longrightarrow> reachable env d'"
  by (simp add: reachable_def)

lemma steps_sched:
  assumes "env_ok env" and "owed_ok d" and "(authority_step env)\<^sup>*\<^sup>* d d'"
  shows "sched_step\<^sup>*\<^sup>* (schedOf d) (schedOf d') \<and> owed_ok d'"
  using assms(3)
proof (induction rule: rtranclp_induct)
  case (step d1 d2)
  have c: "carries d1 d2" using authority_step_carries [OF assms(1) step(2)] .
  with step(3) have "sched_step\<^sup>*\<^sup>* (schedOf d1) (schedOf d2)"
    by (simp add: carries_def follows_def owed_ok_def)
  with step(3) carries_owed_ok [OF c] show ?case by (meson rtranclp_trans)
qed (use assms(2) in simp)

lemma steps_later:
  assumes "env_ok env" and "owed_ok d" and "(authority_step env)\<^sup>*\<^sup>* d d'" and "runAt d k = Some run"
  shows "\<exists>run'. runAt d' k = Some run' \<and> later (shapeOf run) (shapeOf run')"
  using sched_steps_later [OF conjunct1 [OF steps_sched [OF assms(1-3)]], of k "shapeOf run"] assms(4)
  by auto

lemma owed_claimed:
  "owed_ok d \<Longrightarrow> runAt d k = Some run \<Longrightarrow> r_status run = Run_Running \<Longrightarrow> claimed (schedOf d) k (shapeOf run)"
  by (simp add: owed_ok_def sched_ok_parts claims_ok_def)

lemma admitted_runs_owed:
  assumes "owed_ok d" and "runAt d k = Some run" and "r_status run = Run_Running"
  shows "workOwed d"
  using owed_claimed [OF assms]
  by (cases "r_phase run"; cases "storedRunLaneV1 run = Lane_Agent") (auto simp: claimed_def workOwed_def)

section \<open>Admission\<close>

lemma admit_stored:
  assumes "admit env exec now c settings d = Inr (r, d')" and "runAt d (oc_runId c) = Some run"
  shows "d' = d \<and> (\<exists>state. r = Receipt_Replayed state) \<and> r_fingerprint run = ownedFingerprint c"
proof -
  obtain found where found: "readRunFrom env d (oc_runId c) False = Inr found"
    using assms(1) by (auto simp: admit_def readRun_def rbind_Inr_iff)
  obtain run' where run': "found = Some run'" "sameRun run run'"
    using readRunFrom_at [OF found assms(2)] by blast
  with found assms(1) have "d' = d \<and> (\<exists>state. r = Receipt_Replayed state) \<and>
      r_fingerprint run' = ownedFingerprint c"
    by (auto simp: admit_def readRun_def replayAdmission_def rbind_Inr_iff split: if_splits)
  with run'(2) show ?thesis by (simp add: sameRun_def)
qed

lemma admit_accepted:
  assumes env: "env_ok env" and "admit env exec now c settings d = Inr (Receipt_Accepted a, d')"
  shows "(authority_step env)\<^sup>*\<^sup>* d d' \<and>
    (\<exists>run. runAt d' (oc_runId c) = Some run \<and> r_fingerprint run = ownedFingerprint c)"
proof -
  have "acceptRun env exec now c settings d = Inr (a, d')"
    using assms(2) by (auto simp: admit_def rbind_Inr_iff split: option.splits)
  then obtain d0 where d0: "prepareAdmission env c d = Inr d0" "admitIn env exec now c settings d0 = Inr (a, d')"
    by (auto simp: acceptRun_def rbind_Inr_iff)
  then have steps: "authority_step env d d0" "authority_step env d0 d'"
    by (auto intro: authority_step.intros)
  obtain retryTarget landedAt run marked d1 where
    run: "requireRun env (admittedRecord env c settings retryTarget landedAt d0) = Inr run"
    and marked: "\<forall>m. marked = Some m \<longrightarrow> r_runId m \<noteq> oc_runId c \<and>
       map_option shapeOf (runAt d0 (r_runId m)) = Some (shapeOf m)"
    and visible: "commitVisible env Cause_Admission run None (putAdmitted env c run marked d0) = Inr d1"
    and alarm: "refreshRecoveryAlarm env exec now d1 = Inr d'"
    by (rule admitIn_Inr [OF d0(2)]) (rule that)
  let ?sh = "shapeOf run"
  have sh: "sh_lane ?sh = commandLane (oc_command c)" "sh_at ?sh = cmd_acceptedAt (oc_command c)"
    "sh_print ?sh = ownedFingerprint c"
    using requireRun_shape [OF run] by (simp_all add: admittedRecord_shape)
  have "schedOf d' = schedOf (putAdmitted env c run marked d0)"
    using refresh_sched [OF alarm] commitVisible_sched [OF visible] by simp
  with putAdmitted_sched [OF refl sh(1,2) marked [rule_format], where env = env]
  have "sc_run (schedOf d') (oc_runId c) = Some ?sh" by simp
  then obtain run' where "runAt d' (oc_runId c) = Some run'" "shapeOf run' = ?sh" by auto
  moreover from this(2) sh(3) have "r_fingerprint run' = ownedFingerprint c"
    using shapeOf_simps(5) by metis
  ultimately show ?thesis using steps by auto
qed

section \<open>Promotion and the queue loop\<close>

lemma promoteQueuedRun_Promoted:
  assumes "promoteQueuedRun env exec now k d = Inr (Promoted seed settings g, d')"
  obtains firstUser users firstAgent agents run where
    "livePendingHead env d (d_pendingUser d) = Inr (firstUser, users)"
    "livePendingHead env d (d_pendingAgent d) = Inr (firstAgent, agents)"
    "map_option shapeOf (runAt d k) = Some (shapeOf run)"
    "r_status run = Run_Running" "r_phase run = Queued"
    "promotionBlock (storedRunLaneV1 run) k firstUser firstAgent d = None"
proof -
  let ?P = "\<lambda>found firstUser firstAgent d1. \<exists>run. found = Some run \<and> r_status run = Run_Running \<and>
      r_phase run = Queued \<and> promotionBlock (storedRunLaneV1 run) k firstUser firstAgent d1 = None"
  show ?thesis
  proof (rule promoteQueuedRun_Inr [OF assms], goal_cases)
    case (1 firstUser users firstAgent agents d1 found)
    have "?P found firstUser firstAgent d1"
      using 1(5) by (auto simp: promotionBlock_def split: option.splits if_splits)
    then obtain run where run: "found = Some run" "r_status run = Run_Running" "r_phase run = Queued"
      "promotionBlock (storedRunLaneV1 run) k firstUser firstAgent d1 = None" by blast
    let ?d0 = "d\<lparr>d_pendingUser := users, d_pendingAgent := agents\<rparr>"
    have "\<exists>al. d1 = ?d0\<lparr>d_alarm := al\<rparr>"
    proof (cases "d1 = ?d0")
      case True
      then have "d1 = ?d0\<lparr>d_alarm := d_alarm d\<rparr>" by simp
      then show ?thesis by blast
    next
      case False
      with 1(3) have "refreshRecoveryAlarm env exec now ?d0 = Inr d1" by (simp split: if_splits)
      from refresh_Inr [OF this] show ?thesis by blast
    qed
    then obtain al where "d1 = ?d0\<lparr>d_alarm := al\<rparr>" by blast
    with optionalRun_shape [OF 1(4) [unfolded run(1)]] run(4) show ?case
      by (intro that [OF 1(1,2) _ run(2,3)]) (auto simp: promotionBlock_def split: if_splits)
  qed
qed

lemma livePendingHead_oldest:
  assumes "livePendingHead env d m = Inr (Some (key, k), m')" and "kv_sorted m"
    and "(key', k') \<in> set m" and "live_queued (schedOf d) k'"
  shows "key \<le> key'"
  using assms
proof (induction m)
  case (Cons e m)
  obtain x i where e: "e = (x, i)" by (cases e)
  note step = livePendingHead_Cons [OF Cons.prems(1) [unfolded e]]
  show ?case
  proof (cases "live_queued (schedOf d) i")
    case True
    with step have "key = x" by simp
    with Cons.prems(2,3) show ?thesis by (auto simp: e kv_sorted_def intro: order.strict_implies_order)
  next
    case False
    with Cons.prems(3,4) have "(key', k') \<in> set m" by (auto simp: e)
    with Cons.IH step False Cons.prems(2,4) show ?thesis by (auto dest: kv_sorted_tail simp: e)
  qed
qed simp

lemma livePendingHead_subset: "livePendingHead env d m = Inr (head, m') \<Longrightarrow> set m' \<subseteq> set m"
proof (induction m)
  case (Cons e m)
  obtain x i where e: "e = (x, i)" by (cases e)
  from livePendingHead_Cons [OF Cons.prems [unfolded e]] Cons.IH show ?case
    by (auto simp: e split: if_splits)
qed simp

lemma livePendingHead_none:
  assumes "livePendingHead env d m = Inr (None, m')" and "(key', k') \<in> set m"
  shows "\<not> live_queued (schedOf d) k'"
  using assms
proof (induction m)
  case (Cons e m)
  obtain x i where e: "e = (x, i)" by (cases e)
  from livePendingHead_Cons [OF Cons.prems(1) [unfolded e]] Cons.IH Cons.prems(2) show ?case
    by (auto simp: e split: if_splits)
qed simp

section \<open>The queue loop always gets to work\<close>

definition freshHeads :: "durable \<Rightarrow> bool" where
  "freshHeads d \<longleftrightarrow> (\<forall>e rest. d_pendingUser d = e # rest \<longrightarrow> live_queued (schedOf d) (snd e)) \<and>
     (\<forall>e rest. d_pendingAgent d = e # rest \<longrightarrow> live_queued (schedOf d) (snd e))"

text \<open>The entry the loop takes when no parked run is due.\<close>

definition nextEntry :: "durable \<Rightarrow> (string \<times> string) option" where
  "nextEntry d = kv_first (if d_pendingUser d = [] then d_pendingAgent d else d_pendingUser d)"

lemma nextEntry_lane:
  assumes "owed_ok d" and "nextEntry d = Some (key, k)"
  shows "\<exists>run rest. runAt d k = Some run \<and>
    (if storedRunLaneV1 run = Lane_Agent then d_pendingUser d = [] \<and> d_pendingAgent d = (key, k) # rest
     else d_pendingUser d = (key, k) # rest)"
proof -
  have q: "queues_ok (schedOf d)" using assms(1) by (simp add: owed_ok_def sched_ok_parts)
  show ?thesis
  proof (cases "d_pendingUser d")
    case Nil
    with assms(2) q show ?thesis
      by (auto simp: nextEntry_def kv_first_Some_iff queues_ok_def entries_ok_def)
  next
    case (Cons e rest)
    with assms(2) q show ?thesis
      by (auto simp: nextEntry_def kv_first_Some_iff queues_ok_def entries_ok_def)
  qed
qed

lemma promote_next:
  assumes ok: "owed_ok d" and idle: "d_active d = None" and next0: "nextEntry d = Some (key, k)"
    and parked: "d_pendingUser d = [] \<Longrightarrow> d_parked d = None"
    and promote: "promoteQueuedRun env exec now k d = Inr (outcome, d')"
  shows "if live_queued (schedOf d) k then \<exists>seed settings g. outcome = Promoted seed settings g
    else outcome = Not_Queued \<and> d_active d' = None \<and> freshHeads d'"
proof -
  let ?thesis0 = ?thesis
  show ?thesis
  proof (rule promoteQueuedRun_Inr [OF promote], goal_cases)
    case (1 firstUser users firstAgent agents d1 found)
    let ?d0 = "d\<lparr>d_pendingUser := users, d_pendingAgent := agents\<rparr>"
    have d1: "schedOf d1 = schedOf ?d0"
      using 1(3) refresh_sched [of env exec now ?d0 d1] by (auto split: if_splits)
    have fields: "d_active d1 = None" "d_parked d1 = d_parked d" "d_pendingUser d1 = users"
      "d_pendingAgent d1 = agents" "live_queued (schedOf d1) = live_queued (schedOf d)"
      using arg_cong [OF d1, of sc_active] arg_cong [OF d1, of sc_parked] arg_cong [OF d1, of sc_users]
        arg_cong [OF d1, of sc_agents] arg_cong [OF d1, of sc_run] idle
        live_queued_cong [of "schedOf d1" "schedOf d"] by (simp_all add: fun_eq_iff)
    have live: "(case found of None \<Rightarrow> False | Some run \<Rightarrow> r_status run = Run_Running \<and> r_phase run = Queued) =
        live_queued (schedOf d) k"
      using optionalRun_live [OF 1(4)] by (simp only: fields)
    note heads = livePendingHead_head [OF 1(1)] livePendingHead_head [OF 1(2)]
    show ?case
    proof (cases "live_queued (schedOf d) k")
      case False
      with 1(5) live have "outcome = Not_Queued \<and> d' = d1" by (auto split: option.splits if_splits)
      with False heads fields show ?thesis
        by (auto simp: freshHeads_def split: option.splits)
    next
      case True
      obtain run where run: "found = Some run" "r_status run = Run_Running" "r_phase run = Queued"
        using live True by (auto split: option.splits)
      obtain run0 rest where run0: "runAt d k = Some run0"
        and entry: "if storedRunLaneV1 run0 = Lane_Agent
          then d_pendingUser d = [] \<and> d_pendingAgent d = (key, k) # rest else d_pendingUser d = (key, k) # rest"
        using nextEntry_lane [OF ok next0] by blast
      have "map_option shapeOf (runAt d1 k) = map_option shapeOf (runAt d k)"
        using arg_cong [OF d1, of "\<lambda>s. sc_run s k"] by simp
      with optionalRun_shape [OF 1(4) [unfolded run(1)]]
      have "map_option shapeOf (runAt d k) = Some (shapeOf run)" by metis
      then have lane: "storedRunLaneV1 run = storedRunLaneV1 run0"
        using run0 shapeOf_simps(3) by (metis option.inject option.map(2))
      have "promotionBlock (storedRunLaneV1 run) k firstUser firstAgent d1 = None"
      proof (cases "storedRunLaneV1 run0 = Lane_Agent")
        case agent: True
        with entry True 1(1,2) have "firstUser = None" "firstAgent = Some (key, k)"
          using livePendingHead_Cons [of env d key k rest firstAgent agents] by auto
        with agent entry parked fields show ?thesis by (simp add: promotionBlock_def lane)
      next
        case user: False
        with entry True 1(1) have "firstUser = Some (key, k)"
          using livePendingHead_Cons [of env d key k rest firstUser users] by auto
        with user fields show ?thesis by (simp add: promotionBlock_def lane)
      qed
      with 1(5) run True show ?thesis by (auto simp: rbind_Inr_iff)
    qed
  qed
qed

lemma unpark_next:
  assumes ok: "owed_ok d" and idle: "d_active d = None" and parked: "d_parked d = Some k"
    and empty: "d_pendingUser d = []" and unpark: "unparkRun env exec now k d = Inr (outcome, d')"
  shows "outcome = Resumable"
proof -
  have "sched_ok (schedOf d)" using ok by (simp add: owed_ok_def)
  from parked_run [OF this parked] obtain run0 where
    run0: "runAt d k = Some run0" "r_status run0 = Run_Running" "r_phase run0 = Parked" by blast
  have d0: "d\<lparr>d_pendingUser := []\<rparr> = d" using empty by simp
  obtain found where found: "readRunFrom env d k False = Inr found"
    using unpark idle parked empty by (auto simp: unparkRun_def Let_def rbind_Inr_iff d0)
  obtain run where run: "found = Some run" "sameRun run0 run"
    using readRunFrom_at [OF found run0(1)] by blast
  have "r_status run = Run_Running" "r_phase run = Parked"
    using run(2) run0(2,3) by (auto simp: sameRun_def shapeOf_def)
  with unpark idle parked empty found run(1) show ?thesis
    by (auto simp: unparkRun_def Let_def rbind_Inr_iff d0)
qed

lemma dequeueRun_active [simp]: "d_active (dequeueRun lane firstUser firstAgent d) = d_active d"
  by (simp add: dequeueRun_def split: option.splits)

lemma runRepairRecords_active [simp]: "d_active (runRepairRecordsV1 k now d) = d_active d"
  by (simp add: runRepairRecordsV1_def Let_def)

lemma resumed_active: "unparkRun env exec now k d = Inr (Resumable, d') \<Longrightarrow> d_active d' = Some k"
proof -
  assume unpark: "unparkRun env exec now k d = Inr (Resumable, d')"
  then have here: "d_parked d = Some k" "d_active d = None"
    by (auto simp: unparkRun_def split: if_splits)
  obtain head users where u: "livePendingHead env d (d_pendingUser d) = Inr (head, users)"
    using unpark here by (auto simp: unparkRun_def Let_def rbind_Inr_iff)
  with unpark here have "head = None"
    by (cases head) (auto simp: unparkRun_def Let_def rbind_Inr_iff split: if_splits)
  note head = u this
  obtain found where found: "readRunFrom env (d\<lparr>d_pendingUser := users\<rparr>) k False = Inr found"
    using unpark here head by (auto simp: unparkRun_def Let_def rbind_Inr_iff)
  obtain run where "found = Some run" "r_status run = Run_Running" "r_phase run = Parked"
    using unpark here head found
    by (cases found) (auto simp: unparkRun_def Let_def rbind_Inr_iff split: if_splits)
  with unpark here head found show ?thesis
    by (auto simp: unparkRun_def Let_def rbind_Inr_iff dest!: refresh_Inr commitVisible_Inr)
qed

lemma promoted_active:
  assumes "promoteQueuedRun env exec now k d = Inr (Promoted seed settings g, d')"
  shows "d_active d' = Some k"
proof (rule promoteQueuedRun_Inr [OF assms], goal_cases)
  case (1 firstUser users firstAgent agents d1 found)
  have "\<exists>run. found = Some run \<and> r_status run = Run_Running \<and>
      r_phase run = Queued \<and> promotionBlock (storedRunLaneV1 run) k firstUser firstAgent d1 = None"
    using 1(5) by (auto simp: promotionBlock_def split: option.splits if_splits)
  then obtain run where run: "found = Some run" "r_status run = Run_Running" "r_phase run = Queued"
    "promotionBlock (storedRunLaneV1 run) k firstUser firstAgent d1 = None" by blast
  from 1(5) show ?case
    by (auto simp: run rbind_Inr_iff dest!: refresh_Inr commitVisible_Inr)
qed

definition queueIdle :: "durable \<Rightarrow> bool" where
  "queueIdle d \<longleftrightarrow> d_pendingUser d = [] \<and> d_pendingAgent d = [] \<and> d_parked d = None"

lemma recoverQueuedRun_step:
  assumes ok: "owed_ok d" and idle: "d_active d = None"
    and recover: "recoverQueuedRun (Suc n) env None now {} d = Inr (outcome, d')"
  shows "(case outcome of Queue_Idle \<Rightarrow> d' = d \<and> queueIdle d
      | Queue_Resume k \<Rightarrow> d_active d' = Some k | Queue_Start k seed settings g \<Rightarrow> d_active d' = Some k) \<or>
    (\<not> freshHeads d \<and> (\<exists>d1. owed_ok d1 \<and> d_active d1 = None \<and> freshHeads d1 \<and>
       recoverQueuedRun n env None now {} d1 = Inr (outcome, d')))"
proof (cases "if d_pendingUser d = [] then d_parked d else None")
  case (Some k)
  then have park: "d_pendingUser d = []" "d_parked d = Some k" by (auto split: if_splits)
  obtain u d1 where u: "unparkRun env None now k d = Inr (u, d1)"
    using recover park by (auto simp: rbind_Inr_iff)
  note out = unpark_next [OF ok idle park(2,1) u]
  with recover park u resumed_active [OF u [unfolded out]] show ?thesis by auto
next
  case None
  show ?thesis
  proof (cases "nextEntry d")
    case no: None
    with recover None show ?thesis
      by (auto simp: nextEntry_def queueIdle_def kv_first_def split: if_splits list.splits)
  next
    case (Some e)
    obtain key k where e: "e = (key, k)" by (cases e)
    obtain p d1 where p: "promoteQueuedRun env None now k d = Inr (p, d1)"
      using recover None Some by (auto simp: e nextEntry_def rbind_Inr_iff)
    have "d_pendingUser d = [] \<Longrightarrow> d_parked d = None" using None by simp
    note out = promote_next [OF ok idle Some [unfolded e] this p]
    show ?thesis
    proof (cases "live_queued (schedOf d) k")
      case True
      with out obtain seed settings g where promoted: "p = Promoted seed settings g" by auto
      with p recover None Some promoted_active [OF p [unfolded promoted]] show ?thesis
        by (auto simp: e nextEntry_def)
    next
      case False
      then have "\<not> freshHeads d"
        using Some by (auto simp: e nextEntry_def freshHeads_def kv_first_Some_iff split: if_splits)
      with False out p recover None Some carries_owed_ok [OF promoteQueuedRun_carries [OF p] ok]
      show ?thesis by (auto simp: e nextEntry_def)
    qed
  qed
qed

section \<open>The properties\<close>

text \<open>C1: An admitted message is never lost: in every storage the authority can reach, a run that has not
  settled is in the queue of its lane, or it is the one parked run, or it is the active run; nothing
  between admission and settlement leaves it without an owner.\<close>

theorem admitted_runs_are_owed:
  assumes "env_ok env" and "reachable env d" and "runAt d k = Some run" and "r_status run = Run_Running"
  shows "case r_phase run of
      Queued \<Rightarrow>
        if storedRunLaneV1 run = Lane_Agent
        then kv_get (d_pendingAgent d) (pendingAgentRunKey (r_acceptedAt run) k) = Some k
        else kv_get (d_pendingUser d) (pendingUserRunKey (r_acceptedAt run) k) = Some k
    | Parked \<Rightarrow> d_parked d = Some k
    | _ \<Rightarrow> d_active d = Some k"
  using owed_claimed [OF reachable_owed [OF assms(1,2)] assms(3,4)]
  by (simp add: claimed_def split: run_phase.splits if_splits)

theorem admitted_runs_are_owed_witness: "d_active admittedStorage = Some ''r''"
  using admitted_runs_are_owed [OF sampleEnv_ok sample_reachable admitted_run [of "d_alarm admittedStorage", simplified]]
  by (simp add: sampleRecord_def)

text \<open>C2: Owed work is always armed: as long as a run is unsettled or an update is undelivered, the
  object has an alarm set, so it is woken to carry on even when it was evicted with no caller left.\<close>

theorem owed_work_is_armed:
  assumes "env_ok env" and "reachable env d"
    and "(\<exists>k run. runAt d k = Some run \<and> r_status run = Run_Running) \<or> pb_pending (d_publication d) \<noteq> []"
  shows "d_alarm d \<noteq> None"
proof -
  have ok: "owed_ok d" using reachable_owed [OF assms(1,2)] .
  have "workOwed d"
    using assms(3)
  proof (elim disjE exE conjE)
    fix k run
    assume run: "runAt d k = Some run" "r_status run = Run_Running"
    from admitted_runs_owed [OF ok run] show ?thesis .
  qed (simp add: workOwed_def)
  with ok show ?thesis by (simp add: owed_ok_def alarmed_def)
qed

theorem owed_work_is_armed_witness: "d_alarm admittedStorage \<noteq> None"
  by (rule owed_work_is_armed [OF sampleEnv_ok sample_reachable])
    (use admitted_run [of "d_alarm admittedStorage"] in \<open>force simp: sampleRecord_def\<close>)

text \<open>C3: The authority implements the scheduler: each transaction, whatever it writes beside, is a
  sequence of scheduler steps (admit, queue, prune, promote, park, resume, stop, settle) on the state its
  storage stands for, and keeps the invariant.\<close>

theorem authority_refines_scheduler:
  assumes "env_ok env" and "owed_ok d" and "authority_step env d d'"
  shows "sched_step\<^sup>*\<^sup>* (schedOf d) (schedOf d') \<and> owed_ok d'"
  using steps_sched [OF assms(1,2)] assms(3) by blast

theorem authority_refines_scheduler_witness:
  "sched_step\<^sup>*\<^sup>* (schedOf emptyStorage) (schedOf admittedStorage) \<and> owed_ok admittedStorage"
  by (rule authority_refines_scheduler [OF sampleEnv_ok emptyStorage_ok authority_step.admission [OF sample_admission]])

text \<open>C9: The slots and queues are bounded and exclusive: the active and the parked run are different, live
  and in their phase, each queue holds at most 32 runs, in key order, and every entry names a run of that
  lane under its own acceptance time.\<close>

theorem authority_slots_and_queues:
  assumes "env_ok env" and "reachable env d"
  shows "(\<forall>k. d_active d = Some k \<longrightarrow> d_parked d \<noteq> Some k \<and> (\<exists>run. runAt d k = Some run \<and>
        r_status run = Run_Running \<and> r_phase run \<in> {Admitted, Executing})) \<and>
    (\<forall>k. d_parked d = Some k \<longrightarrow> (\<exists>run. runAt d k = Some run \<and>
        r_status run = Run_Running \<and> r_phase run = Parked)) \<and>
    length (d_pendingUser d) \<le> 32 \<and> length (d_pendingAgent d) \<le> 32 \<and>
    kv_sorted (d_pendingUser d) \<and> kv_sorted (d_pendingAgent d) \<and>
    (\<forall>(key, k) \<in> set (d_pendingUser d). \<exists>run. runAt d k = Some run \<and>
        key = pendingUserRunKey (r_acceptedAt run) k \<and> storedRunLaneV1 run \<noteq> Lane_Agent) \<and>
    (\<forall>(key, k) \<in> set (d_pendingAgent d). \<exists>run. runAt d k = Some run \<and>
        key = pendingAgentRunKey (r_acceptedAt run) k \<and> storedRunLaneV1 run = Lane_Agent)"
proof -
  have ok: "slots_ok (schedOf d)" "queues_ok (schedOf d)"
    using reachable_owed [OF assms] by (simp_all add: owed_ok_def sched_ok_parts)
  from ok(1) have "\<forall>k. d_active d = Some k \<longrightarrow> d_parked d \<noteq> Some k \<and> (\<exists>run. runAt d k = Some run \<and>
        r_status run = Run_Running \<and> r_phase run \<in> {Admitted, Executing})"
    and "\<forall>k. d_parked d = Some k \<longrightarrow> (\<exists>run. runAt d k = Some run \<and>
        r_status run = Run_Running \<and> r_phase run = Parked)"
    by (fastforce simp: slots_ok_def)+
  moreover from ok(2) have "length (d_pendingUser d) \<le> 32 \<and> length (d_pendingAgent d) \<le> 32 \<and>
      kv_sorted (d_pendingUser d) \<and> kv_sorted (d_pendingAgent d)"
    by (simp add: queues_ok_def MAX_PENDING_USER_RUNS_V1_def MAX_PENDING_AGENT_RUNS_V1_def)
  moreover from ok(2) have "\<forall>(key, k) \<in> set (d_pendingUser d). \<exists>run. runAt d k = Some run \<and>
        key = pendingUserRunKey (r_acceptedAt run) k \<and> storedRunLaneV1 run \<noteq> Lane_Agent"
    and "\<forall>(key, k) \<in> set (d_pendingAgent d). \<exists>run. runAt d k = Some run \<and>
        key = pendingAgentRunKey (r_acceptedAt run) k \<and> storedRunLaneV1 run = Lane_Agent"
    by (fastforce simp: queues_ok_def entries_ok_def)+
  ultimately show ?thesis by blast
qed

theorem authority_slots_and_queues_witness:
  "d_parked admittedStorage \<noteq> Some ''r'' \<and> length (d_pendingUser admittedStorage) \<le> 32"
  using authority_slots_and_queues [OF sampleEnv_ok sample_reachable] by (simp add: admittedStorage_def)

text \<open>C4: A message is admitted at most once: whatever happens after an admission, a later request with
  the same run id writes nothing and is answered with the stored run when it is the same command, and is
  refused otherwise.\<close>

theorem admitted_at_most_once:
  assumes "env_ok env" and "reachable env d"
    and "admit env exec now c settings d = Inr (Receipt_Accepted a, d1)"
    and "(authority_step env)\<^sup>*\<^sup>* d1 d2"
    and "oc_runId c' = oc_runId c" and "admit env exec' now' c' settings' d2 = Inr (r, d3)"
  shows "d3 = d2 \<and> ownedFingerprint c' = ownedFingerprint c \<and> (\<exists>state. r = Receipt_Replayed state)"
proof -
  obtain run where run: "runAt d1 (oc_runId c) = Some run" "r_fingerprint run = ownedFingerprint c"
    and d1: "(authority_step env)\<^sup>*\<^sup>* d d1"
    using admit_accepted [OF assms(1,3)] by blast
  have "owed_ok d1" using reachable_owed [OF assms(1) reachable_steps [OF assms(2) d1]] .
  from steps_later [OF assms(1) this assms(4) run(1)] obtain run2 where
    run2: "runAt d2 (oc_runId c) = Some run2" "later (shapeOf run) (shapeOf run2)" by blast
  from admit_stored [OF assms(6), unfolded assms(5), OF run2(1)] run2(2) run(2) show ?thesis
    by (simp add: later_def)
qed

theorem admitted_at_most_once_witness:
  "admit sampleEnv None 5 sampleOwned JNull admittedStorage = Inr (Receipt_Replayed Replay_Running, admittedStorage) \<and>
   ownedFingerprint sampleOwned = ownedFingerprint sampleOwned"
proof -
  have "reachable sampleEnv emptyStorage" by (simp add: reachable_def)
  from admitted_at_most_once [OF sampleEnv_ok this sample_admit rtranclp.rtrancl_refl refl sample_admit_again]
  show ?thesis using sample_admit_again by blast
qed

text \<open>C6: A recorded outcome is final and a run is never rewritten as another: in every later storage the
  run is there with its fingerprint, lane and acceptance time, a settled run never runs again, and a
  completed one stays completed.\<close>

theorem settled_run_is_final:
  assumes "env_ok env" and "reachable env d" and "runAt d k = Some run"
    and "(authority_step env)\<^sup>*\<^sup>* d d'"
  shows "\<exists>run'. runAt d' k = Some run' \<and> r_fingerprint run' = r_fingerprint run \<and>
    storedRunLaneV1 run' = storedRunLaneV1 run \<and> r_acceptedAt run' = r_acceptedAt run \<and>
    (r_status run \<noteq> Run_Running \<longrightarrow> r_status run' \<noteq> Run_Running) \<and>
    (r_status run = Run_Completed \<longrightarrow> r_status run' = Run_Completed)"
  using steps_later [OF assms(1) reachable_owed [OF assms(1,2)] assms(4,3)]
  by (auto simp: later_def)

theorem settled_run_is_final_witness:
  "\<exists>run. runAt stoppedStorage ''r'' = Some run \<and> r_fingerprint run = ownedFingerprint sampleOwned"
proof -
  note run = admitted_run [of "d_alarm admittedStorage", simplified]
  from settled_run_is_final [OF sampleEnv_ok sample_reachable run r_into_rtranclp [of "authority_step sampleEnv",
      OF sample_stop_step]]
  show ?thesis by (auto simp: sampleRecord_def)
qed

text \<open>C5: A stop wins every race: once a running run carries a stop request, it is in every later storage
  still running with the request, or cancelled; it never completes or fails.\<close>

theorem stop_always_wins:
  assumes "env_ok env" and "reachable env d" and "runAt d k = Some run"
    and "stopRequested run" and "r_status run = Run_Running" and "(authority_step env)\<^sup>*\<^sup>* d d'"
  shows "\<exists>run'. runAt d' k = Some run' \<and> stopRequested run' \<and>
    r_status run' \<in> {Run_Running, Run_Cancelled}"
  using steps_later [OF assms(1) reachable_owed [OF assms(1,2)] assms(6,3)] assms(4,5)
  by (auto simp: later_def)

theorem stop_always_wins_witness:
  "\<exists>run. runAt stoppedStorage ''r'' = Some run \<and> stopRequested run"
proof -
  have "reachable sampleEnv stoppedStorage"
    using reachable_steps [OF sample_reachable r_into_rtranclp [of "authority_step sampleEnv", OF sample_stop_step]] .
  moreover have "stopRequested ((sampleRecord Admitted (Some ''t''))\<lparr>r_events := Some []\<rparr>)"
    "r_status ((sampleRecord Admitted (Some ''t''))\<lparr>r_events := Some []\<rparr>) = Run_Running"
    by (simp_all add: sampleRecord_def stopRequested_def truthy_def)
  ultimately show ?thesis
    using stop_always_wins [OF sampleEnv_ok _ stopped_run _ _ rtranclp.rtrancl_refl] by blast
qed

lemma userHead_oldest:
  assumes "owed_ok d" and "livePendingHead env d (d_pendingUser d) = Inr (Some (key, k), rest)"
    and "runAt d k = Some run"
  shows "key = pendingUserRunKey (r_acceptedAt run) k"
    and "runAt d k' = Some other \<Longrightarrow> r_status other = Run_Running \<Longrightarrow> r_phase other = Queued \<Longrightarrow>
      storedRunLaneV1 other \<noteq> Lane_Agent \<Longrightarrow> key \<le> pendingUserRunKey (r_acceptedAt other) k'"
proof -
  have q: "queues_ok (schedOf d)" using assms(1) by (simp add: owed_ok_def sched_ok_parts)
  show "key = pendingUserRunKey (r_acceptedAt run) k"
    using livePendingHead_subset [OF assms(2)] livePendingHead_head [OF assms(2)] q assms(3)
    by (fastforce simp: queues_ok_def entries_ok_def)
  assume other: "runAt d k' = Some other" "r_status other = Run_Running" "r_phase other = Queued"
    and lane: "storedRunLaneV1 other \<noteq> Lane_Agent"
  have live: "live_queued (schedOf d) k'" using other by (simp add: live_queued_sched)
  from owed_claimed [OF assms(1) other(1,2)] other(3) lane
  have "(pendingUserRunKey (r_acceptedAt other) k', k') \<in> set (d_pendingUser d)"
    by (auto simp: claimed_def dest: kv_get_Some_in)
  from livePendingHead_oldest [OF assms(2) _ this live] q
  show "key \<le> pendingUserRunKey (r_acceptedAt other) k'" by (simp add: queues_ok_def)
qed

lemma agentHead_oldest:
  assumes "owed_ok d" and "livePendingHead env d (d_pendingAgent d) = Inr (Some (key, k), rest)"
    and "runAt d k = Some run"
  shows "key = pendingAgentRunKey (r_acceptedAt run) k"
    and "runAt d k' = Some other \<Longrightarrow> r_status other = Run_Running \<Longrightarrow> r_phase other = Queued \<Longrightarrow>
      storedRunLaneV1 other = Lane_Agent \<Longrightarrow> key \<le> pendingAgentRunKey (r_acceptedAt other) k'"
proof -
  have q: "queues_ok (schedOf d)" using assms(1) by (simp add: owed_ok_def sched_ok_parts)
  show "key = pendingAgentRunKey (r_acceptedAt run) k"
    using livePendingHead_subset [OF assms(2)] livePendingHead_head [OF assms(2)] q assms(3)
    by (fastforce simp: queues_ok_def entries_ok_def)
  assume other: "runAt d k' = Some other" "r_status other = Run_Running" "r_phase other = Queued"
    and lane: "storedRunLaneV1 other = Lane_Agent"
  have live: "live_queued (schedOf d) k'" using other by (simp add: live_queued_sched)
  from owed_claimed [OF assms(1) other(1,2)] other(3) lane
  have "(pendingAgentRunKey (r_acceptedAt other) k', k') \<in> set (d_pendingAgent d)"
    by (auto simp: claimed_def dest: kv_get_Some_in)
  from livePendingHead_oldest [OF assms(2) _ this live] q
  show "key \<le> pendingAgentRunKey (r_acceptedAt other) k'" by (simp add: queues_ok_def)
qed

lemma noUserWaits:
  assumes "owed_ok d" and "livePendingHead env d (d_pendingUser d) = Inr (None, rest)"
    and "runAt d k' = Some other" and "r_status other = Run_Running" and "r_phase other = Queued"
  shows "storedRunLaneV1 other = Lane_Agent"
proof (rule ccontr)
  assume "storedRunLaneV1 other \<noteq> Lane_Agent"
  with owed_claimed [OF assms(1,3,4)] assms(5)
  have "(pendingUserRunKey (r_acceptedAt other) k', k') \<in> set (d_pendingUser d)"
    by (auto simp: claimed_def dest: kv_get_Some_in)
  moreover have "live_queued (schedOf d) k'" using assms(3-5) by (simp add: live_queued_sched)
  ultimately show False using livePendingHead_none [OF assms(2)] by blast
qed

text \<open>C7: Promotion is fair within a lane and gives people precedence: the run that is promoted has the
  oldest key of the live entries of its queue, and an agent's run is promoted only when no person's
  message waits and no run is parked.\<close>

theorem promotion_oldest_first:
  assumes "owed_ok d" and "promoteQueuedRun env exec now k d = Inr (Promoted seed settings g, d')"
    and "runAt d k' = Some other" and "r_status other = Run_Running" and "r_phase other = Queued"
  shows "\<exists>run. runAt d k = Some run \<and> d_active d = None \<and>
    (if storedRunLaneV1 run = Lane_Agent
     then storedRunLaneV1 other = Lane_Agent \<and> d_parked d = None \<and>
       pendingAgentRunKey (r_acceptedAt run) k \<le> pendingAgentRunKey (r_acceptedAt other) k'
     else storedRunLaneV1 other \<noteq> Lane_Agent \<longrightarrow>
       pendingUserRunKey (r_acceptedAt run) k \<le> pendingUserRunKey (r_acceptedAt other) k')"
proof -
  obtain firstUser users firstAgent agents shaped where
    u: "livePendingHead env d (d_pendingUser d) = Inr (firstUser, users)"
    and a: "livePendingHead env d (d_pendingAgent d) = Inr (firstAgent, agents)"
    and shape: "map_option shapeOf (runAt d k) = Some (shapeOf shaped)"
    and free: "promotionBlock (storedRunLaneV1 shaped) k firstUser firstAgent d = None"
    by (rule promoteQueuedRun_Promoted [OF assms(2)]) (rule that)
  obtain run where run: "runAt d k = Some run" and same: "shapeOf run = shapeOf shaped" using shape by auto
  have lane: "storedRunLaneV1 shaped = storedRunLaneV1 run" using same shapeOf_simps(3) by metis
  show ?thesis
  proof (cases "storedRunLaneV1 run = Lane_Agent")
    case True
    then obtain key where head: "firstAgent = Some (key, k)" "firstUser = None" "d_parked d = None" "d_active d = None"
      using free by (cases firstAgent; cases firstUser) (auto simp: promotionBlock_def lane split: if_splits)
    have noUser: "storedRunLaneV1 other = Lane_Agent"
      by (rule noUserWaits [OF assms(1) u [unfolded head(2)] assms(3-5)])
    note oldest = agentHead_oldest [OF assms(1) a [unfolded head(1)] run]
    show ?thesis using oldest(2) [OF assms(3-5) noUser] True run noUser head by (simp add: oldest(1))
  next
    case False
    then obtain key where head: "firstUser = Some (key, k)" "d_active d = None"
      using free by (cases firstUser) (auto simp: promotionBlock_def lane split: if_splits)
    note oldest = userHead_oldest [OF assms(1) u [unfolded head(1)] run]
    show ?thesis using oldest(2) [OF assms(3-5)] False run head by (simp add: oldest(1))
  qed
qed

theorem promotion_oldest_first_witness:
  "pendingUserRunKey ''t'' ''r'' \<le> pendingUserRunKey ''u'' ''s''"
proof -
  obtain seed d' where p: "promoteQueuedRun sampleEnv None 0 ''r'' queuedStorage = Inr (Promoted seed JNull ''g'', d')"
    using sample_promotion by blast
  from promotion_oldest_first [OF queued_owed p, of "''s''"] show ?thesis
    by (simp add: queued_simps) (simp add: sampleRecord_def storedRunLaneV1_def defaultRunLaneV1_def)
qed

text \<open>C8: An alarm gets owed work going: when no run is active, the queue loop, with the 66 attempts it is
  given, answers with a run that it started or resumed; it comes back empty handed only when nothing is
  queued and nothing is parked, however many entries of settled runs were left in the queues.\<close>

theorem queue_loop_starts_owed_work:
  assumes "owed_ok d" and "d_active d = None"
    and "recoverQueuedRun QUEUE_RECOVERY_ATTEMPTS env None now {} d = Inr (outcome, d')"
  shows "case outcome of
      Queue_Idle \<Rightarrow> d_pendingUser d' = [] \<and> d_pendingAgent d' = [] \<and> d_parked d' = None
    | Queue_Resume k \<Rightarrow> d_active d' = Some k
    | Queue_Start k seed settings g \<Rightarrow> d_active d' = Some k"
proof -
  have "QUEUE_RECOVERY_ATTEMPTS = Suc (Suc 64)"
    by (simp add: QUEUE_RECOVERY_ATTEMPTS_def MAX_PENDING_USER_RUNS_V1_def MAX_PENDING_AGENT_RUNS_V1_def)
  with assms(3) have run: "recoverQueuedRun (Suc (Suc 64)) env None now {} d = Inr (outcome, d')" by simp
  have "case outcome of Queue_Idle \<Rightarrow> queueIdle d'
      | Queue_Resume k \<Rightarrow> d_active d' = Some k | Queue_Start k seed settings g \<Rightarrow> d_active d' = Some k"
    using recoverQueuedRun_step [OF assms(1,2) run]
      recoverQueuedRun_step [of _ 64 env now outcome d']
    by (fastforce split: queue_recovery.splits)
  then show ?thesis by (simp add: queueIdle_def split: queue_recovery.splits)
qed

theorem queue_loop_starts_owed_work_witness:
  "\<exists>seed d'. recoverQueuedRun QUEUE_RECOVERY_ATTEMPTS sampleEnv None 0 {} queuedStorage =
     Inr (Queue_Start ''r'' seed JNull ''g'', d') \<and> d_active d' = Some ''r''"
  using sample_queue_loop queue_loop_starts_owed_work [OF queued_owed queued_simps(1)] by fastforce

end
