(* ===== verification/Publication_Log.thy ===== *)
theory Publication_Log
  imports Publication Session_Log
begin

text \<open>
  Publication as a log: the store of \<open>Publication\<close> stands for the list of every update committed so
  far and the number of them broadcast (\<open>pub_rep\<close>). A commit appends to that list, a replay is a
  suffix of it, a drain delivers its next batch, and trimming drops only what has been broadcast.
\<close>

section \<open>The abstract publication log\<close>

text \<open>What the store stands for is the list of every update committed so far: \<open>through\<close> of them have
  been broadcast, those from cursor \<open>first\<close> on are still in the replay window, the rest are pending.\<close>

definition rowOf :: "conversation_update \<Rightarrow> conversation_row" where
  "rowOf u = \<lparr>cr_entity = cu_entity u, cr_kind = cu_kind u, cr_revision = cu_revision u,
     cr_payload = cu_payload u\<rparr>"

definition pendingOf :: "conversation_update \<Rightarrow> pending_publication" where
  "pendingOf u = \<lparr>pp_epoch = cu_epoch u, pp_cursor = cu_cursor u, pp_entity = cu_entity u,
     pp_kind = cu_kind u, pp_revision = cu_revision u\<rparr>"

fun latestOf :: "string \<Rightarrow> conversation_update list \<Rightarrow> conversation_update option" where
  "latestOf entity [] = None"
| "latestOf entity (u # us) =
     (case latestOf entity us of
        Some v \<Rightarrow> Some v
      | None \<Rightarrow> if cu_entity u = entity then Some u else None)"

definition good_update :: "conversation_update \<Rightarrow> bool" where
  "good_update u \<longleftrightarrow> cu_epoch u \<le> MAX_SAFE_INTEGER \<and> cu_revision u \<le> MAX_SAFE_INTEGER \<and>
     1 \<le> length (cu_entity u) \<and> length (cu_entity u) \<le> 320"

definition published_ok :: "conversation_update list \<Rightarrow> bool" where
  "published_ok ups \<longleftrightarrow> list_all good_update ups \<and> length ups < MAX_SAFE_INTEGER \<and>
     (\<forall>i < length ups. cu_cursor (ups ! i) = Suc i) \<and>
     (\<forall>i j. i < j \<longrightarrow> j < length ups \<longrightarrow> cu_entity (ups ! i) = cu_entity (ups ! j) \<longrightarrow>
        cu_revision (ups ! i) < cu_revision (ups ! j))"

definition pendingEntries :: "conversation_update list \<Rightarrow> pending_publication stored kv" where
  "pendingEntries us = map (\<lambda>u. (publicationPendingKey (cu_cursor u), Stored (pendingOf u))) us"

definition pub_core ::
  "publication \<Rightarrow> publication_head \<Rightarrow> conversation_update list \<Rightarrow> bool" where
  "pub_core st head ups \<longleftrightarrow> published_ok ups \<and>
     ph_last head = length ups \<and> 1 \<le> ph_first head \<and> ph_first head \<le> ph_through head + 1 \<and>
     ph_through head \<le> length ups \<and> 1 \<le> ph_epoch head \<and> ph_epoch head \<le> MAX_SAFE_INTEGER \<and>
     (\<forall>cursor. updateAt st cursor =
        (if ph_first head \<le> cursor \<and> cursor \<le> length ups then Some (Stored (ups ! (cursor - 1)))
         else None)) \<and>
     pb_pending st = pendingEntries (drop (ph_through head) ups) \<and>
     (\<forall>entity. kv_get (pb_rows st) (conversationRowKeyV1 entity) =
        map_option (\<lambda>u. Stored (rowOf u)) (latestOf entity ups))"

definition index_ok :: "visible_index \<Rightarrow> bool" where
  "index_ok index \<longleftrightarrow> length (vi_runs index) \<le> CONVERSATION_VISIBLE_RUN_LIMIT_V1 \<and>
     length (vi_announcements index) \<le> CONVERSATION_VISIBLE_ANNOUNCEMENT_LIMIT_V1 \<and>
     distinct (vi_runs index) \<and> distinct (vi_announcements index)"

definition pub_rep ::
  "publication \<Rightarrow> publication_head \<Rightarrow> conversation_update list \<Rightarrow> bool" where
  "pub_rep st head ups \<longleftrightarrow> decodePublicationHeadV1 (pb_head st) = Inr head \<and> pub_core st head ups \<and>
     (\<exists>index. decodeVisibleIndex (pb_index st) = Inr index \<and> index_ok index)"

section \<open>Committing appends\<close>

lemma kv_put_last: "(\<And>k'. k' \<in> fst ` set m \<Longrightarrow> k' < k) \<Longrightarrow> kv_put k v m = m @ [(k, v)]"
  by (induction m) force+

lemma conversationUpdateKeyV1_inject [simp]:
  "conversationUpdateKeyV1 a = conversationUpdateKeyV1 b \<longleftrightarrow> a = b"
  by (simp add: conversationUpdateKeyV1_def)

lemma conversationRowKeyV1_inject [simp]:
  "conversationRowKeyV1 a = conversationRowKeyV1 b \<longleftrightarrow> a = b"
  by (simp add: conversationRowKeyV1_def)

lemma latestOf_snoc:
  "latestOf entity (us @ [u]) = (if cu_entity u = entity then Some u else latestOf entity us)"
  by (induction us) (auto split: option.splits)

lemma latestOf_Some: "latestOf entity us = Some u \<Longrightarrow> u \<in> set us \<and> cu_entity u = entity"
  by (induction us) (auto split: option.splits if_splits)

lemma latestOf_max:
  "\<forall>i j. i < j \<longrightarrow> j < length us \<longrightarrow> cu_entity (us ! i) = cu_entity (us ! j) \<longrightarrow>
     cu_revision (us ! i) < cu_revision (us ! j) \<Longrightarrow>
   v \<in> set us \<Longrightarrow> cu_entity v = entity \<Longrightarrow>
   \<exists>u. latestOf entity us = Some u \<and> cu_revision v \<le> cu_revision u"
proof (induction us rule: rev_induct)
  case (snoc w us)
  show ?case
  proof (cases "cu_entity w = entity")
    case True
    have "v = w \<or> cu_revision v < cu_revision w"
    proof (cases "v \<in> set us")
      case True
      then obtain i where "i < length us" "us ! i = v" by (auto simp: in_set_conv_nth)
      with snoc.prems(1) [rule_format, of i "length us"] snoc.prems(3) \<open>cu_entity w = entity\<close>
      show ?thesis by (simp add: nth_append)
    next
      case False
      with snoc.prems(2) show ?thesis by simp
    qed
    with True show ?thesis by (auto simp: latestOf_snoc)
  next
    case False
    have "\<forall>i j. i < j \<longrightarrow> j < length us \<longrightarrow> cu_entity (us ! i) = cu_entity (us ! j) \<longrightarrow>
        cu_revision (us ! i) < cu_revision (us ! j)"
    proof (intro allI impI)
      fix i j
      assume "i < j" "j < length us" "cu_entity (us ! i) = cu_entity (us ! j)"
      then show "cu_revision (us ! i) < cu_revision (us ! j)"
        using snoc.prems(1) [rule_format, of i j] by (simp add: nth_append)
    qed
    moreover have "v \<in> set us" using snoc.prems(2,3) False by auto
    ultimately show ?thesis using snoc.IH snoc.prems(3) False by (simp add: latestOf_snoc)
  qed
qed simp

lemma pendingEntries_snoc:
  assumes ok: "published_ok (us @ [u])" and n: "n \<le> length us"
  shows "kv_put (publicationPendingKey (cu_cursor u)) (Stored (pendingOf u)) (pendingEntries (drop n us)) =
    pendingEntries (drop n (us @ [u]))"
proof -
  have "cu_cursor ((us @ [u]) ! length us) = Suc (length us)"
    using ok unfolding published_ok_def by (metis lessI length_append_singleton)
  then have c: "cu_cursor u = Suc (length us)" by simp
  have max: "Suc (length us) < MAX_SAFE_INTEGER" using ok by (simp add: published_ok_def)
  have less: "publicationPendingKey (cu_cursor v) < publicationPendingKey (cu_cursor u)"
    if "v \<in> set (drop n us)" for v
  proof -
    from that have "v \<in> set us" by (rule in_set_dropD)
    then obtain i where "i < length us" "us ! i = v" by (auto simp: in_set_conv_nth)
    moreover from this ok have "cu_cursor ((us @ [u]) ! i) = Suc i"
      unfolding published_ok_def by (metis length_append_singleton less_SucI)
    ultimately have "cu_cursor v = Suc i" by (simp add: nth_append)
    with \<open>i < length us\<close> c max show ?thesis
      by (simp add: publicationPendingKey_less_iff MAX_SAFE_INTEGER_def)
  qed
  show ?thesis using n less
    by (auto simp: pendingEntries_def image_iff intro!: kv_put_last)
qed

text \<open>What a commit does to the list: the contributions in order, those whose revision does not advance
  the entity left out.\<close>

fun publishAll ::
  "nat \<Rightarrow> contribution list \<Rightarrow> conversation_update list \<Rightarrow> conversation_update list" where
  "publishAll epoch [] ups = ups"
| "publishAll epoch (c # cs) ups =
     (case nextRevision c (map_option rowOf (latestOf (co_entity c) ups)) of
        None \<Rightarrow> publishAll epoch cs ups
      | Some revision \<Rightarrow>
          publishAll epoch cs (ups @ [\<lparr>cu_epoch = epoch, cu_cursor = Suc (length ups),
            cu_kind = co_kind c, cu_entity = co_entity c, cu_revision = revision,
            cu_payload = co_payload c\<rparr>]))"

definition contribution_ok :: "contribution \<Rightarrow> bool" where
  "contribution_ok c \<longleftrightarrow> 1 \<le> length (co_entity c) \<and> length (co_entity c) \<le> 320"

lemma publishAll_extends: "\<exists>extra. publishAll epoch cs ups = ups @ extra"
  by (induction epoch cs ups rule: publishAll.induct) (auto split: option.splits)

lemma length_publishAll: "length (publishAll epoch cs ups) \<le> length ups + length cs"
proof (induction epoch cs ups rule: publishAll.induct)
  case (2 epoch c cs ups)
  then show ?case by (cases "nextRevision c (map_option rowOf (latestOf (co_entity c) ups))") auto
qed simp

lemma nextRevision_Some:
  "nextRevision c current = Some r \<Longrightarrow> r \<le> MAX_SAFE_INTEGER \<and> 1 \<le> r \<and>
     (\<forall>row. current = Some row \<longrightarrow> cr_revision row < r)"
  by (auto simp: nextRevision_def Let_def split: option.splits if_splits)

lemma published_ok_snoc:
  assumes ok: "published_ok ups" and cursor: "cu_cursor u = Suc (length ups)"
    and room: "Suc (length ups) < MAX_SAFE_INTEGER" and good: "good_update u"
    and newer: "\<And>v. latestOf (cu_entity u) ups = Some v \<Longrightarrow> cu_revision v < cu_revision u"
  shows "published_ok (ups @ [u])"
proof -
  have rev: "cu_revision (ups ! i) < cu_revision u" if "i < length ups" "cu_entity (ups ! i) = cu_entity u" for i
  proof -
    have "\<exists>w. latestOf (cu_entity u) ups = Some w \<and> cu_revision (ups ! i) \<le> cu_revision w"
      using ok that by (intro latestOf_max) (simp_all add: published_ok_def)
    then show ?thesis using newer by fastforce
  qed
  have "cu_cursor ((ups @ [u]) ! i) = Suc i" if "i < length (ups @ [u])" for i
    using that ok cursor by (cases "i = length ups") (simp_all add: published_ok_def nth_append)
  moreover have "cu_revision ((ups @ [u]) ! i) < cu_revision ((ups @ [u]) ! j)"
    if "i < j" "j < length (ups @ [u])" "cu_entity ((ups @ [u]) ! i) = cu_entity ((ups @ [u]) ! j)" for i j
    using that ok rev [of i] by (cases "j = length ups") (simp_all add: published_ok_def nth_append)
  ultimately show ?thesis using ok room good by (simp add: published_ok_def)
qed

lemma writePublished_core:
  assumes core: "pub_core st head ups" and ok: "published_ok (ups @ [u])"
    and u: "cu_entity u = co_entity c" "cu_kind u = co_kind c" "cu_payload u = co_payload c"
  shows "pub_core (writePublished c u st) (head\<lparr>ph_last := Suc (length ups)\<rparr>) (ups @ [u])"
proof -
  have "cu_cursor ((ups @ [u]) ! length ups) = Suc (length ups)"
    using ok unfolding published_ok_def by (metis lessI length_append_singleton)
  then have cursor: "cu_cursor u = Suc (length ups)" by simp
  have through: "ph_through head \<le> length ups" and first: "ph_first head \<le> ph_through head + 1"
    using core by (simp_all add: pub_core_def)
  have rowU: "\<lparr>cr_entity = co_entity c, cr_kind = co_kind c, cr_revision = cu_revision u,
      cr_payload = co_payload c\<rparr> = rowOf u"
    and pendU: "\<lparr>pp_epoch = cu_epoch u, pp_cursor = cu_cursor u, pp_entity = co_entity c,
      pp_kind = co_kind c, pp_revision = cu_revision u\<rparr> = pendingOf u"
    using u by (simp_all add: rowOf_def pendingOf_def)
  have "updateAt (writePublished c u st) k =
      (if ph_first head \<le> k \<and> k \<le> Suc (length ups) then Some (Stored ((ups @ [u]) ! (k - 1))) else None)" for k
    using core cursor first through
    by (auto simp: updateAt_def writePublished_def pub_core_def nth_append)
  moreover have "pb_pending (writePublished c u st) = pendingEntries (drop (ph_through head) (ups @ [u]))"
    using core pendingEntries_snoc [OF ok through]
    by (simp add: writePublished_def pendU pub_core_def del: drop_append)
  moreover have "kv_get (pb_rows (writePublished c u st)) (conversationRowKeyV1 entity) =
      map_option (\<lambda>v. Stored (rowOf v)) (latestOf entity (ups @ [u]))" for entity
    using core u by (auto simp: writePublished_def rowU pub_core_def latestOf_snoc)
  ultimately show ?thesis using core ok by (simp add: pub_core_def)
qed

lemma writePublished_frame [simp]:
  "pb_head (writePublished c u st) = pb_head st" "pb_index (writePublished c u st) = pb_index st"
  by (simp_all add: writePublished_def)

lemma currentRow_core:
  assumes "pub_core st head ups"
  shows "currentRow st entity = Inr (map_option rowOf (latestOf entity ups))"
proof (cases "latestOf entity ups")
  case None
  with assms show ?thesis by (simp add: currentRow_def pub_core_def)
next
  case (Some u)
  then have "good_update u" using assms latestOf_Some [OF Some]
    by (auto simp: pub_core_def published_ok_def list_all_iff)
  with Some assms show ?thesis
    by (simp add: currentRow_def pub_core_def decodeConversationRowV1_def rowOf_def good_update_def
        requireEntityId_def requireSafeInteger_def rguard_def)
qed

lemma pushBounded_ok:
  "distinct ids \<Longrightarrow> 1 \<le> limit \<Longrightarrow>
   distinct (pushBounded ids entity limit) \<and> length (pushBounded ids entity limit) \<le> limit"
  by (auto simp: pushBounded_def Let_def dest: in_set_dropD)

lemma indexed_ok: "index_ok index \<Longrightarrow> index_ok (indexed c index)"
  using pushBounded_ok [of "vi_runs index" CONVERSATION_VISIBLE_RUN_LIMIT_V1 "co_entity c"]
    pushBounded_ok [of "vi_announcements index" CONVERSATION_VISIBLE_ANNOUNCEMENT_LIMIT_V1 "co_entity c"]
  by (auto simp: index_ok_def indexed_def CONVERSATION_VISIBLE_RUN_LIMIT_V1_def
      CONVERSATION_VISIBLE_ANNOUNCEMENT_LIMIT_V1_def split: conversation_kind.splits)

lemma commitContributions_core:
  assumes "pub_core st head ups" and "list_all contribution_ok cs"
    and "length ups + length cs < MAX_SAFE_INTEGER" and "index_ok index"
  shows "\<exists>committed index' st'. commitContributions cs head index st =
      Inr (committed, head\<lparr>ph_last := length (ups @ committed)\<rparr>, index', st') \<and>
    publishAll (ph_epoch head) cs ups = ups @ committed \<and>
    pub_core st' (head\<lparr>ph_last := length (ups @ committed)\<rparr>) (ups @ committed) \<and>
    index_ok index' \<and> (committed = [] \<longrightarrow> st' = st)"
  using assms
proof (induction cs arbitrary: st head ups index)
  case Nil
  then have "head\<lparr>ph_last := length ups\<rparr> = head" by (simp add: pub_core_def)
  with Nil show ?case by simp
next
  case (Cons c cs)
  have entity: "requireEntityId (co_entity c) = Inr ()"
    using Cons.prems(2) by (simp add: requireEntityId_def contribution_ok_def rguard_def)
  let ?cur = "map_option rowOf (latestOf (co_entity c) ups)"
  show ?case
  proof (cases "nextRevision c ?cur")
    case None
    then show ?thesis using Cons.IH [OF Cons.prems(1) _ _ Cons.prems(4)] Cons.prems(2,3) entity
      by (simp add: currentRow_core [OF Cons.prems(1)])
  next
    case (Some r)
    let ?u = "\<lparr>cu_epoch = ph_epoch head, cu_cursor = Suc (length ups), cu_kind = co_kind c,
        cu_entity = co_entity c, cu_revision = r, cu_payload = co_payload c\<rparr>"
    let ?head = "head\<lparr>ph_last := Suc (length ups)\<rparr>"
    have last: "ph_last head = length ups" using Cons.prems(1) by (simp add: pub_core_def)
    have room: "Suc (length ups) < MAX_SAFE_INTEGER" using Cons.prems(3) by simp
    have ok: "published_ok (ups @ [?u])"
      using Cons.prems(1,2) nextRevision_Some [OF Some] room
      by (intro published_ok_snoc)
        (auto simp: pub_core_def good_update_def contribution_ok_def rowOf_def)
    have core: "pub_core (writePublished c ?u st) ?head (ups @ [?u])"
      using writePublished_core [OF Cons.prems(1) ok, of c] by simp
    have pre: "list_all contribution_ok cs" "length (ups @ [?u]) + length cs < MAX_SAFE_INTEGER"
      using Cons.prems(2,3) by simp_all
    from Cons.IH [OF core pre indexed_ok [OF Cons.prems(4), of c]]
    obtain committed index' st' where ih:
      "commitContributions cs ?head (indexed c index) (writePublished c ?u st) =
         Inr (committed, ?head\<lparr>ph_last := length ((ups @ [?u]) @ committed)\<rparr>, index', st') \<and>
       publishAll (ph_epoch ?head) cs (ups @ [?u]) = (ups @ [?u]) @ committed \<and>
       pub_core st' (?head\<lparr>ph_last := length ((ups @ [?u]) @ committed)\<rparr>) ((ups @ [?u]) @ committed) \<and>
       index_ok index' \<and> (committed = [] \<longrightarrow> st' = writePublished c ?u st)"
      by blast
    show ?thesis using Some entity last room ih
      by (intro exI [of _ "?u # committed"] exI [of _ index'] exI [of _ st'])
        (simp add: currentRow_core [OF Cons.prems(1)])
  qed
qed

section \<open>Trimming drops only what was broadcast\<close>

definition updateBytes :: "conversation_update \<Rightarrow> nat" where
  "updateBytes u = utf8Bytes (updateJson u)"

definition storedBytes :: "publication \<Rightarrow> nat \<Rightarrow> nat" where
  "storedBytes st cursor =
     (case updateAt st cursor of None \<Rightarrow> 0 | Some stored \<Rightarrow> utf8Bytes (storedJson stored))"

lemma replayOver_bytes:
  "\<not> replayOver st cursors bytes \<Longrightarrow> bytes \<le> PUBLICATION_REPLAY_MAX_BYTES_V1 \<Longrightarrow>
   bytes + sum_list (map (storedBytes st) cursors) \<le> PUBLICATION_REPLAY_MAX_BYTES_V1"
proof (induction st cursors bytes rule: replayOver.induct)
  case (2 st cursor cursors bytes)
  then show ?case by (auto simp: storedBytes_def Let_def add.assoc split: option.splits if_splits)
qed simp

lemma window_bytes:
  assumes "pub_core st head ups"
  shows "map (storedBytes st) [ph_first head..<Suc (length ups)] =
    map updateBytes (drop (ph_first head - 1) ups)"
proof (rule nth_equalityI)
  have "1 \<le> ph_first head" using assms by (simp add: pub_core_def)
  then show "length (map (storedBytes st) [ph_first head..<Suc (length ups)]) =
      length (map updateBytes (drop (ph_first head - 1) ups))" by auto
  fix i
  assume i: "i < length (map (storedBytes st) [ph_first head..<Suc (length ups)])"
  then have "updateAt st (ph_first head + i) = Some (Stored (ups ! (ph_first head + i - 1)))"
    using assms by (auto simp: pub_core_def split: if_splits)
  with i \<open>1 \<le> ph_first head\<close> show "map (storedBytes st) [ph_first head..<Suc (length ups)] ! i =
      map updateBytes (drop (ph_first head - 1) ups) ! i"
    by (simp add: storedBytes_def updateBytes_def nth_append del: upt_Suc)
qed

text \<open>A replay window within both of its bounds.\<close>

definition window_fits :: "conversation_update list \<Rightarrow> bool" where
  "window_fits us \<longleftrightarrow> length us \<le> PUBLICATION_REPLAY_MAX_EVENTS_V1 \<and>
     sum_list (map updateBytes us) \<le> PUBLICATION_REPLAY_MAX_BYTES_V1"

lemma deleteUpdate_core:
  assumes "pub_core st head ups" and "ph_first head \<le> ph_through head"
  shows "pub_core (deleteUpdate (ph_first head) st) (head\<lparr>ph_first := ph_first head + 1\<rparr>) ups"
  using assms by (auto simp: pub_core_def deleteUpdate_def updateAt_def)

lemma trimFrom_core:
  assumes "pub_core st head ups"
  shows "\<exists>first st'. trimFrom (ph_through head) (ph_last head) (ph_first head) st = (first, st') \<and>
    pub_core st' (head\<lparr>ph_first := first\<rparr>) ups \<and> ph_first head \<le> first \<and>
    (first \<le> ph_through head \<longrightarrow> window_fits (drop (first - 1) ups))"
  using assms
proof (induction "Suc (ph_through head) - ph_first head" arbitrary: head st rule: less_induct)
  case less
  have same: "head\<lparr>ph_first := ph_first head\<rparr> = head" by simp
  have last: "ph_last head = length ups" using less.prems by (simp add: pub_core_def)
  note step = trimFrom.simps [of "ph_through head" "ph_last head" "ph_first head" st]
  consider "ph_first head > ph_through head"
    | "ph_first head \<le> ph_through head" "ph_last head + 1 - ph_first head \<le> PUBLICATION_REPLAY_MAX_EVENTS_V1"
        "\<not> replayOver st [ph_first head..<ph_last head + 1] 0"
    | "ph_first head \<le> ph_through head" "\<not> (ph_last head + 1 - ph_first head \<le> PUBLICATION_REPLAY_MAX_EVENTS_V1
        \<and> \<not> replayOver st [ph_first head..<ph_last head + 1] 0)"
    by linarith
  then show ?case
  proof cases
    case 1
    then show ?thesis using less.prems step same by auto
  next
    case 2
    have "1 \<le> ph_first head" using less.prems by (simp add: pub_core_def)
    moreover have "sum_list (map updateBytes (drop (ph_first head - 1) ups)) \<le> PUBLICATION_REPLAY_MAX_BYTES_V1"
      using replayOver_bytes [OF 2(3)] last window_bytes [OF less.prems] by simp
    ultimately have "window_fits (drop (ph_first head - 1) ups)"
      using 2(2) last by (simp add: window_fits_def)
    with 2 show ?thesis using less.prems step same by auto
  next
    case 3
    have "Suc (ph_through head) - Suc (ph_first head) < Suc (ph_through head) - ph_first head"
      using 3(1) by simp
    then have ih: "\<exists>first st'. trimFrom (ph_through head) (ph_last head) (ph_first head + 1)
          (deleteUpdate (ph_first head) st) = (first, st') \<and>
        pub_core st' (head\<lparr>ph_first := first\<rparr>) ups \<and> ph_first head + 1 \<le> first \<and>
        (first \<le> ph_through head \<longrightarrow> window_fits (drop (first - 1) ups))"
      using less.hyps [of "head\<lparr>ph_first := ph_first head + 1\<rparr>"
          "deleteUpdate (ph_first head) st"] deleteUpdate_core [OF less.prems 3(1)] by simp
    have "trimFrom (ph_through head) (ph_last head) (ph_first head) st =
        trimFrom (ph_through head) (ph_last head) (ph_first head + 1) (deleteUpdate (ph_first head) st)"
      using step 3 by auto
    with ih show ?thesis by (metis Suc_eq_plus1 Suc_leD)
  qed
qed

lemma trimFrom_index: "trimFrom through lastCursor first st = (first', st') \<Longrightarrow> pb_index st' = pb_index st"
proof (induction through lastCursor first st rule: trimFrom.induct)
  case (1 through lastCursor first st)
  show ?case using 1 by (auto simp: trimFrom.simps [of through lastCursor first] deleteUpdate_def split: if_splits)
qed

lemma trimReplay_core:
  assumes "pub_core st head ups"
  shows "\<exists>first st'. trimReplay head st = (head\<lparr>ph_first := first\<rparr>, st') \<and>
    pub_core st' (head\<lparr>ph_first := first\<rparr>) ups \<and> ph_first head \<le> first \<and> pb_index st' = pb_index st \<and>
    (first \<le> ph_through head \<longrightarrow> window_fits (drop (first - 1) ups))"
proof -
  have "min (ph_through head) (ph_last head) = ph_through head" using assms by (simp add: pub_core_def)
  then show ?thesis using trimFrom_core [OF assms] trimFrom_index
    by (auto simp: trimReplay_def split: prod.split)
qed

lemma decode_head_core:
  assumes "pub_core st head ups"
  shows "decodePublicationHeadV1 (Some (Stored head)) = Inr head"
  using assms by (auto simp: pub_core_def published_ok_def decodePublicationHeadV1_def
      requireSafeInteger_def rguard_def)

lemma pub_core_fields:
  "pub_core (st\<lparr>pb_head := h, pb_index := i\<rparr>) head ups = pub_core st head ups"
  "pub_core (st\<lparr>pb_head := h\<rparr>) head ups = pub_core st head ups"
  by (simp_all add: pub_core_def updateAt_def)

lemma commit_rep:
  assumes rep: "pub_rep st head ups" and ok: "list_all contribution_ok cs"
    and room: "length ups + length cs < MAX_SAFE_INTEGER"
  shows "\<exists>committed st' head'. commitPublicationsV1 cs st = Inr (committed, st') \<and>
    publishAll (ph_epoch head) cs ups = ups @ committed \<and> pub_rep st' head' (ups @ committed) \<and>
    ph_through head' = ph_through head \<and> ph_epoch head' = ph_epoch head \<and>
    ph_first head \<le> ph_first head' \<and>
    (committed \<noteq> [] \<longrightarrow> ph_first head' \<le> ph_through head' \<longrightarrow>
       window_fits (drop (ph_first head' - 1) (ups @ committed)))"
proof (cases "cs = []")
  case True
  then show ?thesis using rep by (auto simp: commitPublicationsV1_def)
next
  case False
  obtain index where head: "decodePublicationHeadV1 (pb_head st) = Inr head" and core: "pub_core st head ups"
    and index: "decodeVisibleIndex (pb_index st) = Inr index" "index_ok index"
    using rep by (auto simp: pub_rep_def)
  obtain committed index' st1 where c:
    "commitContributions cs head index st =
      Inr (committed, head\<lparr>ph_last := length (ups @ committed)\<rparr>, index', st1)"
    "publishAll (ph_epoch head) cs ups = ups @ committed"
    "pub_core st1 (head\<lparr>ph_last := length (ups @ committed)\<rparr>) (ups @ committed)" "index_ok index'"
    using commitContributions_core [OF core ok room index(2)] by blast
  show ?thesis
  proof (cases "committed = []")
    case True
    then show ?thesis using False head index c rep by (auto simp: commitPublicationsV1_def)
  next
    case nonempty: False
    let ?head = "head\<lparr>ph_last := length (ups @ committed)\<rparr>"
    obtain first st2 where t: "trimReplay ?head st1 = (?head\<lparr>ph_first := first\<rparr>, st2)"
      "pub_core st2 (?head\<lparr>ph_first := first\<rparr>) (ups @ committed)" "ph_first head \<le> first"
      "first \<le> ph_through head \<longrightarrow> window_fits (drop (first - 1) (ups @ committed))"
      using trimReplay_core [OF c(3)] by auto
    let ?st = "st2\<lparr>pb_head := Some (Stored (?head\<lparr>ph_first := first\<rparr>)), pb_index := Some (Stored index')\<rparr>"
    have "commitPublicationsV1 cs st = Inr (committed, ?st)"
      using False nonempty head index c t(1) by (simp add: commitPublicationsV1_def)
    moreover have "pub_rep ?st (?head\<lparr>ph_first := first\<rparr>) (ups @ committed)"
      using t(2) decode_head_core [OF t(2)] c(4)
      by (simp add: pub_rep_def pub_core_fields decodeVisibleIndex_def)
    ultimately show ?thesis using c(2) t(3,4)
      by (intro exI [of _ committed] exI [of _ ?st] exI [of _ "?head\<lparr>ph_first := first\<rparr>"]) simp
  qed
qed

section \<open>Reading and draining\<close>

lemma update_of_core:
  assumes "pub_core st head ups" and "i < length ups" and "ph_first head \<le> Suc i"
  shows "readConversationUpdateV1 st (Suc i) = Inr (Some (ups ! i))"
proof -
  have "good_update (ups ! i)" "cu_cursor (ups ! i) = Suc i" "length ups < MAX_SAFE_INTEGER"
    using assms by (auto simp: pub_core_def published_ok_def list_all_length)
  moreover have "updateAt st (Suc i) = Some (Stored (ups ! i))" using assms by (simp add: pub_core_def)
  ultimately show ?thesis using assms(2)
    by (simp add: readConversationUpdateV1_def decodeConversationUpdateV1_def good_update_def
        requireSafeInteger_def requireEntityId_def rguard_def)
qed

lemma replay_rep:
  assumes "pub_core st head ups" and "ph_first head \<le> afterCursor + 1"
  shows "readReplayUpdatesV1 st head afterCursor = Inr (drop afterCursor ups)"
proof -
  have last: "ph_last head = length ups" using assms(1) by (simp add: pub_core_def)
  have "list_all2 (\<lambda>cursor u. readConversationUpdateV1 st cursor = Inr (Some u))
      [afterCursor + 1..<ph_last head + 1] (drop afterCursor ups)"
    using update_of_core [OF assms(1)] assms(2) last
    by (auto simp: list_all2_conv_all_nth simp del: upt_Suc)
  then show ?thesis unfolding readReplayUpdatesV1_def rmap_Inr_iff
    by (rule list_all2_mono) simp
qed

lemma replay_gap_rep:
  assumes "pub_core st head ups" and "afterCursor + 1 < ph_first head" and "afterCursor < length ups"
  shows "readReplayUpdatesV1 st head afterCursor = Inl (Replay_Gap (afterCursor + 1))"
proof -
  have last: "ph_last head = length ups" using assms(1) by (simp add: pub_core_def)
  have "updateAt st (afterCursor + 1) = None" using assms by (simp add: pub_core_def)
  then have "readConversationUpdateV1 st (afterCursor + 1) = Inr None"
    by (simp add: readConversationUpdateV1_def)
  then show ?thesis using assms(3) last by (simp add: readReplayUpdatesV1_def upt_conv_Cons del: upt_Suc)
qed

lemma pendingEntries_split: "pendingEntries (xs @ ys) = pendingEntries xs @ pendingEntries ys"
  by (simp add: pendingEntries_def)

lemma fold_kv_delete:
  "distinct (map fst (a @ b)) \<Longrightarrow> fold kv_delete (map fst a) (a @ b) = b"
proof (induction a)
  case (Cons e a)
  have "filter (\<lambda>(k, v). k \<noteq> fst e) (a @ b) = a @ b"
    using Cons.prems unfolding filter_id_conv by (auto simp: rev_image_eqI)
  then have "kv_delete (fst e) (e # a @ b) = a @ b"
    by (cases e) (simp add: kv_delete_def)
  with Cons show ?case by simp
qed simp

lemma published_distinct:
  assumes "published_ok ups"
  shows "distinct (map cu_cursor ups)"
proof -
  have "map cu_cursor ups = [1..<Suc (length ups)]"
    using assms by (auto simp: published_ok_def intro!: nth_equalityI simp del: upt_Suc)
  then show ?thesis by (simp del: upt_Suc)
qed

lemma sorted_cursors:
  assumes "published_ok ups"
  shows "sorted (map cu_cursor ups)"
proof -
  have "map cu_cursor ups = [1..<Suc (length ups)]"
    using assms by (auto simp: published_ok_def intro!: nth_equalityI simp del: upt_Suc)
  then show ?thesis by (simp del: upt_Suc)
qed

lemma publicationPendingKey_inject [simp]:
  "publicationPendingKey a = publicationPendingKey b \<longleftrightarrow> a = b"
  by (simp add: publicationPendingKey_def)

lemma pendingEntries_distinct:
  "published_ok ups \<Longrightarrow> distinct (map fst (pendingEntries ups))"
  using published_distinct [of ups]
  by (auto simp: pendingEntries_def distinct_map inj_on_def comp_def)

lemma trimFrom_pending:
  "trimFrom through lastCursor first (st\<lparr>pb_pending := p\<rparr>) =
     map_prod id (\<lambda>st'. st'\<lparr>pb_pending := p\<rparr>) (trimFrom through lastCursor first st) \<and>
   pb_pending (snd (trimFrom through lastCursor first st)) = pb_pending st"
proof (induction through lastCursor first st rule: trimFrom.induct)
  case (1 through lastCursor first st)
  have over: "replayOver (st\<lparr>pb_pending := p\<rparr>) cs b = replayOver st cs b" for cs b
    by (induction st cs b rule: replayOver.induct) (simp_all add: updateAt_def split: option.splits)
  have del: "deleteUpdate first (st\<lparr>pb_pending := p\<rparr>) = (deleteUpdate first st)\<lparr>pb_pending := p\<rparr>"
    by (simp add: deleteUpdate_def)
  have keep: "pb_pending (deleteUpdate first st) = pb_pending st" by (simp add: deleteUpdate_def)
  show ?case
    using 1 keep by (simp add: trimFrom.simps [of through lastCursor first] over del del: upt_Suc)
qed

lemma readDrainBatch_rep:
  assumes core: "pub_core st head ups" and us: "us = take batch (drop (ph_through head) ups)" and "us \<noteq> []"
  shows "readDrainBatch st batch = Inr (Some \<lparr>db_keys = map fst (pendingEntries us),
     db_markers = map pendingOf us, db_updates = us\<rparr>)"
proof -
  let ?t = "ph_through head"
  have ok: "published_ok ups" using core by (simp add: pub_core_def)
  have pending: "take batch (pb_pending st) = pendingEntries us"
    using core us by (simp add: pub_core_def pendingEntries_def take_map)
  have nth: "us ! i = ups ! (?t + i)" "?t + i < length ups" if "i < length us" for i
    using that us by (auto simp: nth_take)
  have good: "good_update u" "cu_cursor u \<le> MAX_SAFE_INTEGER" if "u \<in> set us" for u
  proof -
    from that obtain i where i: "i < length us" "us ! i = u" by (auto simp: in_set_conv_nth)
    with nth [OF i(1)] ok show "good_update u" "cu_cursor u \<le> MAX_SAFE_INTEGER"
      by (auto simp: published_ok_def list_all_length)
  qed
  have "rmap (\<lambda>entry. decodePendingPublicationV1 (snd entry)) (pendingEntries us) = Inr (map pendingOf us)"
    unfolding pendingEntries_def rmap_Inr_iff list_all2_map1 list_all2_map2
    using good
    by (auto simp: list_all2_same decodePendingPublicationV1_def requireSafeInteger_def requireEntityId_def
        rguard_def good_update_def pendingOf_def)
  moreover have "sort_key pp_cursor (map pendingOf us) = map pendingOf us"
  proof (rule sort_key_id_if_sorted)
    have "sorted (map cu_cursor us)" unfolding us
      using sorted_cursors [OF ok] by (metis sorted_wrt_drop sorted_wrt_take drop_map take_map)
    then show "sorted (map pp_cursor (map pendingOf us))" by (simp add: pendingOf_def comp_def)
  qed
  moreover have "rmap (reconstructUpdate st) (map pendingOf us) = Inr (map Some us)"
  proof -
    have "reconstructUpdate st (pendingOf (us ! i)) = Inr (Some (us ! i))" if "i < length us" for i
    proof -
      have "cu_cursor (us ! i) = Suc (?t + i)" using nth [OF that] ok by (simp add: published_ok_def)
      moreover have "ph_first head \<le> Suc (?t + i)" using core by (simp add: pub_core_def)
      ultimately show ?thesis using update_of_core [OF core nth(2) [OF that]] nth(1) [OF that]
        by (simp add: reconstructUpdate_def pendingOf_def)
    qed
    then show ?thesis by (simp add: rmap_Inr_iff list_all2_conv_all_nth)
  qed
  moreover have "List.map_filter id (map Some us) = us" by (induction us) (simp_all add: List.map_filter_simps)
  moreover have "pendingEntries us \<noteq> []" using \<open>us \<noteq> []\<close> by (simp add: pendingEntries_def)
  ultimately show ?thesis by (simp add: readDrainBatch_def pending)
qed

lemma drop_batch:
  assumes "us = take batch (drop t ups)" and "t \<le> length ups"
  shows "drop t (ups @ extra) = us @ drop (t + length us) (ups @ extra)"
proof -
  have "take (length us) (drop t (ups @ extra)) = us" using assms by (auto simp: min_def)
  then have "drop t (ups @ extra) = us @ drop (length us) (drop t (ups @ extra))"
    by (metis append_take_drop_id)
  then show ?thesis by (simp only: drop_drop add.commute)
qed

lemma settleDrain_rep:
  assumes rep: "pub_rep st head (ups @ extra)" and us: "us = take batch (drop (ph_through head) ups)"
    and "us \<noteq> []"
  shows "\<exists>st' head'. settleDrain \<lparr>db_keys = map fst (pendingEntries us),
      db_markers = map pendingOf us, db_updates = us\<rparr> st = Inr st' \<and>
    pub_rep st' head' (ups @ extra) \<and> ph_through head' = ph_through head + length us \<and>
    (ph_first head' \<le> ph_through head' \<longrightarrow> window_fits (drop (ph_first head' - 1) (ups @ extra)))"
proof -
  let ?t = "ph_through head" and ?all = "ups @ extra"
  obtain index where head: "decodePublicationHeadV1 (pb_head st) = Inr head" and core: "pub_core st head ?all"
    and index: "decodeVisibleIndex (pb_index st) = Inr index" "index_ok index"
    using rep by (auto simp: pub_rep_def)
  have ok: "published_ok ?all" using core by (simp add: pub_core_def)
  have through: "?t \<le> length ups"
    using us \<open>us \<noteq> []\<close> by (cases "?t \<le> length ups") simp_all
  have split: "drop ?t ?all = us @ drop (?t + length us) ?all"
    using us through by (rule drop_batch)
  have le: "?t + length us \<le> length ?all" using us through by auto
  have last: "pp_cursor (last (map pendingOf us)) = ?t + length us"
  proof -
    have "last us = us ! (length us - 1)" using \<open>us \<noteq> []\<close> by (rule last_conv_nth)
    also have "\<dots> = ?all ! (?t + (length us - 1))"
    proof -
      have "us ! (length us - 1) = drop ?t ?all ! (length us - 1)"
        unfolding split using \<open>us \<noteq> []\<close> by (simp add: nth_append)
      also have "\<dots> = ?all ! (?t + (length us - 1))" using le by (intro nth_drop) simp
      finally show ?thesis .
    qed
    finally have "cu_cursor (last us) = Suc (?t + (length us - 1))"
      using ok le \<open>us \<noteq> []\<close> by (cases us) (simp_all add: published_ok_def)
    then show ?thesis using \<open>us \<noteq> []\<close> by (simp add: last_map pendingOf_def)
  qed
  let ?pending = "pendingEntries (drop (?t + length us) ?all)"
  have "distinct (map fst (pendingEntries (drop ?t ?all)))"
    using distinct_drop [OF pendingEntries_distinct [OF ok], of ?t]
    by (simp only: pendingEntries_def drop_map)
  then have gone: "fold kv_delete (map fst (pendingEntries us)) (pb_pending st) = ?pending"
    using core fold_kv_delete [of "pendingEntries us" ?pending]
    by (simp add: pub_core_def split pendingEntries_split del: drop_append)
  let ?head = "head\<lparr>ph_through := ?t + length us\<rparr>"
  have core': "pub_core (st\<lparr>pb_pending := ?pending\<rparr>) ?head ?all"
    using core le by (auto simp: pub_core_def updateAt_def)
  obtain first st1 where t: "trimReplay ?head (st\<lparr>pb_pending := ?pending\<rparr>) = (?head\<lparr>ph_first := first\<rparr>, st1)"
    "pub_core st1 (?head\<lparr>ph_first := first\<rparr>) ?all" "pb_index st1 = pb_index st"
    "first \<le> ?t + length us \<longrightarrow> window_fits (drop (first - 1) ?all)"
    using trimReplay_core [OF core'] by auto
  obtain st0 where st0: "trimReplay ?head st = (?head\<lparr>ph_first := first\<rparr>, st0)" "st1 = st0\<lparr>pb_pending := ?pending\<rparr>"
      "pb_pending st0 = pb_pending st"
    using t(1) trimFrom_pending [where st = st and p = ?pending and through = "min (?t + length us) (ph_last head)"
      and lastCursor = "ph_last head" and first = "ph_first head"]
    by (cases "trimFrom (min (?t + length us) (ph_last head)) (ph_last head) (ph_first head) st")
      (auto simp: trimReplay_def)
  let ?st = "st1\<lparr>pb_head := Some (Stored (?head\<lparr>ph_first := first\<rparr>))\<rparr>"
  have "settleDrain \<lparr>db_keys = map fst (pendingEntries us), db_markers = map pendingOf us,
      db_updates = us\<rparr> st = Inr ?st"
    using last st0 gone head by (simp add: settleDrain_def max_def Let_def)
  moreover have "pub_rep ?st (?head\<lparr>ph_first := first\<rparr>) ?all"
    using t(2,3) decode_head_core [OF t(2)] index
    by (simp add: pub_rep_def pub_core_fields)
  ultimately show ?thesis using t(4)
    by (intro exI [of _ ?st] exI [of _ "?head\<lparr>ph_first := first\<rparr>"]) simp
qed

text \<open>A delivered batch, with what other transactions committed while it was being delivered.\<close>

lemma drain_rep:
  assumes rep: "pub_rep st head ups" and owed: "ph_through head < length ups" and batch: "0 < batch"
    and other: "pub_rep (meanwhile st) head1 (ups @ extra)" "ph_through head1 = ph_through head"
  shows "\<exists>st' head'. drainPendingPublicationV1 True meanwhile batch st =
      Inr (min (ph_through head + batch) (length ups) < length (ups @ extra),
           take batch (drop (ph_through head) ups), st') \<and>
    pub_rep st' head' (ups @ extra) \<and> ph_through head' = min (ph_through head + batch) (length ups) \<and>
    (ph_first head' \<le> ph_through head' \<longrightarrow> window_fits (drop (ph_first head' - 1) (ups @ extra)))"
proof -
  define us where us: "us = take batch (drop (ph_through head) ups)"
  have nonempty: "us \<noteq> []" using owed batch by (simp add: us)
  have n: "ph_through head + length us = min (ph_through head + batch) (length ups)"
    using owed by (auto simp: us min_def)
  have core: "pub_core st head ups" using rep by (simp add: pub_rep_def)
  obtain st' head' where s:
    "settleDrain \<lparr>db_keys = map fst (pendingEntries us), db_markers = map pendingOf us,
       db_updates = us\<rparr> (meanwhile st) = Inr st'"
    "pub_rep st' head' (ups @ extra)" "ph_through head' = ph_through head + length us"
    "ph_first head' \<le> ph_through head' \<longrightarrow> window_fits (drop (ph_first head' - 1) (ups @ extra))"
    using settleDrain_rep [OF other(1), of us batch] us nonempty other(2) by auto
  have "pb_pending st' = pendingEntries (drop (min (ph_through head + batch) (length ups)) (ups @ extra))"
    using s(2,3) n by (simp add: pub_rep_def pub_core_def)
  then have "(pb_pending st' \<noteq> []) = (min (ph_through head + batch) (length ups) < length (ups @ extra))"
    by (simp add: pendingEntries_def not_le min_less_iff_disj del: drop_append length_append)
  then show ?thesis
    using s n readDrainBatch_rep [OF core us nonempty]
    by (intro exI [of _ st'] exI [of _ head'])
      (auto simp: drainPendingPublicationV1_def us)
qed

section \<open>Draining until nothing is pending\<close>

text \<open>The drain repeated while it reports more, as the alarm repeats it: the updates delivered, whether
  more was pending after the last one, and the store.\<close>

fun repeatDrain ::
  "nat \<Rightarrow> ('s \<Rightarrow> 'e + bool \<times> 'u list \<times> 's) \<Rightarrow> 's \<Rightarrow> 'e + 'u list \<times> bool \<times> 's" where
  "repeatDrain 0 drain st = Inr ([], True, st)"
| "repeatDrain (Suc passes) drain st =
     rbind (drain st) (\<lambda>(again, us, st').
       if again then rbind (repeatDrain passes drain st') (\<lambda>(vs, left, st''). Inr (us @ vs, left, st''))
       else Inr (us, False, st'))"

locale drained_log =
  fixes rep :: "'s \<Rightarrow> 'u list \<Rightarrow> nat \<Rightarrow> bool"
    and drain :: "'s \<Rightarrow> 'e + bool \<times> 'u list \<times> 's"
    and batch :: nat
  assumes batch_pos: "0 < batch"
    and drain_idle: "rep st us n \<Longrightarrow> length us \<le> n \<Longrightarrow> drain st = Inr (False, [], st)"
    and drain_step: "rep st us n \<Longrightarrow> n < length us \<Longrightarrow>
      \<exists>st'. drain st = Inr (n + batch < length us, take batch (drop n us), st') \<and>
        rep st' us (min (n + batch) (length us))"
begin

lemma drains_all:
  "rep st us n \<Longrightarrow> n \<le> length us \<Longrightarrow> length us - n < batch * passes \<Longrightarrow>
   \<exists>st'. repeatDrain passes drain st = Inr (drop n us, False, st') \<and> rep st' us (length us)"
proof (induction passes arbitrary: st n)
  case (Suc passes)
  show ?case
  proof (cases "n < length us")
    case False
    with Suc.prems show ?thesis using drain_idle [OF Suc.prems(1)] by auto
  next
    case True
    obtain st' where st': "drain st = Inr (n + batch < length us, take batch (drop n us), st')"
      "rep st' us (min (n + batch) (length us))"
      using drain_step [OF Suc.prems(1) True] by blast
    show ?thesis
    proof (cases "n + batch < length us")
      case True
      have "length us - (n + batch) < batch * passes" using Suc.prems(3) True by simp
      moreover have "rep st' us (n + batch)" using st'(2) True by (simp add: min_def)
      ultimately obtain st'' where "repeatDrain passes drain st' = Inr (drop (n + batch) us, False, st'')"
        "rep st'' us (length us)"
        using Suc.IH [of st' "n + batch"] True by auto
      moreover have "take batch (drop n us) @ drop (n + batch) us = drop n us"
        by (metis add.commute append_take_drop_id drop_drop)
      ultimately show ?thesis using st'(1) True by simp
    next
      case False
      then have "min (n + batch) (length us) = length us" by simp
      with False show ?thesis using st' by simp
    qed
  qed
qed simp

end

definition broadcast_rep :: "publication \<Rightarrow> conversation_update list \<Rightarrow> nat \<Rightarrow> bool" where
  "broadcast_rep st ups n \<longleftrightarrow> (\<exists>head. pub_rep st head ups \<and> ph_through head = n)"

interpretation broadcasts: drained_log broadcast_rep
  "drainPendingPublicationV1 True (\<lambda>st. st) MAINTENANCE_BATCH_V1" MAINTENANCE_BATCH_V1
proof unfold_locales
  show "0 < MAINTENANCE_BATCH_V1" by (simp add: MAINTENANCE_BATCH_V1_def)
next
  fix st ups n
  assume "broadcast_rep st ups n" and "length ups \<le> n"
  then show "drainPendingPublicationV1 True (\<lambda>st. st) MAINTENANCE_BATCH_V1 st = Inr (False, [], st)"
    by (auto simp: broadcast_rep_def pub_rep_def pub_core_def pendingEntries_def
        drainPendingPublicationV1_def readDrainBatch_def)
next
  fix st ups n
  assume "broadcast_rep st ups n" and owed: "n < length ups"
  then obtain head where rep: "pub_rep st head ups" and n: "ph_through head = n"
    by (auto simp: broadcast_rep_def)
  have "0 < MAINTENANCE_BATCH_V1" by (simp add: MAINTENANCE_BATCH_V1_def)
  then show "\<exists>st'. drainPendingPublicationV1 True (\<lambda>st. st) MAINTENANCE_BATCH_V1 st =
      Inr (n + MAINTENANCE_BATCH_V1 < length ups, take MAINTENANCE_BATCH_V1 (drop n ups), st') \<and>
    broadcast_rep st' ups (min (n + MAINTENANCE_BATCH_V1) (length ups))"
    using drain_rep [of st head ups MAINTENANCE_BATCH_V1 "\<lambda>st. st" head "[]"] rep owed n
    by (auto simp: broadcast_rep_def min_def split: if_splits)
qed

section \<open>Properties\<close>

definition emptyPublication :: publication where
  "emptyPublication = \<lparr>pb_head = None, pb_rows = [], pb_updates = [], pb_pending = [], pb_index = None\<rparr>"

lemma emptyPublication_rep: "pub_rep emptyPublication emptyPublicationHeadV1 []"
  by (simp add: pub_rep_def emptyPublication_def pub_core_def decodePublicationHeadV1_def
      emptyPublicationHeadV1_def published_ok_def MAX_SAFE_INTEGER_def updateAt_def pendingEntries_def
      decodeVisibleIndex_def index_ok_def)

definition sampleContribution :: "string \<Rightarrow> int option \<Rightarrow> contribution" where
  "sampleContribution entity revision = \<lparr>co_kind = Run_Status_Kind, co_entity = entity,
     co_payload = JNull, co_revision = revision\<rparr>"

text \<open>Two updates committed to an empty store, for the witnesses.\<close>

definition pairContributions :: "contribution list" where
  "pairContributions = [sampleContribution ''run:a'' None, sampleContribution ''run:b'' None]"

definition pairUpdates :: "conversation_update list" where
  "pairUpdates = publishAll 1 pairContributions []"

definition publishedPair :: publication where
  "publishedPair =
     (case commitPublicationsV1 pairContributions emptyPublication of
        Inl e \<Rightarrow> emptyPublication | Inr (committed, st) \<Rightarrow> st)"

definition pairHead :: publication_head where
  "pairHead = \<lparr>ph_epoch = 1, ph_first = 1, ph_last = 2, ph_through = 0\<rparr>"

lemma pairUpdates_simps:
  "length pairUpdates = 2" "map cu_entity pairUpdates = [''run:a'', ''run:b'']"
  by (simp_all add: pairUpdates_def pairContributions_def sampleContribution_def nextRevision_def
      MAX_SAFE_INTEGER_def)

lemma publishedPair_rep: "pub_rep publishedPair pairHead pairUpdates"
proof -
  have "list_all contribution_ok pairContributions"
    by (simp add: pairContributions_def contribution_ok_def sampleContribution_def)
  moreover have "length pairContributions = 2" by (simp add: pairContributions_def)
  ultimately obtain committed st' head' where c:
    "commitPublicationsV1 pairContributions emptyPublication = Inr (committed, st')"
    "publishAll (ph_epoch emptyPublicationHeadV1) pairContributions [] = committed"
    "pub_rep st' head' committed" "ph_through head' = ph_through emptyPublicationHeadV1"
    "ph_epoch head' = ph_epoch emptyPublicationHeadV1"
    using commit_rep [OF emptyPublication_rep, of pairContributions]
    by (auto simp: MAX_SAFE_INTEGER_def)
  have "committed = pairUpdates" using c(2) by (simp add: pairUpdates_def emptyPublicationHeadV1_def)
  moreover have "head' = pairHead"
    using c(3-5) \<open>committed = pairUpdates\<close> pairUpdates_simps(1)
    by (intro publication_head.equality)
      (auto simp: pub_rep_def pub_core_def pairHead_def emptyPublicationHeadV1_def)
  moreover have "publishedPair = st'" using c(1) by (simp add: publishedPair_def)
  ultimately show ?thesis using c(3) by simp
qed

text \<open>C14: Publication is a log: committing contributions appends to the list of everything published
  exactly those whose revision advances their entity, in order, under consecutive cursors, and makes
  them pending; nothing already published changes, and what has not been broadcast stays replayable.
  After a commit the part of the replay window that could be dropped is within both of its bounds.\<close>

theorem publication_commit_appends:
  assumes "pub_rep st head ups" and "list_all contribution_ok cs"
    and "length ups + length cs < MAX_SAFE_INTEGER"
  shows "\<exists>committed st' head'. commitPublicationsV1 cs st = Inr (committed, st') \<and>
    publishAll (ph_epoch head) cs ups = ups @ committed \<and> pub_rep st' head' (ups @ committed) \<and>
    ph_through head' = ph_through head \<and>
    (committed \<noteq> [] \<longrightarrow> ph_first head' \<le> ph_through head' \<longrightarrow>
       window_fits (drop (ph_first head' - 1) (ups @ committed)))"
  using commit_rep [OF assms] by blast

theorem publication_commit_appends_witness:
  "\<exists>committed st' head'.
     commitPublicationsV1 [sampleContribution ''run:a'' None, sampleContribution ''run:a'' (Some 1),
       sampleContribution ''run:b'' None] emptyPublication = Inr (committed, st') \<and>
     map cu_entity committed = [''run:a'', ''run:b''] \<and> map cu_cursor committed = [1, 2] \<and>
     pub_rep st' head' committed"
proof -
  let ?cs = "[sampleContribution ''run:a'' None, sampleContribution ''run:a'' (Some 1),
    sampleContribution ''run:b'' None]"
  have p: "publishAll 1 ?cs [] = ups \<Longrightarrow> map cu_entity ups = [''run:a'', ''run:b''] \<and> map cu_cursor ups = [1, 2]"
    for ups
    by (auto simp: sampleContribution_def nextRevision_def MAX_SAFE_INTEGER_def rowOf_def)
  have "list_all contribution_ok ?cs"
    by (simp add: contribution_ok_def sampleContribution_def)
  from publication_commit_appends [OF emptyPublication_rep this] p show ?thesis
    by (auto simp: MAX_SAFE_INTEGER_def emptyPublicationHeadV1_def)
qed

text \<open>C34: Replay has no gap: a subscriber that asks for what follows a cursor still in the window is given
  exactly the updates published after it, in order; one whose cursor has left the window is refused
  with the gap and never given a partial answer.\<close>

theorem publication_replay_exact:
  assumes "pub_rep st head ups" and "afterCursor < length ups"
  shows "readReplayUpdatesV1 st head afterCursor =
    (if ph_first head \<le> afterCursor + 1 then Inr (drop afterCursor ups)
     else Inl (Replay_Gap (afterCursor + 1)))"
  using assms replay_rep [of st head ups afterCursor] replay_gap_rep [of st head ups afterCursor]
  by (auto simp: pub_rep_def)

theorem publication_replay_exact_witness:
  "readReplayUpdatesV1 publishedPair pairHead 1 = Inr (drop 1 pairUpdates) \<and> drop 1 pairUpdates \<noteq> []"
proof
  show "readReplayUpdatesV1 publishedPair pairHead 1 = Inr (drop 1 pairUpdates)"
    using publication_replay_exact [OF publishedPair_rep, of 1] pairUpdates_simps(1)
    by (simp add: pairHead_def)
  show "drop 1 pairUpdates \<noteq> []" using pairUpdates_simps(1) by simp
qed

text \<open>C15: Everything published is delivered: repeating the drain delivers every pending update, once, in
  the order of the cursors, and ends with nothing pending after one pass per batch.\<close>

theorem publication_drains:
  assumes "pub_rep st head ups" and "length ups - ph_through head < MAINTENANCE_BATCH_V1 * passes"
  shows "\<exists>st' head'. repeatDrain passes (drainPendingPublicationV1 True (\<lambda>st. st) MAINTENANCE_BATCH_V1) st =
      Inr (drop (ph_through head) ups, False, st') \<and>
    pub_rep st' head' ups \<and> ph_through head' = length ups \<and> pb_pending st' = []"
proof -
  have "broadcast_rep st ups (ph_through head)" using assms(1) by (auto simp: broadcast_rep_def)
  moreover have "ph_through head \<le> length ups" using assms(1) by (simp add: pub_rep_def pub_core_def)
  ultimately show ?thesis using broadcasts.drains_all [of st ups "ph_through head" passes] assms(2)
    by (fastforce simp: broadcast_rep_def pub_rep_def pub_core_def pendingEntries_def)
qed

theorem publication_drains_witness:
  "\<exists>st'. repeatDrain 1 (drainPendingPublicationV1 True (\<lambda>st. st) MAINTENANCE_BATCH_V1) publishedPair =
      Inr (pairUpdates, False, st') \<and> pb_pending st' = []"
  using publication_drains [OF publishedPair_rep, of 1] pairUpdates_simps(1)
  by (auto simp: pairHead_def MAINTENANCE_BATCH_V1_def)

text \<open>C35: A commit that lands while a batch is being delivered is not lost: the transaction that settles
  the delivery takes away the markers of the delivered batch only, everything committed meanwhile
  stays pending behind it, and a delivery that failed takes away nothing.\<close>

theorem publication_drain_keeps_concurrent:
  assumes "pub_rep st head ups" and "ph_through head < length ups" and "0 < batch"
    and "pub_rep (meanwhile st) head1 (ups @ extra)" and "ph_through head1 = ph_through head"
  shows "\<exists>again delivered st' head'.
    drainPendingPublicationV1 True meanwhile batch st = Inr (again, delivered, st') \<and>
    delivered = take batch (drop (ph_through head) ups) \<and> pub_rep st' head' (ups @ extra) \<and>
    pb_pending st' = pendingEntries (drop (ph_through head + length delivered) (ups @ extra)) \<and>
    drainPendingPublicationV1 False meanwhile batch st = Inr (True, delivered, meanwhile st)"
proof -
  let ?us = "take batch (drop (ph_through head) ups)"
  have nonempty: "?us \<noteq> []" using assms(2,3) by simp
  have core: "pub_core st head ups" using assms(1) by (simp add: pub_rep_def)
  obtain st' head' where d: "drainPendingPublicationV1 True meanwhile batch st =
      Inr (min (ph_through head + batch) (length ups) < length (ups @ extra), ?us, st')"
    "pub_rep st' head' (ups @ extra)" "ph_through head' = min (ph_through head + batch) (length ups)"
    using drain_rep [of st head ups batch meanwhile head1 extra] assms by blast
  have "pb_pending st' = pendingEntries (drop (ph_through head + length ?us) (ups @ extra))"
  proof -
    have "ph_through head' = ph_through head + length ?us" using d(3) assms(2) by (auto simp: min_def)
    with d(2) show ?thesis by (simp add: pub_rep_def pub_core_def)
  qed
  moreover have "drainPendingPublicationV1 False meanwhile batch st = Inr (True, ?us, meanwhile st)"
    using readDrainBatch_rep [OF core refl nonempty] by (simp add: drainPendingPublicationV1_def)
  ultimately show ?thesis using d by blast
qed

definition commitMeanwhile :: "publication \<Rightarrow> publication" where
  "commitMeanwhile st =
     (case commitPublicationsV1 [sampleContribution ''run:c'' None] st of
        Inl e \<Rightarrow> st | Inr (committed, st') \<Rightarrow> st')"

lemma commitMeanwhile_rep:
  "\<exists>u head1. pub_rep (commitMeanwhile publishedPair) head1 (pairUpdates @ [u]) \<and> ph_through head1 = 0"
proof -
  let ?cs = "[sampleContribution ''run:c'' None]"
  have "list_all contribution_ok ?cs" by (simp add: contribution_ok_def sampleContribution_def)
  then obtain committed st' head1 where c: "commitPublicationsV1 ?cs publishedPair = Inr (committed, st')"
    "publishAll 1 ?cs pairUpdates = pairUpdates @ committed" "pub_rep st' head1 (pairUpdates @ committed)"
    "ph_through head1 = 0"
    using commit_rep [OF publishedPair_rep, of ?cs] pairUpdates_simps(1)
    by (auto simp: MAX_SAFE_INTEGER_def pairHead_def)
  have "latestOf ''run:c'' pairUpdates = None"
    by (simp add: pairUpdates_def pairContributions_def sampleContribution_def nextRevision_def
        MAX_SAFE_INTEGER_def)
  then have "\<exists>u. committed = [u]"
    using c(2) by (auto simp: sampleContribution_def nextRevision_def MAX_SAFE_INTEGER_def)
  with c show ?thesis by (auto simp: commitMeanwhile_def)
qed

theorem publication_drain_keeps_concurrent_witness:
  "\<exists>again st' head' u. drainPendingPublicationV1 True commitMeanwhile 1 publishedPair =
      Inr (again, take 1 pairUpdates, st') \<and> pub_rep st' head' (pairUpdates @ [u]) \<and>
      pb_pending st' = pendingEntries (drop 1 pairUpdates @ [u])"
proof -
  obtain u head1 where rep: "pub_rep (commitMeanwhile publishedPair) head1 (pairUpdates @ [u])"
    and through: "ph_through head1 = 0"
    using commitMeanwhile_rep by blast
  show ?thesis
    using publication_drain_keeps_concurrent [where meanwhile = commitMeanwhile and batch = 1,
        OF publishedPair_rep _ _ rep] through pairUpdates_simps(1)
    by (auto simp: pairHead_def)
qed

end
