(* ===== verification/Routine_Schedule.thy ===== *)
theory Routine_Schedule
  imports Run_Origins Json_Parse
begin

text \<open>
  Schedules of Routines (app/routines/cron.ts): normalization of the text a person writes, the next
  occurrence, and the count of the ones that were slept through. The time zone check of \<open>Intl\<close> and the
  cron evaluation of \<open>croner\<close> are the fields of \<open>calendar\<close>; \<open>calendar_ok\<close> says what their documentation
  promises: the next run of a pattern is after the moment it is asked from. Dates are their
  milliseconds. Durations and epochs stay below \<open>2 ^ 53\<close>, where the code's floating point division,
  floored, is the integer one.
\<close>

section \<open>Text\<close>

definition trim :: "jstr \<Rightarrow> jstr" where
  "trim s = rev (dropWhile spaceUnit (rev (dropWhile spaceUnit s)))"

text \<open>\<open>s.split(/\s+/)\<close>.\<close>

function splitSpaces :: "jstr \<Rightarrow> jstr list" where
  "splitSpaces s =
     (case dropWhile (\<lambda>u. \<not> spaceUnit u) s of
        [] \<Rightarrow> [s]
      | rest \<Rightarrow> takeWhile (\<lambda>u. \<not> spaceUnit u) s # splitSpaces (dropWhile spaceUnit rest))"
  by pat_completeness auto
termination
proof (relation "measure length", simp, goal_cases)
  case (1 s u rest)
  have "spaceUnit u" using 1 hd_dropWhile [of "\<lambda>u. \<not> spaceUnit u" s] by simp
  then have "length (dropWhile spaceUnit (u # rest)) < length (u # rest)"
    by (simp add: le_imp_less_Suc length_dropWhile_le)
  also have "length (u # rest) \<le> length s" using length_dropWhile_le 1 by metis
  finally show ?case by simp
qed

declare splitSpaces.simps [simp del]

text \<open>\<open>toLowerCase\<close>, as far as a comparison with ASCII text can see it: the only units beside the capitals
  whose lower case is a single ASCII unit is the Kelvin sign.\<close>

definition lowerUnit :: "16 word \<Rightarrow> 16 word" where
  "lowerUnit u = (if 0x41 \<le> u \<and> u \<le> 0x5A then u + 0x20 else if u = 0x212A then 0x6B else u)"

definition toLowerCase :: "jstr \<Rightarrow> jstr" where
  "toLowerCase s = map lowerUnit s"

definition startsWith :: "jstr \<Rightarrow> string \<Rightarrow> bool" where
  "startsWith s start \<longleftrightarrow> take (length start) s = js start"

definition digitUnit :: "16 word \<Rightarrow> bool" where
  "digitUnit u \<longleftrightarrow> 0x30 \<le> u \<and> u \<le> 0x39"

definition digitsOnly :: "jstr \<Rightarrow> bool" where
  "digitsOnly s \<longleftrightarrow> s \<noteq> [] \<and> list_all digitUnit s"

text \<open>\<open>Number\<close> of a run of digits.\<close>

definition numberOf :: "jstr \<Rightarrow> nat" where
  "numberOf s = parseDecimal (unjs s)"

section \<open>Normalization\<close>

definition ROUTINE_SCHEDULE_MAX_LENGTH :: nat where "ROUTINE_SCHEDULE_MAX_LENGTH = 256"
definition ROUTINE_MIN_INTERVAL_MS :: nat where "ROUTINE_MIN_INTERVAL_MS = 60000"
definition ROUTINE_MAX_INTERVAL_MS :: nat where
  "ROUTINE_MAX_INTERVAL_MS = 366 * 24 * 60 * 60 * 1000"

record calendar =
  cal_timezone :: "jstr \<Rightarrow> bool"
  cal_parses :: "jstr \<Rightarrow> jstr \<Rightarrow> bool"
  cal_next :: "jstr \<Rightarrow> jstr \<Rightarrow> int \<Rightarrow> int option"

datatype normalized_schedule =
    Cron_Schedule jstr jstr
  | Interval_Schedule int jstr

datatype schedule_error =
    Schedule_Empty
  | Schedule_Too_Long
  | Timezone_Unknown jstr
  | Alias_Unknown jstr
  | Every_Needs_Duration
  | Not_A_Duration jstr
  | Every_Too_Short
  | Every_Too_Long
  | Five_Fields_Needed jstr
  | Cron_Invalid jstr

definition CRON_SHORTHANDS :: "(string \<times> string) list" where
  "CRON_SHORTHANDS =
     [(''@yearly'', ''0 0 1 1 *''), (''@annually'', ''0 0 1 1 *''), (''@monthly'', ''0 0 1 * *''),
      (''@weekly'', ''0 0 * * 0''), (''@daily'', ''0 0 * * *''), (''@midnight'', ''0 0 * * *''),
      (''@hourly'', ''0 * * * *'')]"

definition DURATION_UNITS_MS :: "(16 word \<times> nat) list" where
  "DURATION_UNITS_MS = [(0x73, 1000), (0x6D, 60000), (0x68, 3600000), (0x64, 86400000)]"

definition isRoutineTimezoneV1 :: "calendar \<Rightarrow> jstr \<Rightarrow> bool" where
  "isRoutineTimezoneV1 cal zone \<longleftrightarrow> zone \<noteq> [] \<and> length zone \<le> 64 \<and> cal_timezone cal zone"

text \<open>\<open>trimmed.match(/\d+[smhd]/g)\<close>: each run of digits and the unit that follows it.\<close>

function durationParts :: "jstr \<Rightarrow> (jstr \<times> 16 word) list" where
  "durationParts [] = []"
| "durationParts (c # s) =
     (if \<not> digitUnit c then durationParts s
      else let digits = takeWhile digitUnit (c # s); rest = dropWhile digitUnit (c # s)
        in if rest \<noteq> [] \<and> map_of DURATION_UNITS_MS (hd rest) \<noteq> None
           then (digits, hd rest) # durationParts (tl rest)
           else durationParts rest)"
  by pat_completeness auto
termination
proof (relation "measure length", simp, simp, goal_cases)
  case (1 c s)
  then show ?case using length_dropWhile_le [of digitUnit s] by (simp add: le_imp_less_Suc less_imp_diff_less)
next
  case (2 c s)
  then show ?case using length_dropWhile_le [of digitUnit s] by (simp add: le_imp_less_Suc)
qed

definition partText :: "jstr \<times> 16 word \<Rightarrow> jstr" where
  "partText part = fst part @ [snd part]"

definition partMs :: "jstr \<times> 16 word \<Rightarrow> nat" where
  "partMs part =
     (case map_of DURATION_UNITS_MS (snd part) of None \<Rightarrow> 0 | Some ms \<Rightarrow> numberOf (fst part) * ms)"

definition parseEveryDuration :: "jstr \<Rightarrow> schedule_error + nat" where
  "parseEveryDuration rest =
     (let trimmed = trim rest; parts = durationParts trimmed; total = sum_list (map partMs parts)
      in if trimmed = [] then Inl Every_Needs_Duration
         else if parts = [] \<or> concat (map partText parts) \<noteq> filter (\<lambda>u. \<not> spaceUnit u) trimmed
         then Inl (Not_A_Duration trimmed)
         else if total < ROUTINE_MIN_INTERVAL_MS then Inl Every_Too_Short
         else if total > ROUTINE_MAX_INTERVAL_MS then Inl Every_Too_Long
         else Inr total)"

definition cronOf :: "calendar \<Rightarrow> jstr \<Rightarrow> jstr \<Rightarrow> schedule_error + normalized_schedule" where
  "cronOf cal line zone =
     (if length (splitSpaces line) \<noteq> 5 then Inl (Five_Fields_Needed line)
      else if \<not> cal_parses cal line zone then Inl (Cron_Invalid line)
      else Inr (Cron_Schedule line zone))"

definition normalizeRoutineScheduleV1 ::
  "calendar \<Rightarrow> jstr \<Rightarrow> jstr \<Rightarrow> schedule_error + normalized_schedule" where
  "normalizeRoutineScheduleV1 cal schedule zone =
     (let raw = trim schedule
      in if raw = [] then Inl Schedule_Empty
         else if length raw > ROUTINE_SCHEDULE_MAX_LENGTH then Inl Schedule_Too_Long
         else if \<not> isRoutineTimezoneV1 cal zone then Inl (Timezone_Unknown zone)
         else if startsWith raw ''@every''
         then let rest = drop (length ''@every'') raw
              in if rest \<noteq> [] \<and> \<not> spaceUnit (hd rest) then Inl (Alias_Unknown raw)
                 else rbind (parseEveryDuration rest) (\<lambda>ms. Inr (Interval_Schedule (int ms) zone))
         else if startsWith raw ''@''
         then (case find (\<lambda>(alias, pattern). js alias = toLowerCase raw) CRON_SHORTHANDS of
                 None \<Rightarrow> Inl (Alias_Unknown raw)
               | Some (alias, pattern) \<Rightarrow> cronOf cal (js pattern) zone)
         else cronOf cal raw zone)"

section \<open>What a person reads\<close>

definition SCHEDULE_ALIASES :: "(string \<times> string) list" where
  "SCHEDULE_ALIASES =
     [(''@hourly'', ''Every hour''), (''@daily'', ''Every day at 12:00 am''),
      (''@midnight'', ''Every day at 12:00 am''), (''@weekly'', ''Every Sunday at 12:00 am''),
      (''@monthly'', ''On day 1 of every month at 12:00 am''),
      (''@yearly'', ''Every 1 January at 12:00 am''), (''@annually'', ''Every 1 January at 12:00 am'')]"

definition WEEKDAY_NAMES :: "string list" where
  "WEEKDAY_NAMES = [''Sunday'', ''Monday'', ''Tuesday'', ''Wednesday'', ''Thursday'', ''Friday'', ''Saturday'']"

text \<open>\<open>/^@every\s+(\d+)\s*([mhd])$/\<close>.\<close>

definition everyInterval :: "jstr \<Rightarrow> (jstr \<times> 16 word) option" where
  "everyInterval v =
     (if \<not> startsWith v ''@every'' then None
      else let rest = drop (length ''@every'') v; digits = dropWhile spaceUnit rest;
               unit = dropWhile spaceUnit (dropWhile digitUnit digits)
        in if takeWhile spaceUnit rest \<noteq> [] \<and> takeWhile digitUnit digits \<noteq> [] \<and>
              length unit = 1 \<and> hd unit \<in> set (js ''mhd'')
           then Some (takeWhile digitUnit digits, hd unit) else None)"

definition describeInterval :: "jstr \<times> 16 word \<Rightarrow> jstr" where
  "describeInterval found =
     (case found of (digits, u) \<Rightarrow>
        js ''Every '' @ digits @ js '' '' @
        js (if u = 0x6D then ''minute'' else if u = 0x68 then ''hour'' else ''day'') @
        (if digits = js ''1'' then [] else js ''s''))"

definition clockText :: "nat \<Rightarrow> nat \<Rightarrow> string" where
  "clockText hours minutes =
     decimal (if hours mod 12 = 0 then 12 else hours mod 12) @ '':'' @ padStart 2 (decimal minutes) @ '' '' @
     (if hours \<ge> 12 then ''pm'' else ''am'')"

definition CUSTOM_SCHEDULE :: jstr where "CUSTOM_SCHEDULE = js ''Custom schedule''"

definition describeFields :: "jstr \<Rightarrow> jstr \<Rightarrow> jstr \<Rightarrow> jstr \<Rightarrow> jstr \<Rightarrow> jstr" where
  "describeFields minute hour day month weekday =
     (if \<not> digitsOnly minute \<or> \<not> digitsOnly hour then CUSTOM_SCHEDULE
      else let minutes = numberOf minute; hours = numberOf hour
        in if minutes > 59 \<or> hours > 23 \<or> month \<noteq> js ''*'' then CUSTOM_SCHEDULE
           else let clock = js (clockText hours minutes)
             in if day = js ''*'' \<and> weekday = js ''*'' then js ''Every day at '' @ clock
                else if day = js ''*'' \<and> weekday = js ''1-5'' then js ''Every weekday at '' @ clock
                else if day = js ''*'' \<and> length weekday = 1 \<and> 0x30 \<le> hd weekday \<and> hd weekday \<le> 0x36
                then js ''Every '' @ js (WEEKDAY_NAMES ! numberOf weekday) @ js '' at '' @ clock
                else if digitsOnly day \<and> weekday = js ''*'' \<and> numberOf day \<le> 28
                then js ''On day '' @ js (decimal (numberOf day)) @ js '' of every month at '' @ clock
                else CUSTOM_SCHEDULE)"

definition describeRoutineScheduleV1 :: "jstr \<Rightarrow> jstr" where
  "describeRoutineScheduleV1 schedule =
     (let v = toLowerCase (trim schedule)
      in case find (\<lambda>(alias, said). js alias = v) SCHEDULE_ALIASES of
           Some (alias, said) \<Rightarrow> js said
         | None \<Rightarrow>
             (case everyInterval v of
                Some found \<Rightarrow> describeInterval found
              | None \<Rightarrow>
                  (case splitSpaces v of
                     [minute, hour, day, month, weekday] \<Rightarrow> describeFields minute hour day month weekday
                   | _ \<Rightarrow> CUSTOM_SCHEDULE)))"

section \<open>Occurrences\<close>

definition nextRoutineRunV1 :: "calendar \<Rightarrow> normalized_schedule \<Rightarrow> int \<Rightarrow> int \<Rightarrow> int option" where
  "nextRoutineRunV1 cal normalized since anchor =
     (case normalized of
        Interval_Schedule ms zone \<Rightarrow>
          let elapsed = since - anchor; periods = (if elapsed < 0 then 0 else elapsed div ms + 1)
          in Some (anchor + periods * ms)
      | Cron_Schedule pattern zone \<Rightarrow> cal_next cal pattern zone since)"

definition ROUTINE_MISSED_COUNT_CAP :: nat where "ROUTINE_MISSED_COUNT_CAP = 1000"

function countMissed :: "calendar \<Rightarrow> normalized_schedule \<Rightarrow> int \<Rightarrow> int \<Rightarrow> int \<Rightarrow> nat \<Rightarrow> nat" where
  "countMissed cal normalized anchor now cursor counted =
     (if \<not> counted < ROUTINE_MISSED_COUNT_CAP then counted
      else case nextRoutineRunV1 cal normalized cursor anchor of
             None \<Rightarrow> counted
           | Some next_run \<Rightarrow>
               if next_run > now then counted
               else countMissed cal normalized anchor now next_run (counted + 1))"
  by pat_completeness auto
termination
  by (relation "measure (\<lambda>(cal, normalized, anchor, now, cursor, counted).
    ROUTINE_MISSED_COUNT_CAP - counted)") auto

declare countMissed.simps [simp del]

definition missedRoutineRunsV1 ::
  "calendar \<Rightarrow> normalized_schedule \<Rightarrow> int \<Rightarrow> int \<Rightarrow> int \<Rightarrow> nat" where
  "missedRoutineRunsV1 cal normalized due now anchor =
     (if now < due then 0
      else case normalized of
             Interval_Schedule ms zone \<Rightarrow> min ROUTINE_MISSED_COUNT_CAP (nat ((now - due) div ms + 1))
           | Cron_Schedule pattern zone \<Rightarrow> countMissed cal normalized anchor now due 1)"

section \<open>What the calendar promises\<close>

text \<open>An occurrence of a schedule with an anchor: a point of the grid of an interval, or a moment \<open>croner\<close>
  answers.\<close>

definition on_grid :: "int \<Rightarrow> int \<Rightarrow> int \<Rightarrow> bool" where
  "on_grid ms anchor t \<longleftrightarrow> anchor \<le> t \<and> (t - anchor) mod ms = 0"

definition calendar_ok :: "calendar \<Rightarrow> bool" where
  "calendar_ok cal \<longleftrightarrow>
     (\<forall>pattern zone since t. cal_next cal pattern zone since = Some t \<longrightarrow> since < t)"

fun positive_schedule :: "normalized_schedule \<Rightarrow> bool" where
  "positive_schedule (Interval_Schedule ms zone) \<longleftrightarrow> 0 < ms"
| "positive_schedule (Cron_Schedule pattern zone) \<longleftrightarrow> True"

lemma parseEveryDuration_bounds:
  "parseEveryDuration rest = Inr n \<Longrightarrow> ROUTINE_MIN_INTERVAL_MS \<le> n \<and> n \<le> ROUTINE_MAX_INTERVAL_MS"
  by (auto simp: parseEveryDuration_def Let_def split: if_splits)

lemma cronOf_Inr: "cronOf cal line zone = Inr s \<Longrightarrow> s = Cron_Schedule line zone"
  by (auto simp: cronOf_def split: if_splits)

lemma normalized_positive:
  assumes "normalizeRoutineScheduleV1 cal schedule zone = Inr normalized"
  shows "positive_schedule normalized"
  using assms parseEveryDuration_bounds
  by (fastforce simp: normalizeRoutineScheduleV1_def Let_def rbind_Inr_iff ROUTINE_MIN_INTERVAL_MS_def
      split: if_splits option.splits dest!: cronOf_Inr)

lemma below_next_multiple: "0 < ms \<Longrightarrow> x < (x div ms + 1) * ms" for x ms :: int
proof -
  assume "0 < ms"
  then have "x mod ms < ms" by simp
  moreover have "(x div ms + 1) * ms = x div ms * ms + ms" by (simp add: distrib_right)
  ultimately show ?thesis using div_mult_mod_eq [of x ms] by linarith
qed

lemma next_after:
  assumes "calendar_ok cal" and "positive_schedule normalized" and "anchor \<le> since"
    and "nextRoutineRunV1 cal normalized since anchor = Some t"
  shows "since < t"
proof (cases normalized)
  case (Interval_Schedule ms zone)
  then have ms: "0 < ms" using assms(2) by simp
  have "since - anchor < ((since - anchor) div ms + 1) * ms" using ms by (rule below_next_multiple)
  with assms(3,4) Interval_Schedule show ?thesis by (auto simp: nextRoutineRunV1_def Let_def)
next
  case (Cron_Schedule pattern zone)
  with assms(1,4) show ?thesis by (auto simp: nextRoutineRunV1_def calendar_ok_def)
qed


subsection \<open>Intervals\<close>

lemma on_grid_iff: "0 < ms \<Longrightarrow> on_grid ms anchor t \<longleftrightarrow> (\<exists>k \<ge> 0. t = anchor + k * ms)"
proof
  assume "0 < ms" and "on_grid ms anchor t"
  then have "t = anchor + (t - anchor) div ms * ms" and "0 \<le> (t - anchor) div ms"
    by (auto simp: on_grid_def pos_imp_zdiv_nonneg_iff)
  then show "\<exists>k \<ge> 0. t = anchor + k * ms" by blast
qed (auto simp: on_grid_def)

lemma next_interval: "anchor \<le> since \<Longrightarrow>
  nextRoutineRunV1 cal (Interval_Schedule ms zone) since anchor =
    Some (anchor + ((since - anchor) div ms + 1) * ms)"
  by (simp add: nextRoutineRunV1_def Let_def)

lemma next_interval_from_grid:
  assumes "0 < ms" and "on_grid ms anchor t"
  shows "nextRoutineRunV1 cal (Interval_Schedule ms zone) t anchor = Some (t + ms)"
proof -
  obtain k where k: "t = anchor + k * ms" "0 \<le> k" using assms by (auto simp: on_grid_iff)
  then have "(t - anchor) div ms = k" and "anchor \<le> t" using assms(1) by simp_all
  then show ?thesis using k by (simp add: next_interval distrib_right)
qed

lemma on_grid_step: "0 < ms \<Longrightarrow> on_grid ms anchor t \<Longrightarrow> on_grid ms anchor (t + ms)"
  using mod_add_self2 [of "t - anchor" ms] by (simp add: on_grid_def algebra_simps)

lemma countMissed_interval:
  assumes "0 < ms" and "on_grid ms anchor cursor" and "cursor \<le> now" and "counted \<le> ROUTINE_MISSED_COUNT_CAP"
  shows "countMissed cal (Interval_Schedule ms zone) anchor now cursor counted =
    min ROUTINE_MISSED_COUNT_CAP (counted + nat ((now - cursor) div ms))"
  using assms
proof (induction "ROUTINE_MISSED_COUNT_CAP - counted" arbitrary: cursor counted)
  case 0
  then show ?case by (subst countMissed.simps) simp
next
  case (Suc n)
  then have more: "counted < ROUTINE_MISSED_COUNT_CAP" by simp
  note run = next_interval_from_grid [OF Suc.prems(1,2)]
  show ?case
  proof (cases "cursor + ms > now")
    case True
    then have "(now - cursor) div ms = 0" using Suc.prems(3) by simp
    then show ?thesis using more True by (subst countMissed.simps) (simp add: run)
  next
    case False
    have "countMissed cal (Interval_Schedule ms zone) anchor now (cursor + ms) (counted + 1) =
        min ROUTINE_MISSED_COUNT_CAP (counted + 1 + nat ((now - (cursor + ms)) div ms))"
      using Suc.prems False more Suc.hyps(2) by (intro Suc.hyps(1)) (auto intro: on_grid_step)
    moreover have "(now - cursor) div ms = (now - (cursor + ms)) div ms + 1"
      using Suc.prems(1) div_add_self2 [of ms "now - (cursor + ms)"] by (simp add: algebra_simps)
    moreover have "0 \<le> (now - (cursor + ms)) div ms"
      using Suc.prems(1) False by (simp add: pos_imp_zdiv_nonneg_iff)
    ultimately show ?thesis using more False by (subst countMissed.simps) (simp add: run nat_add_distrib)
  qed
qed

lemma occurrences_between:
  assumes "0 < ms" and "on_grid ms anchor due" and "due \<le> now"
  shows "{u. due \<le> u \<and> u \<le> now \<and> on_grid ms anchor u} =
    (\<lambda>k. due + int k * ms) ` {..<nat ((now - due) div ms + 1)}" (is "?L = ?R")
proof
  obtain d where d: "due = anchor + d * ms" "0 \<le> d" using assms by (auto simp: on_grid_iff)
  show "?L \<subseteq> ?R"
  proof
    fix u assume u: "u \<in> ?L"
    then obtain e where e: "u = anchor + e * ms" using assms(1) by (auto simp: on_grid_iff)
    have le: "d * ms \<le> e * ms" "(e - d) * ms \<le> now - due" using u d e by (simp_all add: left_diff_distrib)
    then have "d \<le> e" using assms(1) by simp
    moreover have "e - d \<le> (now - due) div ms" using zdiv_mono1 [OF le(2) assms(1)] assms(1) by simp
    ultimately have "nat (e - d) \<in> {..<nat ((now - due) div ms + 1)}" and "u = due + int (nat (e - d)) * ms"
      using d e by (simp_all add: left_diff_distrib)
    then show "u \<in> ?R" by blast
  qed
  show "?R \<subseteq> ?L"
  proof
    fix u assume "u \<in> ?R"
    then obtain k where u: "u = due + int k * ms" and "k < nat ((now - due) div ms + 1)" by blast
    then have k: "u = due + int k * ms" "int k \<le> (now - due) div ms"
      by (simp_all add: zless_nat_eq_int_zless)
    have "int k * ms \<le> (now - due) div ms * ms" using k(2) assms(1) by simp
    also have "\<dots> \<le> now - due" using assms(1) by (simp add: minus_mod_eq_div_mult [symmetric])
    finally have "u \<le> now" using k(1) by simp
    moreover have "on_grid ms anchor u"
      using k(1) d assms(1) by (auto simp: on_grid_iff intro!: exI [of _ "d + int k"] simp: distrib_right)
    ultimately show "u \<in> ?L" using k(1) assms(1) by simp
  qed
qed

lemma card_occurrences:
  assumes "0 < ms" and "on_grid ms anchor due" and "due \<le> now"
  shows "card {u. due \<le> u \<and> u \<le> now \<and> on_grid ms anchor u} = nat ((now - due) div ms + 1)"
  unfolding occurrences_between [OF assms] using assms(1) by (subst card_image) (auto simp: inj_on_def)


subsection \<open>Durations\<close>

definition partOf :: "nat \<times> 16 word \<Rightarrow> jstr \<times> 16 word" where
  "partOf part = (js (decimal (fst part)), snd part)"

definition durationText :: "(nat \<times> 16 word) list \<Rightarrow> jstr" where
  "durationText parts = concat (map (partText \<circ> partOf) parts)"

definition durationMs :: "(nat \<times> 16 word) list \<Rightarrow> nat" where
  "durationMs parts =
     sum_list (map (\<lambda>(n, u). n * (case map_of DURATION_UNITS_MS u of None \<Rightarrow> 0 | Some ms \<Rightarrow> ms)) parts)"

definition durationUnit :: "16 word \<Rightarrow> bool" where
  "durationUnit u \<longleftrightarrow> map_of DURATION_UNITS_MS u \<noteq> None"

lemma durationUnit_iff: "durationUnit u \<longleftrightarrow> u \<in> {0x73, 0x6D, 0x68, 0x64}"
  by (auto simp: durationUnit_def DURATION_UNITS_MS_def)

lemma durationUnit_plain: "durationUnit u \<Longrightarrow> \<not> digitUnit u \<and> \<not> spaceUnit u"
  by (auto simp: durationUnit_iff digitUnit_def spaceUnit_def)

lemma digit_not_space: "digitUnit u \<Longrightarrow> \<not> spaceUnit u"
proof
  assume u: "digitUnit u" and "spaceUnit u"
  moreover have "\<not> 0x2000 \<le> u" using order_trans [of "0x2000" u "0x39"] u by (auto simp: digitUnit_def)
  ultimately show False by (auto simp: digitUnit_def spaceUnit_def)
qed

lemma decimal_units: "u \<in> set (js (decimal n)) \<Longrightarrow> digitUnit u"
proof -
  have "list_all (\<lambda>c. digitUnit (of_nat (of_char c))) ''0123456789''" by code_simp
  then show "u \<in> set (js (decimal n)) \<Longrightarrow> digitUnit u"
    using decimal_digits by (fastforce simp: js_def list_all_iff)
qed

lemma numberOf_decimal [simp]: "numberOf (js (decimal n)) = n"
  by (simp add: numberOf_def)

lemma durationParts_part:
  assumes "durationUnit u"
  shows "durationParts (js (decimal n) @ u # s) = (js (decimal n), u) # durationParts s"
proof -
  obtain c r where cons: "js (decimal n) = c # r" by (cases "js (decimal n)") (auto simp: js_def)
  have take: "takeWhile digitUnit (js (decimal n) @ u # s) = js (decimal n)"
    and drop: "dropWhile digitUnit (js (decimal n) @ u # s) = u # s"
    using decimal_units [of _ n] durationUnit_plain [OF assms]
    by (auto simp: takeWhile_append2 dropWhile_append2 simp del: js_simps)
  have c: "digitUnit c" using decimal_units [of c n] cons by simp
  have "durationParts (c # (r @ u # s)) = (js (decimal n), u) # durationParts s"
    using c assms take [unfolded cons] drop [unfolded cons] cons
    by (subst durationParts.simps) (simp add: Let_def durationUnit_def del: durationParts.simps js_simps)
  then show ?thesis using cons by simp
qed

lemma durationText_Cons: "durationText (part # parts) = js (decimal (fst part)) @ snd part # durationText parts"
  by (simp add: durationText_def partText_def partOf_def)

lemma durationParts_text:
  "list_all (durationUnit \<circ> snd) parts \<Longrightarrow> durationParts (durationText parts) = map partOf parts"
  by (induction parts)
     (simp_all add: durationText_Cons durationParts_part partOf_def durationText_def [of "[]"] del: durationParts.simps(2))

lemma durationText_plain: "list_all (durationUnit \<circ> snd) parts \<Longrightarrow> u \<in> set (durationText parts) \<Longrightarrow> \<not> spaceUnit u"
  by (induction parts)
     (auto simp: durationText_Cons durationText_def [of "[]"] durationUnit_plain dest: decimal_units digit_not_space)

lemma partMs_sum: "sum_list (map (partMs \<circ> partOf) parts) = durationMs parts"
  by (induction parts) (auto simp: durationMs_def partMs_def partOf_def split: option.splits)

lemma trim_plain:
  assumes "\<And>u. u \<in> set s \<Longrightarrow> \<not> spaceUnit u"
  shows "trim s = s"
proof -
  have "dropWhile spaceUnit s = s" and "dropWhile spaceUnit (rev s) = rev s"
    using assms by (auto simp: dropWhile_eq_self_iff hd_rev)
  then show ?thesis by (simp add: trim_def)
qed

lemma trim_edges:
  assumes "s \<noteq> []" and "\<not> spaceUnit (hd s)" and "\<not> spaceUnit (last s)"
  shows "trim s = s"
proof -
  have "dropWhile spaceUnit s = s" and "dropWhile spaceUnit (rev s) = rev s"
    using assms by (simp_all add: dropWhile_eq_self_iff hd_rev)
  then show ?thesis by (simp add: trim_def)
qed

lemma parseEveryDuration_text:
  assumes "parts \<noteq> []" and units: "list_all (durationUnit \<circ> snd) parts"
    and "ROUTINE_MIN_INTERVAL_MS \<le> durationMs parts" and "durationMs parts \<le> ROUTINE_MAX_INTERVAL_MS"
  shows "parseEveryDuration (0x20 # durationText parts) = Inr (durationMs parts)"
proof -
  have plain: "\<And>u. u \<in> set (durationText parts) \<Longrightarrow> \<not> spaceUnit u" using units by (rule durationText_plain)
  have "trim (0x20 # durationText parts) = durationText parts"
    using trim_plain [OF plain] by (simp add: trim_def spaceUnit_def)
  moreover have "durationText parts \<noteq> []" using assms(1) by (cases parts) (simp_all add: durationText_Cons)
  moreover have "filter (\<lambda>u. \<not> spaceUnit u) (durationText parts) = durationText parts"
    using plain by (simp add: filter_id_conv)
  moreover have "concat (map partText (map partOf parts)) = durationText parts"
    by (simp add: durationText_def)
  ultimately show ?thesis
    using assms(1,3,4) by (simp add: parseEveryDuration_def Let_def durationParts_text [OF units] partMs_sum)
qed


lemma normalize_every:
  assumes "parseEveryDuration (0x20 # line) = Inr n" and "line \<noteq> []" and "\<not> spaceUnit (last line)"
    and "length line + 7 \<le> ROUTINE_SCHEDULE_MAX_LENGTH" and "isRoutineTimezoneV1 cal zone"
  shows "normalizeRoutineScheduleV1 cal (js ''@every '' @ line) zone = Inr (Interval_Schedule (int n) zone)"
proof -
  have "\<not> spaceUnit 0x40" and space: "spaceUnit 0x20" by (simp_all add: spaceUnit_def)
  then have "trim (js ''@every '' @ line) = js ''@every '' @ line"
    using assms(2,3) by (intro trim_edges) auto
  moreover have "startsWith (js ''@every '' @ line) ''@every''" by (simp add: startsWith_def)
  ultimately show ?thesis
    using assms space by (simp add: normalizeRoutineScheduleV1_def Let_def)
qed

section \<open>Properties\<close>

definition sampleCalendar :: calendar where
  "sampleCalendar = \<lparr>cal_timezone = (\<lambda>zone. True), cal_parses = (\<lambda>pattern zone. True),
     cal_next = (\<lambda>pattern zone since. Some ((since div 3600000 + 1) * 3600000))\<rparr>"

lemma sampleCalendar_ok: "calendar_ok sampleCalendar"
  using below_next_multiple [of 3600000] by (auto simp: calendar_ok_def sampleCalendar_def)

text \<open>C29: An interval schedule a command accepted never drifts and never skips: asked from any moment at or
  after its anchor, the next run is strictly later, lies on the grid anchor, anchor + interval, and so on, and is the
  first point of the grid after that moment.\<close>

theorem interval_next_is_least:
  assumes "normalizeRoutineScheduleV1 cal schedule zone = Inr (Interval_Schedule ms zone')"
    and "anchor \<le> since"
  shows "\<exists>t. nextRoutineRunV1 cal (Interval_Schedule ms zone') since anchor = Some t \<and> since < t \<and>
    on_grid ms anchor t \<and> (\<forall>u. on_grid ms anchor u \<and> since < u \<longrightarrow> t \<le> u)"
proof -
  have ms: "0 < ms" using normalized_positive [OF assms(1)] by simp
  let ?q = "(since - anchor) div ms"
  have q: "0 \<le> ?q" using assms(2) ms by (simp add: pos_imp_zdiv_nonneg_iff)
  have "anchor + (?q + 1) * ms \<le> u" if grid: "on_grid ms anchor u" and later: "since < u" for u
  proof -
    obtain k where k: "u = anchor + k * ms" using grid unfolding on_grid_iff [OF ms] by blast
    have "?q * ms \<le> since - anchor" using ms by (simp add: minus_mod_eq_div_mult [symmetric])
    with k later have "?q * ms < k * ms" by simp
    then have "?q + 1 \<le> k" using ms by simp
    then have "(?q + 1) * ms \<le> k * ms" using ms by simp
    with k show ?thesis by simp
  qed
  moreover have "since < anchor + (?q + 1) * ms" using below_next_multiple [OF ms, of "since - anchor"] by simp
  moreover have "on_grid ms anchor (anchor + (?q + 1) * ms)"
    unfolding on_grid_iff [OF ms] using q by (intro exI [of _ "?q + 1"]) simp
  ultimately show ?thesis using assms(2) by (simp add: next_interval)
qed

theorem interval_next_is_least_witness:
  "\<exists>t. nextRoutineRunV1 sampleCalendar (Interval_Schedule 60000 [0x5A]) 90000 0 = Some t \<and> 90000 < t \<and>
    on_grid 60000 0 t \<and> (\<forall>u. on_grid 60000 0 u \<and> 90000 < u \<longrightarrow> t \<le> u)"
proof -
  have "parseEveryDuration (0x20 # durationText [(1, 0x6D)]) = Inr (durationMs [(1, 0x6D)])"
    by (rule parseEveryDuration_text)
      (simp_all add: durationUnit_def durationMs_def DURATION_UNITS_MS_def ROUTINE_MIN_INTERVAL_MS_def
        ROUTINE_MAX_INTERVAL_MS_def)
  then have "normalizeRoutineScheduleV1 sampleCalendar (js ''@every '' @ durationText [(1, 0x6D)]) [0x5A] =
      Inr (Interval_Schedule (int (durationMs [(1, 0x6D)])) [0x5A])"
    by (rule normalize_every)
      (simp_all add: durationText_def partText_def partOf_def decimal_digit spaceUnit_def
        ROUTINE_SCHEDULE_MAX_LENGTH_def isRoutineTimezoneV1_def sampleCalendar_def)
  from interval_next_is_least [OF this, of 0 90000] show ?thesis
    by (simp add: durationMs_def DURATION_UNITS_MS_def)
qed

text \<open>C30: The count of missed runs of an interval schedule, computed by one division, is what the loop that
  steps from occurrence to occurrence counts, and is the number of occurrences from the due one to now, the due one
  included, up to the cap of a thousand.\<close>

theorem missed_runs_counted:
  assumes "0 < ms" and "on_grid ms anchor due" and "due \<le> now"
  shows "missedRoutineRunsV1 cal (Interval_Schedule ms zone) due now anchor =
      countMissed cal (Interval_Schedule ms zone) anchor now due 1 \<and>
    missedRoutineRunsV1 cal (Interval_Schedule ms zone) due now anchor =
      min ROUTINE_MISSED_COUNT_CAP (card {u. due \<le> u \<and> u \<le> now \<and> on_grid ms anchor u})"
proof -
  have "0 \<le> (now - due) div ms" using assms by (simp add: pos_imp_zdiv_nonneg_iff)
  then show ?thesis
    using countMissed_interval [OF assms, of 1] assms(3) card_occurrences [OF assms]
    by (simp add: missedRoutineRunsV1_def nat_add_distrib ROUTINE_MISSED_COUNT_CAP_def)
qed

theorem missed_runs_counted_witness:
  "countMissed sampleCalendar (Interval_Schedule 300000 []) 0 1920000 300000 1 = 6 \<and>
   card {u. 300000 \<le> u \<and> u \<le> (1920000 :: int) \<and> on_grid 300000 0 u} = 6"
proof -
  have "on_grid 300000 0 300000" by (simp add: on_grid_def)
  note counted = missed_runs_counted [OF _ this, of 1920000 sampleCalendar "[]"]
  moreover have "missedRoutineRunsV1 sampleCalendar (Interval_Schedule 300000 []) 300000 1920000 0 = 6"
    by (simp add: missedRoutineRunsV1_def ROUTINE_MISSED_COUNT_CAP_def)
  ultimately show ?thesis by (simp add: ROUTINE_MISSED_COUNT_CAP_def min_def split: if_splits)
qed

text \<open>The durations a person may write round trip: the text of any sequence of amounts and units, after
  the alias \<open>@every\<close>, is normalized to the interval that sums them, when that is between a minute and a year and
  the text within the 256 units a schedule may have.\<close>

theorem every_text_round_trip:
  assumes "parts \<noteq> []" and "list_all (durationUnit \<circ> snd) parts"
    and "ROUTINE_MIN_INTERVAL_MS \<le> durationMs parts" and "durationMs parts \<le> ROUTINE_MAX_INTERVAL_MS"
    and "length (js ''@every '' @ durationText parts) \<le> ROUTINE_SCHEDULE_MAX_LENGTH"
    and "isRoutineTimezoneV1 cal zone"
  shows "normalizeRoutineScheduleV1 cal (js ''@every '' @ durationText parts) zone =
    Inr (Interval_Schedule (int (durationMs parts)) zone)"
proof -
  have nonempty: "durationText parts \<noteq> []" using assms(1) by (cases parts) (simp_all add: durationText_Cons)
  then have "\<not> spaceUnit (last (durationText parts))"
    using durationText_plain [OF assms(2)] by (metis last_in_set)
  with nonempty show ?thesis
    using assms(5,6) by (intro normalize_every parseEveryDuration_text assms(1-4)) auto
qed

theorem every_text_round_trip_witness:
  "normalizeRoutineScheduleV1 sampleCalendar (js ''@every '' @ durationText [(2, 0x68), (30, 0x6D)]) (js ''UTC'') =
    Inr (Interval_Schedule 9000000 (js ''UTC''))"
proof -
  have "durationMs [(2, 0x68), (30, 0x6D)] = 9000000" by (simp add: durationMs_def DURATION_UNITS_MS_def)
  moreover have "length (js ''@every '' @ durationText [(2, 0x68), (30, 0x6D)]) \<le> ROUTINE_SCHEDULE_MAX_LENGTH"
    by code_simp
  moreover have "isRoutineTimezoneV1 sampleCalendar (js ''UTC'')"
    by (simp add: isRoutineTimezoneV1_def sampleCalendar_def)
  ultimately show ?thesis
    using every_text_round_trip [of "[(2, 0x68), (30, 0x6D)]" sampleCalendar "js ''UTC''"]
    by (simp add: durationUnit_def DURATION_UNITS_MS_def ROUTINE_MIN_INTERVAL_MS_def ROUTINE_MAX_INTERVAL_MS_def)
qed

end
