(* ===== verification/Routine_Records.thy ===== *)
theory Routine_Records
  imports Routine_Schedule Authority
begin

text \<open>
  The durable records of Routines and their strict codecs (app/routines/records.ts, firing.ts and the
  inbox entry of inbox.ts): a Routine, an entry of its run log, its clock, its unsettled firing. A
  record is read from a JSON value; \<open>Date.parse\<close> is the argument \<open>dp\<close>, \<open>None\<close> for \<open>NaN\<close>. The encoders write
  the fields the code writes. The lemmas say that a record within its bounds survives being stored, and
  that what is read is within its bounds.
\<close>

section \<open>Fields\<close>

datatype routine_error =
    Not_An_Object
  | Unknown_Field string
  | Field_Missing string
  | Version_Unsupported
  | Routine_Id_Invalid
  | Not_A_Text
  | Text_Is_Empty
  | Text_Too_Long nat
  | Timestamp_Invalid
  | Flag_Invalid string
  | Writer_Kind_Invalid
  | Trigger_Invalid
  | Schedule_And_Trigger
  | No_Schedule_Nor_Trigger
  | Status_Invalid
  | Epoch_Invalid
  | Count_Invalid
  | Schedule_Refused schedule_error
  | Schedule_Never_Comes
  | Sequence_Out_Of_Range
  | Queue_Full
  | Command_Reused
  | Too_Many_Routines
  | Routine_Exists
  | Routine_Not_Found string
  | Cannot_Fire
  | No_Trigger_To_Key
  | Cannot_Mint
  | Hook_Refused nat

type_synonym date_parse = "jstr \<Rightarrow> int option"

definition requireObject :: "json \<Rightarrow> routine_error + unit" where
  "requireObject value = rguard (isRecord value) Not_An_Object"

definition routineExactKeys :: "json \<Rightarrow> string list \<Rightarrow> string list \<Rightarrow> routine_error + unit" where
  "routineExactKeys value required optional =
     (case find (\<lambda>key. key \<notin> set (required @ optional)) (memberKeys value) of
        Some key \<Rightarrow> Inl (Unknown_Field key)
      | None \<Rightarrow>
          (case find (\<lambda>key. \<not> hasField value key) required of
             Some key \<Rightarrow> Inl (Field_Missing key)
           | None \<Rightarrow> Inr ()))"

definition routineText :: "json option \<Rightarrow> nat \<Rightarrow> routine_error + jstr" where
  "routineText value maximum =
     (case value of
        Some (JStr s) \<Rightarrow>
          if trim s = [] then Inl Text_Is_Empty
          else if length (trim s) > maximum then Inl (Text_Too_Long maximum)
          else Inr (trim s)
      | _ \<Rightarrow> Inl Not_A_Text)"

definition routineTimestamp :: "date_parse \<Rightarrow> json option \<Rightarrow> routine_error + jstr" where
  "routineTimestamp dp value =
     (case value of
        Some (JStr s) \<Rightarrow> if dp s = None then Inl Timestamp_Invalid else Inr s
      | _ \<Rightarrow> Inl Timestamp_Invalid)"

definition isRoutineIdV1 :: "string \<Rightarrow> bool" where
  "isRoutineIdV1 i \<longleftrightarrow>
     i \<noteq> [] \<and> length i \<le> 128 \<and> identifierStart (hd i) \<and>
     list_all (\<lambda>c. identifierStart c \<or> c \<in> set ''._-'') (tl i)"

definition routineIdField :: "json \<Rightarrow> routine_error + string" where
  "routineIdField value =
     (case jget value ''routineId'' of
        Some (JStr s) \<Rightarrow>
          if js (unjs s) = s \<and> isRoutineIdV1 (unjs s) then Inr (unjs s) else Inl Routine_Id_Invalid
      | _ \<Rightarrow> Inl Routine_Id_Invalid)"

definition versionOne :: "json \<Rightarrow> routine_error + unit" where
  "versionOne value = rguard (jget value ''schemaVersion'' = Some (JNum ''1'')) Version_Unsupported"

text \<open>A field that may be absent.\<close>

definition optionally :: "json option \<Rightarrow> (json option \<Rightarrow> 'e + 'a) \<Rightarrow> 'e + 'a option" where
  "optionally value f = (case value of None \<Rightarrow> Inr None | Some v \<Rightarrow> rbind (f (Some v)) (\<lambda>x. Inr (Some x)))"

definition integerText :: "int \<Rightarrow> string" where
  "integerText n = (if n < 0 then ''-'' @ decimal (nat (- n)) else decimal (nat n))"

definition numberJson :: "int \<Rightarrow> json" where
  "numberJson n = JNum (integerText n)"

definition epochField :: "json option \<Rightarrow> routine_error + int" where
  "epochField value = (case safeNat value of None \<Rightarrow> Inl Epoch_Invalid | Some n \<Rightarrow> Inr (int n))"

definition countField :: "json option \<Rightarrow> routine_error + nat" where
  "countField value = (case safeNat value of None \<Rightarrow> Inl Count_Invalid | Some n \<Rightarrow> Inr n)"

section \<open>Routines\<close>

definition ROUTINE_NAME_MAX_LENGTH :: nat where "ROUTINE_NAME_MAX_LENGTH = 100"
definition ROUTINE_PROMPT_MAX_LENGTH :: nat where "ROUTINE_PROMPT_MAX_LENGTH = 8000"
definition ROUTINE_SCHEDULE_MAX :: nat where "ROUTINE_SCHEDULE_MAX = 256"

definition ROUTINE_TRIGGER_KINDS :: "(run_trigger \<times> string) list" where
  "ROUTINE_TRIGGER_KINDS =
     [(Cron, ''cron''), (Webhook, ''webhook''), (Manual, ''manual''), (Connection, ''connection'')]"

datatype routine_status = Status_Running | Status_Ok | Status_Failed | Status_Skipped | Status_Cancelled

definition ROUTINE_RUN_STATUSES :: "(routine_status \<times> string) list" where
  "ROUTINE_RUN_STATUSES =
     [(Status_Running, ''running''), (Status_Ok, ''ok''), (Status_Failed, ''failed''),
      (Status_Skipped, ''skipped''), (Status_Cancelled, ''cancelled'')]"

datatype routine_writer = Writer_User | Writer_Bot jstr jstr jstr

datatype routine_trigger =
    Webhook_Trigger
  | Plugin_Trigger jstr jstr
  | Connection_Trigger jstr jstr "jstr option"

definition routineTriggerNeedsHookKeyV1 :: "routine_trigger \<Rightarrow> bool" where
  "routineTriggerNeedsHookKeyV1 t = (case t of Connection_Trigger c k q \<Rightarrow> False | _ \<Rightarrow> True)"

record routine_record =
  rr_id :: string
  rr_name :: jstr
  rr_prompt :: jstr
  rr_schedule :: "jstr option"
  rr_trigger :: "routine_trigger option"
  rr_enabled :: bool
  rr_createdBy :: routine_writer
  rr_updatedBy :: routine_writer
  rr_createdAt :: jstr
  rr_updatedAt :: jstr
  rr_lastRunAt :: "jstr option"
  rr_approval :: "jstr option"

definition routinePromptByV1 :: "routine_record \<Rightarrow> prompt_writer" where
  "routinePromptByV1 r = (if rr_createdBy r = Writer_User \<or> rr_approval r \<noteq> None then By_User else By_Bot)"

definition decodeRoutineWriterV1 :: "json option \<Rightarrow> routine_error + routine_writer" where
  "decodeRoutineWriterV1 value =
     (case value of
        None \<Rightarrow> Inl Not_An_Object
      | Some v \<Rightarrow>
          rbind (requireObject v) (\<lambda>_.
          if kindIs v ''user''
          then rbind (routineExactKeys v [''kind''] []) (\<lambda>_. Inr Writer_User)
          else if \<not> kindIs v ''bot'' then Inl Writer_Kind_Invalid
          else rbind (routineExactKeys v [''kind'', ''botId'', ''sessionId'', ''turnId''] []) (\<lambda>_.
               rbind (routineText (jget v ''botId'') 128) (\<lambda>botId.
               rbind (routineText (jget v ''sessionId'') 256) (\<lambda>sessionId.
               rbind (routineText (jget v ''turnId'') 256) (\<lambda>turnId.
               Inr (Writer_Bot botId sessionId turnId)))))))"

text \<open>The grammars of a trigger's names: a first unit, at most a bound of units after it.\<close>

definition lexeme :: "char list \<Rightarrow> char list \<Rightarrow> nat \<Rightarrow> jstr \<Rightarrow> bool" where
  "lexeme starts rest maximum s \<longleftrightarrow>
     s \<noteq> [] \<and> length s \<le> maximum \<and> hd s \<in> set (js starts) \<and> list_all (\<lambda>u. u \<in> set (js rest)) (tl s)"

definition grammar :: "char list \<Rightarrow> char list \<Rightarrow> nat \<Rightarrow> json option \<Rightarrow> routine_error + jstr" where
  "grammar starts rest maximum value =
     (case value of
        Some (JStr s) \<Rightarrow> if lexeme starts rest maximum s then Inr s else Inl Trigger_Invalid
      | _ \<Rightarrow> Inl Trigger_Invalid)"

definition LOWER :: string where "LOWER = ''abcdefghijklmnopqrstuvwxyz''"
definition UPPER :: string where "UPPER = ''ABCDEFGHIJKLMNOPQRSTUVWXYZ''"
definition DIGITS :: string where "DIGITS = ''0123456789''"

definition ROUTINE_CONNECTION_QUERY_MAX :: nat where "ROUTINE_CONNECTION_QUERY_MAX = 256"

definition decodeRoutineTriggerConfigV1 :: "json option \<Rightarrow> routine_error + jstr" where
  "decodeRoutineTriggerConfigV1 value =
     (case value of
        None \<Rightarrow> Inl Not_An_Object
      | Some v \<Rightarrow>
          rbind (requireObject v) (\<lambda>_.
          rbind (routineExactKeys v [''query''] []) (\<lambda>_.
          routineText (jget v ''query'') ROUTINE_CONNECTION_QUERY_MAX)))"

definition decodeRoutineTriggerV1 :: "json option \<Rightarrow> routine_error + routine_trigger" where
  "decodeRoutineTriggerV1 value =
     (case value of
        None \<Rightarrow> Inl Not_An_Object
      | Some v \<Rightarrow>
          rbind (requireObject v) (\<lambda>_.
          if kindIs v ''plugin''
          then rbind (routineExactKeys v [''kind'', ''pluginId'', ''trigger''] []) (\<lambda>_.
               rbind (grammar LOWER (LOWER @ DIGITS @ ''-'') 64 (jget v ''pluginId'')) (\<lambda>pluginId.
               rbind (grammar LOWER (LOWER @ DIGITS @ ''_-'') 64 (jget v ''trigger'')) (\<lambda>trigger.
               Inr (Plugin_Trigger pluginId trigger))))
          else if kindIs v ''connection''
          then rbind (routineExactKeys v [''kind'', ''connectionId'', ''triggerType''] [''config'']) (\<lambda>_.
               rbind (grammar (LOWER @ UPPER @ DIGITS) (LOWER @ UPPER @ DIGITS @ ''._-'') 128
                        (jget v ''connectionId'')) (\<lambda>connectionId.
               rbind (grammar UPPER (UPPER @ DIGITS @ ''_'') 128 (jget v ''triggerType'')) (\<lambda>triggerType.
               rbind (optionally (jget v ''config'') decodeRoutineTriggerConfigV1) (\<lambda>config.
               Inr (Connection_Trigger connectionId triggerType config)))))
          else rbind (routineExactKeys v [''kind''] []) (\<lambda>_.
               if \<not> kindIs v ''webhook'' then Inl Trigger_Invalid else Inr Webhook_Trigger)))"

definition requireScheduleXorTriggerV1 :: "'a option \<Rightarrow> 'b option \<Rightarrow> routine_error + unit" where
  "requireScheduleXorTriggerV1 schedule trigger =
     (if schedule \<noteq> None \<and> trigger \<noteq> None then Inl Schedule_And_Trigger
      else if schedule = None \<and> trigger = None then Inl No_Schedule_Nor_Trigger
      else Inr ())"

definition decodeRoutineRecordV1 :: "date_parse \<Rightarrow> json \<Rightarrow> routine_error + routine_record" where
  "decodeRoutineRecordV1 dp v =
     rbind (requireObject v) (\<lambda>_.
     rbind (routineExactKeys v
              [''schemaVersion'', ''routineId'', ''name'', ''prompt'', ''enabled'', ''createdBy'', ''updatedBy'',
               ''createdAt'', ''updatedAt'']
              [''schedule'', ''trigger'', ''lastRunAt'', ''timezone'', ''promptApprovalId'']) (\<lambda>_.
     rbind (versionOne v) (\<lambda>_.
     rbind (routineIdField v) (\<lambda>routineId.
     rbind (case jget v ''enabled'' of Some (JBool b) \<Rightarrow> Inr b | _ \<Rightarrow> Inl (Flag_Invalid ''enabled'')) (\<lambda>enabled.
     rbind (routineText (jget v ''name'') ROUTINE_NAME_MAX_LENGTH) (\<lambda>name.
     rbind (routineText (jget v ''prompt'') ROUTINE_PROMPT_MAX_LENGTH) (\<lambda>prompt.
     rbind (decodeRoutineWriterV1 (jget v ''createdBy'')) (\<lambda>createdBy.
     rbind (decodeRoutineWriterV1 (jget v ''updatedBy'')) (\<lambda>updatedBy.
     rbind (routineTimestamp dp (jget v ''createdAt'')) (\<lambda>createdAt.
     rbind (routineTimestamp dp (jget v ''updatedAt'')) (\<lambda>updatedAt.
     rbind (optionally (jget v ''schedule'') (\<lambda>x. routineText x ROUTINE_SCHEDULE_MAX)) (\<lambda>schedule.
     rbind (optionally (jget v ''trigger'') decodeRoutineTriggerV1) (\<lambda>trigger.
     rbind (optionally (jget v ''lastRunAt'') (routineTimestamp dp)) (\<lambda>lastRunAt.
     rbind (optionally (jget v ''promptApprovalId'') (\<lambda>x. routineText x 128)) (\<lambda>approval.
     rbind (requireScheduleXorTriggerV1 schedule trigger) (\<lambda>_.
     Inr \<lparr>rr_id = routineId, rr_name = name, rr_prompt = prompt, rr_schedule = schedule,
          rr_trigger = trigger, rr_enabled = enabled, rr_createdBy = createdBy, rr_updatedBy = updatedBy,
          rr_createdAt = createdAt, rr_updatedAt = updatedAt, rr_lastRunAt = lastRunAt,
          rr_approval = approval\<rparr>))))))))))))))))"

section \<open>The run log, the clock, the firing, the inbox\<close>

record routine_entry =
  re_entryId :: jstr
  re_routineId :: string
  re_runId :: jstr
  re_fireId :: jstr
  re_trigger :: run_trigger
  re_status :: routine_status
  re_startedAt :: jstr
  re_finishedAt :: "jstr option"
  re_summary :: "jstr option"

definition triggerField :: "json \<Rightarrow> routine_error + run_trigger" where
  "triggerField v = need Trigger_Invalid (named ROUTINE_TRIGGER_KINDS (jget v ''trigger''))"

definition decodeRoutineRunEntryV1 :: "date_parse \<Rightarrow> json \<Rightarrow> routine_error + routine_entry" where
  "decodeRoutineRunEntryV1 dp v =
     rbind (requireObject v) (\<lambda>_.
     rbind (routineExactKeys v
              [''schemaVersion'', ''entryId'', ''routineId'', ''runId'', ''fireId'', ''trigger'', ''status'',
               ''startedAt''] [''finishedAt'', ''summary'']) (\<lambda>_.
     rbind (versionOne v) (\<lambda>_.
     rbind (need Status_Invalid (named ROUTINE_RUN_STATUSES (jget v ''status''))) (\<lambda>status.
     rbind (triggerField v) (\<lambda>trigger.
     rbind (routineIdField v) (\<lambda>routineId.
     rbind (routineText (jget v ''entryId'') 256) (\<lambda>entryId.
     rbind (routineText (jget v ''runId'') 256) (\<lambda>runId.
     rbind (routineText (jget v ''fireId'') 256) (\<lambda>fireId.
     rbind (routineTimestamp dp (jget v ''startedAt'')) (\<lambda>startedAt.
     rbind (optionally (jget v ''finishedAt'') (routineTimestamp dp)) (\<lambda>finishedAt.
     rbind (optionally (jget v ''summary'') (\<lambda>x. routineText x 2000)) (\<lambda>summary.
     Inr \<lparr>re_entryId = entryId, re_routineId = routineId, re_runId = runId, re_fireId = fireId,
          re_trigger = trigger, re_status = status, re_startedAt = startedAt, re_finishedAt = finishedAt,
          re_summary = summary\<rparr>))))))))))))"

record schedule_state =
  ss_routineId :: string
  ss_anchor :: jstr
  ss_timezone :: jstr
  ss_dueAt :: int
  ss_deferredUntil :: "int option"
  ss_failures :: "nat option"

definition decodeRoutineScheduleStateV1 :: "date_parse \<Rightarrow> json \<Rightarrow> routine_error + schedule_state" where
  "decodeRoutineScheduleStateV1 dp v =
     rbind (requireObject v) (\<lambda>_.
     rbind (routineExactKeys v [''schemaVersion'', ''routineId'', ''anchor'', ''timezone'', ''dueAt'']
              [''deferredUntil'', ''consecutiveFailures'']) (\<lambda>_.
     rbind (versionOne v) (\<lambda>_.
     rbind (routineIdField v) (\<lambda>routineId.
     rbind (routineTimestamp dp (jget v ''anchor'')) (\<lambda>anchor.
     rbind (routineText (jget v ''timezone'') 64) (\<lambda>timezone.
     rbind (epochField (jget v ''dueAt'')) (\<lambda>dueAt.
     rbind (optionally (jget v ''deferredUntil'') epochField) (\<lambda>deferredUntil.
     rbind (optionally (jget v ''consecutiveFailures'') countField) (\<lambda>failures.
     Inr \<lparr>ss_routineId = routineId, ss_anchor = anchor, ss_timezone = timezone, ss_dueAt = dueAt,
          ss_deferredUntil = deferredUntil, ss_failures = failures\<rparr>)))))))))"

definition ROUTINE_CUE_MAX_LENGTH :: nat where "ROUTINE_CUE_MAX_LENGTH = 16000"

record routine_fire =
  rf_routineId :: string
  rf_fireId :: jstr
  rf_trigger :: run_trigger
  rf_cue :: jstr
  rf_mintedAt :: jstr
  rf_dueAt :: "int option"
  rf_missed :: "nat option"
  rf_entryId :: jstr
  rf_promptBy :: "prompt_writer option"

definition routineWriterKind :: "json option \<Rightarrow> routine_error + prompt_writer" where
  "routineWriterKind value = need Writer_Kind_Invalid (named PROMPT_WRITERS value)"

definition decodeRoutineFireV1 :: "date_parse \<Rightarrow> json \<Rightarrow> routine_error + routine_fire" where
  "decodeRoutineFireV1 dp v =
     rbind (requireObject v) (\<lambda>_.
     rbind (routineExactKeys v
              [''schemaVersion'', ''routineId'', ''fireId'', ''trigger'', ''cue'', ''mintedAt'', ''entryId'']
              [''dueAt'', ''missedCount'', ''promptBy'']) (\<lambda>_.
     rbind (versionOne v) (\<lambda>_.
     rbind (routineIdField v) (\<lambda>routineId.
     rbind (triggerField v) (\<lambda>trigger.
     rbind (routineText (jget v ''fireId'') 256) (\<lambda>fireId.
     rbind (routineText (jget v ''cue'') ROUTINE_CUE_MAX_LENGTH) (\<lambda>cue.
     rbind (routineTimestamp dp (jget v ''mintedAt'')) (\<lambda>mintedAt.
     rbind (routineText (jget v ''entryId'') 256) (\<lambda>entryId.
     rbind (optionally (jget v ''dueAt'') epochField) (\<lambda>dueAt.
     rbind (optionally (jget v ''missedCount'') countField) (\<lambda>missed.
     rbind (optionally (jget v ''promptBy'') routineWriterKind) (\<lambda>promptBy.
     Inr \<lparr>rf_routineId = routineId, rf_fireId = fireId, rf_trigger = trigger, rf_cue = cue,
          rf_mintedAt = mintedAt, rf_dueAt = dueAt, rf_missed = missed, rf_entryId = entryId,
          rf_promptBy = promptBy\<rparr>))))))))))))"

definition ROUTINE_NAME_ATTRIBUTION_MAX :: nat where "ROUTINE_NAME_ATTRIBUTION_MAX = 128"
definition ROUTINE_INBOX_TEXT_MAX :: nat where "ROUTINE_INBOX_TEXT_MAX = 4000"

datatype completion_source = From_Routine | From_Subagent

definition COMPLETION_SOURCES :: "(completion_source \<times> string) list" where
  "COMPLETION_SOURCES = [(From_Routine, ''routine''), (From_Subagent, ''subagent'')]"

record inbox_entry =
  ie_entryId :: jstr
  ie_runId :: jstr
  ie_routineId :: string
  ie_text :: jstr
  ie_attribution :: jstr
  ie_createdAt :: jstr
  ie_acknowledged :: bool
  ie_wakeId :: "jstr option"
  ie_acknowledgedAt :: "jstr option"
  ie_source :: "completion_source option"
  ie_repeat :: "nat option"
  ie_failure :: bool

definition routineRepeatCountV1 :: "json option \<Rightarrow> routine_error + nat" where
  "routineRepeatCountV1 value =
     (case safeNat value of None \<Rightarrow> Inl Count_Invalid | Some n \<Rightarrow> if n < 1 then Inl Count_Invalid else Inr n)"

definition completionSourceV1 :: "json option \<Rightarrow> routine_error + completion_source" where
  "completionSourceV1 value = need Status_Invalid (named COMPLETION_SOURCES value)"

definition decodeRoutineInboxEntryV1 :: "date_parse \<Rightarrow> json \<Rightarrow> routine_error + inbox_entry" where
  "decodeRoutineInboxEntryV1 dp v =
     rbind (requireObject v) (\<lambda>_.
     rbind (routineExactKeys v
              [''schemaVersion'', ''entryId'', ''runId'', ''routineId'', ''text'', ''attribution'',
               ''createdAt'', ''acknowledged'']
              [''wakeId'', ''acknowledgedAt'', ''source'', ''repeatCount'', ''failure'']) (\<lambda>_.
     rbind (versionOne v) (\<lambda>_.
     rbind (routineIdField v) (\<lambda>routineId.
     rbind (case jget v ''acknowledged'' of
              Some (JBool b) \<Rightarrow> Inr b | _ \<Rightarrow> Inl (Flag_Invalid ''acknowledged'')) (\<lambda>acknowledged.
     rbind (routineText (jget v ''entryId'') 256) (\<lambda>entryId.
     rbind (routineText (jget v ''runId'') 256) (\<lambda>runId.
     rbind (routineText (jget v ''text'') ROUTINE_INBOX_TEXT_MAX) (\<lambda>said.
     rbind (routineText (jget v ''attribution'') ROUTINE_NAME_ATTRIBUTION_MAX) (\<lambda>attribution.
     rbind (routineTimestamp dp (jget v ''createdAt'')) (\<lambda>createdAt.
     rbind (optionally (jget v ''wakeId'') (\<lambda>x. routineText x 256)) (\<lambda>wakeId.
     rbind (optionally (jget v ''acknowledgedAt'') (routineTimestamp dp)) (\<lambda>acknowledgedAt.
     rbind (optionally (jget v ''source'') completionSourceV1) (\<lambda>origin.
     rbind (optionally (jget v ''repeatCount'') routineRepeatCountV1) (\<lambda>repeated.
     Inr \<lparr>ie_entryId = entryId, ie_runId = runId, ie_routineId = routineId, ie_text = said,
          ie_attribution = attribution, ie_createdAt = createdAt, ie_acknowledged = acknowledged,
          ie_wakeId = wakeId, ie_acknowledgedAt = acknowledgedAt, ie_source = origin,
          ie_repeat = repeated, ie_failure = hasField v ''failure''\<rparr>))))))))))))))"

section \<open>Writing them\<close>

definition oneJson :: "string \<times> json" where "oneJson = (''schemaVersion'', JNum ''1'')"

fun writerJson :: "routine_writer \<Rightarrow> json" where
  "writerJson Writer_User = JObj [kindJson ''user'']"
| "writerJson (Writer_Bot botId sessionId turnId) = JObj
     [kindJson ''bot'', (''botId'', JStr botId), (''sessionId'', JStr sessionId), (''turnId'', JStr turnId)]"

fun triggerJson :: "routine_trigger \<Rightarrow> json" where
  "triggerJson Webhook_Trigger = JObj [kindJson ''webhook'']"
| "triggerJson (Plugin_Trigger pluginId trigger) = JObj
     [kindJson ''plugin'', (''pluginId'', JStr pluginId), (''trigger'', JStr trigger)]"
| "triggerJson (Connection_Trigger connectionId triggerType config) = JObj
     ([kindJson ''connection'', (''connectionId'', JStr connectionId), (''triggerType'', JStr triggerType)]
      @ optField ''config'' (map_option (\<lambda>q. JObj [(''query'', JStr q)]) config))"

definition routineJson :: "routine_record \<Rightarrow> json" where
  "routineJson r = JObj
     ([oneJson, (''routineId'', JStr (js (rr_id r))), (''name'', JStr (rr_name r)),
       (''prompt'', JStr (rr_prompt r)), (''enabled'', JBool (rr_enabled r)),
       (''createdBy'', writerJson (rr_createdBy r)), (''updatedBy'', writerJson (rr_updatedBy r)),
       (''createdAt'', JStr (rr_createdAt r)), (''updatedAt'', JStr (rr_updatedAt r))]
      @ optField ''schedule'' (map_option JStr (rr_schedule r))
      @ optField ''trigger'' (map_option triggerJson (rr_trigger r))
      @ optField ''lastRunAt'' (map_option JStr (rr_lastRunAt r))
      @ optField ''promptApprovalId'' (map_option JStr (rr_approval r)))"

definition routineEntryJson :: "routine_entry \<Rightarrow> json" where
  "routineEntryJson e = JObj
     ([oneJson, (''entryId'', JStr (re_entryId e)), (''routineId'', JStr (js (re_routineId e))),
       (''runId'', JStr (re_runId e)), (''fireId'', JStr (re_fireId e)),
       (''trigger'', nameOf ROUTINE_TRIGGER_KINDS (re_trigger e)),
       (''status'', nameOf ROUTINE_RUN_STATUSES (re_status e)), (''startedAt'', JStr (re_startedAt e))]
      @ optField ''finishedAt'' (map_option JStr (re_finishedAt e))
      @ optField ''summary'' (map_option JStr (re_summary e)))"

definition scheduleJson :: "schedule_state \<Rightarrow> json" where
  "scheduleJson s = JObj
     ([oneJson, (''routineId'', JStr (js (ss_routineId s))), (''anchor'', JStr (ss_anchor s)),
       (''timezone'', JStr (ss_timezone s)), (''dueAt'', numberJson (ss_dueAt s))]
      @ optField ''deferredUntil'' (map_option numberJson (ss_deferredUntil s))
      @ optField ''consecutiveFailures'' (map_option (numberJson \<circ> int) (ss_failures s)))"

definition fireJson :: "routine_fire \<Rightarrow> json" where
  "fireJson f = JObj
     ([oneJson, (''routineId'', JStr (js (rf_routineId f))), (''fireId'', JStr (rf_fireId f)),
       (''trigger'', nameOf ROUTINE_TRIGGER_KINDS (rf_trigger f)), (''cue'', JStr (rf_cue f)),
       (''mintedAt'', JStr (rf_mintedAt f)), (''entryId'', JStr (rf_entryId f))]
      @ optField ''dueAt'' (map_option numberJson (rf_dueAt f))
      @ optField ''missedCount'' (map_option (numberJson \<circ> int) (rf_missed f))
      @ optField ''promptBy'' (map_option (nameOf PROMPT_WRITERS) (rf_promptBy f)))"

definition inboxJson :: "inbox_entry \<Rightarrow> json" where
  "inboxJson e = JObj
     ([oneJson, (''entryId'', JStr (ie_entryId e)), (''runId'', JStr (ie_runId e)),
       (''routineId'', JStr (js (ie_routineId e))), (''text'', JStr (ie_text e)),
       (''attribution'', JStr (ie_attribution e)), (''createdAt'', JStr (ie_createdAt e)),
       (''acknowledged'', JBool (ie_acknowledged e))]
      @ optField ''wakeId'' (map_option JStr (ie_wakeId e))
      @ optField ''acknowledgedAt'' (map_option JStr (ie_acknowledgedAt e))
      @ optField ''source'' (map_option (nameOf COMPLETION_SOURCES) (ie_source e))
      @ optField ''repeatCount'' (map_option (numberJson \<circ> int) (ie_repeat e))
      @ (if ie_failure e then [(''failure'', JBool True)] else []))"

section \<open>What is within bounds survives being stored\<close>

definition text_ok :: "nat \<Rightarrow> jstr \<Rightarrow> bool" where
  "text_ok n s \<longleftrightarrow> s \<noteq> [] \<and> trim s = s \<and> length s \<le> n"

definition stamp_ok :: "date_parse \<Rightarrow> jstr \<Rightarrow> bool" where
  "stamp_ok dp s \<longleftrightarrow> dp s \<noteq> None"

definition epoch_ok :: "int \<Rightarrow> bool" where
  "epoch_ok t \<longleftrightarrow> 0 \<le> t \<and> t \<le> int MAX_SAFE_INTEGER"

fun writer_ok :: "routine_writer \<Rightarrow> bool" where
  "writer_ok Writer_User \<longleftrightarrow> True"
| "writer_ok (Writer_Bot botId sessionId turnId) \<longleftrightarrow>
     text_ok 128 botId \<and> text_ok 256 sessionId \<and> text_ok 256 turnId"

definition routine_entry_ok :: "date_parse \<Rightarrow> routine_entry \<Rightarrow> bool" where
  "routine_entry_ok dp e \<longleftrightarrow>
     text_ok 256 (re_entryId e) \<and> isRoutineIdV1 (re_routineId e) \<and> text_ok 256 (re_runId e) \<and>
     text_ok 256 (re_fireId e) \<and> stamp_ok dp (re_startedAt e) \<and>
     pred_option (stamp_ok dp) (re_finishedAt e) \<and> pred_option (text_ok 2000) (re_summary e)"

definition clock_ok :: "date_parse \<Rightarrow> schedule_state \<Rightarrow> bool" where
  "clock_ok dp s \<longleftrightarrow>
     isRoutineIdV1 (ss_routineId s) \<and> stamp_ok dp (ss_anchor s) \<and> text_ok 64 (ss_timezone s) \<and>
     epoch_ok (ss_dueAt s) \<and> pred_option epoch_ok (ss_deferredUntil s) \<and>
     pred_option (\<lambda>n. n \<le> MAX_SAFE_INTEGER) (ss_failures s)"

definition fire_ok :: "date_parse \<Rightarrow> routine_fire \<Rightarrow> bool" where
  "fire_ok dp f \<longleftrightarrow>
     isRoutineIdV1 (rf_routineId f) \<and> text_ok 256 (rf_fireId f) \<and>
     text_ok ROUTINE_CUE_MAX_LENGTH (rf_cue f) \<and> stamp_ok dp (rf_mintedAt f) \<and>
     text_ok 256 (rf_entryId f) \<and> pred_option epoch_ok (rf_dueAt f) \<and>
     pred_option (\<lambda>n. n \<le> MAX_SAFE_INTEGER) (rf_missed f)"

fun trigger_ok :: "routine_trigger \<Rightarrow> bool" where
  "trigger_ok Webhook_Trigger \<longleftrightarrow> True"
| "trigger_ok (Plugin_Trigger pluginId trigger) \<longleftrightarrow>
     lexeme LOWER (LOWER @ DIGITS @ ''-'') 64 pluginId \<and> lexeme LOWER (LOWER @ DIGITS @ ''_-'') 64 trigger"
| "trigger_ok (Connection_Trigger connectionId triggerType config) \<longleftrightarrow>
     lexeme (LOWER @ UPPER @ DIGITS) (LOWER @ UPPER @ DIGITS @ ''._-'') 128 connectionId \<and>
     lexeme UPPER (UPPER @ DIGITS @ ''_'') 128 triggerType \<and>
     pred_option (text_ok ROUTINE_CONNECTION_QUERY_MAX) config"

definition routine_ok :: "date_parse \<Rightarrow> routine_record \<Rightarrow> bool" where
  "routine_ok dp r \<longleftrightarrow>
     isRoutineIdV1 (rr_id r) \<and> text_ok ROUTINE_NAME_MAX_LENGTH (rr_name r) \<and>
     text_ok ROUTINE_PROMPT_MAX_LENGTH (rr_prompt r) \<and> writer_ok (rr_createdBy r) \<and>
     writer_ok (rr_updatedBy r) \<and> stamp_ok dp (rr_createdAt r) \<and> stamp_ok dp (rr_updatedAt r) \<and>
     pred_option (text_ok ROUTINE_SCHEDULE_MAX) (rr_schedule r) \<and>
     pred_option trigger_ok (rr_trigger r) \<and> pred_option (stamp_ok dp) (rr_lastRunAt r) \<and>
     pred_option (text_ok 128) (rr_approval r) \<and> (rr_schedule r = None \<longleftrightarrow> rr_trigger r \<noteq> None)"

lemma trim_Nil [simp]: "trim [] = []"
  by (simp add: trim_def)

lemma trim_trim [simp]: "trim (trim s) = trim s"
proof (cases "trim s = []")
  case False
  let ?t = "dropWhile spaceUnit s"
  have t: "trim s = rev (dropWhile spaceUnit (rev ?t))" by (simp add: trim_def)
  have "rev (trim s) = dropWhile spaceUnit (rev ?t)" using t by simp
  then have last: "\<not> spaceUnit (last (trim s))"
    using hd_dropWhile [of spaceUnit "rev ?t"] False t by (simp add: hd_rev [symmetric])
  obtain r where "rev ?t = takeWhile spaceUnit (rev ?t) @ dropWhile spaceUnit (rev ?t)" by simp
  then have "?t = trim s @ rev (takeWhile spaceUnit (rev ?t))" using t by (metis rev_append rev_rev_ident)
  then have "hd ?t = hd (trim s)" using False by (metis hd_append2)
  moreover have "?t \<noteq> []" using False t by (metis dropWhile.simps(1) rev.simps(1))
  ultimately have "\<not> spaceUnit (hd (trim s))" using hd_dropWhile [of spaceUnit s] by simp
  then show ?thesis using trim_edges [of "trim s"] False last by simp
qed simp

lemma routineText_ok [simp]: "text_ok n s \<Longrightarrow> routineText (Some (JStr s)) n = Inr s"
  by (simp add: text_ok_def routineText_def)

lemma routineText_Inr: "routineText v n = Inr s \<Longrightarrow> text_ok n s"
  by (auto simp: routineText_def text_ok_def split: option.splits json.splits if_splits)

lemma routineTimestamp_ok [simp]: "stamp_ok dp s \<Longrightarrow> routineTimestamp dp (Some (JStr s)) = Inr s"
  by (simp add: stamp_ok_def routineTimestamp_def)

lemma routineTimestamp_Inr: "routineTimestamp dp v = Inr s \<Longrightarrow> stamp_ok dp s"
  by (auto simp: routineTimestamp_def stamp_ok_def split: option.splits json.splits if_splits)

lemma optionally_simps [simp]:
  "optionally None f = Inr None"
  "optionally (Some v) f = rbind (f (Some v)) (\<lambda>x. Inr (Some x))"
  by (simp_all add: optionally_def)

lemma optionally_Inr_iff:
  "optionally v f = Inr r \<longleftrightarrow> (case v of None \<Rightarrow> r = None | Some w \<Rightarrow> (\<exists>x. f (Some w) = Inr x \<and> r = Some x))"
  by (auto simp: optionally_def rbind_Inr_iff split: option.splits)

lemma routineIdField_ok:
  "isRoutineIdV1 i \<Longrightarrow> jget v ''routineId'' = Some (JStr (js i)) \<Longrightarrow> routineIdField v = Inr i"
  by (simp add: routineIdField_def del: js_simps)

lemma routineIdField_Inr: "routineIdField v = Inr i \<Longrightarrow> isRoutineIdV1 i"
  by (auto simp: routineIdField_def split: option.splits json.splits if_splits)

lemma decimal_not_minus: "decimal n \<noteq> CHR ''-'' # s"
  using decimal_digits [of "CHR ''-''" n] by auto

lemma safeNat_number: "safeNat (Some (numberJson t)) = (if epoch_ok t then Some (nat t) else None)"
proof (cases "t < 0")
  case True
  then show ?thesis
    using decimal_not_minus [of _ "decimal (nat (- t))", THEN not_sym]
    by (simp add: safeNat_def numberJson_def integerText_def epoch_ok_def)
next
  case False
  then show ?thesis by (auto simp: numberJson_def integerText_def epoch_ok_def nat_le_iff)
qed

lemma epochField_number [simp]: "epoch_ok t \<Longrightarrow> epochField (Some (numberJson t)) = Inr t"
  by (simp add: epochField_def safeNat_number) (simp add: epoch_ok_def)

lemma countField_number [simp]: "n \<le> MAX_SAFE_INTEGER \<Longrightarrow> countField (Some (numberJson (int n))) = Inr n"
  by (simp add: countField_def safeNat_number epoch_ok_def)

lemma safeNat_bound: "safeNat v = Some n \<Longrightarrow> n \<le> MAX_SAFE_INTEGER"
  by (auto simp: safeNat_def split: option.splits json.splits if_splits)

lemma epochField_Inr: "epochField v = Inr t \<Longrightarrow> epoch_ok t"
  by (auto simp: epochField_def epoch_ok_def split: option.splits dest: safeNat_bound)

lemma countField_Inr: "countField v = Inr n \<Longrightarrow> n \<le> MAX_SAFE_INTEGER"
  by (auto simp: countField_def split: option.splits dest: safeNat_bound)

lemma routine_names [simp]:
  "named ROUTINE_TRIGGER_KINDS (Some (nameOf ROUTINE_TRIGGER_KINDS t)) = Some t"
  "named ROUTINE_RUN_STATUSES (Some (nameOf ROUTINE_RUN_STATUSES s)) = Some s"
  "named COMPLETION_SOURCES (Some (nameOf COMPLETION_SOURCES o')) = Some o'"
proof -
  show "named ROUTINE_TRIGGER_KINDS (Some (nameOf ROUTINE_TRIGGER_KINDS t)) = Some t"
    by (cases t) (simp_all add: named_def nameOf_def ROUTINE_TRIGGER_KINDS_def del: js_simps)
  show "named ROUTINE_RUN_STATUSES (Some (nameOf ROUTINE_RUN_STATUSES s)) = Some s"
    by (cases s) (simp_all add: named_def nameOf_def ROUTINE_RUN_STATUSES_def del: js_simps)
  show "named COMPLETION_SOURCES (Some (nameOf COMPLETION_SOURCES o')) = Some o'"
    by (cases o') (simp_all add: named_def nameOf_def COMPLETION_SOURCES_def del: js_simps)
qed

lemmas codec_defs = requireObject_def routineExactKeys_def versionOne_def oneJson_def field_defs kindJson_def
  triggerField_def optField_def named_nameOf

lemma grammar_iff [simp]: "grammar a b n v = Inr s \<longleftrightarrow> v = Some (JStr s) \<and> lexeme a b n s"
  by (auto simp: grammar_def split: option.splits json.splits if_splits)

lemma grammar_ok [simp]: "lexeme a b n s \<Longrightarrow> grammar a b n (Some (JStr s)) = Inr s"
  by simp

lemma writer_round_trip: "writer_ok w \<Longrightarrow> decodeRoutineWriterV1 (Some (writerJson w)) = Inr w"
  by (cases w) (simp_all add: decodeRoutineWriterV1_def codec_defs del: js_simps)

lemma trigger_round_trip: "trigger_ok t \<Longrightarrow> decodeRoutineTriggerV1 (Some (triggerJson t)) = Inr t"
  by (cases t; cases "case t of Connection_Trigger c k q \<Rightarrow> q | _ \<Rightarrow> None")
     (simp_all add: decodeRoutineTriggerV1_def decodeRoutineTriggerConfigV1_def codec_defs del: js_simps)

lemma entry_round_trip: "routine_entry_ok dp e \<Longrightarrow> decodeRoutineRunEntryV1 dp (routineEntryJson e) = Inr e"
  by (cases e; cases "re_finishedAt e"; cases "re_summary e")
     (simp_all add: routine_entry_ok_def decodeRoutineRunEntryV1_def routineEntryJson_def codec_defs routineIdField_def
       del: js_simps)

lemma clock_round_trip: "clock_ok dp s \<Longrightarrow> decodeRoutineScheduleStateV1 dp (scheduleJson s) = Inr s"
  by (cases s; cases "ss_deferredUntil s"; cases "ss_failures s")
     (simp_all add: clock_ok_def decodeRoutineScheduleStateV1_def scheduleJson_def codec_defs routineIdField_def
       del: js_simps)

lemma fire_round_trip: "fire_ok dp f \<Longrightarrow> decodeRoutineFireV1 dp (fireJson f) = Inr f"
  by (cases f; cases "rf_dueAt f"; cases "rf_missed f"; cases "rf_promptBy f")
     (simp_all add: fire_ok_def decodeRoutineFireV1_def fireJson_def codec_defs routineIdField_def
       routineWriterKind_def del: js_simps)

lemma routine_round_trip: "routine_ok dp r \<Longrightarrow> decodeRoutineRecordV1 dp (routineJson r) = Inr r"
  by (cases r; cases "rr_schedule r"; cases "rr_trigger r"; cases "rr_lastRunAt r"; cases "rr_approval r")
     (simp_all add: routine_ok_def decodeRoutineRecordV1_def routineJson_def codec_defs routineIdField_def
       writer_round_trip trigger_round_trip requireScheduleXorTriggerV1_def del: js_simps)

lemma inbox_round_trip:
  assumes "text_ok 256 (ie_entryId e)" and "text_ok 256 (ie_runId e)" and "isRoutineIdV1 (ie_routineId e)"
    and "text_ok ROUTINE_INBOX_TEXT_MAX (ie_text e)"
    and "text_ok ROUTINE_NAME_ATTRIBUTION_MAX (ie_attribution e)" and "stamp_ok dp (ie_createdAt e)"
    and "ie_wakeId e = None" and "ie_acknowledgedAt e = None" and "ie_source e = None"
    and "pred_option (\<lambda>n. 1 \<le> n \<and> n \<le> MAX_SAFE_INTEGER) (ie_repeat e)"
  shows "decodeRoutineInboxEntryV1 dp (inboxJson e) = Inr e"
  using assms
  by (cases e; cases "ie_repeat e"; cases "ie_failure e")
     (simp_all add: decodeRoutineInboxEntryV1_def inboxJson_def codec_defs routineIdField_def
       routineRepeatCountV1_def safeNat_number epoch_ok_def del: js_simps)

section \<open>What is read is within bounds\<close>

lemma decodeRoutineWriterV1_Inr: "decodeRoutineWriterV1 v = Inr w \<Longrightarrow> writer_ok w"
  by (auto simp: decodeRoutineWriterV1_def rbind_Inr_iff split: option.splits if_splits dest: routineText_Inr)

lemma optionally_pred:
  assumes "optionally v f = Inr r" and "\<And>w x. f w = Inr x \<Longrightarrow> P x"
  shows "pred_option P r"
  using assms by (cases v) (auto simp: optionally_def rbind_Inr_iff)

lemma config_Inr: "decodeRoutineTriggerConfigV1 v = Inr q \<Longrightarrow> text_ok ROUTINE_CONNECTION_QUERY_MAX q"
  by (auto simp: decodeRoutineTriggerConfigV1_def rbind_Inr_iff split: option.splits dest: routineText_Inr)

lemma decodeRoutineTriggerV1_Inr: "decodeRoutineTriggerV1 v = Inr t \<Longrightarrow> trigger_ok t"
  by (auto simp: decodeRoutineTriggerV1_def rbind_Inr_iff split: option.splits if_splits
      dest: optionally_pred [OF _ config_Inr])

lemma stamps_Inr: "optionally v (routineTimestamp dp) = Inr r \<Longrightarrow> pred_option (stamp_ok dp) r"
  by (erule optionally_pred) (rule routineTimestamp_Inr)

lemma texts_Inr: "optionally v (\<lambda>x. routineText x n) = Inr r \<Longrightarrow> pred_option (text_ok n) r"
  by (erule optionally_pred) (rule routineText_Inr)

lemma epochs_Inr: "optionally v epochField = Inr r \<Longrightarrow> pred_option epoch_ok r"
  by (erule optionally_pred) (rule epochField_Inr)

lemma counts_Inr: "optionally v countField = Inr r \<Longrightarrow> pred_option (\<lambda>n. n \<le> MAX_SAFE_INTEGER) r"
  by (erule optionally_pred) (rule countField_Inr)

lemma triggers_Inr: "optionally v decodeRoutineTriggerV1 = Inr r \<Longrightarrow> pred_option trigger_ok r"
  by (erule optionally_pred) (rule decodeRoutineTriggerV1_Inr)

lemma xor_Inr: "requireScheduleXorTriggerV1 a b = Inr u \<Longrightarrow> a = None \<longleftrightarrow> b \<noteq> None"
  by (auto simp: requireScheduleXorTriggerV1_def split: if_splits)

lemmas codec_reads = routineText_Inr routineTimestamp_Inr routineIdField_Inr epochField_Inr countField_Inr
  decodeRoutineWriterV1_Inr stamps_Inr texts_Inr epochs_Inr counts_Inr triggers_Inr xor_Inr

lemma decodeRoutineRecordV1_Inr:
  assumes "decodeRoutineRecordV1 dp v = Inr r"
  shows "routine_ok dp r"
proof -
  obtain i n p c u ca ua sch t l a x b where
    "routineIdField v = Inr i" "routineText (jget v ''name'') ROUTINE_NAME_MAX_LENGTH = Inr n"
    "routineText (jget v ''prompt'') ROUTINE_PROMPT_MAX_LENGTH = Inr p"
    "decodeRoutineWriterV1 (jget v ''createdBy'') = Inr c" "decodeRoutineWriterV1 (jget v ''updatedBy'') = Inr u"
    "routineTimestamp dp (jget v ''createdAt'') = Inr ca" "routineTimestamp dp (jget v ''updatedAt'') = Inr ua"
    "optionally (jget v ''schedule'') (\<lambda>x. routineText x ROUTINE_SCHEDULE_MAX) = Inr sch"
    "optionally (jget v ''trigger'') decodeRoutineTriggerV1 = Inr t"
    "optionally (jget v ''lastRunAt'') (routineTimestamp dp) = Inr l"
    "optionally (jget v ''promptApprovalId'') (\<lambda>x. routineText x 128) = Inr a"
    "requireScheduleXorTriggerV1 sch t = Inr x"
    "(Inr \<lparr>rr_id = i, rr_name = n, rr_prompt = p, rr_schedule = sch, rr_trigger = t, rr_enabled = b,
      rr_createdBy = c, rr_updatedBy = u, rr_createdAt = ca, rr_updatedAt = ua, rr_lastRunAt = l,
      rr_approval = a\<rparr> :: routine_error + routine_record) = Inr r"
    using assms unfolding decodeRoutineRecordV1_def
    by (elim rbind_Inr_elim) (rule that, assumption+)
  then show ?thesis by (auto simp: routine_ok_def dest!: codec_reads)
qed

lemma decodeRoutineScheduleStateV1_Inr:
  assumes "decodeRoutineScheduleStateV1 dp v = Inr s"
  shows "clock_ok dp s"
proof -
  obtain i a z d h f where
    "routineIdField v = Inr i" "routineTimestamp dp (jget v ''anchor'') = Inr a"
    "routineText (jget v ''timezone'') 64 = Inr z" "epochField (jget v ''dueAt'') = Inr d"
    "optionally (jget v ''deferredUntil'') epochField = Inr h"
    "optionally (jget v ''consecutiveFailures'') countField = Inr f"
    "(Inr \<lparr>ss_routineId = i, ss_anchor = a, ss_timezone = z, ss_dueAt = d, ss_deferredUntil = h,
      ss_failures = f\<rparr> :: routine_error + schedule_state) = Inr s"
    using assms unfolding decodeRoutineScheduleStateV1_def
    by (elim rbind_Inr_elim) (rule that, assumption+)
  then show ?thesis by (auto simp: clock_ok_def dest!: codec_reads)
qed

lemma decodeRoutineFireV1_Inr:
  assumes "decodeRoutineFireV1 dp v = Inr f"
  shows "fire_ok dp f"
proof -
  obtain i t fi cu m e d mi p where
    "routineIdField v = Inr i" "routineText (jget v ''fireId'') 256 = Inr fi"
    "routineText (jget v ''cue'') ROUTINE_CUE_MAX_LENGTH = Inr cu"
    "routineTimestamp dp (jget v ''mintedAt'') = Inr m" "routineText (jget v ''entryId'') 256 = Inr e"
    "optionally (jget v ''dueAt'') epochField = Inr d" "optionally (jget v ''missedCount'') countField = Inr mi"
    "(Inr \<lparr>rf_routineId = i, rf_fireId = fi, rf_trigger = t, rf_cue = cu, rf_mintedAt = m, rf_dueAt = d,
      rf_missed = mi, rf_entryId = e, rf_promptBy = p\<rparr> :: routine_error + routine_fire) = Inr f"
    using assms unfolding decodeRoutineFireV1_def
    by (elim rbind_Inr_elim) (rule that, assumption+)
  then show ?thesis by (auto simp: fire_ok_def dest!: codec_reads)
qed

lemma decodeRoutineRunEntryV1_Inr:
  assumes "decodeRoutineRunEntryV1 dp v = Inr e"
  shows "routine_entry_ok dp e"
proof -
  obtain st t i ei ri fi sa fa su where
    "routineIdField v = Inr i" "routineText (jget v ''entryId'') 256 = Inr ei"
    "routineText (jget v ''runId'') 256 = Inr ri" "routineText (jget v ''fireId'') 256 = Inr fi"
    "routineTimestamp dp (jget v ''startedAt'') = Inr sa"
    "optionally (jget v ''finishedAt'') (routineTimestamp dp) = Inr fa"
    "optionally (jget v ''summary'') (\<lambda>x. routineText x 2000) = Inr su"
    "(Inr \<lparr>re_entryId = ei, re_routineId = i, re_runId = ri, re_fireId = fi, re_trigger = t,
      re_status = st, re_startedAt = sa, re_finishedAt = fa, re_summary = su\<rparr> :: routine_error + routine_entry) = Inr e"
    using assms unfolding decodeRoutineRunEntryV1_def
    by (elim rbind_Inr_elim) (rule that, assumption+)
  then show ?thesis by (auto simp: routine_entry_ok_def dest!: codec_reads)
qed

end
