(* ===== verification/Routine_Firing.thy ===== *)
theory Routine_Firing
  imports Routine_Records
begin

text \<open>
  The keys Routines are stored under (app/routines/storage-keys.ts), the id a firing is admitted as and
  the cue it is admitted with (app/routines/firing.ts). SHA-256 is computed here, on 32-bit words, as
  the code computes it. Keys are HOL strings; a routine id is ASCII by its grammar. The lemmas say that
  a firing's id is always an id a run may have, that queue keys list in the order the firings were asked
  for, and how a cue is split by who wrote each part of it.
\<close>

section \<open>Keys\<close>

definition ROUTINE_PREFIX :: string where "ROUTINE_PREFIX = ''routine:''"
definition ROUTINE_RUN_PREFIX :: string where "ROUTINE_RUN_PREFIX = ''routine-run:''"
definition ROUTINE_RECEIPT_PREFIX :: string where "ROUTINE_RECEIPT_PREFIX = ''routine-receipt:''"
definition ROUTINE_SCHEDULE_PREFIX :: string where "ROUTINE_SCHEDULE_PREFIX = ''routine-schedule:''"
definition ROUTINE_FIRE_PREFIX :: string where "ROUTINE_FIRE_PREFIX = ''routine-fire:''"
definition ROUTINE_QUEUE_PREFIX :: string where "ROUTINE_QUEUE_PREFIX = ''routine-queue:''"
definition ROUTINE_KEY_PREFIX :: string where "ROUTINE_KEY_PREFIX = ''routine-key:''"
definition ROUTINE_DELIVERY_PREFIX :: string where "ROUTINE_DELIVERY_PREFIX = ''routine-delivery:''"
definition ROUTINE_INBOX_PREFIX :: string where "ROUTINE_INBOX_PREFIX = ''routine-inbox:''"
definition ROUTINE_RUN_LOG_LIMIT :: nat where "ROUTINE_RUN_LOG_LIMIT = 50"
definition ROUTINE_LIMIT_PER_BOT :: nat where "ROUTINE_LIMIT_PER_BOT = 100"
definition ROUTINE_QUEUE_LIMIT :: nat where "ROUTINE_QUEUE_LIMIT = 8"
definition ROUTINE_DEFERRAL_MS :: int where "ROUTINE_DEFERRAL_MS = 15000"
definition ROUTINE_FAILURE_BACKOFF_MS :: "int list" where
  "ROUTINE_FAILURE_BACKOFF_MS = [30000, 2 * 60000, 10 * 60000, 30 * 60000]"
definition ROUTINE_FAILURE_PAUSE_AFTER :: nat where "ROUTINE_FAILURE_PAUSE_AFTER = 5"
definition ROUTINE_FIRE_LEASE_MS :: int where "ROUTINE_FIRE_LEASE_MS = 10 * 60000"
definition RUN_SEQUENCE_CEILING :: nat where "RUN_SEQUENCE_CEILING = 1000000000"

definition routineKeyV1 :: "string \<Rightarrow> string" where
  "routineKeyV1 routineId = ROUTINE_PREFIX @ routineId"

definition routineRunPrefixV1 :: "string \<Rightarrow> string" where
  "routineRunPrefixV1 routineId = ROUTINE_RUN_PREFIX @ routineId @ '':''"

definition routineRunKeyV1 :: "string \<Rightarrow> nat \<Rightarrow> routine_error + string" where
  "routineRunKeyV1 routineId n =
     (if n \<ge> RUN_SEQUENCE_CEILING then Inl Sequence_Out_Of_Range
      else Inr (routineRunPrefixV1 routineId @ padStart 10 (decimal (RUN_SEQUENCE_CEILING - n))))"

definition routineReceiptKeyV1 :: "string \<Rightarrow> string" where
  "routineReceiptKeyV1 commandId = ROUTINE_RECEIPT_PREFIX @ commandId"

text \<open>\<open>Number(key.slice(key.lastIndexOf(":") + 1))\<close> for a tail of digits; other tails are skipped.\<close>

definition keyNumber :: "string \<Rightarrow> nat option" where
  "keyNumber key =
     (let tail = rev (takeWhile (\<lambda>c. c \<noteq> CHR '':'') (rev key)) in
      if list_all (\<lambda>c. c \<in> set ''0123456789'') tail \<and> parseDecimal tail \<le> MAX_SAFE_INTEGER
      then Some (parseDecimal tail) else None)"

definition nextRunSequenceV1 :: "string list \<Rightarrow> nat" where
  "nextRunSequenceV1 keys =
     nat (fold (\<lambda>key highest. case keyNumber key of None \<Rightarrow> highest
                 | Some encoded \<Rightarrow> max highest (int RUN_SEQUENCE_CEILING - int encoded)) keys (-1) + 1)"

definition routineScheduleKeyV1 :: "string \<Rightarrow> string" where
  "routineScheduleKeyV1 routineId = ROUTINE_SCHEDULE_PREFIX @ routineId"

definition routineFireKeyV1 :: "string \<Rightarrow> string" where
  "routineFireKeyV1 routineId = ROUTINE_FIRE_PREFIX @ routineId"

definition routineQueuePrefixV1 :: "string \<Rightarrow> string" where
  "routineQueuePrefixV1 routineId = ROUTINE_QUEUE_PREFIX @ routineId @ '':''"

definition routineQueueKeyV1 :: "string \<Rightarrow> nat \<Rightarrow> routine_error + string" where
  "routineQueueKeyV1 routineId n =
     (if n \<ge> RUN_SEQUENCE_CEILING then Inl Sequence_Out_Of_Range
      else Inr (routineQueuePrefixV1 routineId @ padStart 10 (decimal n)))"

definition nextQueueSequenceV1 :: "string list \<Rightarrow> nat" where
  "nextQueueSequenceV1 keys =
     nat (fold (\<lambda>key highest. case keyNumber key of None \<Rightarrow> highest
                 | Some encoded \<Rightarrow> max highest (int encoded)) keys (-1) + 1)"

definition routineHookKeyRecordV1 :: "string \<Rightarrow> string" where
  "routineHookKeyRecordV1 routineId = ROUTINE_KEY_PREFIX @ routineId"

definition routineDeliveryKeyV1 :: "string \<Rightarrow> string" where
  "routineDeliveryKeyV1 deliveryId = ROUTINE_DELIVERY_PREFIX @ deliveryId"

definition routineInboxKeyV1 :: "nat \<Rightarrow> routine_error + string" where
  "routineInboxKeyV1 n =
     (if n \<ge> RUN_SEQUENCE_CEILING then Inl Sequence_Out_Of_Range
      else Inr (ROUTINE_INBOX_PREFIX @ padStart 10 (decimal (RUN_SEQUENCE_CEILING - n))))"

definition routineSequenceCursorV1 :: "json option \<Rightarrow> nat" where
  "routineSequenceCursorV1 value =
     (case value of
        None \<Rightarrow> 0
      | Some v \<Rightarrow>
          if jget v ''schemaVersion'' \<noteq> Some (JNum ''1'') then 0
          else (case safeNat (jget v ''nextSeq'') of None \<Rightarrow> 0 | Some n \<Rightarrow> n))"

section \<open>SHA-256\<close>

unbundle bit_operations_syntax

definition SHA256_ROUND_CONSTANTS_V1 :: "32 word list" where
  "SHA256_ROUND_CONSTANTS_V1 = concat
    [[0x428a2f98, 0x71374491, 0xb5c0fbcf, 0xe9b5dba5, 0x3956c25b, 0x59f111f1],
     [0x923f82a4, 0xab1c5ed5, 0xd807aa98, 0x12835b01, 0x243185be, 0x550c7dc3],
     [0x72be5d74, 0x80deb1fe, 0x9bdc06a7, 0xc19bf174, 0xe49b69c1, 0xefbe4786],
     [0x0fc19dc6, 0x240ca1cc, 0x2de92c6f, 0x4a7484aa, 0x5cb0a9dc, 0x76f988da],
     [0x983e5152, 0xa831c66d, 0xb00327c8, 0xbf597fc7, 0xc6e00bf3, 0xd5a79147],
     [0x06ca6351, 0x14292967, 0x27b70a85, 0x2e1b2138, 0x4d2c6dfc, 0x53380d13],
     [0x650a7354, 0x766a0abb, 0x81c2c92e, 0x92722c85, 0xa2bfe8a1, 0xa81a664b],
     [0xc24b8b70, 0xc76c51a3, 0xd192e819, 0xd6990624, 0xf40e3585, 0x106aa070],
     [0x19a4c116, 0x1e376c08, 0x2748774c, 0x34b0bcb5, 0x391c0cb3, 0x4ed8aa4a],
     [0x5b9cca4f, 0x682e6ff3, 0x748f82ee, 0x78a5636f, 0x84c87814, 0x8cc70208],
     [0x90befffa, 0xa4506ceb, 0xbef9a3f7, 0xc67178f2]]"

definition SHA256_START :: "32 word list" where
  "SHA256_START =
    [0x6a09e667, 0xbb67ae85, 0x3c6ef372, 0xa54ff53a, 0x510e527f, 0x9b05688c, 0x1f83d9ab, 0x5be0cd19]"

definition rotr32 :: "32 word \<Rightarrow> nat \<Rightarrow> 32 word" where
  "rotr32 x bits = drop_bit bits x OR push_bit (32 - bits) x"

definition uint32Bytes :: "32 word \<Rightarrow> 8 word list" where
  "uint32Bytes x = [ucast (drop_bit 24 x), ucast (drop_bit 16 x), ucast (drop_bit 8 x), ucast x]"

definition paddedBytes :: "8 word list \<Rightarrow> 8 word list" where
  "paddedBytes bytes =
     (let total = ((length bytes + 8) div 64 + 1) * 64; bits = length bytes * 8
      in bytes @ [0x80] @ replicate (total - length bytes - 9) 0 @
         uint32Bytes (of_nat (bits div 0x100000000)) @ uint32Bytes (of_nat bits))"

fun wordsOf :: "8 word list \<Rightarrow> 32 word list" where
  "wordsOf (a # b # c # d # s) =
     (push_bit 24 (ucast a) OR push_bit 16 (ucast b) OR push_bit 8 (ucast c) OR ucast d) # wordsOf s"
| "wordsOf _ = []"

definition scheduleWord :: "nat \<Rightarrow> 32 word list \<Rightarrow> 32 word list" where
  "scheduleWord i w =
     (let previous = w ! (i - 15); recent = w ! (i - 2);
          s0 = rotr32 previous 7 XOR rotr32 previous 18 XOR drop_bit 3 previous;
          s1 = rotr32 recent 17 XOR rotr32 recent 19 XOR drop_bit 10 recent
      in w @ [w ! (i - 16) + s0 + w ! (i - 7) + s1])"

definition messageSchedule :: "32 word list \<Rightarrow> 32 word list" where
  "messageSchedule block = fold scheduleWord [16..<64] block"

fun shaRound :: "32 word list \<Rightarrow> nat \<Rightarrow> 32 word list \<Rightarrow> 32 word list" where
  "shaRound w i [a, b, c, d, e, f, g, h] =
     (let s1 = rotr32 e 6 XOR rotr32 e 11 XOR rotr32 e 25;
          chosen = (e AND f) XOR ((NOT e) AND g);
          t1 = h + s1 + chosen + SHA256_ROUND_CONSTANTS_V1 ! i + w ! i;
          s0 = rotr32 a 2 XOR rotr32 a 13 XOR rotr32 a 22;
          majority = (a AND b) XOR (a AND c) XOR (b AND c);
          t2 = s0 + majority
      in [t1 + t2, a, b, c, d + t1, e, f, g])"
| "shaRound w i state = state"

definition shaBlock :: "32 word list \<Rightarrow> 32 word list \<Rightarrow> 32 word list" where
  "shaBlock block state =
     (let w = messageSchedule block
      in map2 (+) state (fold (shaRound w) [0..<64] state))"

function shaBlocks :: "32 word list \<Rightarrow> 32 word list \<Rightarrow> 32 word list" where
  "shaBlocks words state =
     (if words = [] then state else shaBlocks (drop 16 words) (shaBlock (take 16 words) state))"
  by pat_completeness auto
termination by (relation "measure (\<lambda>(words, state). length words)") auto

declare shaBlocks.simps [simp del]

definition sha256HexV1 :: "jstr \<Rightarrow> string" where
  "sha256HexV1 s =
     concat (map (\<lambda>x. padStart 8 (radix 16 (unat x)))
       (shaBlocks (wordsOf (paddedBytes (utf8_encode s))) SHA256_START))"

section \<open>The id of a firing\<close>

definition ROUTINE_FIRE_ID_MAX_LENGTH :: nat where "ROUTINE_FIRE_ID_MAX_LENGTH = 128"
definition FIRE_ID_DIGEST_LENGTH_V1 :: nat where "FIRE_ID_DIGEST_LENGTH_V1 = 32"

definition fireIdDigestV1 :: "jstr \<Rightarrow> jstr" where
  "fireIdDigestV1 s = js (take FIRE_ID_DIGEST_LENGTH_V1 (sha256HexV1 s))"

definition FIRE_ID_CHARS :: string where "FIRE_ID_CHARS = LOWER @ UPPER @ DIGITS @ ''._-''"

definition fireIdUnit :: "16 word \<Rightarrow> bool" where
  "fireIdUnit u \<longleftrightarrow> u \<in> set (js FIRE_ID_CHARS)"

definition sanitized :: "jstr \<Rightarrow> jstr" where
  "sanitized discriminator = slice0 (map (\<lambda>u. if fireIdUnit u then u else 0x2D) discriminator) 80"

definition fullFireId :: "string \<Rightarrow> jstr \<Rightarrow> jstr" where
  "fullFireId routineId discriminator = js ''rf-'' @ js routineId @ js ''-'' @ sanitized discriminator"

definition routineFireIdV1 :: "string \<Rightarrow> jstr \<Rightarrow> jstr" where
  "routineFireIdV1 routineId discriminator =
     (let full = fullFireId routineId discriminator; digest = fireIdDigestV1 full
      in if length full \<le> ROUTINE_FIRE_ID_MAX_LENGTH then full
         else slice0 full (ROUTINE_FIRE_ID_MAX_LENGTH - length digest - 1) @ js ''-'' @ digest)"

section \<open>The cue\<close>

definition newline :: "16 word" where "newline = 10"

fun joinLines :: "jstr list \<Rightarrow> jstr" where
  "joinLines [] = []"
| "joinLines [line] = line"
| "joinLines (line # other # lines) = line @ newline # joinLines (other # lines)"

definition ROUTINE_CUE_PAYLOAD_LABEL_V1 :: jstr where
  "ROUTINE_CUE_PAYLOAD_LABEL_V1 = js ''Delivered payload:''"

definition triggerName :: "run_trigger \<Rightarrow> string" where
  "triggerName t = (case t of Cron \<Rightarrow> ''cron'' | Webhook \<Rightarrow> ''webhook'' | Manual \<Rightarrow> ''manual'' | Connection \<Rightarrow> ''connection'')"

definition cueHeader :: "jstr \<Rightarrow> run_trigger \<Rightarrow> jstr" where
  "cueHeader name trigger = js ''Routine '' @ [0x22] @ name @ [0x22] @ js '' fired ('' @ js (triggerName trigger) @ js '').''"

definition routineCueV1 :: "jstr \<Rightarrow> jstr \<Rightarrow> run_trigger \<Rightarrow> nat option \<Rightarrow> jstr option \<Rightarrow> jstr" where
  "routineCueV1 name prompt trigger missed delivery =
     slice0 (joinLines
       ([cueHeader name trigger] @
        (case missed of
           Some n \<Rightarrow> if n > 1 then [js ''It was late: '' @ js (decimal n) @
                        js '' scheduled occurrences elapsed and this firing covers all of them.''] else []
         | None \<Rightarrow> []) @
        [[], prompt] @
        (case delivery of None \<Rightarrow> [] | Some d \<Rightarrow> [[], ROUTINE_CUE_PAYLOAD_LABEL_V1, d])))
       ROUTINE_CUE_MAX_LENGTH"

text \<open>\<open>indexOf\<close>: the first place where a text occurs.\<close>

fun textIndexOf :: "jstr \<Rightarrow> jstr \<Rightarrow> nat option" where
  "textIndexOf needle [] = (if needle = [] then Some 0 else None)"
| "textIndexOf needle (c # s) =
     (if take (length needle) (c # s) = needle then Some 0 else map_option Suc (textIndexOf needle s))"

datatype cue_author = By_Platform | By_Routine | By_The_Bot | By_External

definition routineCueSegmentsV1 :: "jstr \<Rightarrow> prompt_writer option \<Rightarrow> (cue_author \<times> jstr) list" where
  "routineCueSegmentsV1 cue promptBy =
     (case textIndexOf [newline, newline] cue of
        None \<Rightarrow> [(By_Platform, cue)]
      | Some promptAt \<Rightarrow>
          let header = take promptAt cue; rest = drop (promptAt + 2) cue;
              payloadAt = textIndexOf ([newline, newline] @ ROUTINE_CUE_PAYLOAD_LABEL_V1 @ [newline]) rest;
              prompt = (case payloadAt of None \<Rightarrow> rest | Some p \<Rightarrow> take p rest);
              writer = (if promptBy = Some By_User then By_Routine else By_The_Bot)
          in [(By_Platform, header @ [newline]),
              (writer, case payloadAt of None \<Rightarrow> prompt | Some p \<Rightarrow> prompt @ [newline])] @
             (case payloadAt of None \<Rightarrow> [] | Some p \<Rightarrow> [(By_External, drop (p + 2) rest)]))"

section \<open>A firing's id is a run id\<close>

lemma radix16_chars: "set (radix 16 n) \<subseteq> set (LOWER @ DIGITS)"
proof (induction n rule: less_induct)
  case (less n)
  have "list_all (\<lambda>d. digitChar d \<in> set (LOWER @ DIGITS)) [0..<16]" by code_simp
  then have digit: "digitChar d \<in> set (LOWER @ DIGITS)" if "d < 16" for d
    using that by (simp add: list_all_iff)
  show ?case
  proof (cases "n < 16")
    case True
    then show ?thesis using digit [of n] by (subst radix.simps) simp
  next
    case False
    then have "set (radix 16 (n div 16)) \<subseteq> set (LOWER @ DIGITS)" using less by simp
    then show ?thesis using False digit [of "n mod 16"] by (subst radix.simps) simp
  qed
qed

lemma sha256HexV1_chars: "set (sha256HexV1 s) \<subseteq> set (LOWER @ DIGITS)"
  using radix16_chars by (fastforce simp: sha256HexV1_def padStart_def DIGITS_def split: if_splits)

lemma unit_char: "char_of (unat (of_nat (of_char c) :: 16 word)) = (c :: char)"
  using unjs_js [of "[c]"] by (simp add: unjs_def)

lemma js_char_iff: "of_nat (of_char c) \<in> set (js s) \<longleftrightarrow> c \<in> set s"
  unfolding js_def by (auto simp: image_iff) (metis unit_char)

lemma fireIdUnit_js: "list_all fireIdUnit (js s) \<longleftrightarrow> set s \<subseteq> set FIRE_ID_CHARS"
proof -
  have "list_all fireIdUnit (js s) \<longleftrightarrow> (\<forall>c \<in> set s. of_nat (of_char c) \<in> set (js FIRE_ID_CHARS))"
    by (auto simp: fireIdUnit_def js_def list_all_iff)
  then show ?thesis unfolding js_char_iff by blast
qed

lemma fireIdUnit_unjs: "list_all fireIdUnit s \<Longrightarrow> set (unjs s) \<subseteq> set FIRE_ID_CHARS \<and> js (unjs s) = s"
proof (induction s)
  case (Cons u s)
  then have "u \<in> set (js FIRE_ID_CHARS)" by (simp add: fireIdUnit_def)
  then obtain c where c: "c \<in> set FIRE_ID_CHARS" "u = of_nat (of_char c)" unfolding js_def by auto
  then have "unjs (u # s) = c # unjs s" by (simp add: unjs_def unit_char del: of_nat_of_char)
  with c Cons show ?case by simp
qed (simp add: unjs_def)

definition IDENTIFIER_STARTS :: string where
  "IDENTIFIER_STARTS = ''abcdefghijklmnopqrstuvwxyzABCDEFGHIJKLMNOPQRSTUVWXYZ0123456789''"

lemma identifier_chars: "set IDENTIFIER_STARTS \<union> set ''._-'' = set FIRE_ID_CHARS"
  by code_simp

lemma identifierStart_iff: "identifierStart c \<longleftrightarrow> c \<in> set IDENTIFIER_STARTS"
  unfolding identifierStart_def IDENTIFIER_STARTS_def by (rule refl)

lemma routineId_chars: "isRoutineIdV1 i \<Longrightarrow> set i \<subseteq> set FIRE_ID_CHARS"
  unfolding identifier_chars [symmetric] isRoutineIdV1_def identifierStart_iff
  by (cases i) (auto simp: list_all_iff)


lemma digest_units: "list_all fireIdUnit (fireIdDigestV1 s)"
proof -
  have "set (take FIRE_ID_DIGEST_LENGTH_V1 (sha256HexV1 s)) \<subseteq> set (LOWER @ DIGITS)"
    using sha256HexV1_chars set_take_subset by fast
  then show ?thesis unfolding fireIdDigestV1_def fireIdUnit_js by (auto simp: FIRE_ID_CHARS_def)
qed

lemma digest_length: "length (fireIdDigestV1 s) \<le> 32"
  by (simp add: fireIdDigestV1_def FIRE_ID_DIGEST_LENGTH_V1_def)

lemma dash_unit: "fireIdUnit 0x2D"
proof -
  have "list_all fireIdUnit (js ''-'')" unfolding fireIdUnit_js by code_simp
  then show ?thesis by simp
qed

lemma full_units: "isRoutineIdV1 i \<Longrightarrow> list_all fireIdUnit (fullFireId i d)"
proof -
  assume "isRoutineIdV1 i"
  then have "list_all fireIdUnit (js i)" unfolding fireIdUnit_js by (rule routineId_chars)
  moreover have "list_all fireIdUnit (js ''rf-'')" unfolding fireIdUnit_js by code_simp
  moreover have "list_all fireIdUnit (sanitized d)"
    using dash_unit by (auto simp: sanitized_def slice0_def list_all_iff dest: in_set_takeD)
  ultimately show ?thesis using dash_unit by (simp add: fullFireId_def)
qed

lemma fireId_units:
  assumes "isRoutineIdV1 i"
  shows "list_all fireIdUnit (routineFireIdV1 i d)"
    and "length (routineFireIdV1 i d) \<le> ROUTINE_FIRE_ID_MAX_LENGTH"
    and "\<exists>s. routineFireIdV1 i d = of_nat (of_char (CHR ''r'')) # s"
proof -
  have full: "list_all fireIdUnit (fullFireId i d)" using assms by (rule full_units)
  then show "list_all fireIdUnit (routineFireIdV1 i d)"
    using digest_units dash_unit
    by (auto simp: routineFireIdV1_def Let_def slice0_def list_all_iff dest: in_set_takeD)
  show "length (routineFireIdV1 i d) \<le> ROUTINE_FIRE_ID_MAX_LENGTH"
    using digest_length [of "fullFireId i d"]
    by (auto simp: routineFireIdV1_def Let_def slice0_def ROUTINE_FIRE_ID_MAX_LENGTH_def)
  obtain s where s: "fullFireId i d = of_nat (of_char (CHR ''r'')) # s" by (simp add: fullFireId_def)
  show "\<exists>s. routineFireIdV1 i d = of_nat (of_char (CHR ''r'')) # s"
    using digest_length [of "fullFireId i d"]
    by (cases "ROUTINE_FIRE_ID_MAX_LENGTH - length (fireIdDigestV1 (fullFireId i d)) - 1")
       (auto simp: routineFireIdV1_def Let_def slice0_def ROUTINE_FIRE_ID_MAX_LENGTH_def s)
qed

lemma fireId_text_ok: "isRoutineIdV1 i \<Longrightarrow> text_ok 256 (routineFireIdV1 i d)"
proof -
  assume i: "isRoutineIdV1 i"
  have "\<not> spaceUnit u" if "fireIdUnit u" for u
  proof -
    have "list_all (\<lambda>c. \<not> spaceUnit (of_nat (of_char c))) FIRE_ID_CHARS" by code_simp
    with that show ?thesis by (auto simp: fireIdUnit_def js_def list_all_iff)
  qed
  then have "trim (routineFireIdV1 i d) = routineFireIdV1 i d"
    using fireId_units(1) [OF i] by (intro trim_plain) (auto simp: list_all_iff)
  then show ?thesis using fireId_units(2,3) [OF i, of d]
    by (auto simp: text_ok_def ROUTINE_FIRE_ID_MAX_LENGTH_def)
qed

text \<open>A firing is always admissible under its id: whatever delivered or asked for it, the id of a firing of
  a Routine is a public identifier, which is what the kernel requires of a run id, and at most 128 units long.\<close>

theorem fire_id_is_run_id:
  assumes "isRoutineIdV1 routineId"
  shows "isPublicIdentifier (unjs (routineFireIdV1 routineId discriminator)) \<and>
    js (unjs (routineFireIdV1 routineId discriminator)) = routineFireIdV1 routineId discriminator"
proof -
  let ?f = "routineFireIdV1 routineId discriminator"
  obtain s where s: "?f = of_nat (of_char (CHR ''r'')) # s" using fireId_units(3) [OF assms] by blast
  have chars: "set (unjs ?f) \<subseteq> set FIRE_ID_CHARS" and exact: "js (unjs ?f) = ?f"
    using fireIdUnit_unjs [OF fireId_units(1) [OF assms]] by blast+
  have "length (unjs ?f) \<le> 128"
    using fireId_units(2) [OF assms] by (simp add: unjs_def ROUTINE_FIRE_ID_MAX_LENGTH_def)
  moreover have split: "unjs ?f = CHR ''r'' # unjs s" unfolding s by (simp only: unjs_def list.map unit_char)
  moreover have "identifierStart (CHR ''r'')" by code_simp
  moreover have "list_all (\<lambda>c. identifierStart c \<or> c \<in> set ''._-'') (unjs s)"
    using chars unfolding split identifier_chars [symmetric] identifierStart_iff list_all_iff by auto
  ultimately show ?thesis using exact by (simp add: isPublicIdentifier_def)
qed

theorem fire_id_is_run_id_witness:
  "isPublicIdentifier (unjs (routineFireIdV1 ''r1'' [0xE9, 0x20]))"
proof -
  have "isRoutineIdV1 ''r1''" by code_simp
  from fire_id_is_run_id [OF this] show ?thesis by blast
qed

lemma decimal_fireUnits: "list_all fireIdUnit (js (decimal n))"
proof -
  have "list_all fireIdUnit (js ''0123456789'')" unfolding fireIdUnit_js by code_simp
  then show ?thesis using decimal_digits unfolding fireIdUnit_js by blast
qed

lemma sanitized_plain: "list_all fireIdUnit d \<Longrightarrow> length d \<le> 80 \<Longrightarrow> sanitized d = d"
  by (simp add: sanitized_def slice0_def list_all_iff map_idI)

lemma fireId_short:
  assumes "list_all fireIdUnit d" and "length d \<le> 80" and "length i + length d \<le> 124"
  shows "routineFireIdV1 i d = js ''rf-'' @ js i @ js ''-'' @ d"
  using assms by (simp add: routineFireIdV1_def fullFireId_def sanitized_plain ROUTINE_FIRE_ID_MAX_LENGTH_def)

lemma decimal_length: "n \<le> MAX_SAFE_INTEGER \<Longrightarrow> length (decimal n) \<le> 16"
  using length_radix [of 10 n 16] by (simp add: decimal_def MAX_SAFE_INTEGER_def)

text \<open>Two occurrences of one Routine never share an id, so the kernel never takes one for a replay of the
  other: for a routine id of up to 108 characters the ids of different due times differ.\<close>

theorem occurrence_ids_differ:
  assumes "length routineId \<le> 108" and "epoch_ok due" and "epoch_ok due'" and "due \<noteq> due'"
  shows "routineFireIdV1 routineId (js (integerText due)) \<noteq> routineFireIdV1 routineId (js (integerText due'))"
proof -
  have short: "routineFireIdV1 routineId (js (integerText t)) = js ''rf-'' @ js routineId @ js ''-'' @ js (integerText t)"
    and "integerText t = decimal (nat t)" if "epoch_ok t" for t
  proof -
    show n: "integerText t = decimal (nat t)" using that by (simp add: integerText_def epoch_ok_def)
    have "length (decimal (nat t)) \<le> 16" using that by (intro decimal_length) (simp add: epoch_ok_def nat_le_iff)
    then show "routineFireIdV1 routineId (js (integerText t)) = js ''rf-'' @ js routineId @ js ''-'' @ js (integerText t)"
      using assms(1) n by (intro fireId_short) (simp_all add: decimal_fireUnits)
  qed
  then show ?thesis using assms(2-4) by (simp add: epoch_ok_def) (metis decimal_inject eq_nat_nat_iff unjs_js)
qed

theorem occurrence_ids_differ_witness:
  "routineFireIdV1 ''r1'' (js (integerText 60000)) \<noteq> routineFireIdV1 ''r1'' (js (integerText 120000))"
  by (rule occurrence_ids_differ) (simp_all add: epoch_ok_def MAX_SAFE_INTEGER_def)

text \<open>Ids of different Routines can collide: a firing asked for by hand of a Routine whose command id is a
  number has the id of the occurrence due at that number of the Routine whose id has \<open>-manual\<close> appended.\<close>

theorem fire_ids_collide:
  assumes "length routineId \<le> 90" and "epoch_ok due"
  shows "routineFireIdV1 routineId (js ''manual-'' @ js (integerText due)) =
    routineFireIdV1 (routineId @ ''-manual'') (js (integerText due))"
proof -
  have n: "integerText due = decimal (nat due)" using assms(2) by (simp add: integerText_def epoch_ok_def)
  have len: "length (decimal (nat due)) \<le> 16"
    using assms(2) by (intro decimal_length) (simp add: epoch_ok_def nat_le_iff)
  have "list_all fireIdUnit (js ''manual-'')" unfolding fireIdUnit_js by code_simp
  then have "routineFireIdV1 routineId (js ''manual-'' @ js (decimal (nat due))) =
      js ''rf-'' @ js routineId @ js ''-'' @ js ''manual-'' @ js (decimal (nat due))"
    using assms(1) len decimal_fireUnits by (intro fireId_short) (simp_all del: js_simps)
  moreover have "routineFireIdV1 (routineId @ ''-manual'') (js (decimal (nat due))) =
      js ''rf-'' @ js (routineId @ ''-manual'') @ js ''-'' @ js (decimal (nat due))"
    using assms(1) len decimal_fireUnits by (intro fireId_short) (simp_all del: js_simps)
  ultimately show ?thesis unfolding n by simp
qed

theorem fire_ids_collide_witness:
  "routineFireIdV1 ''x'' (js ''manual-'' @ js (integerText 60000)) =
    routineFireIdV1 (''x'' @ ''-manual'') (js (integerText 60000))"
  by (rule fire_ids_collide) (simp_all add: epoch_ok_def MAX_SAFE_INTEGER_def)

section \<open>Who wrote a cue\<close>

lemma textIndexOf_Some:
  "textIndexOf needle s = Some i \<Longrightarrow> take (length needle) (drop i s) = needle \<and> i \<le> length s"
  by (induction needle s arbitrary: i rule: textIndexOf.induct) (auto split: if_splits)

lemma textIndexOf_found:
  "take (length needle) (drop j s) = needle \<Longrightarrow> j \<le> length s \<Longrightarrow> \<exists>i \<le> j. textIndexOf needle s = Some i"
proof (induction needle s arbitrary: j rule: textIndexOf.induct)
  case (1 needle)
  then show ?case by simp
next
  case (2 needle c s)
  show ?case
  proof (cases "take (length needle) (c # s) = needle")
    case False
    with 2 obtain k where k: "j = Suc k" by (cases j) auto
    with 2 False obtain i where "i \<le> k" "textIndexOf needle s = Some i" by auto
    with False k show ?thesis by auto
  qed simp
qed

lemma textIndexOf_skip:
  assumes "needle \<noteq> []" and "hd needle \<notin> set t"
  shows "textIndexOf needle (t @ s) = map_option (\<lambda>i. length t + i) (textIndexOf needle s)"
  using assms(2)
proof (induction t)
  case (Cons c t)
  have "take (length needle) (c # t @ s) \<noteq> needle" using assms(1) Cons.prems by (cases needle) auto
  with Cons show ?case by (cases "textIndexOf needle s") auto
qed (cases "textIndexOf needle s"; simp)

lemma textIndexOf_here: "take (length needle) s = needle \<Longrightarrow> textIndexOf needle s = Some 0"
  by (cases s) auto

lemma split_at: "take (length m) (drop i s) = m \<Longrightarrow> s = take i s @ m @ drop (i + length m) s"
  by (metis append_take_drop_id drop_drop add.commute)

lemma split_blank: "textIndexOf [newline, newline] s = Some p \<Longrightarrow>
    s = take p s @ newline # newline # drop (Suc (Suc p)) s"
  using split_at [of "[newline, newline]" p s] textIndexOf_Some by fastforce

lemma split_label:
  assumes "textIndexOf (newline # newline # label) s = Some q"
  shows "s = take q s @ newline # newline # drop (Suc (Suc q)) s"
proof -
  have "take (length (newline # newline # label)) (drop q s) = newline # newline # label"
    using textIndexOf_Some [OF assms] by blast
  then have "take (length [newline, newline]) (drop q s) = [newline, newline]"
    by (cases "drop q s"; cases "tl (drop q s)") auto
  from split_at [OF this] show ?thesis by simp
qed

text \<open>The parts of a cue spell out the cue: joined by newlines, the texts attributed to the platform, to the
  prompt's writer and to whoever sent the payload are the cue the firing was minted with, for any cue.\<close>

theorem cue_parts_spell_cue: "joinLines (map snd (routineCueSegmentsV1 cue promptBy)) = cue"
proof (cases "textIndexOf [newline, newline] cue")
  case (Some p)
  define rest where "rest = drop (Suc (Suc p)) cue"
  have cue: "take p cue @ newline # newline # rest = cue" using split_blank [OF Some] rest_def by simp
  show ?thesis
  proof (cases "textIndexOf (newline # newline # ROUTINE_CUE_PAYLOAD_LABEL_V1 @ [newline]) rest")
    case (Some q)
    have "take q rest @ newline # newline # drop (Suc (Suc q)) rest = rest" using split_label [OF Some] by simp
    then show ?thesis using \<open>textIndexOf [newline, newline] cue = Some p\<close> Some cue
      by (simp add: routineCueSegmentsV1_def rest_def [symmetric] Let_def)
  qed (simp add: routineCueSegmentsV1_def rest_def [symmetric] Let_def Some cue)
qed (simp add: routineCueSegmentsV1_def)


definition lateLines :: "nat option \<Rightarrow> jstr list" where
  "lateLines missed =
     (case missed of
        Some n \<Rightarrow> if n > 1 then [js ''It was late: '' @ js (decimal n) @
                     js '' scheduled occurrences elapsed and this firing covers all of them.''] else []
      | None \<Rightarrow> [])"

definition cueHead :: "jstr \<Rightarrow> run_trigger \<Rightarrow> nat option \<Rightarrow> jstr" where
  "cueHead name trigger missed = joinLines (cueHeader name trigger # lateLines missed)"

definition cueTail :: "jstr \<Rightarrow> jstr option \<Rightarrow> jstr" where
  "cueTail prompt delivery =
     joinLines (prompt # (case delivery of None \<Rightarrow> [] | Some d \<Rightarrow> [[], ROUTINE_CUE_PAYLOAD_LABEL_V1, d]))"

lemma cue_split:
  assumes "length (cueHead name trigger missed @ newline # newline # cueTail prompt delivery) \<le> ROUTINE_CUE_MAX_LENGTH"
  shows "routineCueV1 name prompt trigger missed delivery =
    cueHead name trigger missed @ newline # newline # cueTail prompt delivery"
proof -
  have "routineCueV1 name prompt trigger missed delivery =
      slice0 (joinLines ([cueHeader name trigger] @ lateLines missed @ [[], prompt] @
        (case delivery of None \<Rightarrow> [] | Some d \<Rightarrow> [[], ROUTINE_CUE_PAYLOAD_LABEL_V1, d]))) ROUTINE_CUE_MAX_LENGTH"
    by (simp add: routineCueV1_def lateLines_def)
  also have "joinLines ([cueHeader name trigger] @ lateLines missed @ [[], prompt] @
        (case delivery of None \<Rightarrow> [] | Some d \<Rightarrow> [[], ROUTINE_CUE_PAYLOAD_LABEL_V1, d])) =
      cueHead name trigger missed @ newline # newline # cueTail prompt delivery"
    by (simp add: lateLines_def cueHead_def cueTail_def split: option.splits)
  finally show ?thesis using assms by (simp add: slice0_def)
qed

lemma plain_lines:
  "newline \<notin> set (js ''Routine '')" "newline \<notin> set (js '' fired ('')" "newline \<notin> set (js (triggerName trigger))"
  "newline \<notin> set (js '').'')" "newline \<notin> set (js ''It was late: '')"
  "newline \<notin> set (js '' scheduled occurrences elapsed and this firing covers all of them.'')"
  "newline \<notin> set (js (decimal n))"
proof -
  show "newline \<notin> set (js (triggerName trigger))" by (cases trigger) (simp_all add: triggerName_def newline_def)
  show "newline \<notin> set (js (decimal n))"
    using decimal_units [of newline n] by (auto simp: digitUnit_def newline_def)
qed (simp_all add: newline_def)

lemma header_plain: "newline \<notin> set name \<Longrightarrow> newline \<notin> set (cueHeader name trigger)"
  using plain_lines by (auto simp: cueHeader_def newline_def simp del: js_simps)

lemma late_plain: "line \<in> set (lateLines missed) \<Longrightarrow> newline \<notin> set line \<and> line \<noteq> []"
  using plain_lines by (auto simp: lateLines_def simp del: js_simps split: option.splits if_splits) (simp_all add: js_def)

lemma cueHead_blank:
  assumes "newline \<notin> set name"
  shows "textIndexOf [newline, newline] (cueHead name trigger missed @ newline # newline # s) =
    Some (length (cueHead name trigger missed))"
proof -
  note h = header_plain [OF assms, of trigger]
  have here: "textIndexOf [newline, newline] (newline # newline # s) = Some 0" by simp
  consider "lateLines missed = []" | line where "lateLines missed = [line]"
    by (cases missed; cases "1 < the missed") (auto simp: lateLines_def)
  then show ?thesis
  proof cases
    case 1
    then show ?thesis using h here by (simp add: cueHead_def textIndexOf_skip)
  next
    case 2
    have line: "newline \<notin> set line" "line \<noteq> []" using late_plain [of line missed] 2 by simp_all
    then obtain c l where c: "line = c # l" "c \<noteq> newline" by (cases line) auto
    have "textIndexOf [newline, newline] (line @ newline # newline # s) = Some (length line)"
      using line here by (simp add: textIndexOf_skip)
    then have "textIndexOf [newline, newline] (newline # line @ newline # newline # s) = Some (Suc (length line))"
      using c by simp
    then show ?thesis using 2 h by (simp add: cueHead_def textIndexOf_skip)
  qed
qed

lemma segments_head:
  assumes "newline \<notin> set name"
  shows "routineCueSegmentsV1 (cueHead name trigger missed @ newline # newline # s) promptBy =
    (By_Platform, cueHead name trigger missed @ [newline]) #
    (let writer = (if promptBy = Some By_User then By_Routine else By_The_Bot) in
     case textIndexOf (newline # newline # ROUTINE_CUE_PAYLOAD_LABEL_V1 @ [newline]) s of
       None \<Rightarrow> [(writer, s)]
     | Some q \<Rightarrow> [(writer, take q s @ [newline]), (By_External, drop (q + 2) s)])"
  using cueHead_blank [OF assms, of trigger missed s]
  by (simp add: routineCueSegmentsV1_def Let_def split: option.splits)

text \<open>C28: What was delivered never speaks for anyone else: in the cue of a firing with a payload, whose name is one line, the
  platform's part is the header alone, the writer's part is a beginning of the prompt, and everything that was delivered
  is inside the part attributed to whoever sent it, whatever the prompt and the payload contain.\<close>

theorem payload_stays_external:
  assumes "newline \<notin> set name"
    and "length (cueHead name trigger missed @ newline # newline # cueTail prompt (Some payload)) \<le> ROUTINE_CUE_MAX_LENGTH"
  shows "\<exists>k sent. k \<le> length prompt \<and>
    routineCueSegmentsV1 (routineCueV1 name prompt trigger missed (Some payload)) promptBy =
      [(By_Platform, cueHead name trigger missed @ [newline]),
       (if promptBy = Some By_User then By_Routine else By_The_Bot, take k prompt @ [newline]),
       (By_External, sent @ ROUTINE_CUE_PAYLOAD_LABEL_V1 @ newline # payload)]"
proof -
  let ?needle = "newline # newline # ROUTINE_CUE_PAYLOAD_LABEL_V1 @ [newline]"
  let ?s = "prompt @ newline # newline # ROUTINE_CUE_PAYLOAD_LABEL_V1 @ newline # payload"
  have tail: "cueTail prompt (Some payload) = ?s" by (simp add: cueTail_def)
  have "take (length ?needle) (drop (length prompt) ?s) = ?needle" by simp
  then obtain q where q: "q \<le> length prompt" "textIndexOf ?needle ?s = Some q"
    using textIndexOf_found [of ?needle "length prompt" ?s] by (auto simp del: textIndexOf.simps)
  have "drop (q + 2) ((prompt @ [newline, newline]) @ ROUTINE_CUE_PAYLOAD_LABEL_V1 @ newline # payload) =
      drop (q + 2) (prompt @ [newline, newline]) @ ROUTINE_CUE_PAYLOAD_LABEL_V1 @ newline # payload"
    using q(1) by (subst drop_append) simp
  then have "drop (q + 2) ?s = drop (q + 2) (prompt @ [newline, newline]) @ ROUTINE_CUE_PAYLOAD_LABEL_V1 @ newline # payload"
    by simp
  then have "routineCueSegmentsV1 (routineCueV1 name prompt trigger missed (Some payload)) promptBy =
      [(By_Platform, cueHead name trigger missed @ [newline]),
       (if promptBy = Some By_User then By_Routine else By_The_Bot, take q prompt @ [newline]),
       (By_External, drop (q + 2) (prompt @ [newline, newline]) @ ROUTINE_CUE_PAYLOAD_LABEL_V1 @ newline # payload)]"
    unfolding cue_split [OF assms(2)] segments_head [OF assms(1)] tail q(2) using q(1) by (simp add: Let_def)
  with q(1) show ?thesis by blast
qed

theorem payload_stays_external_witness:
  "\<exists>k sent. routineCueSegmentsV1 (routineCueV1 (js ''N'') (js ''do it'') Webhook None (Some (js ''x''))) (Some By_User) =
      [(By_Platform, cueHead (js ''N'') Webhook None @ [newline]), (By_Routine, take k (js ''do it'') @ [newline]),
       (By_External, sent @ ROUTINE_CUE_PAYLOAD_LABEL_V1 @ newline # js ''x'')]"
proof -
  have "newline \<notin> set (js ''N'')" by (simp add: newline_def)
  moreover have "length (cueHead (js ''N'') Webhook None @ newline # newline # cueTail (js ''do it'') (Some (js ''x'')))
      \<le> ROUTINE_CUE_MAX_LENGTH"
    by (simp add: cueHead_def cueTail_def cueHeader_def lateLines_def triggerName_def ROUTINE_CUE_PAYLOAD_LABEL_V1_def
        ROUTINE_CUE_MAX_LENGTH_def)
  ultimately show ?thesis
    using payload_stays_external [of "js ''N''" Webhook None "js ''do it''" "js ''x''" "Some By_User"] by auto
qed

end
