(* ===== verification/Routine_Scheduler.thy ===== *)
theory Routine_Scheduler
  imports Routine_Firing
begin

text \<open>
  The scheduler of Routines (app/routines/scheduler.ts, appendRoutineRunEntryV1 of store.ts and the
  failure entry of inbox-store.ts and inbox.ts): clocks, deadlines, deferral, the queue of a Routine,
  claiming a firing and settling it. \<open>routine_store\<close> is the storage it works on, a map of JSON values
  per key prefix; a transaction is a function into an error or a new store. Time is the argument
  \<open>now\<close>, \<open>toISOString\<close> and \<open>Date.parse\<close> are fields of \<open>routine_env\<close>. A stored value is an object, so a key
  that is present is truthy. What a firing's Turn has come to, read from its run, is the argument
  \<open>firingRun\<close>.
\<close>

section \<open>The store\<close>

record routine_env =
  rv_calendar :: calendar
  rv_parse :: date_parse
  rv_iso :: "int \<Rightarrow> jstr"
  rv_product :: jstr

text \<open>The receipt of a delivery is read as it was written, with no codec.\<close>

record delivery_receipt =
  dr_routineId :: string
  dr_fireId :: "jstr option"
  dr_dropped :: "jstr option"
  dr_acceptedAt :: jstr

record routine_store =
  rs_routines :: "json kv"
  rs_runs :: "json kv"
  rs_schedules :: "json kv"
  rs_fires :: "json kv"
  rs_queue :: "json kv"
  rs_inbox :: "json kv"
  rs_inboxCursor :: "json option"
  rs_keys :: "json kv"
  rs_deliveries :: "delivery_receipt kv"

definition emptyRoutineStore :: routine_store where
  "emptyRoutineStore = \<lparr>rs_routines = [], rs_runs = [], rs_schedules = [], rs_fires = [], rs_queue = [],
     rs_inbox = [], rs_inboxCursor = None, rs_keys = [], rs_deliveries = []\<rparr>"

text \<open>\<open>list({ prefix })\<close>.\<close>

definition listPrefix :: "string \<Rightarrow> 'v kv \<Rightarrow> 'v kv" where
  "listPrefix start m = filter (\<lambda>(key, v). take (length start) key = start) m"

definition putRoutine :: "string \<Rightarrow> routine_record \<Rightarrow> routine_store \<Rightarrow> routine_store" where
  "putRoutine routineId r d =
     d\<lparr>rs_routines := kv_put (routineKeyV1 routineId) (routineJson r) (rs_routines d)\<rparr>"

definition putClock :: "string \<Rightarrow> schedule_state \<Rightarrow> routine_store \<Rightarrow> routine_store" where
  "putClock routineId s d =
     d\<lparr>rs_schedules := kv_put (routineScheduleKeyV1 routineId) (scheduleJson s) (rs_schedules d)\<rparr>"

definition dropClock :: "string \<Rightarrow> routine_store \<Rightarrow> routine_store" where
  "dropClock routineId d = d\<lparr>rs_schedules := kv_delete (routineScheduleKeyV1 routineId) (rs_schedules d)\<rparr>"

definition lockOf :: "routine_store \<Rightarrow> string \<Rightarrow> json option" where
  "lockOf d routineId = kv_get (rs_fires d) (routineFireKeyV1 routineId)"

definition readRoutine :: "routine_env \<Rightarrow> routine_store \<Rightarrow> string \<Rightarrow> routine_record option" where
  "readRoutine env d routineId =
     (case kv_get (rs_routines d) (routineKeyV1 routineId) of
        None \<Rightarrow> None
      | Some v \<Rightarrow> (case decodeRoutineRecordV1 (rv_parse env) v of Inl e \<Rightarrow> None | Inr r \<Rightarrow> Some r))"

text \<open>\<open>new Date(text).getTime()\<close> of a timestamp the codec accepted.\<close>

definition timeOf :: "routine_env \<Rightarrow> jstr \<Rightarrow> int" where
  "timeOf env s = (case rv_parse env s of None \<Rightarrow> 0 | Some t \<Rightarrow> t)"

section \<open>The run log\<close>

fun findEntry :: "date_parse \<Rightarrow> jstr \<Rightarrow> json kv \<Rightarrow> routine_error + string option" where
  "findEntry dp entryId [] = Inr None"
| "findEntry dp entryId ((key, v) # rest) =
     rbind (decodeRoutineRunEntryV1 dp v) (\<lambda>e.
       if re_entryId e = entryId then Inr (Some key) else findEntry dp entryId rest)"

definition appendRoutineRunEntryV1 ::
  "routine_env \<Rightarrow> routine_entry \<Rightarrow> routine_store \<Rightarrow> routine_error + routine_store" where
  "appendRoutineRunEntryV1 env entry d =
     rbind (decodeRoutineRunEntryV1 (rv_parse env) (routineEntryJson entry)) (\<lambda>decoded.
       let existing = listPrefix (routineRunPrefixV1 (re_routineId decoded)) (rs_runs d) in
       rbind (findEntry (rv_parse env) (re_entryId decoded) existing) (\<lambda>seen.
         case seen of
           Some key \<Rightarrow> Inr (d\<lparr>rs_runs := kv_put key (routineEntryJson decoded) (rs_runs d)\<rparr>)
         | None \<Rightarrow>
             rbind (routineRunKeyV1 (re_routineId decoded) (nextRunSequenceV1 (map fst existing))) (\<lambda>key.
               Inr (d\<lparr>rs_runs :=
                 fold kv_delete (drop (ROUTINE_RUN_LOG_LIMIT - 1) (sort (map fst existing)))
                   (kv_put key (routineEntryJson decoded) (rs_runs d))\<rparr>))))"

section \<open>The clock\<close>

definition storedRoutineClockV1 :: "routine_env \<Rightarrow> json option \<Rightarrow> jstr \<Rightarrow> schedule_state option" where
  "storedRoutineClockV1 env persisted timezone =
     (case persisted of
        None \<Rightarrow> None
      | Some v \<Rightarrow>
          (case decodeRoutineScheduleStateV1 (rv_parse env)
                  (case v of
                     JObj members \<Rightarrow>
                       if jget v ''timezone'' = None then JObj (members @ [(''timezone'', JStr timezone)]) else v
                   | _ \<Rightarrow> v) of
             Inl e \<Rightarrow> None | Inr s \<Rightarrow> Some s))"

definition scheduleTimezone :: "normalized_schedule \<Rightarrow> jstr" where
  "scheduleTimezone n = (case n of Cron_Schedule pattern zone \<Rightarrow> zone | Interval_Schedule ms zone \<Rightarrow> zone)"

definition rebuiltClock ::
  "routine_env \<Rightarrow> routine_record \<Rightarrow> schedule_state option \<Rightarrow> normalized_schedule \<Rightarrow> int \<Rightarrow> schedule_state" where
  "rebuiltClock env record stored normalized now =
     (let anchor = timeOf env (rr_updatedAt record);
          rezoned = (case stored of None \<Rightarrow> False | Some s \<Rightarrow> ss_anchor s = rr_updatedAt record);
          since = (if rezoned \<and> now > anchor then now else anchor);
          due = (case nextRoutineRunV1 (rv_calendar env) normalized since anchor of None \<Rightarrow> since | Some t \<Rightarrow> t)
      in \<lparr>ss_routineId = rr_id record, ss_anchor = rr_updatedAt record,
          ss_timezone = scheduleTimezone normalized, ss_dueAt = due,
          ss_deferredUntil = (if rezoned then Option.bind stored ss_deferredUntil else None),
          ss_failures = (if rezoned then Option.bind stored ss_failures else None)\<rparr>)"

definition routineScheduleStateV1 ::
  "routine_env \<Rightarrow> routine_record \<Rightarrow> schedule_state option \<Rightarrow> normalized_schedule \<Rightarrow> int \<Rightarrow> schedule_state" where
  "routineScheduleStateV1 env record stored normalized now =
     (case stored of
        None \<Rightarrow> rebuiltClock env record stored normalized now
      | Some s \<Rightarrow>
          if ss_anchor s = rr_updatedAt record \<and> ss_timezone s = scheduleTimezone normalized then s
          else rebuiltClock env record stored normalized now)"

definition routineDeadlineV1 :: "schedule_state \<Rightarrow> int" where
  "routineDeadlineV1 s =
     (case ss_deferredUntil s of None \<Rightarrow> ss_dueAt s | Some h \<Rightarrow> max (ss_dueAt s) h)"

text \<open>One record of the listing \<open>#clocks\<close> walks: the Routine and its clock, when it is enabled, scheduled
  and readable.\<close>

definition clockOf ::
  "routine_env \<Rightarrow> jstr \<Rightarrow> int \<Rightarrow> json \<Rightarrow> routine_store \<Rightarrow>
   (routine_record \<times> schedule_state option \<times> schedule_state) option" where
  "clockOf env timezone now value d =
     (case decodeRoutineRecordV1 (rv_parse env) value of
        Inl e \<Rightarrow> None
      | Inr record \<Rightarrow>
          (case rr_schedule record of
             None \<Rightarrow> None
           | Some schedule \<Rightarrow>
               if \<not> rr_enabled record then None
               else (case normalizeRoutineScheduleV1 (rv_calendar env) schedule timezone of
                       Inl e \<Rightarrow> None
                     | Inr normalized \<Rightarrow>
                         let persisted = storedRoutineClockV1 env
                               (kv_get (rs_schedules d) (routineScheduleKeyV1 (rr_id record))) timezone
                         in Some (record, persisted, routineScheduleStateV1 env record persisted normalized now))))"

fun clocksFrom ::
  "routine_env \<Rightarrow> jstr \<Rightarrow> int \<Rightarrow> json kv \<Rightarrow> routine_store \<Rightarrow>
   (routine_record \<times> schedule_state) list \<times> routine_store" where
  "clocksFrom env timezone now [] d = ([], d)"
| "clocksFrom env timezone now ((key, value) # rest) d =
     (case clockOf env timezone now value d of
        None \<Rightarrow> clocksFrom env timezone now rest d
      | Some (record, persisted, state) \<Rightarrow>
          let d' = (if persisted \<noteq> None \<and> persisted \<noteq> Some state then putClock (rr_id record) state d else d)
          in case clocksFrom env timezone now rest d' of (clocks, d'') \<Rightarrow> ((record, state) # clocks, d''))"

definition clocks ::
  "routine_env \<Rightarrow> jstr \<Rightarrow> int \<Rightarrow> routine_store \<Rightarrow> (routine_record \<times> schedule_state) list \<times> routine_store" where
  "clocks env timezone now d = clocksFrom env timezone now (take ROUTINE_LIMIT_PER_BOT (rs_routines d)) d"

text \<open>The part of a queue key before its last colon.\<close>

definition queueOwner :: "string \<Rightarrow> string option" where
  "queueOwner key =
     (case dropWhile (\<lambda>c. c \<noteq> CHR '':'') (rev (drop (length ROUTINE_QUEUE_PREFIX) key)) of
        [] \<Rightarrow> None
      | colon # owner \<Rightarrow> if owner = [] then None else Some (rev owner))"

definition queuedRoutineIds :: "routine_store \<Rightarrow> string list" where
  "queuedRoutineIds d =
     rev (remdups (rev (List.map_filter (\<lambda>(key, v). queueOwner key) (rs_queue d))))"

section \<open>Deadlines and deferral\<close>

datatype outcome_status = Fire_Ok | Fire_Failed | Fire_Cancelled | Fire_Skipped

record fire_outcome =
  fo_status :: outcome_status
  fo_summary :: "jstr option"

datatype firing_run = No_Run | Run_Working | Run_Settled fire_outcome

text \<open>What a run came to, as the firing that admitted it records it (routines/bot.ts): a run that is working
  owes its outcome, and a firing without a run has nothing but its lease.\<close>

definition RUN_STATUS_NAMES :: "(run_status \<times> string) list" where
  "RUN_STATUS_NAMES = [(Run_Running, ''running''), (Run_Completed, ''completed''), (Run_Failed, ''failed''),
     (Run_Cancelled, ''cancelled'')]"

definition routineFireOutcomeV1 :: "stored_run option \<Rightarrow> jstr option \<Rightarrow> fire_outcome" where
  "routineFireOutcomeV1 run thrown =
     (case (thrown, run) of
        (Some said, _) \<Rightarrow> \<lparr>fo_status = Fire_Failed, fo_summary = Some said\<rparr>
      | (None, None) \<Rightarrow>
          \<lparr>fo_status = Fire_Failed, fo_summary = Some (js ''the firing recorded no run'')\<rparr>
      | (None, Some r) \<Rightarrow>
          if r_status r = Run_Cancelled then \<lparr>fo_status = Fire_Cancelled, fo_summary = r_failure r\<rparr>
          else if r_status r = Run_Completed
          then \<lparr>fo_status = Fire_Ok, fo_summary =
                 (case r_responseText r of
                    None \<Rightarrow> None | Some said \<Rightarrow> if trim said = [] then None else Some said)\<rparr>
          else \<lparr>fo_status = Fire_Failed, fo_summary =
                 Some (case r_failure r of
                         Some said \<Rightarrow> said
                       | None \<Rightarrow> js (''the firing'' @ [CHR 0x27] @ ''s run is '' @
                                   (case map_of RUN_STATUS_NAMES (r_status r) of None \<Rightarrow> [] | Some n \<Rightarrow> n)))\<rparr>)"

definition routineFiringRunV1 :: "stored_run kv \<Rightarrow> routine_fire \<Rightarrow> firing_run" where
  "routineFiringRunV1 runs fire =
     (case kv_get runs (RUN_PREFIX @ unjs (rf_fireId fire)) of
        None \<Rightarrow> No_Run
      | Some run \<Rightarrow>
          if r_status run = Run_Running then Run_Working
          else Run_Settled (routineFireOutcomeV1 (Some run) None))"

definition routineSessionIdV1 :: "string \<Rightarrow> string" where
  "routineSessionIdV1 routineId = ''routine:'' @ routineId"

text \<open>The Turn command of a firing; the owner's ids are not part of \<open>turn_command\<close>.\<close>

definition routineTurnCommandV1 :: "routine_fire \<Rightarrow> string \<Rightarrow> turn_command" where
  "routineTurnCommandV1 fire acceptedAt =
     \<lparr>cmd_runId = unjs (rf_fireId fire), cmd_retryOf = None, cmd_sessionId = routineSessionIdV1 (rf_routineId fire),
      cmd_acceptedAt = acceptedAt, cmd_text = rf_cue fire, cmd_attachments = [], cmd_turnType = Some Automation,
      cmd_subagentRole = None,
      cmd_origin = Some (Routine_Origin (js (rf_routineId fire)) (rf_fireId fire) (rf_trigger fire) (rf_promptBy fire)),
      cmd_skills = [], cmd_lane = None\<rparr>"

definition routineFireLeaseExpiryV1 :: "routine_env \<Rightarrow> routine_fire \<Rightarrow> int" where
  "routineFireLeaseExpiryV1 env fire = timeOf env (rf_mintedAt fire) + ROUTINE_FIRE_LEASE_MS"

definition leaseExpiry :: "routine_env \<Rightarrow> json \<Rightarrow> int" where
  "leaseExpiry env stored =
     (case decodeRoutineFireV1 (rv_parse env) stored of
        Inl e \<Rightarrow> 0 | Inr fire \<Rightarrow> routineFireLeaseExpiryV1 env fire)"

definition settledRun :: "routine_env \<Rightarrow> (routine_fire \<Rightarrow> firing_run) \<Rightarrow> json \<Rightarrow> fire_outcome option" where
  "settledRun env firingRun stored =
     (case decodeRoutineFireV1 (rv_parse env) stored of
        Inl e \<Rightarrow> None
      | Inr fire \<Rightarrow> (case firingRun fire of Run_Settled outcome \<Rightarrow> Some outcome | _ \<Rightarrow> None))"

definition clockDeadline ::
  "routine_env \<Rightarrow> (routine_fire \<Rightarrow> firing_run) \<Rightarrow> int \<Rightarrow> routine_store \<Rightarrow> routine_record \<times> schedule_state \<Rightarrow> int" where
  "clockDeadline env firingRun now d clock =
     (case lockOf d (rr_id (fst clock)) of
        Some locked \<Rightarrow>
          if settledRun env firingRun locked \<noteq> None then now
          else max (leaseExpiry env locked) (case ss_deferredUntil (snd clock) of None \<Rightarrow> 0 | Some h \<Rightarrow> h)
      | None \<Rightarrow> routineDeadlineV1 (snd clock))"

definition deadlines ::
  "routine_env \<Rightarrow> (routine_fire \<Rightarrow> firing_run) \<Rightarrow> jstr \<Rightarrow> int \<Rightarrow> routine_store \<Rightarrow> int list \<times> routine_store" where
  "deadlines env firingRun timezone now d =
     (case clocks env timezone now d of
        (cs, d') \<Rightarrow>
          (map (clockDeadline env firingRun now d') cs @
           map (\<lambda>routineId. now) (filter (\<lambda>routineId. lockOf d' routineId = None) (queuedRoutineIds d')), d'))"

definition defer_routines :: "routine_env \<Rightarrow> jstr \<Rightarrow> int \<Rightarrow> routine_store \<Rightarrow> routine_store" where
  "defer_routines env timezone now d =
     (case clocks env timezone now d of
        (cs, d') \<Rightarrow>
          fold (\<lambda>(record, state). putClock (rr_id record)
                 (state\<lparr>ss_deferredUntil := Some (now + ROUTINE_DEFERRAL_MS)\<rparr>)) cs d')"

section \<open>The queue of a Routine\<close>

record queued_firing =
  qf_trigger :: jstr
  qf_discriminator :: jstr
  qf_requestedAt :: jstr
  qf_delivery :: "jstr option"

definition queued :: "json \<Rightarrow> queued_firing option" where
  "queued v =
     (case (textField v ''trigger'', textField v ''discriminator'', textField v ''requestedAt'') of
        (Some trigger, Some discriminator, Some requestedAt) \<Rightarrow>
          if jget v ''schemaVersion'' = Some (JNum ''1'')
          then Some \<lparr>qf_trigger = trigger, qf_discriminator = discriminator, qf_requestedAt = requestedAt,
                 qf_delivery = textField v ''delivery''\<rparr>
          else None
      | _ \<Rightarrow> None)"

definition queuedJson :: "queued_firing \<Rightarrow> json" where
  "queuedJson q = JObj
     ([oneJson, (''trigger'', JStr (qf_trigger q)), (''discriminator'', JStr (qf_discriminator q)),
       (''requestedAt'', JStr (qf_requestedAt q))]
      @ optField ''delivery'' (map_option JStr (qf_delivery q)))"

definition waitingFor :: "string \<Rightarrow> routine_store \<Rightarrow> json kv" where
  "waitingFor routineId d = listPrefix (routineQueuePrefixV1 routineId) (rs_queue d)"

definition enqueueWithin ::
  "routine_env \<Rightarrow> int \<Rightarrow> string \<Rightarrow> run_trigger \<Rightarrow> jstr \<Rightarrow> jstr option \<Rightarrow> routine_store \<Rightarrow>
   routine_error + (jstr \<times> bool) \<times> routine_store" where
  "enqueueWithin env now routineId trigger discriminator delivery d =
     (let fireId = routineFireIdV1 routineId discriminator; waiting = waitingFor routineId d in
      rbind (case lockOf d routineId of
               None \<Rightarrow> Inr False
             | Some v \<Rightarrow> rbind (decodeRoutineFireV1 (rv_parse env) v) (\<lambda>f. Inr (rf_fireId f = fireId))) (\<lambda>same.
      if same then Inr ((fireId, False), d)
      else if \<exists>(key, v) \<in> set waiting. map_option qf_discriminator (queued v) = Some discriminator
      then Inr ((fireId, False), d)
      else if length waiting \<ge> ROUTINE_QUEUE_LIMIT then Inl Queue_Full
      else rbind (routineQueueKeyV1 routineId (nextQueueSequenceV1 (map fst waiting))) (\<lambda>key.
        Inr ((fireId, True), d\<lparr>rs_queue := kv_put key
          (queuedJson \<lparr>qf_trigger = js (triggerName trigger), qf_discriminator = discriminator,
             qf_requestedAt = rv_iso env now, qf_delivery = delivery\<rparr>) (rs_queue d)\<rparr>))))"

section \<open>Claiming a firing\<close>

definition writeClaim ::
  "routine_env \<Rightarrow> routine_record \<Rightarrow> routine_fire \<Rightarrow> int \<Rightarrow> routine_store \<Rightarrow> routine_error + routine_store" where
  "writeClaim env record fire now d =
     rbind (appendRoutineRunEntryV1 env
              \<lparr>re_entryId = rf_entryId fire, re_routineId = rr_id record, re_runId = rf_fireId fire,
               re_fireId = rf_fireId fire, re_trigger = rf_trigger fire, re_status = Status_Running,
               re_startedAt = rv_iso env now, re_finishedAt = None, re_summary = None\<rparr>
              (d\<lparr>rs_fires := kv_put (routineFireKeyV1 (rr_id record)) (fireJson fire) (rs_fires d)\<rparr>))
       (\<lambda>d'. Inr (putRoutine (rr_id record) (record\<lparr>rr_lastRunAt := Some (rv_iso env now)\<rparr>) d'))"

definition claimQueued ::
  "routine_env \<Rightarrow> string \<Rightarrow> int \<Rightarrow> routine_store \<Rightarrow> routine_error + routine_fire option \<times> routine_store" where
  "claimQueued env routineId now d =
     (case waitingFor routineId d of
        [] \<Rightarrow> Inr (None, d)
      | (key, value) # waiting \<Rightarrow>
          let d1 = d\<lparr>rs_queue := kv_delete key (rs_queue d)\<rparr> in
          (case (queued value, readRoutine env d1 routineId) of
             (Some request, Some record) \<Rightarrow>
               rbind (need Trigger_Invalid (named ROUTINE_TRIGGER_KINDS (Some (JStr (qf_trigger request)))))
                 (\<lambda>trigger.
               let fireId = routineFireIdV1 routineId (qf_discriminator request);
                   fire = \<lparr>rf_routineId = routineId, rf_fireId = fireId, rf_trigger = trigger,
                     rf_cue = routineCueV1 (rr_name record) (rr_prompt record) trigger None (qf_delivery request),
                     rf_mintedAt = rv_iso env now, rf_dueAt = None, rf_missed = None,
                     rf_entryId = fireId @ js ''-entry'', rf_promptBy = Some (routinePromptByV1 record)\<rparr>
               in rbind (writeClaim env record fire now d1) (\<lambda>d2. Inr (Some fire, d2)))
           | _ \<Rightarrow> Inr (None, d1)))"

definition entrySuffix :: "jstr \<Rightarrow> string \<Rightarrow> jstr" where
  "entrySuffix fireId ending = fireId @ js ending"

definition unreachableSummary :: "jstr \<Rightarrow> jstr \<Rightarrow> jstr" where
  "unreachableSummary schedule timezone =
     js ''The schedule '' @ [0x22] @ schedule @ [0x22] @ js '' never comes around again in '' @ timezone @
     js '', so this Routine has been turned off. Give it a schedule that does and turn it back on.''"

definition missedSummary :: "nat \<Rightarrow> jstr" where
  "missedSummary missed = js (decimal (missed - 1)) @
     js '' scheduled occurrences elapsed while the Routine was not fired; this firing covers them.''"

definition skippedEntry ::
  "string \<Rightarrow> jstr \<Rightarrow> jstr \<Rightarrow> run_trigger \<Rightarrow> jstr \<Rightarrow> jstr \<Rightarrow> jstr \<Rightarrow> routine_entry" where
  "skippedEntry routineId entryId fireId trigger startedAt finishedAt summary =
     \<lparr>re_entryId = entryId, re_routineId = routineId, re_runId = fireId, re_fireId = fireId,
      re_trigger = trigger, re_status = Status_Skipped, re_startedAt = startedAt,
      re_finishedAt = Some finishedAt, re_summary = Some summary\<rparr>"

definition scheduledFire ::
  "routine_env \<Rightarrow> routine_record \<Rightarrow> schedule_state \<Rightarrow> nat \<Rightarrow> int \<Rightarrow> routine_fire" where
  "scheduledFire env record state missed now =
     (let fireId = routineFireIdV1 (rr_id record) (js (integerText (ss_dueAt state)));
          more = (if missed > 1 then Some missed else None)
      in \<lparr>rf_routineId = rr_id record, rf_fireId = fireId, rf_trigger = Cron,
          rf_cue = routineCueV1 (rr_name record) (rr_prompt record) Cron more None,
          rf_mintedAt = rv_iso env now, rf_dueAt = Some (ss_dueAt state), rf_missed = more,
          rf_entryId = fireId @ js ''-entry'', rf_promptBy = Some (routinePromptByV1 record)\<rparr>)"

text \<open>A schedule with no occurrence left turns its Routine off, with an entry that says why.\<close>

definition turnOff ::
  "routine_env \<Rightarrow> routine_record \<Rightarrow> jstr \<Rightarrow> schedule_state \<Rightarrow> int \<Rightarrow> jstr \<Rightarrow> routine_store \<Rightarrow>
   routine_error + routine_fire option \<times> routine_store" where
  "turnOff env record schedule state now timezone d =
     (let fireId = routineFireIdV1 (rr_id record) (js (integerText (ss_dueAt state)));
          at = rv_iso env now
      in rbind (appendRoutineRunEntryV1 env
                  (skippedEntry (rr_id record) (entrySuffix fireId ''-unreachable'') fireId Cron at at
                     (unreachableSummary schedule timezone))
                  (dropClock (rr_id record) (putRoutine (rr_id record) (record\<lparr>rr_enabled := False, rr_updatedAt := at\<rparr>) d)))
           (\<lambda>d'. Inr (None, d')))"

definition advancedClock :: "routine_record \<Rightarrow> jstr \<Rightarrow> schedule_state \<Rightarrow> int \<Rightarrow> schedule_state" where
  "advancedClock record timezone state due =
     \<lparr>ss_routineId = rr_id record, ss_anchor = rr_updatedAt record, ss_timezone = timezone, ss_dueAt = due,
      ss_deferredUntil = None, ss_failures = ss_failures state\<rparr>"

definition claimScheduled ::
  "routine_env \<Rightarrow> routine_record \<Rightarrow> schedule_state \<Rightarrow> int \<Rightarrow> jstr \<Rightarrow> routine_store \<Rightarrow>
   routine_error + routine_fire option \<times> routine_store" where
  "claimScheduled env record state now timezone d =
     (case rr_schedule record of
        None \<Rightarrow> Inl (Schedule_Refused Schedule_Empty)
      | Some schedule \<Rightarrow>
     rbind (mapError Schedule_Refused (normalizeRoutineScheduleV1 (rv_calendar env) schedule timezone)) (\<lambda>normalized.
     let anchor = timeOf env (rr_updatedAt record);
         missed = missedRoutineRunsV1 (rv_calendar env) normalized (ss_dueAt state) now anchor;
         fire = scheduledFire env record state missed now;
         since = (if missed > 1 then now else ss_dueAt state)
     in case nextRoutineRunV1 (rv_calendar env) normalized since anchor of
          None \<Rightarrow> turnOff env record schedule state now timezone d
        | Some due \<Rightarrow>
            let d1 = putClock (rr_id record) (advancedClock record timezone state due) d in
            rbind (if missed > 1
                   then appendRoutineRunEntryV1 env
                          (skippedEntry (rr_id record) (entrySuffix (rf_entryId fire) ''-missed'') (rf_fireId fire)
                             Cron (rv_iso env (ss_dueAt state)) (rv_iso env now) (missedSummary missed)) d1
                   else Inr d1) (\<lambda>d2.
            rbind (writeClaim env record fire now d2) (\<lambda>d3. Inr (Some fire, d3)))))"

fun claimFromQueues ::
  "routine_env \<Rightarrow> int \<Rightarrow> string list \<Rightarrow> routine_store \<Rightarrow> routine_error + routine_fire option \<times> routine_store" where
  "claimFromQueues env now [] d = Inr (None, d)"
| "claimFromQueues env now (routineId # rest) d =
     (if lockOf d routineId \<noteq> None then claimFromQueues env now rest d
      else rbind (claimQueued env routineId now d) (\<lambda>(claimed, d').
        if claimed \<noteq> None then Inr (claimed, d') else claimFromQueues env now rest d'))"

fun claimFromClocks ::
  "routine_env \<Rightarrow> int \<Rightarrow> jstr \<Rightarrow> (routine_record \<times> schedule_state) list \<Rightarrow> routine_store \<Rightarrow>
   routine_error + routine_fire option \<times> routine_store" where
  "claimFromClocks env now timezone [] d = Inr (None, d)"
| "claimFromClocks env now timezone ((record, state) # rest) d =
     (if lockOf d (rr_id record) \<noteq> None then claimFromClocks env now timezone rest d
      else if routineDeadlineV1 state > now then claimFromClocks env now timezone rest d
      else claimScheduled env record state now timezone d)"

definition claim ::
  "routine_env \<Rightarrow> jstr \<Rightarrow> int \<Rightarrow> routine_store \<Rightarrow> routine_error + routine_fire option \<times> routine_store" where
  "claim env timezone now d =
     rbind (claimFromQueues env now (queuedRoutineIds d) d) (\<lambda>(claimed, d').
       if claimed \<noteq> None then Inr (claimed, d')
       else case clocks env timezone now d' of (cs, d'') \<Rightarrow> claimFromClocks env now timezone cs d'')"

section \<open>Settling a firing\<close>

text \<open>The sentence a person reads: the summary, unless it has the shape of an internal message. \<open>\b\<close> is a
  boundary between word units and others.\<close>

definition letterUnit :: "16 word \<Rightarrow> bool" where
  "letterUnit u \<longleftrightarrow> 0x61 \<le> u \<and> u \<le> 0x7A \<or> 0x41 \<le> u \<and> u \<le> 0x5A"

definition wordUnit :: "16 word \<Rightarrow> bool" where
  "wordUnit u \<longleftrightarrow> letterUnit u \<or> digitUnit u \<or> u = 0x5F"

definition wordAt :: "jstr \<Rightarrow> bool" where
  "wordAt s \<longleftrightarrow> s \<noteq> [] \<and> wordUnit (hd s)"

fun anywhere :: "(bool \<Rightarrow> jstr \<Rightarrow> bool) \<Rightarrow> bool \<Rightarrow> jstr \<Rightarrow> bool" where
  "anywhere p before [] = p before []"
| "anywhere p before (c # s) = (p before (c # s) \<or> anywhere p (wordUnit c) s)"

definition asciiLower :: "16 word \<Rightarrow> 16 word" where
  "asciiLower u = (if 0x41 \<le> u \<and> u \<le> 0x5A then u + 0x20 else u)"

text \<open>\<open>\bword\b\<close>, without regard to case when \<open>fold_case\<close> is set.\<close>

definition wholeWord :: "bool \<Rightarrow> string \<Rightarrow> bool \<Rightarrow> jstr \<Rightarrow> bool" where
  "wholeWord fold_case w before s \<longleftrightarrow>
     \<not> before \<and> (let t = take (length w) s in (if fold_case then map asciiLower t else t) = js w) \<and>
     \<not> wordAt (drop (length w) s)"

text \<open>\<open>\b[a-z-]+:\d+:\d+:\d+\b\<close>: after the boundary a run of letters and dashes, then three runs of digits.\<close>

fun colonNumbers :: "nat \<Rightarrow> jstr \<Rightarrow> bool" where
  "colonNumbers 0 s = (\<not> wordAt s)"
| "colonNumbers (Suc n) s =
     (s \<noteq> [] \<and> hd s = 0x3A \<and> takeWhile digitUnit (tl s) \<noteq> [] \<and> colonNumbers n (dropWhile digitUnit (tl s)))"

definition coordinateAt :: "bool \<Rightarrow> jstr \<Rightarrow> bool" where
  "coordinateAt before s \<longleftrightarrow>
     (let name = takeWhile (\<lambda>u. letterUnit u \<or> u = 0x2D) s in
      name \<noteq> [] \<and> before \<noteq> wordAt s \<and> colonNumbers 3 (drop (length name) s))"

text \<open>\<open>\bat [\w$.]+ \(\<close>.\<close>

definition frameAt :: "bool \<Rightarrow> jstr \<Rightarrow> bool" where
  "frameAt before s \<longleftrightarrow>
     \<not> before \<and> take 3 s = js ''at '' \<and>
     (let rest = drop 3 s; name = takeWhile (\<lambda>u. wordUnit u \<or> u = 0x24 \<or> u = 0x2E) rest in
      name \<noteq> [] \<and> take 2 (drop (length name) rest) = js '' ('')"

definition internalFailure :: "jstr \<Rightarrow> bool" where
  "internalFailure s \<longleftrightarrow>
     anywhere (wholeWord True ''tool occurrence'') False s \<or> anywhere coordinateAt False s \<or>
     anywhere frameAt False s \<or> anywhere (wholeWord False ''schemaVersion'') False s \<or>
     anywhere (wholeWord True ''outcome model-error'') False s \<or>
     anywhere (wholeWord True ''invariant'') False s"

definition routineFailureSentenceV1 :: "jstr option \<Rightarrow> jstr \<Rightarrow> jstr" where
  "routineFailureSentenceV1 summary productName =
     (let s = (case summary of None \<Rightarrow> [] | Some t \<Rightarrow> trim t) in
      if s = [] then js ''It stopped without saying why.''
      else if internalFailure s
      then js ''Something inside '' @ productName @ js '' went wrong; the run log has the details.''
      else s)"

definition routineAttributionV1 :: "jstr \<Rightarrow> jstr" where
  "routineAttributionV1 name = slice0 (js ''Automation: '' @ name) ROUTINE_NAME_ATTRIBUTION_MAX"

definition clampText :: "jstr \<Rightarrow> nat \<Rightarrow> jstr" where
  "clampText s maximum = (if length (trim s) > maximum then slice0 (trim s) maximum else trim s)"

text \<open>\<open>routineTerminalRecordsV1\<close> of a firing that did not work, and the two records it contributes.\<close>

definition failureRecords ::
  "routine_env \<Rightarrow> jstr \<Rightarrow> string \<Rightarrow> jstr \<Rightarrow> jstr \<Rightarrow> jstr \<Rightarrow> routine_store \<Rightarrow> routine_error + routine_store" where
  "failureRecords env runId routineId routineName said now d =
     (let line = clampText said ROUTINE_INBOX_TEXT_MAX; next_seq = routineSequenceCursorV1 (rs_inboxCursor d) in
      if line = [] then Inr d
      else rbind (routineInboxKeyV1 next_seq) (\<lambda>key.
        Inr (d\<lparr>rs_inbox := kv_put key (inboxJson \<lparr>ie_entryId = js ''ri-'' @ runId, ie_runId = runId,
                 ie_routineId = routineId, ie_text = line, ie_attribution = routineAttributionV1 routineName,
                 ie_createdAt = now, ie_acknowledged = False, ie_wakeId = None, ie_acknowledgedAt = None,
                 ie_source = None, ie_repeat = None, ie_failure = True\<rparr>) (rs_inbox d),
               rs_inboxCursor := Some (JObj [oneJson, (''nextSeq'', numberJson (int next_seq + 1))])\<rparr>)))"

definition collapsibleFailure ::
  "routine_env \<Rightarrow> string \<Rightarrow> jstr \<Rightarrow> routine_store \<Rightarrow> (string \<times> inbox_entry) option" where
  "collapsibleFailure env routineId said d =
     (case rs_inbox d of
        [] \<Rightarrow> None
      | (key, stored) # rest \<Rightarrow>
          (case decodeRoutineInboxEntryV1 (rv_parse env) stored of
             Inl e \<Rightarrow> None
           | Inr entry \<Rightarrow>
               if \<not> ie_acknowledged entry \<and> ie_routineId entry = routineId \<and> ie_wakeId entry = None \<and>
                  ie_text entry = said
               then Some (key, entry) else None))"

definition routineName :: "routine_env \<Rightarrow> routine_store \<Rightarrow> string \<Rightarrow> jstr" where
  "routineName env d routineId =
     (case readRoutine env d routineId of None \<Rightarrow> js routineId | Some r \<Rightarrow> rr_name r)"

definition failureText :: "jstr \<Rightarrow> fire_outcome \<Rightarrow> jstr \<Rightarrow> jstr" where
  "failureText name outcome productName =
     [0x22] @ name @ [0x22] @ js '' '' @
     js (if fo_status outcome = Fire_Cancelled then ''was stopped'' else ''did not run'') @ js '': '' @
     routineFailureSentenceV1 (fo_summary outcome) productName"

definition recordFailureInbox ::
  "routine_env \<Rightarrow> routine_fire \<Rightarrow> fire_outcome \<Rightarrow> jstr \<Rightarrow> routine_store \<Rightarrow> routine_error + routine_store" where
  "recordFailureInbox env fire outcome now d =
     (let name = routineName env d (rf_routineId fire);
          said = failureText name outcome (rv_product env)
      in case collapsibleFailure env (rf_routineId fire) said d of
           Some (key, entry) \<Rightarrow>
             Inr (d\<lparr>rs_inbox := kv_put key (inboxJson (entry\<lparr>ie_runId := rf_fireId fire, ie_createdAt := now,
                    ie_repeat := Some ((case ie_repeat entry of None \<Rightarrow> 1 | Some n \<Rightarrow> n) + 1)\<rparr>)) (rs_inbox d)\<rparr>)
         | None \<Rightarrow> failureRecords env (rf_fireId fire) (rf_routineId fire) name said now d)"

definition backoffAfter :: "nat \<Rightarrow> int" where
  "backoffAfter failures =
     ROUTINE_FAILURE_BACKOFF_MS ! (min failures (length ROUTINE_FAILURE_BACKOFF_MS) - 1)"

definition pausedSummary :: "nat \<Rightarrow> jstr" where
  "pausedSummary failures = js ''This Routine failed '' @ js (decimal failures) @
     js '' times in a row and has been turned off. Turn it back on once the cause is fixed.''"

definition pauseRoutine ::
  "routine_env \<Rightarrow> routine_fire \<Rightarrow> nat \<Rightarrow> int \<Rightarrow> routine_store \<Rightarrow> routine_error + routine_store" where
  "pauseRoutine env fire failures now d =
     (case readRoutine env d (rf_routineId fire) of
        None \<Rightarrow> Inr d
      | Some record \<Rightarrow>
          if \<not> rr_enabled record then Inr d
          else appendRoutineRunEntryV1 env
                 (skippedEntry (rf_routineId fire) (entrySuffix (rf_entryId fire) ''-paused'') (rf_fireId fire)
                    (rf_trigger fire) (rv_iso env now) (rv_iso env now) (pausedSummary failures))
                 (putRoutine (rf_routineId fire)
                    (record\<lparr>rr_enabled := False, rr_updatedAt := rv_iso env now\<rparr>) d))"

definition recordOutcomeOnClock ::
  "routine_env \<Rightarrow> routine_fire \<Rightarrow> fire_outcome \<Rightarrow> int \<Rightarrow> routine_store \<Rightarrow> routine_error + routine_store" where
  "recordOutcomeOnClock env fire outcome now d =
     (case kv_get (rs_schedules d) (routineScheduleKeyV1 (rf_routineId fire)) of
        None \<Rightarrow> Inr d
      | Some stored \<Rightarrow>
          (case decodeRoutineScheduleStateV1 (rv_parse env) stored of
             Inl e \<Rightarrow> Inr d
           | Inr state \<Rightarrow>
               if fo_status outcome = Fire_Ok \<or> fo_status outcome = Fire_Skipped
               then Inr (if ss_failures state = None then d
                         else putClock (rf_routineId fire) (state\<lparr>ss_failures := None\<rparr>) d)
               else let failures = (case ss_failures state of None \<Rightarrow> 0 | Some n \<Rightarrow> n) + 1 in
                 rbind (if failures \<ge> ROUTINE_FAILURE_PAUSE_AFTER
                        then pauseRoutine env fire failures now d else Inr d) (\<lambda>d'.
                 Inr (putClock (rf_routineId fire)
                   (state\<lparr>ss_failures := Some failures,
                      ss_deferredUntil := Some (max (case ss_deferredUntil state of None \<Rightarrow> 0 | Some h \<Rightarrow> h)
                        (now + backoffAfter failures))\<rparr>) d'))))"

definition settledStatus :: "outcome_status \<Rightarrow> routine_status" where
  "settledStatus s = (case s of Fire_Ok \<Rightarrow> Status_Ok | Fire_Failed \<Rightarrow> Status_Failed
     | Fire_Cancelled \<Rightarrow> Status_Cancelled | Fire_Skipped \<Rightarrow> Status_Skipped)"

definition settledEntry :: "routine_fire \<Rightarrow> fire_outcome \<Rightarrow> jstr \<Rightarrow> routine_entry" where
  "settledEntry fire outcome finishedAt =
     \<lparr>re_entryId = rf_entryId fire, re_routineId = rf_routineId fire, re_runId = rf_fireId fire,
      re_fireId = rf_fireId fire, re_trigger = rf_trigger fire, re_status = settledStatus (fo_status outcome),
      re_startedAt = rf_mintedAt fire, re_finishedAt = Some finishedAt,
      re_summary = map_option (\<lambda>s. slice0 s 2000) (fo_summary outcome)\<rparr>"

text \<open>Nothing outlives the record it belongs to.\<close>

definition sweepOrphans :: "string \<Rightarrow> routine_store \<Rightarrow> routine_store" where
  "sweepOrphans routineId d =
     dropClock routineId (d\<lparr>rs_runs :=
       fold kv_delete (map fst (listPrefix (routineRunPrefixV1 routineId) (rs_runs d))) (rs_runs d)\<rparr>)"

definition settleFiring ::
  "routine_env \<Rightarrow> routine_fire \<Rightarrow> fire_outcome \<Rightarrow> int \<Rightarrow> routine_store \<Rightarrow> routine_error + routine_store" where
  "settleFiring env fire outcome now d =
     (let routineId = rf_routineId fire;
          d1 = d\<lparr>rs_fires := kv_delete (routineFireKeyV1 routineId) (rs_fires d)\<rparr>
      in if kv_get (rs_routines d1) (routineKeyV1 routineId) = None then Inr (sweepOrphans routineId d1)
         else rbind (recordOutcomeOnClock env fire outcome now d1) (\<lambda>d2.
              rbind (if fo_status outcome \<noteq> Fire_Ok \<and> fo_status outcome \<noteq> Fire_Skipped
                     then recordFailureInbox env fire outcome (rv_iso env now) d2 else Inr d2) (\<lambda>d3.
              appendRoutineRunEntryV1 env (settledEntry fire outcome (rv_iso env now)) d3)))"

definition abandonedOutcome :: fire_outcome where
  "abandonedOutcome = \<lparr>fo_status = Fire_Failed, fo_summary =
     Some (js ''The Routine stopped without reporting an outcome and its firing was settled as failed.'')\<rparr>"

text \<open>Each firing of the listing is settled in a transaction of its own, so what is done before one
  throws stays done.\<close>

fun reapFrom ::
  "routine_env \<Rightarrow> (routine_fire \<Rightarrow> firing_run) \<Rightarrow> int \<Rightarrow> json kv \<Rightarrow> routine_store \<Rightarrow>
   routine_error option \<times> routine_store" where
  "reapFrom env firingRun now [] d = (None, d)"
| "reapFrom env firingRun now ((key, value) # rest) d =
     (case decodeRoutineFireV1 (rv_parse env) value of
        Inl e \<Rightarrow> reapFrom env firingRun now rest (d\<lparr>rs_fires := kv_delete key (rs_fires d)\<rparr>)
      | Inr fire \<Rightarrow>
          (case firingRun fire of
             Run_Working \<Rightarrow> reapFrom env firingRun now rest d
           | Run_Settled outcome \<Rightarrow>
               (case settleFiring env fire outcome now d of
                  Inl e \<Rightarrow> (Some e, d) | Inr d' \<Rightarrow> reapFrom env firingRun now rest d')
           | No_Run \<Rightarrow>
               if leaseExpiry env value > now then reapFrom env firingRun now rest d
               else (case settleFiring env fire abandonedOutcome now d of
                       Inl e \<Rightarrow> (Some e, d) | Inr d' \<Rightarrow> reapFrom env firingRun now rest d')))"

definition reapExpiredFirings ::
  "routine_env \<Rightarrow> (routine_fire \<Rightarrow> firing_run) \<Rightarrow> int \<Rightarrow> routine_store \<Rightarrow> routine_error option \<times> routine_store" where
  "reapExpiredFirings env firingRun now d = reapFrom env firingRun now (rs_fires d) d"

definition ROUTINE_SETTLE_BATCH :: nat where "ROUTINE_SETTLE_BATCH = 8"

text \<open>The drain of \<open>settle\<close> after the reaping: \<open>answer n fire\<close> is what executing the firing of the round came
  to, \<open>None\<close> when its Turn is still owed an outcome, and \<open>claimAt\<close>, \<open>settleAt\<close> the times of the round.\<close>

fun drainFirings ::
  "routine_env \<Rightarrow> jstr \<Rightarrow> (nat \<Rightarrow> int) \<Rightarrow> (nat \<Rightarrow> int) \<Rightarrow> (nat \<Rightarrow> routine_fire \<Rightarrow> fire_outcome option) \<Rightarrow>
   nat \<Rightarrow> routine_store \<Rightarrow> routine_error option \<times> routine_store" where
  "drainFirings env timezone claimAt settleAt answer 0 d = (None, d)"
| "drainFirings env timezone claimAt settleAt answer (Suc n) d =
     (case claim env timezone (claimAt n) d of
        Inl e \<Rightarrow> (Some e, d)
      | Inr (None, d1) \<Rightarrow> (None, d1)
      | Inr (Some fire, d1) \<Rightarrow>
          (case answer n fire of
             None \<Rightarrow> drainFirings env timezone claimAt settleAt answer n d1
           | Some outcome \<Rightarrow>
               (case settleFiring env fire outcome (settleAt n) d1 of
                  Inl e \<Rightarrow> (Some e, d1)
                | Inr d2 \<Rightarrow> drainFirings env timezone claimAt settleAt answer n d2)))"

definition settle_firings ::
  "routine_env \<Rightarrow> (routine_fire \<Rightarrow> firing_run) \<Rightarrow> jstr \<Rightarrow> int \<Rightarrow> (nat \<Rightarrow> int) \<Rightarrow> (nat \<Rightarrow> int) \<Rightarrow>
   (nat \<Rightarrow> routine_fire \<Rightarrow> fire_outcome option) \<Rightarrow> routine_store \<Rightarrow> routine_error option \<times> routine_store" where
  "settle_firings env firingRun timezone now claimAt settleAt answer d =
     (case reapExpiredFirings env firingRun now d of
        (Some e, d') \<Rightarrow> (Some e, d')
      | (None, d') \<Rightarrow> drainFirings env timezone claimAt settleAt answer ROUTINE_SETTLE_BATCH d')"

definition readFire :: "routine_env \<Rightarrow> string \<Rightarrow> routine_store \<Rightarrow> routine_error + routine_fire option" where
  "readFire env routineId d = optionally (lockOf d routineId)
     (\<lambda>v. case v of None \<Rightarrow> Inl Not_An_Object | Some w \<Rightarrow> decodeRoutineFireV1 (rv_parse env) w)"

definition nextRuns :: "routine_env \<Rightarrow> jstr \<Rightarrow> int \<Rightarrow> routine_store \<Rightarrow> (string \<times> jstr) list \<times> routine_store" where
  "nextRuns env timezone now d =
     (case clocks env timezone now d of
        (cs, d') \<Rightarrow> (map (\<lambda>(record, state). (rr_id record, rv_iso env (routineDeadlineV1 state))) cs, d'))"

end
