(* ===== verification/Routine_Store.thy ===== *)
theory Routine_Store
  imports Routine_Scheduler
begin

text \<open>
  The authority over a Bot's Routines (app/routines/store.ts, the commands of shared.ts, the key record
  of hook.ts, the canonical fingerprint of core/configuration): the commands that create, change, fire
  and delete a Routine, the webhook keys, and the deliveries that fire a triggered one. A command that is refused is
  returned out of its transaction, so what it wrote before the refusal stays written: \<open>applyCommand\<close> is a
  function into an outcome and a store. The signing of a key and the judgement of an event are
  arguments.
\<close>

section \<open>Commands\<close>

datatype routine_change =
    Create_Routine "string option" jstr jstr "jstr option" "routine_trigger option"
  | Update_Routine string "jstr option" "jstr option" "jstr option" "routine_trigger option" "bool option"
  | Pause_Routine string
  | Resume_Routine string
  | Delete_Routine string
  | Run_Routine string
  | Rotate_Key string
  | Revoke_Key string

record routine_command =
  rc_commandId :: string
  rc_botId :: string
  rc_change :: routine_change

fun commandFields :: "routine_change \<Rightarrow> string \<times> (string \<times> json) list" where
  "commandFields (Create_Routine routineId name prompt schedule trigger) =
     (''routine/create'',
      [(''name'', JStr name), (''prompt'', JStr prompt)]
      @ optField ''routineId'' (map_option (JStr \<circ> js) routineId)
      @ optField ''schedule'' (map_option JStr schedule) @ optField ''trigger'' (map_option triggerJson trigger))"
| "commandFields (Update_Routine routineId name prompt schedule trigger enabled) =
     (''routine/update'',
      [(''routineId'', JStr (js routineId))] @ optField ''name'' (map_option JStr name)
      @ optField ''prompt'' (map_option JStr prompt) @ optField ''schedule'' (map_option JStr schedule)
      @ optField ''trigger'' (map_option triggerJson trigger) @ optField ''enabled'' (map_option JBool enabled))"
| "commandFields (Pause_Routine routineId) = (''routine/pause'', [(''routineId'', JStr (js routineId))])"
| "commandFields (Resume_Routine routineId) = (''routine/resume'', [(''routineId'', JStr (js routineId))])"
| "commandFields (Delete_Routine routineId) = (''routine/delete'', [(''routineId'', JStr (js routineId))])"
| "commandFields (Run_Routine routineId) = (''routine/run'', [(''routineId'', JStr (js routineId))])"
| "commandFields (Rotate_Key routineId) = (''routine/rotate-key'', [(''routineId'', JStr (js routineId))])"
| "commandFields (Revoke_Key routineId) = (''routine/revoke-key'', [(''routineId'', JStr (js routineId))])"

text \<open>A command without its id, as the fingerprint reads it.\<close>

definition semanticCommand :: "routine_command \<Rightarrow> json" where
  "semanticCommand c =
     (case commandFields (rc_change c) of
        (type, members) \<Rightarrow>
          JObj ([oneJson, (''botId'', JStr (js (rc_botId c))), (''type'', JStr (js type))] @ members))"

fun canonicalFingerprintValue :: "json \<Rightarrow> jstr" where
  "canonicalFingerprintValue (JArr values) = 0x5B # joinComma (map canonicalFingerprintValue values) @ [0x5D]"
| "canonicalFingerprintValue (JObj members) =
     0x7B # joinComma (map snd (sort_key fst
       (map (\<lambda>(k, v). (k, quoteJson (js k) @ 0x3A # canonicalFingerprintValue v)) members))) @ [0x7D]"
| "canonicalFingerprintValue v = stringify v"

definition canonicalCommandFingerprintV1 :: "string \<Rightarrow> json \<Rightarrow> jstr" where
  "canonicalCommandFingerprintV1 namespace command = js namespace @ 0x3A # canonicalFingerprintValue command"

definition routineCommandFingerprintV1 :: "routine_command \<Rightarrow> jstr" where
  "routineCommandFingerprintV1 c = canonicalCommandFingerprintV1 ''routine-command-v1'' (semanticCommand c)"

section \<open>Keys and receipts\<close>

record hook_key =
  hk_routineId :: string
  hk_version :: nat
  hk_digest :: jstr
  hk_createdAt :: jstr

definition decodeRoutineHookKeyV1 :: "date_parse \<Rightarrow> json \<Rightarrow> routine_error + hook_key" where
  "decodeRoutineHookKeyV1 dp v =
     rbind (requireObject v) (\<lambda>_.
     rbind (routineExactKeys v [''schemaVersion'', ''routineId'', ''keyVersion'', ''digest'', ''createdAt''] [])
       (\<lambda>_.
     rbind (versionOne v) (\<lambda>_.
     rbind (routineIdField v) (\<lambda>routineId.
     rbind (routineRepeatCountV1 (jget v ''keyVersion'')) (\<lambda>version.
     rbind (case jget v ''digest'' of
              Some (JStr s) \<Rightarrow>
                if length s = 64 \<and> list_all (\<lambda>u. u \<in> set (js ''0123456789abcdef'')) s then Inr s
                else Inl Trigger_Invalid
            | _ \<Rightarrow> Inl Trigger_Invalid) (\<lambda>digest.
     rbind (routineTimestamp dp (jget v ''createdAt'')) (\<lambda>createdAt.
     Inr \<lparr>hk_routineId = routineId, hk_version = version, hk_digest = digest, hk_createdAt = createdAt\<rparr>)))))))"

definition hookKeyJson :: "hook_key \<Rightarrow> json" where
  "hookKeyJson k = JObj
     [oneJson, (''routineId'', JStr (js (hk_routineId k))), (''keyVersion'', numberJson (int (hk_version k))),
      (''digest'', JStr (hk_digest k)), (''createdAt'', JStr (hk_createdAt k))]"

record hook_mint =
  hm_routineId :: string
  hm_version :: nat
  hm_token :: jstr
  hm_path :: jstr

record routine_view =
  vw_record :: routine_record
  vw_timezone :: jstr
  vw_nextRunAt :: "jstr option"
  vw_keyVersion :: "nat option"

text \<open>The view carries the record's fields, and the next run of a Routine that is on and scheduled.\<close>

definition routineViewV1 :: "routine_record \<Rightarrow> jstr \<Rightarrow> jstr option \<Rightarrow> nat option \<Rightarrow> routine_view" where
  "routineViewV1 record timezone nextRunAt keyVersion =
     \<lparr>vw_record = record\<lparr>rr_approval := None\<rparr>, vw_timezone = timezone,
      vw_nextRunAt = (if nextRunAt = None \<or> \<not> rr_enabled record \<or> rr_schedule record = None then None else nextRunAt),
      vw_keyVersion = keyVersion\<rparr>"

datatype routine_receipt =
    Receipt_Applied routine_view "hook_mint option"
  | Receipt_Deleted string
  | Receipt_Fired string jstr

fun strippedReceipt :: "routine_receipt \<Rightarrow> routine_receipt" where
  "strippedReceipt (Receipt_Applied view hook) = Receipt_Applied view None"
| "strippedReceipt r = r"

record stored_receipt =
  sr_fingerprint :: jstr
  sr_receipt :: routine_receipt

record routine_authority =
  ra_store :: routine_store
  ra_receipts :: "stored_receipt kv"

record store_options =
  so_firings :: bool
  so_mint :: "(string \<Rightarrow> nat \<Rightarrow> jstr \<times> jstr \<times> jstr) option"
  so_newId :: string

section \<open>Applying a command\<close>

definition keyOf :: "routine_store \<Rightarrow> string \<Rightarrow> json option" where
  "keyOf d routineId = kv_get (rs_keys d) (routineHookKeyRecordV1 routineId)"

definition dropKey :: "string \<Rightarrow> routine_store \<Rightarrow> routine_store" where
  "dropKey routineId d = d\<lparr>rs_keys := kv_delete (routineHookKeyRecordV1 routineId) (rs_keys d)\<rparr>"

definition mint ::
  "routine_env \<Rightarrow> store_options \<Rightarrow> string \<Rightarrow> jstr \<Rightarrow> routine_store \<Rightarrow>
   routine_error + hook_mint option \<times> routine_store" where
  "mint env opts routineId at d =
     (case so_mint opts of
        None \<Rightarrow> Inr (None, d)
      | Some sign \<Rightarrow>
          rbind (case keyOf d routineId of
                   None \<Rightarrow> Inr 1
                 | Some held \<Rightarrow> rbind (decodeRoutineHookKeyV1 (rv_parse env) held) (\<lambda>k. Inr (hk_version k + 1)))
            (\<lambda>version.
          case sign routineId version of
            (token, digest, path) \<Rightarrow>
              Inr (Some \<lparr>hm_routineId = routineId, hm_version = version, hm_token = token, hm_path = path\<rparr>,
                   d\<lparr>rs_keys := kv_put (routineHookKeyRecordV1 routineId)
                       (hookKeyJson \<lparr>hk_routineId = routineId, hk_version = version, hk_digest = digest,
                          hk_createdAt = at\<rparr>) (rs_keys d)\<rparr>)))"

definition validated ::
  "routine_env \<Rightarrow> int \<Rightarrow> jstr \<Rightarrow> routine_record \<Rightarrow> routine_error + routine_record" where
  "validated env now timezone draft =
     rbind (decodeRoutineRecordV1 (rv_parse env) (routineJson draft)) (\<lambda>decoded.
     case rr_schedule decoded of
       None \<Rightarrow> Inr decoded
     | Some schedule \<Rightarrow>
         rbind (mapError Schedule_Refused (normalizeRoutineScheduleV1 (rv_calendar env) schedule timezone))
           (\<lambda>normalized.
         if nextRoutineRunV1 (rv_calendar env) normalized now now = None then Inl Schedule_Never_Comes
         else Inr decoded))"

definition needsKey :: "routine_record \<Rightarrow> bool" where
  "needsKey r = (case rr_trigger r of None \<Rightarrow> False | Some t \<Rightarrow> routineTriggerNeedsHookKeyV1 t)"

text \<open>A step that may refuse and has written what it wrote by then.\<close>

definition after ::
  "(routine_error + 'a) \<Rightarrow> routine_store \<Rightarrow> ('a \<Rightarrow> (routine_error + routine_receipt) \<times> routine_store) \<Rightarrow>
   (routine_error + routine_receipt) \<times> routine_store" where
  "after m d f = (case m of Inl e \<Rightarrow> (Inl e, d) | Inr x \<Rightarrow> f x)"

definition applyCreate ::
  "routine_env \<Rightarrow> store_options \<Rightarrow> int \<Rightarrow> jstr \<Rightarrow> routine_writer \<Rightarrow> jstr option \<Rightarrow>
   string option \<Rightarrow> jstr \<Rightarrow> jstr \<Rightarrow> jstr option \<Rightarrow> routine_trigger option \<Rightarrow> routine_store \<Rightarrow>
   (routine_error + routine_receipt) \<times> routine_store" where
  "applyCreate env opts now timezone writer approval routineId0 name prompt schedule trigger d =
     (let at = rv_iso env now; routineId = (case routineId0 of None \<Rightarrow> so_newId opts | Some i \<Rightarrow> i) in
      if length (take (ROUTINE_LIMIT_PER_BOT + 1) (rs_routines d)) \<ge> ROUTINE_LIMIT_PER_BOT
      then (Inl Too_Many_Routines, d)
      else if \<not> isRoutineIdV1 routineId then (Inl Routine_Id_Invalid, d)
      else if kv_get (rs_routines d) (routineKeyV1 routineId) \<noteq> None then (Inl Routine_Exists, d)
      else after (validated env now timezone
             \<lparr>rr_id = routineId, rr_name = name, rr_prompt = prompt, rr_schedule = schedule, rr_trigger = trigger,
              rr_enabled = True, rr_createdBy = writer, rr_updatedBy = writer, rr_createdAt = at,
              rr_updatedAt = at, rr_lastRunAt = None, rr_approval = approval\<rparr>) d (\<lambda>record.
           let d1 = putRoutine routineId record d in
           after (if needsKey record then mint env opts (rr_id record) at d1 else Inr (None, d1)) d1
             (\<lambda>(minted, d2).
               (Inr (Receipt_Applied (routineViewV1 record timezone None (map_option hm_version minted)) minted), d2))))"

definition deletedStore :: "string \<Rightarrow> routine_store \<Rightarrow> routine_store" where
  "deletedStore routineId d =
     (let d1 = dropKey routineId (d\<lparr>rs_routines := kv_delete (routineKeyV1 routineId) (rs_routines d)\<rparr>) in
      d1\<lparr>rs_deliveries := filter (\<lambda>(key, receipt). dr_routineId receipt \<noteq> routineId) (rs_deliveries d1),
         rs_schedules := kv_delete (routineScheduleKeyV1 routineId) (rs_schedules d1),
         rs_fires := kv_delete (routineFireKeyV1 routineId) (rs_fires d1),
         rs_queue := fold kv_delete (map fst (listPrefix (routineQueuePrefixV1 routineId) (rs_queue d1))) (rs_queue d1),
         rs_runs := fold kv_delete (map fst (listPrefix (routineRunPrefixV1 routineId) (rs_runs d1))) (rs_runs d1)\<rparr>)"

text \<open>The record an update asks for: an absent field leaves what was there, a new schedule or trigger replaces
  both, and a Bot's new prompt or timing drops the approval the old one had.\<close>

definition updatedRecord ::
  "routine_record \<Rightarrow> routine_writer \<Rightarrow> jstr \<Rightarrow> jstr option \<Rightarrow> jstr option \<Rightarrow> jstr option \<Rightarrow> jstr option \<Rightarrow>
   routine_trigger option \<Rightarrow> bool option \<Rightarrow> routine_record" where
  "updatedRecord current writer at approval name prompt schedule trigger enabled =
     (let replaces = schedule \<noteq> None \<or> trigger \<noteq> None;
          r1 = current\<lparr>rr_name := (case name of None \<Rightarrow> rr_name current | Some x \<Rightarrow> x),
                 rr_prompt := (case prompt of None \<Rightarrow> rr_prompt current | Some x \<Rightarrow> x),
                 rr_enabled := (case enabled of None \<Rightarrow> rr_enabled current | Some x \<Rightarrow> x),
                 rr_updatedBy := writer, rr_updatedAt := at\<rparr>;
          r2 = (if replaces then r1\<lparr>rr_schedule := schedule, rr_trigger := trigger\<rparr> else r1)
      in if writer \<noteq> Writer_User \<and> (prompt \<noteq> None \<or> replaces) then r2\<lparr>rr_approval := approval\<rparr> else r2)"

definition writeChange ::
  "routine_env \<Rightarrow> store_options \<Rightarrow> int \<Rightarrow> jstr \<Rightarrow> routine_record \<Rightarrow> routine_store \<Rightarrow>
   (routine_error + routine_receipt) \<times> routine_store" where
  "writeChange env opts now timezone draft d =
     after (validated env now timezone draft) d (\<lambda>record.
       let d1 = putRoutine (rr_id record) record d; held = keyOf d1 (rr_id record) in
       after (if needsKey record \<and> held = None then mint env opts (rr_id record) (rv_iso env now) d1
              else Inr (None, if \<not> needsKey record \<and> held \<noteq> None then dropKey (rr_id record) d1 else d1)) d1
         (\<lambda>(minted, d2).
       after (case minted of
                Some m \<Rightarrow> Inr (Some (hm_version m))
              | None \<Rightarrow>
                  (case held of
                     Some v \<Rightarrow>
                       if needsKey record
                       then rbind (decodeRoutineHookKeyV1 (rv_parse env) v) (\<lambda>k. Inr (Some (hk_version k)))
                       else Inr None
                   | None \<Rightarrow> Inr None)) d2 (\<lambda>version.
         (Inr (Receipt_Applied (routineViewV1 record timezone None version) minted), d2))))"

definition changedId :: "routine_change \<Rightarrow> string" where
  "changedId change =
     (case change of
        Create_Routine routineId a b e f \<Rightarrow> (case routineId of None \<Rightarrow> [] | Some i \<Rightarrow> i)
      | Update_Routine i a b e f g \<Rightarrow> i | Pause_Routine i \<Rightarrow> i | Resume_Routine i \<Rightarrow> i
      | Delete_Routine i \<Rightarrow> i | Run_Routine i \<Rightarrow> i | Rotate_Key i \<Rightarrow> i | Revoke_Key i \<Rightarrow> i)"

definition applyRun ::
  "routine_env \<Rightarrow> store_options \<Rightarrow> int \<Rightarrow> string \<Rightarrow> string \<Rightarrow> routine_store \<Rightarrow>
   (routine_error + routine_receipt) \<times> routine_store" where
  "applyRun env opts now commandId routineId d =
     (if \<not> so_firings opts then (Inl Cannot_Fire, d)
      else after (enqueueWithin env now routineId Manual (js ''manual-'' @ js commandId) None d) d
             (\<lambda>((fireId, queued_now), d'). (Inr (Receipt_Fired routineId fireId), d')))"

definition applyKey ::
  "routine_env \<Rightarrow> store_options \<Rightarrow> int \<Rightarrow> jstr \<Rightarrow> bool \<Rightarrow> string \<Rightarrow> routine_record \<Rightarrow> routine_store \<Rightarrow>
   (routine_error + routine_receipt) \<times> routine_store" where
  "applyKey env opts now timezone fresh routineId current d =
     (if \<not> needsKey current then (Inl No_Trigger_To_Key, d)
      else if \<not> fresh
      then (Inr (Receipt_Applied (routineViewV1 current timezone None None) None), dropKey routineId d)
      else if so_mint opts = None then (Inl Cannot_Mint, d)
      else after (mint env opts routineId (rv_iso env now) d) d (\<lambda>(minted, d').
             (Inr (Receipt_Applied (routineViewV1 current timezone None (map_option hm_version minted)) minted), d')))"

definition applyCommand ::
  "routine_env \<Rightarrow> store_options \<Rightarrow> int \<Rightarrow> jstr \<Rightarrow> routine_writer \<Rightarrow> jstr option \<Rightarrow> routine_command \<Rightarrow>
   routine_store \<Rightarrow> (routine_error + routine_receipt) \<times> routine_store" where
  "applyCommand env opts now timezone writer approval c d =
     (case rc_change c of
        Create_Routine routineId name prompt schedule trigger \<Rightarrow>
          applyCreate env opts now timezone writer approval routineId name prompt schedule trigger d
      | change \<Rightarrow>
          let routineId = changedId change in
          (case kv_get (rs_routines d) (routineKeyV1 routineId) of
             None \<Rightarrow> (Inl (Routine_Not_Found routineId), d)
           | Some stored \<Rightarrow>
               after (decodeRoutineRecordV1 (rv_parse env) stored) d (\<lambda>current.
                 case change of
                   Run_Routine i \<Rightarrow> applyRun env opts now (rc_commandId c) routineId d
                 | Rotate_Key i \<Rightarrow> applyKey env opts now timezone True routineId current d
                 | Revoke_Key i \<Rightarrow> applyKey env opts now timezone False routineId current d
                 | Delete_Routine i \<Rightarrow> (Inr (Receipt_Deleted routineId), deletedStore routineId d)
                 | Pause_Routine i \<Rightarrow> writeChange env opts now timezone
                     (current\<lparr>rr_enabled := False, rr_updatedBy := writer, rr_updatedAt := rv_iso env now\<rparr>) d
                 | Resume_Routine i \<Rightarrow> writeChange env opts now timezone
                     (current\<lparr>rr_enabled := True, rr_updatedBy := writer, rr_updatedAt := rv_iso env now\<rparr>) d
                 | Update_Routine i name prompt schedule trigger enabled \<Rightarrow> writeChange env opts now timezone
                     (updatedRecord current writer (rv_iso env now) approval name prompt schedule trigger enabled) d
                 | Create_Routine routineId0 name prompt schedule trigger \<Rightarrow> (Inl Routine_Exists, d))))"

text \<open>\<open>execute\<close>: one command id applies once. The reply is the error a refused command throws after its transaction, or the receipt.\<close>

definition executeCommand ::
  "routine_env \<Rightarrow> store_options \<Rightarrow> int \<Rightarrow> jstr \<Rightarrow> routine_writer \<Rightarrow> jstr option \<Rightarrow> routine_command \<Rightarrow>
   routine_authority \<Rightarrow> (routine_error + routine_receipt) \<times> routine_authority" where
  "executeCommand env opts now timezone writer approval c a =
     (case kv_get (ra_receipts a) (routineReceiptKeyV1 (rc_commandId c)) of
        Some existing \<Rightarrow>
          (if sr_fingerprint existing \<noteq> routineCommandFingerprintV1 c then Inl Command_Reused
           else Inr (sr_receipt existing), a)
      | None \<Rightarrow>
          (case applyCommand env opts now timezone writer approval c (ra_store a) of
             (Inl e, d) \<Rightarrow> (Inl e, a\<lparr>ra_store := d\<rparr>)
           | (Inr receipt, d) \<Rightarrow>
               (Inr receipt, a\<lparr>ra_store := d, ra_receipts :=
                  kv_put (routineReceiptKeyV1 (rc_commandId c))
                    \<lparr>sr_fingerprint = routineCommandFingerprintV1 c, sr_receipt = strippedReceipt receipt\<rparr>
                    (ra_receipts a)\<rparr>)))"

section \<open>Deliveries\<close>

definition ROUTINE_DELIVERY_LIMIT :: nat where "ROUTINE_DELIVERY_LIMIT = 256"
definition ROUTINE_DELIVERY_TTL_MS :: int where "ROUTINE_DELIVERY_TTL_MS = 24 * 60 * 60 * 1000"
definition ROUTINE_HOOK_CUE_MAX_BYTES :: nat where "ROUTINE_HOOK_CUE_MAX_BYTES = 4096"

datatype delivery_answer =
    Accepted jstr
  | Duplicate jstr
  | Dropped jstr

record delivery =
  dl_routineId :: string
  dl_deliveryId :: string
  dl_keyVersion :: "nat option"
  dl_digest :: "jstr option"
  dl_rendered :: jstr

text \<open>Whether a receipt still guards its delivery, and what a replay of it is answered.\<close>

definition freshReceipt :: "routine_env \<Rightarrow> int \<Rightarrow> string \<Rightarrow> routine_store \<Rightarrow> delivery_receipt option" where
  "freshReceipt env now deliveryId d =
     (case kv_get (rs_deliveries d) (routineDeliveryKeyV1 deliveryId) of
        None \<Rightarrow> None
      | Some seen \<Rightarrow>
          (case rv_parse env (dr_acceptedAt seen) of
             None \<Rightarrow> None | Some t \<Rightarrow> if t > now - ROUTINE_DELIVERY_TTL_MS then Some seen else None))"

definition replayed :: "delivery_receipt \<Rightarrow> delivery_answer" where
  "replayed seen =
     (case dr_fireId seen of
        Some fireId \<Rightarrow> Duplicate fireId
      | None \<Rightarrow> Dropped (case dr_dropped seen of None \<Rightarrow> js ''dropped'' | Some reason \<Rightarrow> reason))"

definition admitDelivery ::
  "routine_env \<Rightarrow> delivery \<Rightarrow> routine_store \<Rightarrow> routine_error + routine_trigger" where
  "admitDelivery env input d =
     (case kv_get (rs_routines d) (routineKeyV1 (dl_routineId input)) of
        None \<Rightarrow> Inl (Hook_Refused 404)
      | Some stored \<Rightarrow>
          rbind (decodeRoutineRecordV1 (rv_parse env) stored) (\<lambda>record.
          case (rr_trigger record, keyOf d (dl_routineId input)) of
            (Some trigger, Some held) \<Rightarrow>
              rbind (decodeRoutineHookKeyV1 (rv_parse env) held) (\<lambda>key.
              if dl_keyVersion input \<noteq> Some (hk_version key) \<or>
                 (case dl_digest input of None \<Rightarrow> True | Some digest \<Rightarrow> digest = [] \<or> hk_digest key \<noteq> digest)
              then Inl (Hook_Refused 401)
              else if \<not> rr_enabled record then Inl (Hook_Refused 409) else Inr trigger)
          | _ \<Rightarrow> Inl (Hook_Refused 401)))"

definition admitModuleEvent ::
  "routine_env \<Rightarrow> string \<Rightarrow> jstr \<Rightarrow> jstr \<Rightarrow> routine_store \<Rightarrow> routine_error + routine_trigger" where
  "admitModuleEvent env routineId pluginId event d =
     (case kv_get (rs_routines d) (routineKeyV1 routineId) of
        None \<Rightarrow> Inl (Hook_Refused 404)
      | Some stored \<Rightarrow>
          rbind (decodeRoutineRecordV1 (rv_parse env) stored) (\<lambda>record.
          case rr_trigger record of
            Some (Plugin_Trigger plugin listened) \<Rightarrow>
              if plugin \<noteq> pluginId \<or> listened \<noteq> event then Inl (Hook_Refused 409)
              else if \<not> rr_enabled record then Inl (Hook_Refused 409)
              else Inr (Plugin_Trigger plugin listened)
          | _ \<Rightarrow> Inl (Hook_Refused 409)))"

definition liveReceipts :: "routine_env \<Rightarrow> int \<Rightarrow> delivery_receipt kv \<Rightarrow> (string \<times> delivery_receipt \<times> int) list" where
  "liveReceipts env now held =
     List.map_filter (\<lambda>(key, receipt).
       case rv_parse env (dr_acceptedAt receipt) of
         None \<Rightarrow> None
       | Some t \<Rightarrow> if t \<le> now - ROUTINE_DELIVERY_TTL_MS then None else Some (key, receipt, t)) held"

definition trimDeliveries :: "routine_env \<Rightarrow> int \<Rightarrow> routine_store \<Rightarrow> routine_store" where
  "trimDeliveries env now d =
     (let live = liveReceipts env now (rs_deliveries d);
          kept = filter (\<lambda>(key, receipt). key \<in> fst ` set live) (rs_deliveries d);
          sorted_live = sort_key (snd \<circ> snd) live;
          excess = take (length live - ROUTINE_DELIVERY_LIMIT) (map fst sorted_live)
      in d\<lparr>rs_deliveries := (if length live \<le> ROUTINE_DELIVERY_LIMIT then kept else fold kv_delete excess kept)\<rparr>)"

text \<open>The answer a Plugin gave for a plugin trigger, asked between the checks and the write.\<close>

datatype plugin_answer = Plugin_Fires jstr | Plugin_Drops jstr

definition recordDelivery ::
  "routine_env \<Rightarrow> int \<Rightarrow> delivery \<Rightarrow> jstr option \<Rightarrow> jstr option \<Rightarrow> routine_store \<Rightarrow> routine_store" where
  "recordDelivery env now input fireId dropped d =
     trimDeliveries env now (d\<lparr>rs_deliveries := kv_put (routineDeliveryKeyV1 (dl_deliveryId input))
       \<lparr>dr_routineId = dl_routineId input, dr_fireId = fireId, dr_dropped = dropped,
        dr_acceptedAt = rv_iso env now\<rparr> (rs_deliveries d)\<rparr>)"

text \<open>The first transaction of \<open>#deliver\<close>: the checks, and the answer to a replay.\<close>

definition deliverChecked ::
  "routine_env \<Rightarrow> int \<Rightarrow> (routine_store \<Rightarrow> routine_error + routine_trigger) \<Rightarrow> delivery \<Rightarrow> routine_store \<Rightarrow>
   routine_error + (delivery_answer + routine_trigger)" where
  "deliverChecked env now admit_check input d =
     rbind (admit_check d) (\<lambda>trigger.
       Inr (case freshReceipt env now (dl_deliveryId input) d of
              Some seen \<Rightarrow> Inl (replayed seen) | None \<Rightarrow> Inr trigger))"

text \<open>The second transaction of \<open>#deliver\<close>: the checks again, the replay guard, the firing and its receipt.\<close>

definition deliverFiring ::
  "routine_env \<Rightarrow> int \<Rightarrow> (routine_store \<Rightarrow> routine_error + routine_trigger) \<Rightarrow> delivery \<Rightarrow> plugin_answer option \<Rightarrow>
   routine_store \<Rightarrow> routine_error + delivery_answer \<times> routine_store" where
  "deliverFiring env now admit_check input answer d =
     rbind (admit_check d) (\<lambda>trigger.
       case freshReceipt env now (dl_deliveryId input) d of
         Some seen \<Rightarrow> Inr (replayed seen, d)
       | None \<Rightarrow>
           (case answer of
              Some (Plugin_Drops reason) \<Rightarrow>
                Inr (Dropped (slice0 reason 1024),
                     recordDelivery env now input None (Some (slice0 reason 1024)) d)
            | _ \<Rightarrow>
                rbind (enqueueWithin env now (dl_routineId input) Webhook
                         (js ''hook-'' @ slice0 (js (dl_deliveryId input)) 40)
                         (Some (case answer of Some (Plugin_Fires rendered) \<Rightarrow> rendered | _ \<Rightarrow> dl_rendered input)) d)
                  (\<lambda>((fireId, queued_now), d').
                Inr (Accepted fireId, recordDelivery env now input (Some fireId) None d'))))"

definition deliverConnectEvent ::
  "routine_env \<Rightarrow> int \<Rightarrow> string \<Rightarrow> string \<Rightarrow> jstr \<Rightarrow> routine_store \<Rightarrow>
   routine_error + delivery_answer \<times> routine_store" where
  "deliverConnectEvent env now routineId eventId rendered d =
     (case kv_get (rs_routines d) (routineKeyV1 routineId) of
        None \<Rightarrow> Inr (Dropped (js ''Routine not found''), d)
      | Some stored \<Rightarrow>
          rbind (decodeRoutineRecordV1 (rv_parse env) stored) (\<lambda>record.
          let connected = (case rr_trigger record of Some (Connection_Trigger c t q) \<Rightarrow> True | _ \<Rightarrow> False) in
          if \<not> connected \<or> \<not> rr_enabled record
          then Inr (Dropped (if \<not> connected then js ''Routine is not an app-event trigger''
                             else js ''Routine is paused''), d)
          else case freshReceipt env now eventId d of
                 Some seen \<Rightarrow> Inr (replayed seen, d)
               | None \<Rightarrow>
                   rbind (enqueueWithin env now routineId Connection
                            (js ''connect-'' @ slice0 (js eventId) 40) (Some rendered) d)
                     (\<lambda>((fireId, queued_now), d').
                   Inr (Accepted fireId, recordDelivery env now
                     \<lparr>dl_routineId = routineId, dl_deliveryId = eventId, dl_keyVersion = None, dl_digest = None,
                      dl_rendered = rendered\<rparr> (Some fireId) None d'))))"

section \<open>Reading\<close>

definition readRoutineRecord ::
  "routine_env \<Rightarrow> string \<Rightarrow> routine_store \<Rightarrow> routine_error + routine_record option" where
  "readRoutineRecord env routineId d =
     (if \<not> isRoutineIdV1 routineId then Inl Routine_Id_Invalid
      else case kv_get (rs_routines d) (routineKeyV1 routineId) of
             None \<Rightarrow> Inr None
           | Some stored \<Rightarrow> rbind (decodeRoutineRecordV1 (rv_parse env) stored) (\<lambda>r. Inr (Some r)))"

definition listRuns :: "routine_env \<Rightarrow> string \<Rightarrow> routine_store \<Rightarrow> routine_error + routine_entry list" where
  "listRuns env routineId d =
     rbind (readRoutineRecord env routineId d) (\<lambda>found.
       if found = None then Inl (Routine_Not_Found routineId)
       else rmap (decodeRoutineRunEntryV1 (rv_parse env))
              (map snd (take ROUTINE_RUN_LOG_LIMIT (listPrefix (routineRunPrefixV1 routineId) (rs_runs d)))))"

end
