(* ===== verification/Routine_Frame.thy ===== *)
theory Routine_Frame
  imports Routine_Store
begin

text \<open>
  What each operation on the store of Routines leaves alone: the keys of one Routine are its own, an
  operation on the run log, the queue or the inbox leaves records and clocks as they were. \<open>routine_env_ok\<close>
  says what the parameters of the scheduler promise: \<open>Date.parse\<close> reads back what \<open>toISOString\<close> writes, a time
  zone \<open>Intl\<close> knows has no blank at its ends, the next run of a pattern is later than the moment asked from and within reach
  of it, and whether a five-field pattern ever comes does not depend on the moment or the zone. Times stay
  below \<open>ROUTINE_HORIZON\<close>, \<open>2 ^ 47\<close> milliseconds, in the year 6429.
\<close>

section \<open>The environment\<close>

definition ROUTINE_HORIZON :: int where "ROUTINE_HORIZON = 140737488355328"

definition routine_env_ok :: "routine_env \<Rightarrow> bool" where
  "routine_env_ok env \<longleftrightarrow>
     calendar_ok (rv_calendar env) \<and>
     (\<forall>t. 0 \<le> t \<and> t \<le> ROUTINE_HORIZON \<longrightarrow> rv_parse env (rv_iso env t) = Some t) \<and>
     (\<forall>zone. cal_timezone (rv_calendar env) zone \<longrightarrow> trim zone = zone) \<and>
     (\<forall>pattern zone since t. cal_next (rv_calendar env) pattern zone since = Some t \<and> since \<le> ROUTINE_HORIZON
        \<longrightarrow> t \<le> 2 * ROUTINE_HORIZON) \<and>
     (\<forall>pattern zone zone' since since'. cal_next (rv_calendar env) pattern zone since = None \<and>
        since \<le> ROUTINE_HORIZON \<and> since' \<le> ROUTINE_HORIZON \<longrightarrow>
        cal_next (rv_calendar env) pattern zone' since' = None)"

lemma envD:
  assumes "routine_env_ok env"
  shows "calendar_ok (rv_calendar env)"
    and "0 \<le> t \<Longrightarrow> t \<le> ROUTINE_HORIZON \<Longrightarrow> rv_parse env (rv_iso env t) = Some t"
    and "cal_timezone (rv_calendar env) zone \<Longrightarrow> trim zone = zone"
    and "cal_next (rv_calendar env) pattern zone since = Some u \<Longrightarrow> since \<le> ROUTINE_HORIZON \<Longrightarrow>
      u \<le> 2 * ROUTINE_HORIZON"
    and "cal_next (rv_calendar env) pattern zone since = None \<Longrightarrow> since \<le> ROUTINE_HORIZON \<Longrightarrow>
      since' \<le> ROUTINE_HORIZON \<Longrightarrow> cal_next (rv_calendar env) pattern zone' since' = None"
  using assms by (auto simp: routine_env_ok_def)

definition in_time :: "int \<Rightarrow> bool" where
  "in_time t \<longleftrightarrow> 0 \<le> t \<and> t \<le> ROUTINE_HORIZON"

lemma iso_stamp: "routine_env_ok env \<Longrightarrow> in_time t \<Longrightarrow> stamp_ok (rv_parse env) (rv_iso env t)"
  by (simp add: stamp_ok_def in_time_def envD)

lemma timeOf_iso: "routine_env_ok env \<Longrightarrow> in_time t \<Longrightarrow> timeOf env (rv_iso env t) = t"
  by (simp add: timeOf_def in_time_def envD)

section \<open>Keys\<close>

lemma routine_keys [simp]:
  "routineKeyV1 i = routineKeyV1 j \<longleftrightarrow> i = j"
  "routineScheduleKeyV1 i = routineScheduleKeyV1 j \<longleftrightarrow> i = j"
  "routineFireKeyV1 i = routineFireKeyV1 j \<longleftrightarrow> i = j"
  "routineHookKeyRecordV1 i = routineHookKeyRecordV1 j \<longleftrightarrow> i = j"
  "routineReceiptKeyV1 i = routineReceiptKeyV1 j \<longleftrightarrow> i = j"
  "routineDeliveryKeyV1 i = routineDeliveryKeyV1 j \<longleftrightarrow> i = j"
  by (simp_all add: routineKeyV1_def routineScheduleKeyV1_def routineFireKeyV1_def routineHookKeyRecordV1_def
      routineReceiptKeyV1_def routineDeliveryKeyV1_def)

definition clockAt :: "routine_store \<Rightarrow> string \<Rightarrow> json option" where
  "clockAt d i = kv_get (rs_schedules d) (routineScheduleKeyV1 i)"

definition recordAt :: "routine_store \<Rightarrow> string \<Rightarrow> json option" where
  "recordAt d i = kv_get (rs_routines d) (routineKeyV1 i)"

lemma readRoutine_recordAt: "readRoutine env d i = Option.bind (recordAt d i) (\<lambda>v.
    case decodeRoutineRecordV1 (rv_parse env) v of Inl e \<Rightarrow> None | Inr r \<Rightarrow> Some r)"
  by (simp add: readRoutine_def recordAt_def split: option.splits)

lemma putRoutine_simps [simp]:
  "rs_runs (putRoutine i r d) = rs_runs d" "rs_schedules (putRoutine i r d) = rs_schedules d"
  "rs_fires (putRoutine i r d) = rs_fires d" "rs_queue (putRoutine i r d) = rs_queue d"
  "rs_inbox (putRoutine i r d) = rs_inbox d" "rs_inboxCursor (putRoutine i r d) = rs_inboxCursor d"
  "rs_keys (putRoutine i r d) = rs_keys d" "rs_deliveries (putRoutine i r d) = rs_deliveries d"
  "rs_routines (putRoutine i r d) = kv_put (routineKeyV1 i) (routineJson r) (rs_routines d)"
  by (simp_all add: putRoutine_def)

lemma putClock_simps [simp]:
  "rs_runs (putClock i s d) = rs_runs d" "rs_routines (putClock i s d) = rs_routines d"
  "rs_fires (putClock i s d) = rs_fires d" "rs_queue (putClock i s d) = rs_queue d"
  "rs_inbox (putClock i s d) = rs_inbox d" "rs_inboxCursor (putClock i s d) = rs_inboxCursor d"
  "rs_keys (putClock i s d) = rs_keys d" "rs_deliveries (putClock i s d) = rs_deliveries d"
  "rs_schedules (putClock i s d) = kv_put (routineScheduleKeyV1 i) (scheduleJson s) (rs_schedules d)"
  by (simp_all add: putClock_def)

lemma dropClock_simps [simp]:
  "rs_runs (dropClock i d) = rs_runs d" "rs_routines (dropClock i d) = rs_routines d"
  "rs_fires (dropClock i d) = rs_fires d" "rs_queue (dropClock i d) = rs_queue d"
  "rs_inbox (dropClock i d) = rs_inbox d" "rs_inboxCursor (dropClock i d) = rs_inboxCursor d"
  "rs_keys (dropClock i d) = rs_keys d" "rs_deliveries (dropClock i d) = rs_deliveries d"
  "rs_schedules (dropClock i d) = kv_delete (routineScheduleKeyV1 i) (rs_schedules d)"
  by (simp_all add: dropClock_def)

lemma clockAt_simps [simp]:
  "clockAt (putRoutine i r d) j = clockAt d j"
  "clockAt (putClock i s d) j = (if j = i then Some (scheduleJson s) else clockAt d j)"
  "clockAt (dropClock i d) j = (if j = i then None else clockAt d j)"
  by (simp_all add: clockAt_def)

lemma recordAt_simps [simp]:
  "recordAt (putRoutine i r d) j = (if j = i then Some (routineJson r) else recordAt d j)"
  "recordAt (putClock i s d) j = recordAt d j"
  "recordAt (dropClock i d) j = recordAt d j"
  by (simp_all add: recordAt_def)

lemma lockOf_simps [simp]:
  "lockOf (putRoutine i r d) j = lockOf d j" "lockOf (putClock i s d) j = lockOf d j"
  "lockOf (dropClock i d) j = lockOf d j"
  by (simp_all add: lockOf_def)

section \<open>Operations that leave records and clocks alone\<close>

text \<open>\<open>same_clocks d d'\<close>: the records and the clocks are the same ones.\<close>

definition same_clocks :: "routine_store \<Rightarrow> routine_store \<Rightarrow> bool" where
  "same_clocks d d' \<longleftrightarrow> rs_routines d' = rs_routines d \<and> rs_schedules d' = rs_schedules d"

lemma same_clocks_refl [simp]: "same_clocks d d"
  by (simp add: same_clocks_def)

lemma same_clocks_trans: "same_clocks d d' \<Longrightarrow> same_clocks d' d'' \<Longrightarrow> same_clocks d d''"
  by (simp add: same_clocks_def)

lemma append_frame:
  assumes "appendRoutineRunEntryV1 env e d = Inr d'"
  shows "d' = d\<lparr>rs_runs := rs_runs d'\<rparr>"
  using assms
  by (auto simp: appendRoutineRunEntryV1_def rbind_Inr_iff Let_def split: option.splits)

lemma enqueue_frame:
  assumes "enqueueWithin env now i trigger k delivery d = Inr (answer, d')"
  shows "d' = d\<lparr>rs_queue := rs_queue d'\<rparr>"
  using assms by (auto simp: enqueueWithin_def rbind_Inr_iff Let_def split: option.splits if_splits)

lemma failureRecords_frame:
  assumes "failureRecords env runId i name said now d = Inr d'"
  shows "d' = d\<lparr>rs_inbox := rs_inbox d', rs_inboxCursor := rs_inboxCursor d'\<rparr>"
  using assms by (auto simp: failureRecords_def rbind_Inr_iff Let_def split: option.splits if_splits)

lemma recordFailureInbox_frame:
  assumes "recordFailureInbox env fire outcome now d = Inr d'"
  shows "d' = d\<lparr>rs_inbox := rs_inbox d', rs_inboxCursor := rs_inboxCursor d'\<rparr>"
  using assms failureRecords_frame
  by (auto simp: recordFailureInbox_def Let_def split: option.splits)

lemma frame_same:
  "d' = d\<lparr>rs_runs := x\<rparr> \<Longrightarrow> same_clocks d d'"
  "d' = d\<lparr>rs_queue := q\<rparr> \<Longrightarrow> same_clocks d d'"
  "d' = d\<lparr>rs_inbox := b, rs_inboxCursor := c\<rparr> \<Longrightarrow> same_clocks d d'"
  by (simp_all add: same_clocks_def)

lemmas op_same = append_frame [THEN frame_same(1)] enqueue_frame [THEN frame_same(2)]
  failureRecords_frame [THEN frame_same(3)] recordFailureInbox_frame [THEN frame_same(3)]

lemma same_clocks_views: "same_clocks d d' \<Longrightarrow> clockAt d' = clockAt d \<and> recordAt d' = recordAt d"
  by (auto simp: same_clocks_def clockAt_def recordAt_def fun_eq_iff)

end
