(* ===== verification/Routine_Claims.thy ===== *)
theory Routine_Claims
  imports Routine_Frame
begin

text \<open>
  What is true of the records and clocks of Routines whatever the scheduler, the commands and the deliveries
  do, in terms of the firings claimed so far: \<open>clocks_ahead\<close>. A clock is ahead of every occurrence claimed
  for its Routine, and a Routine without a clock of its present timing was edited after them.
\<close>

section \<open>The invariant\<close>

definition occurrence_claimed :: "routine_fire list \<Rightarrow> string \<Rightarrow> int \<Rightarrow> bool" where
  "occurrence_claimed fires i t \<longleftrightarrow> (\<exists>f \<in> set fires. rf_routineId f = i \<and> rf_dueAt f = Some t)"

definition recurring :: "routine_env \<Rightarrow> jstr \<Rightarrow> bool" where
  "recurring env schedule \<longleftrightarrow>
     (\<forall>zone n since anchor. normalizeRoutineScheduleV1 (rv_calendar env) schedule zone = Inr n \<and>
        since \<le> ROUTINE_HORIZON \<longrightarrow> nextRoutineRunV1 (rv_calendar env) n since anchor \<noteq> None)"

definition storedClock :: "routine_env \<Rightarrow> routine_store \<Rightarrow> string \<Rightarrow> schedule_state option" where
  "storedClock env d i = Option.bind (clockAt d i) (\<lambda>v.
     case decodeRoutineScheduleStateV1 (rv_parse env) v of Inl e \<Rightarrow> None | Inr s \<Rightarrow> Some s)"

definition records_ok :: "routine_env \<Rightarrow> routine_store \<Rightarrow> bool" where
  "records_ok env d \<longleftrightarrow> kv_sorted (rs_routines d) \<and>
     (\<forall>k v r. kv_get (rs_routines d) k = Some v \<and> decodeRoutineRecordV1 (rv_parse env) v = Inr r \<longrightarrow>
        k = routineKeyV1 (rr_id r) \<and> in_time (timeOf env (rr_updatedAt r)))"

definition anchored :: "routine_env \<Rightarrow> routine_fire list \<Rightarrow> routine_store \<Rightarrow> string \<Rightarrow> bool" where
  "anchored env fires d i \<longleftrightarrow>
     (\<forall>t r. occurrence_claimed fires i t \<and> readRoutine env d i = Some r \<longrightarrow>
        (t \<le> timeOf env (rr_updatedAt r) \<or> (\<exists>s. storedClock env d i = Some s \<and> ss_anchor s = rr_updatedAt r)) \<and>
        (\<forall>schedule. rr_schedule r = Some schedule \<longrightarrow> recurring env schedule))"

definition ahead :: "routine_env \<Rightarrow> routine_fire list \<Rightarrow> routine_store \<Rightarrow> string \<Rightarrow> bool" where
  "ahead env fires d i \<longleftrightarrow>
     (\<forall>t. occurrence_claimed fires i t \<and> clockAt d i \<noteq> None \<longrightarrow> (\<exists>s. storedClock env d i = Some s \<and> t < ss_dueAt s))"

definition clocks_ahead :: "routine_env \<Rightarrow> int \<Rightarrow> routine_fire list \<Rightarrow> routine_store \<Rightarrow> bool" where
  "clocks_ahead env now fires d \<longleftrightarrow>
     records_ok env d \<and> (\<forall>i t. occurrence_claimed fires i t \<longrightarrow> t \<le> now) \<and>
     (\<forall>i. ahead env fires d i) \<and> (\<forall>i. anchored env fires d i)"

text \<open>The clocks that the listing of Routines answers.\<close>

definition good_clock :: "routine_env \<Rightarrow> routine_fire list \<Rightarrow> routine_store \<Rightarrow> routine_record \<times> schedule_state \<Rightarrow> bool" where
  "good_clock env fires d clock \<longleftrightarrow>
     (case clock of (r, s) \<Rightarrow> readRoutine env d (rr_id r) = Some r \<and> clock_ok (rv_parse env) s \<and>
        ss_anchor s = rr_updatedAt r \<and> rr_enabled r \<and> rr_schedule r \<noteq> None \<and>
        (\<forall>t. occurrence_claimed fires (rr_id r) t \<longrightarrow> t < ss_dueAt s))"

section \<open>Occurrences of a normalized schedule\<close>

lemma normalized_facts:
  assumes "routine_env_ok env" and "normalizeRoutineScheduleV1 (rv_calendar env) schedule zone = Inr n"
  shows "text_ok 64 zone" and "scheduleTimezone n = zone"
    and "case n of Interval_Schedule ms z \<Rightarrow> 0 < ms \<and> ms \<le> int ROUTINE_MAX_INTERVAL_MS
         | Cron_Schedule p z \<Rightarrow> True"
proof -
  have "isRoutineTimezoneV1 (rv_calendar env) zone"
    using assms(2) by (auto simp: normalizeRoutineScheduleV1_def Let_def split: if_splits)
  then show "text_ok 64 zone"
    using assms(1) by (auto simp: isRoutineTimezoneV1_def text_ok_def envD)
  show "scheduleTimezone n = zone"
    using assms(2)
    by (auto simp: normalizeRoutineScheduleV1_def Let_def rbind_Inr_iff scheduleTimezone_def
        split: if_splits option.splits dest!: cronOf_Inr)
  have "ROUTINE_MIN_INTERVAL_MS \<le> m \<Longrightarrow> 0 < m" for m by (simp add: ROUTINE_MIN_INTERVAL_MS_def)
  then show "case n of Interval_Schedule ms z \<Rightarrow> 0 < ms \<and> ms \<le> int ROUTINE_MAX_INTERVAL_MS
      | Cron_Schedule p z \<Rightarrow> True"
    using assms(2)
    by (fastforce simp: normalizeRoutineScheduleV1_def Let_def rbind_Inr_iff
        split: if_splits option.splits dest!: cronOf_Inr dest: parseEveryDuration_bounds)
qed

lemma next_run_bounds:
  assumes "routine_env_ok env" and "normalizeRoutineScheduleV1 (rv_calendar env) schedule zone = Inr n"
    and "since \<le> ROUTINE_HORIZON" and "in_time anchor"
    and "nextRoutineRunV1 (rv_calendar env) n since anchor = Some t"
  shows "since < t" and "t \<le> 2 * ROUTINE_HORIZON"
proof -
  show "since < t"
  proof (cases "anchor \<le> since")
    case True
    show ?thesis by (rule next_after [OF envD(1) [OF assms(1)] normalized_positive [OF assms(2)] True assms(5)])
  next
    case False
    then show ?thesis using assms(5) envD(1) [OF assms(1)]
      by (auto simp: nextRoutineRunV1_def calendar_ok_def split: normalized_schedule.splits)
  qed
  show "t \<le> 2 * ROUTINE_HORIZON"
  proof (cases n)
    case (Cron_Schedule p z)
    then show ?thesis using assms(3,5) envD(4) [OF assms(1)] by (auto simp: nextRoutineRunV1_def)
  next
    case (Interval_Schedule ms z)
    then have ms: "0 < ms" "ms \<le> int ROUTINE_MAX_INTERVAL_MS" using normalized_facts(3) [OF assms(1,2)] by auto
    have "(since - anchor) div ms * ms \<le> since - anchor" using ms(1) by (simp add: minus_mod_eq_div_mult [symmetric])
    then have "((since - anchor) div ms + 1) * ms \<le> since - anchor + ms" by (simp add: distrib_right)
    then show ?thesis
      using assms(3,4,5) ms Interval_Schedule
      by (auto simp: nextRoutineRunV1_def Let_def ROUTINE_HORIZON_def ROUTINE_MAX_INTERVAL_MS_def in_time_def
          split: if_splits)
  qed
qed

lemma normalized_other_zone:
  assumes "normalizeRoutineScheduleV1 cal schedule zone = Inr (Cron_Schedule p z)"
    and "normalizeRoutineScheduleV1 cal schedule zone' = Inr n"
  shows "\<exists>z'. n = Cron_Schedule p z'"
  using assms
  by (auto simp: normalizeRoutineScheduleV1_def Let_def rbind_Inr_iff split: if_splits option.splits dest!: cronOf_Inr)

lemma recurring_once:
  assumes "routine_env_ok env" and "normalizeRoutineScheduleV1 (rv_calendar env) schedule zone = Inr n"
    and "nextRoutineRunV1 (rv_calendar env) n since anchor = Some t" and "since \<le> ROUTINE_HORIZON"
  shows "recurring env schedule"
  unfolding recurring_def
proof (intro allI impI, elim conjE)
  fix zone' n' since' anchor'
  assume n': "normalizeRoutineScheduleV1 (rv_calendar env) schedule zone' = Inr n'" and since': "since' \<le> ROUTINE_HORIZON"
  show "nextRoutineRunV1 (rv_calendar env) n' since' anchor' \<noteq> None"
  proof (cases n')
    case (Interval_Schedule ms z)
    then show ?thesis by (simp add: nextRoutineRunV1_def Let_def)
  next
    case (Cron_Schedule p z)
    obtain z0 where z0: "n = Cron_Schedule p z0"
      using normalized_other_zone [OF n' [unfolded Cron_Schedule] assms(2)] by blast
    show ?thesis
    proof
      assume "nextRoutineRunV1 (rv_calendar env) n' since' anchor' = None"
      then have "cal_next (rv_calendar env) p z since' = None" by (simp add: Cron_Schedule nextRoutineRunV1_def)
      then have "cal_next (rv_calendar env) p z0 since = None" using envD(5) [OF assms(1)] since' assms(4) by blast
      with assms(3) z0 show False by (simp add: nextRoutineRunV1_def)
    qed
  qed
qed

section \<open>What keeps it\<close>

lemma storedClock_simps [simp]:
  "clock_ok (rv_parse env) s \<Longrightarrow>
    storedClock env (putClock i s d) j = (if j = i then Some s else storedClock env d j)"
  "storedClock env (putRoutine i r d) j = storedClock env d j"
  "storedClock env (dropClock i d) j = (if j = i then None else storedClock env d j)"
  by (simp_all add: storedClock_def clock_round_trip)

lemma readRoutine_simps [simp]:
  "routine_ok (rv_parse env) r \<Longrightarrow>
    readRoutine env (putRoutine i r d) j = (if j = i then Some r else readRoutine env d j)"
  "readRoutine env (putClock i s d) j = readRoutine env d j"
  "readRoutine env (dropClock i d) j = readRoutine env d j"
  by (simp_all add: readRoutine_recordAt routine_round_trip)

lemma readRoutine_same: "same_clocks d d' \<Longrightarrow> readRoutine env d' = readRoutine env d"
  by (simp add: fun_eq_iff readRoutine_recordAt same_clocks_views)

lemma storedClock_same: "same_clocks d d' \<Longrightarrow> storedClock env d' = storedClock env d"
  by (simp add: fun_eq_iff storedClock_def same_clocks_views)

lemma storedClock_Some: "storedClock env d i = Some s \<longleftrightarrow>
    (\<exists>v. clockAt d i = Some v \<and> decodeRoutineScheduleStateV1 (rv_parse env) v = Inr s)"
proof (cases "clockAt d i")
  case (Some v)
  then show ?thesis
    by (cases "decodeRoutineScheduleStateV1 (rv_parse env) v") (simp_all add: storedClock_def)
qed (simp add: storedClock_def)

lemma readRoutine_Some: "readRoutine env d i = Some r \<longleftrightarrow>
    (\<exists>v. recordAt d i = Some v \<and> decodeRoutineRecordV1 (rv_parse env) v = Inr r)"
proof (cases "recordAt d i")
  case (Some v)
  then show ?thesis
    by (cases "decodeRoutineRecordV1 (rv_parse env) v") (simp_all add: readRoutine_recordAt)
qed (simp add: readRoutine_recordAt)

lemma storedClock_ok: "storedClock env d i = Some s \<Longrightarrow> clock_ok (rv_parse env) s"
  by (auto simp: storedClock_Some dest: decodeRoutineScheduleStateV1_Inr)

lemma readRoutine_ok: "readRoutine env d i = Some r \<Longrightarrow> routine_ok (rv_parse env) r"
  by (auto simp: readRoutine_Some dest: decodeRoutineRecordV1_Inr)

lemma records_at:
  assumes "records_ok env d" and "readRoutine env d i = Some r"
  shows "rr_id r = i" and "in_time (timeOf env (rr_updatedAt r))"
proof -
  obtain v where v: "kv_get (rs_routines d) (routineKeyV1 i) = Some v"
    "decodeRoutineRecordV1 (rv_parse env) v = Inr r"
    using assms(2) by (auto simp: readRoutine_def split: option.splits sum.splits)
  have "routineKeyV1 i = routineKeyV1 (rr_id r) \<and> in_time (timeOf env (rr_updatedAt r))"
    using assms(1) v unfolding records_ok_def by blast
  then show "rr_id r = i" and "in_time (timeOf env (rr_updatedAt r))" by simp_all
qed

lemma records_put:
  assumes "records_ok env d" and "routine_ok (rv_parse env) r" and "in_time (timeOf env (rr_updatedAt r))"
  shows "records_ok env (putRoutine (rr_id r) r d)"
  using assms by (auto simp: records_ok_def routine_round_trip)

lemma claims_same: "clocks_ahead env now fires d \<Longrightarrow> same_clocks d d' \<Longrightarrow> clocks_ahead env now fires d'"
  by (simp add: clocks_ahead_def ahead_def anchored_def readRoutine_same storedClock_same same_clocks_views)
    (simp add: records_ok_def same_clocks_def)

lemma claims_later: "clocks_ahead env now fires d \<Longrightarrow> now \<le> now' \<Longrightarrow> clocks_ahead env now' fires d"
  by (fastforce simp: clocks_ahead_def)

lemma claims_clock:
  assumes "clocks_ahead env now fires d" and "clock_ok (rv_parse env) s"
    and "\<And>t. occurrence_claimed fires i t \<Longrightarrow> t < ss_dueAt s"
    and "\<And>t r. occurrence_claimed fires i t \<Longrightarrow> readRoutine env d i = Some r \<Longrightarrow>
      t \<le> timeOf env (rr_updatedAt r) \<or> ss_anchor s = rr_updatedAt r"
  shows "clocks_ahead env now fires (putClock i s d)"
  using assms by (auto simp: clocks_ahead_def ahead_def anchored_def records_ok_def)

lemma claims_drop:
  assumes "clocks_ahead env now fires d"
    and "\<And>t r. occurrence_claimed fires i t \<Longrightarrow> readRoutine env d i = Some r \<Longrightarrow> t \<le> timeOf env (rr_updatedAt r)"
  shows "clocks_ahead env now fires (dropClock i d)"
  using assms by (auto simp: clocks_ahead_def ahead_def anchored_def records_ok_def)

lemma claims_record:
  assumes "clocks_ahead env now fires d" and "routine_ok (rv_parse env) r" and "rr_id r = i"
    and "in_time (timeOf env (rr_updatedAt r))"
    and "\<And>t. occurrence_claimed fires i t \<Longrightarrow> t \<le> timeOf env (rr_updatedAt r) \<or>
      (\<exists>s. storedClock env d i = Some s \<and> ss_anchor s = rr_updatedAt r)"
    and "\<And>t schedule. occurrence_claimed fires i t \<Longrightarrow> rr_schedule r = Some schedule \<Longrightarrow> recurring env schedule"
  shows "clocks_ahead env now fires (putRoutine i r d)"
proof -
  have "records_ok env (putRoutine i r d)"
    using records_put [OF _ assms(2,4)] assms(1,3) by (simp add: clocks_ahead_def)
  then show ?thesis using assms(1,2,5,6) by (auto simp: clocks_ahead_def ahead_def anchored_def)
qed

text \<open>A record written again with nothing of its timing changed.\<close>

lemma claims_touch:
  assumes "clocks_ahead env now fires d" and "readRoutine env d i = Some r0" and "routine_ok (rv_parse env) r"
    and "rr_id r = rr_id r0" and "rr_updatedAt r = rr_updatedAt r0" and "rr_schedule r = rr_schedule r0"
  shows "clocks_ahead env now fires (putRoutine i r d)"
  using assms(1,2) records_at [OF _ assms(2)] assms(4-6)
  by (intro claims_record [OF assms(1,3)]) (auto simp: clocks_ahead_def anchored_def)

text \<open>A record rewritten now.\<close>

lemma claims_edit:
  assumes "routine_env_ok env" and "in_time now" and "clocks_ahead env now fires d"
    and "routine_ok (rv_parse env) r" and "rr_updatedAt r = rv_iso env now" and "rr_id r = i"
    and "\<And>t schedule. occurrence_claimed fires i t \<Longrightarrow> rr_schedule r = Some schedule \<Longrightarrow> recurring env schedule"
  shows "clocks_ahead env now fires (putRoutine i r d)"
proof (rule claims_record [OF assms(3,4,6) _ _ assms(7)])
  have time: "timeOf env (rr_updatedAt r) = now" using assms(1,2,5) by (simp add: timeOf_iso)
  then show "in_time (timeOf env (rr_updatedAt r))" using assms(2) by simp
  show "t \<le> timeOf env (rr_updatedAt r) \<or> (\<exists>s. storedClock env d i = Some s \<and> ss_anchor s = rr_updatedAt r)"
    if "occurrence_claimed fires i t" for t
    using assms(3) that time by (auto simp: clocks_ahead_def)
qed

section \<open>The listing of clocks\<close>

lemma stored_clock_read:
  assumes "clockAt d i = Some v" and "storedClock env d i = Some s"
  shows "storedRoutineClockV1 env (clockAt d i) timezone = Some s"
proof -
  have v: "decodeRoutineScheduleStateV1 (rv_parse env) v = Inr s"
    using assms by (auto simp: storedClock_def split: sum.splits)
  then have "jget v ''timezone'' \<noteq> None"
    by (auto simp: decodeRoutineScheduleStateV1_def rbind_Inr_iff routineText_def split: option.splits)
  then show ?thesis using v assms(1) by (auto simp: storedRoutineClockV1_def split: json.splits)
qed

lemma rebuilt_ok:
  assumes "routine_env_ok env" and "in_time now" and "clocks_ahead env now fires d"
    and "readRoutine env d (rr_id r) = Some r" and "rr_schedule r = Some schedule"
    and "normalizeRoutineScheduleV1 (rv_calendar env) schedule timezone = Inr n"
    and "pred_option (clock_ok (rv_parse env)) stored"
    and "\<And>t. occurrence_claimed fires (rr_id r) t \<Longrightarrow> stored = storedClock env d (rr_id r)"
  shows "clock_ok (rv_parse env) (rebuiltClock env r stored n now) \<and>
    (\<forall>t. occurrence_claimed fires (rr_id r) t \<longrightarrow> t < ss_dueAt (rebuiltClock env r stored n now))"
proof -
  let ?anchor = "timeOf env (rr_updatedAt r)"
  let ?rezoned = "case stored of None \<Rightarrow> False | Some s \<Rightarrow> ss_anchor s = rr_updatedAt r"
  let ?since = "if ?rezoned \<and> now > ?anchor then now else ?anchor"
  have anchor: "in_time ?anchor" using records_at(2) assms(3,4) by (auto simp: clocks_ahead_def)
  have r: "routine_ok (rv_parse env) r" using assms(4) by (rule readRoutine_ok)
  have since: "in_time ?since" "?anchor \<le> ?since" using anchor assms(2) by auto
  let ?due = "case nextRoutineRunV1 (rv_calendar env) n ?since ?anchor of None \<Rightarrow> ?since | Some t \<Rightarrow> t"
  have due: "?since \<le> ?due" "?due \<le> 2 * ROUTINE_HORIZON"
    using next_run_bounds [OF assms(1,6) _ anchor, of ?since] since
    by (auto simp: in_time_def split: option.splits)
  have epoch: "epoch_ok ?due"
    using due since by (simp add: in_time_def epoch_ok_def MAX_SAFE_INTEGER_def ROUTINE_HORIZON_def)
  have zone: "scheduleTimezone n = timezone" "text_ok 64 timezone"
    using normalized_facts [OF assms(1,6)] by auto
  have ok: "clock_ok (rv_parse env) (rebuiltClock env r stored n now)"
    using r zone epoch assms(7)
    by (auto simp: rebuiltClock_def Let_def clock_ok_def routine_ok_def split: option.splits)
  have "t < ?due" if t: "occurrence_claimed fires (rr_id r) t" for t
  proof -
    have stored: "stored = storedClock env d (rr_id r)" using assms(8) [OF t] .
    have "anchored env fires d (rr_id r)" using assms(3) by (simp add: clocks_ahead_def)
    then have "t \<le> ?anchor \<or> (\<exists>s. storedClock env d (rr_id r) = Some s \<and> ss_anchor s = rr_updatedAt r)"
      and "recurring env schedule"
      using t assms(4,5) unfolding anchored_def by blast+
    then have anch: "t \<le> ?anchor \<or> ?rezoned" using stored by auto
    have "t \<le> now" using assms(3) t by (auto simp: clocks_ahead_def)
    with anch have "t \<le> ?since" by auto
    moreover have "nextRoutineRunV1 (rv_calendar env) n ?since ?anchor \<noteq> None"
      using \<open>recurring env schedule\<close> assms(6) since(1) unfolding recurring_def in_time_def by blast
    ultimately show ?thesis
      using next_run_bounds(1) [OF assms(1,6) _ anchor, of ?since] since(1) by (fastforce simp: in_time_def)
  qed
  with ok show ?thesis by (simp add: rebuiltClock_def Let_def)
qed

lemma aheadD:
  assumes "clocks_ahead env now fires d" and "occurrence_claimed fires i t" and "clockAt d i \<noteq> None"
  obtains s where "storedClock env d i = Some s" and "t < ss_dueAt s"
proof -
  have "ahead env fires d i" using assms(1) by (simp add: clocks_ahead_def)
  then have "\<exists>s. storedClock env d i = Some s \<and> t < ss_dueAt s"
    using assms(2,3) unfolding ahead_def by blast
  then show ?thesis using that by blast
qed

lemma anchoredD:
  assumes "clocks_ahead env now fires d" and "occurrence_claimed fires i t" and "readRoutine env d i = Some r"
  shows "t \<le> timeOf env (rr_updatedAt r) \<or> (\<exists>s. storedClock env d i = Some s \<and> ss_anchor s = rr_updatedAt r)"
  using assms unfolding clocks_ahead_def anchored_def by blast

lemma persisted_eq:
  assumes "clocks_ahead env now fires d" and "occurrence_claimed fires i t"
  shows "storedRoutineClockV1 env (clockAt d i) timezone = storedClock env d i"
proof (cases "clockAt d i")
  case None
  then show ?thesis by (simp add: storedRoutineClockV1_def storedClock_def)
next
  case (Some v)
  obtain s where s: "storedClock env d i = Some s"
    using aheadD [OF assms] Some by blast
  then show ?thesis using stored_clock_read [OF Some s] by simp
qed

lemma persisted_ok: "pred_option (clock_ok (rv_parse env)) (storedRoutineClockV1 env v timezone)"
  by (auto simp: storedRoutineClockV1_def Let_def split: option.splits sum.splits dest: decodeRoutineScheduleStateV1_Inr)

lemma clockOf_good:
  assumes env: "routine_env_ok env" "in_time now" and ok: "clocks_ahead env now fires d"
    and listed: "(k, value) \<in> set (rs_routines d)"
    and clock: "clockOf env timezone now value d = Some (r, persisted, s)"
  shows "good_clock env fires d (r, s)"
proof -
  obtain schedule n where v: "decodeRoutineRecordV1 (rv_parse env) value = Inr r"
    and schedule: "rr_schedule r = Some schedule" and enabled: "rr_enabled r"
    and n: "normalizeRoutineScheduleV1 (rv_calendar env) schedule timezone = Inr n"
    and persisted: "persisted = storedRoutineClockV1 env (clockAt d (rr_id r)) timezone"
    and s: "s = routineScheduleStateV1 env r persisted n now"
    using clock by (auto simp: clockOf_def clockAt_def Let_def split: sum.splits option.splits if_splits)
  have records: "records_ok env d" using ok by (simp add: clocks_ahead_def)
  then have "kv_get (rs_routines d) k = Some value" using listed by (simp add: records_ok_def kv_sorted_get)
  then have "recordAt d (rr_id r) = Some value"
    using records v unfolding records_ok_def recordAt_def by metis
  then have read: "readRoutine env d (rr_id r) = Some r" using v by (simp add: readRoutine_Some)
  have stored: "occurrence_claimed fires (rr_id r) t \<Longrightarrow> persisted = storedClock env d (rr_id r)" for t
    unfolding persisted by (rule persisted_eq [OF ok])
  have okp: "pred_option (clock_ok (rv_parse env)) persisted" unfolding persisted by (rule persisted_ok)
  note rebuilt = rebuilt_ok [OF env ok read schedule n okp stored]
  have "clock_ok (rv_parse env) s \<and> ss_anchor s = rr_updatedAt r \<and>
    (\<forall>t. occurrence_claimed fires (rr_id r) t \<longrightarrow> t < ss_dueAt s)"
  proof (cases "\<exists>s0. persisted = Some s0 \<and> ss_anchor s0 = rr_updatedAt r \<and> ss_timezone s0 = scheduleTimezone n")
    case True
    then have kept: "persisted = Some s" "ss_anchor s = rr_updatedAt r"
      using s by (auto simp: routineScheduleStateV1_def)
    then have "t < ss_dueAt s" if "occurrence_claimed fires (rr_id r) t" for t
    proof -
      have read: "storedClock env d (rr_id r) = Some s" using stored [OF that] kept(1) by simp
      then have "clockAt d (rr_id r) \<noteq> None" by (auto simp: storedClock_Some)
      then show ?thesis using aheadD [OF ok that] read by fastforce
    qed
    then show ?thesis using kept okp by simp
  next
    case False
    then have "s = rebuiltClock env r persisted n now"
      using s by (auto simp: routineScheduleStateV1_def split: option.splits)
    then show ?thesis using rebuilt by (simp add: rebuiltClock_def Let_def)
  qed
  then show ?thesis using read enabled schedule by (simp add: good_clock_def)
qed

lemma good_put:
  assumes "clocks_ahead env now fires d" and "good_clock env fires d (r, s)"
    and "clock_ok (rv_parse env) s'" and "ss_anchor s' = ss_anchor s" and "ss_dueAt s' = ss_dueAt s"
  shows "clocks_ahead env now fires (putClock (rr_id r) s' d)"
  using assms by (intro claims_clock) (auto simp: good_clock_def)

lemma good_routines: "rs_routines d' = rs_routines d \<Longrightarrow> good_clock env fires d' c = good_clock env fires d c"
  by (simp add: good_clock_def readRoutine_def)

lemma clocksFrom_good:
  assumes "routine_env_ok env" "in_time now" "clocks_ahead env now fires d" "set recs \<subseteq> set (rs_routines d)"
    and "clocksFrom env timezone now recs d = (cs, d')"
  shows "clocks_ahead env now fires d' \<and> d' = d\<lparr>rs_schedules := rs_schedules d'\<rparr> \<and>
    (\<forall>c \<in> set cs. good_clock env fires d c)"
  using assms(3-5)
proof (induction recs arbitrary: d cs)
  case (Cons rec rest)
  obtain key v where rec: "rec = (key, v)" by (cases rec)
  show ?case
  proof (cases "clockOf env timezone now v d")
    case None
    then show ?thesis using Cons rec by simp
  next
    case (Some c)
    obtain r persisted s where c: "c = (r, persisted, s)" by (cases c)
    let ?d = "if persisted \<noteq> None \<and> persisted \<noteq> Some s then putClock (rr_id r) s d else d"
    obtain cs' where cs': "clocksFrom env timezone now rest ?d = (cs', d')" "cs = (r, s) # cs'"
      using Cons.prems(3) Some c rec by (simp add: Let_def split: prod.splits)
    have good: "good_clock env fires d (r, s)"
      using clockOf_good [OF assms(1,2) Cons.prems(1), of key v] Cons.prems(2) Some c rec by simp
    then have "clocks_ahead env now fires ?d"
      using good_put [OF Cons.prems(1) good, of s] Cons.prems(1) by (auto simp: good_clock_def)
    then have rest: "clocks_ahead env now fires d' \<and> d' = ?d\<lparr>rs_schedules := rs_schedules d'\<rparr> \<and>
        (\<forall>c \<in> set cs'. good_clock env fires ?d c)"
      using Cons.prems(2) by (intro Cons.IH [OF _ _ cs'(1)]) simp_all
    have frame: "?d\<lparr>rs_schedules := rs_schedules d'\<rparr> = d\<lparr>rs_schedules := rs_schedules d'\<rparr>"
      by (simp add: putClock_def)
    have same: "good_clock env fires ?d c = good_clock env fires d c" for c
      by (rule good_routines) simp
    show ?thesis
    proof (intro conjI)
      show "clocks_ahead env now fires d'" using rest by (rule conjunct1)
      show "d' = d\<lparr>rs_schedules := rs_schedules d'\<rparr>"
        using rest [THEN conjunct2, THEN conjunct1] unfolding frame .
      show "\<forall>c \<in> set cs. good_clock env fires d c"
        using rest [THEN conjunct2, THEN conjunct2] good unfolding cs'(2) same by simp
    qed
  qed
qed simp

lemma clocks_good:
  assumes "routine_env_ok env" "in_time now" "clocks_ahead env now fires d" "clocks env timezone now d = (cs, d')"
  shows "clocks_ahead env now fires d'" and "d' = d\<lparr>rs_schedules := rs_schedules d'\<rparr>"
    and "c \<in> set cs \<Longrightarrow> good_clock env fires d' c"
proof -
  have "clocks_ahead env now fires d' \<and> d' = d\<lparr>rs_schedules := rs_schedules d'\<rparr> \<and>
      (\<forall>c \<in> set cs. good_clock env fires d c)"
    using assms(4) by (intro clocksFrom_good [OF assms(1-3)]) (auto simp: clocks_def dest: in_set_takeD)
  then have ok: "clocks_ahead env now fires d'" and frame: "d' = d\<lparr>rs_schedules := rs_schedules d'\<rparr>"
    and good: "\<forall>c \<in> set cs. good_clock env fires d c" by blast+
  show "clocks_ahead env now fires d'" by (rule ok)
  show "d' = d\<lparr>rs_schedules := rs_schedules d'\<rparr>" by (rule frame)
  have "rs_routines d' = rs_routines d" by (subst frame) simp
  then show "c \<in> set cs \<Longrightarrow> good_clock env fires d' c" using good good_routines by blast
qed

section \<open>Deferral and settlement\<close>

lemma deferred_ok:
  assumes "in_time now" and "clock_ok dp s"
  shows "clock_ok dp (s\<lparr>ss_deferredUntil := Some (now + ROUTINE_DEFERRAL_MS)\<rparr>)"
  using assms
  by (simp add: clock_ok_def epoch_ok_def in_time_def ROUTINE_DEFERRAL_MS_def ROUTINE_HORIZON_def MAX_SAFE_INTEGER_def)

lemma defer_claims:
  assumes "routine_env_ok env" "in_time now" "clocks_ahead env now fires d"
  shows "clocks_ahead env now fires (defer_routines env timezone now d)"
proof -
  obtain cs d' where cs: "clocks env timezone now d = (cs, d')" by (cases "clocks env timezone now d")
  let ?hold = "\<lambda>(record, state). putClock (rr_id record)
    (state\<lparr>ss_deferredUntil := Some (now + ROUTINE_DEFERRAL_MS)\<rparr>)"
  have "clocks_ahead env now fires e \<Longrightarrow> \<forall>c \<in> set cs. good_clock env fires e c \<Longrightarrow>
    clocks_ahead env now fires (fold ?hold cs e)" for e
  proof (induction cs arbitrary: e)
    case (Cons c cs)
    obtain r s where c: "c = (r, s)" by (cases c)
    let ?e = "putClock (rr_id r) (s\<lparr>ss_deferredUntil := Some (now + ROUTINE_DEFERRAL_MS)\<rparr>) e"
    have good: "good_clock env fires e (r, s)" using Cons.prems(2) c by simp
    have "clocks_ahead env now fires ?e"
      using good by (intro good_put [OF Cons.prems(1) good]) (auto simp: good_clock_def intro: deferred_ok [OF assms(2)])
    moreover have "\<forall>c \<in> set cs. good_clock env fires ?e c"
      using Cons.prems(2) by (simp add: good_routines [of ?e e])
    ultimately have "clocks_ahead env now fires (fold ?hold cs ?e)" by (rule Cons.IH)
    then show ?case by (simp add: c)
  qed simp
  then show ?thesis using clocks_good(1,3) [OF assms cs] by (simp add: defer_routines_def cs)
qed

lemma recurring_of:
  assumes "clocks_ahead env now fires d" and "occurrence_claimed fires i t" and "readRoutine env d i = Some r"
    and "rr_schedule r = Some schedule"
  shows "recurring env schedule"
  using assms unfolding clocks_ahead_def anchored_def by blast

lemma claims_reclock:
  assumes "clocks_ahead env now fires d" and "storedClock env d i = Some s" and "clock_ok (rv_parse env) s'"
    and "ss_anchor s' = ss_anchor s" and "ss_dueAt s' = ss_dueAt s"
  shows "clocks_ahead env now fires (putClock i s' d)"
proof (rule claims_clock [OF assms(1,3)])
  have "clockAt d i \<noteq> None" using assms(2) by (auto simp: storedClock_Some)
  then show "t < ss_dueAt s'" if "occurrence_claimed fires i t" for t
    using aheadD [OF assms(1) that] assms(2,5) by fastforce
  show "t \<le> timeOf env (rr_updatedAt r) \<or> ss_anchor s' = rr_updatedAt r"
    if "occurrence_claimed fires i t" "readRoutine env d i = Some r" for t r
    using anchoredD [OF assms(1) that] assms(2,4) by auto
qed

lemma pause_frame:
  assumes "pauseRoutine env fire n now d = Inr d'"
  shows "rs_schedules d' = rs_schedules d"
  using assms
  by (auto simp: pauseRoutine_def same_clocks_def split: option.splits if_splits dest!: op_same(1))

lemma pause_claims:
  assumes "routine_env_ok env" "in_time now" "clocks_ahead env now fires d"
    and "pauseRoutine env fire n now d = Inr d'"
  shows "clocks_ahead env now fires d'"
proof (cases "readRoutine env d (rf_routineId fire)")
  case None
  then show ?thesis using assms by (simp add: pauseRoutine_def)
next
  case (Some r)
  let ?r = "r\<lparr>rr_enabled := False, rr_updatedAt := rv_iso env now\<rparr>"
  show ?thesis
  proof (cases "rr_enabled r")
    case True
    have ok: "routine_ok (rv_parse env) ?r"
      using readRoutine_ok [OF Some] iso_stamp [OF assms(1,2)] by (simp add: routine_ok_def)
    have "rr_id r = rf_routineId fire" using records_at(1) [OF _ Some] assms(3) by (simp add: clocks_ahead_def)
    then have "clocks_ahead env now fires (putRoutine (rf_routineId fire) ?r d)"
      using recurring_of [OF assms(3) _ Some] by (intro claims_edit [OF assms(1-3) ok]) simp_all
    then show ?thesis
      using assms(4) True Some op_same(1) by (auto simp: pauseRoutine_def elim: claims_same)
  next
    case False
    then show ?thesis using assms(3,4) Some by (simp add: pauseRoutine_def)
  qed
qed

definition failures_below :: "nat \<Rightarrow> routine_env \<Rightarrow> routine_store \<Rightarrow> bool" where
  "failures_below n env d \<longleftrightarrow>
     (\<forall>i s. storedClock env d i = Some s \<longrightarrow> (case ss_failures s of None \<Rightarrow> 0 | Some k \<Rightarrow> k) < n)"

lemma backoff_bounds: "1 \<le> n \<Longrightarrow> 30000 \<le> backoffAfter n \<and> backoffAfter n \<le> 1800000"
proof -
  assume "1 \<le> n"
  then consider "n = 1" | "n = 2" | "n = 3" | "4 \<le> n" by linarith
  then show ?thesis
    by cases (simp_all add: backoffAfter_def ROUTINE_FAILURE_BACKOFF_MS_def numeral_2_eq_2 numeral_3_eq_3 min_def)
qed

lemma outcome_claims:
  assumes "routine_env_ok env" "in_time now" "clocks_ahead env now fires d"
    and "failures_below MAX_SAFE_INTEGER env d" and "recordOutcomeOnClock env fire outcome now d = Inr d'"
  shows "clocks_ahead env now fires d'"
proof (cases "storedClock env d (rf_routineId fire)")
  case None
  then show ?thesis using assms(3,5)
    by (auto simp: recordOutcomeOnClock_def storedClock_def clockAt_def split: option.splits sum.splits)
next
  case (Some s)
  obtain v where v: "clockAt d (rf_routineId fire) = Some v"
    "decodeRoutineScheduleStateV1 (rv_parse env) v = Inr s"
    using Some by (auto simp: storedClock_Some)
  have ok: "clock_ok (rv_parse env) s" using Some by (rule storedClock_ok)
  show ?thesis
  proof (cases "fo_status outcome = Fire_Ok \<or> fo_status outcome = Fire_Skipped")
    case True
    have "clock_ok (rv_parse env) (s\<lparr>ss_failures := None\<rparr>)" using ok by (simp add: clock_ok_def)
    then have "clocks_ahead env now fires (putClock (rf_routineId fire) (s\<lparr>ss_failures := None\<rparr>) d)"
      by (intro claims_reclock [OF assms(3) Some]) simp_all
    then show ?thesis using assms(3,5) True v by (auto simp: recordOutcomeOnClock_def clockAt_def split: if_splits)
  next
    case False
    let ?n = "Suc (case ss_failures s of None \<Rightarrow> 0 | Some n \<Rightarrow> n)"
    let ?s = "s\<lparr>ss_failures := Some ?n, ss_deferredUntil :=
      Some (max (case ss_deferredUntil s of None \<Rightarrow> 0 | Some h \<Rightarrow> h) (now + backoffAfter ?n))\<rparr>"
    obtain e where e: "(if ?n \<ge> ROUTINE_FAILURE_PAUSE_AFTER then pauseRoutine env fire ?n now d else Inr d) = Inr e"
      "d' = putClock (rf_routineId fire) ?s e"
      using assms(5) False v
      by (simp add: recordOutcomeOnClock_def clockAt_def Let_def rbind_Inr_iff) blast
    have "clocks_ahead env now fires e" using e(1) assms(3) pause_claims [OF assms(1-3)] by (auto split: if_splits)
    moreover have "storedClock env e (rf_routineId fire) = Some s"
      using e(1) Some pause_frame by (fastforce simp: storedClock_def clockAt_def split: if_splits)
    moreover have "clock_ok (rv_parse env) ?s"
    proof -
      have "?n \<le> MAX_SAFE_INTEGER" using assms(4) Some unfolding failures_below_def by fastforce
      moreover have "epoch_ok (now + backoffAfter ?n)"
        using assms(2) backoff_bounds [of ?n]
        by (simp add: epoch_ok_def in_time_def ROUTINE_HORIZON_def MAX_SAFE_INTEGER_def)
      ultimately show ?thesis using ok by (auto simp: clock_ok_def epoch_ok_def max_def split: option.splits)
    qed
    ultimately show ?thesis unfolding e(2) by (rule claims_reclock) simp_all
  qed
qed

lemma settle_claims:
  assumes "routine_env_ok env" "in_time now" "clocks_ahead env now fires d"
    and "failures_below MAX_SAFE_INTEGER env d" and "settleFiring env fire outcome now d = Inr d'"
  shows "clocks_ahead env now fires d'"
proof -
  let ?d = "d\<lparr>rs_fires := kv_delete (routineFireKeyV1 (rf_routineId fire)) (rs_fires d)\<rparr>"
  have same: "same_clocks d ?d" by (simp add: same_clocks_def)
  have ok: "clocks_ahead env now fires ?d" using assms(3) same by (rule claims_same)
  have below: "failures_below MAX_SAFE_INTEGER env ?d"
    using assms(4) by (simp add: failures_below_def storedClock_same [OF same])
  show ?thesis
  proof (cases "recordAt d (rf_routineId fire)")
    case None
    let ?e = "?d\<lparr>rs_runs := fold kv_delete (map fst (listPrefix (routineRunPrefixV1 (rf_routineId fire))
      (rs_runs d))) (rs_runs d)\<rparr>"
    have "clocks_ahead env now fires ?e" using ok by (rule claims_same) (simp add: same_clocks_def)
    moreover have "readRoutine env ?e (rf_routineId fire) = None"
      using None by (simp add: readRoutine_recordAt recordAt_def)
    ultimately have "clocks_ahead env now fires (dropClock (rf_routineId fire) ?e)" by (intro claims_drop) simp_all
    then show ?thesis using assms(5) None by (simp add: settleFiring_def recordAt_def sweepOrphans_def Let_def)
  next
    case (Some v)
    obtain d2 d3 where steps: "recordOutcomeOnClock env fire outcome now ?d = Inr d2"
      "(if fo_status outcome \<noteq> Fire_Ok \<and> fo_status outcome \<noteq> Fire_Skipped
        then recordFailureInbox env fire outcome (rv_iso env now) d2 else Inr d2) = Inr d3"
      "appendRoutineRunEntryV1 env (settledEntry fire outcome (rv_iso env now)) d3 = Inr d'"
      using assms(5) Some by (auto simp: settleFiring_def recordAt_def Let_def rbind_Inr_iff)
    have "clocks_ahead env now fires d2" by (rule outcome_claims [OF assms(1,2) ok below steps(1)])
    then have "clocks_ahead env now fires d3" using steps(2) op_same(4) by (auto split: if_splits elim: claims_same)
    then show ?thesis using op_same(1) [OF steps(3)] by (rule claims_same)
  qed
qed

end
