(* ===== verification/Routine_Machine.thy ===== *)
theory Routine_Machine
  imports Routine_Claims
begin

text \<open>
  The store of Routines as a state machine: the alarm's drain claims and settles firings, reaps and defers
  them, the clocks are read, people and Bots send commands, deliveries come in, time passes, and any firing that
  was ever claimed may be settled at any time with any outcome. \<open>routine_step\<close> is the step relation over the whole
  store and its command receipts, \<open>routine_reachable\<close> its closure from any store whose records are filed under
  their own ids.
\<close>

section \<open>Settlement and the failure count\<close>

definition failureCount :: "schedule_state \<Rightarrow> nat" where
  "failureCount s = (case ss_failures s of None \<Rightarrow> 0 | Some n \<Rightarrow> n)"

definition settledClock :: "fire_outcome \<Rightarrow> int \<Rightarrow> schedule_state \<Rightarrow> schedule_state" where
  "settledClock outcome now s =
     (if fo_status outcome = Fire_Ok \<or> fo_status outcome = Fire_Skipped then s\<lparr>ss_failures := None\<rparr>
      else s\<lparr>ss_failures := Some (Suc (failureCount s)), ss_deferredUntil :=
        Some (max (case ss_deferredUntil s of None \<Rightarrow> 0 | Some h \<Rightarrow> h) (now + backoffAfter (Suc (failureCount s))))\<rparr>)"

lemma failures_below_iff: "failures_below n env d \<longleftrightarrow> (\<forall>i s. storedClock env d i = Some s \<longrightarrow> failureCount s < n)"
  by (simp add: failures_below_def failureCount_def)

lemma settledClock_ok:
  assumes "in_time now" and "clock_ok dp s" and "failureCount s < MAX_SAFE_INTEGER"
  shows "clock_ok dp (settledClock outcome now s)"
proof -
  have "epoch_ok (now + backoffAfter (Suc (failureCount s)))"
    using assms(1) backoff_bounds [of "Suc (failureCount s)"]
    by (simp add: epoch_ok_def in_time_def ROUTINE_HORIZON_def MAX_SAFE_INTEGER_def)
  then show ?thesis
    using assms by (auto simp: settledClock_def clock_ok_def epoch_ok_def max_def split: option.splits)
qed

lemma outcome_stored:
  assumes "in_time now" and "failures_below MAX_SAFE_INTEGER env d"
    and "recordOutcomeOnClock env fire outcome now d = Inr d'"
  shows "storedClock env d' j = (if j = rf_routineId fire
    then map_option (settledClock outcome now) (storedClock env d j) else storedClock env d j)"
proof (cases "storedClock env d (rf_routineId fire)")
  case None
  then have "d' = d" using assms(3)
    by (auto simp: recordOutcomeOnClock_def storedClock_def clockAt_def split: option.splits sum.splits)
  then show ?thesis using None by simp
next
  case (Some s)
  obtain v where v: "clockAt d (rf_routineId fire) = Some v"
    "decodeRoutineScheduleStateV1 (rv_parse env) v = Inr s"
    using Some by (auto simp: storedClock_Some)
  have "failureCount s < MAX_SAFE_INTEGER" using assms(2) Some by (simp add: failures_below_iff)
  then have ok: "clock_ok (rv_parse env) (settledClock outcome now s)"
    using settledClock_ok [OF assms(1) storedClock_ok [OF Some]] by simp
  obtain e where e: "d' = putClock (rf_routineId fire) (settledClock outcome now s) e \<or> d' = e \<and> settledClock outcome now s = s"
    "rs_schedules e = rs_schedules d"
  proof (cases "fo_status outcome = Fire_Ok \<or> fo_status outcome = Fire_Skipped")
    case True
    then show ?thesis using assms(3) v
      by (intro that [of d]) (auto simp: recordOutcomeOnClock_def settledClock_def clockAt_def split: if_splits)
  next
    case False
    then show ?thesis using assms(3) v that pause_frame
      by (simp add: recordOutcomeOnClock_def settledClock_def failureCount_def clockAt_def Let_def rbind_Inr_iff)
        (metis sum.inject(2))
  qed
  have same: "storedClock env e = storedClock env d" using e(2) by (simp add: fun_eq_iff storedClock_def clockAt_def)
  from e(1) show ?thesis
  proof
    assume "d' = putClock (rf_routineId fire) (settledClock outcome now s) e"
    then show ?thesis using ok Some by (simp add: same)
  qed (use same Some in simp)
qed

lemma recordFailureInbox_clocks:
  "recordFailureInbox env fire outcome at d = Inr d' \<Longrightarrow> storedClock env d' = storedClock env d"
  by (rule storedClock_same [OF op_same(4)])

lemma settle_stored:
  assumes "in_time now" and "failures_below MAX_SAFE_INTEGER env d"
    and "settleFiring env fire outcome now d = Inr d'"
  shows "storedClock env d' j = (if j = rf_routineId fire
    then if recordAt d j = None then None else map_option (settledClock outcome now) (storedClock env d j)
    else storedClock env d j)"
proof -
  let ?d = "d\<lparr>rs_fires := kv_delete (routineFireKeyV1 (rf_routineId fire)) (rs_fires d)\<rparr>"
  have same: "storedClock env ?d = storedClock env d" by (simp add: fun_eq_iff storedClock_def clockAt_def)
  show ?thesis
  proof (cases "recordAt d (rf_routineId fire)")
    case None
    have "storedClock env (?d\<lparr>rs_runs := rows\<rparr>) = storedClock env d" for rows
      by (simp add: fun_eq_iff storedClock_def clockAt_def)
    then show ?thesis using assms(3) None
      by (auto simp: settleFiring_def recordAt_def sweepOrphans_def Let_def)
  next
    case (Some v)
    obtain d2 d3 where steps: "recordOutcomeOnClock env fire outcome now ?d = Inr d2"
      "(if fo_status outcome \<noteq> Fire_Ok \<and> fo_status outcome \<noteq> Fire_Skipped
        then recordFailureInbox env fire outcome (rv_iso env now) d2 else Inr d2) = Inr d3"
      "appendRoutineRunEntryV1 env (settledEntry fire outcome (rv_iso env now)) d3 = Inr d'"
      using assms(3) Some by (auto simp: settleFiring_def recordAt_def Let_def rbind_Inr_iff)
    have "storedClock env d' = storedClock env d2"
      using steps(2) storedClock_same [OF op_same(1) [OF steps(3)]] recordFailureInbox_clocks
      by (auto split: if_splits)
    moreover have "failures_below MAX_SAFE_INTEGER env ?d" using assms(2) by (simp add: failures_below_iff same)
    ultimately show ?thesis using outcome_stored [OF assms(1) _ steps(1)] Some by (simp add: same)
  qed
qed

lemma settle_failures:
  assumes "in_time now" and "failures_below n env d" and "n \<le> MAX_SAFE_INTEGER"
    and "settleFiring env fire outcome now d = Inr d'"
  shows "failures_below (Suc n) env d'"
proof -
  have "failures_below MAX_SAFE_INTEGER env d" using assms(2,3) by (fastforce simp: failures_below_iff)
  note stored = settle_stored [OF assms(1) this assms(4)]
  have "failureCount (settledClock outcome now s) \<le> Suc (failureCount s)" for s
    by (simp add: settledClock_def failureCount_def)
  then show ?thesis using assms(2) unfolding failures_below_iff stored
    by (fastforce split: if_splits simp: less_Suc_eq_le intro: order_trans)
qed

lemma reap_claims:
  assumes "routine_env_ok env" "in_time now" "clocks_ahead env now fires d"
    and "failures_below n env d" and "n + length recs \<le> MAX_SAFE_INTEGER"
    and "reapFrom env firingRun now recs d = (e, d')"
  shows "clocks_ahead env now fires d'"
  using assms(3-6)
proof (induction recs arbitrary: n d)
  case (Cons rec recs)
  obtain k v where rec: "rec = (k, v)" by (cases rec)
  have settle: "clocks_ahead env now fires d'"
    if step: "(case settleFiring env fire outcome now d of
        Inl e \<Rightarrow> (Some e, d) | Inr d' \<Rightarrow> reapFrom env firingRun now recs d') = (e, d')" for fire outcome
  proof (cases "settleFiring env fire outcome now d")
    case (Inl x)
    then show ?thesis using step Cons.prems(1) by simp
  next
    case (Inr d1)
    have below: "failures_below MAX_SAFE_INTEGER env d"
      using Cons.prems(2,3) by (fastforce simp: failures_below_iff)
    have "clocks_ahead env now fires d1" by (rule settle_claims [OF assms(1,2) Cons.prems(1) below Inr])
    moreover have "failures_below (Suc n) env d1"
      using settle_failures [OF assms(2) Cons.prems(2) _ Inr] Cons.prems(3) by simp
    ultimately show ?thesis using Cons.prems(3) step Inr by (intro Cons.IH [of d1 "Suc n"]) simp_all
  qed
  have same: "same_clocks d (d\<lparr>rs_fires := x\<rparr>)" for x by (simp add: same_clocks_def)
  have skip: "clocks_ahead env now fires d'"
    if "reapFrom env firingRun now recs (d\<lparr>rs_fires := x\<rparr>) = (e, d')" for x
    using that Cons.prems claims_same [OF Cons.prems(1) same]
    by (intro Cons.IH [of "d\<lparr>rs_fires := x\<rparr>" n]) (simp_all add: failures_below_iff storedClock_same [OF same])
  have next_one: "clocks_ahead env now fires d'" if "reapFrom env firingRun now recs d = (e, d')"
    using skip [of "rs_fires d"] that by simp
  show ?case
    using Cons.prems(4) unfolding rec reapFrom.simps
    by (cases "decodeRoutineFireV1 (rv_parse env) v") (auto split: firing_run.splits if_splits intro: skip next_one settle)
qed simp

section \<open>Claiming\<close>

lemma claimed_snoc: "occurrence_claimed (fires @ [f]) i t \<longleftrightarrow> occurrence_claimed fires i t \<or> rf_routineId f = i \<and> rf_dueAt f = Some t"
  by (auto simp: occurrence_claimed_def)

lemma claims_untimed: "rf_dueAt f = None \<Longrightarrow> clocks_ahead env now (fires @ [f]) d = clocks_ahead env now fires d"
  by (simp add: clocks_ahead_def ahead_def anchored_def claimed_snoc)

lemma claims_snoc:
  assumes "clocks_ahead env now fires d" and "rf_dueAt f = Some t" and "t \<le> now"
    and "storedClock env d (rf_routineId f) = Some s" and "t < ss_dueAt s"
    and "\<And>r. readRoutine env d (rf_routineId f) = Some r \<Longrightarrow> ss_anchor s = rr_updatedAt r \<and>
      (\<forall>schedule. rr_schedule r = Some schedule \<longrightarrow> recurring env schedule)"
  shows "clocks_ahead env now (fires @ [f]) d"
proof -
  have "ahead env (fires @ [f]) d i" for i
    using assms(1-5) by (auto simp: clocks_ahead_def ahead_def claimed_snoc)
  moreover have "anchored env (fires @ [f]) d i" for i
    using assms(1-4,6) unfolding clocks_ahead_def anchored_def claimed_snoc by blast
  ultimately show ?thesis using assms(1-3) by (auto simp: clocks_ahead_def claimed_snoc)
qed

lemma writeClaim_frame:
  assumes "writeClaim env r fire now d = Inr d'"
  obtains e where "same_clocks d e" and "d' = putRoutine (rr_id r) (r\<lparr>rr_lastRunAt := Some (rv_iso env now)\<rparr>) e"
proof -
  obtain e where e: "appendRoutineRunEntryV1 env
      \<lparr>re_entryId = rf_entryId fire, re_routineId = rr_id r, re_runId = rf_fireId fire,
       re_fireId = rf_fireId fire, re_trigger = rf_trigger fire, re_status = Status_Running,
       re_startedAt = rv_iso env now, re_finishedAt = None, re_summary = None\<rparr>
      (d\<lparr>rs_fires := kv_put (routineFireKeyV1 (rr_id r)) (fireJson fire) (rs_fires d)\<rparr>) = Inr e"
    "d' = putRoutine (rr_id r) (r\<lparr>rr_lastRunAt := Some (rv_iso env now)\<rparr>) e"
    using assms by (auto simp: writeClaim_def rbind_Inr_iff)
  have "same_clocks d e" using op_same(1) [OF e(1)] by (simp add: same_clocks_def)
  then show ?thesis using e(2) that by blast
qed

lemma lastRun_ok:
  assumes "routine_env_ok env" "in_time now" "routine_ok (rv_parse env) r"
  shows "routine_ok (rv_parse env) (r\<lparr>rr_lastRunAt := Some (rv_iso env now)\<rparr>)"
  using assms iso_stamp [OF assms(1,2)] by (simp add: routine_ok_def)

lemma writeClaim_claims:
  assumes "routine_env_ok env" "in_time now" "clocks_ahead env now fires d"
    and "readRoutine env d (rr_id r) = Some r" and "writeClaim env r fire now d = Inr d'"
  shows "clocks_ahead env now fires d'"
proof -
  obtain e where e: "same_clocks d e" "d' = putRoutine (rr_id r) (r\<lparr>rr_lastRunAt := Some (rv_iso env now)\<rparr>) e"
    using writeClaim_frame [OF assms(5)] .
  have "readRoutine env e (rr_id r) = Some r" using assms(4) e(1) by (simp add: readRoutine_same)
  then show ?thesis
    unfolding e(2) using lastRun_ok [OF assms(1,2) readRoutine_ok [OF assms(4)]]
    by (intro claims_touch [OF claims_same [OF assms(3) e(1)]]) simp_all
qed

lemma claimQueued_claims:
  assumes "routine_env_ok env" "in_time now" "clocks_ahead env now fires d"
    and "claimQueued env i now d = Inr (found, d')"
  shows "clocks_ahead env now fires d'" and "found = Some f \<Longrightarrow> rf_dueAt f = None"
proof -
  have same: "same_clocks d (d\<lparr>rs_queue := q\<rparr>)" for q by (simp add: same_clocks_def)
  have "clocks_ahead env now fires d' \<and> (\<forall>f. found = Some f \<longrightarrow> rf_dueAt f = None)"
  proof (cases "waitingFor i d")
    case Nil
    then show ?thesis using assms(3,4) by (simp add: claimQueued_def)
  next
    case (Cons w ws)
    obtain k v where w: "w = (k, v)" by (cases w)
    let ?d = "d\<lparr>rs_queue := kv_delete k (rs_queue d)\<rparr>"
    have ok: "clocks_ahead env now fires ?d" by (rule claims_same [OF assms(3) same])
    show ?thesis
    proof (cases "queued v \<noteq> None \<and> readRoutine env ?d i \<noteq> None")
      case True
      then obtain q r where q: "queued v = Some q" "readRoutine env ?d i = Some r" by auto
      have i: "rr_id r = i" using records_at(1) [OF _ q(2)] ok by (simp add: clocks_ahead_def)
      show ?thesis
        using assms(4) Cons w q i writeClaim_claims [OF assms(1,2) ok, of r]
        by (auto simp: claimQueued_def Let_def rbind_Inr_iff)
    next
      case False
      then show ?thesis using assms(4) Cons w ok
        by (auto simp: claimQueued_def Let_def split: option.splits)
    qed
  qed
  then show "clocks_ahead env now fires d'" and "found = Some f \<Longrightarrow> rf_dueAt f = None" by blast+
qed

lemma claimFromQueues_claims:
  assumes "routine_env_ok env" "in_time now" "clocks_ahead env now fires d"
    and "claimFromQueues env now ids d = Inr (found, d')"
  shows "clocks_ahead env now fires d' \<and> (\<forall>f. found = Some f \<longrightarrow> rf_dueAt f = None)"
  using assms(3,4)
proof (induction ids arbitrary: d)
  case (Cons i ids)
  show ?case
  proof (cases "lockOf d i")
    case None
    then obtain found1 d1 where step: "claimQueued env i now d = Inr (found1, d1)"
      "(if found1 \<noteq> None then Inr (found1, d1) else claimFromQueues env now ids d1) = Inr (found, d')"
      using Cons.prems(2) by (auto simp: rbind_Inr_iff)
    note claimQueued_claims [OF assms(1,2) Cons.prems(1) step(1)]
    then show ?thesis using step(2) Cons.IH [of d1] by (auto split: if_splits)
  qed (use Cons in simp)
qed simp

lemma turnOff_claims:
  assumes "routine_env_ok env" "in_time now" "clocks_ahead env now fires d"
    and "good_clock env fires d (r, s)" and "turnOff env r schedule s now timezone d = Inr (found, d')"
  shows "clocks_ahead env now fires d' \<and> found = None"
proof -
  let ?r = "r\<lparr>rr_enabled := False, rr_updatedAt := rv_iso env now\<rparr>"
  have read: "readRoutine env d (rr_id r) = Some r" using assms(4) by (simp add: good_clock_def)
  have ok: "routine_ok (rv_parse env) ?r"
    using readRoutine_ok [OF read] iso_stamp [OF assms(1,2)] by (simp add: routine_ok_def)
  have put: "clocks_ahead env now fires (putRoutine (rr_id r) ?r d)"
    using recurring_of [OF assms(3) _ read] by (intro claims_edit [OF assms(1-3) ok]) simp_all
  have "clocks_ahead env now fires (dropClock (rr_id r) (putRoutine (rr_id r) ?r d))"
    using ok assms(1-3) by (intro claims_drop [OF put]) (auto simp: timeOf_iso clocks_ahead_def)
  then show ?thesis using assms(5) op_same(1)
    by (auto simp: turnOff_def Let_def rbind_Inr_iff elim: claims_same)
qed

lemma advanced_ok:
  assumes "routine_ok dp r" and "text_ok 64 timezone" and "epoch_ok due" and "clock_ok dp s"
  shows "clock_ok dp (advancedClock r timezone s due)"
  using assms by (simp add: advancedClock_def clock_ok_def routine_ok_def)

text \<open>What a claim adds: an untimed firing, or one whose occurrence is later than every claimed one.\<close>

definition next_claim :: "routine_fire list \<Rightarrow> routine_fire option \<Rightarrow> bool" where
  "next_claim fires found \<longleftrightarrow>
     (\<forall>f t u. found = Some f \<and> rf_dueAt f = Some t \<and> occurrence_claimed fires (rf_routineId f) u \<longrightarrow> u < t)"

fun withFiring :: "routine_fire list \<Rightarrow> routine_fire option \<Rightarrow> routine_fire list" where
  "withFiring fires None = fires"
| "withFiring fires (Some f) = fires @ [f]"

lemma mapError_value [simp]: "mapError f (Inr x) = Inr x"
  by (simp add: mapError_def)

lemma claimScheduled_claims:
  assumes env: "routine_env_ok env" "in_time now" and ok: "clocks_ahead env now fires d"
    and good: "good_clock env fires d (r, s)" and due: "ss_dueAt s \<le> now"
    and claim: "claimScheduled env r s now timezone d = Inr (found, d')"
  shows "clocks_ahead env now (withFiring fires found) d' \<and> next_claim fires found"
proof -
  obtain schedule n where n: "rr_schedule r = Some schedule"
    "normalizeRoutineScheduleV1 (rv_calendar env) schedule timezone = Inr n"
    using claim by (auto simp: claimScheduled_def rbind_Inr_iff mapError_def split: option.splits sum.splits)
  let ?anchor = "timeOf env (rr_updatedAt r)"
  let ?missed = "missedRoutineRunsV1 (rv_calendar env) n (ss_dueAt s) now ?anchor"
  let ?since = "if ?missed > 1 then now else ss_dueAt s"
  let ?fire = "scheduledFire env r s ?missed now"
  have read: "readRoutine env d (rr_id r) = Some r" using good by (simp add: good_clock_def)
  have anchor: "in_time ?anchor" using records_at(2) [OF _ read] ok by (simp add: clocks_ahead_def)
  have since: "?since \<le> ROUTINE_HORIZON" "ss_dueAt s \<le> ?since" using env(2) due by (simp_all add: in_time_def)
  have late: "t < ss_dueAt s" if "occurrence_claimed fires (rr_id r) t" for t using good that by (simp add: good_clock_def)
  show ?thesis
  proof (cases "nextRoutineRunV1 (rv_calendar env) n ?since ?anchor")
    case None
    then have "turnOff env r schedule s now timezone d = Inr (found, d')"
      using claim n by (simp add: claimScheduled_def Let_def)
    from turnOff_claims [OF env ok good this] show ?thesis by (auto simp: next_claim_def)
  next
    case (Some t)
    let ?s = "advancedClock r timezone s t"
    let ?d = "putClock (rr_id r) ?s d"
    obtain d2 where d2: "(if ?missed > 1 then appendRoutineRunEntryV1 env
        (skippedEntry (rr_id r) (entrySuffix (rf_entryId ?fire) ''-missed'') (rf_fireId ?fire)
           Cron (rv_iso env (ss_dueAt s)) (rv_iso env now) (missedSummary ?missed)) ?d else Inr ?d) = Inr d2"
      "writeClaim env r ?fire now d2 = Inr d'" and found: "found = Some ?fire"
      using claim n Some by (auto simp: claimScheduled_def Let_def rbind_Inr_iff)
    have t: "?since < t" "t \<le> 2 * ROUTINE_HORIZON"
      using next_run_bounds [OF env(1) n(2) since(1) anchor Some] by auto
    have "0 \<le> ss_dueAt s" using good by (simp add: good_clock_def clock_ok_def epoch_ok_def)
    then have "epoch_ok t" using t since(2) by (simp add: epoch_ok_def ROUTINE_HORIZON_def MAX_SAFE_INTEGER_def)
    then have clock: "clock_ok (rv_parse env) ?s"
      using advanced_ok readRoutine_ok [OF read] normalized_facts(1) [OF env(1) n(2)] good
      by (simp add: good_clock_def)
    have "clocks_ahead env now fires ?d"
      using late t(1) since(2) read clock
      by (intro claims_clock [OF ok]) (fastforce simp: advancedClock_def)+
    moreover have same: "same_clocks ?d d2" using d2(1) op_same(1) by (auto split: if_splits)
    ultimately have ok2: "clocks_ahead env now fires d2" by (rule claims_same)
    have read2: "readRoutine env d2 (rr_id r) = Some r" using read by (simp add: readRoutine_same [OF same])
    have "clocks_ahead env now fires d'" by (rule writeClaim_claims [OF env ok2 read2 d2(2)])
    moreover obtain e where e: "same_clocks d2 e" "d' = putRoutine (rr_id r) (r\<lparr>rr_lastRunAt := Some (rv_iso env now)\<rparr>) e"
      using writeClaim_frame [OF d2(2)] .
    have "storedClock env d' (rr_id r) = Some ?s"
      using clock by (simp add: e(2) storedClock_same [OF e(1)] storedClock_same [OF same])
    moreover have "recurring env schedule" by (rule recurring_once [OF env(1) n(2) Some since(1)])
    ultimately have "clocks_ahead env now (fires @ [?fire]) d'"
      using due t(1) since(2) n(1) lastRun_ok [OF env readRoutine_ok [OF read]]
      by (intro claims_snoc [where s = ?s and t = "ss_dueAt s"])
        (auto simp: scheduledFire_def Let_def advancedClock_def e(2))
    then show ?thesis using found late by (simp add: next_claim_def scheduledFire_def Let_def)
  qed
qed

lemma next_claim_untimed: "(\<forall>f. found = Some f \<longrightarrow> rf_dueAt f = None) \<Longrightarrow> next_claim fires found"
  by (auto simp: next_claim_def)

lemma claims_extend:
  "(\<forall>f. found = Some f \<longrightarrow> rf_dueAt f = None) \<Longrightarrow>
    clocks_ahead env now (withFiring fires found) d = clocks_ahead env now fires d"
  by (cases found) (simp_all add: claims_untimed)

lemma claimFromClocks_claims:
  assumes "routine_env_ok env" "in_time now" "clocks_ahead env now fires d"
    and "\<forall>c \<in> set cs. good_clock env fires d c" and "claimFromClocks env now timezone cs d = Inr (found, d')"
  shows "clocks_ahead env now (withFiring fires found) d' \<and> next_claim fires found"
  using assms(4,5)
proof (induction cs)
  case Nil
  then show ?case using assms(3) by (auto simp: next_claim_def)
next
  case (Cons c cs)
  obtain r s where c: "c = (r, s)" by (cases c)
  show ?case
  proof (cases "lockOf d (rr_id r) \<noteq> None \<or> routineDeadlineV1 s > now")
    case True
    then show ?thesis using Cons c by (auto split: if_splits)
  next
    case False
    then have "ss_dueAt s \<le> now" by (auto simp: routineDeadlineV1_def split: option.splits)
    then show ?thesis
      using claimScheduled_claims [OF assms(1-3)] Cons.prems False c by auto
  qed
qed

lemma claim_claims:
  assumes "routine_env_ok env" "in_time now" "clocks_ahead env now fires d"
    and "claim env timezone now d = Inr (found, d')"
  shows "clocks_ahead env now (withFiring fires found) d' \<and> next_claim fires found"
proof -
  obtain found1 d1 where first: "claimFromQueues env now (queuedRoutineIds d) d = Inr (found1, d1)"
    "(if found1 \<noteq> None then Inr (found1, d1)
      else case clocks env timezone now d1 of (cs, d'') \<Rightarrow> claimFromClocks env now timezone cs d'') = Inr (found, d')"
    using assms(4) by (auto simp: claim_def rbind_Inr_iff)
  note queues = claimFromQueues_claims [OF assms(1-3) first(1)]
  show ?thesis
  proof (cases found1)
    case (Some f)
    then show ?thesis using first(2) queues next_claim_untimed claims_extend by auto
  next
    case None
    obtain cs d2 where cs: "clocks env timezone now d1 = (cs, d2)" by (cases "clocks env timezone now d1")
    have ok1: "clocks_ahead env now fires d1" using queues by blast
    note good = clocks_good [OF assms(1,2) ok1 cs]
    show ?thesis
      using first(2) None cs good(3) by (intro claimFromClocks_claims [OF assms(1,2) good(1)]) auto
  qed
qed

section \<open>Commands and deliveries\<close>

lemma decoded_fields:
  assumes "decodeRoutineRecordV1 dp (routineJson r) = Inr r'"
  shows "rr_id r' = rr_id r" and "rr_updatedAt r' = rr_updatedAt r"
proof -
  have fields: "jget (routineJson r) ''routineId'' = Some (JStr (js (rr_id r)))"
    "jget (routineJson r) ''updatedAt'' = Some (JStr (rr_updatedAt r))"
    by (simp_all add: routineJson_def codec_defs del: js_simps)
  have "routineIdField (routineJson r) = Inr (rr_id r') \<and>
    routineTimestamp dp (jget (routineJson r) ''updatedAt'') = Inr (rr_updatedAt r')"
    using assms unfolding decodeRoutineRecordV1_def by (elim rbind_Inr_elim) auto
  then show "rr_id r' = rr_id r" and "rr_updatedAt r' = rr_updatedAt r"
    by (auto simp: fields routineIdField_def routineTimestamp_def simp del: js_simps split: if_splits)
qed

lemma validated_facts:
  assumes "routine_env_ok env" "in_time now" "validated env now timezone draft = Inr r"
  shows "routine_ok (rv_parse env) r" and "rr_id r = rr_id draft" and "rr_updatedAt r = rr_updatedAt draft"
    and "rr_schedule r = Some schedule \<Longrightarrow> recurring env schedule"
proof -
  have decoded: "decodeRoutineRecordV1 (rv_parse env) (routineJson draft) = Inr r"
    using assms(3) by (auto simp: validated_def rbind_Inr_iff split: option.splits if_splits)
  show "routine_ok (rv_parse env) r" using decoded by (rule decodeRoutineRecordV1_Inr)
  show "rr_id r = rr_id draft" and "rr_updatedAt r = rr_updatedAt draft" using decoded_fields [OF decoded] by auto
  show "recurring env schedule" if schedule: "rr_schedule r = Some schedule"
  proof -
    obtain n where n: "normalizeRoutineScheduleV1 (rv_calendar env) schedule timezone = Inr n"
      "nextRoutineRunV1 (rv_calendar env) n now now \<noteq> None"
      using assms(3) decoded schedule
      by (auto simp: validated_def rbind_Inr_iff mapError_def split: sum.splits if_splits)
    then show ?thesis using recurring_once [OF assms(1) n(1)] assms(2) by (auto simp: in_time_def)
  qed
qed

lemma mint_same: "mint env opts i at d = Inr (m, d') \<Longrightarrow> same_clocks d d'"
  by (auto simp: mint_def rbind_Inr_iff same_clocks_def case_prod_beta split: option.splits)

lemma dropKey_same [simp]: "same_clocks d (dropKey i d)"
  by (simp add: same_clocks_def dropKey_def)

text \<open>A validated record written now, and a key minted, kept or dropped after it.\<close>

lemma validated_put:
  assumes "routine_env_ok env" "in_time now" "clocks_ahead env now fires d"
    and "validated env now timezone draft = Inr r" and "rr_updatedAt draft = rv_iso env now"
  shows "clocks_ahead env now fires (putRoutine (rr_id r) r d)"
  using validated_facts [OF assms(1,2,4)] assms(5) by (intro claims_edit [OF assms(1-3)]) simp_all

lemma create_claims:
  assumes "routine_env_ok env" "in_time now" "clocks_ahead env now fires d"
    and "applyCreate env opts now timezone writer approval i0 name prompt schedule trigger d = (res, d')"
  shows "clocks_ahead env now fires d'"
proof -
  let ?i = "case i0 of None \<Rightarrow> so_newId opts | Some i \<Rightarrow> i"
  let ?draft = "\<lparr>rr_id = ?i, rr_name = name, rr_prompt = prompt, rr_schedule = schedule, rr_trigger = trigger,
    rr_enabled = True, rr_createdBy = writer, rr_updatedBy = writer, rr_createdAt = rv_iso env now,
    rr_updatedAt = rv_iso env now, rr_lastRunAt = None, rr_approval = approval\<rparr>"
  show ?thesis
  proof (cases "validated env now timezone ?draft")
    case (Inl e)
    then have "d' = d" using assms(4) by (auto simp: applyCreate_def after_def Let_def split: if_splits)
    then show ?thesis using assms(3) by simp
  next
    case (Inr r)
    have "rr_id r = ?i" using validated_facts(2) [OF assms(1,2) Inr] by simp
    then have put: "clocks_ahead env now fires (putRoutine ?i r d)" using validated_put [OF assms(1-3) Inr] by simp
    have "d' = d \<or> same_clocks (putRoutine ?i r d) d'"
      using assms(4) Inr mint_same
      by (auto simp: applyCreate_def after_def Let_def split: if_splits sum.splits)
    then show ?thesis using assms(3) put claims_same by blast
  qed
qed

lemma change_claims:
  assumes "routine_env_ok env" "in_time now" "clocks_ahead env now fires d"
    and "writeChange env opts now timezone draft d = (res, d')" and "rr_updatedAt draft = rv_iso env now"
  shows "clocks_ahead env now fires d'"
proof (cases "validated env now timezone draft")
  case (Inl e)
  then show ?thesis using assms(3,4) by (simp add: writeChange_def after_def)
next
  case (Inr r)
  let ?d = "putRoutine (rr_id r) r d"
  have put: "clocks_ahead env now fires ?d" by (rule validated_put [OF assms(1-3) Inr assms(5)])
  have "same_clocks ?d d'"
    using assms(4) Inr mint_same
    by (auto simp: writeChange_def after_def Let_def split: sum.splits prod.splits if_splits)
  with put show ?thesis by (rule claims_same)
qed

lemma delete_claims:
  assumes "clocks_ahead env now fires d"
  shows "clocks_ahead env now fires (deletedStore i d)"
proof -
  have clock: "clockAt (deletedStore i d) j = (if j = i then None else clockAt d j)" for j
    by (simp add: clockAt_def deletedStore_def dropKey_def Let_def)
  have rec: "recordAt (deletedStore i d) j = (if j = i then None else recordAt d j)" for j
    by (simp add: recordAt_def deletedStore_def dropKey_def Let_def)
  have read: "readRoutine env (deletedStore i d) j = (if j = i then None else readRoutine env d j)" for j
    by (simp add: readRoutine_recordAt rec)
  have stored: "storedClock env (deletedStore i d) j = (if j = i then None else storedClock env d j)" for j
    by (simp add: storedClock_def clock)
  have "records_ok env (deletedStore i d)"
    using assms by (auto simp: clocks_ahead_def records_ok_def deletedStore_def dropKey_def Let_def split: if_splits)
  then show ?thesis using assms by (auto simp: clocks_ahead_def ahead_def anchored_def clock read stored)
qed

lemma command_claims:
  assumes "routine_env_ok env" "in_time now" "clocks_ahead env now fires d"
    and "applyCommand env opts now timezone writer approval c d = (res, d')"
  shows "clocks_ahead env now fires d'"
proof (cases "\<exists>i0 name prompt schedule trigger. rc_change c = Create_Routine i0 name prompt schedule trigger")
  case True
  then show ?thesis using assms(4) create_claims [OF assms(1-3)] by (auto simp: applyCommand_def)
next
  case False
  let ?i = "changedId (rc_change c)"
  have run: "clocks_ahead env now fires d'" if "applyRun env opts now cid ?i d = (res, d')" for cid
    using that op_same(2) claims_same [OF assms(3)] assms(3)
    by (auto simp: applyRun_def after_def split: if_splits sum.splits)
  have key: "clocks_ahead env now fires d'" if "applyKey env opts now timezone fresh ?i r d = (res, d')" for fresh r
    using that mint_same claims_same [OF assms(3)] assms(3)
    by (auto simp: applyKey_def after_def split: if_splits sum.splits)
  have change: "clocks_ahead env now fires d'"
    if "writeChange env opts now timezone draft d = (res, d')" "rr_updatedAt draft = rv_iso env now" for draft
    using change_claims [OF assms(1-3) that] .
  have updated: "rr_updatedAt (updatedRecord r writer at approval a b e f g) = at" for r at a b e f g
    by (simp add: updatedRecord_def Let_def)
  show ?thesis
    using assms(3,4) False delete_claims [OF assms(3)]
    by (auto simp: applyCommand_def Let_def after_def updated
        split: routine_change.splits option.splits sum.splits intro: run key change)
qed

lemma recordDelivery_same [simp]: "same_clocks d (recordDelivery env now input fireId dropped d)"
  by (simp add: same_clocks_def recordDelivery_def trimDeliveries_def Let_def)

lemma deliver_same: "deliverFiring env now admit_check input answer d = Inr (said, d') \<Longrightarrow> same_clocks d d'"
  using op_same(2)
  by (fastforce simp: deliverFiring_def rbind_Inr_iff split: option.splits plugin_answer.splits
      intro: same_clocks_trans)

lemma connect_same: "deliverConnectEvent env now i eventId rendered d = Inr (said, d') \<Longrightarrow> same_clocks d d'"
  using op_same(2)
  by (fastforce simp: deliverConnectEvent_def rbind_Inr_iff Let_def split: option.splits if_splits
      intro: same_clocks_trans)

section \<open>The machine\<close>

record routine_machine =
  rm_authority :: routine_authority
  rm_now :: int
  rm_fires :: "routine_fire list"

abbreviation rm_store :: "routine_machine \<Rightarrow> routine_store" where
  "rm_store m \<equiv> ra_store (rm_authority m)"

definition stored :: "routine_store \<Rightarrow> routine_machine \<Rightarrow> routine_machine" where
  "stored d m = m\<lparr>rm_authority := (rm_authority m)\<lparr>ra_store := d\<rparr>\<rparr>"

text \<open>Failure counts are below \<open>2 ^ 53 - 1\<close>, so that the next one is still a safe integer.\<close>

inductive routine_step :: "routine_env \<Rightarrow> routine_machine \<Rightarrow> routine_machine \<Rightarrow> bool" for env where
  time_passes: "rm_now m \<le> t \<Longrightarrow> t \<le> ROUTINE_HORIZON \<Longrightarrow> routine_step env m (m\<lparr>rm_now := t\<rparr>)"
| firing_claimed: "claim env timezone (rm_now m) (rm_store m) = Inr (found, d) \<Longrightarrow>
    routine_step env m (stored d m\<lparr>rm_fires := withFiring (rm_fires m) found\<rparr>)"
| firing_settled: "fire \<in> set (rm_fires m) \<Longrightarrow> failures_below MAX_SAFE_INTEGER env (rm_store m) \<Longrightarrow>
    settleFiring env fire outcome (rm_now m) (rm_store m) = Inr d \<Longrightarrow> routine_step env m (stored d m)"
| firings_reaped: "failures_below (MAX_SAFE_INTEGER - length (rs_fires (rm_store m))) env (rm_store m) \<Longrightarrow>
    length (rs_fires (rm_store m)) \<le> MAX_SAFE_INTEGER \<Longrightarrow>
    reapExpiredFirings env firingRun (rm_now m) (rm_store m) = (e, d) \<Longrightarrow> routine_step env m (stored d m)"
| routines_deferred: "routine_step env m (stored (defer_routines env timezone (rm_now m) (rm_store m)) m)"
| deadlines_read: "deadlines env firingRun timezone (rm_now m) (rm_store m) = (ds, d) \<Longrightarrow>
    routine_step env m (stored d m)"
| next_runs_read: "nextRuns env timezone (rm_now m) (rm_store m) = (rows, d) \<Longrightarrow> routine_step env m (stored d m)"
| firing_asked: "enqueueWithin env (rm_now m) i trigger k delivery (rm_store m) = Inr (answer, d) \<Longrightarrow>
    routine_step env m (stored d m)"
| command_executed: "executeCommand env opts (rm_now m) timezone writer approval c (rm_authority m) = (res, a) \<Longrightarrow>
    routine_step env m (m\<lparr>rm_authority := a\<rparr>)"
| delivered: "deliverFiring env (rm_now m) (admitDelivery env input) input answer (rm_store m) = Inr (said, d) \<Longrightarrow>
    routine_step env m (stored d m)"
| event_delivered: "deliverConnectEvent env (rm_now m) i eventId rendered (rm_store m) = Inr (said, d) \<Longrightarrow>
    routine_step env m (stored d m)"

inductive routine_reachable :: "routine_env \<Rightarrow> routine_machine \<Rightarrow> bool" for env where
  routine_start: "records_ok env (rm_store m) \<Longrightarrow> in_time (rm_now m) \<Longrightarrow> rm_fires m = [] \<Longrightarrow>
    routine_reachable env m"
| routine_more: "routine_reachable env m \<Longrightarrow> routine_step env m m' \<Longrightarrow> routine_reachable env m'"

inductive_cases routine_step_elim: "routine_step env m m'"

lemma stored_simps [simp]:
  "rm_store (stored d m) = d" "rm_now (stored d m) = rm_now m" "rm_fires (stored d m) = rm_fires m"
  "ra_receipts (rm_authority (stored d m)) = ra_receipts (rm_authority m)"
  by (simp_all add: stored_def)

definition later_claim :: "routine_fire \<Rightarrow> routine_fire \<Rightarrow> bool" where
  "later_claim f g \<longleftrightarrow>
     (\<forall>t u. rf_routineId f = rf_routineId g \<and> rf_dueAt f = Some t \<and> rf_dueAt g = Some u \<longrightarrow> t < u)"

lemma later_snoc:
  "sorted_wrt later_claim fires \<Longrightarrow> next_claim fires found \<Longrightarrow> sorted_wrt later_claim (withFiring fires found)"
  by (cases found) (fastforce simp: sorted_wrt_append next_claim_def later_claim_def occurrence_claimed_def)+

lemma execute_claims:
  assumes "routine_env_ok env" "in_time now" "clocks_ahead env now fires (ra_store a)"
    and "executeCommand env opts now timezone writer approval c a = (res, a')"
  shows "clocks_ahead env now fires (ra_store a')"
  using assms(3,4) command_claims [OF assms(1-3)]
  by (auto simp: executeCommand_def split: option.splits sum.splits prod.splits)

lemma step_claims:
  assumes "routine_env_ok env" "in_time (rm_now m)" "clocks_ahead env (rm_now m) (rm_fires m) (rm_store m)"
    and "sorted_wrt later_claim (rm_fires m)" and "routine_step env m m'"
  shows "in_time (rm_now m') \<and> clocks_ahead env (rm_now m') (rm_fires m') (rm_store m') \<and>
    sorted_wrt later_claim (rm_fires m')"
  using assms(5)
proof (cases rule: routine_step.cases)
  case (time_passes t)
  then show ?thesis using assms(2-4) claims_later by (auto simp: in_time_def)
next
  case (firing_claimed timezone found d)
  then show ?thesis using claim_claims [OF assms(1-3) firing_claimed(2)] assms(2,4) later_snoc by simp
next
  case (firing_settled fire outcome d)
  then show ?thesis using settle_claims [OF assms(1-3) firing_settled(3,4)] assms(2,4) by simp
next
  case (firings_reaped firingRun e d)
  then show ?thesis
    using reap_claims [OF assms(1-3) firings_reaped(2), of "rs_fires (rm_store m)" firingRun e d] assms(2,4)
    by (simp add: reapExpiredFirings_def)
next
  case (routines_deferred timezone)
  then show ?thesis using defer_claims [OF assms(1-3)] assms(2,4) by simp
next
  case (deadlines_read firingRun timezone ds d)
  then show ?thesis using clocks_good(1) [OF assms(1-3)] assms(2,4) by (simp add: deadlines_def split: prod.splits)
next
  case (next_runs_read timezone rows d)
  then show ?thesis using clocks_good(1) [OF assms(1-3)] assms(2,4) by (simp add: nextRuns_def split: prod.splits)
next
  case (firing_asked i trigger k delivery answer d)
  then show ?thesis using claims_same [OF assms(3) op_same(2) [OF firing_asked(2)]] assms(2,4) by simp
next
  case (command_executed opts timezone writer approval c res a)
  then show ?thesis using execute_claims [OF assms(1-3) command_executed(2)] assms(2,4) by simp
next
  case (delivered input answer said d)
  then show ?thesis using claims_same [OF assms(3) deliver_same [OF delivered(2)]] assms(2,4) by simp
next
  case (event_delivered i eventId rendered said d)
  then show ?thesis using claims_same [OF assms(3) connect_same [OF event_delivered(2)]] assms(2,4) by simp
qed

lemma reachable_claims:
  assumes "routine_env_ok env" and "routine_reachable env m"
  shows "in_time (rm_now m) \<and> clocks_ahead env (rm_now m) (rm_fires m) (rm_store m) \<and>
    sorted_wrt later_claim (rm_fires m)"
  using assms(2)
proof (induction rule: routine_reachable.induct)
  case (routine_start m)
  then show ?case by (simp add: clocks_ahead_def ahead_def anchored_def occurrence_claimed_def)
next
  case (routine_more m m')
  then show ?case using step_claims [OF assms(1)] by blast
qed

end
