(* ===== verification/Routine_Queue.thy ===== *)
theory Routine_Queue
  imports Routine_Machine
begin

text \<open>
  The two bounded lists a Routine has, under keys of its own: its queue of firings asked for, oldest first,
  and its run log, newest first. \<open>waiting_list\<close> and \<open>log_rows\<close> are their abstractions; asking for a firing
  appends to the first, claiming takes its head, and an entry is put in front of the second, which keeps the fifty
  newest.
\<close>

section \<open>Listing one prefix\<close>

lemma listPrefix_simps [simp]:
  "listPrefix p [] = []"
  "listPrefix p ((k, v) # m) = (if take (length p) k = p then (k, v) # listPrefix p m else listPrefix p m)"
  by (simp_all add: listPrefix_def)

lemma listPrefix_put_other: "take (length p) k \<noteq> p \<Longrightarrow> listPrefix p (kv_put k v m) = listPrefix p m"
  by (induction k v m rule: kv_put.induct) auto

lemma listPrefix_put_last:
  assumes "kv_sorted m" and "take (length p) k = p" and "\<forall>e \<in> set (listPrefix p m). fst e < k"
  shows "listPrefix p (kv_put k v m) = listPrefix p m @ [(k, v)]"
  using assms
proof (induction m)
  case (Cons e m)
  obtain k0 v0 where e: "e = (k0, v0)" by (cases e)
  have below: "\<forall>x \<in> set m. k0 < fst x" and "kv_sorted m" using Cons.prems(1) by (auto simp: kv_sorted_def e)
  have IH: "listPrefix p (kv_put k v m) = listPrefix p m @ [(k, v)]"
    using Cons.prems(2,3) \<open>kv_sorted m\<close> by (intro Cons.IH) (auto simp: e split: if_splits)
  show ?case
  proof (cases "k < k0")
    case True
    then have "\<forall>x \<in> set (e # m). k < fst x" using below by (auto simp: e)
    then have "listPrefix p (e # m) = []"
      using Cons.prems(3) by (fastforce simp: listPrefix_def filter_empty_conv)
    then show ?thesis using True Cons.prems(2) by (auto simp: e)
  next
    case False
    moreover have "k \<noteq> k0" if "take (length p) k0 = p" using Cons.prems(3) that by (auto simp: e)
    ultimately show ?thesis using IH Cons.prems(2) by (auto simp: e)
  qed
qed simp

lemma listPrefix_put_first:
  assumes "kv_sorted m" and "take (length p) k = p" and "\<forall>e \<in> set (listPrefix p m). k < fst e"
  shows "listPrefix p (kv_put k v m) = (k, v) # listPrefix p m"
  using assms
proof (induction m)
  case (Cons e m)
  obtain k0 v0 where e: "e = (k0, v0)" by (cases e)
  have "kv_sorted m" using Cons.prems(1) by (auto simp: kv_sorted_def e)
  then have "listPrefix p (kv_put k v m) = (k, v) # listPrefix p m"
    using Cons.prems(2,3) by (intro Cons.IH) (auto simp: e split: if_splits)
  moreover have "k < k0" if "take (length p) k0 = p" using Cons.prems(3) that by (auto simp: e)
  ultimately show ?case using Cons.prems(2) by (auto simp: e)
qed simp

lemma listPrefix_delete: "listPrefix p (kv_delete k m) = filter (\<lambda>e. fst e \<noteq> k) (listPrefix p m)"
  unfolding listPrefix_def kv_delete_def filter_filter by (rule filter_cong) auto

lemma listPrefix_delete_all:
  "listPrefix p (fold kv_delete ks m) = filter (\<lambda>e. fst e \<notin> set ks) (listPrefix p m)"
proof (induction ks arbitrary: m)
  case (Cons k ks)
  have "filter (\<lambda>e. fst e \<notin> set ks) (filter (\<lambda>e. fst e \<noteq> k) (listPrefix p m)) =
      filter (\<lambda>e. fst e \<notin> set (k # ks)) (listPrefix p m)"
    unfolding filter_filter by (rule filter_cong) auto
  then show ?case by (simp add: Cons.IH listPrefix_delete)
qed simp

lemma listPrefix_put_same:
  assumes "kv_sorted m" and "k \<in> fst ` set (listPrefix p m)"
  shows "listPrefix p (kv_put k v m) = map (\<lambda>e. if fst e = k then (k, v) else e) (listPrefix p m)"
  using assms
proof (induction m)
  case (Cons e m)
  obtain k0 v0 where e: "e = (k0, v0)" by (cases e)
  have below: "\<forall>x \<in> set m. k0 < fst x" and sorted: "kv_sorted m" using Cons.prems(1) by (auto simp: kv_sorted_def e)
  have keys: "set (listPrefix p m) \<subseteq> set m" by (auto simp: listPrefix_def)
  show ?case
  proof (cases "k = k0")
    case True
    have "fst x \<noteq> k" if "x \<in> set (listPrefix p m)" for x using below keys that True by fastforce
    then have "map (\<lambda>e. if fst e = k then (k, v) else e) (listPrefix p m) = listPrefix p m"
      by (intro map_idI) simp
    then show ?thesis using True Cons.prems(2) by (auto simp: e)
  next
    case False
    then have k: "k \<in> fst ` set (listPrefix p m)" using Cons.prems(2) by (auto simp: e split: if_splits)
    then have "k0 < k" using below keys by auto
    then show ?thesis using Cons.IH [OF sorted k] False by (auto simp: e)
  qed
qed simp

lemma sorted_listPrefix: "kv_sorted m \<Longrightarrow> kv_sorted (listPrefix p m)"
  unfolding kv_sorted_def listPrefix_def by (induction m) auto

lemma sorted_delete_all: "kv_sorted m \<Longrightarrow> kv_sorted (fold kv_delete ks m)"
  by (induction ks arbitrary: m) simp_all

lemma set_delete_all: "set (fold kv_delete ks m) \<subseteq> set m"
proof (induction ks arbitrary: m)
  case (Cons k ks)
  show ?case using Cons.IH [of "kv_delete k m"] by auto
qed simp

lemma sorted_keys:
  assumes "kv_sorted m"
  shows "distinct (map fst m)" and "sort (map fst m) = map fst m"
proof -
  have "sorted (map fst m) \<and> distinct (map fst m)" using assms unfolding kv_sorted_def strict_sorted_iff .
  then show "distinct (map fst m)" and "sort (map fst m) = map fst m" using sorted_sort_id by blast+
qed

section \<open>Keys with a number at the end\<close>

lemma routineId_no_colon: "isRoutineIdV1 i \<Longrightarrow> CHR '':'' \<notin> set i"
proof
  assume "isRoutineIdV1 i" and "CHR '':'' \<in> set i"
  then have "CHR '':'' \<in> set FIRE_ID_CHARS" using routineId_chars by blast
  then show False by (simp add: FIRE_ID_CHARS_def LOWER_def UPPER_def DIGITS_def)
qed

lemma numbered_prefix:
  assumes "isRoutineIdV1 i" and "isRoutineIdV1 j"
  shows "take (length (p @ i @ '':'')) (p @ j @ '':'' @ padStart w (decimal n)) = p @ i @ '':'' \<longleftrightarrow> i = j"
proof
  assume eq: "take (length (p @ i @ '':'')) (p @ j @ '':'' @ padStart w (decimal n)) = p @ i @ '':''"
  define rest where "rest = drop (length (p @ i @ '':'')) (p @ j @ '':'' @ padStart w (decimal n))"
  have "p @ j @ '':'' @ padStart w (decimal n) = (p @ i @ '':'') @ rest"
    using append_take_drop_id [of "length (p @ i @ '':'')" "p @ j @ '':'' @ padStart w (decimal n)"] eq
    unfolding rest_def by metis
  then have "j @ '':'' @ padStart w (decimal n) = i @ '':'' @ rest" by simp
  then show "i = j" using colon_split [OF routineId_no_colon [OF assms(2)] routineId_no_colon [OF assms(1)]] by metis
qed simp

lemma keyNumber_padded:
  assumes "n < 10 ^ 10"
  shows "keyNumber (p @ '':'' @ padStart 10 (decimal n)) = Some n"
proof -
  let ?tail = "padStart 10 (decimal n)"
  have digits: "set ?tail \<subseteq> set ''0123456789''" using decimal_digits by (auto simp: padStart_def)
  have "takeWhile (\<lambda>c. c \<noteq> CHR '':'') (rev (p @ '':'' @ ?tail)) = rev ?tail"
    using padStart_no_colon [of 10 n] by (simp, subst takeWhile_append2) auto
  moreover have "list_all (\<lambda>c. c \<in> set ''0123456789'') ?tail"
    unfolding list_all_iff using digits by blast
  moreover have "n \<le> MAX_SAFE_INTEGER" using assms by (simp add: MAX_SAFE_INTEGER_def)
  ultimately show ?thesis unfolding keyNumber_def Let_def by simp
qed

lemma padded_less: "m < 10 ^ 10 \<Longrightarrow> n < 10 ^ 10 \<Longrightarrow> padStart 10 (decimal m) < padStart 10 (decimal n) \<longleftrightarrow> m < n"
  by (simp add: padStart_decimal fixedWidth_less_iff del: fixedWidth.simps)

section \<open>The queue\<close>

definition queue_ok :: "routine_store \<Rightarrow> bool" where
  "queue_ok d \<longleftrightarrow> kv_sorted (rs_queue d) \<and>
     (\<forall>e \<in> set (rs_queue d). \<exists>i n. isRoutineIdV1 i \<and> routineQueueKeyV1 i n = Inr (fst e))"

definition waiting_list :: "string \<Rightarrow> routine_store \<Rightarrow> queued_firing option list" where
  "waiting_list i d = map (queued \<circ> snd) (waitingFor i d)"

lemma queued_round_trip [simp]: "queued (queuedJson q) = Some q"
  by (cases q; cases "qf_delivery q")
    (simp_all add: queued_def queuedJson_def textField_def codec_defs del: js_simps)

lemma queueKey_Inr: "routineQueueKeyV1 i n = Inr k \<longleftrightarrow>
    n < RUN_SEQUENCE_CEILING \<and> k = ROUTINE_QUEUE_PREFIX @ i @ '':'' @ padStart 10 (decimal n)"
  by (auto simp: routineQueueKeyV1_def routineQueuePrefixV1_def)

lemma waiting_key:
  assumes "queue_ok d" and "isRoutineIdV1 i" and "e \<in> set (waitingFor i d)"
  obtains n where "n < RUN_SEQUENCE_CEILING" and "fst e = ROUTINE_QUEUE_PREFIX @ i @ '':'' @ padStart 10 (decimal n)"
proof -
  have e: "e \<in> set (rs_queue d)" "take (length (routineQueuePrefixV1 i)) (fst e) = routineQueuePrefixV1 i"
    using assms(3) by (auto simp: waitingFor_def listPrefix_def)
  then obtain j n where j: "isRoutineIdV1 j" "n < RUN_SEQUENCE_CEILING"
    "fst e = ROUTINE_QUEUE_PREFIX @ j @ '':'' @ padStart 10 (decimal n)"
    using assms(1) unfolding queue_ok_def queueKey_Inr by blast
  then have "i = j" using numbered_prefix [OF assms(2) j(1), of ROUTINE_QUEUE_PREFIX 10 n] e(2)
    by (simp add: routineQueuePrefixV1_def)
  then show ?thesis using j that by blast
qed

lemma highest_above:
  fixes f :: "string \<Rightarrow> int option"
  shows "h \<le> fold (\<lambda>k h. case f k of None \<Rightarrow> h | Some x \<Rightarrow> max h x) ks h"
proof (induction ks arbitrary: h)
  case (Cons k ks)
  have "h \<le> (case f k of None \<Rightarrow> h | Some x \<Rightarrow> max h x)" by (cases "f k") auto
  then show ?case using Cons.IH [of "case f k of None \<Rightarrow> h | Some x \<Rightarrow> max h x"] by simp
qed simp

lemma highest_bound:
  fixes f :: "string \<Rightarrow> int option"
  assumes "k \<in> set ks" and "f k = Some x"
  shows "x \<le> fold (\<lambda>k h. case f k of None \<Rightarrow> h | Some x \<Rightarrow> max h x) ks h"
  using assms(1)
proof (induction ks arbitrary: h)
  case (Cons l ks)
  show ?case
  proof (cases "k = l")
    case True
    then show ?thesis using highest_above [of "max h x" f ks] assms(2) by simp
  qed (use Cons in auto)
qed simp

lemma next_queue_above:
  assumes "k \<in> set ks" and "keyNumber k = Some n"
  shows "n < nextQueueSequenceV1 ks"
proof -
  let ?f = "\<lambda>k. map_option int (keyNumber k)"
  have "nextQueueSequenceV1 ks =
      nat (fold (\<lambda>k h. case ?f k of None \<Rightarrow> h | Some x \<Rightarrow> max h x) ks (-1) + 1)"
    by (simp add: nextQueueSequenceV1_def cong: option.case_cong)
  then show ?thesis using highest_bound [OF assms(1), of ?f "int n" "-1"] assms(2) by simp
qed

lemma next_run_above:
  assumes "k \<in> set ks" and "keyNumber k = Some n"
  shows "int RUN_SEQUENCE_CEILING - int n < int (nextRunSequenceV1 ks)"
proof -
  let ?f = "\<lambda>k. map_option (\<lambda>n. int RUN_SEQUENCE_CEILING - int n) (keyNumber k)"
  have "nextRunSequenceV1 ks =
      nat (fold (\<lambda>k h. case ?f k of None \<Rightarrow> h | Some x \<Rightarrow> max h x) ks (-1) + 1)"
    by (simp add: nextRunSequenceV1_def cong: option.case_cong)
  then show ?thesis
    using highest_bound [OF assms(1), of ?f "int RUN_SEQUENCE_CEILING - int n" "-1"] assms(2) by simp
qed

lemma enqueue_appends:
  assumes "queue_ok d" and "isRoutineIdV1 i"
    and "enqueueWithin env now i trigger k delivery d = Inr ((fireId, True), d')"
  shows "queue_ok d'" and "waiting_list i d' = waiting_list i d @ [Some \<lparr>qf_trigger = js (triggerName trigger),
      qf_discriminator = k, qf_requestedAt = rv_iso env now, qf_delivery = delivery\<rparr>]"
    and "isRoutineIdV1 j \<Longrightarrow> j \<noteq> i \<Longrightarrow> waiting_list j d' = waiting_list j d"
    and "length (waiting_list i d') \<le> ROUTINE_QUEUE_LIMIT" and "fireId = routineFireIdV1 i k"
proof -
  let ?q = "\<lparr>qf_trigger = js (triggerName trigger), qf_discriminator = k, qf_requestedAt = rv_iso env now,
    qf_delivery = delivery\<rparr>"
  let ?n = "nextQueueSequenceV1 (map fst (waitingFor i d))"
  let ?key = "ROUTINE_QUEUE_PREFIX @ i @ '':'' @ padStart 10 (decimal ?n)"
  have n: "?n < RUN_SEQUENCE_CEILING" and d': "d' = d\<lparr>rs_queue := kv_put ?key (queuedJson ?q) (rs_queue d)\<rparr>"
    and few: "length (waitingFor i d) < ROUTINE_QUEUE_LIMIT" and id: "fireId = routineFireIdV1 i k"
    using assms(3)
    by (auto simp: enqueueWithin_def Let_def rbind_Inr_iff queueKey_Inr split: if_splits)
  have above: "fst e < ?key" if e: "e \<in> set (waitingFor i d)" for e
  proof -
    obtain m where m: "m < RUN_SEQUENCE_CEILING" "fst e = ROUTINE_QUEUE_PREFIX @ i @ '':'' @ padStart 10 (decimal m)"
      using assms(1,2) e by (rule waiting_key)
    have "keyNumber (fst e) = Some m"
      using keyNumber_padded [of m "ROUTINE_QUEUE_PREFIX @ i"] m by (simp add: RUN_SEQUENCE_CEILING_def)
    then have "m < ?n" using e by (intro next_queue_above) auto
    then show ?thesis using m n padded_less [of m ?n] by (simp add: RUN_SEQUENCE_CEILING_def)
  qed
  have sorted: "kv_sorted (rs_queue d)" using assms(1) by (simp add: queue_ok_def)
  have "waitingFor i d' = waitingFor i d @ [(?key, queuedJson ?q)]"
    unfolding waitingFor_def d' using above
    by (simp, intro listPrefix_put_last [OF sorted]) (simp_all add: routineQueuePrefixV1_def waitingFor_def)
  then show list: "waiting_list i d' = waiting_list i d @ [Some ?q]" by (simp add: waiting_list_def)
  show "waiting_list j d' = waiting_list j d" if "isRoutineIdV1 j" "j \<noteq> i"
    using numbered_prefix [OF that(1) assms(2), of ROUTINE_QUEUE_PREFIX 10 ?n] that(2)
    by (simp add: waiting_list_def waitingFor_def d' listPrefix_put_other routineQueuePrefixV1_def)
  show "queue_ok d'"
    using assms(1,2) sorted n set_kv_put [of ?key "queuedJson ?q" "rs_queue d"]
    by (fastforce simp: queue_ok_def d' queueKey_Inr)
  show "length (waiting_list i d') \<le> ROUTINE_QUEUE_LIMIT" using few list by (simp add: waiting_list_def)
  show "fireId = routineFireIdV1 i k" by (rule id)
qed

text \<open>The same firing asked for twice is one firing.\<close>

lemma enqueue_again:
  assumes "enqueueWithin env now i trigger k delivery d = Inr ((fireId, fresh), d')"
    and "queue_ok d" and "isRoutineIdV1 i"
  shows "enqueueWithin env now' i trigger' k delivery' d' = Inr ((fireId, False), d')"
proof (cases fresh)
  case True
  have "enqueueWithin env now i trigger k delivery d = Inr ((fireId, True), d')" using assms(1) True by simp
  note appended = enqueue_appends [OF assms(2,3) this]
  have lock: "lockOf d' i = lockOf d i"
    using enqueue_frame [OF assms(1)] by (metis lockOf_def routine_store.select_convs(4) routine_store.surjective routine_store.update_convs(5))
  have "\<exists>(key, v) \<in> set (waitingFor i d'). map_option qf_discriminator (queued v) = Some k"
  proof -
    have "Some \<lparr>qf_trigger = js (triggerName trigger), qf_discriminator = k, qf_requestedAt = rv_iso env now,
        qf_delivery = delivery\<rparr> \<in> set (waiting_list i d')" using appended(2) by simp
    then obtain e where "e \<in> set (waitingFor i d')"
      "queued (snd e) = Some \<lparr>qf_trigger = js (triggerName trigger), qf_discriminator = k,
        qf_requestedAt = rv_iso env now, qf_delivery = delivery\<rparr>"
      unfolding waiting_list_def by auto
    then show ?thesis by (intro bexI [of _ e]) (auto split: prod.split)
  qed
  moreover have "rbind (case lockOf d' i of None \<Rightarrow> Inr False
      | Some v \<Rightarrow> rbind (decodeRoutineFireV1 (rv_parse env) v) (\<lambda>f. Inr (rf_fireId f = routineFireIdV1 i k))) g = g False"
    for g :: "bool \<Rightarrow> routine_error + (jstr \<times> bool) \<times> routine_store"
    using assms(1) True unfolding lock
    by (auto simp: enqueueWithin_def Let_def rbind_Inr_iff split: option.splits if_splits)
  ultimately show ?thesis using appended(5) by (simp add: enqueueWithin_def Let_def)
next
  case False
  then have "d' = d" and "fireId = routineFireIdV1 i k"
    using assms(1) by (auto simp: enqueueWithin_def Let_def rbind_Inr_iff split: if_splits)
  then show ?thesis using assms(1) False
    by (auto simp: enqueueWithin_def Let_def rbind_Inr_iff split: if_splits)
qed

lemma writeClaim_fields:
  assumes "writeClaim env r fire now d = Inr d'"
  shows "rs_queue d' = rs_queue d" and "lockOf d' (rr_id r) = Some (fireJson fire)"
proof -
  obtain x e where e: "appendRoutineRunEntryV1 env x
      (d\<lparr>rs_fires := kv_put (routineFireKeyV1 (rr_id r)) (fireJson fire) (rs_fires d)\<rparr>) = Inr e"
    "d' = putRoutine (rr_id r) (r\<lparr>rr_lastRunAt := Some (rv_iso env now)\<rparr>) e"
    using assms by (auto simp: writeClaim_def rbind_Inr_iff)
  then show "rs_queue d' = rs_queue d" and "lockOf d' (rr_id r) = Some (fireJson fire)"
    using append_frame [OF e(1)] by (simp_all add: lockOf_def) (metis routine_store.select_convs(4,5)
      routine_store.surjective routine_store.update_convs(2,4) kv_get_put)+
qed

lemma claim_head:
  assumes "queue_ok d" and "isRoutineIdV1 i" and "waitingFor i d = w # ws" and "records_ok env d"
    and "claimQueued env i now d = Inr (found, d')"
  shows "queue_ok d'" and "waiting_list i d = queued (snd w) # waiting_list i d'"
    and "isRoutineIdV1 j \<Longrightarrow> j \<noteq> i \<Longrightarrow> waiting_list j d' = waiting_list j d"
    and "found = Some fire \<Longrightarrow> \<exists>q r trigger. queued (snd w) = Some q \<and> readRoutine env d i = Some r \<and>
      named ROUTINE_TRIGGER_KINDS (Some (JStr (qf_trigger q))) = Some trigger \<and>
      rf_fireId fire = routineFireIdV1 i (qf_discriminator q) \<and>
      rf_cue fire = routineCueV1 (rr_name r) (rr_prompt r) trigger None (qf_delivery q) \<and>
      lockOf d' i = Some (fireJson fire)"
    and "found = None \<Longrightarrow> queued (snd w) = None \<or> readRoutine env d i = None"
proof -
  let ?d = "d\<lparr>rs_queue := kv_delete (fst w) (rs_queue d)\<rparr>"
  have main: "rs_queue d' = kv_delete (fst w) (rs_queue d) \<and>
    (\<forall>fire. found = Some fire \<longrightarrow> (\<exists>q r trigger. queued (snd w) = Some q \<and> readRoutine env d i = Some r \<and>
      named ROUTINE_TRIGGER_KINDS (Some (JStr (qf_trigger q))) = Some trigger \<and>
      rf_fireId fire = routineFireIdV1 i (qf_discriminator q) \<and>
      rf_cue fire = routineCueV1 (rr_name r) (rr_prompt r) trigger None (qf_delivery q) \<and>
      lockOf d' i = Some (fireJson fire))) \<and>
    (found = None \<longrightarrow> queued (snd w) = None \<or> readRoutine env d i = None)"
  proof (cases "queued (snd w) \<noteq> None \<and> readRoutine env d i \<noteq> None")
    case True
    then obtain q r where q: "queued (snd w) = Some q" "readRoutine env d i = Some r" by auto
    have i: "rr_id r = i" by (rule records_at(1) [OF assms(4) q(2)])
    have at: "readRoutine env (d\<lparr>rs_queue := x\<rparr>) i = Some r" for x using q(2) by (simp add: readRoutine_def)
    let ?fire = "\<lambda>trigger. \<lparr>rf_routineId = i, rf_fireId = routineFireIdV1 i (qf_discriminator q),
      rf_trigger = trigger, rf_cue = routineCueV1 (rr_name r) (rr_prompt r) trigger None (qf_delivery q),
      rf_mintedAt = rv_iso env now, rf_dueAt = None, rf_missed = None,
      rf_entryId = routineFireIdV1 i (qf_discriminator q) @ js ''-entry'', rf_promptBy = Some (routinePromptByV1 r)\<rparr>"
    obtain trigger where step: "named ROUTINE_TRIGGER_KINDS (Some (JStr (qf_trigger q))) = Some trigger"
      "writeClaim env r (?fire trigger) now ?d = Inr d'" "found = Some (?fire trigger)"
      using assms(3,5) q
      by (cases w) (auto simp: claimQueued_def Let_def rbind_Inr_iff at need_def split: option.splits simp del: js_simps)
    then show ?thesis using writeClaim_fields [OF step(2)] q i by simp
  next
    case False
    moreover have "readRoutine env (d\<lparr>rs_queue := x\<rparr>) i = readRoutine env d i" for x
      by (simp add: readRoutine_def)
    ultimately show ?thesis using assms(3,5)
      by (cases w) (auto simp: claimQueued_def Let_def split: option.splits)
  qed
  have sorted: "kv_sorted (rs_queue d)" using assms(1) by (simp add: queue_ok_def)
  have w: "w \<in> set (waitingFor i d)" using assms(3) by simp
  obtain n where n: "fst w = ROUTINE_QUEUE_PREFIX @ i @ '':'' @ padStart 10 (decimal n)"
    using assms(1,2) w by (rule waiting_key)
  have list: "waitingFor j d' = filter (\<lambda>e. fst e \<noteq> fst w) (waitingFor j d)" for j
    using main by (simp add: waitingFor_def listPrefix_delete)
  have "kv_sorted (w # ws)"
    using sorted_listPrefix [OF sorted, of "routineQueuePrefixV1 i"] assms(3) by (simp add: waitingFor_def)
  then have "\<forall>e \<in> set ws. fst e \<noteq> fst w" by (auto simp: kv_sorted_def)
  then have "waitingFor i d' = ws" using assms(3) by (simp add: list)
  then show "waiting_list i d = queued (snd w) # waiting_list i d'" using assms(3) by (simp add: waiting_list_def)
  show "waiting_list j d' = waiting_list j d" if j: "isRoutineIdV1 j" "j \<noteq> i"
  proof -
    have "fst e \<noteq> fst w" if e: "e \<in> set (waitingFor j d)" for e
    proof
      assume "fst e = fst w"
      then have "take (length (routineQueuePrefixV1 j)) (fst w) = routineQueuePrefixV1 j"
        using e by (auto simp: waitingFor_def listPrefix_def)
      then show False using numbered_prefix [OF j(1) assms(2), of ROUTINE_QUEUE_PREFIX 10 n] j(2)
        by (simp add: n routineQueuePrefixV1_def)
    qed
    then show ?thesis by (simp add: waiting_list_def list)
  qed
  show "queue_ok d'" using assms(1) main by (auto simp: queue_ok_def)
  show "found = Some fire \<Longrightarrow> \<exists>q r trigger. queued (snd w) = Some q \<and> readRoutine env d i = Some r \<and>
      named ROUTINE_TRIGGER_KINDS (Some (JStr (qf_trigger q))) = Some trigger \<and>
      rf_fireId fire = routineFireIdV1 i (qf_discriminator q) \<and>
      rf_cue fire = routineCueV1 (rr_name r) (rr_prompt r) trigger None (qf_delivery q) \<and>
      lockOf d' i = Some (fireJson fire)"
    using main by blast
  show "found = None \<Longrightarrow> queued (snd w) = None \<or> readRoutine env d i = None"
    using main by (elim conjE) simp
qed

section \<open>The run log\<close>

definition runRowOf :: "routine_env \<Rightarrow> json \<Rightarrow> routine_entry" where
  "runRowOf env v = projr (decodeRoutineRunEntryV1 (rv_parse env) v)"

definition log_rows :: "routine_env \<Rightarrow> string \<Rightarrow> routine_store \<Rightarrow> routine_entry list" where
  "log_rows env i d = map (runRowOf env \<circ> snd) (listPrefix (routineRunPrefixV1 i) (rs_runs d))"

definition log_ok :: "routine_env \<Rightarrow> routine_store \<Rightarrow> bool" where
  "log_ok env d \<longleftrightarrow> kv_sorted (rs_runs d) \<and>
     (\<forall>e \<in> set (rs_runs d). \<exists>i n r. isRoutineIdV1 i \<and> routineRunKeyV1 i n = Inr (fst e) \<and>
        decodeRoutineRunEntryV1 (rv_parse env) (snd e) = Inr r) \<and>
     (\<forall>i. isRoutineIdV1 i \<longrightarrow> distinct (map re_entryId (log_rows env i d)) \<and>
        length (log_rows env i d) \<le> ROUTINE_RUN_LOG_LIMIT)"

lemma runKey_Inr: "routineRunKeyV1 i n = Inr k \<longleftrightarrow> n < RUN_SEQUENCE_CEILING \<and>
    k = ROUTINE_RUN_PREFIX @ i @ '':'' @ padStart 10 (decimal (RUN_SEQUENCE_CEILING - n))"
  by (auto simp: routineRunKeyV1_def routineRunPrefixV1_def)

lemma run_key:
  assumes "log_ok env d" and "isRoutineIdV1 i" and "e \<in> set (listPrefix (routineRunPrefixV1 i) (rs_runs d))"
  obtains n r where "n < RUN_SEQUENCE_CEILING"
    and "fst e = ROUTINE_RUN_PREFIX @ i @ '':'' @ padStart 10 (decimal (RUN_SEQUENCE_CEILING - n))"
    and "decodeRoutineRunEntryV1 (rv_parse env) (snd e) = Inr r"
proof -
  have e: "e \<in> set (rs_runs d)" "take (length (routineRunPrefixV1 i)) (fst e) = routineRunPrefixV1 i"
    using assms(3) by (auto simp: listPrefix_def)
  then obtain j n r where j: "isRoutineIdV1 j" "n < RUN_SEQUENCE_CEILING"
    "fst e = ROUTINE_RUN_PREFIX @ j @ '':'' @ padStart 10 (decimal (RUN_SEQUENCE_CEILING - n))"
    "decodeRoutineRunEntryV1 (rv_parse env) (snd e) = Inr r"
    using assms(1) unfolding log_ok_def runKey_Inr by blast
  then have "i = j"
    using numbered_prefix [OF assms(2) j(1), of ROUTINE_RUN_PREFIX 10 "RUN_SEQUENCE_CEILING - n"] e(2)
    by (simp add: routineRunPrefixV1_def)
  then show ?thesis using j that by blast
qed

lemma findEntry_rows:
  assumes "\<forall>e \<in> set xs. \<exists>r. decodeRoutineRunEntryV1 (rv_parse env) (snd e) = Inr r"
  shows "findEntry (rv_parse env) entryId xs =
    Inr (map_option fst (find (\<lambda>e. re_entryId (runRowOf env (snd e)) = entryId) xs))"
  using assms by (induction xs) (auto simp: runRowOf_def)

lemma filter_drop_keys:
  "distinct (map fst xs) \<Longrightarrow> filter (\<lambda>e. fst e \<notin> set (drop n (map fst xs))) xs = take n xs"
proof -
  assume distinct: "distinct (map fst xs)"
  then have "distinct (map fst (take n xs) @ map fst (drop n xs))" by (metis append_take_drop_id map_append)
  then have "filter (\<lambda>e. fst e \<notin> set (map fst (drop n xs))) (take n xs) = take n xs"
    and "filter (\<lambda>e. fst e \<notin> set (map fst (drop n xs))) (drop n xs) = []"
    by (auto simp: filter_empty_conv intro: filter_True)
  then have "filter (\<lambda>e. fst e \<notin> set (map fst (drop n xs))) (take n xs @ drop n xs) = take n xs"
    by (simp only: filter_append append_Nil2)
  then show ?thesis by (simp add: drop_map)
qed

text \<open>What \<open>append_rows\<close> shows of the rows of the entry's Routine, and what it keeps.\<close>

definition appended :: "routine_entry \<Rightarrow> routine_entry list \<Rightarrow> routine_entry list" where
  "appended e rows =
     (if re_entryId e \<in> re_entryId ` set rows
      then map (\<lambda>r. if re_entryId r = re_entryId e then e else r) rows
      else take ROUTINE_RUN_LOG_LIMIT (e # rows))"

lemma appended_ok:
  assumes "distinct (map re_entryId rows)" and "length rows \<le> ROUTINE_RUN_LOG_LIMIT"
  shows "distinct (map re_entryId (appended e rows)) \<and> length (appended e rows) \<le> ROUTINE_RUN_LOG_LIMIT"
proof -
  have "map re_entryId (map (\<lambda>r. if re_entryId r = re_entryId e then e else r) rows) = map re_entryId rows"
    by simp
  then have "distinct (map re_entryId (map (\<lambda>r. if re_entryId r = re_entryId e then e else r) rows))"
    using assms(1) by argo
  moreover have "distinct (take ROUTINE_RUN_LOG_LIMIT (map re_entryId (e # rows)))"
    if "re_entryId e \<notin> re_entryId ` set rows" using assms(1) that by (intro distinct_take) simp
  ultimately show ?thesis using assms(2) by (auto simp: appended_def take_map [symmetric] simp del: take_Suc_Cons)
qed

lemma put_row:
  assumes ok: "log_ok env d" and e: "routine_entry_ok (rv_parse env) e"
    and found: "x \<in> set (listPrefix (routineRunPrefixV1 (re_routineId e)) (rs_runs d))"
    and same: "re_entryId (runRowOf env (snd x)) = re_entryId e"
  shows "log_rows env (re_routineId e) (d\<lparr>rs_runs := kv_put (fst x) (routineEntryJson e) (rs_runs d)\<rparr>) =
    appended e (log_rows env (re_routineId e) d)"
proof -
  let ?rows = "listPrefix (routineRunPrefixV1 (re_routineId e)) (rs_runs d)"
  have sorted: "kv_sorted (rs_runs d)" using ok by (simp add: log_ok_def)
  have row: "runRowOf env (routineEntryJson e) = e" using e by (simp add: runRowOf_def entry_round_trip)
  have "isRoutineIdV1 (re_routineId e)" using e by (simp add: routine_entry_ok_def)
  then have "distinct (map re_entryId (log_rows env (re_routineId e) d))" using ok by (simp add: log_ok_def)
  then have ids: "inj_on (\<lambda>y. re_entryId (runRowOf env (snd y))) (set ?rows)"
    by (simp add: log_rows_def distinct_map comp_def comp_inj_on_iff [symmetric] inj_on_def)
  have "distinct (map fst ?rows)" using sorted_keys [OF sorted_listPrefix [OF sorted]] by auto
  then have keys: "inj_on fst (set ?rows)" by (simp add: distinct_map)
  have match: "fst y = fst x \<longleftrightarrow> re_entryId (runRowOf env (snd y)) = re_entryId e" if "y \<in> set ?rows" for y
    using inj_on_eq_iff [OF ids that found] inj_on_eq_iff [OF keys that found] same by simp
  have "log_rows env (re_routineId e) (d\<lparr>rs_runs := kv_put (fst x) (routineEntryJson e) (rs_runs d)\<rparr>) =
      map (runRowOf env \<circ> snd) (map (\<lambda>y. if fst y = fst x then (fst x, routineEntryJson e) else y) ?rows)"
    using listPrefix_put_same [OF sorted imageI [OF found, of fst], of "routineEntryJson e"] by (simp add: log_rows_def)
  also have "\<dots> = map (\<lambda>r. if re_entryId r = re_entryId e then e else r) (log_rows env (re_routineId e) d)"
    using match by (simp add: log_rows_def row)
  finally have rows: "log_rows env (re_routineId e) (d\<lparr>rs_runs := kv_put (fst x) (routineEntryJson e) (rs_runs d)\<rparr>) =
      map (\<lambda>r. if re_entryId r = re_entryId e then e else r) (log_rows env (re_routineId e) d)" .
  have "re_entryId e \<in> re_entryId ` set (log_rows env (re_routineId e) d)"
    using imageI [OF found, of "\<lambda>y. re_entryId (runRowOf env (snd y))"] same by (simp add: log_rows_def image_image)
  then show ?thesis unfolding rows by (simp add: appended_def)
qed

lemma new_row:
  assumes ok: "log_ok env d" and e: "routine_entry_ok (rv_parse env) e"
    and n: "n = nextRunSequenceV1 (map fst (listPrefix (routineRunPrefixV1 (re_routineId e)) (rs_runs d)))"
    and key: "routineRunKeyV1 (re_routineId e) n = Inr key"
    and fresh: "re_entryId e \<notin> re_entryId ` set (log_rows env (re_routineId e) d)"
  shows "log_rows env (re_routineId e) (d\<lparr>rs_runs := fold kv_delete
      (drop (ROUTINE_RUN_LOG_LIMIT - 1) (sort (map fst (listPrefix (routineRunPrefixV1 (re_routineId e)) (rs_runs d)))))
      (kv_put key (routineEntryJson e) (rs_runs d))\<rparr>) = appended e (log_rows env (re_routineId e) d)"
proof -
  let ?rows = "listPrefix (routineRunPrefixV1 (re_routineId e)) (rs_runs d)"
  have sorted: "kv_sorted (rs_runs d)" using ok by (simp add: log_ok_def)
  have row: "runRowOf env (routineEntryJson e) = e" using e by (simp add: runRowOf_def entry_round_trip)
  have i: "isRoutineIdV1 (re_routineId e)" using e by (simp add: routine_entry_ok_def)
  have k: "n < RUN_SEQUENCE_CEILING"
    "key = ROUTINE_RUN_PREFIX @ re_routineId e @ '':'' @ padStart 10 (decimal (RUN_SEQUENCE_CEILING - n))"
    using key by (simp_all add: runKey_Inr)
  have below: "key < fst y" if y: "y \<in> set ?rows" for y
  proof -
    obtain m where m: "m < RUN_SEQUENCE_CEILING"
      "fst y = ROUTINE_RUN_PREFIX @ re_routineId e @ '':'' @ padStart 10 (decimal (RUN_SEQUENCE_CEILING - m))"
      using run_key [OF ok i y] by metis
    have "keyNumber (fst y) = Some (RUN_SEQUENCE_CEILING - m)"
      using keyNumber_padded [of "RUN_SEQUENCE_CEILING - m" "ROUTINE_RUN_PREFIX @ re_routineId e"] m
      by (simp add: RUN_SEQUENCE_CEILING_def)
    then have "int RUN_SEQUENCE_CEILING - int (RUN_SEQUENCE_CEILING - m) < int n"
      unfolding n using y by (intro next_run_above) auto
    then have "m < n" using m(1) by simp
    then have "RUN_SEQUENCE_CEILING - n < RUN_SEQUENCE_CEILING - m" using k(1) by simp
    then show ?thesis
      using m k padded_less [of "RUN_SEQUENCE_CEILING - n" "RUN_SEQUENCE_CEILING - m"]
      by (simp add: RUN_SEQUENCE_CEILING_def)
  qed
  have distinct: "distinct (map fst ?rows)" and in_order: "sort (map fst ?rows) = map fst ?rows"
    using sorted_keys [OF sorted_listPrefix [OF sorted]] by auto
  have put: "listPrefix (routineRunPrefixV1 (re_routineId e)) (kv_put key (routineEntryJson e) (rs_runs d)) =
      (key, routineEntryJson e) # ?rows"
    using below by (intro listPrefix_put_first [OF sorted]) (simp_all add: k(2) routineRunPrefixV1_def)
  have "key \<notin> set (drop (ROUTINE_RUN_LOG_LIMIT - 1) (map fst ?rows))"
  proof
    assume "key \<in> set (drop (ROUTINE_RUN_LOG_LIMIT - 1) (map fst ?rows))"
    then obtain y where "y \<in> set ?rows" and "fst y = key" by (auto dest!: in_set_dropD)
    then show False using below [of y] by simp
  qed
  then have "listPrefix (routineRunPrefixV1 (re_routineId e))
      (fold kv_delete (drop (ROUTINE_RUN_LOG_LIMIT - 1) (sort (map fst ?rows))) (kv_put key (routineEntryJson e) (rs_runs d))) =
      (key, routineEntryJson e) # take (ROUTINE_RUN_LOG_LIMIT - 1) ?rows"
    using filter_drop_keys [OF distinct] by (simp add: listPrefix_delete_all put in_order)
  then show ?thesis
    using fresh row by (simp add: log_rows_def appended_def ROUTINE_RUN_LOG_LIMIT_def take_map)
qed

lemma kept_rows:
  assumes "\<And>y. y \<in> set (rs_runs d') \<Longrightarrow> y \<in> set (rs_runs d) \<or> fst y = key \<and> snd y = routineEntryJson e"
    and "log_ok env d" and "routine_entry_ok (rv_parse env) e" and "kv_sorted (rs_runs d')"
    and "\<exists>n. routineRunKeyV1 (re_routineId e) n = Inr key"
    and "log_rows env (re_routineId e) d' = appended e (log_rows env (re_routineId e) d)"
    and "\<And>j. isRoutineIdV1 j \<Longrightarrow> j \<noteq> re_routineId e \<Longrightarrow> log_rows env j d' = log_rows env j d"
  shows "log_ok env d'"
proof -
  have e: "isRoutineIdV1 (re_routineId e)" "decodeRoutineRunEntryV1 (rv_parse env) (routineEntryJson e) = Inr e"
    using assms(3) by (simp_all add: routine_entry_ok_def entry_round_trip)
  have "\<exists>i n r. isRoutineIdV1 i \<and> routineRunKeyV1 i n = Inr (fst y) \<and>
      decodeRoutineRunEntryV1 (rv_parse env) (snd y) = Inr r" if "y \<in> set (rs_runs d')" for y
    using assms(1) [OF that]
  proof
    assume "y \<in> set (rs_runs d)"
    then show ?thesis using assms(2) unfolding log_ok_def by blast
  next
    assume "fst y = key \<and> snd y = routineEntryJson e"
    then show ?thesis using assms(5) e by auto
  qed
  moreover have "distinct (map re_entryId (log_rows env j d')) \<and> length (log_rows env j d') \<le> ROUTINE_RUN_LOG_LIMIT"
    if "isRoutineIdV1 j" for j
    using that assms(2,6,7) appended_ok by (cases "j = re_routineId e") (auto simp: log_ok_def)
  ultimately show ?thesis using assms(4) by (simp add: log_ok_def)
qed

lemma other_rows:
  assumes "isRoutineIdV1 i" and "isRoutineIdV1 j" and "j \<noteq> i" and "routineRunKeyV1 i n = Inr key"
    and "set ks \<subseteq> fst ` set (listPrefix (routineRunPrefixV1 i) m)"
  shows "listPrefix (routineRunPrefixV1 j) (fold kv_delete ks (kv_put key v m)) = listPrefix (routineRunPrefixV1 j) m"
proof -
  have key: "take (length (routineRunPrefixV1 j)) key \<noteq> routineRunPrefixV1 j"
    using numbered_prefix [OF assms(2,1), of ROUTINE_RUN_PREFIX 10 "RUN_SEQUENCE_CEILING - n"] assms(3,4)
    by (simp add: runKey_Inr routineRunPrefixV1_def)
  have "fst e \<notin> set ks" if e: "e \<in> set (listPrefix (routineRunPrefixV1 j) m)" for e
  proof
    assume "fst e \<in> set ks"
    then have both: "take (length (routineRunPrefixV1 i)) (fst e) = routineRunPrefixV1 i"
      "take (length (routineRunPrefixV1 j)) (fst e) = routineRunPrefixV1 j"
      using assms(5) e by (auto simp: listPrefix_def)
    define u where "u = drop (length (routineRunPrefixV1 i)) (fst e)"
    define w where "w = drop (length (routineRunPrefixV1 j)) (fst e)"
    have "fst e = routineRunPrefixV1 i @ u" and "fst e = routineRunPrefixV1 j @ w"
      unfolding u_def w_def using both by (metis append_take_drop_id)+
    then have "i @ '':'' @ u = j @ '':'' @ w" by (simp add: routineRunPrefixV1_def)
    then show False
      using colon_split [OF routineId_no_colon [OF assms(1)] routineId_no_colon [OF assms(2)]] assms(3) by metis
  qed
  then show ?thesis
    by (simp add: listPrefix_delete_all listPrefix_put_other [OF key] filter_id_conv)
qed

lemma append_rows:
  assumes "log_ok env d" and "appendRoutineRunEntryV1 env e d = Inr d'"
  obtains e' where "decodeRoutineRunEntryV1 (rv_parse env) (routineEntryJson e) = Inr e'" and "log_ok env d'"
    and "log_rows env (re_routineId e') d' = appended e' (log_rows env (re_routineId e') d)"
    and "\<And>j. isRoutineIdV1 j \<Longrightarrow> j \<noteq> re_routineId e' \<Longrightarrow> log_rows env j d' = log_rows env j d"
proof -
  obtain e' where decoded: "decodeRoutineRunEntryV1 (rv_parse env) (routineEntryJson e) = Inr e'"
    using assms(2) by (auto simp: appendRoutineRunEntryV1_def rbind_Inr_iff)
  let ?rows = "listPrefix (routineRunPrefixV1 (re_routineId e')) (rs_runs d)"
  have ok: "routine_entry_ok (rv_parse env) e'" using decoded by (rule decodeRoutineRunEntryV1_Inr)
  then have i: "isRoutineIdV1 (re_routineId e')" by (simp add: routine_entry_ok_def)
  have sorted: "kv_sorted (rs_runs d)" using assms(1) by (simp add: log_ok_def)
  have readable: "\<forall>x \<in> set ?rows. \<exists>r. decodeRoutineRunEntryV1 (rv_parse env) (snd x) = Inr r"
    using run_key [OF assms(1) i] by blast
  have in_rows: "x \<in> set ?rows \<Longrightarrow> x \<in> set (rs_runs d)" for x by (auto simp: listPrefix_def)
  show ?thesis
  proof (cases "find (\<lambda>x. re_entryId (runRowOf env (snd x)) = re_entryId e') ?rows")
    case (Some x)
    then have x: "x \<in> set ?rows" "re_entryId (runRowOf env (snd x)) = re_entryId e'"
      by (auto simp: find_Some_iff)
    have d': "d' = d\<lparr>rs_runs := kv_put (fst x) (routineEntryJson e') (rs_runs d)\<rparr>"
      using assms(2) decoded Some findEntry_rows [OF readable]
      by (simp add: appendRoutineRunEntryV1_def Let_def)
    obtain n where key: "routineRunKeyV1 (re_routineId e') n = Inr (fst x)"
      using run_key [OF assms(1) i x(1)] runKey_Inr by metis
    have rows: "log_rows env (re_routineId e') d' = appended e' (log_rows env (re_routineId e') d)"
      unfolding d' by (rule put_row [OF assms(1) ok x])
    have others: "log_rows env j d' = log_rows env j d" if "isRoutineIdV1 j" "j \<noteq> re_routineId e'" for j
      using other_rows [OF i that key, of "[]" "rs_runs d" "routineEntryJson e'"] by (simp add: log_rows_def d')
    have "log_ok env d'"
      using rows others key sorted set_kv_put [of "fst x" "routineEntryJson e'" "rs_runs d"]
      by (intro kept_rows [OF _ assms(1) ok, of _ "fst x"]) (auto simp: d')
    then show ?thesis using that [OF decoded _ rows] others by blast
  next
    case None
    let ?n = "nextRunSequenceV1 (map fst ?rows)"
    let ?old = "drop (ROUTINE_RUN_LOG_LIMIT - 1) (sort (map fst ?rows))"
    obtain key where key: "routineRunKeyV1 (re_routineId e') ?n = Inr key"
      "d' = d\<lparr>rs_runs := fold kv_delete ?old (kv_put key (routineEntryJson e') (rs_runs d))\<rparr>"
      using assms(2) decoded None findEntry_rows [OF readable]
      by (auto simp: appendRoutineRunEntryV1_def Let_def rbind_Inr_iff)
    have fresh: "re_entryId e' \<notin> re_entryId ` set (log_rows env (re_routineId e') d)"
      using None unfolding find_None_iff log_rows_def by fastforce
    have rows: "log_rows env (re_routineId e') d' = appended e' (log_rows env (re_routineId e') d)"
      unfolding key(2) by (rule new_row [OF assms(1) ok refl key(1) fresh])
    have old: "set ?old \<subseteq> fst ` set ?rows" using set_drop_subset [of _ "sort (map fst ?rows)"] by fastforce
    have others: "log_rows env j d' = log_rows env j d" if "isRoutineIdV1 j" "j \<noteq> re_routineId e'" for j
      using other_rows [OF i that key(1) old] by (simp add: log_rows_def key(2))
    have sorted': "kv_sorted (rs_runs d')" unfolding key(2) using sorted by (simp add: sorted_delete_all)
    have member: "y \<in> set (rs_runs d) \<or> fst y = key \<and> snd y = routineEntryJson e'" if "y \<in> set (rs_runs d')" for y
      using that set_delete_all [of ?old "kv_put key (routineEntryJson e') (rs_runs d)"]
        set_kv_put [of key "routineEntryJson e'" "rs_runs d"]
      unfolding key(2) by auto
    have numbered: "\<exists>n. routineRunKeyV1 (re_routineId e') n = Inr key" using key(1) by blast
    have "log_ok env d'" by (rule kept_rows [OF member assms(1) ok sorted' numbered rows others])
    then show ?thesis using that [OF decoded _ rows] others by blast
  qed
qed

end
