(* ===== verification/Routine_Settlement.thy ===== *)
theory Routine_Settlement
  imports Routine_Queue
begin

text \<open>
  What settling, deferring and claiming a firing leave behind: the lock is gone and a row of the run log says
  how it ended, nothing outlives a deleted Routine, a failure counts and pushes the next run back, a deferral
  keeps every debt, every scheduled Routine has a deadline, and a claim that answers nothing leaves nothing owed.
\<close>

section \<open>Settling\<close>

lemma decoded_row:
  assumes "decodeRoutineRunEntryV1 dp (routineEntryJson e) = Inr e'"
  shows "e' = e\<lparr>re_entryId := trim (re_entryId e), re_runId := trim (re_runId e), re_fireId := trim (re_fireId e),
    re_summary := map_option trim (re_summary e)\<rparr>"
  using assms
  by (cases e; cases "re_finishedAt e"; cases "re_summary e")
    (auto simp: decodeRoutineRunEntryV1_def routineEntryJson_def codec_defs routineIdField_def rbind_Inr_iff
      routineText_def routineTimestamp_def simp del: js_simps split: if_splits)

lemma append_locks: "appendRoutineRunEntryV1 env e d = Inr d' \<Longrightarrow> lockOf d' j = lockOf d j"
  by (drule append_frame) (metis lockOf_def routine_store.select_convs(4) routine_store.surjective routine_store.update_convs(2))

lemma pause_locks: "pauseRoutine env fire n now d = Inr d' \<Longrightarrow> lockOf d' j = lockOf d j"
  by (auto simp: pauseRoutine_def split: option.splits if_splits dest!: append_locks)

lemma outcome_locks: "recordOutcomeOnClock env fire outcome now d = Inr d' \<Longrightarrow> lockOf d' j = lockOf d j"
  by (auto simp: recordOutcomeOnClock_def Let_def rbind_Inr_iff split: option.splits sum.splits if_splits
      dest: pause_locks)

lemma inbox_locks: "recordFailureInbox env fire outcome at d = Inr d' \<Longrightarrow> lockOf d' j = lockOf d j"
  by (drule recordFailureInbox_frame) (metis lockOf_def routine_store.select_convs(4) routine_store.surjective
      routine_store.update_convs(6,7))

lemma settle_steps:
  assumes "settleFiring env fire outcome now d = Inr d'" and "recordAt d (rf_routineId fire) \<noteq> None"
  obtains d2 d3 where "recordOutcomeOnClock env fire outcome now
      (d\<lparr>rs_fires := kv_delete (routineFireKeyV1 (rf_routineId fire)) (rs_fires d)\<rparr>) = Inr d2"
    and "(if fo_status outcome \<noteq> Fire_Ok \<and> fo_status outcome \<noteq> Fire_Skipped
        then recordFailureInbox env fire outcome (rv_iso env now) d2 else Inr d2) = Inr d3"
    and "appendRoutineRunEntryV1 env (settledEntry fire outcome (rv_iso env now)) d3 = Inr d'"
  using assms by (auto simp: settleFiring_def recordAt_def Let_def rbind_Inr_iff)

lemma settle_deleted:
  assumes "recordAt d (rf_routineId fire) = None"
  shows "settleFiring env fire outcome now d = Inr (sweepOrphans (rf_routineId fire)
    (d\<lparr>rs_fires := kv_delete (routineFireKeyV1 (rf_routineId fire)) (rs_fires d)\<rparr>))"
  using assms by (simp add: settleFiring_def recordAt_def Let_def)

lemma settle_locks:
  assumes "settleFiring env fire outcome now d = Inr d'"
  shows "lockOf d' j = (if j = rf_routineId fire then None else lockOf d j)"
proof (cases "recordAt d (rf_routineId fire)")
  case None
  then show ?thesis using assms settle_deleted [of d fire env outcome now]
    by (auto simp: sweepOrphans_def lockOf_def)
next
  case (Some v)
  obtain d2 d3 where steps: "recordOutcomeOnClock env fire outcome now
      (d\<lparr>rs_fires := kv_delete (routineFireKeyV1 (rf_routineId fire)) (rs_fires d)\<rparr>) = Inr d2"
    "(if fo_status outcome \<noteq> Fire_Ok \<and> fo_status outcome \<noteq> Fire_Skipped
        then recordFailureInbox env fire outcome (rv_iso env now) d2 else Inr d2) = Inr d3"
    "appendRoutineRunEntryV1 env (settledEntry fire outcome (rv_iso env now)) d3 = Inr d'"
    using Some settle_steps [OF assms] by auto
  have "lockOf d' j = lockOf d2 j"
    using append_locks [OF steps(3)] steps(2) inbox_locks by (auto split: if_splits)
  then show ?thesis using outcome_locks [OF steps(1)] by (simp add: lockOf_def)
qed

text \<open>Nothing outlives the record it belongs to.\<close>

lemma swept:
  "clockAt (sweepOrphans i d) i = None \<and> listPrefix (routineRunPrefixV1 i) (rs_runs (sweepOrphans i d)) = []"
proof -
  have "listPrefix p (fold kv_delete (map fst (listPrefix p m)) m) = []" for p and m :: "json kv"
    by (auto simp: listPrefix_delete_all filter_empty_conv)
  then show ?thesis by (simp add: sweepOrphans_def)
qed

lemma pause_log: "pauseRoutine env fire n now d = Inr d' \<Longrightarrow> log_ok env d \<Longrightarrow> log_ok env d'"
proof -
  assume pause: "pauseRoutine env fire n now d = Inr d'" and ok: "log_ok env d"
  have put: "log_ok env (putRoutine i r d)" for i r using ok by (simp add: log_ok_def log_rows_def)
  show ?thesis
    using pause ok append_rows [OF put]
    by (auto simp: pauseRoutine_def split: option.splits if_splits)
qed

lemma same_runs_log: "rs_runs d' = rs_runs d \<Longrightarrow> log_ok env d' = log_ok env d"
  by (simp add: log_ok_def log_rows_def)

lemma outcome_log:
  assumes "recordOutcomeOnClock env fire outcome now d = Inr d'" and "log_ok env d"
  shows "log_ok env d'"
proof -
  have "\<exists>e n. rs_runs d' = rs_runs e \<and> (e = d \<or> pauseRoutine env fire n now d = Inr e)"
    using assms(1)
    by (auto simp: recordOutcomeOnClock_def Let_def rbind_Inr_iff split: option.splits sum.splits if_splits)
  then show ?thesis using assms(2) pause_log same_runs_log by metis
qed

lemma appended_member: "e \<in> set (appended e rows)"
  by (auto simp: appended_def ROUTINE_RUN_LOG_LIMIT_def)

lemma settle_row:
  assumes "settleFiring env fire outcome now d = Inr d'" and "recordAt d (rf_routineId fire) \<noteq> None"
    and "log_ok env d" and "fire_ok dp fire"
  shows "log_ok env d'" and "\<exists>e \<in> set (log_rows env (rf_routineId fire) d'). re_entryId e = rf_entryId fire \<and>
    re_status e = settledStatus (fo_status outcome) \<and> re_finishedAt e = Some (rv_iso env now) \<and>
    re_summary e = map_option (\<lambda>s. trim (slice0 s 2000)) (fo_summary outcome)"
proof -
  let ?d = "d\<lparr>rs_fires := kv_delete (routineFireKeyV1 (rf_routineId fire)) (rs_fires d)\<rparr>"
  obtain d2 d3 where steps: "recordOutcomeOnClock env fire outcome now ?d = Inr d2"
    "(if fo_status outcome \<noteq> Fire_Ok \<and> fo_status outcome \<noteq> Fire_Skipped
        then recordFailureInbox env fire outcome (rv_iso env now) d2 else Inr d2) = Inr d3"
    "appendRoutineRunEntryV1 env (settledEntry fire outcome (rv_iso env now)) d3 = Inr d'"
    using settle_steps [OF assms(1,2)] by blast
  have "log_ok env d2" using outcome_log [OF steps(1)] assms(3) same_runs_log [of ?d d] by simp
  moreover have "rs_runs d3 = rs_runs d2"
    using steps(2) recordFailureInbox_frame
    by (auto split: if_splits) (metis routine_store.select_convs(2) routine_store.surjective routine_store.update_convs(6,7))
  ultimately have "log_ok env d3" using same_runs_log by blast
  from append_rows [OF this steps(3)] obtain e where e:
    "decodeRoutineRunEntryV1 (rv_parse env) (routineEntryJson (settledEntry fire outcome (rv_iso env now))) = Inr e"
    "log_ok env d'" "log_rows env (re_routineId e) d' = appended e (log_rows env (re_routineId e) d3)"
    by metis
  show "log_ok env d'" by (rule e(2))
  have "trim (rf_entryId fire) = rf_entryId fire" using assms(4) by (simp add: fire_ok_def text_ok_def)
  then have "re_routineId e = rf_routineId fire \<and> re_entryId e = rf_entryId fire \<and>
      re_status e = settledStatus (fo_status outcome) \<and> re_finishedAt e = Some (rv_iso env now) \<and>
      re_summary e = map_option (\<lambda>s. trim (slice0 s 2000)) (fo_summary outcome)"
    using decoded_row [OF e(1)] by (simp add: settledEntry_def option.map_comp comp_def)
  then show "\<exists>e \<in> set (log_rows env (rf_routineId fire) d'). re_entryId e = rf_entryId fire \<and>
      re_status e = settledStatus (fo_status outcome) \<and> re_finishedAt e = Some (rv_iso env now) \<and>
      re_summary e = map_option (\<lambda>s. trim (slice0 s 2000)) (fo_summary outcome)"
    using e(3) appended_member by metis
qed

text \<open>A row whose summary has no text is refused, and with it the settlement.\<close>

lemma blank_summary_refused:
  assumes "fo_summary outcome = Some s" and "trim (slice0 s 2000) = []" and "recordAt d (rf_routineId fire) \<noteq> None"
  shows "\<exists>e. settleFiring env fire outcome now d = Inl e"
proof -
  have "\<exists>e. appendRoutineRunEntryV1 env (settledEntry fire outcome (rv_iso env now)) d3 = Inl e" for d3
  proof (rule ccontr)
    assume "\<nexists>e. appendRoutineRunEntryV1 env (settledEntry fire outcome (rv_iso env now)) d3 = Inl e"
    then obtain d' where "appendRoutineRunEntryV1 env (settledEntry fire outcome (rv_iso env now)) d3 = Inr d'"
      by (metis old.sum.exhaust)
    then obtain e where "decodeRoutineRunEntryV1 (rv_parse env)
        (routineEntryJson (settledEntry fire outcome (rv_iso env now))) = Inr e"
      by (auto simp: appendRoutineRunEntryV1_def rbind_Inr_iff)
    then have "re_summary e = Some []" and "routine_entry_ok (rv_parse env) e"
      using decoded_row [of "rv_parse env" "settledEntry fire outcome (rv_iso env now)" e] assms(1,2)
        decodeRoutineRunEntryV1_Inr [of "rv_parse env" _ e]
      by (simp_all add: settledEntry_def)
    then show False by (simp add: routine_entry_ok_def text_ok_def)
  qed
  then show ?thesis
  proof (cases "settleFiring env fire outcome now d")
    case (Inr d')
    then show ?thesis using settle_steps [OF Inr assms(3)]
      \<open>\<And>d3. \<exists>e. appendRoutineRunEntryV1 env (settledEntry fire outcome (rv_iso env now)) d3 = Inl e\<close>
      by (metis sum.distinct(1))
  qed simp
qed

section \<open>Failures\<close>

lemma readRoutine_frame: "rs_routines d' = rs_routines d \<Longrightarrow> readRoutine env d' = readRoutine env d"
  by (simp add: fun_eq_iff readRoutine_def)

lemma pause_disables:
  assumes "routine_env_ok env" "in_time now" "readRoutine env d (rf_routineId fire) = Some r"
    and "pauseRoutine env fire n now d = Inr d'"
  shows "\<exists>r'. readRoutine env d' (rf_routineId fire) = Some r' \<and> \<not> rr_enabled r'"
proof (cases "rr_enabled r")
  case True
  let ?r = "r\<lparr>rr_enabled := False, rr_updatedAt := rv_iso env now\<rparr>"
  have ok: "routine_ok (rv_parse env) ?r"
    using readRoutine_ok [OF assms(3)] iso_stamp [OF assms(1,2)] by (simp add: routine_ok_def)
  have "same_clocks (putRoutine (rf_routineId fire) ?r d) d'"
    using assms(3,4) True op_same(1) by (auto simp: pauseRoutine_def)
  then show ?thesis using ok by (simp add: readRoutine_same)
next
  case False
  then show ?thesis using assms(3,4) by (simp add: pauseRoutine_def)
qed

lemma settle_routines:
  assumes "settleFiring env fire outcome now d = Inr d'" and "recordAt d (rf_routineId fire) \<noteq> None"
  obtains d2 where "recordOutcomeOnClock env fire outcome now
      (d\<lparr>rs_fires := kv_delete (routineFireKeyV1 (rf_routineId fire)) (rs_fires d)\<rparr>) = Inr d2"
    and "readRoutine env d' = readRoutine env d2"
proof -
  obtain d2 d3 where steps: "recordOutcomeOnClock env fire outcome now
      (d\<lparr>rs_fires := kv_delete (routineFireKeyV1 (rf_routineId fire)) (rs_fires d)\<rparr>) = Inr d2"
    "(if fo_status outcome \<noteq> Fire_Ok \<and> fo_status outcome \<noteq> Fire_Skipped
        then recordFailureInbox env fire outcome (rv_iso env now) d2 else Inr d2) = Inr d3"
    "appendRoutineRunEntryV1 env (settledEntry fire outcome (rv_iso env now)) d3 = Inr d'"
    using settle_steps [OF assms] by blast
  have "same_clocks d2 d3" using steps(2) op_same(4) by (auto split: if_splits)
  then have "same_clocks d2 d'" using op_same(1) [OF steps(3)] by (rule same_clocks_trans)
  then show ?thesis using that steps(1) readRoutine_same by blast
qed

lemma fifth_failure_disables:
  assumes "routine_env_ok env" "in_time now" and "settleFiring env fire outcome now d = Inr d'"
    and "readRoutine env d (rf_routineId fire) = Some r" and "storedClock env d (rf_routineId fire) = Some s"
    and "fo_status outcome = Fire_Failed \<or> fo_status outcome = Fire_Cancelled"
    and "ROUTINE_FAILURE_PAUSE_AFTER \<le> Suc (failureCount s)"
  shows "\<exists>r'. readRoutine env d' (rf_routineId fire) = Some r' \<and> \<not> rr_enabled r'"
proof -
  let ?d = "d\<lparr>rs_fires := kv_delete (routineFireKeyV1 (rf_routineId fire)) (rs_fires d)\<rparr>"
  have "recordAt d (rf_routineId fire) \<noteq> None" using assms(4) by (auto simp: readRoutine_Some)
  then obtain d2 where d2: "recordOutcomeOnClock env fire outcome now ?d = Inr d2"
    "readRoutine env d' = readRoutine env d2"
    using settle_routines [OF assms(3)] by blast
  obtain v where v: "kv_get (rs_schedules d) (routineScheduleKeyV1 (rf_routineId fire)) = Some v"
    "decodeRoutineScheduleStateV1 (rv_parse env) v = Inr s"
    using assms(5) by (auto simp: storedClock_Some clockAt_def)
  obtain e where e: "pauseRoutine env fire (Suc (failureCount s)) now ?d = Inr e" "rs_routines d2 = rs_routines e"
    using d2(1) v assms(6,7)
    by (auto simp: recordOutcomeOnClock_def Let_def rbind_Inr_iff failureCount_def split: if_splits)
  have "readRoutine env ?d (rf_routineId fire) = Some r" using assms(4) by (simp add: readRoutine_def)
  then have "\<exists>r'. readRoutine env e (rf_routineId fire) = Some r' \<and> \<not> rr_enabled r'"
    using pause_disables [OF assms(1,2) _ e(1)] by blast
  then show ?thesis using d2(2) readRoutine_frame [OF e(2)] by simp
qed

section \<open>The clocks that are listed\<close>

lemma claims_none [simp]: "\<not> occurrence_claimed [] i t"
  by (simp add: occurrence_claimed_def)

lemma no_claims: "clocks_ahead env now [] d \<longleftrightarrow> records_ok env d"
  by (simp add: clocks_ahead_def ahead_def anchored_def)

lemma clocksFrom_listed:
  assumes "clocksFrom env timezone now recs d = (cs, d')" and "c \<in> set cs"
  shows "\<exists>e \<in> set recs. decodeRoutineRecordV1 (rv_parse env) (snd e) = Inr (fst c)"
  using assms
proof (induction recs arbitrary: d cs)
  case (Cons e recs)
  obtain k v where e: "e = (k, v)" by (cases e)
  show ?case
  proof (cases "clockOf env timezone now v d")
    case None
    then show ?thesis using Cons e by auto
  next
    case (Some x)
    obtain r p st where x: "x = (r, p, st)" by (cases x)
    have "decodeRoutineRecordV1 (rv_parse env) v = Inr r"
      using Some x by (auto simp: clockOf_def Let_def split: sum.splits option.splits if_splits)
    moreover obtain cs' d1 where "clocksFrom env timezone now recs d1 = (cs', d')" "cs = (r, st) # cs'"
      using Cons.prems(1) Some x e by (auto simp: Let_def split: prod.splits)
    ultimately show ?thesis using Cons.IH [of d1 cs'] Cons.prems(2) e by auto
  qed
qed simp

lemma clocksFrom_distinct:
  assumes "clocksFrom env timezone now recs d = (cs, d')" and "distinct (map fst recs)"
    and "\<And>e r. e \<in> set recs \<Longrightarrow> decodeRoutineRecordV1 (rv_parse env) (snd e) = Inr r \<Longrightarrow> fst e = routineKeyV1 (rr_id r)"
  shows "distinct (map (rr_id \<circ> fst) cs)"
  using assms
proof (induction recs arbitrary: d cs)
  case (Cons e recs)
  obtain k v where e: "e = (k, v)" by (cases e)
  show ?case
  proof (cases "clockOf env timezone now v d")
    case None
    then show ?thesis using Cons e by auto
  next
    case (Some x)
    obtain r p st where x: "x = (r, p, st)" by (cases x)
    have v: "decodeRoutineRecordV1 (rv_parse env) v = Inr r"
      using Some x by (auto simp: clockOf_def Let_def split: sum.splits option.splits if_splits)
    obtain cs' d1 where cs': "clocksFrom env timezone now recs d1 = (cs', d')" "cs = (r, st) # cs'"
      using Cons.prems(1) Some x e by (auto simp: Let_def split: prod.splits)
    have "distinct (map (rr_id \<circ> fst) cs')" using Cons.prems(2,3) by (intro Cons.IH [OF cs'(1)]) simp_all
    moreover have "rr_id r \<noteq> rr_id (fst c)" if c: "c \<in> set cs'" for c
    proof -
      obtain e' where e': "e' \<in> set recs" "decodeRoutineRecordV1 (rv_parse env) (snd e') = Inr (fst c)"
        using clocksFrom_listed [OF cs'(1) c] by blast
      have "fst e' = routineKeyV1 (rr_id (fst c))" using Cons.prems(3) e' by simp
      moreover have "k = routineKeyV1 (rr_id r)" using Cons.prems(3) [of e] v e by simp
      moreover have "fst e' \<noteq> k" using Cons.prems(2) e'(1) e by auto
      ultimately show ?thesis by auto
    qed
    ultimately show ?thesis using cs'(2) by (auto simp: comp_def)
  qed
qed simp

lemma clocks_distinct:
  assumes "records_ok env d" and "clocks env timezone now d = (cs, d')"
  shows "distinct (map (rr_id \<circ> fst) cs)"
proof -
  have sorted: "kv_sorted (rs_routines d)" using assms(1) by (simp add: records_ok_def)
  show ?thesis
  proof (rule clocksFrom_distinct [OF assms(2) [unfolded clocks_def]])
    show "distinct (map fst (take ROUTINE_LIMIT_PER_BOT (rs_routines d)))"
      using sorted_keys(1) [OF sorted] by (simp add: take_map [symmetric])
    show "fst e = routineKeyV1 (rr_id r)"
      if "e \<in> set (take ROUTINE_LIMIT_PER_BOT (rs_routines d))" "decodeRoutineRecordV1 (rv_parse env) (snd e) = Inr r"
      for e r
    proof -
      have "kv_get (rs_routines d) (fst e) = Some (snd e)"
        using kv_sorted_get [OF sorted, of "fst e" "snd e"] in_set_takeD [OF that(1)] by simp
      then show ?thesis using assms(1) that(2) unfolding records_ok_def by blast
    qed
  qed
qed

text \<open>What a deferral writes: the clock of every listed Routine, with its debt as it was and one hold.\<close>

lemma deferral_writes:
  assumes "routine_env_ok env" "in_time now" "records_ok env d" "clocks env timezone now d = (cs, d1)"
    and "(r, s) \<in> set cs"
  shows "storedClock env (defer_routines env timezone now d) (rr_id r) =
    Some (s\<lparr>ss_deferredUntil := Some (now + ROUTINE_DEFERRAL_MS)\<rparr>)"
proof -
  let ?hold = "\<lambda>(record, state). putClock (rr_id record)
    (state\<lparr>ss_deferredUntil := Some (now + ROUTINE_DEFERRAL_MS)\<rparr>)"
  have ok: "clocks_ahead env now [] d" using assms(3) by (simp add: no_claims)
  have clock: "clock_ok (rv_parse env) (snd c)" if "c \<in> set cs" for c
    using clocks_good(3) [OF assms(1,2) ok assms(4) that] by (auto simp: good_clock_def split: prod.splits)
  have keep: "\<forall>c \<in> set xs. rr_id (fst c) \<noteq> i \<Longrightarrow> \<forall>c \<in> set xs. clock_ok (rv_parse env) (snd c) \<Longrightarrow>
      storedClock env (fold ?hold xs e) i = storedClock env e i" for xs e i
    using deferred_ok [OF assms(2)] by (induction xs arbitrary: e) auto
  have "distinct (map (rr_id \<circ> fst) xs) \<Longrightarrow> (r, s) \<in> set xs \<Longrightarrow> set xs \<subseteq> set cs \<Longrightarrow>
      storedClock env (fold ?hold xs e) (rr_id r) = Some (s\<lparr>ss_deferredUntil := Some (now + ROUTINE_DEFERRAL_MS)\<rparr>)"
    for xs e
  proof (induction xs arbitrary: e)
    case (Cons c xs)
    show ?case
    proof (cases "c = (r, s)")
      case True
      have "\<forall>x \<in> set xs. rr_id (fst x) \<noteq> rr_id r" using Cons.prems(1) True by (auto simp: image_iff)
      moreover have "\<forall>x \<in> set xs. clock_ok (rv_parse env) (snd x)" using Cons.prems(3) clock by auto
      moreover have "clock_ok (rv_parse env) (s\<lparr>ss_deferredUntil := Some (now + ROUTINE_DEFERRAL_MS)\<rparr>)"
        using deferred_ok [OF assms(2)] clock [OF assms(5)] by simp
      ultimately show ?thesis using True by (simp add: keep)
    next
      case False
      then show ?thesis using Cons by simp
    qed
  qed simp
  then show ?thesis using clocks_distinct [OF assms(3,4)] assms(5) by (simp add: defer_routines_def assms(4))
qed

text \<open>A Routine that is on, scheduled and readable is listed.\<close>

lemma clocksFrom_member:
  assumes "clocksFrom env timezone now recs d = (cs, d')" and "e \<in> set recs"
    and "decodeRoutineRecordV1 (rv_parse env) (snd e) = Inr r" and "rr_enabled r" and "rr_schedule r = Some schedule"
    and "normalizeRoutineScheduleV1 (rv_calendar env) schedule timezone = Inr n"
  shows "\<exists>s. (r, s) \<in> set cs"
  using assms(1,2)
proof (induction recs arbitrary: d cs)
  case (Cons e' recs)
  obtain k v where e': "e' = (k, v)" by (cases e')
  obtain cs' d1 where step: "clocksFrom env timezone now recs d1 = (cs', d')" "set cs' \<subseteq> set cs"
    "e = e' \<longrightarrow> (\<exists>s. (r, s) \<in> set cs)"
  proof (cases "clockOf env timezone now v d")
    case None
    then have "e \<noteq> e'" using assms(3-6) e' by (auto simp: clockOf_def Let_def)
    then show ?thesis using None Cons.prems(1) e' by (intro that [of d cs]) simp_all
  next
    case (Some x)
    obtain r' p st where x: "x = (r', p, st)" by (cases x)
    have "e = e' \<longrightarrow> r' = r" using Some x assms(3) e' by (auto simp: clockOf_def Let_def split: option.splits if_splits sum.splits)
    then show ?thesis using that Some x Cons.prems(1) e' by (fastforce simp: Let_def split: prod.splits)
  qed
  then show ?case using Cons.IH [OF step(1)] Cons.prems(2) by auto
qed simp

lemma clocks_member:
  assumes "records_ok env d" and "clocks env timezone now d = (cs, d')"
    and "length (rs_routines d) \<le> ROUTINE_LIMIT_PER_BOT"
    and "readRoutine env d i = Some r" and "rr_enabled r" and "rr_schedule r = Some schedule"
    and "normalizeRoutineScheduleV1 (rv_calendar env) schedule timezone = Inr n"
  shows "\<exists>s. (r, s) \<in> set cs"
proof -
  obtain v where v: "kv_get (rs_routines d) (routineKeyV1 i) = Some v"
    "decodeRoutineRecordV1 (rv_parse env) v = Inr r"
    using assms(4) by (auto simp: readRoutine_Some recordAt_def)
  then have "(routineKeyV1 i, v) \<in> set (take ROUTINE_LIMIT_PER_BOT (rs_routines d))"
    using assms(3) kv_get_Some_in by force
  then show ?thesis
    using assms(2,5-7) v(2) unfolding clocks_def by (intro clocksFrom_member) auto
qed

lemma clocks_locks: "clocks env timezone now d = (cs, d') \<Longrightarrow> lockOf d' = lockOf d"
proof -
  have "clocksFrom env timezone now recs e = (cs, d') \<Longrightarrow> lockOf d' = lockOf e" for recs e cs
    by (induction recs arbitrary: e cs)
      (auto simp: Let_def fun_eq_iff split: option.splits prod.splits if_splits)
  then show "clocks env timezone now d = (cs, d') \<Longrightarrow> lockOf d' = lockOf d" unfolding clocks_def .
qed

lemma clocks_queue: "clocks env timezone now d = (cs, d') \<Longrightarrow> rs_queue d' = rs_queue d"
proof -
  have "clocksFrom env timezone now recs e = (cs, d') \<Longrightarrow> rs_queue d' = rs_queue e" for recs e cs
    by (induction recs arbitrary: e cs)
      (auto simp: Let_def putClock_def split: option.splits prod.splits if_splits)
  then show "clocks env timezone now d = (cs, d') \<Longrightarrow> rs_queue d' = rs_queue d" unfolding clocks_def .
qed

section \<open>A claim that answers nothing\<close>

lemma idle_clocks:
  assumes "routine_env_ok env" "in_time now" and "\<forall>c \<in> set cs. good_clock env [] d c"
    and "claimFromClocks env now timezone cs d = Inr (None, d')"
  shows "(\<forall>c \<in> set cs. lockOf d (rr_id (fst c)) \<noteq> None \<or> now < routineDeadlineV1 (snd c)) \<or>
    (\<exists>c \<in> set cs. \<exists>r. readRoutine env d' (rr_id (fst c)) = Some r \<and> \<not> rr_enabled r)"
  using assms(3,4)
proof (induction cs)
  case (Cons c cs)
  obtain r s where c: "c = (r, s)" by (cases c)
  show ?case
  proof (cases "lockOf d (rr_id r) \<noteq> None \<or> now < routineDeadlineV1 s")
    case True
    then show ?thesis using Cons c by (auto split: if_splits)
  next
    case False
    then have claim: "claimScheduled env r s now timezone d = Inr (None, d')" using Cons.prems(2) c by auto
    have read: "readRoutine env d (rr_id r) = Some r" using Cons.prems(1) c by (simp add: good_clock_def)
    obtain schedule where "turnOff env r schedule s now timezone d = Inr (None, d')"
      using claim by (auto simp: claimScheduled_def Let_def rbind_Inr_iff split: option.splits)
    then obtain e where "appendRoutineRunEntryV1 env e (dropClock (rr_id r)
        (putRoutine (rr_id r) (r\<lparr>rr_enabled := False, rr_updatedAt := rv_iso env now\<rparr>) d)) = Inr d'"
      by (auto simp: turnOff_def Let_def rbind_Inr_iff)
    then have "readRoutine env d' (rr_id r) = Some (r\<lparr>rr_enabled := False, rr_updatedAt := rv_iso env now\<rparr>)"
      using readRoutine_ok [OF read] iso_stamp [OF assms(1,2)] readRoutine_same [OF op_same(1)]
      by (auto simp: routine_ok_def)
    then show ?thesis using c by auto
  qed
qed simp

lemma claimQueued_none:
  assumes "claimQueued env i now d = Inr (None, d')"
  shows "d' = d\<lparr>rs_queue := rs_queue d'\<rparr>"
  using assms
  by (auto simp: claimQueued_def Let_def rbind_Inr_iff split: list.splits option.splits prod.splits)

lemma readable_head:
  assumes "queue_ok d" "records_ok env d" "isRoutineIdV1 i" and "claimQueued env i now d = Inr (None, d')"
  shows "queue_ok d'" and "waiting_list i d' = tl (waiting_list i d)"
    and "waiting_list i d \<noteq> [] \<Longrightarrow> readRoutine env d i = None \<or> hd (waiting_list i d) = None"
    and "isRoutineIdV1 j \<Longrightarrow> j \<noteq> i \<Longrightarrow> waiting_list j d' = waiting_list j d"
proof -
  have main: "queue_ok d' \<and> waiting_list i d' = tl (waiting_list i d) \<and>
    (waiting_list i d \<noteq> [] \<longrightarrow> readRoutine env d i = None \<or> hd (waiting_list i d) = None) \<and>
    (isRoutineIdV1 j \<and> j \<noteq> i \<longrightarrow> waiting_list j d' = waiting_list j d)" for j
  proof (cases "waitingFor i d")
    case Nil
    then have "d' = d" using assms(4) by (simp add: claimQueued_def)
    then show ?thesis using assms(1) Nil by (simp add: waiting_list_def)
  next
    case (Cons w ws)
    note head = claim_head [OF assms(1,3) Cons assms(2,4)]
    then show ?thesis by auto
  qed
  show "queue_ok d'" and "waiting_list i d' = tl (waiting_list i d)" using main by simp_all
  show "readRoutine env d i = None \<or> hd (waiting_list i d) = None" if "waiting_list i d \<noteq> []" using main [of i] that by simp
  show "waiting_list j d' = waiting_list j d" if "isRoutineIdV1 j" "j \<noteq> i" using main [of j] that by simp
qed

text \<open>What the queues of a store are after a claim that answered nothing: of each Routine in \<open>ids\<close> that is free, the head is gone.\<close>

definition served_none :: "string list \<Rightarrow> routine_store \<Rightarrow> routine_store \<Rightarrow> bool" where
  "served_none ids d d' \<longleftrightarrow> (\<forall>i. isRoutineIdV1 i \<longrightarrow>
     waiting_list i d' = (if i \<in> set ids \<and> lockOf d i = None then tl (waiting_list i d) else waiting_list i d))"

lemma idle_queues:
  assumes "records_ok env d" "queue_ok d" and "\<forall>i \<in> set ids. isRoutineIdV1 i" and "distinct ids"
    and "claimFromQueues env now ids d = Inr (None, d')"
  shows "records_ok env d' \<and> queue_ok d' \<and> (\<exists>q. d' = d\<lparr>rs_queue := q\<rparr>) \<and> served_none ids d d' \<and>
    (\<forall>i \<in> set ids. lockOf d i = None \<and> waiting_list i d \<noteq> [] \<longrightarrow> readRoutine env d i = None \<or> hd (waiting_list i d) = None)"
  using assms
proof (induction ids arbitrary: d)
  case (Cons i ids)
  show ?case
  proof (cases "lockOf d i")
    case (Some l)
    then show ?thesis using Cons.IH [of d] Cons.prems by (auto simp: served_none_def)
  next
    case None
    then obtain d1 where step: "claimQueued env i now d = Inr (None, d1)"
      "claimFromQueues env now ids d1 = Inr (None, d')"
      using Cons.prems(5) by (auto simp: rbind_Inr_iff split: if_splits)
    obtain q where frame: "d1 = d\<lparr>rs_queue := q\<rparr>" using claimQueued_none [OF step(1)] by blast
    have same: "records_ok env d1 = records_ok env d" "lockOf d1 = lockOf d" "readRoutine env d1 = readRoutine env d"
      by (simp_all add: frame records_ok_def lockOf_def readRoutine_def fun_eq_iff)
    have i: "isRoutineIdV1 i" and ids: "\<forall>j \<in> set ids. isRoutineIdV1 j \<and> j \<noteq> i" using Cons.prems(3,4) by auto
    note head = readable_head [OF Cons.prems(2,1) i step(1)]
    have rest: "records_ok env d' \<and> queue_ok d' \<and> (\<exists>q. d' = d1\<lparr>rs_queue := q\<rparr>) \<and> served_none ids d1 d' \<and>
      (\<forall>j \<in> set ids. lockOf d1 j = None \<and> waiting_list j d1 \<noteq> [] \<longrightarrow> readRoutine env d1 j = None \<or> hd (waiting_list j d1) = None)"
      using head(1) same Cons.prems by (intro Cons.IH [OF _ _ _ _ step(2)]) auto
    have "waiting_list j d' = (if j \<in> set (i # ids) \<and> lockOf d j = None then tl (waiting_list j d) else waiting_list j d)"
      if "isRoutineIdV1 j" for j
      using rest head(2) head(4) [OF that] same(2) ids None that unfolding served_none_def by (cases "j = i") auto
    then have "served_none (i # ids) d d'" by (simp add: served_none_def)
    moreover have "\<exists>q. d' = d\<lparr>rs_queue := q\<rparr>" using rest frame by auto
    moreover have "lockOf d j = None \<and> waiting_list j d \<noteq> [] \<longrightarrow> readRoutine env d j = None \<or> hd (waiting_list j d) = None"
      if "j \<in> set (i # ids)" for j
      using that rest head(3,4) ids same by auto
    ultimately show ?thesis using rest by (intro conjI ballI) simp_all
  qed
qed (auto simp: served_none_def intro: exI [of _ "rs_queue d'"])

lemma idle_clocks_frame:
  assumes "claimFromClocks env now timezone cs d = Inr (None, d')"
  shows "rs_queue d' = rs_queue d" and "lockOf d' = lockOf d"
proof -
  have "rs_queue d' = rs_queue d \<and> rs_fires d' = rs_fires d"
    using assms
  proof (induction cs)
    case (Cons c cs)
    obtain r s where c: "c = (r, s)" by (cases c)
    show ?case
    proof (cases "lockOf d (rr_id r) \<noteq> None \<or> now < routineDeadlineV1 s")
      case True
      then show ?thesis using Cons c by (auto split: if_splits)
    next
      case False
      then have claim: "claimScheduled env r s now timezone d = Inr (None, d')" using Cons.prems c by auto
      obtain schedule where "turnOff env r schedule s now timezone d = Inr (None, d')"
        using claim by (auto simp: claimScheduled_def Let_def rbind_Inr_iff split: option.splits)
      then obtain e where "appendRoutineRunEntryV1 env e (dropClock (rr_id r)
          (putRoutine (rr_id r) (r\<lparr>rr_enabled := False, rr_updatedAt := rv_iso env now\<rparr>) d)) = Inr d'"
        by (auto simp: turnOff_def Let_def rbind_Inr_iff)
      note frame = append_frame [OF this]
      show ?thesis using arg_cong [OF frame, of rs_queue] arg_cong [OF frame, of rs_fires]
        by (simp add: dropClock_def putRoutine_def)
    qed
  qed simp
  then show "rs_queue d' = rs_queue d" and "lockOf d' = lockOf d" by (simp_all add: lockOf_def fun_eq_iff)
qed

lemma queue_reads:
  assumes "rs_queue d' = rs_queue d"
  shows "waiting_list i d' = waiting_list i d" and "queue_ok d' = queue_ok d" and "queuedRoutineIds d' = queuedRoutineIds d"
  using assms by (simp_all add: waiting_list_def waitingFor_def queue_ok_def queuedRoutineIds_def)

lemma free_queue_is_due:
  assumes "deadlines env firingRun timezone now d = (ds, d')" and "i \<in> set (queuedRoutineIds d)" and "lockOf d i = None"
  shows "now \<in> set ds"
proof -
  obtain cs d1 where clocks: "clocks env timezone now d = (cs, d1)" by fastforce
  have "queuedRoutineIds d1 = queuedRoutineIds d" by (rule queue_reads(3) [OF clocks_queue [OF clocks]])
  then have "ds = map (clockDeadline env firingRun now d1) cs @
      map (\<lambda>j. now) (filter (\<lambda>j. lockOf d j = None) (queuedRoutineIds d))"
    using assms(1) clocks_locks [OF clocks] by (auto simp: deadlines_def clocks)
  then show ?thesis using assms(2,3) by simp
qed

section \<open>A claim moves the clock past now\<close>

lemma countMissed_le: "counted \<le> countMissed cal n anchor now cursor counted"
proof (induction cal n anchor now cursor counted rule: countMissed.induct)
  case (1 cal normalized anchor now cursor counted)
  then show ?case by (subst countMissed.simps) (fastforce split: option.splits)
qed

lemma on_time_next:
  assumes "routine_env_ok env" and "normalizeRoutineScheduleV1 (rv_calendar env) schedule timezone = Inr n"
    and "due \<le> now" and "missedRoutineRunsV1 (rv_calendar env) n due now anchor \<le> 1"
    and "\<And>ms zone. n = Interval_Schedule ms zone \<Longrightarrow> on_grid ms anchor due"
    and "nextRoutineRunV1 (rv_calendar env) n due anchor = Some t"
  shows "now < t"
proof (cases n)
  case (Interval_Schedule ms zone)
  have ms: "0 < ms" using normalized_facts(3) [OF assms(1,2)] Interval_Schedule by simp
  have t: "t = due + ms"
    using next_interval_from_grid [OF ms assms(5) [OF Interval_Schedule]] assms(6) Interval_Schedule by simp
  have "0 \<le> (now - due) div ms" using ms assms(3) by (simp add: pos_imp_zdiv_nonneg_iff)
  moreover have "nat ((now - due) div ms + 1) \<le> 1"
    using assms(3,4) Interval_Schedule by (auto simp: missedRoutineRunsV1_def ROUTINE_MISSED_COUNT_CAP_def)
  ultimately have "(now - due) div ms = 0" by simp
  then have "now - due < ms" using ms below_next_multiple [OF ms, of "now - due"] by simp
  then show ?thesis using t by simp
next
  case (Cron_Schedule pattern zone)
  have one: "countMissed (rv_calendar env) n anchor now due 1 \<le> 1"
    using assms(3,4) Cron_Schedule by (simp add: missedRoutineRunsV1_def)
  show ?thesis
  proof (rule ccontr)
    assume "\<not> now < t"
    then have "countMissed (rv_calendar env) n anchor now due 1 = countMissed (rv_calendar env) n anchor now t 2"
      using assms(6) by (subst countMissed.simps) (simp add: ROUTINE_MISSED_COUNT_CAP_def numeral_2_eq_2)
    then show False using one countMissed_le [of 2 "rv_calendar env" n anchor now t] by simp
  qed
qed

lemma claim_moves_clock:
  assumes env: "routine_env_ok env" "in_time now" and ok: "records_ok env d"
    and good: "good_clock env [] d (r, s)" and due: "ss_dueAt s \<le> now"
    and n: "rr_schedule r = Some schedule" "normalizeRoutineScheduleV1 (rv_calendar env) schedule timezone = Inr n"
    and grid: "\<And>ms zone. n = Interval_Schedule ms zone \<Longrightarrow> on_grid ms (timeOf env (rr_updatedAt r)) (ss_dueAt s)"
    and claim: "claimScheduled env r s now timezone d = Inr (Some fire, d')"
  shows "\<exists>s'. storedClock env d' (rr_id r) = Some s' \<and> now < ss_dueAt s' \<and> ss_anchor s' = rr_updatedAt r \<and>
    ss_failures s' = ss_failures s"
    and "fire = scheduledFire env r s (missedRoutineRunsV1 (rv_calendar env) n (ss_dueAt s) now
      (timeOf env (rr_updatedAt r))) now"
    and "lockOf d' (rr_id r) = Some (fireJson fire)"
proof -
  let ?anchor = "timeOf env (rr_updatedAt r)"
  let ?missed = "missedRoutineRunsV1 (rv_calendar env) n (ss_dueAt s) now ?anchor"
  let ?since = "if ?missed > 1 then now else ss_dueAt s"
  let ?fire = "scheduledFire env r s ?missed now"
  have read: "readRoutine env d (rr_id r) = Some r" using good by (simp add: good_clock_def)
  have anchor: "in_time ?anchor" using records_at(2) [OF ok read] .
  obtain t where t: "nextRoutineRunV1 (rv_calendar env) n ?since ?anchor = Some t"
    using claim n by (auto simp: claimScheduled_def Let_def turnOff_def rbind_Inr_iff split: option.splits)
  let ?s = "advancedClock r timezone s t"
  let ?d = "putClock (rr_id r) ?s d"
  obtain d2 where d2: "(if ?missed > 1 then appendRoutineRunEntryV1 env
      (skippedEntry (rr_id r) (entrySuffix (rf_entryId ?fire) ''-missed'') (rf_fireId ?fire)
         Cron (rv_iso env (ss_dueAt s)) (rv_iso env now) (missedSummary ?missed)) ?d else Inr ?d) = Inr d2"
    "writeClaim env r ?fire now d2 = Inr d'" and fire: "fire = ?fire"
    using claim n t by (auto simp: claimScheduled_def Let_def rbind_Inr_iff)
  show "fire = ?fire" by (rule fire)
  show "lockOf d' (rr_id r) = Some (fireJson fire)" using writeClaim_fields(2) [OF d2(2)] fire by simp
  have since: "?since \<le> ROUTINE_HORIZON" using env(2) due by (simp add: in_time_def)
  have late: "?since < t" "t \<le> 2 * ROUTINE_HORIZON" using next_run_bounds [OF env(1) n(2) since anchor t] by auto
  have "now < t"
  proof (cases "?missed > 1")
    case False
    then have few: "?missed \<le> 1" and following: "nextRoutineRunV1 (rv_calendar env) n (ss_dueAt s) ?anchor = Some t"
      using t by simp_all
    show ?thesis by (rule on_time_next [OF env(1) n(2) due few _ following]) (rule grid)
  qed (use late in simp)
  moreover have "epoch_ok t"
    using \<open>now < t\<close> env(2) late(2) by (simp add: in_time_def epoch_ok_def ROUTINE_HORIZON_def MAX_SAFE_INTEGER_def)
  then have clock: "clock_ok (rv_parse env) ?s"
    using advanced_ok readRoutine_ok [OF read] normalized_facts(1) [OF env(1) n(2)] good
    by (simp add: good_clock_def)
  have same: "same_clocks ?d d2" using d2(1) op_same(1) by (auto split: if_splits)
  obtain e where e: "same_clocks d2 e" "d' = putRoutine (rr_id r) (r\<lparr>rr_lastRunAt := Some (rv_iso env now)\<rparr>) e"
    using writeClaim_frame [OF d2(2)] .
  have "storedClock env d' (rr_id r) = Some ?s"
    using clock by (simp add: e(2) storedClock_same [OF e(1)] storedClock_same [OF same])
  ultimately show "\<exists>s'. storedClock env d' (rr_id r) = Some s' \<and> now < ss_dueAt s' \<and>
      ss_anchor s' = rr_updatedAt r \<and> ss_failures s' = ss_failures s"
    by (simp add: advancedClock_def)
qed

end
