(* ===== verification/Routine_Commands.thy ===== *)
theory Routine_Commands
  imports Routine_Queue
begin

text \<open>
  A command over Routines is applied once: its fingerprint is the text of a canonical JSON value, so equal
  fingerprints are equal commands. And a delivery fires once: its receipt answers it while it is fresh.
\<close>

section \<open>A fingerprint identifies its command\<close>

fun canonicalJson :: "json \<Rightarrow> json" where
  "canonicalJson (JArr values) = JArr (map canonicalJson values)"
| "canonicalJson (JObj members) = JObj (sort_key fst (map (\<lambda>(k, v). (k, canonicalJson v)) members))"
| "canonicalJson v = v"

lemma sort_members:
  fixes xs :: "(string \<times> 'v) list"
  shows "sort_key fst (map (\<lambda>(k, v). (k, h k v)) xs) = map (\<lambda>(k, v). (k, h k v)) (sort_key fst xs)"
proof -
  have insort: "insort_key fst (k, h k v) (map (\<lambda>(k, v). (k, h k v)) xs) =
      map (\<lambda>(k, v). (k, h k v)) (insort_key fst (k, v) xs)" for k v and xs :: "(string \<times> 'v) list"
    by (induction xs) auto
  then show ?thesis by (induction xs) auto
qed

lemma canonical_text: "canonicalFingerprintValue v = stringify (canonicalJson v)"
proof (induction v rule: canonicalFingerprintValue.induct)
  case (1 vs)
  then show ?case by (simp cong: map_cong)
next
  case (2 members)
  have "map (\<lambda>(k, v). (k, quoteJson (js k) @ 0x3A # canonicalFingerprintValue v)) members =
      map (\<lambda>(k, v). (k, quoteJson (js k) @ 0x3A # stringify (canonicalJson v))) members"
    using 2 by (intro map_cong refl) auto
  then show ?case
    by (auto simp: sort_members case_prod_beta comp_def intro!: arg_cong [where f = joinComma])
qed simp_all

lemma map_of_sort: "distinct (map fst ms) \<Longrightarrow> map_of (sort_key fst ms) = map_of ms"
proof -
  assume distinct: "distinct (map fst ms)"
  then have "distinct (map fst (sort_key fst ms))" by (simp add: distinct_map)
  then show ?thesis using distinct by (subst map_of_inject_set) simp_all
qed

lemma canonical_get:
  assumes "distinct (map fst members)"
  shows "jget (canonicalJson (JObj members)) k = map_option canonicalJson (jget (JObj members) k)"
proof -
  let ?m = "map (\<lambda>(k, v). (k, canonicalJson v)) members"
  have "distinct (map fst ?m)" using assms by (simp add: case_prod_beta comp_def)
  then show ?thesis using map_of_sort [of ?m] by (simp add: map_of_map)
qed

lemma canonical_wf: "wf_json v \<Longrightarrow> wf_json (canonicalJson v)"
  by (induction v rule: canonicalJson.induct) (auto simp: list_all_iff)

text \<open>Two objects with one canonical value agree on every field, up to the canonical value of the field.\<close>

lemma canonical_fields:
  assumes "canonicalJson (JObj ms) = canonicalJson (JObj ns)" and "distinct (map fst ms)" and "distinct (map fst ns)"
  shows "map_option canonicalJson (jget (JObj ms) k) = map_option canonicalJson (jget (JObj ns) k)"
  using assms canonical_get by metis

lemma canonical_trigger: "canonicalJson (triggerJson t) = canonicalJson (triggerJson t') \<longleftrightarrow> t = t'"
proof
  assume eq: "canonicalJson (triggerJson t) = canonicalJson (triggerJson t')"
  obtain ms ns where ms: "triggerJson t = JObj ms" "distinct (map fst ms)"
    and ns: "triggerJson t' = JObj ns" "distinct (map fst ns)"
    by (cases t; cases t') (auto simp: optField_def kindJson_def split: option.splits)
  have fields: "map_option canonicalJson (jget (triggerJson t) k) = map_option canonicalJson (jget (triggerJson t') k)" for k
    using canonical_fields [OF eq [unfolded ms(1) ns(1)] ms(2) ns(2)] ms ns by simp
  show "t = t'"
    using fields [of "''kind''"] fields [of "''pluginId''"] fields [of "''trigger''"] fields [of "''connectionId''"]
      fields [of "''triggerType''"] fields [of "''config''"]
    by (cases t; cases t') (auto simp: codec_defs simp del: js_simps split: option.splits)
qed simp

lemma semantic_object:
  obtains ms where "semanticCommand c = JObj ms" and "distinct (map fst ms)" and "wf_json (semanticCommand c)"
proof -
  obtain type members where fields: "commandFields (rc_change c) = (type, members)"
    by (cases "commandFields (rc_change c)")
  have one: "numberText ''1''" using numberText_decimal [of 1] by (simp add: decimal_digit)
  have trigger: "wf_json (triggerJson t)" for t
    by (cases t) (auto simp: kindJson_def optField_def split: option.splits)
  have "distinct (map fst members) \<and> set (map fst members) \<subseteq>
      {''name'', ''prompt'', ''routineId'', ''schedule'', ''trigger'', ''enabled''} \<and>
    list_all (\<lambda>m. wf_json (snd m)) members"
    using fields trigger by (cases "rc_change c") (auto simp: optField_def split: option.splits)
  then have "distinct (map fst ([oneJson, (''botId'', JStr (js (rc_botId c))), (''type'', JStr (js type))] @ members))"
    and "wf_json (semanticCommand c)"
    using fields one by (auto simp: semanticCommand_def oneJson_def)
  then show ?thesis using that fields by (simp add: semanticCommand_def)
qed

lemma option_fields:
  "map_option canonicalJson (map_option JStr s) = map_option canonicalJson (map_option JStr s') \<longleftrightarrow> s = s'"
  "map_option canonicalJson (map_option (JStr \<circ> js) i) = map_option canonicalJson (map_option (JStr \<circ> js) i') \<longleftrightarrow> i = i'"
  "map_option canonicalJson (map_option JBool b) = map_option canonicalJson (map_option JBool b') \<longleftrightarrow> b = b'"
  "map_option canonicalJson (map_option triggerJson t) = map_option canonicalJson (map_option triggerJson t') \<longleftrightarrow> t = t'"
proof -
  show "map_option canonicalJson (map_option JStr s) = map_option canonicalJson (map_option JStr s') \<longleftrightarrow> s = s'"
    by (cases s; cases s') simp_all
  show "map_option canonicalJson (map_option (JStr \<circ> js) i) = map_option canonicalJson (map_option (JStr \<circ> js) i') \<longleftrightarrow> i = i'"
    by (cases i; cases i') simp_all
  show "map_option canonicalJson (map_option JBool b) = map_option canonicalJson (map_option JBool b') \<longleftrightarrow> b = b'"
    by (cases b; cases b') simp_all
  show "map_option canonicalJson (map_option triggerJson t) = map_option canonicalJson (map_option triggerJson t') \<longleftrightarrow> t = t'"
    by (cases t; cases t') (simp_all add: canonical_trigger)
qed

lemma optional_get:
  "jget (JObj ms) k = None \<Longrightarrow> jget (JObj (optField k v @ ms)) k = v"
  "k' \<noteq> k \<Longrightarrow> jget (JObj (optField k v @ ms)) k' = jget (JObj ms) k'"
  "jget (JObj (optField k v)) k = v"
  "k' \<noteq> k \<Longrightarrow> jget (JObj (optField k v)) k' = None"
  by (auto simp: optField_def split: option.splits)

definition sameField :: "string \<Rightarrow> routine_change \<Rightarrow> routine_change \<Rightarrow> bool" where
  "sameField k x y \<longleftrightarrow> map_option canonicalJson (jget (JObj (snd (commandFields x))) k) =
     map_option canonicalJson (jget (JObj (snd (commandFields y))) k)"

lemma create_fields:
  "sameField ''name'' (Create_Routine i n p s t) (Create_Routine i' n' p' s' t') \<longleftrightarrow> n = n'"
  "sameField ''prompt'' (Create_Routine i n p s t) (Create_Routine i' n' p' s' t') \<longleftrightarrow> p = p'"
  "sameField ''routineId'' (Create_Routine i n p s t) (Create_Routine i' n' p' s' t') \<longleftrightarrow> i = i'"
  "sameField ''schedule'' (Create_Routine i n p s t) (Create_Routine i' n' p' s' t') \<longleftrightarrow> s = s'"
  "sameField ''trigger'' (Create_Routine i n p s t) (Create_Routine i' n' p' s' t') \<longleftrightarrow> t = t'"
  unfolding sameField_def commandFields.simps snd_conv
  by (simp_all add: optional_get option_fields del: jget.simps jget_optField)

lemma update_fields:
  "sameField ''routineId'' (Update_Routine i n p s t e) (Update_Routine i' n' p' s' t' e') \<longleftrightarrow> i = i'"
  "sameField ''name'' (Update_Routine i n p s t e) (Update_Routine i' n' p' s' t' e') \<longleftrightarrow> n = n'"
  "sameField ''prompt'' (Update_Routine i n p s t e) (Update_Routine i' n' p' s' t' e') \<longleftrightarrow> p = p'"
  "sameField ''schedule'' (Update_Routine i n p s t e) (Update_Routine i' n' p' s' t' e') \<longleftrightarrow> s = s'"
  "sameField ''trigger'' (Update_Routine i n p s t e) (Update_Routine i' n' p' s' t' e') \<longleftrightarrow> t = t'"
  "sameField ''enabled'' (Update_Routine i n p s t e) (Update_Routine i' n' p' s' t' e') \<longleftrightarrow> e = e'"
  unfolding sameField_def commandFields.simps snd_conv
  by (simp_all add: optional_get option_fields del: jget.simps jget_optField)

lemma change_inject:
  assumes kind: "fst (commandFields x) = fst (commandFields y)"
    and fields: "\<And>k. k \<in> {''routineId'', ''name'', ''prompt'', ''schedule'', ''trigger'', ''enabled''} \<Longrightarrow> sameField k x y"
  shows "x = y"
proof -
  note f = fields [of "''routineId''", simplified] fields [of "''name''", simplified]
    fields [of "''prompt''", simplified] fields [of "''schedule''", simplified]
    fields [of "''trigger''", simplified] fields [of "''enabled''", simplified]
  show ?thesis
  proof (cases x)
    case (Create_Routine i n p s t)
    then obtain i' n' p' s' t' where "y = Create_Routine i' n' p' s' t'" using kind by (cases y) auto
    then show ?thesis using f unfolding Create_Routine by (simp add: create_fields)
  next
    case (Update_Routine i n p s t e)
    then obtain i' n' p' s' t' e' where "y = Update_Routine i' n' p' s' t' e'" using kind by (cases y) auto
    then show ?thesis using f unfolding Update_Routine by (simp add: update_fields)
  qed (use kind f(1) in \<open>cases y; simp add: sameField_def del: js_simps\<close>)+
qed

lemma fingerprint_command:
  "routineCommandFingerprintV1 c = routineCommandFingerprintV1 c' \<longleftrightarrow>
    rc_botId c = rc_botId c' \<and> rc_change c = rc_change c'"
proof
  assume "routineCommandFingerprintV1 c = routineCommandFingerprintV1 c'"
  then have same: "stringify (canonicalJson (semanticCommand c)) = stringify (canonicalJson (semanticCommand c'))"
    by (simp add: routineCommandFingerprintV1_def canonicalCommandFingerprintV1_def canonical_text)
  obtain ms where ms: "semanticCommand c = JObj ms" "distinct (map fst ms)" "wf_json (semanticCommand c)"
    by (rule semantic_object)
  obtain ns where ns: "semanticCommand c' = JObj ns" "distinct (map fst ns)" "wf_json (semanticCommand c')"
    by (rule semantic_object)
  have "canonicalJson (semanticCommand c) = canonicalJson (semanticCommand c')"
    using same stringify_inject [OF canonical_wf [OF ms(3)] canonical_wf [OF ns(3)]] by blast
  then have fields: "map_option canonicalJson (jget (semanticCommand c) k) =
      map_option canonicalJson (jget (semanticCommand c') k)" for k
    using canonical_fields [OF _ ms(2) ns(2)] by (simp only: ms(1) ns(1))
  have bot: "rc_botId c = rc_botId c'"
    using fields [of "''botId''"] by (simp add: semanticCommand_def oneJson_def case_prod_beta del: js_simps)
  have kind: "fst (commandFields (rc_change c)) = fst (commandFields (rc_change c'))"
    using fields [of "''type''"]
    by (simp add: semanticCommand_def oneJson_def case_prod_beta del: js_simps)
  have rest: "sameField k (rc_change c) (rc_change c')"
    if "k \<in> {''routineId'', ''name'', ''prompt'', ''schedule'', ''trigger'', ''enabled''}" for k
    using fields [of k] that
    by (auto simp: semanticCommand_def oneJson_def case_prod_beta sameField_def simp del: js_simps)
  show "rc_botId c = rc_botId c' \<and> rc_change c = rc_change c'" using bot change_inject [OF kind rest] by blast
qed (simp add: routineCommandFingerprintV1_def semanticCommand_def)

section \<open>A receipt answers its command\<close>

lemma command_answered:
  assumes "executeCommand env opts now timezone writer approval c a = (Inr receipt, a')"
    and "kv_get (ra_receipts a) (routineReceiptKeyV1 (rc_commandId c)) = None"
    and "rc_commandId c' = rc_commandId c"
  shows "executeCommand env' opts' now' timezone' writer' approval' c' a' =
    (if rc_botId c' = rc_botId c \<and> rc_change c' = rc_change c then Inr (strippedReceipt receipt) else Inl Command_Reused,
     a')"
proof -
  have a': "kv_get (ra_receipts a') (routineReceiptKeyV1 (rc_commandId c)) =
      Some \<lparr>sr_fingerprint = routineCommandFingerprintV1 c, sr_receipt = strippedReceipt receipt\<rparr>"
    using assms(1,2) by (auto simp: executeCommand_def split: prod.splits sum.splits)
  show ?thesis
    unfolding executeCommand_def [of env'] assms(3) a' using fingerprint_command [of c c'] by auto
qed

section \<open>A delivery fires once\<close>

definition replayAnswer :: "delivery_answer \<Rightarrow> delivery_answer" where
  "replayAnswer said = (case said of Accepted fireId \<Rightarrow> Duplicate fireId | other \<Rightarrow> other)"

lemma receipt_kept:
  assumes "routine_env_ok env" and "in_time now" and "now \<le> now'" and "now' < now + ROUTINE_DELIVERY_TTL_MS"
    and "length (rs_deliveries d) < ROUTINE_DELIVERY_LIMIT"
  shows "freshReceipt env now' (dl_deliveryId input) (recordDelivery env now input fireId dropped d) =
    Some \<lparr>dr_routineId = dl_routineId input, dr_fireId = fireId, dr_dropped = dropped, dr_acceptedAt = rv_iso env now\<rparr>"
proof -
  let ?key = "routineDeliveryKeyV1 (dl_deliveryId input)"
  let ?r = "\<lparr>dr_routineId = dl_routineId input, dr_fireId = fireId, dr_dropped = dropped, dr_acceptedAt = rv_iso env now\<rparr>"
  let ?held = "kv_put ?key ?r (rs_deliveries d)"
  let ?live = "liveReceipts env now ?held"
  have parse: "rv_parse env (rv_iso env now) = Some now" using assms(1,2) by (simp add: envD in_time_def)
  have here: "kv_get ?held ?key = Some ?r" by simp
  have "length (liveReceipts env now m) \<le> length m" for m
    unfolding liveReceipts_def List.map_filter_def by (simp add: length_filter_le)
  then have "length ?live \<le> length ?held" .
  then have few: "length ?live \<le> ROUTINE_DELIVERY_LIMIT"
    using length_kv_put [of ?key ?r "rs_deliveries d"] assms(5) by simp
  have "(?key, ?r, now) \<in> set ?live"
    using kv_get_Some_in [OF here] parse
    by (force simp: liveReceipts_def List.map_filter_def ROUTINE_DELIVERY_TTL_MS_def)
  then have live: "?key \<in> fst ` set ?live" by force
  have "kv_get (filter (\<lambda>(key, receipt). key \<in> S) m) k = (if k \<in> S then kv_get m k else None)"
    for S k and m :: "delivery_receipt kv"
    unfolding kv_get_def by (induction m) auto
  then show ?thesis
    using few live here parse assms(3,4)
    by (simp add: freshReceipt_def recordDelivery_def trimDeliveries_def Let_def)
qed

lemma delivery_answered:
  assumes "routine_env_ok env" and "in_time now" and "now \<le> now'" and "now' < now + ROUTINE_DELIVERY_TTL_MS"
    and "length (rs_deliveries d) < ROUTINE_DELIVERY_LIMIT" and "freshReceipt env now (dl_deliveryId input) d = None"
    and "deliverFiring env now (admitDelivery env input) input answer d = Inr (said, d')"
    and "admitDelivery env input' d' = Inr trigger" and "dl_deliveryId input' = dl_deliveryId input"
  shows "deliverFiring env now' (admitDelivery env input') input' answer' d' = Inr (replayAnswer said, d')"
proof -
  have recorded: "\<exists>e fireId dropped. d' = recordDelivery env now input fireId dropped e \<and>
    rs_deliveries e = rs_deliveries d \<and> said = (case fireId of Some f \<Rightarrow> Accepted f | None \<Rightarrow> Dropped (the dropped)) \<and>
    (fireId = None \<longrightarrow> dropped \<noteq> None)"
  proof (cases "\<exists>reason. answer = Some (Plugin_Drops reason)")
    case True
    then show ?thesis using assms(6,7) by (fastforce simp: deliverFiring_def rbind_Inr_iff)
  next
    case False
    then obtain fireId q e rendered where e: "enqueueWithin env now (dl_routineId input) Webhook
        (js ''hook-'' @ slice0 (js (dl_deliveryId input)) 40) (Some rendered) d = Inr ((fireId, q), e)"
      "said = Accepted fireId" "d' = recordDelivery env now input (Some fireId) None e"
      using assms(6,7) by (auto simp: deliverFiring_def rbind_Inr_iff split: option.splits plugin_answer.splits)
    have "rs_deliveries e = rs_deliveries d"
      using enqueue_frame [OF e(1)]
      by (metis routine_store.select_convs(9) routine_store.surjective routine_store.update_convs(5))
    then show ?thesis using e(2,3) by (intro exI [of _ e] exI [of _ "Some fireId"] exI [of _ None]) simp
  qed
  then obtain e fireId dropped where d': "d' = recordDelivery env now input fireId dropped e"
    and few: "length (rs_deliveries e) < ROUTINE_DELIVERY_LIMIT"
    and said: "said = (case fireId of Some f \<Rightarrow> Accepted f | None \<Rightarrow> Dropped (the dropped))"
    and why: "fireId = None \<longrightarrow> dropped \<noteq> None"
    using assms(5) by auto
  show ?thesis
    using receipt_kept [OF assms(1-4) few, of input fireId dropped] assms(8,9) said why
    unfolding d' [symmetric]
    by (auto simp: deliverFiring_def replayed_def replayAnswer_def split: option.splits)
qed

end
