(* ===== verification/Routine_Samples.thy ===== *)
theory Routine_Samples
  imports Routine_Settlement Routine_Commands
begin

text \<open>
  A concrete environment for the scheduler and one Routine that runs every minute: its record, its clock, its firings.
  They are evaluated here and used as the instances at which the properties of Routines apply.
\<close>

definition minuteCalendar :: calendar where
  "minuteCalendar = \<lparr>cal_timezone = (\<lambda>zone. trim zone = zone), cal_parses = (\<lambda>pattern zone. True),
     cal_next = (\<lambda>pattern zone since. Some (since + 60000))\<rparr>"

definition minuteEnv :: routine_env where
  "minuteEnv = \<lparr>rv_calendar = minuteCalendar,
     rv_parse = (\<lambda>s. if s \<noteq> [] \<and> digitsOnly s then Some (int (numberOf s)) else None),
     rv_iso = (\<lambda>t. js (integerText t)), rv_product = js ''Bot''\<rparr>"

lemma minute_parse [simp]: "0 \<le> t \<Longrightarrow> rv_parse minuteEnv (js (integerText t)) = Some t"
proof -
  have "digitsOnly (js (decimal n))" for n
    using decimal_units [of _ n] decimal_not_Nil [of n] by (auto simp: digitsOnly_def list_all_iff js_def)
  then show "0 \<le> t \<Longrightarrow> rv_parse minuteEnv (js (integerText t)) = Some t"
    by (auto simp: minuteEnv_def integerText_def digitsOnly_def)
qed

lemma minute_fields [simp]:
  "rv_iso minuteEnv t = js (integerText t)" "rv_calendar minuteEnv = minuteCalendar"
  "rv_product minuteEnv = js ''Bot''"
  by (simp_all add: minuteEnv_def)

lemma minuteEnv_ok: "routine_env_ok minuteEnv"
  by (simp add: routine_env_ok_def minuteCalendar_def calendar_ok_def ROUTINE_HORIZON_def)

definition minuteRoutine :: "jstr option \<Rightarrow> routine_record" where
  "minuteRoutine lastRun = \<lparr>rr_id = ''r1'', rr_name = js ''Brief'', rr_prompt = js ''Read the news'',
     rr_schedule = Some (js ''@every 1m''), rr_trigger = None, rr_enabled = True, rr_createdBy = Writer_User,
     rr_updatedBy = Writer_User, rr_createdAt = js (integerText 0), rr_updatedAt = js (integerText 0), rr_lastRunAt = lastRun,
     rr_approval = None\<rparr>"

definition minuteClock :: "int \<Rightarrow> int option \<Rightarrow> nat option \<Rightarrow> schedule_state" where
  "minuteClock due hold failures = \<lparr>ss_routineId = ''r1'', ss_anchor = js (integerText 0), ss_timezone = js ''UTC'',
     ss_dueAt = due, ss_deferredUntil = hold, ss_failures = failures\<rparr>"

lemma minuteClock_simps [simp]:
  "ss_routineId (minuteClock due hold failures) = ''r1''"
  "ss_anchor (minuteClock due hold failures) = js (integerText 0)"
  "ss_timezone (minuteClock due hold failures) = js ''UTC''" "ss_dueAt (minuteClock due hold failures) = due"
  "ss_deferredUntil (minuteClock due hold failures) = hold" "ss_failures (minuteClock due hold failures) = failures"
  by (simp_all add: minuteClock_def)

lemma minute_texts:
  "text_ok 64 (js ''UTC'')" "text_ok 100 (js ''Brief'')" "text_ok 8000 (js ''Read the news'')"
  "text_ok 256 (js ''@every 1m'')" "isRoutineIdV1 ''r1''"
  by (code_simp)+

lemma minuteRoutine_ok: "0 \<le> t \<Longrightarrow> at = None \<or> at = Some (js (integerText t)) \<Longrightarrow>
    routine_ok (rv_parse minuteEnv) (minuteRoutine at)"
  using minute_texts minute_parse [of 0]
  by (auto simp: routine_ok_def minuteRoutine_def stamp_ok_def ROUTINE_NAME_MAX_LENGTH_def
      ROUTINE_PROMPT_MAX_LENGTH_def ROUTINE_SCHEDULE_MAX_def simp del: js_simps)

lemma minuteClock_ok: "0 \<le> due \<Longrightarrow> due \<le> ROUTINE_HORIZON \<Longrightarrow> pred_option epoch_ok hold \<Longrightarrow>
    pred_option (\<lambda>n. n \<le> MAX_SAFE_INTEGER) failures \<Longrightarrow> clock_ok (rv_parse minuteEnv) (minuteClock due hold failures)"
  using minute_texts minute_parse [of 0]
  by (simp add: clock_ok_def stamp_ok_def epoch_ok_def ROUTINE_HORIZON_def MAX_SAFE_INTEGER_def del: js_simps)

lemma minute_normalized:
  "normalizeRoutineScheduleV1 minuteCalendar (js ''@every 1m'') (js ''UTC'') = Inr (Interval_Schedule 60000 (js ''UTC''))"
proof -
  have "parseEveryDuration (0x20 # durationText [(1, 0x6D)]) = Inr (durationMs [(1, 0x6D)])"
    by (rule parseEveryDuration_text)
      (simp_all add: durationUnit_def durationMs_def DURATION_UNITS_MS_def ROUTINE_MIN_INTERVAL_MS_def
        ROUTINE_MAX_INTERVAL_MS_def)
  then have "normalizeRoutineScheduleV1 minuteCalendar (js ''@every '' @ durationText [(1, 0x6D)]) (js ''UTC'') =
      Inr (Interval_Schedule (int (durationMs [(1, 0x6D)])) (js ''UTC''))"
  proof (rule normalize_every)
    show "isRoutineTimezoneV1 minuteCalendar (js ''UTC'')" by code_simp
  qed (simp_all add: durationText_def partText_def partOf_def decimal_digit spaceUnit_def ROUTINE_SCHEDULE_MAX_LENGTH_def)
  then show ?thesis
    by (simp add: durationText_def partText_def partOf_def decimal_digit durationMs_def DURATION_UNITS_MS_def)
qed

text \<open>A store that holds the Routine, with the clock, the lock and the run log given.\<close>

definition minuteStore ::
  "jstr option \<Rightarrow> schedule_state option \<Rightarrow> routine_fire option \<Rightarrow> (string \<times> routine_entry) list \<Rightarrow> routine_store" where
  "minuteStore at clock fire rows = emptyRoutineStore
     \<lparr>rs_routines := [(routineKeyV1 ''r1'', routineJson (minuteRoutine at))],
      rs_schedules := (case clock of None \<Rightarrow> [] | Some s \<Rightarrow> [(routineScheduleKeyV1 ''r1'', scheduleJson s)]),
      rs_fires := (case fire of None \<Rightarrow> [] | Some f \<Rightarrow> [(routineFireKeyV1 ''r1'', fireJson f)]),
      rs_runs := map (\<lambda>(k, row). (k, routineEntryJson row)) rows\<rparr>"

definition minute_ran :: "jstr option \<Rightarrow> bool" where
  "minute_ran at \<longleftrightarrow> (\<exists>t. 0 \<le> t \<and> (at = None \<or> at = Some (js (integerText t))))"

lemma minute_ran_times [simp]: "minute_ran None" "0 \<le> t \<Longrightarrow> minute_ran (Some (js (integerText t)))"
  by (auto simp: minute_ran_def)

lemma minuteRoutine_simps [simp]:
  "rr_id (minuteRoutine at) = ''r1''" "rr_enabled (minuteRoutine at)"
  "rr_schedule (minuteRoutine at) = Some (js ''@every 1m'')" "rr_updatedAt (minuteRoutine at) = js (integerText 0)"
  "rr_trigger (minuteRoutine at) = None"
  "(minuteRoutine at)\<lparr>rr_lastRunAt := b\<rparr> = minuteRoutine b"
  by (simp_all add: minuteRoutine_def)

lemma minute_decoded:
  "minute_ran at \<Longrightarrow> decodeRoutineRecordV1 (rv_parse minuteEnv) (routineJson (minuteRoutine at)) = Inr (minuteRoutine at)"
  using minuteRoutine_ok by (auto simp: minute_ran_def intro!: routine_round_trip)

lemma minuteStore_simps [simp]:
  "lockOf (minuteStore at clock fire rows) ''r1'' = map_option fireJson fire"
  "recordAt (minuteStore at clock fire rows) ''r1'' = Some (routineJson (minuteRoutine at))"
  "clockAt (minuteStore at clock fire rows) ''r1'' = map_option scheduleJson clock"
  "rs_routines (minuteStore at clock fire rows) = [(routineKeyV1 ''r1'', routineJson (minuteRoutine at))]"
  "rs_queue (minuteStore at clock fire rows) = []"
  by (simp_all add: minuteStore_def lockOf_def recordAt_def clockAt_def emptyRoutineStore_def kv_get_def split: option.split)

lemma minuteStore_read:
  assumes "minute_ran at"
  shows "readRoutine minuteEnv (minuteStore at clock fire rows) i = (if i = ''r1'' then Some (minuteRoutine at) else None)"
    and "records_ok minuteEnv (minuteStore at clock fire rows)"
  using minute_decoded [OF assms]
  by (auto simp: readRoutine_def records_ok_def kv_get_def kv_sorted_def in_time_def timeOf_def ROUTINE_HORIZON_def
      split: if_splits)

lemma minuteStore_clock:
  assumes "pred_option (clock_ok (rv_parse minuteEnv)) clock"
  shows "storedClock minuteEnv (minuteStore at clock fire rows) ''r1'' = clock"
  using assms by (cases clock) (simp_all add: storedClock_def clock_round_trip)

definition minuteNext :: "schedule_state option \<Rightarrow> schedule_state" where
  "minuteNext clock = (case clock of None \<Rightarrow> minuteClock 60000 None None | Some s \<Rightarrow> s)"

lemma minute_next:
  "0 \<le> since \<Longrightarrow> nextRoutineRunV1 minuteCalendar (Interval_Schedule 60000 zone) since 0 =
    Some ((since div 60000 + 1) * 60000)"
  by (simp add: nextRoutineRunV1_def)

lemma minute_clocks:
  assumes "minute_ran at" and "clock = None \<or> clock = Some (minuteClock due hold failures)"
    and "pred_option (clock_ok (rv_parse minuteEnv)) clock"
  shows "clocks minuteEnv (js ''UTC'') now (minuteStore at clock fire rows) =
    ([(minuteRoutine at, minuteNext clock)], minuteStore at clock fire rows)"
proof -
  have "storedRoutineClockV1 minuteEnv (clockAt (minuteStore at clock fire rows) ''r1'') (js ''UTC'') = clock"
  proof (cases clock)
    case None
    then show ?thesis by (simp add: storedRoutineClockV1_def)
  next
    case (Some s)
    then have "storedClock minuteEnv (minuteStore at clock fire rows) ''r1'' = Some s"
      using minuteStore_clock [OF assms(3)] by simp
    with Some show ?thesis
      using stored_clock_read [of "minuteStore at clock fire rows" "''r1''" "scheduleJson s" minuteEnv s]
      by simp
  qed
  moreover have "rebuiltClock minuteEnv (minuteRoutine at) None (Interval_Schedule 60000 (js ''UTC'')) now =
      minuteClock 60000 None None"
    using minute_next [of 0 "js ''UTC''"]
    by (simp add: rebuiltClock_def timeOf_def scheduleTimezone_def minuteClock_def)
  ultimately have "clockOf minuteEnv (js ''UTC'') now (routineJson (minuteRoutine at)) (minuteStore at clock fire rows) =
      Some (minuteRoutine at, clock, minuteNext clock)"
    using minute_normalized minute_decoded [OF assms(1)] assms(2)
    by (auto simp: clockOf_def clockAt_def routineScheduleStateV1_def minuteNext_def scheduleTimezone_def
        simp del: js_simps)
  then show ?thesis
    using assms(2) by (auto simp: clocks_def minuteNext_def ROUTINE_LIMIT_PER_BOT_def)
qed

text \<open>The firing of the occurrence due at \<open>due\<close>, claimed on time, its row of the run log while it runs and once it is
  settled, and the keys of the first two rows.\<close>

definition minuteFire :: "int \<Rightarrow> routine_fire" where
  "minuteFire due = scheduledFire minuteEnv (minuteRoutine None) (minuteClock due None None) 1 due"

definition minuteRow :: "int \<Rightarrow> routine_status \<Rightarrow> int option \<Rightarrow> routine_entry" where
  "minuteRow due status finished =
     \<lparr>re_entryId = rf_entryId (minuteFire due), re_routineId = ''r1'', re_runId = rf_fireId (minuteFire due),
      re_fireId = rf_fireId (minuteFire due), re_trigger = Cron, re_status = status,
      re_startedAt = js (integerText due), re_finishedAt = map_option (js \<circ> integerText) finished,
      re_summary = None\<rparr>"

definition firstKey :: string where
  "firstKey = ROUTINE_RUN_PREFIX @ ''r1'' @ '':'' @ padStart 10 (decimal RUN_SEQUENCE_CEILING)"
definition secondKey :: string where
  "secondKey = ROUTINE_RUN_PREFIX @ ''r1'' @ '':'' @ padStart 10 (decimal (RUN_SEQUENCE_CEILING - 1))"

lemma entry_id_ok:
  assumes "isRoutineIdV1 i"
  shows "text_ok 256 (routineFireIdV1 i k @ js ''-entry'')"
proof -
  let ?f = "routineFireIdV1 i k"
  have plain: "list_all (\<lambda>c. \<not> spaceUnit (of_nat (of_char c))) (FIRE_ID_CHARS @ ''-entry'')" by code_simp
  with fireId_units(1) [OF assms, of k] have "trim (?f @ js ''-entry'') = ?f @ js ''-entry''"
    by (intro trim_plain) (auto simp: fireIdUnit_def js_def list_all_iff simp del: js_simps)
  then show ?thesis
    using fireId_units(2) [OF assms, of k] by (simp add: text_ok_def ROUTINE_FIRE_ID_MAX_LENGTH_def)
qed

lemma minuteRow_ok:
  assumes "0 \<le> due" and "pred_option (\<lambda>t. 0 \<le> t) finished"
  shows "routine_entry_ok (rv_parse minuteEnv) (minuteRow due status finished)"
proof -
  let ?f = "rf_fireId (minuteFire due)"
  have f: "?f = routineFireIdV1 ''r1'' (js (integerText due))" and e: "rf_entryId (minuteFire due) = ?f @ js ''-entry''"
    by (simp_all add: minuteFire_def scheduledFire_def Let_def)
  have "text_ok 256 (rf_entryId (minuteFire due))" unfolding e f by (rule entry_id_ok [OF minute_texts(5)])
  moreover have "text_ok 256 ?f" unfolding f using minute_texts(5) by (rule fireId_text_ok)
  ultimately show ?thesis using assms minute_texts(5)
    by (cases finished) (auto simp: routine_entry_ok_def minuteRow_def stamp_ok_def simp del: js_simps)
qed

lemma minute_keys:
  "routineRunKeyV1 ''r1'' (nextRunSequenceV1 []) = Inr firstKey"
  "routineRunKeyV1 ''r1'' (nextRunSequenceV1 [firstKey]) = Inr secondKey"
  "secondKey < firstKey"
  "take (length (routineRunPrefixV1 ''r1'')) firstKey = routineRunPrefixV1 ''r1''"
proof -
  have "keyNumber ((ROUTINE_RUN_PREFIX @ ''r1'') @ '':'' @ padStart 10 (decimal RUN_SEQUENCE_CEILING)) =
      Some RUN_SEQUENCE_CEILING"
    by (rule keyNumber_padded) (simp add: RUN_SEQUENCE_CEILING_def)
  then have "keyNumber firstKey = Some RUN_SEQUENCE_CEILING" by (simp add: firstKey_def)
  then show "routineRunKeyV1 ''r1'' (nextRunSequenceV1 [firstKey]) = Inr secondKey"
    by (simp add: nextRunSequenceV1_def routineRunKeyV1_def routineRunPrefixV1_def secondKey_def)
      (simp add: RUN_SEQUENCE_CEILING_def)
  show "routineRunKeyV1 ''r1'' (nextRunSequenceV1 []) = Inr firstKey"
    by (simp add: nextRunSequenceV1_def routineRunKeyV1_def routineRunPrefixV1_def firstKey_def)
      (simp add: RUN_SEQUENCE_CEILING_def)
  show "secondKey < firstKey" using padded_less [of "RUN_SEQUENCE_CEILING - 1" RUN_SEQUENCE_CEILING]
    by (simp add: secondKey_def firstKey_def RUN_SEQUENCE_CEILING_def)
  show "take (length (routineRunPrefixV1 ''r1'')) firstKey = routineRunPrefixV1 ''r1''"
    by (simp add: firstKey_def routineRunPrefixV1_def)
qed

lemma minuteStore_runs [simp]:
  "rs_runs (minuteStore at clock fire rows) = map (\<lambda>(k, row). (k, routineEntryJson row)) rows"
  "minuteStore at clock fire rows\<lparr>rs_runs := map (\<lambda>(k, row). (k, routineEntryJson row)) rows'\<rparr> =
    minuteStore at clock fire rows'"
  "minuteStore at clock fire rows
    \<lparr>rs_fires := kv_put (routineFireKeyV1 ''r1'') (fireJson f) (rs_fires (minuteStore at clock fire rows))\<rparr> =
    minuteStore at clock (Some f) rows"
  "minuteStore at clock fire rows\<lparr>rs_fires := kv_delete (routineFireKeyV1 ''r1'') (rs_fires (minuteStore at clock fire rows))\<rparr> =
    minuteStore at clock None rows"
  "putClock ''r1'' s (minuteStore at clock fire rows) = minuteStore at (Some s) fire rows"
  "putRoutine ''r1'' (minuteRoutine b) (minuteStore at clock fire rows) = minuteStore b clock fire rows"
  by (simp_all add: minuteStore_def emptyRoutineStore_def putClock_def putRoutine_def kv_delete_def split: option.split)

text \<open>What a row put in front of an empty log, of a log of one row, or in the place of its own row, leaves.\<close>

lemma minute_append_first:
  assumes "routine_entry_ok (rv_parse minuteEnv) row" and "re_routineId row = ''r1''"
  shows "appendRoutineRunEntryV1 minuteEnv row (minuteStore at clock fire []) =
    Inr (minuteStore at clock fire [(firstKey, row)])"
  using assms minute_keys(1) minuteStore_runs(2) [where at = at and clock = clock and fire = fire and rows = "[]" and rows' = "[(firstKey, row)]"]
  by (simp add: appendRoutineRunEntryV1_def entry_round_trip ROUTINE_RUN_LOG_LIMIT_def del: minuteStore_runs(2))

lemma minute_append_same:
  assumes "routine_entry_ok (rv_parse minuteEnv) row" and "re_routineId row = ''r1''"
    and "routine_entry_ok (rv_parse minuteEnv) old" and "re_entryId old = re_entryId row"
  shows "appendRoutineRunEntryV1 minuteEnv row (minuteStore at clock fire [(firstKey, old)]) =
    Inr (minuteStore at clock fire [(firstKey, row)])"
  using assms minute_keys(4) minuteStore_runs(2) [where at = at and clock = clock and fire = fire and rows = "[(firstKey, old)]" and rows' = "[(firstKey, row)]"]
  by (simp add: appendRoutineRunEntryV1_def entry_round_trip del: minuteStore_runs(2))

lemma minute_append_second:
  assumes "routine_entry_ok (rv_parse minuteEnv) row" and "re_routineId row = ''r1''"
    and "routine_entry_ok (rv_parse minuteEnv) old" and "re_entryId old \<noteq> re_entryId row"
  shows "appendRoutineRunEntryV1 minuteEnv row (minuteStore at clock fire [(firstKey, old)]) =
    Inr (minuteStore at clock fire [(secondKey, row), (firstKey, old)])"
  using assms minute_keys minuteStore_runs(2) [where at = at and clock = clock and fire = fire and rows = "[(firstKey, old)]" and rows' = "[(secondKey, row), (firstKey, old)]"]
  by (simp add: appendRoutineRunEntryV1_def entry_round_trip ROUTINE_RUN_LOG_LIMIT_def del: minuteStore_runs(2))

section \<open>Two occurrences\<close>

lemma minute_missed: "missedRoutineRunsV1 minuteCalendar (Interval_Schedule 60000 zone) due due 0 = 1"
  by (simp add: missedRoutineRunsV1_def ROUTINE_MISSED_COUNT_CAP_def)

lemma minuteFire_simps [simp]:
  "rf_routineId (minuteFire due) = ''r1''" "rf_trigger (minuteFire due) = Cron"
  "rf_mintedAt (minuteFire due) = js (integerText due)" "rf_dueAt (minuteFire due) = Some due"
  by (simp_all add: minuteFire_def scheduledFire_def Let_def)

lemma minute_fired:
  "scheduledFire minuteEnv (minuteRoutine at) (minuteClock due hold failures) 1 due = minuteFire due"
  by (simp add: minuteFire_def scheduledFire_def minuteRoutine_def routinePromptByV1_def Let_def)

text \<open>A claim on time: the clock moves to the next minute, the firing is locked and its row is the newest.\<close>

lemma minute_claimScheduled:
  assumes "0 < due" and "60000 dvd due" and "minute_ran at"
    and "appendRoutineRunEntryV1 minuteEnv (minuteRow due Status_Running None)
      (minuteStore at (Some (minuteClock (due + 60000) None failures)) (Some (minuteFire due)) rows) =
      Inr (minuteStore at (Some (minuteClock (due + 60000) None failures)) (Some (minuteFire due)) rows')"
  shows "claimScheduled minuteEnv (minuteRoutine at) (minuteClock due None failures) due (js ''UTC'')
      (minuteStore at clock None rows) = Inr (Some (minuteFire due), minuteStore (Some (js (integerText due)))
        (Some (minuteClock (due + 60000) None failures)) (Some (minuteFire due)) rows')"
proof -
  have "(due div 60000 + 1) * 60000 = due + 60000" using assms(2) by auto
  moreover have "advancedClock (minuteRoutine at) (js ''UTC'') (minuteClock due None failures) (due + 60000) =
      minuteClock (due + 60000) None failures"
    by (simp add: advancedClock_def minuteClock_def)
  moreover have "\<lparr>re_entryId = rf_entryId (minuteFire due), re_routineId = ''r1'', re_runId = rf_fireId (minuteFire due),
      re_fireId = rf_fireId (minuteFire due), re_trigger = Cron, re_status = Status_Running,
      re_startedAt = js (integerText due), re_finishedAt = None, re_summary = None\<rparr> = minuteRow due Status_Running None"
    by (simp add: minuteRow_def)
  ultimately show ?thesis
    using assms(1,4) minute_normalized minute_next [of due "js ''UTC''"]
    by (simp add: claimScheduled_def timeOf_def minute_missed minute_fired [unfolded One_nat_def] Let_def
        writeClaim_def del: js_simps)
qed

lemma minute_claim:
  assumes "0 < due" and "60000 dvd due" and "minute_ran at" and "due \<le> ROUTINE_HORIZON"
    and "clock = None \<and> due = 60000 \<or> clock = Some (minuteClock due None None)"
    and "appendRoutineRunEntryV1 minuteEnv (minuteRow due Status_Running None)
      (minuteStore at (Some (minuteClock (due + 60000) None None)) (Some (minuteFire due)) rows) =
      Inr (minuteStore at (Some (minuteClock (due + 60000) None None)) (Some (minuteFire due)) rows')"
  shows "claim minuteEnv (js ''UTC'') due (minuteStore at clock None rows) = Inr (Some (minuteFire due),
    minuteStore (Some (js (integerText due))) (Some (minuteClock (due + 60000) None None)) (Some (minuteFire due)) rows')"
proof -
  let ?d = "minuteStore at clock None rows"
  have "clocks minuteEnv (js ''UTC'') due ?d = ([(minuteRoutine at, minuteNext clock)], ?d)"
    using assms(1,3-5) by (intro minute_clocks [where due = due and hold = None and failures = None])
      (auto intro!: minuteClock_ok)
  moreover have "minuteNext clock = minuteClock due None None" using assms(5) by (auto simp: minuteNext_def)
  ultimately show ?thesis
    using minute_claimScheduled [OF assms(1-3,6), of clock]
    by (simp add: claim_def queuedRoutineIds_def List.map_filter_def routineDeadlineV1_def del: js_simps)
qed

definition quietOutcome :: fire_outcome where "quietOutcome = \<lparr>fo_status = Fire_Ok, fo_summary = None\<rparr>"

lemma minute_settle:
  "settleFiring minuteEnv (minuteFire 60000) quietOutcome 61000
    (minuteStore at (Some (minuteClock 120000 None None)) (Some (minuteFire 60000)) [(firstKey, minuteRow 60000 Status_Running None)]) =
   Inr (minuteStore at (Some (minuteClock 120000 None None)) None [(firstKey, minuteRow 60000 Status_Ok (Some 61000))])"
proof -
  let ?d = "minuteStore at (Some (minuteClock 120000 None None)) None [(firstKey, minuteRow 60000 Status_Running None)]"
  have clock: "clock_ok (rv_parse minuteEnv) (minuteClock 120000 None None)"
    by (intro minuteClock_ok) (simp_all add: ROUTINE_HORIZON_def)
  have "kv_get (rs_schedules ?d) (routineScheduleKeyV1 ''r1'') = Some (scheduleJson (minuteClock 120000 None None))"
    using minuteStore_simps(3) [of at "Some (minuteClock 120000 None None)"] by (simp add: clockAt_def)
  then have kept: "recordOutcomeOnClock minuteEnv (minuteFire 60000) quietOutcome 61000 ?d = Inr ?d"
    by (simp add: recordOutcomeOnClock_def clock_round_trip [OF clock] quietOutcome_def)
  have "settledEntry (minuteFire 60000) quietOutcome (js (integerText 61000)) = minuteRow 60000 Status_Ok (Some 61000)"
    by (simp add: settledEntry_def quietOutcome_def settledStatus_def minuteRow_def minuteFire_def scheduledFire_def Let_def)
  moreover have "appendRoutineRunEntryV1 minuteEnv (minuteRow 60000 Status_Ok (Some 61000)) ?d =
      Inr (minuteStore at (Some (minuteClock 120000 None None)) None [(firstKey, minuteRow 60000 Status_Ok (Some 61000))])"
    by (intro minute_append_same minuteRow_ok) (simp_all add: minuteRow_def)
  ultimately show ?thesis
    using kept by (simp add: settleFiring_def Let_def kv_get_def quietOutcome_def [symmetric])
      (simp add: quietOutcome_def)
qed

definition minuteMachine :: "routine_store \<Rightarrow> int \<Rightarrow> routine_fire list \<Rightarrow> routine_machine" where
  "minuteMachine d now fires = \<lparr>rm_authority = \<lparr>ra_store = d, ra_receipts = []\<rparr>, rm_now = now, rm_fires = fires\<rparr>"

definition minuteSecond :: routine_store where
  "minuteSecond = minuteStore (Some (js (integerText 120000))) (Some (minuteClock 180000 None None))
     (Some (minuteFire 120000)) [(secondKey, minuteRow 120000 Status_Running None),
       (firstKey, minuteRow 60000 Status_Ok (Some 61000))]"

lemma minuteMachine_simps [simp]:
  "rm_store (minuteMachine d now fires) = d" "rm_now (minuteMachine d now fires) = now"
  "rm_fires (minuteMachine d now fires) = fires"
  "stored d' (minuteMachine d now fires) = minuteMachine d' now fires"
  "(minuteMachine d now fires)\<lparr>rm_now := t\<rparr> = minuteMachine d t fires"
  "(minuteMachine d now fires)\<lparr>rm_fires := fs\<rparr> = minuteMachine d now fs"
  by (simp_all add: minuteMachine_def stored_def)

lemma minute_two_claims: "routine_reachable minuteEnv (minuteMachine minuteSecond 120000 [minuteFire 60000, minuteFire 120000])"
proof -
  let ?first = "minuteStore (Some (js (integerText 60000))) (Some (minuteClock 120000 None None)) (Some (minuteFire 60000))
    [(firstKey, minuteRow 60000 Status_Running None)]"
  let ?settled = "minuteStore (Some (js (integerText 60000))) (Some (minuteClock 120000 None None)) None
    [(firstKey, minuteRow 60000 Status_Ok (Some 61000))]"
  have "claim minuteEnv (js ''UTC'') 60000 (minuteStore None None None []) = Inr (Some (minuteFire 60000),
      minuteStore (Some (js (integerText 60000))) (Some (minuteClock (60000 + 60000) None None)) (Some (minuteFire 60000))
        [(firstKey, minuteRow 60000 Status_Running None)])"
    by (intro minute_claim minute_append_first minuteRow_ok) (simp_all add: ROUTINE_HORIZON_def minuteRow_def)
  then have first: "claim minuteEnv (js ''UTC'') 60000 (minuteStore None None None []) = Inr (Some (minuteFire 60000), ?first)"
    by simp
  have "claim minuteEnv (js ''UTC'') 120000 ?settled = Inr (Some (minuteFire 120000),
      minuteStore (Some (js (integerText 120000))) (Some (minuteClock (120000 + 60000) None None)) (Some (minuteFire 120000))
        [(secondKey, minuteRow 120000 Status_Running None), (firstKey, minuteRow 60000 Status_Ok (Some 61000))])"
  proof (intro minute_claim minute_append_second minuteRow_ok)
    have "js (integerText 60000) \<noteq> js (integerText 120000)" by (simp add: integerText_def del: js_simps)
    moreover have "routineFireIdV1 ''r1'' (js (integerText t)) = js ''rf-'' @ js ''r1'' @ js ''-'' @ js (integerText t)"
      if "t = 60000 \<or> t = 120000" for t
      using that decimal_fireUnits decimal_length [of 60000] decimal_length [of 120000]
      by (intro fireId_short) (auto simp: integerText_def MAX_SAFE_INTEGER_def simp del: js_simps)
    ultimately show "re_entryId (minuteRow 60000 Status_Ok (Some 61000)) \<noteq> re_entryId (minuteRow 120000 Status_Running None)"
      by (simp add: minuteRow_def minuteFire_def scheduledFire_def Let_def del: js_simps)
  qed (simp_all add: ROUTINE_HORIZON_def minuteRow_def)
  then have second: "claim minuteEnv (js ''UTC'') 120000 ?settled = Inr (Some (minuteFire 120000), minuteSecond)"
    by (simp add: minuteSecond_def)
  have counts: "failures_below MAX_SAFE_INTEGER minuteEnv ?first"
    by (auto simp: failures_below_def storedClock_def clockAt_def minuteStore_def kv_get_def MAX_SAFE_INTEGER_def
        emptyRoutineStore_def clock_round_trip minuteClock_ok ROUTINE_HORIZON_def split: if_splits)
  have "routine_reachable minuteEnv (minuteMachine (minuteStore None None None []) 60000 [])"
    by (rule routine_start) (simp_all add: minuteStore_read in_time_def ROUTINE_HORIZON_def)
  from routine_more [OF this firing_claimed] first
  have "routine_reachable minuteEnv (minuteMachine ?first 60000 [minuteFire 60000])" by fastforce
  from routine_more [OF this time_passes [where t = 61000]]
  have "routine_reachable minuteEnv (minuteMachine ?first 61000 [minuteFire 60000])"
    by (simp add: ROUTINE_HORIZON_def)
  from routine_more [OF this firing_settled [where fire = "minuteFire 60000" and outcome = quietOutcome]]
  have "routine_reachable minuteEnv (minuteMachine ?settled 61000 [minuteFire 60000])"
    using counts minute_settle by simp
  from routine_more [OF this time_passes [where t = 120000]]
  have "routine_reachable minuteEnv (minuteMachine ?settled 120000 [minuteFire 60000])"
    by (simp add: ROUTINE_HORIZON_def)
  from routine_more [OF this firing_claimed] second show ?thesis by fastforce
qed

lemma minute_first_claim:
  "claimScheduled minuteEnv (minuteRoutine None) (minuteClock 60000 None failures) 60000 (js ''UTC'')
    (minuteStore None clock None []) = Inr (Some (minuteFire 60000), minuteStore (Some (js (integerText 60000)))
      (Some (minuteClock 120000 None failures)) (Some (minuteFire 60000)) [(firstKey, minuteRow 60000 Status_Running None)])"
proof -
  have "claimScheduled minuteEnv (minuteRoutine None) (minuteClock 60000 None failures) 60000 (js ''UTC'')
    (minuteStore None clock None []) = Inr (Some (minuteFire 60000), minuteStore (Some (js (integerText 60000)))
      (Some (minuteClock (60000 + 60000) None failures)) (Some (minuteFire 60000)) [(firstKey, minuteRow 60000 Status_Running None)])"
    by (intro minute_claimScheduled minute_append_first minuteRow_ok) (simp_all add: minuteRow_def)
  then show ?thesis by simp
qed

section \<open>A firing asked for by hand\<close>

definition minuteWaiting :: queued_firing where
  "minuteWaiting = \<lparr>qf_trigger = js ''manual'', qf_discriminator = js ''m'', qf_requestedAt = js (integerText 0),
     qf_delivery = None\<rparr>"

definition minuteWaitingKey :: string where
  "minuteWaitingKey = ROUTINE_QUEUE_PREFIX @ ''r1'' @ '':'' @ padStart 10 (decimal 0)"

lemma minute_waiting:
  "\<exists>i n. isRoutineIdV1 i \<and> routineQueueKeyV1 i n = Inr minuteWaitingKey"
  "take (length (routineQueuePrefixV1 ''r1'')) minuteWaitingKey = routineQueuePrefixV1 ''r1''"
proof -
  have "routineQueueKeyV1 ''r1'' 0 = Inr minuteWaitingKey"
    by (simp add: queueKey_Inr minuteWaitingKey_def RUN_SEQUENCE_CEILING_def)
  then show "\<exists>i n. isRoutineIdV1 i \<and> routineQueueKeyV1 i n = Inr minuteWaitingKey" using minute_texts(5) by blast
  show "take (length (routineQueuePrefixV1 ''r1'')) minuteWaitingKey = routineQueuePrefixV1 ''r1''"
    by (simp add: minuteWaitingKey_def routineQueuePrefixV1_def)
qed

lemma minute_claimQueued:
  "\<exists>fire d'. claimQueued minuteEnv ''r1'' 5 ((minuteStore None None None [])\<lparr>rs_queue := [(minuteWaitingKey,
      queuedJson minuteWaiting)]\<rparr>) = Inr (Some fire, d')"
proof -
  let ?f = "routineFireIdV1 ''r1'' (js ''m'')"
  let ?row = "\<lparr>re_entryId = ?f @ js ''-entry'', re_routineId = ''r1'', re_runId = ?f, re_fireId = ?f, re_trigger = Manual,
    re_status = Status_Running, re_startedAt = js (integerText 5), re_finishedAt = None, re_summary = None\<rparr>"
  have row: "routine_entry_ok (rv_parse minuteEnv) ?row"
    using entry_id_ok [OF minute_texts(5)] fireId_text_ok [OF minute_texts(5)] minute_texts(5)
    by (simp add: routine_entry_ok_def stamp_ok_def del: js_simps)
  have empty: "(minuteStore None None None [])\<lparr>rs_queue := []\<rparr> = minuteStore None None None []"
    by (simp add: minuteStore_def emptyRoutineStore_def)
  have manual: "named ROUTINE_TRIGGER_KINDS (Some (JStr (js ''manual''))) = Some Manual" by code_simp
  have "kv_delete minuteWaitingKey [(minuteWaitingKey, v)] = []" for v :: json by (simp add: kv_delete_def)
  then show ?thesis
    using minute_append_first [OF row] minuteStore_read(1) [of None None None "[]"] minute_waiting(2) manual
    by (simp add: empty claimQueued_def waitingFor_def minuteWaiting_def writeClaim_def need_def Let_def
        del: js_simps)
qed

section \<open>Settling\<close>

lemma minuteFire_ok: "0 \<le> due \<Longrightarrow> due \<le> ROUTINE_HORIZON \<Longrightarrow> fire_ok (rv_parse minuteEnv) (minuteFire due)"
proof -
  let ?cue = "routineCueV1 (js ''Brief'') (js ''Read the news'') Cron None None"
  have "trim ?cue = ?cue" and "?cue \<noteq> []" and "length ?cue \<le> ROUTINE_CUE_MAX_LENGTH"
    by (rule trim_edges, simp_all add: routineCueV1_def cueHeader_def slice0_def triggerName_def newline_def spaceUnit_def
        ROUTINE_CUE_MAX_LENGTH_def)
  then have "text_ok ROUTINE_CUE_MAX_LENGTH ?cue" by (simp add: text_ok_def)
  then show "0 \<le> due \<Longrightarrow> due \<le> ROUTINE_HORIZON \<Longrightarrow> fire_ok (rv_parse minuteEnv) (minuteFire due)"
    using entry_id_ok [OF minute_texts(5)] fireId_text_ok [OF minute_texts(5)] minute_texts(5)
    by (simp add: fire_ok_def minuteFire_def scheduledFire_def minuteRoutine_def stamp_ok_def epoch_ok_def Let_def
        ROUTINE_HORIZON_def MAX_SAFE_INTEGER_def del: js_simps)
qed

lemma minute_log_ok: "log_ok minuteEnv (minuteStore at clock fire [(firstKey, minuteRow 60000 Status_Running None)])"
proof -
  have row: "routine_entry_ok (rv_parse minuteEnv) (minuteRow 60000 Status_Running None)" by (intro minuteRow_ok) simp_all
  have id: "re_routineId (minuteRow 60000 Status_Running None) = ''r1''" by (simp add: minuteRow_def)
  have "log_ok minuteEnv (minuteStore at clock fire [])" by (simp add: log_ok_def log_rows_def kv_sorted_def)
  from append_rows [OF this minute_append_first [OF row id]] show ?thesis by blast
qed

definition failedOutcome :: fire_outcome where "failedOutcome = \<lparr>fo_status = Fire_Failed, fo_summary = None\<rparr>"

lemma inbox_told:
  assumes "rs_inbox d = []" and "rs_inboxCursor d = None"
  shows "\<exists>d'. recordFailureInbox env fire outcome at d = Inr d' \<and> rs_runs d' = rs_runs d"
  using assms by (simp add: recordFailureInbox_def collapsibleFailure_def failureRecords_def Let_def
      routineSequenceCursorV1_def routineInboxKeyV1_def RUN_SEQUENCE_CEILING_def)

lemma minute_settle_failed:
  "\<exists>d'. settleFiring minuteEnv (minuteFire 60000) failedOutcome 61000
    (minuteStore None (Some (minuteClock 120000 None None)) (Some (minuteFire 60000)) []) = Inr d'"
proof -
  let ?d = "minuteStore None (Some (minuteClock 120000 None None)) None []"
  let ?s = "minuteClock 120000 (Some 91000) (Some 1)"
  let ?row = "settledEntry (minuteFire 60000) failedOutcome (js (integerText 61000))"
  have clock: "clock_ok (rv_parse minuteEnv) (minuteClock 120000 None None)"
    by (intro minuteClock_ok) (simp_all add: ROUTINE_HORIZON_def)
  have "kv_get (rs_schedules ?d) (routineScheduleKeyV1 ''r1'') = Some (scheduleJson (minuteClock 120000 None None))"
    using minuteStore_simps(3) [of None "Some (minuteClock 120000 None None)"] by (simp add: clockAt_def)
  moreover have "minuteClock 120000 None None\<lparr>ss_failures := Some (Suc 0), ss_deferredUntil := Some (max 0 (61000 + backoffAfter (Suc 0)))\<rparr> = ?s"
    by (simp add: minuteClock_def backoffAfter_def ROUTINE_FAILURE_BACKOFF_MS_def)
  ultimately have counted: "recordOutcomeOnClock minuteEnv (minuteFire 60000) failedOutcome 61000 ?d =
      Inr (minuteStore None (Some ?s) None [])"
    by (simp add: recordOutcomeOnClock_def clock_round_trip [OF clock] failedOutcome_def ROUTINE_FAILURE_PAUSE_AFTER_def)
  obtain d3 where told: "recordFailureInbox minuteEnv (minuteFire 60000) failedOutcome (js (integerText 61000))
      (minuteStore None (Some ?s) None []) = Inr d3" and "rs_runs d3 = []"
    using inbox_told [of "minuteStore None (Some ?s) None []" minuteEnv "minuteFire 60000" failedOutcome]
    by (auto simp: minuteStore_def emptyRoutineStore_def simp del: js_simps)
  have "?row = minuteRow 60000 Status_Failed (Some 61000)"
    by (simp add: settledEntry_def failedOutcome_def settledStatus_def minuteRow_def minuteFire_def scheduledFire_def Let_def)
  then have row: "routine_entry_ok (rv_parse minuteEnv) ?row" and id: "re_routineId ?row = ''r1''"
    using minuteRow_ok [of 60000 "Some 61000" Status_Failed] by (simp_all add: minuteRow_def)
  have "\<exists>d'. appendRoutineRunEntryV1 minuteEnv ?row d3 = Inr d'"
    using \<open>rs_runs d3 = []\<close> minute_keys(1) id by (simp add: appendRoutineRunEntryV1_def entry_round_trip [OF row])
  then show ?thesis using counted told
    by (simp add: settleFiring_def Let_def kv_get_def failedOutcome_def [symmetric]) (simp add: failedOutcome_def)
qed

text \<open>A run that completed with two thousand blanks and a letter.\<close>

definition blankAnswer :: jstr where "blankAnswer = replicate 2000 0x20 @ [0x78]"

definition minuteRun :: stored_run where
  "minuteRun =
     \<lparr>r_runId = ''rf-r1-60000'', r_fingerprint = js ''f'', r_sessionId = ''routine:r1'',
      r_acceptedAt = ''t'', r_input = js ''hi'', r_attachments = None, r_retryOf = None,
      r_retriedBy = None, r_messageRunId = None, r_messageAdmittedAt = None, r_landedAt = None,
      r_events = None, r_eventRange = Some (0, 0), r_effects = [], r_status = Run_Completed,
      r_responseText = Some blankAnswer, r_failure = None, r_phase = Executing, r_stopRequestedAt = None,
      r_composition = ''g'', r_mounted = None, r_prepared = None, r_snapshot = JNull,
      r_previousEventCount = 0, r_admission = None\<rparr>"

lemma blankAnswer_trim: "trim (slice0 blankAnswer 2000) = []" "trim blankAnswer \<noteq> []"
proof -
  have "dropWhile spaceUnit (replicate n 0x20 @ s) = dropWhile spaceUnit s" for n s
    by (induction n) (simp_all add: spaceUnit_def)
  from this [of 2000 "[]"] this [of 2000 "[0x78]"] show "trim (slice0 blankAnswer 2000) = []" "trim blankAnswer \<noteq> []"
    by (simp_all add: trim_def blankAnswer_def slice0_def spaceUnit_def)
qed

section \<open>A command\<close>

definition minuteOptions :: store_options where
  "minuteOptions = \<lparr>so_firings = True, so_mint = None, so_newId = ''r2''\<rparr>"

definition minuteCommand :: "routine_change \<Rightarrow> routine_command" where
  "minuteCommand change = \<lparr>rc_commandId = ''c1'', rc_botId = ''b1'', rc_change = change\<rparr>"

lemma minute_delete:
  "\<exists>a'. executeCommand minuteEnv minuteOptions 5 (js ''UTC'') Writer_User None (minuteCommand (Delete_Routine ''r1''))
      \<lparr>ra_store = minuteStore None None None [], ra_receipts = []\<rparr> = (Inr (Receipt_Deleted ''r1''), a') \<and>
    recordAt (ra_store a') ''r1'' = None"
  using minute_decoded [of None]
  by (simp add: executeCommand_def applyCommand_def minuteCommand_def changedId_def after_def kv_get_def
      deletedStore_def recordAt_def dropKey_def kv_delete_def Let_def)

section \<open>A delivery\<close>

text \<open>A Routine that fires on a webhook, its key and one delivery at its door.\<close>

definition hookRoutine :: routine_record where
  "hookRoutine = (minuteRoutine None)\<lparr>rr_id := ''h1'', rr_schedule := None, rr_trigger := Some Webhook_Trigger\<rparr>"

definition hookKey :: hook_key where
  "hookKey = \<lparr>hk_routineId = ''h1'', hk_version = 1, hk_digest = replicate 64 0x61, hk_createdAt = js (integerText 0)\<rparr>"

definition hookStore :: routine_store where
  "hookStore = emptyRoutineStore\<lparr>rs_routines := [(routineKeyV1 ''h1'', routineJson hookRoutine)],
     rs_keys := [(routineHookKeyRecordV1 ''h1'', hookKeyJson hookKey)]\<rparr>"

definition hookDelivery :: delivery where
  "hookDelivery = \<lparr>dl_routineId = ''h1'', dl_deliveryId = ''d1'', dl_keyVersion = Some 1,
     dl_digest = Some (replicate 64 0x61), dl_rendered = js ''body''\<rparr>"

lemma hook_routine: "decodeRoutineRecordV1 (rv_parse minuteEnv) (routineJson hookRoutine) = Inr hookRoutine"
proof (rule routine_round_trip)
  have "isRoutineIdV1 ''h1''" by code_simp
  with minuteRoutine_ok [of 0 None] show "routine_ok (rv_parse minuteEnv) hookRoutine"
    by (simp add: routine_ok_def hookRoutine_def del: js_simps)
qed

lemma hook_key_read: "decodeRoutineHookKeyV1 (rv_parse minuteEnv) (hookKeyJson hookKey) = Inr hookKey"
proof -
  have "isRoutineIdV1 ''h1''" by code_simp
  moreover have "list_all (\<lambda>u. u \<in> set (js ''0123456789abcdef'')) (replicate 64 0x61)" by (simp add: list_all_iff)
  ultimately show ?thesis
    by (simp add: decodeRoutineHookKeyV1_def hookKeyJson_def hookKey_def codec_defs routineIdField_def
        routineRepeatCountV1_def safeNat_number epoch_ok_def MAX_SAFE_INTEGER_def routineTimestamp_def del: js_simps)
qed

lemma hook_admitted:
  assumes "rs_routines d = rs_routines hookStore" and "rs_keys d = rs_keys hookStore"
  shows "admitDelivery minuteEnv hookDelivery d = Inr Webhook_Trigger"
  using assms hook_routine hook_key_read
  by (simp add: admitDelivery_def hookStore_def hookDelivery_def keyOf_def kv_get_def)
    (simp add: hookRoutine_def hookKey_def minuteRoutine_def)

lemma hook_delivered:
  "\<exists>d'. deliverFiring minuteEnv 5 (admitDelivery minuteEnv hookDelivery) hookDelivery None hookStore =
      Inr (Accepted (routineFireIdV1 ''h1'' (js ''hook-d1'')), d') \<and>
    admitDelivery minuteEnv hookDelivery d' = Inr Webhook_Trigger"
proof -
  obtain key where "routineQueueKeyV1 ''h1'' (nextQueueSequenceV1 []) = Inr key"
    by (simp add: nextQueueSequenceV1_def queueKey_Inr RUN_SEQUENCE_CEILING_def)
  then obtain d1 where d1: "enqueueWithin minuteEnv 5 ''h1'' Webhook (js ''hook-d1'') (Some (js ''body'')) hookStore =
      Inr ((routineFireIdV1 ''h1'' (js ''hook-d1''), True), d1)" and same: "rs_routines d1 = rs_routines hookStore" "rs_keys d1 = rs_keys hookStore"
    by (auto simp: enqueueWithin_def ROUTINE_QUEUE_LIMIT_def waitingFor_def lockOf_def hookStore_def emptyRoutineStore_def
        simp del: js_simps)
  have fresh: "freshReceipt minuteEnv 5 ''d1'' hookStore = None" by (simp add: freshReceipt_def hookStore_def emptyRoutineStore_def)
  have disc: "js ''hook-'' @ slice0 (js ''d1'') 40 = js ''hook-d1''" by (simp add: slice0_def)
  have fields: "dl_routineId hookDelivery = ''h1''" "dl_deliveryId hookDelivery = ''d1''" "dl_rendered hookDelivery = js ''body''"
    by (simp_all add: hookDelivery_def)
  have "deliverFiring minuteEnv 5 (admitDelivery minuteEnv hookDelivery) hookDelivery None hookStore =
      Inr (Accepted (routineFireIdV1 ''h1'' (js ''hook-d1'')),
        recordDelivery minuteEnv 5 hookDelivery (Some (routineFireIdV1 ''h1'' (js ''hook-d1''))) None d1)"
    using hook_admitted [of hookStore] d1
    by (simp only: deliverFiring_def fields disc fresh) simp
  moreover have "admitDelivery minuteEnv hookDelivery
      (recordDelivery minuteEnv 5 hookDelivery (Some (routineFireIdV1 ''h1'' (js ''hook-d1''))) None d1) = Inr Webhook_Trigger"
    using same by (intro hook_admitted) (simp_all add: recordDelivery_def trimDeliveries_def Let_def)
  ultimately show ?thesis by blast
qed

end
