(* ===== verification/Routine_Order.thy ===== *)
theory Routine_Order
  imports Routine_Settlement
begin

text \<open>
  The queue of one Routine while the firings of all of them are asked for and claimed in any order. \<open>served_queue\<close> is
  the contract of a first-in first-out queue: what waits and what a step adds are what the step takes and what waits then.
  \<open>enqueueWithin\<close> and \<open>claimQueued\<close> keep it for the ids of the firings of a Routine that can be read; a request that throws
  is rolled back, and a request that waits already adds nothing.
\<close>

section \<open>The contract of a queue\<close>

primrec serve :: "('o \<Rightarrow> 's \<Rightarrow> ('a list \<times> 'a list) \<times> 's) \<Rightarrow> 'o list \<Rightarrow> 's \<Rightarrow> ('a list \<times> 'a list) \<times> 's" where
  "serve step [] s = (([], []), s)"
| "serve step (x # xs) s =
     (let ((asked, taken), s1) = step x s; ((asked', taken'), s2) = serve step xs s1
      in ((asked @ asked', taken @ taken'), s2))"

locale served_queue =
  fixes ok :: "'s \<Rightarrow> bool" and valid :: "'o \<Rightarrow> bool" and contents :: "'s \<Rightarrow> 'a list"
    and step :: "'o \<Rightarrow> 's \<Rightarrow> ('a list \<times> 'a list) \<times> 's"
  assumes step_ok: "\<lbrakk>ok s; valid x; step x s = (moved, s')\<rbrakk> \<Longrightarrow> ok s'"
    and step_balance: "\<lbrakk>ok s; valid x; step x s = ((asked, taken), s')\<rbrakk> \<Longrightarrow>
      contents s @ asked = taken @ contents s'"
begin

lemma serve_balance:
  assumes "ok s" and "\<forall>x \<in> set xs. valid x" and "serve step xs s = ((asked, taken), s')"
  shows "ok s'" and "contents s @ asked = taken @ contents s'"
proof -
  have "ok s' \<and> contents s @ asked = taken @ contents s'"
    using assms
  proof (induction xs arbitrary: s asked taken)
    case (Cons x xs)
    obtain a t s1 where one: "step x s = ((a, t), s1)" by (metis prod.exhaust)
    obtain as ts where rest: "serve step xs s1 = ((as, ts), s')" and all: "asked = a @ as" "taken = t @ ts"
      using Cons.prems(3) one by (auto split: prod.splits)
    have "valid x" using Cons.prems(2) by simp
    note first = step_ok [OF Cons.prems(1) this one] step_balance [OF Cons.prems(1) this one]
    have "ok s' \<and> contents s1 @ as = ts @ contents s'"
      using Cons.prems(2) by (intro Cons.IH [OF first(1) _ rest]) simp
    then show ?case unfolding all using first(2) by (metis append.assoc)
  qed simp
  then show "ok s'" and "contents s @ asked = taken @ contents s'" by blast+
qed

text \<open>What is taken is a first part of what waited and was asked for, and all of it once nothing waits.\<close>

lemma serve_in_order:
  assumes "ok s" and "\<forall>x \<in> set xs. valid x" and "serve step xs s = ((asked, taken), s')"
  shows "taken = take (length taken) (contents s @ asked)" and "contents s' = drop (length taken) (contents s @ asked)"
  using serve_balance(2) [OF assms] by simp_all

end

section \<open>The firings of one Routine\<close>

text \<open>Asking for a firing of any Routine, and claiming the head of the queue of any.\<close>

datatype queue_step =
    Ask string run_trigger jstr "jstr option" int
  | Take string int

fun stepTime :: "queue_step \<Rightarrow> int" where
  "stepTime (Ask j trigger k delivery now) = now"
| "stepTime (Take j now) = now"

fun stepRoutine :: "queue_step \<Rightarrow> string" where
  "stepRoutine (Ask j trigger k delivery now) = j"
| "stepRoutine (Take j now) = j"

fun queueStep :: "routine_env \<Rightarrow> string \<Rightarrow> queue_step \<Rightarrow> routine_store \<Rightarrow> (jstr list \<times> jstr list) \<times> routine_store" where
  "queueStep env i (Ask j trigger k delivery now) d =
     (case enqueueWithin env now j trigger k delivery d of
        Inl e \<Rightarrow> (([], []), d)
      | Inr ((fireId, fresh), d') \<Rightarrow> ((if j = i \<and> fresh then [fireId] else [], []), d'))"
| "queueStep env i (Take j now) d =
     (case claimQueued env j now d of
        Inl e \<Rightarrow> (([], []), d)
      | Inr (found, d') \<Rightarrow> (([], if j = i then map rf_fireId (case found of None \<Rightarrow> [] | Some f \<Rightarrow> [f]) else []), d'))"

definition waitingFires :: "string \<Rightarrow> routine_store \<Rightarrow> jstr list" where
  "waitingFires i d = map (routineFireIdV1 i \<circ> qf_discriminator) (List.map_filter id (waiting_list i d))"

definition readable_queue :: "routine_env \<Rightarrow> string \<Rightarrow> routine_store \<Rightarrow> bool" where
  "readable_queue env i d \<longleftrightarrow> queue_ok d \<and> records_ok env d \<and> isRoutineIdV1 i \<and> readRoutine env d i \<noteq> None"

lemma waitingFires_snoc: "waiting_list i d' = waiting_list i d @ [Some q] \<Longrightarrow>
    waitingFires i d' = waitingFires i d @ [routineFireIdV1 i (qf_discriminator q)]"
  by (simp add: waitingFires_def List.map_filter_def)

lemma waitingFires_head: "waiting_list i d = x # waiting_list i d' \<Longrightarrow> waitingFires i d =
    (case x of None \<Rightarrow> [] | Some q \<Rightarrow> [routineFireIdV1 i (qf_discriminator q)]) @ waitingFires i d'"
  by (simp add: waitingFires_def List.map_filter_def split: option.split)

lemma ask_keeps:
  assumes "enqueueWithin env now j trigger k delivery d = Inr (answer, d')" and "readable_queue env i d" "isRoutineIdV1 j"
  shows "readable_queue env i d'"
proof -
  have "same_clocks d d'" using enqueue_frame [OF assms(1)] by (metis op_same(2) assms(1))
  moreover have "queue_ok d'"
  proof (cases "snd answer")
    case True
    then show ?thesis using assms enqueue_appends(1) [of d j env now trigger k delivery "fst answer" d']
      by (cases answer) (simp add: readable_queue_def)
  next
    case False
    then have "d' = d" using assms(1) by (auto simp: enqueueWithin_def Let_def rbind_Inr_iff split: if_splits)
    then show ?thesis using assms(2) by (simp add: readable_queue_def)
  qed
  ultimately show ?thesis using assms(2) claims_same [of env 0 "[]" d d']
    by (simp add: readable_queue_def no_claims readRoutine_same)
qed

lemma claim_reads:
  assumes "routine_env_ok env" "in_time now" "records_ok env d" and "claimQueued env j now d = Inr (found, d')"
    and "readRoutine env d i \<noteq> None"
  shows "readRoutine env d' i \<noteq> None"
proof (cases "waitingFor j d")
  case (Cons w ws)
  obtain k v where w: "w = (k, v)" by (cases w)
  let ?d = "d\<lparr>rs_queue := kv_delete k (rs_queue d)\<rparr>"
  have same: "readRoutine env ?d = readRoutine env d" by (intro readRoutine_same) (simp add: same_clocks_def)
  show ?thesis
  proof (cases "queued v \<noteq> None \<and> readRoutine env d j \<noteq> None")
    case True
    then obtain q r where q: "queued v = Some q" "readRoutine env d j = Some r" by auto
    obtain fire where "writeClaim env r fire now ?d = Inr d'"
      using assms(4) Cons w q same by (auto simp: claimQueued_def Let_def rbind_Inr_iff)
    then obtain e where e: "same_clocks ?d e" "d' = putRoutine (rr_id r) (r\<lparr>rr_lastRunAt := Some (rv_iso env now)\<rparr>) e"
      by (rule writeClaim_frame)
    have "readRoutine env e = readRoutine env d" using readRoutine_same [OF e(1), of env] same by (simp add: fun_eq_iff)
    then show ?thesis
      using assms(5) lastRun_ok [OF assms(1,2) readRoutine_ok [OF q(2)]]
      by (simp add: e(2))
  next
    case False
    then have "d' = ?d" using assms(4) Cons w same by (auto simp: claimQueued_def Let_def split: option.splits)
    then show ?thesis using assms(5) same by simp
  qed
qed (use assms in \<open>simp add: claimQueued_def\<close>)

lemma take_keeps:
  assumes "claimQueued env j now d = Inr (found, d')" and "readable_queue env i d"
    and "isRoutineIdV1 j" "routine_env_ok env" "in_time now"
  shows "readable_queue env i d'"
proof -
  have ok: "queue_ok d" "records_ok env d" "isRoutineIdV1 i" "readRoutine env d i \<noteq> None"
    using assms(2) by (simp_all add: readable_queue_def)
  have "records_ok env d'"
    using claimQueued_claims(1) [OF assms(4,5) _ assms(1), of "[]"] ok(2) by (simp add: no_claims)
  moreover have "queue_ok d'"
  proof (cases "waitingFor j d")
    case Nil
    then show ?thesis using assms(1) ok(1) by (simp add: claimQueued_def)
  next
    case (Cons w ws)
    show ?thesis by (rule claim_head(1) [OF ok(1) assms(3) Cons ok(2) assms(1)])
  qed
  ultimately show ?thesis
    using ok(3) claim_reads [OF assms(4,5) ok(2) assms(1) ok(4)] by (simp add: readable_queue_def)
qed

lemma take_balance:
  assumes "claimQueued env j now d = Inr (found, d')" and "readable_queue env i d" and "isRoutineIdV1 j"
  shows "waitingFires i d = (if j = i then map rf_fireId (case found of None \<Rightarrow> [] | Some f \<Rightarrow> [f]) else []) @ waitingFires i d'"
proof (cases "waitingFor j d")
  case Nil
  then show ?thesis using assms(1) by (simp add: claimQueued_def)
next
  case (Cons w ws)
  have ok: "queue_ok d" "records_ok env d" "isRoutineIdV1 i" "readRoutine env d i \<noteq> None"
    using assms(2) by (simp_all add: readable_queue_def)
  note head = claim_head [OF ok(1) assms(3) Cons ok(2) assms(1)]
  show ?thesis
  proof (cases "j = i")
    case True
    have list: "waitingFires i d =
        (case queued (snd w) of None \<Rightarrow> [] | Some q \<Rightarrow> [routineFireIdV1 i (qf_discriminator q)]) @ waitingFires i d'"
      using head(2) unfolding True by (rule waitingFires_head)
    show ?thesis
    proof (cases found)
      case None
      then show ?thesis using list head(5) ok(4) True by simp
    next
      case (Some fire)
      then show ?thesis using list head(4) True by auto
    qed
  next
    case False
    then show ?thesis using head(3) [OF ok(3)] by (simp add: waitingFires_def)
  qed
qed

lemma ask_balance:
  assumes "enqueueWithin env now j trigger k delivery d = Inr ((fireId, fresh), d')"
    and "readable_queue env i d" and "isRoutineIdV1 j"
  shows "waitingFires i d' = waitingFires i d @ (if j = i \<and> fresh then [fireId] else [])"
proof (cases fresh)
  case True
  have ok: "queue_ok d" "isRoutineIdV1 i" using assms(2) by (simp_all add: readable_queue_def)
  have "enqueueWithin env now j trigger k delivery d = Inr ((fireId, True), d')" using assms(1) True by simp
  note appended = enqueue_appends [OF ok(1) assms(3) this]
  show ?thesis
  proof (cases "j = i")
    case True
    then show ?thesis using waitingFires_snoc appended(2,5) \<open>fresh\<close> by fastforce
  next
    case False
    then show ?thesis using appended(3) [OF ok(2)] by (simp add: waitingFires_def)
  qed
next
  case False
  then have "d' = d" using assms(1) by (auto simp: enqueueWithin_def Let_def rbind_Inr_iff split: if_splits)
  then show ?thesis using False by simp
qed

interpretation firings: served_queue
    "\<lambda>d. routine_env_ok env \<and> readable_queue env i d" "\<lambda>x. isRoutineIdV1 (stepRoutine x) \<and> in_time (stepTime x)"
    "waitingFires i" "queueStep env i" for env i
proof unfold_locales
  fix d x moved d'
  assume ok: "routine_env_ok env \<and> readable_queue env i d" "isRoutineIdV1 (stepRoutine x) \<and> in_time (stepTime x)"
    and step: "queueStep env i x d = (moved, d')"
  show "routine_env_ok env \<and> readable_queue env i d'"
    using step ok by (cases x) (auto split: sum.splits prod.splits dest: ask_keeps take_keeps)
next
  fix d x asked taken d'
  assume ok: "routine_env_ok env \<and> readable_queue env i d" "isRoutineIdV1 (stepRoutine x) \<and> in_time (stepTime x)"
    and step: "queueStep env i x d = ((asked, taken), d')"
  show "waitingFires i d @ asked = taken @ waitingFires i d'"
    using step ok by (cases x) (auto split: sum.splits prod.splits simp: ask_balance take_balance)
qed

end
