(* ===== verification/Routine_Properties.thy ===== *)
theory Routine_Properties
  imports Routine_Samples Routine_Order
begin

text \<open>
  What the Routines of a Bot guarantee: an occurrence fires once, lateness coalesces, a debt is kept, nothing that is owed
  is without a deadline, a settled firing leaves its row and frees its Routine, failures back off and end in a pause, the
  queue is first in first out, a command applies once and a delivery fires once. And where the code does not do what it
  means to.
\<close>

section \<open>Claiming\<close>

text \<open>C10: A scheduled occurrence is claimed at most once, whatever happens in between: in every reachable state of a Bot's
  Routines, through claims, settlements of any firing at any time, reaping, deferrals, edits, zone moves and deliveries, of
  two firings claimed for one Routine the later one has the later due time, and no firing is claimed before it is due.\<close>

theorem occurrences_claimed_once:
  assumes "routine_env_ok env" and "routine_reachable env m"
    and "i < j" and "j < length (rm_fires m)" and "rf_routineId (rm_fires m ! i) = rf_routineId (rm_fires m ! j)"
    and "rf_dueAt (rm_fires m ! i) = Some t" and "rf_dueAt (rm_fires m ! j) = Some u"
  shows "t < u \<and> u \<le> rm_now m"
proof -
  note claims = reachable_claims [OF assms(1,2)]
  have "later_claim (rm_fires m ! i) (rm_fires m ! j)"
    using claims assms(3,4) by (simp add: sorted_wrt_iff_nth_less)
  moreover have "occurrence_claimed (rm_fires m) (rf_routineId (rm_fires m ! j)) u"
    using assms(4,7) nth_mem unfolding occurrence_claimed_def by blast
  ultimately show ?thesis using claims assms(5-7) by (auto simp: later_claim_def clocks_ahead_def)
qed

theorem occurrences_claimed_once_witness: "(60000 :: int) < 120000 \<and> 120000 \<le> rm_now (minuteMachine minuteSecond 120000
    [minuteFire 60000, minuteFire 120000])"
  by (rule occurrences_claimed_once [OF minuteEnv_ok minute_two_claims, of 0 1]) simp_all

text \<open>C17: Lateness coalesces: claiming an occurrence, however late, moves the clock past this moment, so that what was slept
  through is one firing and not one per occurrence. The firing covers the missed ones, its id is the one of its due time, it is
  the lock of the Routine, and the count of failures is carried over.\<close>

theorem lateness_coalesces:
  assumes "routine_env_ok env" and "in_time now" and "records_ok env d" and "good_clock env [] d (r, s)"
    and "ss_dueAt s \<le> now" and "rr_schedule r = Some schedule"
    and "normalizeRoutineScheduleV1 (rv_calendar env) schedule timezone = Inr n"
    and "\<And>ms zone. n = Interval_Schedule ms zone \<Longrightarrow> on_grid ms (timeOf env (rr_updatedAt r)) (ss_dueAt s)"
    and "claimScheduled env r s now timezone d = Inr (Some fire, d')"
  shows "(\<exists>s'. storedClock env d' (rr_id r) = Some s' \<and> now < ss_dueAt s' \<and> ss_anchor s' = rr_updatedAt r \<and>
      ss_failures s' = ss_failures s) \<and>
    fire = scheduledFire env r s (missedRoutineRunsV1 (rv_calendar env) n (ss_dueAt s) now
      (timeOf env (rr_updatedAt r))) now \<and>
    lockOf d' (rr_id r) = Some (fireJson fire)"
  by (intro conjI claim_moves_clock [OF assms])

theorem lateness_coalesces_witness:
  "lockOf (minuteStore (Some (js (integerText 60000))) (Some (minuteClock 120000 None (Some 2))) (Some (minuteFire 60000))
      [(firstKey, minuteRow 60000 Status_Running None)]) ''r1'' = Some (fireJson (minuteFire 60000)) \<and>
    (60000 :: int) < 120000"
proof -
  have clock: "clock_ok (rv_parse minuteEnv) (minuteClock due None (Some 2))" if "due = 60000 \<or> due = 120000" for due
    using that by (intro minuteClock_ok) (auto simp: ROUTINE_HORIZON_def MAX_SAFE_INTEGER_def)
  let ?d = "minuteStore None (Some (minuteClock 60000 None (Some 2))) None []"
  have good: "good_clock minuteEnv [] ?d (minuteRoutine None, minuteClock 60000 None (Some 2))"
    using minuteStore_read(1) clock by (simp add: good_clock_def)
  have grid: "on_grid ms (timeOf minuteEnv (rr_updatedAt (minuteRoutine None))) (ss_dueAt (minuteClock 60000 None (Some 2)))"
    if "Interval_Schedule 60000 (js ''UTC'') = Interval_Schedule ms zone" for ms zone
    using that by (simp add: on_grid_def timeOf_def)
  have "normalizeRoutineScheduleV1 (rv_calendar minuteEnv) (js ''@every 1m'') (js ''UTC'') =
      Inr (Interval_Schedule 60000 (js ''UTC''))" using minute_normalized by (simp del: js_simps)
  note late = lateness_coalesces [OF minuteEnv_ok _ minuteStore_read(2) [OF minute_ran_times(1)] good _ minuteRoutine_simps(3) this grid minute_first_claim]
  have "in_time 60000" by (simp add: in_time_def ROUTINE_HORIZON_def)
  moreover have "ss_dueAt (minuteClock 60000 None (Some 2)) \<le> 60000" by simp
  ultimately have "lockOf (minuteStore (Some (js (integerText 60000))) (Some (minuteClock 120000 None (Some 2)))
      (Some (minuteFire 60000)) [(firstKey, minuteRow 60000 Status_Running None)]) (rr_id (minuteRoutine None)) =
      Some (fireJson (minuteFire 60000))"
    by (rule late [THEN conjunct2, THEN conjunct2])
  then show ?thesis unfolding minuteRoutine_simps(1) by simp
qed

text \<open>C18: A deferral keeps every debt and replaces the hold of every clock by fifteen seconds from now. The due time and the
  count of failures stay; a hold that was longer, the back-off of a Routine that keeps failing, is cut to fifteen seconds.\<close>

theorem deferral_replaces_hold:
  assumes "routine_env_ok env" and "in_time now" and "records_ok env d"
    and "(r, s) \<in> set (fst (clocks env timezone now d))"
  shows "\<exists>s'. storedClock env (defer_routines env timezone now d) (rr_id r) = Some s' \<and>
    ss_dueAt s' = ss_dueAt s \<and> ss_failures s' = ss_failures s \<and>
    routineDeadlineV1 s' = max (ss_dueAt s) (now + 15000)"
proof -
  obtain cs d1 where "clocks env timezone now d = (cs, d1)" by fastforce
  with deferral_writes [OF assms(1-3) this] assms(4) show ?thesis
    by (auto simp: routineDeadlineV1_def ROUTINE_DEFERRAL_MS_def)
qed

theorem deferral_replaces_hold_witness:
  "\<exists>s'. storedClock minuteEnv (defer_routines minuteEnv (js ''UTC'') 130000
      (minuteStore None (Some (minuteClock 120000 (Some 1930000) (Some 4))) None [])) ''r1'' = Some s' \<and>
    ss_failures s' = Some 4 \<and> routineDeadlineV1 (minuteClock 120000 (Some 1930000) (Some 4)) = 1930000 \<and>
    routineDeadlineV1 s' = 145000"
proof -
  let ?d = "minuteStore None (Some (minuteClock 120000 (Some 1930000) (Some 4))) None []"
  have "clocks minuteEnv (js ''UTC'') 130000 ?d = ([(minuteRoutine None, minuteNext (Some (minuteClock 120000 (Some 1930000) (Some 4))))], ?d)"
    by (intro minute_clocks [where due = 120000 and hold = "Some 1930000" and failures = "Some 4"])
      (auto intro!: minuteClock_ok simp: epoch_ok_def MAX_SAFE_INTEGER_def ROUTINE_HORIZON_def)
  then have "(minuteRoutine None, minuteClock 120000 (Some 1930000) (Some 4)) \<in> set (fst (clocks minuteEnv (js ''UTC'') 130000 ?d))"
    by (simp add: minuteNext_def)
  from deferral_replaces_hold [OF minuteEnv_ok _ minuteStore_read(2) this] show ?thesis
    by (auto simp: in_time_def ROUTINE_HORIZON_def routineDeadlineV1_def)
qed

text \<open>C11: No Routine goes silent: every Routine that is on, scheduled and readable, and whose schedule is in force,
  contributes a deadline to the alarm: its own when it is free; now when it is locked by a firing whose Turn has settled; the end of
  the lock's lease, or of its hold, otherwise. And a free Routine with a firing waiting is due now.\<close>

theorem every_routine_has_a_deadline:
  assumes "records_ok env d" and "length (rs_routines d) \<le> ROUTINE_LIMIT_PER_BOT"
    and "readRoutine env d i = Some r" and "rr_enabled r" and "rr_schedule r = Some schedule"
    and "normalizeRoutineScheduleV1 (rv_calendar env) schedule timezone = Inr n"
    and "deadlines env firingRun timezone now d = (ds, d')"
  shows "(\<exists>s t. (r, s) \<in> set (fst (clocks env timezone now d)) \<and> t \<in> set ds \<and>
      t = (case lockOf d i of
             None \<Rightarrow> routineDeadlineV1 s
           | Some v \<Rightarrow> if settledRun env firingRun v \<noteq> None then now
                       else max (leaseExpiry env v) (case ss_deferredUntil s of None \<Rightarrow> 0 | Some h \<Rightarrow> h))) \<and>
    (\<forall>j \<in> set (queuedRoutineIds d). lockOf d j = None \<longrightarrow> now \<in> set ds)"
proof -
  obtain cs d1 where clocks: "clocks env timezone now d = (cs, d1)" by fastforce
  obtain s where s: "(r, s) \<in> set cs" using clocks_member [OF assms(1) clocks assms(2-6)] by blast
  have ds: "ds = map (clockDeadline env firingRun now d1) cs @
      map (\<lambda>j. now) (filter (\<lambda>j. lockOf d1 j = None) (queuedRoutineIds d1))"
    using assms(7) unfolding deadlines_def clocks by auto
  have same: "lockOf d1 = lockOf d" and queue: "queuedRoutineIds d1 = queuedRoutineIds d"
    using clocks_locks [OF clocks] clocks_queue [OF clocks] by (simp_all add: queuedRoutineIds_def)
  have "rr_id r = i" using records_at(1) [OF assms(1,3)] .
  then have "clockDeadline env firingRun now d1 (r, s) = (case lockOf d i of
             None \<Rightarrow> routineDeadlineV1 s
           | Some v \<Rightarrow> if settledRun env firingRun v \<noteq> None then now
                       else max (leaseExpiry env v) (case ss_deferredUntil s of None \<Rightarrow> 0 | Some h \<Rightarrow> h))"
    by (simp add: clockDeadline_def same split: option.split)
  moreover have "clockDeadline env firingRun now d1 (r, s) \<in> set ds" using s ds by auto
  ultimately show ?thesis using s clocks ds same queue by auto
qed

theorem every_routine_has_a_deadline_witness:
  "fst (deadlines minuteEnv (\<lambda>fire. No_Run) (js ''UTC'') 70000 (minuteStore None (Some (minuteClock 120000 None None)) None []))
    \<noteq> []"
proof -
  let ?d = "minuteStore None (Some (minuteClock 120000 None None)) None []"
  obtain ds d' where ds: "deadlines minuteEnv (\<lambda>fire. No_Run) (js ''UTC'') 70000 ?d = (ds, d')" by fastforce
  have "readRoutine minuteEnv ?d ''r1'' = Some (minuteRoutine None)" by (simp add: minuteStore_read)
  moreover have "normalizeRoutineScheduleV1 (rv_calendar minuteEnv) (js ''@every 1m'') (js ''UTC'') =
      Inr (Interval_Schedule 60000 (js ''UTC''))" using minute_normalized by (simp del: js_simps)
  moreover have "length (rs_routines ?d) \<le> ROUTINE_LIMIT_PER_BOT" by (simp add: ROUTINE_LIMIT_PER_BOT_def)
  ultimately have "\<exists>s t. t \<in> set ds \<and> (minuteRoutine None, s) \<in> set (fst (clocks minuteEnv (js ''UTC'') 70000 ?d))"
    using every_routine_has_a_deadline [OF minuteStore_read(2) [OF minute_ran_times(1)] _ _ minuteRoutine_simps(2,3) _ ds]
    by blast
  with ds show ?thesis by auto
qed

section \<open>Nothing is forgotten\<close>

lemma queueOwner_key:
  assumes "isRoutineIdV1 i"
  shows "queueOwner (ROUTINE_QUEUE_PREFIX @ i @ '':'' @ padStart w (decimal n)) = Some i"
proof -
  have "CHR '':'' \<notin> set (padStart w (decimal n))"
    using decimal_digits [of "CHR '':''" n] by (auto simp: padStart_def)
  then have "dropWhile (\<lambda>c. c \<noteq> CHR '':'') (rev (padStart w (decimal n)) @ CHR '':'' # rev i) = CHR '':'' # rev i"
    by (subst dropWhile_append2) auto
  moreover have "i \<noteq> []" using assms by (auto simp: isRoutineIdV1_def)
  ultimately show ?thesis by (simp add: queueOwner_def)
qed

lemma queuedRoutineIds_iff:
  assumes "queue_ok d"
  shows "i \<in> set (queuedRoutineIds d) \<longleftrightarrow> isRoutineIdV1 i \<and> waiting_list i d \<noteq> []"
    and "distinct (queuedRoutineIds d)"
proof -
  have key: "\<exists>j n. isRoutineIdV1 j \<and> fst e = ROUTINE_QUEUE_PREFIX @ j @ '':'' @ padStart 10 (decimal n)"
    if "e \<in> set (rs_queue d)" for e
    using assms that by (fastforce simp: queue_ok_def queueKey_Inr)
  show "i \<in> set (queuedRoutineIds d) \<longleftrightarrow> isRoutineIdV1 i \<and> waiting_list i d \<noteq> []"
  proof
    assume "i \<in> set (queuedRoutineIds d)"
    then obtain e where e: "e \<in> set (rs_queue d)" "queueOwner (fst e) = Some i"
      by (auto simp: queuedRoutineIds_def List.map_filter_def)
    with key obtain n where "isRoutineIdV1 i" "fst e = ROUTINE_QUEUE_PREFIX @ i @ '':'' @ padStart 10 (decimal n)"
      using queueOwner_key by fastforce
    with e(1) show "isRoutineIdV1 i \<and> waiting_list i d \<noteq> []"
      by (auto simp: waiting_list_def waitingFor_def listPrefix_def routineQueuePrefixV1_def filter_empty_conv
          split: prod.splits intro!: bexI [of _ e])
  next
    assume i: "isRoutineIdV1 i \<and> waiting_list i d \<noteq> []"
    then obtain e where e: "e \<in> set (waitingFor i d)" by (cases "waitingFor i d") (auto simp: waiting_list_def)
    obtain n where "fst e = ROUTINE_QUEUE_PREFIX @ i @ '':'' @ padStart 10 (decimal n)"
      using waiting_key [OF assms _ e] i by blast
    moreover have "e \<in> set (rs_queue d)" using e by (auto simp: waitingFor_def listPrefix_def)
    ultimately show "i \<in> set (queuedRoutineIds d)"
      using queueOwner_key [of i 10 n] i
      by (auto simp: queuedRoutineIds_def List.map_filter_def intro!: image_eqI [of _ _ e] split: prod.splits)
  qed
  show "distinct (queuedRoutineIds d)" by (simp add: queuedRoutineIds_def)
qed

lemma clocks_same:
  assumes "rs_routines d' = rs_routines d" and "rs_schedules d' = rs_schedules d"
  shows "fst (clocks env timezone now d') = fst (clocks env timezone now d)"
proof -
  have "rs_schedules e' = rs_schedules e \<Longrightarrow>
      fst (clocksFrom env timezone now recs e') = fst (clocksFrom env timezone now recs e)" for recs e e'
  proof (induction recs arbitrary: e e')
    case (Cons rec recs)
    have "clockOf env timezone now v e' = clockOf env timezone now v e" for v
      by (simp only: clockOf_def Cons.prems)
    moreover have "fst (clocksFrom env timezone now recs (putClock i s e')) =
        fst (clocksFrom env timezone now recs (putClock i s e))" for i s
      by (rule Cons.IH) (simp add: putClock_def Cons.prems)
    ultimately show ?case using Cons.IH [OF Cons.prems]
      by (cases rec) (simp add: Let_def case_prod_beta split: option.split)
  qed simp
  from this [OF assms(2)] show ?thesis unfolding clocks_def assms(1) .
qed

text \<open>C12: A claim that answers nothing accounts for everything that is owed. It locks nothing; of each free Routine's queue it took
  the head and no more, and that head could not be read, or its Routine cannot; the queues of locked Routines are as they were.
  What waits behind a head it dropped waits on, in order, and makes the alarm due now as long as its Routine is free. And every
  Routine with a clock (on, scheduled and readable) is locked by a firing or not due yet, or one of them was turned off, which a
  claim does to a due Routine whose schedule never comes around again.\<close>

theorem idle_claim_accounts_for_debts:
  assumes "routine_env_ok env" and "in_time now" and "records_ok env d" and "queue_ok d"
    and "claim env timezone now d = Inr (None, d')"
  shows "lockOf d' = lockOf d \<and>
    (\<forall>i. isRoutineIdV1 i \<longrightarrow>
      waiting_list i d' = (if lockOf d i = None then tl (waiting_list i d) else waiting_list i d) \<and>
      (lockOf d i = None \<and> waiting_list i d \<noteq> [] \<longrightarrow> hd (waiting_list i d) = None \<or> readRoutine env d i = None)) \<and>
    (\<forall>firingRun zone ds d2 i. deadlines env firingRun zone now d' = (ds, d2) \<and>
      isRoutineIdV1 i \<and> lockOf d i = None \<and> waiting_list i d' \<noteq> [] \<longrightarrow> now \<in> set ds) \<and>
    ((\<forall>(r, s) \<in> set (fst (clocks env timezone now d)). lockOf d (rr_id r) \<noteq> None \<or> now < routineDeadlineV1 s) \<or>
     (\<exists>(r, s) \<in> set (fst (clocks env timezone now d)). \<exists>r'. readRoutine env d' (rr_id r) = Some r' \<and> \<not> rr_enabled r'))"
proof -
  obtain d1 where queues: "claimFromQueues env now (queuedRoutineIds d) d = Inr (None, d1)"
    and rest: "(case clocks env timezone now d1 of (cs, d2) \<Rightarrow> claimFromClocks env now timezone cs d2) = Inr (None, d')"
    using assms(5) by (auto simp: claim_def rbind_Inr_iff split: if_splits prod.splits)
  obtain cs d2 where clocks: "clocks env timezone now d1 = (cs, d2)" by fastforce
  have claim: "claimFromClocks env now timezone cs d2 = Inr (None, d')" using rest clocks by simp
  obtain q where d1: "d1 = d\<lparr>rs_queue := q\<rparr>" and ok: "records_ok env d1" "queue_ok d1"
    and served: "served_none (queuedRoutineIds d) d d1"
    and heads: "\<forall>i \<in> set (queuedRoutineIds d). lockOf d i = None \<and> waiting_list i d \<noteq> [] \<longrightarrow>
      readRoutine env d i = None \<or> hd (waiting_list i d) = None"
    using idle_queues [OF assms(3,4) _ _ queues] queuedRoutineIds_iff [OF assms(4)] by auto
  have lock1: "lockOf d1 = lockOf d" by (simp add: d1 lockOf_def fun_eq_iff)
  have lock2: "lockOf d2 = lockOf d" using clocks_locks [OF clocks] lock1 by simp
  have lock: "lockOf d' = lockOf d" using idle_clocks_frame(2) [OF claim] lock2 by simp
  have queue: "rs_queue d' = rs_queue d1" using idle_clocks_frame(1) [OF claim] clocks_queue [OF clocks] by simp
  have waiting: "waiting_list i d' = (if lockOf d i = None then tl (waiting_list i d) else waiting_list i d)"
    if "isRoutineIdV1 i" for i
    using served that queuedRoutineIds_iff(1) [OF assms(4), of i] unfolding queue_reads(1) [OF queue] served_none_def by auto
  have head: "hd (waiting_list i d) = None \<or> readRoutine env d i = None"
    if "isRoutineIdV1 i" "lockOf d i = None" "waiting_list i d \<noteq> []" for i
  proof -
    have "i \<in> set (queuedRoutineIds d)" using that queuedRoutineIds_iff(1) [OF assms(4), of i] by simp
    from bspec [OF heads this] show ?thesis using that(2,3) by auto
  qed
  have due: "now \<in> set ds" if "deadlines env firingRun zone now d' = (ds, d3)" "isRoutineIdV1 i" "lockOf d i = None"
    "waiting_list i d' \<noteq> []" for firingRun zone ds d3 i
    using free_queue_is_due [OF that(1), of i] that(2-4) queuedRoutineIds_iff(1) [of d' i] ok(2) queue_reads(2) [OF queue] lock
    by simp
  have cs: "fst (clocks env timezone now d) = cs" using clocks_same [of d1 d env timezone now] d1 clocks by simp
  have "clocks_ahead env now [] d1" using ok by (simp add: no_claims)
  then have "\<forall>c \<in> set cs. good_clock env [] d2 c" using clocks_good(3) [OF assms(1,2) _ clocks] by blast
  then have "(\<forall>c \<in> set cs. lockOf d2 (rr_id (fst c)) \<noteq> None \<or> now < routineDeadlineV1 (snd c)) \<or>
      (\<exists>c \<in> set cs. \<exists>r. readRoutine env d' (rr_id (fst c)) = Some r \<and> \<not> rr_enabled r)"
    using claim by (rule idle_clocks [OF assms(1,2)])
  then show ?thesis unfolding cs case_prod_beta using lock lock2 waiting due head by (auto 0 3)
qed

text \<open>An unreadable request in front of a readable one: the claim drops the first, answers nothing, and the second waits.\<close>

definition junkKey :: string where "junkKey = minuteWaitingKey"
definition behindKey :: string where "behindKey = ROUTINE_QUEUE_PREFIX @ ''r1'' @ '':'' @ padStart 10 (decimal 1)"

definition junkStore :: routine_store where
  "junkStore = (minuteStore None (Some (minuteClock 120000 None None)) None [])\<lparr>rs_queue :=
     [(junkKey, JNull), (behindKey, queuedJson minuteWaiting)]\<rparr>"

lemma junk_queue:
  shows "queue_ok junkStore" and "waitingFor ''r1'' junkStore = [(junkKey, JNull), (behindKey, queuedJson minuteWaiting)]"
proof -
  have behind: "routineQueueKeyV1 ''r1'' 1 = Inr behindKey"
    by (simp add: queueKey_Inr behindKey_def RUN_SEQUENCE_CEILING_def)
  have "junkKey < behindKey" using padded_less [of 0 1] by (simp add: junkKey_def minuteWaitingKey_def behindKey_def ROUTINE_QUEUE_PREFIX_def)
  moreover have "isRoutineIdV1 ''r1''" by (rule minute_texts(5))
  ultimately show "queue_ok junkStore" using minute_waiting(1) behind
    by (auto simp: queue_ok_def kv_sorted_def junkStore_def junkKey_def)
  have "take (length (routineQueuePrefixV1 ''r1'')) behindKey = routineQueuePrefixV1 ''r1''"
    by (simp add: behindKey_def routineQueuePrefixV1_def)
  then show "waitingFor ''r1'' junkStore = [(junkKey, JNull), (behindKey, queuedJson minuteWaiting)]"
    by (simp add: waitingFor_def junkStore_def junkKey_def minute_waiting(2))
qed

lemma junk_claim: "\<exists>d'. claim minuteEnv (js ''UTC'') 70000 junkStore = Inr (None, d')"
proof -
  let ?d = "minuteStore None (Some (minuteClock 120000 None None)) None []"
  let ?d1 = "junkStore\<lparr>rs_queue := [(behindKey, queuedJson minuteWaiting)]\<rparr>"
  have "junkKey \<noteq> behindKey" using padded_less [of 0 1] by (auto simp: junkKey_def minuteWaitingKey_def behindKey_def)
  then have one: "claimQueued minuteEnv ''r1'' 70000 junkStore = Inr (None, ?d1)"
    using junk_queue(2) by (simp add: claimQueued_def junkStore_def kv_delete_def queued_def textField_def)
  have ids: "queuedRoutineIds junkStore = [''r1'']"
    using queueOwner_key [OF minute_texts(5), of 10] by (simp add: queuedRoutineIds_def junkStore_def junkKey_def
        minuteWaitingKey_def behindKey_def List.map_filter_def)
  have "clocks minuteEnv (js ''UTC'') 70000 ?d = ([(minuteRoutine None, minuteClock 120000 None None)], ?d)"
    using minute_clocks [of None "Some (minuteClock 120000 None None)" 120000 None None 70000 None "[]"]
    by (simp add: minuteNext_def minuteClock_ok ROUTINE_HORIZON_def del: js_simps)
  then have "fst (clocks minuteEnv (js ''UTC'') 70000 ?d1) = [(minuteRoutine None, minuteClock 120000 None None)]"
    using clocks_same [of ?d1 ?d] by (simp add: junkStore_def)
  then obtain d2 where "clocks minuteEnv (js ''UTC'') 70000 ?d1 = ([(minuteRoutine None, minuteClock 120000 None None)], d2)"
    by (metis prod.collapse)
  moreover have "lockOf junkStore ''r1'' = None" by (simp add: junkStore_def lockOf_def minuteStore_def emptyRoutineStore_def)
  ultimately show ?thesis using one ids by (simp add: claim_def routineDeadlineV1_def minuteClock_def del: js_simps)
qed

theorem idle_claim_accounts_for_debts_witness:
  "\<exists>d'. claim minuteEnv (js ''UTC'') 70000 junkStore = Inr (None, d') \<and>
    waiting_list ''r1'' junkStore = [None, Some minuteWaiting] \<and> waiting_list ''r1'' d' = [Some minuteWaiting] \<and>
    70000 \<in> set (fst (deadlines minuteEnv (\<lambda>fire. No_Run) (js ''UTC'') 70000 d'))"
proof -
  obtain d' where d': "claim minuteEnv (js ''UTC'') 70000 junkStore = Inr (None, d')" using junk_claim by blast
  obtain ds d2 where ds: "deadlines minuteEnv (\<lambda>fire. No_Run) (js ''UTC'') 70000 d' = (ds, d2)" by fastforce
  have waiting: "waiting_list ''r1'' junkStore = [None, Some minuteWaiting]"
    by (simp add: waiting_list_def junk_queue(2)) (simp add: queued_def textField_def)
  have free: "lockOf junkStore ''r1'' = None" by (simp add: junkStore_def lockOf_def minuteStore_def emptyRoutineStore_def)
  have "records_ok minuteEnv (minuteStore None (Some (minuteClock 120000 None None)) None [])" by (simp add: minuteStore_read)
  then have records: "records_ok minuteEnv junkStore" by (simp add: records_ok_def junkStore_def)
  have "in_time 70000" by (simp add: in_time_def ROUTINE_HORIZON_def)
  note all = idle_claim_accounts_for_debts [OF minuteEnv_ok this records junk_queue(1) d']
  then have "waiting_list ''r1'' d' = [Some minuteWaiting]" using waiting free minute_texts(5) by simp
  moreover from this have "waiting_list ''r1'' d' \<noteq> []" by simp
  then have "70000 \<in> set ds" using all ds free minute_texts(5) by metis
  ultimately show ?thesis using d' ds waiting by simp
qed

section \<open>Queue and run log\<close>

text \<open>C24: The firings asked for of one Routine are a queue: a new one waits behind those that wait already and in front of none, at
  most eight wait, the queues of other Routines are as they were, the answer is the id the firing will have, and asking again
  for the same thing, at any time and with any delivery, changes nothing and answers the same id.\<close>

theorem firings_wait_in_order:
  assumes "queue_ok d" and "isRoutineIdV1 i"
    and "enqueueWithin env now i trigger k delivery d = Inr ((fireId, True), d')"
  shows "queue_ok d' \<and> waiting_list i d' = waiting_list i d @ [Some \<lparr>qf_trigger = js (triggerName trigger),
      qf_discriminator = k, qf_requestedAt = rv_iso env now, qf_delivery = delivery\<rparr>] \<and>
    length (waiting_list i d') \<le> ROUTINE_QUEUE_LIMIT \<and> fireId = routineFireIdV1 i k \<and>
    (\<forall>j. isRoutineIdV1 j \<and> j \<noteq> i \<longrightarrow> waiting_list j d' = waiting_list j d) \<and>
    (\<forall>now' trigger' delivery'. enqueueWithin env now' i trigger' k delivery' d' = Inr ((fireId, False), d'))"
  using enqueue_appends [OF assms] enqueue_again [OF assms(3,1,2)] by blast

theorem firings_wait_in_order_witness:
  "\<exists>d'. enqueueWithin minuteEnv 0 ''r1'' Manual (js ''m'') None (minuteStore None None None []) =
      Inr ((routineFireIdV1 ''r1'' (js ''m''), True), d') \<and>
    map_option qf_discriminator (hd (waiting_list ''r1'' d')) = Some (js ''m'') \<and>
    enqueueWithin minuteEnv 5 ''r1'' Manual (js ''m'') None d' = Inr ((routineFireIdV1 ''r1'' (js ''m''), False), d')"
proof -
  let ?d = "minuteStore None None None []"
  have ok: "queue_ok ?d" by (simp add: queue_ok_def kv_sorted_def)
  have empty: "waitingFor ''r1'' ?d = []" by (simp add: waitingFor_def)
  obtain key where "routineQueueKeyV1 ''r1'' (nextQueueSequenceV1 []) = Inr key"
    by (simp add: nextQueueSequenceV1_def queueKey_Inr RUN_SEQUENCE_CEILING_def)
  then obtain d' where d': "enqueueWithin minuteEnv 0 ''r1'' Manual (js ''m'') None ?d =
      Inr ((routineFireIdV1 ''r1'' (js ''m''), True), d')"
    using empty by (simp add: enqueueWithin_def ROUTINE_QUEUE_LIMIT_def del: js_simps)
  from firings_wait_in_order [OF ok minute_texts(5) this] d' empty show ?thesis
    by (auto simp: waiting_list_def simp del: js_simps)
qed

text \<open>C25: The queue is served oldest first: claiming takes the entry that has waited longest and leaves the rest in order, the
  firing carries the delivery it was asked with and the words the Routine has now, and it is the lock of its Routine. An entry is dropped
  without a firing only when it cannot be read or its Routine cannot.\<close>

theorem queue_served_oldest_first:
  assumes "queue_ok d" and "isRoutineIdV1 i" and "waitingFor i d = w # ws" and "records_ok env d"
    and "claimQueued env i now d = Inr (found, d')"
  shows "queue_ok d' \<and> waiting_list i d = queued (snd w) # waiting_list i d' \<and>
    (\<forall>j. isRoutineIdV1 j \<and> j \<noteq> i \<longrightarrow> waiting_list j d' = waiting_list j d) \<and>
    (case found of
       None \<Rightarrow> queued (snd w) = None \<or> readRoutine env d i = None
     | Some fire \<Rightarrow> \<exists>q r trigger. queued (snd w) = Some q \<and> readRoutine env d i = Some r \<and>
         named ROUTINE_TRIGGER_KINDS (Some (JStr (qf_trigger q))) = Some trigger \<and>
         rf_fireId fire = routineFireIdV1 i (qf_discriminator q) \<and>
         rf_cue fire = routineCueV1 (rr_name r) (rr_prompt r) trigger None (qf_delivery q) \<and>
         lockOf d' i = Some (fireJson fire))"
proof (cases found)
  case None
  then show ?thesis using claim_head [OF assms] by auto
next
  case (Some fire)
  then show ?thesis using claim_head [OF assms] by simp
qed

theorem queue_served_oldest_first_witness:
  "\<exists>fire d'. claimQueued minuteEnv ''r1'' 5 ((minuteStore None None None [])\<lparr>rs_queue := [(minuteWaitingKey,
      queuedJson minuteWaiting)]\<rparr>) = Inr (Some fire, d') \<and> rf_fireId fire = routineFireIdV1 ''r1'' (js ''m'') \<and>
    waiting_list ''r1'' d' = [] \<and> lockOf d' ''r1'' = Some (fireJson fire)"
proof -
  let ?d = "(minuteStore None None None [])\<lparr>rs_queue := [(minuteWaitingKey, queuedJson minuteWaiting)]\<rparr>"
  have ok: "queue_ok ?d"
    using minute_texts(5) minute_waiting(1) by (auto simp: queue_ok_def kv_sorted_def)
  have waiting: "waitingFor ''r1'' ?d = (minuteWaitingKey, queuedJson minuteWaiting) # []"
    by (simp add: waitingFor_def minute_waiting(2))
  have "records_ok minuteEnv (minuteStore None None None [])" by (simp add: minuteStore_read)
  then have records: "records_ok minuteEnv ?d" by (simp add: records_ok_def)
  obtain fire d' where claimed: "claimQueued minuteEnv ''r1'' 5 ?d = Inr (Some fire, d')"
    using minute_claimQueued by blast
  from queue_served_oldest_first [OF ok minute_texts(5) waiting records claimed] claimed waiting show ?thesis
    by (auto simp: waiting_list_def minuteWaiting_def simp del: js_simps)
qed

text \<open>However the firings of all Routines are asked for and claimed, in any order and with requests that throw or repeat in
  between, the firings of a Routine that can be read start in the order they were asked for, each once: those claimed are the
  first of those that waited and were asked for, and those that wait are the rest.\<close>

theorem firings_served_in_order:
  assumes "routine_env_ok env" and "readable_queue env i d"
    and "\<forall>x \<in> set steps. isRoutineIdV1 (stepRoutine x) \<and> in_time (stepTime x)"
    and "serve (queueStep env i) steps d = ((asked, taken), d')"
  shows "readable_queue env i d' \<and> taken = take (length taken) (waitingFires i d @ asked) \<and>
    waitingFires i d' = drop (length taken) (waitingFires i d @ asked)"
  using firings.serve_balance(1) [of env i d steps] firings.serve_in_order [of env i d steps] assms by simp

theorem firings_served_in_order_witness:
  "\<exists>d'. serve (queueStep minuteEnv ''r1'') [Ask ''r1'' Manual (js ''m'') None 0, Take ''r1'' 5] (minuteStore None None None []) =
      (([routineFireIdV1 ''r1'' (js ''m'')], [routineFireIdV1 ''r1'' (js ''m'')]), d') \<and> waitingFires ''r1'' d' = []"
proof -
  let ?d = "minuteStore None None None []" and ?f = "routineFireIdV1 ''r1'' (js ''m'')"
  have empty: "waitingFor ''r1'' ?d = []" "waitingFires ''r1'' ?d = []"
    by (simp_all add: waitingFor_def waitingFires_def waiting_list_def List.map_filter_def)
  have "routineQueueKeyV1 ''r1'' (nextQueueSequenceV1 []) = Inr minuteWaitingKey"
    by (simp add: nextQueueSequenceV1_def queueKey_Inr RUN_SEQUENCE_CEILING_def minuteWaitingKey_def)
  then have ask: "enqueueWithin minuteEnv 0 ''r1'' Manual (js ''m'') None ?d =
      Inr ((?f, True), ?d\<lparr>rs_queue := [(minuteWaitingKey, queuedJson minuteWaiting)]\<rparr>)"
    using empty(1) by (simp add: enqueueWithin_def ROUTINE_QUEUE_LIMIT_def minuteWaiting_def triggerName_def
        del: js_simps)
  obtain fire d' where claim: "claimQueued minuteEnv ''r1'' 5 (?d\<lparr>rs_queue := [(minuteWaitingKey,
      queuedJson minuteWaiting)]\<rparr>) = Inr (Some fire, d')" using minute_claimQueued by blast
  have run: "serve (queueStep minuteEnv ''r1'') [Ask ''r1'' Manual (js ''m'') None 0, Take ''r1'' 5] ?d =
      (([?f], [rf_fireId fire]), d')"
    using ask claim by (simp del: js_simps)
  have "readable_queue minuteEnv ''r1'' ?d"
    using minute_texts(5) minuteStore_read by (simp add: readable_queue_def queue_ok_def kv_sorted_def)
  from firings_served_in_order [OF minuteEnv_ok this _ run] minute_texts(5) empty(2) run show ?thesis
    by (auto simp: in_time_def ROUTINE_HORIZON_def simp del: js_simps)
qed

text \<open>C26: The run log of a Routine is its newest fifty entries, one per firing: a new entry goes in front and the oldest beyond
  fifty go, an entry whose id is there already is rewritten in its place, the logs of other Routines stay, and what is kept is
  readable and has distinct ids.\<close>

theorem run_log_newest_first:
  assumes "log_ok env d" and "appendRoutineRunEntryV1 env e d = Inr d'"
  shows "log_ok env d' \<and> (\<exists>row. decodeRoutineRunEntryV1 (rv_parse env) (routineEntryJson e) = Inr row \<and>
    log_rows env (re_routineId row) d' = appended row (log_rows env (re_routineId row) d) \<and>
    (\<forall>j. isRoutineIdV1 j \<and> j \<noteq> re_routineId row \<longrightarrow> log_rows env j d' = log_rows env j d))"
  using append_rows [OF assms] by metis

theorem run_log_newest_first_witness:
  "log_rows minuteEnv ''r1'' (minuteStore None None None [(firstKey, minuteRow 60000 Status_Running None)]) =
    [minuteRow 60000 Status_Running None]"
proof -
  have row: "routine_entry_ok (rv_parse minuteEnv) (minuteRow 60000 Status_Running None)" by (intro minuteRow_ok) simp_all
  have id: "re_routineId (minuteRow 60000 Status_Running None) = ''r1''" by (simp add: minuteRow_def)
  have empty: "log_rows minuteEnv ''r1'' (minuteStore None None None []) = []" by (simp add: log_rows_def)
  have "log_ok minuteEnv (minuteStore None None None [])" by (simp add: log_ok_def log_rows_def kv_sorted_def)
  from run_log_newest_first [OF this minute_append_first [OF row id]] entry_round_trip [OF row] id empty show ?thesis
    by (simp add: appended_def ROUTINE_RUN_LOG_LIMIT_def)
qed

section \<open>Settling\<close>

text \<open>C20: A settled firing frees its Routine and leaves a row: its lock is gone and no other, the log is still well formed, and the
  row of the firing says how it ended, when, and the first two thousand units of what it said.\<close>

theorem settled_firing_leaves_row:
  assumes "settleFiring env fire outcome now d = Inr d'" and "recordAt d (rf_routineId fire) \<noteq> None"
    and "log_ok env d" and "fire_ok dp fire"
  shows "lockOf d' j = (if j = rf_routineId fire then None else lockOf d j) \<and> log_ok env d' \<and>
    (\<exists>e \<in> set (log_rows env (rf_routineId fire) d'). re_entryId e = rf_entryId fire \<and>
      re_status e = settledStatus (fo_status outcome) \<and> re_finishedAt e = Some (rv_iso env now) \<and>
      re_summary e = map_option (\<lambda>s. trim (slice0 s 2000)) (fo_summary outcome))"
  using settle_locks [OF assms(1)] settle_row [OF assms] by blast

theorem settled_firing_leaves_row_witness:
  "\<exists>e \<in> set (log_rows minuteEnv ''r1'' (minuteStore None (Some (minuteClock 120000 None None)) None
      [(firstKey, minuteRow 60000 Status_Ok (Some 61000))])). re_status e = Status_Ok"
proof -
  have "fire_ok (rv_parse minuteEnv) (minuteFire 60000)" by (rule minuteFire_ok) (simp_all add: ROUTINE_HORIZON_def)
  from settled_firing_leaves_row [OF minute_settle _ minute_log_ok this] show ?thesis
    by (auto simp: quietOutcome_def settledStatus_def)
qed

text \<open>Nothing outlives a deleted Routine: settling a firing whose record is gone always succeeds and leaves no lock, no clock and
  no row of its log.\<close>

theorem nothing_outlives_deleted_routine:
  assumes "recordAt d (rf_routineId fire) = None"
  shows "\<exists>d'. settleFiring env fire outcome now d = Inr d' \<and> lockOf d' (rf_routineId fire) = None \<and>
    clockAt d' (rf_routineId fire) = None \<and>
    listPrefix (routineRunPrefixV1 (rf_routineId fire)) (rs_runs d') = []"
proof -
  from settle_deleted [OF assms] obtain d' where d': "settleFiring env fire outcome now d = Inr d'"
    and clean: "d' = sweepOrphans (rf_routineId fire)
      (d\<lparr>rs_fires := kv_delete (routineFireKeyV1 (rf_routineId fire)) (rs_fires d)\<rparr>)" by blast
  moreover have "lockOf d' (rf_routineId fire) = None" using settle_locks [OF d'] by simp
  ultimately show ?thesis using clean swept by auto
qed

theorem nothing_outlives_deleted_routine_witness:
  "\<exists>d'. settleFiring minuteEnv (minuteFire 60000) failedOutcome 61000 emptyRoutineStore = Inr d' \<and>
    lockOf d' ''r1'' = None"
  using nothing_outlives_deleted_routine [of emptyRoutineStore "minuteFire 60000" minuteEnv failedOutcome 61000]
  by (auto simp: recordAt_def emptyRoutineStore_def)

text \<open>C19: A firing that failed or was stopped counts and pushes the next one back: the count of failures goes up by one, the due
  time stays, the Routine is not due before the back-off of its count is over, which is between half a minute and half an
  hour, and at the fifth failure in a row a readable Routine is turned off.\<close>

theorem failures_back_off_and_turn_off:
  assumes "routine_env_ok env" and "in_time now" and "failures_below MAX_SAFE_INTEGER env d"
    and "settleFiring env fire outcome now d = Inr d'" and "readRoutine env d (rf_routineId fire) = Some r"
    and "storedClock env d (rf_routineId fire) = Some s"
    and "fo_status outcome = Fire_Failed \<or> fo_status outcome = Fire_Cancelled"
  shows "(\<exists>s'. storedClock env d' (rf_routineId fire) = Some s' \<and> ss_dueAt s' = ss_dueAt s \<and>
      failureCount s' = Suc (failureCount s) \<and>
      now + backoffAfter (Suc (failureCount s)) \<le> routineDeadlineV1 s' \<and>
      30000 \<le> backoffAfter (Suc (failureCount s)) \<and> backoffAfter (Suc (failureCount s)) \<le> 1800000) \<and>
    (ROUTINE_FAILURE_PAUSE_AFTER \<le> Suc (failureCount s) \<longrightarrow>
      (\<exists>r'. readRoutine env d' (rf_routineId fire) = Some r' \<and> \<not> rr_enabled r'))"
proof -
  have "recordAt d (rf_routineId fire) \<noteq> None" using assms(5) by (auto simp: readRoutine_Some)
  then have "storedClock env d' (rf_routineId fire) = Some (settledClock outcome now s)"
    using settle_stored [OF assms(2-4)] assms(6) by simp
  moreover have "30000 \<le> backoffAfter (Suc (failureCount s)) \<and> backoffAfter (Suc (failureCount s)) \<le> 1800000"
    by (rule backoff_bounds) simp
  ultimately show ?thesis
    using assms(7) fifth_failure_disables [OF assms(1,2,4-7)]
    by (auto simp: settledClock_def failureCount_def routineDeadlineV1_def)
qed

theorem failures_back_off_and_turn_off_witness:
  "\<exists>d' s'. settleFiring minuteEnv (minuteFire 60000) failedOutcome 61000
      (minuteStore None (Some (minuteClock 120000 None None)) (Some (minuteFire 60000)) []) = Inr d' \<and>
    storedClock minuteEnv d' ''r1'' = Some s' \<and> failureCount s' = 1 \<and> 91000 \<le> routineDeadlineV1 s'"
proof -
  let ?d = "minuteStore None (Some (minuteClock 120000 None None)) (Some (minuteFire 60000)) []"
  obtain d' where d': "settleFiring minuteEnv (minuteFire 60000) failedOutcome 61000 ?d = Inr d'"
    using minute_settle_failed by blast
  have "clock_ok (rv_parse minuteEnv) (minuteClock 120000 None None)"
    by (intro minuteClock_ok) (simp_all add: ROUTINE_HORIZON_def)
  then have clock: "storedClock minuteEnv ?d ''r1'' = Some (minuteClock 120000 None None)"
    by (intro minuteStore_clock) simp
  then have counts: "failures_below MAX_SAFE_INTEGER minuteEnv ?d"
    by (auto simp: failures_below_def storedClock_def clockAt_def minuteStore_def kv_get_def MAX_SAFE_INTEGER_def
        emptyRoutineStore_def split: if_splits)
  have "in_time 61000" by (simp add: in_time_def ROUTINE_HORIZON_def)
  moreover have "readRoutine minuteEnv ?d (rf_routineId (minuteFire 60000)) = Some (minuteRoutine None)"
    by (simp add: minuteStore_read)
  moreover have "storedClock minuteEnv ?d (rf_routineId (minuteFire 60000)) = Some (minuteClock 120000 None None)"
    using clock by simp
  moreover have "fo_status failedOutcome = Fire_Failed \<or> fo_status failedOutcome = Fire_Cancelled"
    by (simp add: failedOutcome_def)
  ultimately obtain s' where "storedClock minuteEnv d' ''r1'' = Some s'"
    "failureCount s' = Suc (failureCount (minuteClock 120000 None None))"
    "61000 + backoffAfter (Suc (failureCount (minuteClock 120000 None None))) \<le> routineDeadlineV1 s'"
    using failures_back_off_and_turn_off [OF minuteEnv_ok _ counts d'] by auto
  with d' show ?thesis
    by (auto simp: failureCount_def backoffAfter_def ROUTINE_FAILURE_BACKOFF_MS_def)
qed

text \<open>C21: One answer can stop every Routine of a Bot: when the Turn of the first unsettled firing completed with a text whose first
  two thousand units are blank, the row of its firing has a blank summary, which the codec of the run log refuses; the reaping
  throws there each time the alarm fires, nothing is written and no firing is claimed again.\<close>

theorem blank_answer_stops_routines:
  assumes "rs_fires d = (key, locked) # rest" and "decodeRoutineFireV1 (rv_parse env) locked = Inr fire"
    and "recordAt d (rf_routineId fire) \<noteq> None"
    and "kv_get runs (RUN_PREFIX @ unjs (rf_fireId fire)) = Some run"
    and "r_status run = Run_Completed" and "r_responseText run = Some said"
    and "trim said \<noteq> []" and "trim (slice0 said 2000) = []"
  shows "\<exists>e. settle_firings env (routineFiringRunV1 runs) timezone now claimAt settleAt answer d = (Some e, d)"
proof -
  have run: "routineFiringRunV1 runs fire = Run_Settled \<lparr>fo_status = Fire_Ok, fo_summary = Some said\<rparr>"
    using assms(4-7) by (simp add: routineFiringRunV1_def routineFireOutcomeV1_def)
  obtain e where "settleFiring env fire \<lparr>fo_status = Fire_Ok, fo_summary = Some said\<rparr> now d = Inl e"
    using blank_summary_refused [OF _ assms(8,3)] by fastforce
  then show ?thesis
    using assms(1,2) run by (simp add: settle_firings_def reapExpiredFirings_def)
qed

theorem blank_answer_stops_routines_witness:
  "\<exists>e. settle_firings minuteEnv (routineFiringRunV1 [(RUN_PREFIX @ unjs (rf_fireId (minuteFire 60000)), minuteRun)])
      (js ''UTC'') 70000 (\<lambda>n. 70000) (\<lambda>n. 70000) (\<lambda>n fire. None) (minuteStore None None (Some (minuteFire 60000)) []) =
    (Some e, minuteStore None None (Some (minuteFire 60000)) [])"
proof -
  have "fire_ok (rv_parse minuteEnv) (minuteFire 60000)" by (rule minuteFire_ok) (simp_all add: ROUTINE_HORIZON_def)
  then have fire: "decodeRoutineFireV1 (rv_parse minuteEnv) (fireJson (minuteFire 60000)) = Inr (minuteFire 60000)"
    by (rule fire_round_trip)
  have locks: "rs_fires (minuteStore None None (Some (minuteFire 60000)) []) =
      (routineFireKeyV1 ''r1'', fireJson (minuteFire 60000)) # []" by (simp add: minuteStore_def)
  have "r_status minuteRun = Run_Completed" "r_responseText minuteRun = Some blankAnswer" by (simp_all add: minuteRun_def)
  moreover have "recordAt (minuteStore None None (Some (minuteFire 60000)) []) (rf_routineId (minuteFire 60000)) \<noteq> None"
    by simp
  ultimately show ?thesis
    using blank_answer_stops_routines [OF locks fire, of "[(RUN_PREFIX @ unjs (rf_fireId (minuteFire 60000)), minuteRun)]"]
      blankAnswer_trim by (simp add: kv_get_def del: minuteFire_simps)
qed

section \<open>Commands and deliveries\<close>

text \<open>C22: A command is applied once: after a command was accepted, the same command id, at any time, from any writer, in any
  zone and with any options, changes nothing; with the same change for the same Bot it is answered the first receipt without
  the minted key, and with any other it is refused. What a fingerprint is equal to is the whole command.\<close>

theorem command_applies_once:
  assumes "executeCommand env opts now timezone writer approval c a = (Inr receipt, a')"
    and "kv_get (ra_receipts a) (routineReceiptKeyV1 (rc_commandId c)) = None"
    and "rc_commandId c' = rc_commandId c"
  shows "executeCommand env' opts' now' timezone' writer' approval' c' a' =
    (if rc_botId c' = rc_botId c \<and> rc_change c' = rc_change c then Inr (strippedReceipt receipt) else Inl Command_Reused,
     a')"
  using command_answered [OF assms] .

theorem command_applies_once_witness:
  "\<exists>a'. executeCommand minuteEnv minuteOptions 5 (js ''UTC'') Writer_User None (minuteCommand (Delete_Routine ''r1''))
      \<lparr>ra_store = minuteStore None None None [], ra_receipts = []\<rparr> = (Inr (Receipt_Deleted ''r1''), a') \<and>
    recordAt (ra_store a') ''r1'' = None \<and>
    executeCommand minuteEnv minuteOptions 9 (js ''UTC'') Writer_User None (minuteCommand (Delete_Routine ''r1'')) a' =
      (Inr (Receipt_Deleted ''r1''), a') \<and>
    executeCommand minuteEnv minuteOptions 9 (js ''UTC'') Writer_User None (minuteCommand (Pause_Routine ''r1'')) a' =
      (Inl Command_Reused, a')"
proof -
  let ?a = "\<lparr>ra_store = minuteStore None None None [], ra_receipts = []\<rparr>"
  obtain a' where a': "executeCommand minuteEnv minuteOptions 5 (js ''UTC'') Writer_User None
      (minuteCommand (Delete_Routine ''r1'')) ?a = (Inr (Receipt_Deleted ''r1''), a')"
    and "recordAt (ra_store a') ''r1'' = None"
    using minute_delete by blast
  moreover have "kv_get (ra_receipts ?a) (routineReceiptKeyV1 (rc_commandId (minuteCommand (Delete_Routine ''r1'')))) = None"
    by simp
  note once = command_applies_once [OF a' this]
  ultimately show ?thesis using once [of "minuteCommand (Delete_Routine ''r1'')"] once [of "minuteCommand (Pause_Routine ''r1'')"]
    by (auto simp: minuteCommand_def)
qed

text \<open>A fingerprint identifies a command: two commands have the same fingerprint exactly when they are for the same Bot and ask for
  the same change, field for field, whatever the order their fields were written in.\<close>

theorem command_fingerprint_exact:
  "routineCommandFingerprintV1 c = routineCommandFingerprintV1 c' \<longleftrightarrow> rc_botId c = rc_botId c' \<and> rc_change c = rc_change c'"
  by (rule fingerprint_command)

text \<open>C23: A delivery fires once: for a day after it was answered, while fewer than 256 receipts are held, the same delivery id
  is answered what the first one was, with any body and at any door, and nothing is written.\<close>

theorem delivery_fires_once:
  assumes "routine_env_ok env" and "in_time now" and "now \<le> now'" and "now' < now + ROUTINE_DELIVERY_TTL_MS"
    and "length (rs_deliveries d) < ROUTINE_DELIVERY_LIMIT" and "freshReceipt env now (dl_deliveryId input) d = None"
    and "deliverFiring env now (admitDelivery env input) input answer d = Inr (said, d')"
    and "admitDelivery env input' d' = Inr trigger" and "dl_deliveryId input' = dl_deliveryId input"
  shows "deliverFiring env now' (admitDelivery env input') input' answer' d' = Inr (replayAnswer said, d')"
  using delivery_answered [OF assms] .

theorem delivery_fires_once_witness:
  "\<exists>d'. deliverFiring minuteEnv 5 (admitDelivery minuteEnv hookDelivery) hookDelivery None hookStore =
      Inr (Accepted (routineFireIdV1 ''h1'' (js ''hook-d1'')), d') \<and>
    deliverFiring minuteEnv 9 (admitDelivery minuteEnv hookDelivery) hookDelivery None d' =
      Inr (Duplicate (routineFireIdV1 ''h1'' (js ''hook-d1'')), d')"
proof -
  have "in_time 5" by (simp add: in_time_def ROUTINE_HORIZON_def)
  obtain d' where "deliverFiring minuteEnv 5 (admitDelivery minuteEnv hookDelivery) hookDelivery None hookStore =
      Inr (Accepted (routineFireIdV1 ''h1'' (js ''hook-d1'')), d')"
    and "admitDelivery minuteEnv hookDelivery d' = Inr Webhook_Trigger"
    using hook_delivered by blast
  from this(1) delivery_fires_once [where now' = 9 and input' = hookDelivery and answer' = None, OF minuteEnv_ok \<open>in_time 5\<close> _ _ _ _ this] show ?thesis
    by (auto simp: ROUTINE_DELIVERY_TTL_MS_def ROUTINE_DELIVERY_LIMIT_def replayAnswer_def freshReceipt_def hookStore_def
        emptyRoutineStore_def simp del: js_simps)
qed

section \<open>Records\<close>

text \<open>What the Routines package stores it reads back exactly: a Routine, a row of the run log, a clock and a firing within
  their bounds survive being written and read, and whatever any of the four decoders accepts is within its bounds.\<close>

theorem routine_records_stored_exactly:
  "(routine_ok dp r \<longrightarrow> decodeRoutineRecordV1 dp (routineJson r) = Inr r) \<and>
   (decodeRoutineRecordV1 dp v = Inr r \<longrightarrow> routine_ok dp r) \<and>
   (routine_entry_ok dp e \<longrightarrow> decodeRoutineRunEntryV1 dp (routineEntryJson e) = Inr e) \<and>
   (decodeRoutineRunEntryV1 dp v = Inr e \<longrightarrow> routine_entry_ok dp e) \<and>
   (clock_ok dp s \<longrightarrow> decodeRoutineScheduleStateV1 dp (scheduleJson s) = Inr s) \<and>
   (decodeRoutineScheduleStateV1 dp v = Inr s \<longrightarrow> clock_ok dp s) \<and>
   (fire_ok dp f \<longrightarrow> decodeRoutineFireV1 dp (fireJson f) = Inr f) \<and>
   (decodeRoutineFireV1 dp v = Inr f \<longrightarrow> fire_ok dp f)"
  using routine_round_trip entry_round_trip clock_round_trip fire_round_trip decodeRoutineRecordV1_Inr
    decodeRoutineRunEntryV1_Inr decodeRoutineScheduleStateV1_Inr decodeRoutineFireV1_Inr by blast

theorem routine_records_stored_exactly_witness:
  "decodeRoutineRecordV1 (rv_parse minuteEnv) (routineJson (minuteRoutine None)) = Inr (minuteRoutine None)"
  using routine_records_stored_exactly [of "rv_parse minuteEnv" "minuteRoutine None"] minuteRoutine_ok [of 0 None] by simp

lemma segments_at:
  assumes "textIndexOf [newline, newline] (h @ newline # newline # s) = Some (length h)"
  shows "routineCueSegmentsV1 (h @ newline # newline # s) promptBy =
    (By_Platform, h @ [newline]) #
    (let writer = (if promptBy = Some By_User then By_Routine else By_The_Bot) in
     case textIndexOf (newline # newline # ROUTINE_CUE_PAYLOAD_LABEL_V1 @ [newline]) s of
       None \<Rightarrow> [(writer, s)]
     | Some q \<Rightarrow> [(writer, take q s @ [newline]), (By_External, drop (q + 2) s)])"
  using assms by (simp add: routineCueSegmentsV1_def Let_def split: option.splits)

text \<open>C27: A Bot can put words into the mouth of the person: renaming a Routine the person made needs no approval and leaves its
  prompt theirs; when the new name holds a blank line, the cue of its next firing is cut there, and what follows the blank line
  is attributed to the person, before the prompt.\<close>

theorem renaming_speaks_for_the_person:
  assumes "rr_createdBy r = Writer_User" and "newline \<notin> set before" and "newline \<notin> set spoken"
    and "r' = updatedRecord r (Writer_Bot b sid t) at None (Some (before @ newline # newline # spoken)) None None None None"
    and "length (cueHead (rr_name r') trigger None @ newline # newline # cueTail (rr_prompt r') None) \<le> ROUTINE_CUE_MAX_LENGTH"
  shows "rr_prompt r' = rr_prompt r \<and> routinePromptByV1 r' = By_User \<and>
    (\<exists>rest others. routineCueSegmentsV1 (routineCueV1 (rr_name r') (rr_prompt r') trigger None None)
        (Some (routinePromptByV1 r')) =
      (By_Platform, js ''Routine '' @ [0x22] @ before @ [newline]) # (By_Routine, spoken @ rest) # others)"
proof -
  have name: "rr_name r' = before @ newline # newline # spoken" and prompt: "rr_prompt r' = rr_prompt r"
    and user: "routinePromptByV1 r' = By_User"
    using assms(1,4) by (simp_all add: updatedRecord_def routinePromptByV1_def Let_def)
  let ?after = "[0x22] @ js '' fired ('' @ js (triggerName trigger) @ js '').'' @ newline # newline # cueTail (rr_prompt r') None"
  let ?head = "js ''Routine '' @ [0x22] @ before"
  have cue: "routineCueV1 (rr_name r') (rr_prompt r') trigger None None = ?head @ newline # newline # spoken @ ?after"
    using cue_split [OF assms(5)] unfolding name by (simp add: cueHead_def cueHeader_def lateLines_def del: js_simps)
  have "newline \<notin> set ?head" using assms(2) plain_lines(1) by (simp add: newline_def del: js_simps)
  then have at: "textIndexOf [newline, newline] (?head @ newline # newline # spoken @ ?after) = Some (length ?head)"
    by (subst textIndexOf_skip) (simp_all del: js_simps)
  let ?label = "newline # newline # ROUTINE_CUE_PAYLOAD_LABEL_V1 @ [newline]"
  have skip: "textIndexOf ?label (spoken @ ?after) = map_option (\<lambda>i. length spoken + i) (textIndexOf ?label ?after)"
    using assms(3) by (intro textIndexOf_skip) simp_all
  have "\<exists>rest others. routineCueSegmentsV1 (?head @ newline # newline # spoken @ ?after) (Some By_User) =
      (By_Platform, ?head @ [newline]) # (By_Routine, spoken @ rest) # others"
    unfolding segments_at [OF at] Let_def skip by (cases "textIndexOf ?label ?after") simp_all
  then show ?thesis unfolding cue user using prompt by simp
qed

theorem renaming_speaks_for_the_person_witness:
  "\<exists>rest others. routineCueSegmentsV1 (routineCueV1 (js ''N'' @ newline # newline # js ''Pay Bob'') (js ''Read the news'') Cron None None)
      (Some By_User) =
    (By_Platform, js ''Routine '' @ [0x22] @ js ''N'' @ [newline]) # (By_Routine, js ''Pay Bob'' @ rest) # others"
proof -
  let ?r = "updatedRecord (minuteRoutine None) (Writer_Bot (js ''b'') (js ''s'') (js ''t'')) (js ''9'') None
    (Some (js ''N'' @ newline # newline # js ''Pay Bob'')) None None None None"
  have name: "rr_name ?r = js ''N'' @ newline # newline # js ''Pay Bob''" and prompt: "rr_prompt ?r = js ''Read the news''"
    by (simp_all add: updatedRecord_def minuteRoutine_def Let_def del: js_simps)
  have user: "rr_createdBy (minuteRoutine None) = Writer_User" by (simp add: minuteRoutine_def)
  have plain: "newline \<notin> set (js ''N'')" "newline \<notin> set (js ''Pay Bob'')" by (simp_all add: newline_def)
  have "length (cueHead (rr_name ?r) Cron None @ newline # newline # cueTail (rr_prompt ?r) None) \<le> ROUTINE_CUE_MAX_LENGTH"
    unfolding name prompt by (simp add: cueHead_def cueHeader_def cueTail_def lateLines_def triggerName_def
        ROUTINE_CUE_MAX_LENGTH_def)
  note renamed = renaming_speaks_for_the_person [OF user plain refl this]
  from renamed [THEN conjunct2, THEN conjunct1] renamed [THEN conjunct2, THEN conjunct2] show ?thesis
    unfolding name prompt by (simp del: js_simps)
qed

end
