(* ===== verification/Spec2Isabelle.thy ===== *)
theory Spec2Isabelle
  imports Authority_Properties Publication_Log Routine_Properties
begin

text \<open>
  FrockBot runs each Bot as one Cloudflare Durable Object. The object keeps a key-value storage, one
  alarm, and the Turns of the Bot: a message is admitted as a run, waits in a queue, runs through the agent
  loop, writes the events of its Session into a paged log, publishes what a client may see and settles.
  Routines are the work a Bot does on a clock or on an event: each firing is admitted as a run too. This
  development models that kernel (src/core/durable and the session part of src/core/contracts) and the
  Routines package (src/app/routines), and proves what the rest of the program relies on.

  \<^bold>\<open>Conventions.\<close> A JavaScript function that may throw is a function into a sum, the error on the left; a
  storage transaction that throws is rolled back, so its error carries no storage, and an operation of several
  transactions returns the storage with the error. Time, SHA-256 of the Session log, \<open>Date.parse\<close>, the hooks
  of other packages and the answers of models are arguments. Strings the code measures or cuts are lists of
  UTF-16 units; keys and ids, which their grammars keep ASCII, are HOL strings. A key family of the storage
  is an association list in key order (\<open>'v kv\<close>), whose laws are the locale \<open>durable_map\<close>.

  \<^bold>\<open>The shared base.\<close> \<open>Prelude\<close> (results, the key-value storage), \<open>Numerals\<close> (numbers in keys),
  \<open>Js_Strings\<close> (UTF-8 size, cutting, payload chunks: run-records.ts, session-event-log.ts), \<open>Storage_Keys\<close>
  (storage-keys.ts: no key belongs to two families, padded keys list in order), \<open>Json\<close> and \<open>Json_Parse\<close>
  (\<open>JSON.stringify\<close> and \<open>JSON.parse\<close>, inverse to each other), \<open>Turn_Errors\<close> (turn-errors.ts).

  \<^bold>\<open>The Session.\<close> \<open>Session_Events\<close> (types.ts, batch.ts: the event union, occurrence ids), \<open>Session_Journal\<close>
  and \<open>Session\<close> (contracts/session.ts: the validation of tool occurrences, the class \<open>Session\<close>, the repairs of
  an interrupted Turn), \<open>Turn_History\<close> (turn-history.ts: messages, the answer to every tool call) and
  \<open>Working_Context\<close> (durable/working-context.ts: the conversation head and its projection). They show which
  repairs leave a complete account and which keep a log acceptable.

  \<^bold>\<open>Runs.\<close> \<open>Run_Origins\<close> and \<open>Run_Records\<close> (run-records.ts: the record, its codec, the lanes and the command
  fingerprint), \<open>Run_Recovery\<close> (run-liveness.ts, run-recovery.ts) and \<open>Run_Terminal\<close> (run-terminal.ts:
  completing, cancelling and failing a run in one transaction). A stored record is consistent, equal
  fingerprints are equal commands, a recovery plan never repeats an external effect.

  \<^bold>\<open>The event log.\<close> \<open>Log_Store\<close> (session-event-log.ts: index, pages, projections, chunks, appends, rewrites,
  truncation, repair, migration), \<open>Session_Log\<close> (the representation relation \<open>log_rep\<close>) and \<open>Event_Log\<close> (the
  interface as the locale \<open>event_log\<close>, interpreted on the operations; its properties). The paged log refines
  a flat list of events.

  \<^bold>\<open>Publication.\<close> \<open>Publication\<close> (publication.ts) and \<open>Publication_Log\<close>: the store stands for an append-only list
  of updates and the number broadcast (\<open>pub_rep\<close>); commits append, replays are suffixes, drains deliver in
  order. The locale \<open>drained_log\<close> is interpreted on it.

  \<^bold>\<open>The authority.\<close> \<open>Authority\<close> has one definition per transaction of authority.ts and the stop command of
  shell/turn.ts; \<open>Scheduler\<close> is the abstract machine (one active run, one parked run, two bounded queues);
  \<open>Authority_Frame\<close>, \<open>Authority_Steps\<close> and \<open>Authority_Recovery\<close> show that every transaction is a sequence of its
  steps and leaves owed work with an alarm; \<open>Authority_Machine\<close> is the step relation over whole storages,
  \<open>Authority_Samples\<close> a concrete run through it, and \<open>Authority_Properties\<close> what holds in every reachable storage:
  an admitted message is owed until it settles, admitted once, final once settled, stoppable, and served in order.

  \<^bold>\<open>Routines.\<close> \<open>Routine_Schedule\<close> (cron.ts), \<open>Routine_Records\<close> (records.ts, the records of firing.ts and inbox.ts),
  \<open>Routine_Firing\<close> (storage-keys.ts and firing.ts: keys, the firing id with its SHA-256, the cue and who wrote each
  part), \<open>Routine_Scheduler\<close> (scheduler.ts, the run log of store.ts, the failure entry of inbox-store.ts, the
  outcome of a firing's run in bot.ts) and \<open>Routine_Store\<close> (store.ts, the commands of shared.ts, the key record of hook.ts) are
  the definitions. \<open>Routine_Frame\<close> says what each operation leaves alone; \<open>Routine_Claims\<close> and \<open>Routine_Machine\<close>
  are the invariant of the clocks and the step relation \<open>routine_step\<close> over a Bot's Routines, under which the
  firings claimed for one Routine have strictly increasing due times; \<open>Routine_Queue\<close> has the two bounded
  lists of a Routine as lists; \<open>Routine_Commands\<close> and \<open>Routine_Settlement\<close> are the facts about commands, deliveries,
  claims, deferral and settlement. \<open>Routine_Order\<close> has the contract of a first-in first-out queue as the locale
  \<open>served_queue\<close>, interpreted on asking and claiming for every Routine in any order. \<open>Routine_Samples\<close> is a concrete environment
  with one Routine, and \<open>Routine_Properties\<close> states what the package guarantees, with the places where the code does not
  do what it means to.

  \<^bold>\<open>Bounds and fuel.\<close> Every recursion over data is structural or has a termination proof. Only \<open>JSON.parse\<close> takes fuel,
  the length of its text, which is proved enough for every text \<open>JSON.stringify\<close> writes. The loop over the
  queues has the code's own 66 attempts, which are proved enough for its two bounded queues, and the
  drain of the Routines the code's own eight rounds. The times of the Routine invariant stay below
  \<open>ROUTINE_HORIZON\<close>, \<open>2 ^ 47\<close> milliseconds, within what a JavaScript date prints in four digits of a year.

  \<^bold>\<open>Environments.\<close> What the proofs need of code outside the model is stated as hypotheses: \<open>calendar_ok\<close>
  (the next run of a croner pattern is later than the moment it is asked from) and \<open>routine_env_ok\<close> (\<open>Date.parse\<close>
  reads what \<open>toISOString\<close> writes, a zone \<open>Intl\<close> knows has no blank at its ends, whether a pattern ever comes
  around depends on neither moment nor zone) for Routines, the laws of \<open>log_codec\<close> for the log (the decoder of an event reads what was
  written, equal digests are equal texts), and those of \<open>run_hooks\<close> and \<open>authority_env\<close>. Each is satisfied by the concrete
  environment of its witnesses.

  \<^bold>\<open>Not modelled.\<close> The agent loop and its model calls, the structural decoders of event payloads, the in-memory promises that
  wait for a Turn, the composition store behind a pin, the settings, Plugins, groups, billing and the
  other packages of src/app, the computers and providers, the Workers and the native client: they call the
  parts above or are glue over external services.
\<close>

end
